(* ===== verification/Prelude.thy ===== *)
theory Prelude
  imports Main "HOL-Library.Word" "HOL-Library.Monad_Syntax" "HOL-Library.Signed_Division"
begin

text \<open>
  Shared vocabulary of the development: the machine integer types of the C sources, C arrays
  and the memory operations the code applies to them, C strings, the allocator, and the
  generic lemmas the component theories rely on.

  Undefined behaviour of C is the value \<open>None\<close> of an option type: reading or writing outside
  an array, dereferencing \<open>NULL\<close>, reading an indeterminate byte, copying a negative number of
  bytes. A definition of type \<open>\<dots> \<Rightarrow> 'a option\<close> models a C function that can have undefined
  behaviour, and a theorem that it returns \<open>Some\<close> states that it has none.
\<close>

unbundle bit_operations_syntax

type_synonym u8 = "8 word"
type_synonym u16 = "16 word"
type_synonym u32 = "32 word"
type_synonym u64 = "64 word"

named_theorems mem_simps \<open>evaluation of the array operations on arrays split at the access\<close>

lemma ucast_u8_u32 [simp]: "ucast (ucast (b :: u8) :: u32) = b"
  by (rule bit_word_eqI) (auto simp: bit_simps)

lemma u16_small: "0 \<le> k \<Longrightarrow> k < 2 ^ 16 \<Longrightarrow> uint (word_of_int k :: u16) = k"
  by (simp add: uint_word_of_int mod_pos_pos_trivial)

section \<open>C arrays\<close>

text \<open>
  A C array is the list of its cells; a cell is \<open>None\<close> while it is indeterminate (fresh from
  \<open>malloc\<close>, or an automatic variable that was never written).
\<close>

type_synonym 'a cells = "'a option list"

definition in_range :: "'a list \<Rightarrow> int \<Rightarrow> int \<Rightarrow> bool" where
  "in_range a i n \<longleftrightarrow> 0 \<le> i \<and> 0 \<le> n \<and> i + n \<le> int (length a)"

text \<open>\<open>a[i]\<close> as a value: undefined out of range and on an indeterminate cell.\<close>

definition aread :: "'a cells \<Rightarrow> int \<Rightarrow> 'a option" where
  "aread a i = (if in_range a i 1 then a ! nat i else None)"

text \<open>\<open>a[i] = x\<close>.\<close>

definition awrite :: "'a cells \<Rightarrow> int \<Rightarrow> 'a \<Rightarrow> 'a cells option" where
  "awrite a i x = (if in_range a i 1 then Some (a[nat i := Some x]) else None)"

text \<open>
  \<open>memcpy (dst + d, src + s, n)\<close> and, with \<open>dst\<close> and \<open>src\<close> the same array,
  \<open>memmove (a + d, a + s, n)\<close>; indices and \<open>n\<close> count array elements. A negative \<open>n\<close> is a huge
  \<open>size_t\<close> and so out of range.
\<close>

definition blit :: "'a list \<Rightarrow> int \<Rightarrow> 'a list \<Rightarrow> int \<Rightarrow> int \<Rightarrow> 'a list option" where
  "blit dst d src s n =
     (if in_range dst d n \<and> in_range src s n
      then Some (take (nat d) dst @ take (nat n) (drop (nat s) src) @ drop (nat (d + n)) dst)
      else None)"

text \<open>\<open>memset (a + d, v, n)\<close>.\<close>

definition afill :: "'a cells \<Rightarrow> int \<Rightarrow> 'a \<Rightarrow> int \<Rightarrow> 'a cells option" where
  "afill a d v n = blit a d (replicate (nat n) (Some v)) 0 n"

lemma in_range_0 [simp]: "0 \<le> i \<Longrightarrow> i \<le> int (length a) \<Longrightarrow> in_range a i 0"
  by (simp add: in_range_def)

lemma aread_split [mem_simps]: "i = int (length A) \<Longrightarrow> aread (A @ x # B) i = x"
  by (simp add: aread_def in_range_def nth_append)

lemma awrite_split [mem_simps]:
  "i = int (length A) \<Longrightarrow> awrite (A @ x # B) i y = Some (A @ Some y # B)"
  by (simp add: awrite_def in_range_def list_update_append)

lemma blit_split [mem_simps]:
  assumes "d = int (length A)" and "n = int (length M)" and "length M' = length M"
    and "s = int (length S1)"
  shows "blit (A @ M' @ B) d (S1 @ M @ S2) s n = Some (A @ M @ B)"
proof -
  have "nat (int (length A) + int (length M)) = length A + length M" by simp
  then show ?thesis using assms by (simp add: blit_def in_range_def)
qed

lemma blit_None_iff: "blit dst d src s n = None \<longleftrightarrow> \<not> (in_range dst d n \<and> in_range src s n)"
  by (simp add: blit_def)

lemma length_blit: "blit dst d src s n = Some a \<Longrightarrow> length a = length dst"
  by (auto simp: blit_def in_range_def split: if_splits)

lemma length_awrite: "awrite a i x = Some b \<Longrightarrow> length b = length a"
  by (auto simp: awrite_def split: if_splits)

lemma length_afill: "afill a d v n = Some b \<Longrightarrow> length b = length a"
  by (auto simp: afill_def dest: length_blit)

text \<open>A move within one array, for a list cut in the two ways the move cuts it.\<close>

lemma blit_within:
  assumes "a = A @ M' @ B" and "a = S1 @ M @ S2" and "d = int (length A)"
    and "n = int (length M)" and "length M' = length M" and "s = int (length S1)"
  shows "blit a d a s n = Some (A @ M @ B)"
proof -
  have "blit a d a s n = blit (A @ M' @ B) d (S1 @ M @ S2) s n"
    using assms(1,2) by simp
  also have "\<dots> = Some (A @ M @ B)" by (rule blit_split) (use assms in auto)
  finally show ?thesis .
qed

text \<open>
  \<open>memmove\<close> of a middle part \<open>M\<close> from after \<open>C\<close> to \<open>n\<close> cells after \<open>P\<close>: opens a gap, closes one,
  or shifts, depending on the length of \<open>C\<close> and on \<open>n\<close>.
\<close>

lemma blit_shift:
  assumes "a = P @ C @ M @ J" and "n \<le> length C + length J"
    and "d = int (length P + n)" and "s = int (length P + length C)" and "m = int (length M)"
  obtains Z W where "blit a d a s m = Some (P @ Z @ M @ W)" and "length Z = n"
    and "length W + n = length C + length J"
proof
  let ?T = "C @ M @ J"
  have "nat (int (length P + n) + int (length M)) = length P + (n + length M)" by simp
  then show "blit a d a s m = Some (P @ take n ?T @ M @ drop (n + length M) ?T)"
    using assms unfolding blit_def in_range_def
    by (simp add: nat_int_add del: take_append drop_append) (simp add: add.commute)
  show "length (take n ?T) = n" using assms(2) by simp
  show "length (drop (n + length M) ?T) + n = length C + length J" using assms(2) by simp
qed

section \<open>C strings\<close>

abbreviation NUL :: char where "NUL \<equiv> CHR 0x00"
abbreviation NL :: char where "NL \<equiv> CHR 0x0A"
abbreviation SPACE :: char where "SPACE \<equiv> CHR 0x20"
abbreviation APOS :: char where "APOS \<equiv> CHR 0x27"
abbreviation BSLASH :: char where "BSLASH \<equiv> CHR 0x5C"
abbreviation TAB :: char where "TAB \<equiv> CHR 0x09"
abbreviation QUOTE :: char where "QUOTE \<equiv> CHR 0x22"

text \<open>
  The string a \<open>char\<close> pointer denotes: the characters before the first \<open>NUL\<close>. Reading it is
  undefined when the array ends, or has an indeterminate cell, before a \<open>NUL\<close>.
\<close>

fun cstring :: "char cells \<Rightarrow> string option" where
  "cstring [] = None"
| "cstring (None # cs) = None"
| "cstring (Some c # cs) = (if c = NUL then Some [] else map_option ((#) c) (cstring cs))"

lemma cstring_terminated [simp]: "NUL \<notin> set s \<Longrightarrow> cstring (map Some s @ Some NUL # r) = Some s"
  by (induction s) auto

lemma cstring_indeterminate: "NUL \<notin> set s \<Longrightarrow> cstring (map Some s @ None # r) = None"
  by (induction s) auto

lemma cstring_unterminated: "NUL \<notin> set s \<Longrightarrow> cstring (map Some s) = None"
  by (induction s) auto

lemma cstring_no_NUL: "cstring a = Some s \<Longrightarrow> NUL \<notin> set s"
  by (induction a arbitrary: s rule: cstring.induct) (auto split: if_splits)

lemma cstring_prefix: "cstring a = Some s \<Longrightarrow> \<exists>r. a = map Some s @ Some NUL # r"
  by (induction a arbitrary: s rule: cstring.induct) (auto split: if_splits)

text \<open>\<open>strncpy (dst, s, n)\<close>: at most \<open>n\<close> characters, padded with \<open>NUL\<close> up to \<open>n\<close>.\<close>

definition strncpy :: "char cells \<Rightarrow> string \<Rightarrow> nat \<Rightarrow> char cells option" where
  "strncpy dst s n = blit dst 0 (map Some (take n (s @ replicate n NUL))) 0 (int n)"

lemma strncpy_eq:
  assumes "n \<le> length dst"
  shows "strncpy dst s n = Some (map Some (take n s) @ replicate (n - length s) (Some NUL) @ drop n dst)"
  using assms by (cases "n \<le> length s") (auto simp: strncpy_def blit_def in_range_def)

text \<open>The string a buffer of \<open>n + 1\<close> bytes with a final \<open>NUL\<close> holds after \<open>strncpy\<close> of \<open>n\<close>.\<close>

lemma cstring_strncpy:
  assumes "length dst = Suc n" and "dst ! n = Some NUL" and "NUL \<notin> set s"
  shows "\<exists>a. strncpy dst s n = Some a \<and> cstring a = Some (take n s) \<and> length a = Suc n
             \<and> a ! n = Some NUL"
proof -
  have d: "drop n dst = [Some NUL]"
    using assms(1,2) by (metis Cons_nth_drop_Suc drop_all lessI order_refl)
  have nul: "NUL \<notin> set (take n s)" using assms(3) by (meson in_set_takeD)
  let ?a = "map Some (take n s) @ replicate (n - length s) (Some NUL) @ [Some NUL]"
  have "strncpy dst s n = Some ?a" using assms(1) d by (simp add: strncpy_eq)
  moreover have "cstring ?a = Some (take n s)"
    using nul by (cases "n - length s") simp_all
  moreover have "length ?a = Suc n" by simp
  moreover have "?a ! n = Some NUL" by (auto simp: nth_append)
  ultimately show ?thesis by blast
qed

section \<open>The allocator\<close>

text \<open>
  \<open>malloc\<close> may fail, and when is not determined by the program: a heap is the list of the
  outcomes of the calls to come, with \<open>[]\<close> meaning that every later call succeeds. Theorems
  quantify over the heap, so they hold for every pattern of failures. The memory \<open>malloc\<close>
  returns is indeterminate.
\<close>

type_synonym heap = "bool list"

definition malloc_ok :: "heap \<Rightarrow> bool \<times> heap" where
  "malloc_ok h = (case h of [] \<Rightarrow> (True, []) | b # h' \<Rightarrow> (b, h'))"

definition fresh :: "int \<Rightarrow> 'a cells" where
  "fresh n = replicate (nat n) None"

lemma malloc_ok_Nil [simp]: "malloc_ok [] = (True, [])"
  by (simp add: malloc_ok_def)

lemma length_fresh [simp]: "length (fresh n) = nat n"
  by (simp add: fresh_def)

text \<open>
  The growth loop of every growable buffer of the code,
  \<open>new_cap = cap ? cap * 2 : init; while (new_cap <= needed) new_cap *= 2;\<close>.
  \<open>cap\<close> is never negative and \<open>init\<close> is positive, so \<open>new_cap\<close> is positive and the loop ends.
\<close>

function grow_cap :: "int \<Rightarrow> int \<Rightarrow> int" where
  "grow_cap c needed = (if 0 < c \<and> c \<le> needed then grow_cap (c * 2) needed else c)"
  by pat_completeness auto
termination
  by (relation "measure (\<lambda>(c, needed). nat (needed + 1 - c))") auto

declare grow_cap.simps [simp del]

lemma grow_cap_gt: "0 < c \<Longrightarrow> needed < grow_cap c needed"
proof (induction c needed rule: grow_cap.induct)
  case (1 c needed)
  then show ?case by (cases "c \<le> needed") (simp_all add: grow_cap.simps [of c needed])
qed

lemma grow_cap_ge: "0 < c \<Longrightarrow> c \<le> grow_cap c needed"
proof (induction c needed rule: grow_cap.induct)
  case (1 c needed)
  then show ?case by (cases "c \<le> needed") (auto simp add: grow_cap.simps [of c needed])
qed

text \<open>The result is less than twice what is needed, unless the first step already suffices.\<close>

lemma grow_cap_tight: "0 < c \<Longrightarrow> c \<le> needed \<Longrightarrow> grow_cap c needed \<le> 2 * needed"
proof (induction c needed rule: grow_cap.induct)
  case (1 c needed)
  show ?case
  proof (cases "c * 2 \<le> needed")
    case True
    with 1 show ?thesis by (simp add: grow_cap.simps [of c needed])
  next
    case False
    then have "grow_cap (c * 2) needed = c * 2" by (simp add: grow_cap.simps [of "c * 2"])
    with 1 show ?thesis by (simp add: grow_cap.simps [of c needed])
  qed
qed

section \<open>Options as computations that may be undefined\<close>

lemma bind_SomeI: "m = Some x \<Longrightarrow> f x = y \<Longrightarrow> Option.bind m f = y"
  by simp

lemma those_map_Some: "those (map Some xs) = Some xs"
  by (induction xs) auto

lemma replicate_split: "k \<le> n \<Longrightarrow> replicate n x = replicate k x @ replicate (n - k) x"
  by (simp flip: replicate_add)

lemma list_all2_split:
  assumes "list_all2 R xs ys" and "i < length ys"
  obtains A x B where "xs = A @ x # B" and "length A = i" and "R x (ys ! i)"
    and "list_all2 R A (take i ys)" and "list_all2 R B (drop (Suc i) ys)"
proof -
  have l: "length xs = length ys" using assms(1) by (rule list_all2_lengthD)
  have "xs = take i xs @ xs ! i # drop (Suc i) xs"
    using assms(2) l by (simp add: id_take_nth_drop)
  moreover have "length (take i xs) = i" using assms(2) l by simp
  moreover have "R (xs ! i) (ys ! i)" using assms l by (simp add: list_all2_nthD)
  moreover have "list_all2 R (take i xs) (take i ys)" using assms(1) by (rule list_all2_takeI)
  moreover have "list_all2 R (drop (Suc i) xs) (drop (Suc i) ys)"
    using assms(1) by (rule list_all2_dropI)
  ultimately show ?thesis using that by blast
qed

end
