(* ===== verification/Editor.thy ===== *)
theory Editor
  imports Prelude
begin

text \<open>
  \<open>model/editor/editor.c\<close>: the text buffer, the cursor, the scroll position, the selection, the
  clipboard and the remote peer's cursor, at the level of the code's arrays: \<open>lines\<close> is the
  \<open>malloc\<close>ed array of \<open>row_cap\<close> \<open>Line\<close> structures (\<open>NULL\<close> is \<open>None\<close>), each \<open>Line\<close> has its own
  \<open>malloc\<close>ed buffer of \<open>cap\<close> bytes. Every access goes through the checked operations of the
  prelude, so a result \<open>Some\<close> means that the call stays inside its arrays.

  Buffers are kept inside the structure that points to them; slots of \<open>lines\<close> beyond
  \<open>row_count\<close> can hold stale copies of a structure in the code too, and no operation writes
  through them. C \<open>int\<close>s are mathematical integers: the sizes stay below the memory that can be
  allocated.
\<close>

definition LINE_BUF_INIT_CAP :: int where "LINE_BUF_INIT_CAP = 32"
definition LINES_INIT_CAP :: int where "LINES_INIT_CAP = 16"

datatype EditorResult = EDITOR_OK | EDITOR_ERR_NO_CLIPBOARD | EDITOR_ERR_ALLOC_FAILED

record Line =
  ln_buf :: "char cells option"
  ln_len :: int
  ln_cap :: int

definition null_line :: Line where
  "null_line = \<lparr>ln_buf = None, ln_len = 0, ln_cap = 0\<rparr>"

record editor =
  lines :: "Line cells option"
  row_cap :: int
  cursor_row :: int
  cursor_col :: int
  row_count :: int
  scroll_row :: int
  scroll_col :: int
  visible_rows :: int
  visible_cols :: int
  scroll_dirty :: bool
  sel_active :: bool
  sel_anchor_row :: int
  sel_anchor_col :: int
  sel_dirty :: bool
  ed_remote :: bool
  remote_cursor_row :: int
  remote_cursor_col :: int
  clipboard :: "char cells option"
  heap :: heap

text \<open>The static initial values.\<close>

definition editor0 :: "heap \<Rightarrow> editor" where
  "editor0 h = \<lparr>lines = None, row_cap = 0, cursor_row = 0, cursor_col = 0, row_count = 1,
     scroll_row = 0, scroll_col = 0, visible_rows = 0, visible_cols = 0, scroll_dirty = False,
     sel_active = False, sel_anchor_row = 0, sel_anchor_col = 0, sel_dirty = False,
     ed_remote = False, remote_cursor_row = -1, remote_cursor_col = -1, clipboard = None, heap = h\<rparr>"

section \<open>Growing the buffers\<close>

definition line_ensure_cap :: "Line \<Rightarrow> int \<Rightarrow> heap \<Rightarrow> (bool \<times> Line \<times> heap) option" where
  "line_ensure_cap ln needed h =
     (if needed < ln_cap ln then Some (True, ln, h)
      else
        let new_cap = grow_cap (if ln_cap ln \<noteq> 0 then ln_cap ln * 2 else LINE_BUF_INIT_CAP) needed;
            (ok, h) = malloc_ok h
        in if \<not> ok then Some (False, ln, h)
           else do {
             new_buf \<leftarrow> (case ln_buf ln of
                 Some old \<Rightarrow> blit (fresh new_cap) 0 old 0 (ln_len ln + 1)
               | None \<Rightarrow> awrite (fresh new_cap) 0 NUL);
             Some (True, ln\<lparr>ln_buf := Some new_buf, ln_cap := new_cap\<rparr>, h)
           })"

definition lines_ensure_cap :: "int \<Rightarrow> editor \<Rightarrow> (bool \<times> editor) option" where
  "lines_ensure_cap needed e =
     (if needed < row_cap e then Some (True, e)
      else
        let new_cap = grow_cap (if row_cap e \<noteq> 0 then row_cap e * 2 else LINES_INIT_CAP) needed;
            (ok, h) = malloc_ok (heap e)
        in if \<not> ok then Some (False, e\<lparr>heap := h\<rparr>)
           else do {
             new_arr \<leftarrow> (case lines e of
                 Some old \<Rightarrow> blit (fresh new_cap) 0 old 0 (row_count e)
               | None \<Rightarrow> Some (fresh new_cap));
             Some (True, e\<lparr>lines := Some new_arr, row_cap := new_cap, heap := h\<rparr>)
           })"

section \<open>Access to the lines\<close>

definition line_at :: "editor \<Rightarrow> int \<Rightarrow> Line option" where
  "line_at e i = do { ls \<leftarrow> lines e; aread ls i }"

definition set_line :: "int \<Rightarrow> Line \<Rightarrow> editor \<Rightarrow> editor option" where
  "set_line i ln e = do { ls \<leftarrow> lines e; ls' \<leftarrow> awrite ls i ln; Some (e\<lparr>lines := Some ls'\<rparr>) }"

text \<open>\<open>memmove (lines + d, lines + s, n * sizeof (Line))\<close>.\<close>

definition move_lines :: "int \<Rightarrow> int \<Rightarrow> int \<Rightarrow> editor \<Rightarrow> editor option" where
  "move_lines d s n e = do { ls \<leftarrow> lines e; ls' \<leftarrow> blit ls d ls s n; Some (e\<lparr>lines := Some ls'\<rparr>) }"

text \<open>An operation on \<open>lines[i]\<close> that may allocate, and one that does not.\<close>

definition on_line :: "int \<Rightarrow> (Line \<Rightarrow> heap \<Rightarrow> (bool \<times> Line \<times> heap) option) \<Rightarrow> editor \<Rightarrow> (bool \<times> editor) option" where
  "on_line i f e = do {
     ln \<leftarrow> line_at e i;
     (ok, ln', h) \<leftarrow> f ln (heap e);
     e' \<leftarrow> set_line i ln' e;
     Some (ok, e'\<lparr>heap := h\<rparr>)
   }"

definition upd_line :: "int \<Rightarrow> (Line \<Rightarrow> Line option) \<Rightarrow> editor \<Rightarrow> editor option" where
  "upd_line i f e = do {
     ln \<leftarrow> line_at e i;
     ln' \<leftarrow> f ln;
     set_line i ln' e
   }"

definition buf_at :: "editor \<Rightarrow> int \<Rightarrow> char cells option" where
  "buf_at e i = do { ln \<leftarrow> line_at e i; ln_buf ln }"

section \<open>Setup\<close>

text \<open>\<open>for (r = from; r < from + n; r++) free (lines[r].buf);\<close> reads each of the structures.\<close>

fun free_rows :: "editor \<Rightarrow> int \<Rightarrow> nat \<Rightarrow> unit option" where
  "free_rows e r 0 = Some ()"
| "free_rows e r (Suc n) = do { _ \<leftarrow> line_at e r; free_rows e (r + 1) n }"

definition editor_cleanup :: "editor \<Rightarrow> editor option" where
  "editor_cleanup e = do {
     e \<leftarrow> (case lines e of None \<Rightarrow> Some e
          | Some _ \<Rightarrow> do {
              _ \<leftarrow> free_rows e 0 (nat (row_count e));
              Some (e\<lparr>lines := None, row_cap := 0\<rparr>)
            });
     Some (e\<lparr>clipboard := None\<rparr>)
   }"

text \<open>The result is 0 (\<open>True\<close>) or -1 (\<open>False\<close>).\<close>

definition editor_init :: "editor \<Rightarrow> (bool \<times> editor) option" where
  "editor_init e = do {
     e \<leftarrow> editor_cleanup e;
     let e = e\<lparr>row_count := 1\<rparr>;
     (ok, e) \<leftarrow> lines_ensure_cap 0 e;
     if \<not> ok then Some (False, e) else do {
       e \<leftarrow> set_line 0 null_line e;
       (ok, e) \<leftarrow> on_line 0 (\<lambda>ln. line_ensure_cap ln 0) e;
       if \<not> ok then Some (False, e) else
         Some (True, e\<lparr>cursor_row := 0, cursor_col := 0, scroll_row := 0, scroll_col := 0,
           scroll_dirty := False, sel_active := False, sel_dirty := False, ed_remote := False\<rparr>)
     }
   }"

definition editor_set_viewport :: "int \<Rightarrow> int \<Rightarrow> editor \<Rightarrow> editor" where
  "editor_set_viewport rows cols e = e\<lparr>visible_rows := rows, visible_cols := cols\<rparr>"

section \<open>Scrolling and cursor placement\<close>

definition clamp_scroll :: "editor \<Rightarrow> editor" where
  "clamp_scroll e =
     (let e = (if cursor_row e < scroll_row e
               then e\<lparr>scroll_row := cursor_row e, scroll_dirty := True\<rparr>
               else if scroll_row e + visible_rows e \<le> cursor_row e
               then e\<lparr>scroll_row := cursor_row e - visible_rows e + 1, scroll_dirty := True\<rparr>
               else e);
          e = (if cursor_col e < scroll_col e
               then e\<lparr>scroll_col := cursor_col e, scroll_dirty := True\<rparr>
               else if scroll_col e + visible_cols e \<le> cursor_col e
               then e\<lparr>scroll_col := cursor_col e - visible_cols e + 1, scroll_dirty := True\<rparr>
               else e)
      in if sel_active e then e\<lparr>sel_dirty := True\<rparr> else e)"

definition editor_scroll_by :: "int \<Rightarrow> int \<Rightarrow> editor \<Rightarrow> editor" where
  "editor_scroll_by drow dcol e =
     (let new_row = scroll_row e + drow;
          new_col = scroll_col e + dcol;
          new_row = (if new_row < 0 then 0 else new_row);
          new_row = (if row_count e - 1 < new_row then row_count e - 1 else new_row);
          new_col = (if new_col < 0 then 0 else new_col)
      in if new_row \<noteq> scroll_row e \<or> new_col \<noteq> scroll_col e
         then e\<lparr>scroll_row := new_row, scroll_col := new_col, scroll_dirty := True\<rparr>
         else e)"

definition editor_set_cursor :: "int \<Rightarrow> int \<Rightarrow> editor \<Rightarrow> editor option" where
  "editor_set_cursor row col e =
     (if remote_cursor_row e = row then Some e
      else do {
        let row = (if row < 0 then 0 else row);
        let row = (if row_count e \<le> row then row_count e - 1 else row);
        ln \<leftarrow> line_at e row;
        let col = (if col < 0 then 0 else col);
        let col = (if ln_len ln < col then ln_len ln else col);
        Some (clamp_scroll (e\<lparr>cursor_row := row, cursor_col := col\<rparr>))
      })"

definition editor_consume_scroll_dirty :: "editor \<Rightarrow> bool \<times> editor" where
  "editor_consume_scroll_dirty e = (scroll_dirty e, e\<lparr>scroll_dirty := False\<rparr>)"

section \<open>Edits of the buffer\<close>

text \<open>
  The local and the remote editing functions of the code make the same changes to the buffer, at
  the local and at the remote cursor. The changes are the following definitions, parameterised
  by the position; the functions of the code call them at their cursor. A \<open>bool\<close> result
  is \<open>False\<close> where the code returns \<open>EDITOR_ERR_ALLOC_FAILED\<close>.
\<close>

text \<open>A character into a line, at column \<open>c\<close>.\<close>

definition line_insert :: "int \<Rightarrow> char \<Rightarrow> Line \<Rightarrow> heap \<Rightarrow> (bool \<times> Line \<times> heap) option" where
  "line_insert c ch ln h = do {
     (ok, ln, h) \<leftarrow> line_ensure_cap ln (ln_len ln + 2) h;
     if \<not> ok then Some (False, ln, h) else do {
       b \<leftarrow> ln_buf ln;
       b \<leftarrow> blit b (c + 1) b c (ln_len ln - c + 1);
       b \<leftarrow> awrite b c ch;
       Some (True, ln\<lparr>ln_buf := Some b, ln_len := ln_len ln + 1\<rparr>, h)
     }
   }"

text \<open>The characters from \<open>c\<close> up to \<open>c'\<close> out of a line; \<open>extra\<close> is the number of bytes of the tail to move.\<close>

definition line_cut :: "int \<Rightarrow> int \<Rightarrow> int \<Rightarrow> Line \<Rightarrow> Line option" where
  "line_cut c c' extra ln = do {
     b \<leftarrow> ln_buf ln;
     b \<leftarrow> blit b c b c' extra;
     Some (ln\<lparr>ln_buf := Some b, ln_len := ln_len ln - (c' - c)\<rparr>)
   }"

text \<open>\<open>buf[c] = 0; len = c;\<close>\<close>

definition line_truncate :: "int \<Rightarrow> Line \<Rightarrow> Line option" where
  "line_truncate c ln = do {
     b \<leftarrow> ln_buf ln;
     b \<leftarrow> awrite b c NUL;
     Some (ln\<lparr>ln_buf := Some b, ln_len := c\<rparr>)
   }"

text \<open>\<open>memcpy (buf + c, src + s, n + 1); len = c + n;\<close> after room was made for them: a text with its terminator.\<close>

definition line_put :: "int \<Rightarrow> int \<Rightarrow> char cells option \<Rightarrow> int \<Rightarrow> int \<Rightarrow> Line \<Rightarrow> heap \<Rightarrow> (bool \<times> Line \<times> heap) option" where
  "line_put needed c src s n ln h = do {
     (ok, ln, h) \<leftarrow> line_ensure_cap ln needed h;
     if \<not> ok then Some (False, ln, h) else do {
       b \<leftarrow> ln_buf ln;
       from \<leftarrow> src;
       b \<leftarrow> blit b c from s (n + 1);
       Some (True, ln\<lparr>ln_buf := Some b, ln_len := c + n\<rparr>, h)
     }
   }"

text \<open>The same with the terminator written separately: \<open>memcpy (buf + c, src + s, n); buf[c + n] = 0; len = c + n;\<close>\<close>

definition line_put0 :: "int \<Rightarrow> int \<Rightarrow> char cells option \<Rightarrow> int \<Rightarrow> int \<Rightarrow> Line \<Rightarrow> heap \<Rightarrow> (bool \<times> Line \<times> heap) option" where
  "line_put0 needed c src s n ln h = do {
     (ok, ln, h) \<leftarrow> line_ensure_cap ln needed h;
     if \<not> ok then Some (False, ln, h) else do {
       b \<leftarrow> ln_buf ln;
       from \<leftarrow> src;
       b \<leftarrow> blit b c from s n;
       b \<leftarrow> awrite b (c + n) NUL;
       Some (True, ln\<lparr>ln_buf := Some b, ln_len := c + n\<rparr>, h)
     }
   }"

text \<open>
  A slot for a new row after row \<open>r\<close>: room in the array, the rows below shifted down by one, a
  blank structure in the gap. \<open>row_count\<close> is not changed yet.
\<close>

definition open_row :: "int \<Rightarrow> editor \<Rightarrow> (bool \<times> editor) option" where
  "open_row r e = do {
     (ok, e) \<leftarrow> lines_ensure_cap (row_count e + 1) e;
     if \<not> ok then Some (False, e) else do {
       e \<leftarrow> move_lines (r + 2) (r + 1) (row_count e - r - 1) e;
       e \<leftarrow> set_line (r + 1) null_line e;
       Some (True, e)
     }
   }"

text \<open>A line break at row \<open>r\<close>, column \<open>c\<close>.\<close>

definition split_line :: "int \<Rightarrow> int \<Rightarrow> editor \<Rightarrow> (bool \<times> editor) option" where
  "split_line r c e = do {
     (ok, e) \<leftarrow> open_row r e;
     if \<not> ok then Some (False, e) else do {
       ln \<leftarrow> line_at e r;
       let tail_len = ln_len ln - c;
       (ok, e) \<leftarrow> on_line (r + 1) (line_put0 tail_len 0 (ln_buf ln) c tail_len) e;
       if \<not> ok then Some (False, e) else do {
         e \<leftarrow> upd_line r (line_truncate c) e;
         Some (True, e\<lparr>row_count := row_count e + 1\<rparr>)
       }
     }
   }"

text \<open>The line \<open>r\<close> appended to the line above it and removed.\<close>

definition merge_up :: "int \<Rightarrow> editor \<Rightarrow> (bool \<times> editor) option" where
  "merge_up r e = do {
     prev \<leftarrow> line_at e (r - 1);
     curr \<leftarrow> line_at e r;
     (ok, e) \<leftarrow> on_line (r - 1)
        (line_put (ln_len prev + ln_len curr + 1) (ln_len prev) (ln_buf curr) 0 (ln_len curr)) e;
     if \<not> ok then Some (False, e) else do {
       e \<leftarrow> move_lines r (r + 1) (row_count e - r - 1) e;
       e \<leftarrow> set_line (row_count e - 1) null_line e;
       Some (True, e\<lparr>row_count := row_count e - 1\<rparr>)
     }
   }"

definition alloc_result :: "bool \<Rightarrow> EditorResult" where
  "alloc_result ok = (if ok then EDITOR_OK else EDITOR_ERR_ALLOC_FAILED)"

definition editor_insert_char :: "char \<Rightarrow> editor \<Rightarrow> (EditorResult \<times> editor) option" where
  "editor_insert_char c e =
     (if c = NL then do {
        (ok, e) \<leftarrow> split_line (cursor_row e) (cursor_col e) e;
        Some (alloc_result ok,
          if ok then clamp_scroll (e\<lparr>cursor_row := cursor_row e + 1, cursor_col := 0\<rparr>) else e)
      } else do {
        (ok, e) \<leftarrow> on_line (cursor_row e) (line_insert (cursor_col e) c) e;
        Some (alloc_result ok,
          if ok then clamp_scroll (e\<lparr>cursor_col := cursor_col e + 1\<rparr>) else e)
      })"

definition editor_delete_char :: "editor \<Rightarrow> (EditorResult \<times> editor) option" where
  "editor_delete_char e =
     (if 0 < cursor_col e then do {
        let e = e\<lparr>cursor_col := cursor_col e - 1\<rparr>;
        ln \<leftarrow> line_at e (cursor_row e);
        e \<leftarrow> upd_line (cursor_row e) (line_cut (cursor_col e) (cursor_col e + 1) (ln_len ln - cursor_col e)) e;
        Some (EDITOR_OK, clamp_scroll e)
      } else if 0 < cursor_row e then do {
        prev \<leftarrow> line_at e (cursor_row e - 1);
        (ok, e) \<leftarrow> merge_up (cursor_row e) e;
        Some (alloc_result ok,
          if ok then clamp_scroll (e\<lparr>cursor_row := cursor_row e - 1, cursor_col := ln_len prev\<rparr>) else e)
      } else Some (EDITOR_OK, clamp_scroll e))"

text \<open>The loops \<open>while (c > 0 && p (buf[c - 1])) c--;\<close> and \<open>while (c < len && p (buf[c])) c++;\<close>.\<close>

function skip_back :: "(char \<Rightarrow> bool) \<Rightarrow> char cells option \<Rightarrow> int \<Rightarrow> int option" where
  "skip_back p buf c =
     (if 0 < c then do {
        b \<leftarrow> buf;
        x \<leftarrow> aread b (c - 1);
        if p x then skip_back p buf (c - 1) else Some c
      } else Some c)"
  by pat_completeness auto
termination
  by (relation "measure (\<lambda>(p, buf, c). nat c)") auto

function skip_forward :: "(char \<Rightarrow> bool) \<Rightarrow> char cells option \<Rightarrow> int \<Rightarrow> int \<Rightarrow> int option" where
  "skip_forward p buf len c =
     (if c < len then do {
        b \<leftarrow> buf;
        x \<leftarrow> aread b c;
        if p x then skip_forward p buf len (c + 1) else Some c
      } else Some c)"
  by pat_completeness auto
termination
  by (relation "measure (\<lambda>(p, buf, len, c). nat (len - c))") auto

declare skip_back.simps [simp del] skip_forward.simps [simp del]

definition word_left :: "Line \<Rightarrow> int \<Rightarrow> int option" where
  "word_left ln c = do {
     c \<leftarrow> skip_back (\<lambda>x. x = SPACE) (ln_buf ln) c;
     skip_back (\<lambda>x. x \<noteq> SPACE) (ln_buf ln) c
   }"

definition editor_delete_word :: "editor \<Rightarrow> (EditorResult \<times> editor) option" where
  "editor_delete_word e =
     (if cursor_col e = 0 then Some (EDITOR_OK, e)
      else do {
        let end_col = cursor_col e;
        ln \<leftarrow> line_at e (cursor_row e);
        c \<leftarrow> word_left ln (cursor_col e);
        let e = e\<lparr>cursor_col := c\<rparr>;
        e \<leftarrow> upd_line (cursor_row e) (line_cut c end_col (ln_len ln - end_col + 1)) e;
        Some (EDITOR_OK, clamp_scroll e)
      })"

section \<open>Cursor movement\<close>

definition editor_move_left :: "editor \<Rightarrow> editor option" where
  "editor_move_left e =
     (if 0 < cursor_col e then Some (clamp_scroll (e\<lparr>cursor_col := cursor_col e - 1\<rparr>))
      else if 0 < cursor_row e then do {
        let e = e\<lparr>cursor_row := cursor_row e - 1\<rparr>;
        ln \<leftarrow> line_at e (cursor_row e);
        Some (clamp_scroll (e\<lparr>cursor_col := ln_len ln\<rparr>))
      } else Some (clamp_scroll e))"

definition editor_move_right :: "editor \<Rightarrow> editor option" where
  "editor_move_right e = do {
     ln \<leftarrow> line_at e (cursor_row e);
     Some (clamp_scroll
       (if cursor_col e < ln_len ln then e\<lparr>cursor_col := cursor_col e + 1\<rparr>
        else if cursor_row e < row_count e - 1 then e\<lparr>cursor_row := cursor_row e + 1, cursor_col := 0\<rparr>
        else e))
   }"

definition enter_row :: "editor \<Rightarrow> editor option" where
  "enter_row e = do {
     ln \<leftarrow> line_at e (cursor_row e);
     Some (if ln_len ln < cursor_col e then e\<lparr>cursor_col := ln_len ln\<rparr> else e)
   }"

definition editor_move_up :: "editor \<Rightarrow> editor option" where
  "editor_move_up e =
     (if 0 < cursor_row e then
        if cursor_row e - 1 = remote_cursor_row e then Some e
        else map_option clamp_scroll (enter_row (e\<lparr>cursor_row := cursor_row e - 1\<rparr>))
      else Some (clamp_scroll e))"

definition editor_move_down :: "editor \<Rightarrow> editor option" where
  "editor_move_down e =
     (if cursor_row e < row_count e - 1 then
        if cursor_row e + 1 = remote_cursor_row e then Some e
        else map_option clamp_scroll (enter_row (e\<lparr>cursor_row := cursor_row e + 1\<rparr>))
      else Some (clamp_scroll e))"

definition editor_move_word_left :: "editor \<Rightarrow> editor option" where
  "editor_move_word_left e =
     (if 0 < cursor_col e then do {
        ln \<leftarrow> line_at e (cursor_row e);
        c \<leftarrow> word_left ln (cursor_col e);
        Some (clamp_scroll (e\<lparr>cursor_col := c\<rparr>))
      } else Some (clamp_scroll e))"

definition editor_move_word_right :: "editor \<Rightarrow> editor option" where
  "editor_move_word_right e = do {
     ln \<leftarrow> line_at e (cursor_row e);
     c \<leftarrow> skip_forward (\<lambda>x. x \<noteq> SPACE) (ln_buf ln) (ln_len ln) (cursor_col e);
     c \<leftarrow> skip_forward (\<lambda>x. x = SPACE) (ln_buf ln) (ln_len ln) c;
     Some (clamp_scroll (e\<lparr>cursor_col := c\<rparr>))
   }"

definition editor_move_home :: "editor \<Rightarrow> editor" where
  "editor_move_home e = clamp_scroll (e\<lparr>cursor_col := 0\<rparr>)"

definition editor_move_end :: "editor \<Rightarrow> editor option" where
  "editor_move_end e = do {
     ln \<leftarrow> line_at e (cursor_row e);
     Some (clamp_scroll (e\<lparr>cursor_col := ln_len ln\<rparr>))
   }"

section \<open>Reading the buffer\<close>

text \<open>The pointer returned: \<open>None\<close> is \<open>NULL\<close>.\<close>

definition editor_get_line :: "editor \<Rightarrow> int \<Rightarrow> char cells option option" where
  "editor_get_line e row =
     (if row < 0 \<or> row_count e \<le> row then Some (Some [Some NUL])
      else map_option ln_buf (line_at e row))"

definition editor_get_line_len :: "editor \<Rightarrow> int \<Rightarrow> int option" where
  "editor_get_line_len e row =
     (if row < 0 \<or> row_count e \<le> row then Some 0 else map_option ln_len (line_at e row))"

section \<open>Selection and clipboard\<close>

definition editor_sel_get_range :: "editor \<Rightarrow> int \<times> int \<times> int \<times> int" where
  "editor_sel_get_range e =
     (if sel_anchor_row e < cursor_row e
         \<or> (cursor_row e = sel_anchor_row e \<and> sel_anchor_col e \<le> cursor_col e)
      then (sel_anchor_row e, sel_anchor_col e, cursor_row e, cursor_col e)
      else (cursor_row e, cursor_col e, sel_anchor_row e, sel_anchor_col e))"

text \<open>\<open>memset (lines + from, 0, n * sizeof (Line))\<close>.\<close>

definition clear_lines :: "int \<Rightarrow> int \<Rightarrow> editor \<Rightarrow> editor option" where
  "clear_lines d n e = do { ls \<leftarrow> lines e; ls' \<leftarrow> afill ls d null_line n; Some (e\<lparr>lines := Some ls'\<rparr>) }"

text \<open>The multi-line branch of \<open>editor_delete_selection\<close>.\<close>

definition delete_rows :: "int \<Rightarrow> int \<Rightarrow> int \<Rightarrow> int \<Rightarrow> editor \<Rightarrow> (bool \<times> editor) option" where
  "delete_rows start_row start_col end_row end_col e = do {
     lst \<leftarrow> line_at e end_row;
     let tail_len = ln_len lst - end_col;
     (ok, e) \<leftarrow> on_line start_row
        (line_put (start_col + tail_len + 1) start_col (ln_buf lst) end_col tail_len) e;
     if \<not> ok then Some (False, e) else do {
       let removed = end_row - start_row;
       _ \<leftarrow> free_rows e (start_row + 1) (nat removed);
       e \<leftarrow> move_lines (start_row + 1) (end_row + 1) (row_count e - end_row - 1) e;
       e \<leftarrow> clear_lines (row_count e - removed) removed e;
       Some (True, e\<lparr>row_count := row_count e - removed\<rparr>)
     }
   }"

definition editor_delete_selection :: "editor \<Rightarrow> (EditorResult \<times> editor) option" where
  "editor_delete_selection e =
     (if \<not> sel_active e then Some (EDITOR_OK, e)
      else let (start_row, start_col, end_row, end_col) = editor_sel_get_range e in do {
        (ok, e) \<leftarrow> (if start_row = end_row then do {
                     ln \<leftarrow> line_at e start_row;
                     e \<leftarrow> upd_line start_row (line_cut start_col end_col (ln_len ln - end_col + 1)) e;
                     Some (True, e)
                   } else delete_rows start_row start_col end_row end_col e);
        Some (alloc_result ok,
          if ok then clamp_scroll (e\<lparr>cursor_row := start_row, cursor_col := start_col,
                                     sel_active := False, sel_dirty := True\<rparr>)
          else e)
      })"

definition editor_sel_set_anchor :: "editor \<Rightarrow> editor" where
  "editor_sel_set_anchor e =
     e\<lparr>sel_anchor_row := cursor_row e, sel_anchor_col := cursor_col e, sel_active := True, sel_dirty := True\<rparr>"

definition editor_sel_clear :: "editor \<Rightarrow> editor" where
  "editor_sel_clear e = e\<lparr>sel_dirty := (if sel_active e then True else sel_dirty e), sel_active := False\<rparr>"

definition editor_sel_is_active :: "editor \<Rightarrow> bool" where
  "editor_sel_is_active e = sel_active e"

definition editor_consume_sel_dirty :: "editor \<Rightarrow> bool \<times> editor" where
  "editor_consume_sel_dirty e = (sel_dirty e, e\<lparr>sel_dirty := False\<rparr>)"

text \<open>The columns of row \<open>r\<close> the selection covers, as both loops of \<open>editor_copy_selection\<close> compute them.\<close>

definition sel_cols :: "editor \<Rightarrow> int \<times> int \<times> int \<times> int \<Rightarrow> int \<Rightarrow> (int \<times> int) option" where
  "sel_cols e rng r = (case rng of (start_row, start_col, end_row, end_col) \<Rightarrow> do {
     col_end \<leftarrow> (if r = end_row then Some end_col else map_option ln_len (line_at e r));
     Some (if r = start_row then start_col else 0, col_end)
   })"

fun sel_size :: "editor \<Rightarrow> int \<times> int \<times> int \<times> int \<Rightarrow> int list \<Rightarrow> int \<Rightarrow> int option" where
  "sel_size e rng [] sz = Some sz"
| "sel_size e rng (r # rs) sz = do {
     (col_start, col_end) \<leftarrow> sel_cols e rng r;
     sel_size e rng rs (sz + (col_end - col_start)
                        + (case rng of (_, _, end_row, _) \<Rightarrow> if r < end_row then 1 else 0))
   }"

fun sel_fill :: "editor \<Rightarrow> int \<times> int \<times> int \<times> int \<Rightarrow> int list \<Rightarrow> int \<Rightarrow> char cells \<Rightarrow> (int \<times> char cells) option" where
  "sel_fill e rng [] idx clip = Some (idx, clip)"
| "sel_fill e rng (r # rs) idx clip = do {
     (col_start, col_end) \<leftarrow> sel_cols e rng r;
     let len = col_end - col_start;
     src \<leftarrow> buf_at e r;
     clip \<leftarrow> blit clip idx src col_start len;
     let idx = idx + len;
     if (case rng of (_, _, end_row, _) \<Rightarrow> r < end_row) then do {
       clip \<leftarrow> awrite clip idx NL;
       sel_fill e rng rs (idx + 1) clip
     } else sel_fill e rng rs idx clip
   }"

definition editor_copy_selection :: "editor \<Rightarrow> editor option" where
  "editor_copy_selection e =
     (if \<not> sel_active e then Some e
      else let rng = editor_sel_get_range e;
               rows = (case rng of (start_row, _, end_row, _) \<Rightarrow> [start_row..end_row])
        in do {
          sz \<leftarrow> sel_size e rng rows 0;
          let (ok, h) = malloc_ok (heap e);
          if \<not> ok then Some (e\<lparr>clipboard := None, heap := h\<rparr>)
          else do {
            (idx, clip) \<leftarrow> sel_fill e rng rows 0 (fresh (sz + 1));
            clip \<leftarrow> awrite clip idx NUL;
            Some (e\<lparr>clipboard := Some clip, heap := h\<rparr>)
          }
        })"

text \<open>\<open>while (*seg_end && *seg_end != '\n') seg_end++;\<close>: the segment and what follows it.\<close>

fun scan_segment :: "char cells \<Rightarrow> (string \<times> char cells) option" where
  "scan_segment [] = None"
| "scan_segment (None # cs) = None"
| "scan_segment (Some c # cs) =
     (if c = NUL \<or> c = NL then Some ([], Some c # cs)
      else map_option (\<lambda>(seg, rest). (c # seg, rest)) (scan_segment cs))"

lemma scan_segment_length: "scan_segment cs = Some (seg, rest) \<Longrightarrow> length rest + length seg = length cs"
  by (induction cs arbitrary: seg rest rule: scan_segment.induct) (auto split: if_splits)

text \<open>
  The loop of \<open>editor_paste\<close> over the bytes \<open>p\<close> of the clipboard. The result says whether every
  allocation succeeded; on success it has the position after the pasted text.
\<close>

function paste_loop :: "char cells \<Rightarrow> int \<Rightarrow> int \<Rightarrow> editor \<Rightarrow> (bool \<times> int \<times> int \<times> editor) option" where
  "paste_loop [] dest_row dest_col e = None"
| "paste_loop (None # p) dest_row dest_col e = None"
| "paste_loop (Some c # p) dest_row dest_col e =
     (if c = NUL then Some (True, dest_row, dest_col, e)
      else if c = NL then do {
        (ok, e) \<leftarrow> open_row dest_row e;
        if \<not> ok then Some (False, dest_row, dest_col, e) else do {
          (ok, e) \<leftarrow> on_line (dest_row + 1) (\<lambda>ln. line_ensure_cap ln 0) e;
          if \<not> ok then Some (False, dest_row, dest_col, e)
          else paste_loop p (dest_row + 1) 0 (e\<lparr>row_count := row_count e + 1\<rparr>)
        }
      }
      else case scan_segment (Some c # p) of
        None \<Rightarrow> None
      | Some (seg, rest) \<Rightarrow> do {
          (ok, e) \<leftarrow> on_line dest_row
             (line_put0 (dest_col + int (length seg) + 1) dest_col (Some (map Some seg)) 0 (int (length seg))) e;
          if \<not> ok then Some (False, dest_row, dest_col, e)
          else paste_loop rest dest_row (dest_col + int (length seg)) e
        })"
  by pat_completeness auto
termination
proof (relation "measure (\<lambda>(p, _). length p)", goal_cases)
  case (3 c p dest_row dest_col e x seg rest)
  then show ?case
    by (auto split: option.splits dest!: scan_segment_length)
qed auto

definition editor_paste :: "editor \<Rightarrow> (EditorResult \<times> editor) option" where
  "editor_paste e =
     (case clipboard e of None \<Rightarrow> Some (EDITOR_ERR_NO_CLIPBOARD, e)
      | Some clip \<Rightarrow> do {
          ln \<leftarrow> line_at e (cursor_row e);
          let tail_len = ln_len ln - cursor_col e;
          let (ok, h) = malloc_ok (heap e);
          if \<not> ok then Some (EDITOR_ERR_ALLOC_FAILED, e\<lparr>heap := h\<rparr>) else do {
            src \<leftarrow> ln_buf ln;
            tail \<leftarrow> blit (fresh (tail_len + 1)) 0 src (cursor_col e) (tail_len + 1);
            e \<leftarrow> upd_line (cursor_row e) (line_truncate (cursor_col e)) (e\<lparr>heap := h\<rparr>);
            (ok, dest_row, dest_col, e) \<leftarrow> paste_loop clip (cursor_row e) (cursor_col e) e;
            if \<not> ok then Some (EDITOR_ERR_ALLOC_FAILED, e) else do {
              (ok, e) \<leftarrow> on_line dest_row (line_put (dest_col + tail_len + 1) dest_col (Some tail) 0 tail_len) e;
              Some (alloc_result ok,
                if ok then clamp_scroll (e\<lparr>cursor_row := dest_row, cursor_col := dest_col\<rparr>) else e)
            }
          }
        })"

section \<open>Loading a file\<close>

definition editor_load_line :: "char cells \<Rightarrow> int \<Rightarrow> editor \<Rightarrow> (EditorResult \<times> editor) option" where
  "editor_load_line text len e = do {
     (ok, e) \<leftarrow> on_line (row_count e - 1) (line_put len 0 (Some text) 0 len) e;
     if \<not> ok then Some (EDITOR_ERR_ALLOC_FAILED, e) else do {
       (ok, e) \<leftarrow> lines_ensure_cap (row_count e + 1) e;
       if \<not> ok then Some (EDITOR_ERR_ALLOC_FAILED, e) else do {
         e \<leftarrow> set_line (row_count e) null_line e;
         Some (EDITOR_OK, e\<lparr>row_count := row_count e + 1\<rparr>)
       }
     }
   }"

definition editor_load_finalize :: "editor \<Rightarrow> editor option" where
  "editor_load_finalize e =
     (if 1 < row_count e then do {
        ln \<leftarrow> line_at e (row_count e - 1);
        Some (if ln_len ln = 0 then e\<lparr>row_count := row_count e - 1\<rparr> else e)
      } else Some e)"

section \<open>Edits of the remote peer\<close>

definition editor_set_remote_cursor :: "int \<Rightarrow> int \<Rightarrow> editor \<Rightarrow> editor" where
  "editor_set_remote_cursor row col e =
     (if row = cursor_row e then e else e\<lparr>remote_cursor_row := row, remote_cursor_col := col\<rparr>)"

definition editor_remote_insert_char :: "char \<Rightarrow> editor \<Rightarrow> (EditorResult \<times> editor) option" where
  "editor_remote_insert_char c e =
     (if c = NL then do {
        (ok, e) \<leftarrow> split_line (remote_cursor_row e) (remote_cursor_col e) e;
        if \<not> ok then Some (EDITOR_ERR_ALLOC_FAILED, e) else
        let old_remote_row = remote_cursor_row e;
            e = e\<lparr>remote_cursor_row := remote_cursor_row e + 1, remote_cursor_col := 0\<rparr>;
            e = (if old_remote_row < cursor_row e then e\<lparr>cursor_row := cursor_row e + 1\<rparr> else e)
        in Some (EDITOR_OK, clamp_scroll e)
      } else do {
        (ok, e) \<leftarrow> on_line (remote_cursor_row e) (line_insert (remote_cursor_col e) c) e;
        Some (alloc_result ok,
          if ok then clamp_scroll (e\<lparr>remote_cursor_col := remote_cursor_col e + 1\<rparr>) else e)
      })"

definition editor_remote_delete_char :: "editor \<Rightarrow> (EditorResult \<times> editor) option" where
  "editor_remote_delete_char e =
     (if 0 < remote_cursor_col e then do {
        let e = e\<lparr>remote_cursor_col := remote_cursor_col e - 1\<rparr>;
        ln \<leftarrow> line_at e (remote_cursor_row e);
        e \<leftarrow> upd_line (remote_cursor_row e)
               (line_cut (remote_cursor_col e) (remote_cursor_col e + 1) (ln_len ln - remote_cursor_col e)) e;
        Some (EDITOR_OK, clamp_scroll e)
      } else if 0 < remote_cursor_row e then do {
        prev \<leftarrow> line_at e (remote_cursor_row e - 1);
        (ok, e) \<leftarrow> merge_up (remote_cursor_row e) e;
        if \<not> ok then Some (EDITOR_ERR_ALLOC_FAILED, e) else
        let old_remote_row = remote_cursor_row e;
            e = e\<lparr>remote_cursor_row := remote_cursor_row e - 1, remote_cursor_col := ln_len prev\<rparr>;
            e = (if old_remote_row < cursor_row e then e\<lparr>cursor_row := cursor_row e - 1\<rparr> else e)
        in Some (EDITOR_OK, clamp_scroll e)
      } else Some (EDITOR_OK, clamp_scroll e))"

text \<open>\<open>for (i = 0; i < n; i++) lines[r + i] = (Line){NULL, 0, 0};\<close>\<close>

fun blank_rows :: "int \<Rightarrow> nat \<Rightarrow> editor \<Rightarrow> editor option" where
  "blank_rows r 0 e = Some e"
| "blank_rows r (Suc n) e = do { e \<leftarrow> set_line r null_line e; blank_rows (r + 1) n e }"

definition editor_remote_replace_block :: "int \<Rightarrow> int \<Rightarrow> int \<Rightarrow> editor \<Rightarrow> (EditorResult \<times> editor) option" where
  "editor_remote_replace_block start_row deleted_count inserted_count e =
     (if start_row < 0 \<or> row_count e < start_row then Some (EDITOR_OK, e)
      else do {
        let actual_deleted = (if row_count e < start_row + deleted_count then row_count e - start_row
                              else deleted_count);
        _ \<leftarrow> free_rows e start_row (nat actual_deleted);
        let shift_offset = inserted_count - actual_deleted;
        (ok, e) \<leftarrow> (if 0 < shift_offset then lines_ensure_cap (row_count e + shift_offset) e else Some (True, e));
        if \<not> ok then Some (EDITOR_ERR_ALLOC_FAILED, e) else do {
          let remaining_lines = row_count e - (start_row + actual_deleted);
          e \<leftarrow> (if 0 < remaining_lines
               then move_lines (start_row + inserted_count) (start_row + actual_deleted) remaining_lines e
               else Some e);
          e \<leftarrow> blank_rows start_row (nat inserted_count) e;
          let e = e\<lparr>row_count := row_count e + shift_offset\<rparr>;
          let e = (if start_row + actual_deleted \<le> cursor_row e
                   then e\<lparr>cursor_row := cursor_row e + shift_offset\<rparr> else e);
          Some (EDITOR_OK, clamp_scroll e)
        }
      })"

definition editor_remote_update_line :: "int \<Rightarrow> char cells \<Rightarrow> int \<Rightarrow> editor \<Rightarrow> (EditorResult \<times> editor) option" where
  "editor_remote_update_line row text len e =
     (if row < 0 \<or> row_count e \<le> row then Some (EDITOR_OK, e)
      else do {
        (ok, e) \<leftarrow> on_line row (line_put0 len 0 (Some text) 0 len) e;
        Some (alloc_result ok, if ok then clamp_scroll e else e)
      })"

definition editor_get_row_count :: "editor \<Rightarrow> int" where
  "editor_get_row_count e = row_count e"

definition editor_get_cursor_row :: "editor \<Rightarrow> int" where
  "editor_get_cursor_row e = cursor_row e"

definition editor_get_cursor_col :: "editor \<Rightarrow> int" where
  "editor_get_cursor_col e = cursor_col e"

definition editor_get_scroll_row :: "editor \<Rightarrow> int" where
  "editor_get_scroll_row e = scroll_row e"

definition editor_get_scroll_col :: "editor \<Rightarrow> int" where
  "editor_get_scroll_col e = scroll_col e"

definition editor_get_remote_cursor_row :: "editor \<Rightarrow> int" where
  "editor_get_remote_cursor_row e = remote_cursor_row e"

definition editor_get_remote_cursor_col :: "editor \<Rightarrow> int" where
  "editor_get_remote_cursor_col e = remote_cursor_col e"

end
