(* ===== verification/EditorLine.thy ===== *)
theory EditorLine
  imports Editor
begin

text \<open>
  What the operations on a single \<open>Line\<close> do to the string it holds. \<open>line_rep ln s\<close>: the buffer
  has \<open>cap\<close> bytes, the first \<open>len\<close> of them are the characters of \<open>s\<close>, and a \<open>NUL\<close> follows. A
  failed allocation leaves the string as it was.
\<close>

definition line_rep :: "Line \<Rightarrow> string \<Rightarrow> bool" where
  "line_rep ln s \<longleftrightarrow> ln_len ln = int (length s) \<and>
     (\<exists>J. ln_buf ln = Some (map Some s @ Some NUL # J) \<and>
          ln_cap ln = int (length s) + 1 + int (length J))"

text \<open>
  A blank structure (\<open>NULL\<close> buffer, as \<open>(Line){NULL, 0, 0}\<close>) stands for an empty line too, but
  not every operation can be applied to it.
\<close>

definition line_rep0 :: "Line \<Rightarrow> string \<Rightarrow> bool" where
  "line_rep0 ln s \<longleftrightarrow> line_rep ln s \<or> (ln = null_line \<and> s = [])"

lemma null_rep0 [simp]: "line_rep0 null_line []"
  by (simp add: line_rep0_def)

lemma rep_rep0: "line_rep ln s \<Longrightarrow> line_rep0 ln s"
  by (simp add: line_rep0_def)

text \<open>
  A line operation that first makes room: total, also on a blank structure, and with the given
  string as result when no allocation fails.
\<close>

definition line_op :: "(Line \<Rightarrow> heap \<Rightarrow> (bool \<times> Line \<times> heap) option) \<Rightarrow> string \<Rightarrow> string \<Rightarrow> bool" where
  "line_op f s t \<longleftrightarrow> (\<forall>ln h. line_rep0 ln s \<longrightarrow>
     (\<exists>ok ln' h'. f ln h = Some (ok, ln', h') \<and> (ok \<longrightarrow> line_rep ln' t) \<and> (\<not> ok \<longrightarrow> ln' = ln)
        \<and> (h = [] \<longrightarrow> ok \<and> h' = [])))"

named_theorems line_ops \<open>the effect of the line operations on the string of a line\<close>

lemma line_opD:
  assumes "line_op f s t" and "line_rep0 ln s"
  obtains ok ln' h' where "f ln h = Some (ok, ln', h')" and "ok \<longrightarrow> line_rep ln' t"
    and "\<not> ok \<longrightarrow> ln' = ln" and "h = [] \<longrightarrow> ok \<and> h' = []"
  using assms(1) [unfolded line_op_def, rule_format, OF assms(2), of h] that by auto

lemma malloc_okE:
  obtains ok h' where "malloc_ok h = (ok, h')" and "h = [] \<longrightarrow> ok \<and> h' = []"
  by (cases h) (auto simp: malloc_ok_def)

text \<open>\<open>line_ensure_cap\<close> keeps the string and makes the room asked for.\<close>

lemma ensure_cap_rep:
  assumes "line_rep ln s"
  obtains ok ln' h' where "line_ensure_cap ln needed h = Some (ok, ln', h')" and "line_rep ln' s"
    and "ok \<longrightarrow> needed < ln_cap ln'" and "ln_len ln' = ln_len ln" and "\<not> ok \<longrightarrow> ln' = ln"
    and "h = [] \<longrightarrow> ok \<and> h' = []"
proof (cases "needed < ln_cap ln")
  case True
  with assms that show ?thesis by (auto simp: line_ensure_cap_def)
next
  case False
  obtain J where J: "ln_buf ln = Some (map Some s @ Some NUL # J)"
    "ln_cap ln = int (length s) + 1 + int (length J)" "ln_len ln = int (length s)"
    using assms by (auto simp: line_rep_def)
  let ?c = "grow_cap (ln_cap ln * 2) needed"
  have c: "needed < ?c" "ln_cap ln * 2 \<le> ?c" using J(2) by (auto intro: grow_cap_gt grow_cap_ge)
  obtain ok h' where m: "malloc_ok h = (ok, h')" "h = [] \<longrightarrow> ok \<and> h' = []" by (rule malloc_okE)
  let ?K = "replicate (nat ?c - (length s + 1)) None"
  have fr: "fresh ?c = [] @ replicate (length s + 1) None @ ?K"
  proof -
    have "nat ?c = (length s + 1) + (nat ?c - (length s + 1))" using c J(2) by simp
    then show ?thesis unfolding fresh_def by (metis append_Nil replicate_add)
  qed
  have cp: "blit (fresh ?c) 0 (map Some s @ Some NUL # J) 0 (int (length s) + 1)
        = Some ([] @ (map Some s @ [Some NUL]) @ ?K)"
  proof -
    have src: "map Some s @ Some NUL # J = [] @ (map Some s @ [Some NUL]) @ J" by simp
    show ?thesis unfolding fr src by (rule blit_split) simp_all
  qed
  show ?thesis
  proof (cases ok)
    case True
    let ?ln = "ln\<lparr>ln_buf := Some (map Some s @ Some NUL # ?K), ln_cap := ?c\<rparr>"
    have "line_ensure_cap ln needed h = Some (True, ?ln, h')"
      using False J m True cp by (simp add: line_ensure_cap_def Let_def)
    moreover have "line_rep ?ln s" using c J by (auto simp: line_rep_def)
    ultimately show ?thesis using that [of True ?ln h'] m(2) c(1) by simp
  next
    case False
    then have "line_ensure_cap ln needed h = Some (False, ln, h')"
      using \<open>\<not> needed < ln_cap ln\<close> m J by (simp add: line_ensure_cap_def Let_def)
    then show ?thesis using that [of False ln h'] assms m(2) False by simp
  qed
qed

text \<open>On a blank \<open>Line\<close> it makes an empty string.\<close>

lemma ensure_cap_null:
  assumes "0 \<le> needed"
  obtains ok ln' h' where "line_ensure_cap null_line needed h = Some (ok, ln', h')"
    and "ok \<longrightarrow> line_rep ln' [] \<and> needed < ln_cap ln'" and "\<not> ok \<longrightarrow> ln' = null_line"
    and "h = [] \<longrightarrow> ok \<and> h' = []"
proof -
  let ?c = "grow_cap LINE_BUF_INIT_CAP needed"
  have c: "needed < ?c" "0 < ?c" using assms grow_cap_gt [of 32 needed] by (auto simp: LINE_BUF_INIT_CAP_def)
  obtain ok h' where m: "malloc_ok h = (ok, h')" "h = [] \<longrightarrow> ok \<and> h' = []" by (rule malloc_okE)
  have w: "awrite (fresh ?c) 0 NUL = Some (Some NUL # replicate (nat ?c - 1) None)"
    using c by (cases "nat ?c") (auto simp: awrite_def in_range_def fresh_def)
  show ?thesis
  proof (cases ok)
    case True
    let ?ln = "null_line\<lparr>ln_buf := Some (Some NUL # replicate (nat ?c - 1) None), ln_cap := ?c\<rparr>"
    have "line_ensure_cap null_line needed h = Some (True, ?ln, h')"
      using assms m w True by (simp add: line_ensure_cap_def null_line_def Let_def)
    moreover have "line_rep ?ln []" using c by (auto simp: line_rep_def null_line_def)
    ultimately show ?thesis using that [of True ?ln h'] m(2) c(1) by simp
  next
    case False
    then have "line_ensure_cap null_line needed h = Some (False, null_line, h')"
      using assms m by (simp add: line_ensure_cap_def null_line_def)
    then show ?thesis using that [of False null_line h'] m(2) False by simp
  qed
qed

text \<open>Both cases together, for a buffer that is needed at least as long as the line.\<close>

lemma ensure_cap_rep0:
  assumes "line_rep0 ln s" and "0 \<le> needed"
  obtains ok ln' h' where "line_ensure_cap ln needed h = Some (ok, ln', h')"
    and "ok \<longrightarrow> line_rep ln' s \<and> needed < ln_cap ln' \<and> ln_len ln' = ln_len ln"
    and "\<not> ok \<longrightarrow> ln' = ln" and "h = [] \<longrightarrow> ok \<and> h' = []"
proof (cases "line_rep ln s")
  case True
  from ensure_cap_rep [OF True, of needed h] that show ?thesis by metis
next
  case False
  then have n: "ln = null_line" "s = []" using assms(1) by (simp_all add: line_rep0_def)
  obtain ok ln' h' where e: "line_ensure_cap null_line needed h = Some (ok, ln', h')"
    "ok \<longrightarrow> line_rep ln' [] \<and> needed < ln_cap ln'" "\<not> ok \<longrightarrow> ln' = null_line"
    "h = [] \<longrightarrow> ok \<and> h' = []"
    by (rule ensure_cap_null [OF assms(2)])
  then show ?thesis using that [of ok ln' h'] n by (auto simp: line_rep_def null_line_def)
qed

lemma line_ensure_cap_op [line_ops]: "0 \<le> needed \<Longrightarrow> line_op (\<lambda>ln. line_ensure_cap ln needed) s s"
  unfolding line_op_def
proof (intro allI impI)
  fix ln h assume "0 \<le> needed" and "line_rep0 ln s"
  from ensure_cap_rep0 [OF this(2,1), of h] obtain ok ln' h' where
    "line_ensure_cap ln needed h = Some (ok, ln', h')" "ok \<longrightarrow> line_rep ln' s" "\<not> ok \<longrightarrow> ln' = ln"
    "h = [] \<longrightarrow> ok \<and> h' = []" by metis
  then show "\<exists>ok ln' h'. line_ensure_cap ln needed h = Some (ok, ln', h')
      \<and> (ok \<longrightarrow> line_rep ln' s) \<and> (\<not> ok \<longrightarrow> ln' = ln) \<and> (h = [] \<longrightarrow> ok \<and> h' = [])" by simp
qed

text \<open>The cells of a represented line, cut at a column.\<close>

lemma take_cells: "k \<le> length s \<Longrightarrow> take k (map Some s @ r) = map Some (take k s)"
  by (simp add: take_map)

lemma drop_cells: "k \<le> length s \<Longrightarrow> drop k (map Some s @ r) = map Some (drop k s) @ r"
  by (simp add: drop_map)

lemma line_insert_op [line_ops]:
  assumes "k \<le> length s"
  shows "line_op (line_insert (int k) ch) s (take k s @ ch # drop k s)"
  unfolding line_op_def
proof (intro allI impI)
  fix ln h assume rep: "line_rep0 ln s"
  have "0 \<le> ln_len ln + 2" using rep by (auto simp: line_rep0_def line_rep_def null_line_def)
  then obtain ok ln1 h1 where e: "line_ensure_cap ln (ln_len ln + 2) h = Some (ok, ln1, h1)"
    "ok \<longrightarrow> line_rep ln1 s \<and> ln_len ln + 2 < ln_cap ln1 \<and> ln_len ln1 = ln_len ln"
    "\<not> ok \<longrightarrow> ln1 = ln" "h = [] \<longrightarrow> ok \<and> h1 = []"
    using ensure_cap_rep0 [OF rep, of "ln_len ln + 2" h] by metis
  show "\<exists>ok ln' h'. line_insert (int k) ch ln h = Some (ok, ln', h')
      \<and> (ok \<longrightarrow> line_rep ln' (take k s @ ch # drop k s)) \<and> (\<not> ok \<longrightarrow> ln' = ln) \<and> (h = [] \<longrightarrow> ok \<and> h' = [])"
  proof (cases ok)
    case False
    with e show ?thesis by (auto simp: line_insert_def)
  next
    case True
    obtain J where J: "ln_buf ln1 = Some (map Some s @ Some NUL # J)"
      "ln_cap ln1 = int (length s) + 1 + int (length J)" "ln_len ln1 = int (length s)"
      using e(2) True by (auto simp: line_rep_def)
    let ?m = "map Some (drop k s) @ [Some NUL]" and ?b = "map Some s @ Some NUL # J"
    have b: "?b = map Some (take k s) @ [] @ ?m @ J" by (simp flip: map_append)
    obtain Z J' where mv: "blit ?b (int k + 1) ?b (int k) (int (length s) - int k + 1)
        = Some (map Some (take k s) @ Z @ ?m @ J')" and Z: "length Z = 1"
      and J': "length J' + 1 = length [] + length J"
      by (rule blit_shift [OF b, of 1 "int k + 1" "int k" "int (length s) - int k + 1"])
        (use assms J e(2) True in auto)
    obtain z where z: "Z = [z]" using Z by (cases Z) auto
    have "awrite (map Some (take k s) @ Z @ ?m @ J') (int k) ch
        = Some (map Some (take k s) @ Some ch # ?m @ J')"
      using assms z by (simp add: mem_simps)
    with mv have "line_insert (int k) ch ln h = Some (True,
        ln1\<lparr>ln_buf := Some (map Some (take k s) @ Some ch # ?m @ J'), ln_len := int (length s) + 1\<rparr>, h1)"
      using e True J by (simp add: line_insert_def)
    moreover have "line_rep (ln1\<lparr>ln_buf := Some (map Some (take k s) @ Some ch # ?m @ J'),
        ln_len := int (length s) + 1\<rparr>) (take k s @ ch # drop k s)"
      using assms J J' by (auto simp: line_rep_def)
    ultimately show ?thesis using e(4) True by auto
  qed
qed

text \<open>The shape of a buffer after a terminated text was copied to column \<open>k\<close>.\<close>

lemma blit_text:
  assumes "k \<le> length s" and "k + length u + 1 \<le> length s + 1 + length J"
    and "src = P @ map Some u @ Some NUL # Q"
  shows "\<exists>J'. blit (map Some s @ Some NUL # J) (int k) src (int (length P)) (int (length u) + 1)
              = Some (map Some (take k s @ u) @ Some NUL # J')
            \<and> length (take k s @ u) + 1 + length J' = length s + 1 + length J"
proof -
  let ?b = "map Some s @ Some NUL # J"
  let ?J' = "drop (k + (length u + 1)) ?b"
  have "nat (int k + (int (length u) + 1)) = k + (length u + 1)" "nat (int (length u) + 1) = length u + 1"
    by simp_all
  then have "blit ?b (int k) src (int (length P)) (int (length u) + 1)
      = Some (take k ?b @ take (length u + 1) (drop (length P) src) @ ?J')"
    using assms by (simp add: blit_def in_range_def)
  moreover have "take k ?b = map Some (take k s)" using assms(1) by (rule take_cells)
  moreover have "take (length u + 1) (drop (length P) src) = map Some u @ [Some NUL]"
    using assms(3) by simp
  moreover have "length ?J' = length s + 1 + length J - (k + (length u + 1))" by simp
  ultimately show ?thesis using assms(1,2) by (intro exI [of _ ?J']) auto
qed

lemma line_cut_rep:
  assumes "line_rep ln s" and "k \<le> k'" and "k' \<le> length s" and "extra = int (length s) - int k' + 1"
  shows "\<exists>ln'. line_cut (int k) (int k') extra ln = Some ln' \<and> line_rep ln' (take k s @ drop k' s)"
proof -
  obtain J where J: "ln_buf ln = Some (map Some s @ Some NUL # J)"
    "ln_cap ln = int (length s) + 1 + int (length J)" "ln_len ln = int (length s)"
    using assms(1) by (auto simp: line_rep_def)
  have src: "map Some s @ Some NUL # J = map Some (take k' s) @ map Some (drop k' s) @ Some NUL # J"
    by (simp flip: map_append)
  have le: "k + length (drop k' s) + 1 \<le> length s + 1 + length J" using assms(2,3) by simp
  obtain J' where "blit (map Some s @ Some NUL # J) (int k) (map Some s @ Some NUL # J)
        (int (length (map Some (take k' s)))) (int (length (drop k' s)) + 1)
      = Some (map Some (take k s @ drop k' s) @ Some NUL # J')"
    "length (take k s @ drop k' s) + 1 + length J' = length s + 1 + length J"
    using blit_text [OF _ le src] assms(2,3) by auto
  then show ?thesis using assms J by (auto simp: line_cut_def line_rep_def)
qed

lemma line_truncate_rep:
  assumes "line_rep ln s" and "k \<le> length s"
  shows "\<exists>ln'. line_truncate (int k) ln = Some ln' \<and> line_rep ln' (take k s)"
proof -
  obtain J where J: "ln_buf ln = Some (map Some s @ Some NUL # J)"
    "ln_cap ln = int (length s) + 1 + int (length J)" "ln_len ln = int (length s)"
    using assms(1) by (auto simp: line_rep_def)
  obtain z w where zw: "map Some (drop k s) @ Some NUL # J = z # w"
    by (cases "map Some (drop k s) @ Some NUL # J") auto
  have b: "map Some s @ Some NUL # J = map Some (take k s) @ z # w"
    unfolding zw [symmetric] by (simp flip: map_append append_assoc)
  have "length w = length s - k + length J" using arg_cong [OF zw, of length] by simp
  moreover have "awrite (map Some s @ Some NUL # J) (int k) NUL = Some (map Some (take k s) @ Some NUL # w)"
    unfolding b by (rule awrite_split) (use assms in simp)
  ultimately show ?thesis using assms J by (auto simp: line_truncate_def line_rep_def)
qed

lemma line_put_op [line_ops]:
  assumes "k \<le> length s" and "src = P @ map Some u @ Some NUL # Q" and "int k + int (length u) \<le> needed"
    and "p = int (length P)" and "n = int (length u)"
  shows "line_op (line_put needed (int k) (Some src) p n) s (take k s @ u)"
  unfolding line_op_def
proof (intro allI impI)
  fix ln h assume rep: "line_rep0 ln s"
  have "0 \<le> needed" using assms(3) by simp
  then obtain ok ln1 h1 where e: "line_ensure_cap ln needed h = Some (ok, ln1, h1)"
    "ok \<longrightarrow> line_rep ln1 s \<and> needed < ln_cap ln1 \<and> ln_len ln1 = ln_len ln"
    "\<not> ok \<longrightarrow> ln1 = ln" "h = [] \<longrightarrow> ok \<and> h1 = []"
    using ensure_cap_rep0 [OF rep, of needed h] by metis
  show "\<exists>ok ln' h'. line_put needed (int k) (Some src) p n ln h = Some (ok, ln', h')
      \<and> (ok \<longrightarrow> line_rep ln' (take k s @ u)) \<and> (\<not> ok \<longrightarrow> ln' = ln) \<and> (h = [] \<longrightarrow> ok \<and> h' = [])"
  proof (cases ok)
    case False
    with e show ?thesis by (auto simp: line_put_def)
  next
    case True
    obtain J where J: "ln_buf ln1 = Some (map Some s @ Some NUL # J)"
      "ln_cap ln1 = int (length s) + 1 + int (length J)"
      using e(2) True by (auto simp: line_rep_def)
    have "k + length u + 1 \<le> length s + 1 + length J" using e(2) True J(2) assms(3) by simp
    from blit_text [OF assms(1) this assms(2)] obtain J' where
      "blit (map Some s @ Some NUL # J) (int k) src p (n + 1) = Some (map Some (take k s @ u) @ Some NUL # J')"
      "length (take k s @ u) + 1 + length J' = length s + 1 + length J"
      using assms(4,5) by auto
    then show ?thesis using True e J assms by (auto simp: line_put_def line_rep_def)
  qed
qed

lemma line_put0_op [line_ops]:
  assumes "k \<le> length s" and "src = P @ map Some u @ Q" and "int k + int (length u) \<le> needed"
    and "p = int (length P)" and "n = int (length u)"
  shows "line_op (line_put0 needed (int k) (Some src) p n) s (take k s @ u)"
  unfolding line_op_def
proof (intro allI impI)
  fix ln h assume rep: "line_rep0 ln s"
  have "0 \<le> needed" using assms(3) by simp
  then obtain ok ln1 h1 where e: "line_ensure_cap ln needed h = Some (ok, ln1, h1)"
    "ok \<longrightarrow> line_rep ln1 s \<and> needed < ln_cap ln1 \<and> ln_len ln1 = ln_len ln"
    "\<not> ok \<longrightarrow> ln1 = ln" "h = [] \<longrightarrow> ok \<and> h1 = []"
    using ensure_cap_rep0 [OF rep, of needed h] by metis
  show "\<exists>ok ln' h'. line_put0 needed (int k) (Some src) p n ln h = Some (ok, ln', h')
      \<and> (ok \<longrightarrow> line_rep ln' (take k s @ u)) \<and> (\<not> ok \<longrightarrow> ln' = ln) \<and> (h = [] \<longrightarrow> ok \<and> h' = [])"
  proof (cases ok)
    case False
    with e show ?thesis by (auto simp: line_put0_def)
  next
    case True
    obtain J where J: "ln_buf ln1 = Some (map Some s @ Some NUL # J)"
      "ln_cap ln1 = int (length s) + 1 + int (length J)"
      using e(2) True by (auto simp: line_rep_def)
    let ?b = "map Some s @ Some NUL # J"
    have le: "k + length u + 1 \<le> length ?b" using True e(2) J(2) assms(3) by simp
    obtain z w where zw: "drop (k + length u) ?b = z # w"
      using le by (cases "drop (k + length u) ?b") auto
    have lw: "k + length u + 1 + length w = length ?b"
      using arg_cong [OF zw, of length] le by simp
    have "nat (int k + int (length u)) = k + length u" by simp
    then have "blit ?b (int k) src p n = Some (map Some (take k s) @ map Some u @ z # w)"
      using assms le zw by (simp add: blit_def in_range_def take_map)
    moreover have "awrite ((map Some (take k s) @ map Some u) @ z # w) (int k + n) NUL
        = Some ((map Some (take k s) @ map Some u) @ Some NUL # w)"
      by (rule awrite_split) (use assms in simp)
    ultimately show ?thesis using True e J assms lw by (auto simp: line_put0_def line_rep_def)
  qed
qed

end
