(* ===== verification/EditorRows.thy ===== *)
theory EditorRows
  imports EditorLine
begin

text \<open>
  The array of rows: what access, growth, shifting and the row-level edits of \<open>Editor\<close> do to the
  list of \<open>Line\<close> structures the array holds. \<open>rows e Ls\<close>: the first cells of \<open>lines\<close> are \<open>Ls\<close>, and
  \<open>row_cap\<close> is the size of the array. \<open>buf_only e e'\<close> is the frame of all of these operations: only
  the array, its sizes and the heap changed.
\<close>

definition rows :: "editor \<Rightarrow> Line list \<Rightarrow> bool" where
  "rows e Ls \<longleftrightarrow> (\<exists>J. lines e = Some (map Some Ls @ J) \<and> row_cap e = int (length Ls) + int (length J))"

definition buf_only :: "editor \<Rightarrow> editor \<Rightarrow> bool" where
  "buf_only e e' \<longleftrightarrow> e' = e\<lparr>lines := lines e', row_cap := row_cap e', row_count := row_count e', heap := heap e'\<rparr>"

lemma buf_only_refl [simp]: "buf_only e e"
  by (simp add: buf_only_def)

lemma buf_only_trans [trans]: "buf_only e e' \<Longrightarrow> buf_only e' e'' \<Longrightarrow> buf_only e e''"
  by (cases e; cases e'; cases e''; simp add: buf_only_def)

lemma buf_only_upd [simp]:
  "buf_only e (e'\<lparr>lines := l\<rparr>) = buf_only e e'" "buf_only e (e'\<lparr>row_cap := c\<rparr>) = buf_only e e'"
  "buf_only e (e'\<lparr>row_count := n\<rparr>) = buf_only e e'" "buf_only e (e'\<lparr>heap := h\<rparr>) = buf_only e e'"
  by (cases e; cases e'; simp add: buf_only_def)+

lemma buf_onlyD:
  assumes "buf_only e e'"
  shows "cursor_row e' = cursor_row e" "cursor_col e' = cursor_col e"
    "scroll_row e' = scroll_row e" "scroll_col e' = scroll_col e"
    "visible_rows e' = visible_rows e" "visible_cols e' = visible_cols e"
    "scroll_dirty e' = scroll_dirty e" "sel_active e' = sel_active e"
    "sel_anchor_row e' = sel_anchor_row e" "sel_anchor_col e' = sel_anchor_col e"
    "sel_dirty e' = sel_dirty e" "ed_remote e' = ed_remote e"
    "remote_cursor_row e' = remote_cursor_row e" "remote_cursor_col e' = remote_cursor_col e"
    "clipboard e' = clipboard e"
  using assms by (cases e; cases e'; simp add: buf_only_def)+

section \<open>Access\<close>

lemma rows_line_at: "rows e (A @ ln # B) \<Longrightarrow> i = int (length A) \<Longrightarrow> line_at e i = Some ln"
  using aread_split [of i "map Some A" "Some ln"] by (auto simp: rows_def line_at_def)

lemma rows_nth: "rows e Ls \<Longrightarrow> 0 \<le> i \<Longrightarrow> i < int (length Ls) \<Longrightarrow> line_at e i = Some (Ls ! nat i)"
  by (rule rows_line_at [where A = "take (nat i) Ls" and B = "drop (Suc (nat i)) Ls"])
    (simp_all add: id_take_nth_drop [symmetric])

lemma rows_set_line:
  assumes "rows e (A @ ln # B)" and "i = int (length A)"
  obtains e' where "set_line i x e = Some e'" and "rows e' (A @ x # B)" and "buf_only e e'"
    and "row_count e' = row_count e" and "heap e' = heap e" and "row_cap e' = row_cap e"
proof -
  from assms(1) obtain J where J: "lines e = Some (map Some A @ Some ln # map Some B @ J)"
    "row_cap e = int (length (A @ ln # B)) + int (length J)" by (auto simp: rows_def)
  let ?ls = "map Some A @ Some x # map Some B @ J"
  have "set_line i x e = Some (e\<lparr>lines := Some ?ls\<rparr>)"
    using assms(2) J by (simp add: set_line_def mem_simps)
  moreover have "rows (e\<lparr>lines := Some ?ls\<rparr>) (A @ x # B)" using J by (auto simp: rows_def)
  ultimately show ?thesis using that by simp
qed

lemma rows_on_line:
  assumes "rows e (A @ ln # B)" and "i = int (length A)" and "line_op f s t" and "line_rep0 ln s"
  obtains ok ln' e' where "on_line i f e = Some (ok, e')" and "rows e' (A @ ln' # B)"
    and "ok \<longrightarrow> line_rep ln' t" and "\<not> ok \<longrightarrow> ln' = ln" and "buf_only e e'"
    and "row_count e' = row_count e" and "row_cap e' = row_cap e" and "heap e = [] \<longrightarrow> ok \<and> heap e' = []"
proof -
  obtain ok ln' h' where f: "f ln (heap e) = Some (ok, ln', h')" "ok \<longrightarrow> line_rep ln' t"
    "\<not> ok \<longrightarrow> ln' = ln" "heap e = [] \<longrightarrow> ok \<and> h' = []"
    by (rule line_opD [OF assms(3,4)])
  obtain e' where e': "set_line i ln' e = Some e'" "rows e' (A @ ln' # B)" "buf_only e e'"
    "row_count e' = row_count e" "heap e' = heap e" "row_cap e' = row_cap e"
    by (rule rows_set_line [OF assms(1,2)])
  have "on_line i f e = Some (ok, e'\<lparr>heap := h'\<rparr>)"
    using rows_line_at [OF assms(1,2)] f e' by (simp add: on_line_def)
  moreover have "rows (e'\<lparr>heap := h'\<rparr>) (A @ ln' # B)" using e'(2) by (simp add: rows_def)
  ultimately show ?thesis using that [of ok "e'\<lparr>heap := h'\<rparr>" ln'] f e' by simp
qed

lemma rows_upd_line:
  assumes "rows e (A @ ln # B)" and "i = int (length A)" and "f ln = Some ln'"
  obtains e' where "upd_line i f e = Some e'" and "rows e' (A @ ln' # B)" and "buf_only e e'"
    and "row_count e' = row_count e" and "heap e' = heap e" and "row_cap e' = row_cap e"
proof -
  obtain e' where e': "set_line i ln' e = Some e'" "rows e' (A @ ln' # B)" "buf_only e e'"
    "row_count e' = row_count e" "heap e' = heap e" "row_cap e' = row_cap e"
    by (rule rows_set_line [OF assms(1,2)])
  then show ?thesis using that [of e'] rows_line_at [OF assms(1,2)] assms(3) by (simp add: upd_line_def)
qed

lemma rows_free_rows:
  assumes "rows e Ls" and "0 \<le> r" and "r + int n \<le> int (length Ls)"
  shows "free_rows e r n = Some ()"
  using assms
proof (induction n arbitrary: r)
  case (Suc n)
  from Suc.prems have "line_at e r = Some (Ls ! nat r)" by (intro rows_nth) auto
  moreover have "free_rows e (r + 1) n = Some ()" using Suc.prems by (intro Suc.IH) auto
  ultimately show ?case by simp
qed simp

section \<open>Growth and shifts\<close>

lemma rows_ensure_cap:
  assumes "rows e Ls" and "row_count e = int (length Ls)" and "Ls \<noteq> []" and "int (length Ls) \<le> needed"
  obtains ok e' where "lines_ensure_cap needed e = Some (ok, e')" and "rows e' Ls" and "buf_only e e'"
    and "row_count e' = row_count e" and "ok \<longrightarrow> needed < row_cap e'" and "heap e = [] \<longrightarrow> ok \<and> heap e' = []"
proof (cases "needed < row_cap e")
  case True
  with assms that show ?thesis by (auto simp: lines_ensure_cap_def)
next
  case False
  from assms(1) obtain J where J: "lines e = Some (map Some Ls @ J)"
    "row_cap e = int (length Ls) + int (length J)" by (auto simp: rows_def)
  then have pos: "0 < row_cap e" using assms(3) by (cases Ls) auto
  let ?c = "grow_cap (row_cap e * 2) needed"
  have c: "needed < ?c" using pos by (intro grow_cap_gt) simp
  obtain ok h' where m: "malloc_ok (heap e) = (ok, h')" "heap e = [] \<longrightarrow> ok \<and> h' = []" by (rule malloc_okE)
  show ?thesis
  proof (cases ok)
    case ok: False
    then have "lines_ensure_cap needed e = Some (False, e\<lparr>heap := h'\<rparr>)"
      using False pos m by (simp add: lines_ensure_cap_def Let_def)
    then show ?thesis using that [of False "e\<lparr>heap := h'\<rparr>"] ok m assms(1) by (simp add: rows_def)
  next
    case ok: True
    let ?K = "replicate (nat ?c - length Ls) None"
    have n: "nat ?c = length Ls + (nat ?c - length Ls)" using c assms(4) by simp
    have fr: "fresh ?c = [] @ replicate (length Ls) None @ ?K"
      unfolding fresh_def by (metis n append_Nil replicate_add)
    have "blit (fresh ?c) 0 (map Some Ls @ J) 0 (int (length Ls)) = Some ([] @ map Some Ls @ ?K)"
      unfolding fr using blit_split [of 0 "[]" "int (length Ls)" "map Some Ls" "replicate (length Ls) None" 0 "[]" ?K J]
      by simp
    then have "lines_ensure_cap needed e
        = Some (True, e\<lparr>lines := Some (map Some Ls @ ?K), row_cap := ?c, heap := h'\<rparr>)"
      using False pos m J assms(2) ok by (simp add: lines_ensure_cap_def Let_def)
    moreover have "rows (e\<lparr>lines := Some (map Some Ls @ ?K), row_cap := ?c, heap := h'\<rparr>) Ls"
      using c assms(4) by (auto simp: rows_def)
    ultimately show ?thesis
      using that [of True "e\<lparr>lines := Some (map Some Ls @ ?K), row_cap := ?c, heap := h'\<rparr>"] m ok c by simp
  qed
qed

text \<open>
  Moving the rows \<open>B\<close> to \<open>n\<close> rows after \<open>A\<close> and filling the gap with blank structures, as inserting
  a row, merging two rows and replacing a block do.
\<close>

lemma rows_blank:
  assumes "lines e = Some (map Some A @ Z @ map Some B @ W)" and "row_cap e = int (length A + length Z + length B + length W)"
  obtains e' where "blank_rows (int (length A)) (length Z) e = Some e'"
    and "rows e' (A @ replicate (length Z) null_line @ B)"
    and "buf_only e e'" and "row_count e' = row_count e" and "heap e' = heap e" and "row_cap e' = row_cap e"
  using assms
proof (induction Z arbitrary: A e thesis)
  case Nil
  have "rows e (A @ B)" using Nil.prems(2,3) by (auto simp: rows_def)
  then show ?case using Nil.prems(1) [of e] by simp
next
  case (Cons z Z)
  let ?ls = "map Some (A @ [null_line]) @ Z @ map Some B @ W"
  have s: "set_line (int (length A)) null_line e = Some (e\<lparr>lines := Some ?ls\<rparr>)"
    using Cons.prems(2) by (simp add: set_line_def mem_simps)
  obtain e' where e': "blank_rows (int (length (A @ [null_line]))) (length Z) (e\<lparr>lines := Some ?ls\<rparr>) = Some e'"
    "rows e' ((A @ [null_line]) @ replicate (length Z) null_line @ B)"
    "buf_only (e\<lparr>lines := Some ?ls\<rparr>) e'" "row_count e' = row_count e" "heap e' = heap e" "row_cap e' = row_cap e"
    by (rule Cons.IH [where e = "e\<lparr>lines := Some ?ls\<rparr>" and A = "A @ [null_line]"]) (use Cons.prems(3) in auto)
  have "blank_rows (int (length A)) (length (z # Z)) e = Some e'"
    using s e'(1) by (simp add: add.commute)
  moreover have "buf_only e e'" using e'(3) buf_only_trans [of e "e\<lparr>lines := Some ?ls\<rparr>"] by simp
  ultimately show ?case using Cons.prems(1) e' by simp
qed

lemma rows_move:
  assumes "rows e (A @ C @ B)" and "int (length A + n + length B) \<le> row_cap e"
    and "d = int (length A + n)" and "s = int (length A + length C)" and "m = int (length B)"
  obtains Z W e' where "move_lines d s m e = Some e'" and "lines e' = Some (map Some A @ Z @ map Some B @ W)"
    and "length Z = n" and "row_cap e' = int (length A + length Z + length B + length W)"
    and "buf_only e e'" and "row_count e' = row_count e" and "heap e' = heap e" and "row_cap e' = row_cap e"
proof -
  from assms(1) obtain J where J: "lines e = Some (map Some A @ map Some C @ map Some B @ J)"
    "row_cap e = int (length (A @ C @ B)) + int (length J)" by (auto simp: rows_def)
  obtain Z W where zw: "blit (map Some A @ map Some C @ map Some B @ J) d
        (map Some A @ map Some C @ map Some B @ J) s m = Some (map Some A @ Z @ map Some B @ W)"
    "length Z = n" "length W + n = length (map Some C :: Line cells) + length J"
    by (rule blit_shift [of "map Some A @ map Some C @ map Some B @ J" "map Some A" "map Some C" "map Some B" J n d s m])
      (use assms J(2) in simp_all)
  let ?e = "e\<lparr>lines := Some (map Some A @ Z @ map Some B @ W)\<rparr>"
  have "move_lines d s m e = Some ?e" using J zw by (simp add: move_lines_def)
  then show ?thesis using that [of ?e Z W] J zw by simp
qed

lemma rows_weaken:
  assumes "lines e = Some (map Some A @ Z @ map Some B @ W)" and "length Z = 0"
    and "row_cap e = int (length A + length Z + length B + length W)"
  shows "rows e (A @ B)"
  using assms by (auto simp: rows_def)

end
