(* ===== verification/EditorText.thy ===== *)
theory EditorText
  imports EditorRows
begin

text \<open>
  The document. \<open>doc e t\<close>: the array of rows of \<open>e\<close> holds the non-empty list of strings \<open>t\<close>, every
  row with a buffer of its own. The row-level edits are followed from the array to the list of
  strings: \<open>edits safe f t u\<close> says that \<open>f\<close> is total on documents with text \<open>t\<close>, touches nothing but
  the array, yields \<open>u\<close> when no allocation fails and, if \<open>safe\<close>, leaves \<open>t\<close> when one does.
\<close>

definition doc :: "editor \<Rightarrow> string list \<Rightarrow> bool" where
  "doc e t \<longleftrightarrow> (\<exists>Ls. rows e Ls \<and> row_count e = int (length Ls) \<and> Ls \<noteq> [] \<and> list_all2 line_rep Ls t)"

definition edits :: "bool \<Rightarrow> (editor \<Rightarrow> (bool \<times> editor) option) \<Rightarrow> string list \<Rightarrow> string list \<Rightarrow> bool" where
  "edits safe f t u \<longleftrightarrow> (\<forall>e. doc e t \<longrightarrow>
     (\<exists>ok e'. f e = Some (ok, e') \<and> buf_only e e' \<and> (ok \<longrightarrow> doc e' u) \<and> (safe \<and> \<not> ok \<longrightarrow> doc e' t)
        \<and> (heap e = [] \<longrightarrow> ok \<and> heap e' = [])))"

lemma editsD:
  assumes "edits safe f t u" and "doc e t"
  obtains ok e' where "f e = Some (ok, e')" and "buf_only e e'" and "ok \<longrightarrow> doc e' u"
    and "safe \<and> \<not> ok \<longrightarrow> doc e' t" and "heap e = [] \<longrightarrow> ok \<and> heap e' = []"
  using assms(1) [unfolded edits_def, rule_format, OF assms(2)] that by auto

lemma editsI:
  assumes "\<And>e Ls. rows e Ls \<Longrightarrow> row_count e = int (length Ls) \<Longrightarrow> Ls \<noteq> [] \<Longrightarrow> list_all2 line_rep Ls t \<Longrightarrow>
     \<exists>ok e'. f e = Some (ok, e') \<and> buf_only e e' \<and> (ok \<longrightarrow> doc e' u) \<and> (safe \<and> \<not> ok \<longrightarrow> doc e' t)
        \<and> (heap e = [] \<longrightarrow> ok \<and> heap e' = [])"
  shows "edits safe f t u"
  unfolding edits_def
proof (intro allI impI)
  fix e assume "doc e t"
  then obtain Ls where "rows e Ls" "row_count e = int (length Ls)" "Ls \<noteq> []" "list_all2 line_rep Ls t"
    by (auto simp: doc_def)
  then show "\<exists>ok e'. f e = Some (ok, e') \<and> buf_only e e' \<and> (ok \<longrightarrow> doc e' u) \<and> (safe \<and> \<not> ok \<longrightarrow> doc e' t)
        \<and> (heap e = [] \<longrightarrow> ok \<and> heap e' = [])" by (rule assms)
qed

lemma docI:
  "rows e Ls \<Longrightarrow> row_count e = int (length Ls) \<Longrightarrow> Ls \<noteq> [] \<Longrightarrow> list_all2 line_rep Ls t \<Longrightarrow> doc e t"
  by (auto simp: doc_def)

lemma doc_row_count: "doc e t \<Longrightarrow> row_count e = int (length t)"
  by (auto simp: doc_def dest: list_all2_lengthD)

lemma doc_nonempty: "doc e t \<Longrightarrow> t \<noteq> []"
  by (auto simp: doc_def)

lemma doc_cong:
  "lines e' = lines e \<Longrightarrow> row_cap e' = row_cap e \<Longrightarrow> row_count e' = row_count e \<Longrightarrow> doc e' t = doc e t"
  by (simp add: doc_def rows_def)

text \<open>The rows of a document, split where its text is.\<close>

lemma reps_split:
  assumes "list_all2 line_rep Ls (A @ s # B)"
  obtains La ln Lb where "Ls = La @ ln # Lb" and "length La = length A" and "length Lb = length B"
    and "list_all2 line_rep La A" and "line_rep ln s" and "list_all2 line_rep Lb B"
proof -
  from assms obtain us vs where u: "Ls = us @ vs" "list_all2 line_rep us A" "list_all2 line_rep vs (s # B)"
    by (auto simp: list_all2_append2)
  from u(3) obtain z zs where z: "vs = z # zs" "line_rep z s" "list_all2 line_rep zs B"
    by (auto simp: list_all2_Cons2)
  show ?thesis using that [of us z zs] u z by (auto dest: list_all2_lengthD)
qed

lemma doc_split:
  assumes "doc e (A @ s # B)"
  obtains La ln Lb where "rows e (La @ ln # Lb)" and "row_count e = int (length (La @ ln # Lb))"
    and "length La = length A" and "length Lb = length B"
    and "list_all2 line_rep La A" and "line_rep ln s" and "list_all2 line_rep Lb B"
proof -
  from assms obtain Ls where "rows e Ls" "row_count e = int (length Ls)" "list_all2 line_rep Ls (A @ s # B)"
    by (auto simp: doc_def)
  then show ?thesis using that by (auto elim!: reps_split)
qed

text \<open>Equal cells denote equal texts.\<close>

lemma line_rep_fun:
  assumes "line_rep ln s" and "line_rep ln t"
  shows "s = t"
proof -
  have len: "length s = length t" using assms by (simp add: line_rep_def)
  obtain J K where "map Some s @ Some NUL # J = map Some t @ Some NUL # K"
    using assms unfolding line_rep_def by (metis option.inject)
  then have "map Some s = map Some t" using len by (simp add: append_eq_append_conv)
  then show ?thesis by (rule map_injective) simp
qed

lemma doc_unique:
  assumes "doc e t" and "doc e u"
  shows "t = u"
proof -
  obtain Ls Ms where r: "rows e Ls" "rows e Ms" and l: "length Ls = length Ms"
    and t: "list_all2 line_rep Ls t" and u: "list_all2 line_rep Ms u"
    using assms by (auto simp: doc_def)
  have "Ls = Ms"
  proof -
    obtain J K where "map Some Ls @ J = map Some Ms @ K"
      using r unfolding rows_def by (metis option.inject)
    then have "map Some Ls = map Some Ms" using l by (simp add: append_eq_append_conv)
    then show ?thesis by (rule map_injective) simp
  qed
  show ?thesis
  proof (rule nth_equalityI)
    show "length t = length u" using t u l by (simp add: list_all2_lengthD [symmetric])
    fix i assume "i < length t"
    then show "t ! i = u ! i"
      using t u \<open>Ls = Ms\<close> by (metis line_rep_fun list_all2_lengthD list_all2_nthD2)
  qed
qed

lemma doc_line_at:
  assumes "doc e (A @ s # B)" and "i = int (length A)"
  obtains ln where "line_at e i = Some ln" and "line_rep ln s"
proof -
  obtain La ln Lb where "rows e (La @ ln # Lb)" "length La = length A" "line_rep ln s"
    by (rule doc_split [OF assms(1)])
  with rows_line_at [of e La ln Lb i] assms(2) that show ?thesis by simp
qed

section \<open>The row-level edits\<close>

lemma edits_line:
  assumes "line_op f s s'" and "i = int (length A)"
  shows "edits True (on_line i f) (A @ s # B) (A @ s' # B)"
proof (rule editsI)
  fix e Ls assume r: "rows e Ls" "row_count e = int (length Ls)" "list_all2 line_rep Ls (A @ s # B)"
  obtain La ln Lb where Ls: "Ls = La @ ln # Lb" "length La = length A" "length Lb = length B"
    and rep: "list_all2 line_rep La A" "line_rep ln s" "list_all2 line_rep Lb B"
    by (rule reps_split [OF r(3)])
  have "line_rep0 ln s" using rep by (simp add: line_rep0_def)
  then obtain ok ln' e' where e': "on_line i f e = Some (ok, e')" "rows e' (La @ ln' # Lb)"
    "ok \<longrightarrow> line_rep ln' s'" "\<not> ok \<longrightarrow> ln' = ln" "buf_only e e'" "row_count e' = row_count e"
    "heap e = [] \<longrightarrow> ok \<and> heap e' = []"
    using rows_on_line [OF r(1) [unfolded Ls(1)] _ assms(1), of i] assms(2) Ls(2) by metis
  have "ok \<longrightarrow> doc e' (A @ s' # B)" "\<not> ok \<longrightarrow> doc e' (A @ s # B)"
    using e' r(2) Ls rep by (auto intro!: docI list_all2_appendI)
  with e' show "\<exists>ok e'. on_line i f e = Some (ok, e') \<and> buf_only e e' \<and> (ok \<longrightarrow> doc e' (A @ s' # B))
      \<and> (True \<and> \<not> ok \<longrightarrow> doc e' (A @ s # B)) \<and> (heap e = [] \<longrightarrow> ok \<and> heap e' = [])" by auto
qed

lemma doc_upd_line:
  assumes "doc e (A @ s # B)" and "i = int (length A)"
    and "\<And>ln. line_rep ln s \<Longrightarrow> \<exists>ln'. f ln = Some ln' \<and> line_rep ln' s'"
  obtains e' where "upd_line i f e = Some e'" and "doc e' (A @ s' # B)" and "buf_only e e'" and "heap e' = heap e"
proof -
  obtain La ln Lb where r: "rows e (La @ ln # Lb)" "row_count e = int (length (La @ ln # Lb))" "length La = length A"
    and rep: "list_all2 line_rep La A" "line_rep ln s" "list_all2 line_rep Lb B"
    by (rule doc_split [OF assms(1)])
  have i: "i = int (length La)" using r(3) assms(2) by simp
  obtain ln' where ln': "f ln = Some ln'" "line_rep ln' s'" using assms(3) [OF rep(2)] by auto
  obtain e' where e': "upd_line i f e = Some e'" "rows e' (La @ ln' # Lb)" "buf_only e e'"
    "row_count e' = row_count e" "heap e' = heap e"
    by (rule rows_upd_line [where f = f, OF r(1) i ln'(1)])
  have "doc e' (A @ s' # B)"
    by (rule docI [OF e'(2)]) (use e' r rep ln' in \<open>auto intro!: list_all2_appendI\<close>)
  with e' that show ?thesis by blast
qed

lemma rows_open_row:
  assumes "rows e (A @ ln # B)" and "row_count e = int (length (A @ ln # B))" and "r = int (length A)"
  obtains ok e' where "open_row r e = Some (ok, e')" and "ok \<longrightarrow> rows e' (A @ ln # null_line # B)"
    and "\<not> ok \<longrightarrow> rows e' (A @ ln # B)" and "buf_only e e'" and "row_count e' = row_count e"
    and "heap e = [] \<longrightarrow> ok \<and> heap e' = []"
proof -
  have le: "int (length (A @ ln # B)) \<le> row_count e + 1" using assms(2) by simp
  obtain ok e1 where e1: "lines_ensure_cap (row_count e + 1) e = Some (ok, e1)" "rows e1 (A @ ln # B)"
    "buf_only e e1" "row_count e1 = row_count e" "ok \<longrightarrow> row_count e + 1 < row_cap e1"
    "heap e = [] \<longrightarrow> ok \<and> heap e1 = []"
    by (rule rows_ensure_cap [OF assms(1,2) _ le]) simp
  show ?thesis
  proof (cases ok)
    case False
    with e1 that show ?thesis by (simp add: open_row_def)
  next
    case True
    have r1: "rows e1 ((A @ [ln]) @ [] @ B)" using e1(2) by simp
    have pre: "int (length (A @ [ln]) + 1 + length B) \<le> row_cap e1" "r + 2 = int (length (A @ [ln]) + 1)"
      "r + 1 = int (length (A @ [ln]) + length ([] :: Line list))" "row_count e1 - r - 1 = int (length B)"
      using assms(2,3) e1 True by simp_all
    obtain Z W e2 where e2: "move_lines (r + 2) (r + 1) (row_count e1 - r - 1) e1 = Some e2"
      "lines e2 = Some (map Some (A @ [ln]) @ Z @ map Some B @ W)" "length Z = 1"
      "row_cap e2 = int (length (A @ [ln]) + length Z + length B + length W)"
      "buf_only e1 e2" "row_count e2 = row_count e1" "heap e2 = heap e1"
      by (rule rows_move [OF r1 pre(1,2,3,4)])
    obtain e3 where e3: "blank_rows (int (length (A @ [ln]))) (length Z) e2 = Some e3"
      "rows e3 ((A @ [ln]) @ replicate (length Z) null_line @ B)" "buf_only e2 e3"
      "row_count e3 = row_count e2" "heap e3 = heap e2"
      by (rule rows_blank [OF e2(2,4)])
    have "set_line (r + 1) null_line e2 = Some e3"
      using e3(1) e2(3) assms(3) by (auto simp: Let_def add.commute split: bind_splits)
    then have "open_row r e = Some (True, e3)"
      using e1(1) e2(1) True by (simp add: open_row_def)
    moreover have "buf_only e e3" using e1(3) e2(5) e3(3) by (rule buf_only_trans [OF buf_only_trans])
    ultimately show ?thesis
      using that [of True e3] e1(4,6) e2(3,6,7) e3(2,4,5) True by simp
  qed
qed

lemma edits_split:
  assumes "r = int (length A)" and "c = int (length x)"
  shows "edits False (split_line r c) (A @ (x @ y) # B) (A @ x # y # B)"
proof (rule editsI)
  fix e Ls assume r: "rows e Ls" "row_count e = int (length Ls)" "list_all2 line_rep Ls (A @ (x @ y) # B)"
  obtain La ln Lb where Ls: "Ls = La @ ln # Lb" "length La = length A" "length Lb = length B"
    and rep: "list_all2 line_rep La A" "line_rep ln (x @ y)" "list_all2 line_rep Lb B"
    by (rule reps_split [OF r(3)])
  have r': "r = int (length La)" "r + 1 = int (length (La @ [ln]))" using assms(1) Ls(2) by simp_all
  obtain ok e1 where e1: "open_row r e = Some (ok, e1)" "ok \<longrightarrow> rows e1 (La @ ln # null_line # Lb)"
    "buf_only e e1" "row_count e1 = row_count e" "heap e = [] \<longrightarrow> ok \<and> heap e1 = []"
    by (rule rows_open_row [OF r(1,2) [unfolded Ls(1)] r'(1)]) blast
  show "\<exists>ok e'. split_line r c e = Some (ok, e') \<and> buf_only e e' \<and> (ok \<longrightarrow> doc e' (A @ x # y # B))
      \<and> (False \<and> \<not> ok \<longrightarrow> doc e' (A @ (x @ y) # B)) \<and> (heap e = [] \<longrightarrow> ok \<and> heap e' = [])"
  proof (cases ok)
    case False
    with e1 show ?thesis by (auto simp: split_line_def)
  next
    case True
    with e1(2) have r1: "rows e1 ((La @ [ln]) @ null_line # Lb)" by simp
    have at: "line_at e1 r = Some ln"
      by (rule rows_line_at [of e1 La ln "null_line # Lb"]) (use r1 r' in auto)
    obtain J where J: "ln_buf ln = Some (map Some x @ map Some y @ Some NUL # J)" "ln_len ln = int (length (x @ y))"
      using rep(2) by (auto simp: line_rep_def)
    have op: "line_op (line_put0 (ln_len ln - c) 0 (ln_buf ln) c (ln_len ln - c)) [] y"
      using line_put0_op [of 0 "[]" _ "map Some x" y "Some NUL # J" "ln_len ln - c" c "ln_len ln - c"] J assms(2)
      by simp
    obtain ok2 l2 e2 where e2: "on_line (r + 1) (line_put0 (ln_len ln - c) 0 (ln_buf ln) c (ln_len ln - c)) e1 = Some (ok2, e2)"
      "rows e2 ((La @ [ln]) @ l2 # Lb)" "ok2 \<longrightarrow> line_rep l2 y" "buf_only e1 e2"
      "row_count e2 = row_count e1" "heap e1 = [] \<longrightarrow> ok2 \<and> heap e2 = []"
      by (rule rows_on_line [OF r1 r'(2) op null_rep0]) blast
    show ?thesis
    proof (cases ok2)
      case False
      have "buf_only e e2" using e1(3) e2(4) by (rule buf_only_trans)
      with False True e1 e2 at show ?thesis by (auto simp: split_line_def Let_def)
    next
      case ok2: True
      obtain l1 where l1: "line_truncate c ln = Some l1" "line_rep l1 x"
        using line_truncate_rep [OF rep(2), of "length x"] assms(2) by auto
      obtain e3 where e3: "upd_line r (line_truncate c) e2 = Some e3" "rows e3 (La @ l1 # l2 # Lb)"
        "buf_only e2 e3" "row_count e3 = row_count e2" "heap e3 = heap e2"
        by (rule rows_upd_line [where f = "line_truncate c", OF _ r'(1) l1(1)]) (use e2 in auto)
      let ?e = "e3\<lparr>row_count := row_count e3 + 1\<rparr>"
      have "split_line r c e = Some (True, ?e)"
        using True ok2 e1 e2 e3 at by (simp add: split_line_def Let_def)
      moreover have "doc ?e (A @ x # y # B)"
      proof (rule docI)
        show "rows ?e (La @ l1 # l2 # Lb)" using e3(2) by (simp add: rows_def)
        show "list_all2 line_rep (La @ l1 # l2 # Lb) (A @ x # y # B)"
          using rep l1 e2(3) ok2 by (auto intro!: list_all2_appendI)
      qed (use e1 e2 e3 r Ls in auto)
      moreover have "buf_only e ?e"
        using buf_only_trans [OF buf_only_trans [OF e1(3) e2(4)] e3(3)] by simp
      ultimately show ?thesis using True ok2 e1(5) e2(6) e3(5) by auto
    qed
  qed
qed

text \<open>Writes beyond the rows in use.\<close>

lemma rows_set_beyond:
  assumes "rows e Ls" and "int (length Ls) \<le> i" and "i < row_cap e"
  obtains e' where "set_line i x e = Some e'" and "rows e' Ls" and "buf_only e e'"
    and "row_count e' = row_count e" and "heap e' = heap e"
proof -
  from assms(1) obtain J where J: "lines e = Some (map Some Ls @ J)" "row_cap e = int (length Ls) + int (length J)"
    by (auto simp: rows_def)
  let ?j = "nat i - length Ls"
  let ?e = "e\<lparr>lines := Some (map Some Ls @ J[?j := Some x])\<rparr>"
  have "set_line i x e = Some ?e"
    using J assms by (simp add: set_line_def awrite_def in_range_def list_update_append)
  moreover have "rows ?e Ls" using J by (auto simp: rows_def)
  ultimately show ?thesis using that by simp
qed

lemma rows_clear_beyond:
  assumes "rows e Ls" and "d = int (length Ls)" and "0 \<le> n" and "d + n \<le> row_cap e"
  obtains e' where "clear_lines d n e = Some e'" and "rows e' Ls" and "buf_only e e'"
    and "row_count e' = row_count e" and "heap e' = heap e"
proof -
  from assms(1) obtain J where J: "lines e = Some (map Some Ls @ J)" "row_cap e = int (length Ls) + int (length J)"
    by (auto simp: rows_def)
  let ?K = "replicate (nat n) (Some null_line) @ drop (nat n) J"
  have n: "nat (int (length Ls) + n) = length Ls + nat n" using assms(3) by simp
  have "clear_lines d n e = Some (e\<lparr>lines := Some (map Some Ls @ ?K)\<rparr>)"
    using J assms n by (simp add: clear_lines_def afill_def blit_def in_range_def)
  moreover have "rows (e\<lparr>lines := Some (map Some Ls @ ?K)\<rparr>) Ls"
    using J assms by (auto simp: rows_def)
  ultimately show ?thesis using that by simp
qed

lemma rows_close:
  assumes "rows e (A @ C @ B)" and "row_count e = int (length (A @ C @ B))" and "d = int (length A)"
    and "s = int (length A + length C)" and "m = int (length B)"
  obtains e' where "move_lines d s m e = Some e'" and "rows e' (A @ B)" and "buf_only e e'"
    and "row_count e' = row_count e" and "heap e' = heap e" and "row_count e \<le> row_cap e'"
proof -
  have cap: "row_count e \<le> row_cap e" using assms(1,2) by (auto simp: rows_def)
  have pre: "int (length A + 0 + length B) \<le> row_cap e" "d = int (length A + 0)" using cap assms(2,3) by simp_all
  obtain Z W e' where e': "move_lines d s m e = Some e'" "lines e' = Some (map Some A @ Z @ map Some B @ W)"
    "length Z = 0" "row_cap e' = int (length A + length Z + length B + length W)" "buf_only e e'"
    "row_count e' = row_count e" "heap e' = heap e" "row_cap e' = row_cap e"
    by (rule rows_move [OF assms(1) pre assms(4,5)])
  show ?thesis using that [of e'] rows_weaken [OF e'(2,3,4)] e' cap by simp
qed

text \<open>Row \<open>r\<close> joined to the row above; a failed allocation changes nothing.\<close>

lemma edits_merge:
  assumes "r = int (length A) + 1"
  shows "edits True (merge_up r) (A @ x # y # B) (A @ (x @ y) # B)"
proof (rule editsI)
  fix e Ls assume r: "rows e Ls" "row_count e = int (length Ls)" "list_all2 line_rep Ls (A @ x # y # B)"
  have r3: "list_all2 line_rep Ls ((A @ [x]) @ y # B)" using r(3) by simp
  obtain Lp q Lb where q: "Ls = Lp @ q # Lb" "length Lp = length (A @ [x])" "length Lb = length B"
    "list_all2 line_rep Lp (A @ [x])" "line_rep q y" "list_all2 line_rep Lb B"
    by (rule reps_split [OF r3])
  obtain La p L0 where p: "Lp = La @ p # L0" "length La = length A" "length L0 = length ([]::string list)"
    "list_all2 line_rep La A" "line_rep p x"
    by (rule reps_split [OF q(4)])
  have Ls: "Ls = La @ p # q # Lb" using p(1,3) q(1) by simp
  have r': "r - 1 = int (length La)" "r = int (length (La @ [p]))" using assms p(2) by simp_all
  have at: "line_at e (r - 1) = Some p" "line_at e r = Some q"
    using r(1) Ls r' rows_line_at [of e La p "q # Lb"] rows_line_at [of e "La @ [p]" q Lb] by auto
  obtain J where J: "ln_buf q = Some (map Some y @ Some NUL # J)" "ln_len q = int (length y)"
    using q(5) by (auto simp: line_rep_def)
  have pl: "ln_len p = int (length x)" using p(5) by (simp add: line_rep_def)
  let ?f = "line_put (ln_len p + ln_len q + 1) (ln_len p) (ln_buf q) 0 (ln_len q)"
  have op: "line_op ?f x (x @ y)"
    using line_put_op [of "length x" x "map Some y @ Some NUL # J" "[]" y J "ln_len p + ln_len q + 1" 0 "ln_len q"] J pl
    by simp
  obtain ok p' e1 where e1: "on_line (r - 1) ?f e = Some (ok, e1)" "rows e1 (La @ p' # q # Lb)"
    "ok \<longrightarrow> line_rep p' (x @ y)" "\<not> ok \<longrightarrow> p' = p" "buf_only e e1" "row_count e1 = row_count e"
    "heap e = [] \<longrightarrow> ok \<and> heap e1 = []"
    by (rule rows_on_line [OF r(1) [unfolded Ls] r'(1) op rep_rep0 [OF p(5)]])
  show "\<exists>ok e'. merge_up r e = Some (ok, e') \<and> buf_only e e' \<and> (ok \<longrightarrow> doc e' (A @ (x @ y) # B))
      \<and> (True \<and> \<not> ok \<longrightarrow> doc e' (A @ x # y # B)) \<and> (heap e = [] \<longrightarrow> ok \<and> heap e' = [])"
  proof (cases ok)
    case False
    have "merge_up r e = Some (False, e1)" using at e1(1) False by (simp add: merge_up_def)
    moreover have "doc e1 (A @ x # y # B)"
      by (rule docI [OF e1(2)]) (use e1 False r Ls in auto)
    ultimately show ?thesis using e1 False by auto
  next
    case True
    have r1: "rows e1 ((La @ [p']) @ [q] @ Lb)" using e1(2) by simp
    have pre: "row_count e1 = int (length ((La @ [p']) @ [q] @ Lb))" "r = int (length (La @ [p']))"
      "r + 1 = int (length (La @ [p']) + length [q])" "row_count e1 - r - 1 = int (length Lb)"
      using e1(6) r(2) Ls r' by simp_all
    obtain e2 where e2: "move_lines r (r + 1) (row_count e1 - r - 1) e1 = Some e2"
      "rows e2 ((La @ [p']) @ Lb)" "buf_only e1 e2" "row_count e2 = row_count e1" "heap e2 = heap e1"
      "row_count e1 \<le> row_cap e2"
      by (rule rows_close [OF r1 pre])
    have pre2: "int (length ((La @ [p']) @ Lb)) \<le> row_count e2 - 1" "row_count e2 - 1 < row_cap e2"
      using e2 pre(1) by simp_all
    obtain e3 where e3: "set_line (row_count e2 - 1) null_line e2 = Some e3" "rows e3 ((La @ [p']) @ Lb)"
      "buf_only e2 e3" "row_count e3 = row_count e2" "heap e3 = heap e2"
      by (rule rows_set_beyond [OF e2(2) pre2])
    let ?e = "e3\<lparr>row_count := row_count e3 - 1\<rparr>"
    have "merge_up r e = Some (True, ?e)" using at e1(1) e2(1) e3(1) True by (simp add: merge_up_def)
    moreover have "doc ?e (A @ (x @ y) # B)"
    proof (rule docI)
      show "rows ?e ((La @ [p']) @ Lb)" using e3(2) by (simp add: rows_def)
      show "row_count ?e = int (length ((La @ [p']) @ Lb))" using e3(4) e2(4) pre(1) by simp
      show "list_all2 line_rep ((La @ [p']) @ Lb) (A @ (x @ y) # B)"
        using p(4) q(6) e1(3) True by (simp add: list_all2_appendI)
    qed simp
    moreover have "buf_only e ?e" using buf_only_trans [OF buf_only_trans [OF e1(5) e2(3)] e3(3)] by simp
    ultimately show ?thesis using True e1(7) e2(5) e3(5) by auto
  qed
qed

text \<open>The rows from column \<open>c\<close> of row \<open>r\<close> to column \<open>c'\<close> of a later row \<open>r'\<close> removed.\<close>

lemma edits_delete_rows:
  assumes "r = int (length A)" and "c = int (length x)" and "r' = int (length A + 1 + length M)" and "c' = int (length z)"
  shows "edits True (delete_rows r c r' c') (A @ (x @ w) # M @ (z @ y) # B) (A @ (x @ y) # B)"
proof (rule editsI)
  fix e Ls assume r: "rows e Ls" "row_count e = int (length Ls)"
    "list_all2 line_rep Ls (A @ (x @ w) # M @ (z @ y) # B)"
  obtain La p Lr where p: "Ls = La @ p # Lr" "length La = length A" "list_all2 line_rep La A"
    "line_rep p (x @ w)" "list_all2 line_rep Lr (M @ (z @ y) # B)"
    by (rule reps_split [OF r(3)])
  obtain Lm q Lb where q: "Lr = Lm @ q # Lb" "length Lm = length M" "line_rep q (z @ y)" "list_all2 line_rep Lb B"
    by (rule reps_split [OF p(5)])
  have Ls: "Ls = La @ p # Lm @ q # Lb" using p(1) q(1) by simp
  have rL: "r = int (length La)" "r' = int (length (La @ p # Lm))" using assms p(2) q(2) by simp_all
  have at: "line_at e r' = Some q"
    using r(1) Ls rL rows_line_at [of e "La @ p # Lm" q Lb] by auto
  obtain J where J: "ln_buf q = Some (map Some z @ map Some y @ Some NUL # J)" "ln_len q = int (length (z @ y))"
    using q(3) by (auto simp: line_rep_def)
  let ?n = "ln_len q - c'"
  let ?f = "line_put (c + ?n + 1) c (ln_buf q) c' ?n"
  have op: "line_op ?f (x @ w) (x @ y)"
    using line_put_op [of "length x" "x @ w" "map Some z @ map Some y @ Some NUL # J" "map Some z" y J "c + ?n + 1" c' "?n"]
      J assms(2,4) by simp
  obtain ok p' e1 where e1: "on_line r ?f e = Some (ok, e1)" "rows e1 (La @ p' # Lm @ q # Lb)"
    "ok \<longrightarrow> line_rep p' (x @ y)" "\<not> ok \<longrightarrow> p' = p" "buf_only e e1" "row_count e1 = row_count e"
    "heap e = [] \<longrightarrow> ok \<and> heap e1 = []"
    by (rule rows_on_line [OF r(1) [unfolded Ls] rL(1) op rep_rep0 [OF p(4)]])
  show "\<exists>ok e'. delete_rows r c r' c' e = Some (ok, e') \<and> buf_only e e' \<and> (ok \<longrightarrow> doc e' (A @ (x @ y) # B))
      \<and> (True \<and> \<not> ok \<longrightarrow> doc e' (A @ (x @ w) # M @ (z @ y) # B)) \<and> (heap e = [] \<longrightarrow> ok \<and> heap e' = [])"
  proof (cases ok)
    case False
    have "delete_rows r c r' c' e = Some (False, e1)" using at e1(1) False by (simp add: delete_rows_def Let_def)
    moreover have "doc e1 (A @ (x @ w) # M @ (z @ y) # B)"
      by (rule docI [OF e1(2)]) (use e1 False r Ls in auto)
    ultimately show ?thesis using e1 False by auto
  next
    case True
    let ?d = "r' - r"
    have r1: "rows e1 ((La @ [p']) @ (Lm @ [q]) @ Lb)" using e1(2) by simp
    have pre: "row_count e1 = int (length ((La @ [p']) @ (Lm @ [q]) @ Lb))" "r + 1 = int (length (La @ [p']))"
      "r' + 1 = int (length (La @ [p']) + length (Lm @ [q]))" "row_count e1 - r' - 1 = int (length Lb)"
      using e1(6) r(2) Ls rL by simp_all
    have fr: "free_rows e1 (r + 1) (nat ?d) = Some ()"
      by (rule rows_free_rows [OF r1]) (use rL in simp_all)
    obtain e2 where e2: "move_lines (r + 1) (r' + 1) (row_count e1 - r' - 1) e1 = Some e2"
      "rows e2 ((La @ [p']) @ Lb)" "buf_only e1 e2" "row_count e2 = row_count e1" "heap e2 = heap e1"
      "row_count e1 \<le> row_cap e2"
      by (rule rows_close [OF r1 pre])
    have pre2: "row_count e2 - ?d = int (length ((La @ [p']) @ Lb))" "0 \<le> ?d" "row_count e2 - ?d + ?d \<le> row_cap e2"
      using e2 pre(1) rL by simp_all
    obtain e3 where e3: "clear_lines (row_count e2 - ?d) ?d e2 = Some e3" "rows e3 ((La @ [p']) @ Lb)"
      "buf_only e2 e3" "row_count e3 = row_count e2" "heap e3 = heap e2"
      by (rule rows_clear_beyond [OF e2(2) pre2])
    let ?e = "e3\<lparr>row_count := row_count e3 - ?d\<rparr>"
    have "delete_rows r c r' c' e = Some (True, ?e)"
      using at e1(1) fr e2(1) e3(1) True by (simp add: delete_rows_def Let_def)
    moreover have "doc ?e (A @ (x @ y) # B)"
    proof (rule docI)
      show "rows ?e ((La @ [p']) @ Lb)" using e3(2) by (simp add: rows_def)
      show "row_count ?e = int (length ((La @ [p']) @ Lb))" using e3(4) pre2(1) by simp
      show "list_all2 line_rep ((La @ [p']) @ Lb) (A @ (x @ y) # B)"
        using p(3) q(4) e1(3) True by (simp add: list_all2_appendI)
    qed simp
    moreover have "buf_only e ?e" using buf_only_trans [OF buf_only_trans [OF e1(5) e2(3)] e3(3)] by simp
    ultimately show ?thesis using True e1(7) e2(5) e3(5) by auto
  qed
qed

end
