(* ===== verification/EditorGap.thy ===== *)
theory EditorGap
  imports EditorText
begin

text \<open>
  The abstract editor: a text with a gap, the pair of the string before and the string after the
  cursor, rows joined by newlines. \<open>gap e b a\<close> relates the concrete editor to it. The editing and
  movement functions of \<open>editor.c\<close> refine the obvious operations on the pair, without undefined
  behaviour, whatever the growth of the buffers and the order of the edits.
\<close>

definition above :: "string list \<Rightarrow> string \<Rightarrow> string" where
  "above A x = concat (map (\<lambda>s. s @ [NL]) A) @ x"

definition below :: "string \<Rightarrow> string list \<Rightarrow> string" where
  "below y B = y @ concat (map (\<lambda>s. NL # s) B)"

text \<open>Row \<open>r\<close>, column \<open>c\<close> of the text \<open>t\<close> is between \<open>b\<close> and \<open>a\<close>.\<close>

definition at_pos :: "string list \<Rightarrow> int \<Rightarrow> int \<Rightarrow> string \<Rightarrow> string \<Rightarrow> bool" where
  "at_pos t r c b a \<longleftrightarrow> (\<exists>A x y B. t = A @ (x @ y) # B \<and> r = int (length A) \<and> c = int (length x)
      \<and> b = above A x \<and> a = below y B)"

text \<open>No row has a line break or a terminator in it.\<close>

definition clean :: "string list \<Rightarrow> bool" where
  "clean t \<longleftrightarrow> (\<forall>s \<in> set t. NL \<notin> set s \<and> NUL \<notin> set s)"

definition gap :: "editor \<Rightarrow> string \<Rightarrow> string \<Rightarrow> bool" where
  "gap e b a \<longleftrightarrow> (\<exists>t. doc e t \<and> clean t \<and> at_pos t (cursor_row e) (cursor_col e) b a)"

lemma clean_append [simp]: "clean (t @ u) \<longleftrightarrow> clean t \<and> clean u"
  by (auto simp: clean_def)

lemma clean_Cons [simp]: "clean (s # t) \<longleftrightarrow> NL \<notin> set s \<and> NUL \<notin> set s \<and> clean t"
  by (auto simp: clean_def)

lemma clean_Nil [simp]: "clean []"
  by (simp add: clean_def)

lemma gapE:
  assumes "gap e b a"
  obtains A x y B where "doc e (A @ (x @ y) # B)" and "clean (A @ (x @ y) # B)"
    and "cursor_row e = int (length A)" and "cursor_col e = int (length x)"
    and "b = above A x" and "a = below y B"
  using assms by (auto simp: gap_def at_pos_def)

lemma gapI:
  assumes "doc e (A @ (x @ y) # B)" and "clean (A @ (x @ y) # B)"
    and "cursor_row e = int (length A)" and "cursor_col e = int (length x)"
    and "b = above A x" and "a = below y B"
  shows "gap e b a"
  using assms unfolding gap_def at_pos_def by blast

lemma above_snoc: "above A (x @ [c]) = above A x @ [c]"
  by (simp add: above_def)

lemma above_row: "above (A @ [s]) [] = above A s @ [NL]"
  by (simp add: above_def)

lemma above_Nil [simp]: "above [] x = x"
  by (simp add: above_def)

lemma below_Cons: "below (c # y) B = c # below y B"
  by (simp add: below_def)

lemma below_row: "below [] (s # B) = NL # below s B"
  by (simp add: below_def)

lemma below_Nil [simp]: "below y [] = y"
  by (simp add: below_def)

section \<open>The scroll position\<close>

lemma clamp_scroll_simps [simp]:
  "lines (clamp_scroll e) = lines e" "row_cap (clamp_scroll e) = row_cap e"
  "cursor_row (clamp_scroll e) = cursor_row e" "cursor_col (clamp_scroll e) = cursor_col e"
  "row_count (clamp_scroll e) = row_count e" "visible_rows (clamp_scroll e) = visible_rows e"
  "visible_cols (clamp_scroll e) = visible_cols e" "sel_active (clamp_scroll e) = sel_active e"
  "sel_anchor_row (clamp_scroll e) = sel_anchor_row e" "sel_anchor_col (clamp_scroll e) = sel_anchor_col e"
  "ed_remote (clamp_scroll e) = ed_remote e" "remote_cursor_row (clamp_scroll e) = remote_cursor_row e"
  "remote_cursor_col (clamp_scroll e) = remote_cursor_col e" "clipboard (clamp_scroll e) = clipboard e"
  "heap (clamp_scroll e) = heap e"
  by (simp_all add: clamp_scroll_def Let_def)

lemma doc_clamp [simp]: "doc (clamp_scroll e) t = doc e t"
  by (rule doc_cong) simp_all

lemma gap_clamp [simp]: "gap (clamp_scroll e) b a = gap e b a"
  by (simp add: gap_def)

lemma doc_upd [simp]:
  "doc (e\<lparr>cursor_row := r\<rparr>) t = doc e t" "doc (e\<lparr>cursor_col := c\<rparr>) t = doc e t"
  "doc (e\<lparr>remote_cursor_row := r\<rparr>) t = doc e t" "doc (e\<lparr>remote_cursor_col := c\<rparr>) t = doc e t"
  "doc (e\<lparr>sel_active := f\<rparr>) t = doc e t" "doc (e\<lparr>sel_dirty := f\<rparr>) t = doc e t"
  "doc (e\<lparr>clipboard := d\<rparr>) t = doc e t" "doc (e\<lparr>heap := h\<rparr>) t = doc e t"
  "doc (e\<lparr>sel_anchor_row := r\<rparr>) t = doc e t" "doc (e\<lparr>sel_anchor_col := c\<rparr>) t = doc e t"
  by (rule doc_cong; simp)+

text \<open>The cursor is inside the visible part of the text.\<close>

definition cursor_visible :: "editor \<Rightarrow> bool" where
  "cursor_visible e \<longleftrightarrow> scroll_row e \<le> cursor_row e \<and> cursor_row e < scroll_row e + visible_rows e
     \<and> scroll_col e \<le> cursor_col e \<and> cursor_col e < scroll_col e + visible_cols e"

lemma clamp_scroll_visible:
  "0 < visible_rows e \<Longrightarrow> 0 < visible_cols e \<Longrightarrow> cursor_visible (clamp_scroll e)"
  by (simp add: cursor_visible_def clamp_scroll_def Let_def)

lemma clamp_scroll_minimal:
  "cursor_visible e \<Longrightarrow> scroll_row (clamp_scroll e) = scroll_row e \<and> scroll_col (clamp_scroll e) = scroll_col e
     \<and> scroll_dirty (clamp_scroll e) = scroll_dirty e"
  by (simp add: cursor_visible_def clamp_scroll_def Let_def)

section \<open>Editing at the cursor\<close>

lemma gap_insert:
  assumes "gap e b a" and "c \<noteq> NUL"
  obtains ok e' where "editor_insert_char c e = Some (alloc_result ok, e')" and "ok \<longrightarrow> gap e' (b @ [c]) a"
    and "c \<noteq> NL \<and> \<not> ok \<longrightarrow> gap e' b a" and "heap e = [] \<longrightarrow> ok \<and> heap e' = []"
proof -
  obtain A x y B where g: "doc e (A @ (x @ y) # B)" "clean (A @ (x @ y) # B)"
    "cursor_row e = int (length A)" "cursor_col e = int (length x)" "b = above A x" "a = below y B"
    by (rule gapE [OF assms(1)])
  show ?thesis
  proof (cases "c = NL")
    case True
    obtain ok e1 where e1: "split_line (cursor_row e) (cursor_col e) e = Some (ok, e1)" "buf_only e e1"
      "ok \<longrightarrow> doc e1 (A @ x # y # B)" "heap e = [] \<longrightarrow> ok \<and> heap e1 = []"
      by (rule editsD [OF edits_split [OF g(3,4)] g(1)]) blast
    let ?e = "clamp_scroll (e1\<lparr>cursor_row := cursor_row e1 + 1, cursor_col := 0\<rparr>)"
    have "ok \<longrightarrow> gap ?e (b @ [c]) a"
    proof
      assume ok
      then show "gap ?e (b @ [c]) a"
        using e1 g True buf_onlyD [OF e1(2)]
        by (intro gapI [of _ "A @ [x]" "[]" y B]) (simp_all add: above_row)
    qed
    then show ?thesis
      using that [of ok "if ok then ?e else e1"] e1 True by (simp add: editor_insert_char_def)
  next
    case False
    have op: "line_op (line_insert (cursor_col e) c) (x @ y) (x @ c # y)"
      using line_insert_op [of "length x" "x @ y" c] g(4) by simp
    obtain ok e1 where e1: "on_line (cursor_row e) (line_insert (cursor_col e) c) e = Some (ok, e1)"
      "buf_only e e1" "ok \<longrightarrow> doc e1 (A @ (x @ c # y) # B)" "True \<and> \<not> ok \<longrightarrow> doc e1 (A @ (x @ y) # B)"
      "heap e = [] \<longrightarrow> ok \<and> heap e1 = []"
      by (rule editsD [OF edits_line [OF op g(3)] g(1)])
    let ?e = "clamp_scroll (e1\<lparr>cursor_col := cursor_col e1 + 1\<rparr>)"
    have "ok \<longrightarrow> gap ?e (b @ [c]) a"
    proof
      assume ok
      then show "gap ?e (b @ [c]) a"
        using e1 g False assms(2) buf_onlyD [OF e1(2)]
        by (intro gapI [of _ A "x @ [c]" y B]) (simp_all add: above_snoc)
    qed
    moreover have "\<not> ok \<longrightarrow> gap e1 b a"
      using e1(4) g buf_onlyD [OF e1(2)] by (auto intro: gapI)
    ultimately show ?thesis
      using that [of ok "if ok then ?e else e1"] e1 False by (simp add: editor_insert_char_def)
  qed
qed

lemma gap_delete:
  assumes "gap e b a"
  obtains ok e' where "editor_delete_char e = Some (alloc_result ok, e')" and "ok \<longrightarrow> gap e' (butlast b) a"
    and "\<not> ok \<longrightarrow> gap e' b a" and "heap e = [] \<longrightarrow> ok \<and> heap e' = []"
proof -
  obtain A x y B where g: "doc e (A @ (x @ y) # B)" "clean (A @ (x @ y) # B)"
    "cursor_row e = int (length A)" "cursor_col e = int (length x)" "b = above A x" "a = below y B"
    by (rule gapE [OF assms(1)])
  consider x' c where "x = x' @ [c]" | A' s where "x = []" "A = A' @ [s]" | "x = []" "A = []"
    by (cases x rule: rev_cases; cases A rule: rev_cases) auto
  then show ?thesis
  proof cases
    case 1
    obtain ln where ln: "line_at e (cursor_row e) = Some ln" "line_rep ln (x @ y)"
      by (rule doc_line_at [OF g(1,3)])
    let ?f = "line_cut (cursor_col e - 1) (cursor_col e - 1 + 1) (ln_len ln - (cursor_col e - 1))"
    have l: "ln_len ln = int (length (x @ y))" using ln(2) by (simp add: line_rep_def)
    have f: "\<exists>ln'. ?f m = Some ln' \<and> line_rep ln' (x' @ y)" if "line_rep m (x @ y)" for m
      using line_cut_rep [OF that, of "length x'" "length x" "ln_len ln - (cursor_col e - 1)"] 1 g(4) l
      by (simp add: add.commute)
    let ?e0 = "e\<lparr>cursor_col := cursor_col e - 1\<rparr>"
    have d0: "doc ?e0 (A @ (x @ y) # B)" using g(1) by simp
    obtain e1 where e1: "upd_line (cursor_row e) ?f ?e0 = Some e1" "doc e1 (A @ (x' @ y) # B)"
      "buf_only ?e0 e1" "heap e1 = heap ?e0"
      by (rule doc_upd_line [OF d0 g(3) f])
    have "line_at ?e0 = line_at e" by (simp add: fun_eq_iff line_at_def)
    then have "editor_delete_char e = Some (alloc_result True, clamp_scroll e1)"
      using 1 g(4) ln(1) e1(1) by (simp add: editor_delete_char_def alloc_result_def Let_def)
    moreover have "gap (clamp_scroll e1) (butlast b) a"
      using e1(2) g 1 buf_onlyD [OF e1(3)]
      by (intro gapI [of _ A x' y B]) (simp_all add: above_snoc)
    ultimately show ?thesis using that [of True "clamp_scroll e1"] e1(4) by simp
  next
    case 2
    have d: "doc e (A' @ s # y # B)" and r: "cursor_row e = int (length A') + 1" using g(1,3) 2 by simp_all
    obtain ln where ln: "line_at e (cursor_row e - 1) = Some ln" "line_rep ln s"
      by (rule doc_line_at [OF d]) (use r in auto)
    have l: "ln_len ln = int (length s)" using ln(2) by (simp add: line_rep_def)
    obtain ok e1 where e1: "merge_up (cursor_row e) e = Some (ok, e1)" "buf_only e e1"
      "ok \<longrightarrow> doc e1 (A' @ (s @ y) # B)" "True \<and> \<not> ok \<longrightarrow> doc e1 (A' @ s # y # B)"
      "heap e = [] \<longrightarrow> ok \<and> heap e1 = []"
      by (rule editsD [OF edits_merge [OF r] d])
    let ?e = "clamp_scroll (e1\<lparr>cursor_row := cursor_row e1 - 1, cursor_col := ln_len ln\<rparr>)"
    have "editor_delete_char e = Some (alloc_result ok, if ok then ?e else e1)"
      using 2 g(3,4) ln(1) e1(1) by (simp add: editor_delete_char_def)
    moreover have "ok \<longrightarrow> gap ?e (butlast b) a"
    proof
      assume ok
      then show "gap ?e (butlast b) a"
        using e1(3) g 2 l buf_onlyD [OF e1(2)]
        by (intro gapI [of _ A' s y B]) (simp_all add: above_row)
    qed
    moreover have "\<not> ok \<longrightarrow> gap e1 b a"
    proof
      assume "\<not> ok"
      then show "gap e1 b a"
        using e1(4) g 2 buf_onlyD(1,2) [OF e1(2)] by (intro gapI [of _ A x y B]) simp_all
    qed
    ultimately show ?thesis using that [of ok "if ok then ?e else e1"] e1(5) by simp
  next
    case 3
    then have "editor_delete_char e = Some (alloc_result True, clamp_scroll e)"
      using g(3,4) by (simp add: editor_delete_char_def alloc_result_def)
    then show ?thesis using that [of True "clamp_scroll e"] assms(1) g 3 by simp
  qed
qed

section \<open>Words\<close>

text \<open>The string without its longest suffix of characters satisfying \<open>p\<close>.\<close>

definition strip_end :: "(char \<Rightarrow> bool) \<Rightarrow> string \<Rightarrow> string" where
  "strip_end p s = rev (dropWhile p (rev s))"

lemma strip_end_Nil [simp]: "strip_end p [] = []"
  by (simp add: strip_end_def)

lemma strip_end_snoc [simp]: "strip_end p (s @ [c]) = (if p c then strip_end p s else s @ [c])"
  by (simp add: strip_end_def)

lemma strip_end_prefix: "\<exists>m. s = strip_end p s @ m \<and> (\<forall>c \<in> set m. p c)"
proof -
  have "rev s = takeWhile p (rev s) @ dropWhile p (rev s)" by simp
  then have "s = strip_end p s @ rev (takeWhile p (rev s))"
    unfolding strip_end_def by (metis rev_append rev_rev_ident)
  then show ?thesis by (metis set_rev set_takeWhileD)
qed

lemma strip_end_append: "(\<exists>c \<in> set s. \<not> p c) \<Longrightarrow> strip_end p (r @ s) = r @ strip_end p s"
  by (induction s rule: rev_induct) (auto simp: append_assoc [symmetric] simp del: append_assoc)

lemma strip_end_append_all: "(\<forall>c \<in> set s. p c) \<Longrightarrow> strip_end p (r @ s) = strip_end p r"
  by (induction s rule: rev_induct) (simp_all add: append_assoc [symmetric] del: append_assoc)

lemma strip_end_cong: "(\<And>c. c \<in> set s \<Longrightarrow> p c = q c) \<Longrightarrow> strip_end p s = strip_end q s"
  by (induction s rule: rev_induct) auto

lemma skip_back_eq:
  "b = Some (map Some x @ r) \<Longrightarrow> skip_back p b (int (length x)) = Some (int (length (strip_end p x)))"
proof (induction x arbitrary: r rule: rev_induct)
  case Nil
  then show ?case by (simp add: skip_back.simps)
next
  case (snoc c x)
  have "aread (map Some x @ Some c # r) (int (length x)) = Some c" by (simp add: mem_simps)
  moreover have "skip_back p b (int (length x)) = Some (int (length (strip_end p x)))"
    by (rule snoc.IH [of "Some c # r"]) (use snoc.prems in simp)
  ultimately show ?case using snoc.prems
    by (subst skip_back.simps) simp
qed

lemma skip_forward_eq:
  "b = Some (map Some (x @ y) @ r) \<Longrightarrow>
     skip_forward p b (int (length (x @ y))) (int (length x)) = Some (int (length x + length (takeWhile p y)))"
proof (induction y arbitrary: x)
  case Nil
  then show ?case by (simp add: skip_forward.simps)
next
  case (Cons c y)
  have "aread (map Some x @ Some c # map Some y @ r) (int (length x)) = Some c" by (simp add: mem_simps)
  moreover have "skip_forward p b (int (length ((x @ [c]) @ y))) (int (length (x @ [c])))
      = Some (int (length (x @ [c]) + length (takeWhile p y)))"
    by (rule Cons.IH) (use Cons.prems in simp)
  ultimately show ?case using Cons.prems
    by (subst skip_forward.simps) (simp add: add.commute add.left_commute)
qed

text \<open>What is left of a text when the word before its end goes, with the spaces after it.\<close>

definition cut_word :: "string \<Rightarrow> string" where
  "cut_word b = strip_end (\<lambda>c. c \<noteq> SPACE \<and> c \<noteq> NL) (strip_end (\<lambda>c. c = SPACE) b)"

lemma cut_word_above:
  assumes "NL \<notin> set x"
  shows "cut_word (above A x) = above A (strip_end (\<lambda>c. c \<noteq> SPACE) (strip_end (\<lambda>c. c = SPACE) x))"
proof -
  let ?sp = "\<lambda>c. c = SPACE" and ?w = "\<lambda>c. c \<noteq> SPACE \<and> c \<noteq> NL"
  have stop: "strip_end p (above A u) = above A (strip_end p u)" if "\<not> p NL" for p u
  proof (cases "\<exists>c \<in> set u. \<not> p c")
    case True
    then show ?thesis by (simp add: above_def strip_end_append)
  next
    case False
    then have u: "strip_end p (r @ u) = strip_end p r" for r by (intro strip_end_append_all) blast
    show ?thesis
    proof (cases A rule: rev_cases)
      case Nil
      then show ?thesis by simp
    next
      case (snoc A' s)
      have "strip_end p (above A u) = above A []"
        using snoc that u [of "above A []"] by (simp add: above_def append_assoc [symmetric] del: append_assoc)
      moreover have "strip_end p u = []" using u [of "[]"] by simp
      ultimately show ?thesis by simp
    qed
  qed
  have "set (strip_end ?sp x) \<subseteq> set x" using strip_end_prefix [of x ?sp] by (metis Un_upper1 set_append)
  then have "strip_end ?w (strip_end ?sp x) = strip_end (\<lambda>c. c \<noteq> SPACE) (strip_end ?sp x)"
    using assms by (intro strip_end_cong) auto
  then show ?thesis by (simp add: cut_word_def stop)
qed

lemma word_left_eq:
  assumes "line_rep ln (x @ y)"
  shows "word_left ln (int (length x)) = Some (int (length (strip_end (\<lambda>c. c \<noteq> SPACE) (strip_end (\<lambda>c. c = SPACE) x))))"
proof -
  obtain J where b: "ln_buf ln = Some (map Some x @ map Some y @ Some NUL # J)"
    using assms by (auto simp: line_rep_def)
  obtain m where m: "x = strip_end (\<lambda>c. c = SPACE) x @ m" using strip_end_prefix by blast
  let ?u = "strip_end (\<lambda>c. c = SPACE) x"
  have b': "ln_buf ln = Some (map Some ?u @ map Some m @ map Some y @ Some NUL # J)"
    using b by (subst (asm) m) simp
  show ?thesis unfolding word_left_def
    by (simp add: skip_back_eq [OF b] skip_back_eq [OF b'])
qed

lemma gap_delete_word:
  assumes "gap e b a"
  obtains e' where "editor_delete_word e = Some (EDITOR_OK, e')" and "gap e' (cut_word b) a" and "heap e' = heap e"
proof -
  obtain A x y B where g: "doc e (A @ (x @ y) # B)" "clean (A @ (x @ y) # B)"
    "cursor_row e = int (length A)" "cursor_col e = int (length x)" "b = above A x" "a = below y B"
    by (rule gapE [OF assms(1)])
  let ?x = "strip_end (\<lambda>c. c \<noteq> SPACE) (strip_end (\<lambda>c. c = SPACE) x)"
  obtain m m' where m: "strip_end (\<lambda>c. c = SPACE) x = ?x @ m" "x = strip_end (\<lambda>c. c = SPACE) x @ m'"
    using strip_end_prefix by metis
  have xs: "x = ?x @ m @ m'" by (metis m append_assoc)
  have b': "cut_word b = above A ?x" using g by (simp add: cut_word_above)
  show ?thesis
  proof (cases "x = []")
    case True
    then have "editor_delete_word e = Some (EDITOR_OK, e)" using g(4) by (simp add: editor_delete_word_def)
    moreover have "cut_word b = b" using b' True g(5) by simp
    ultimately show ?thesis using that [of e] assms by simp
  next
    case False
    obtain ln where ln: "line_at e (cursor_row e) = Some ln" "line_rep ln (x @ y)"
      by (rule doc_line_at [OF g(1,3)])
    have l: "ln_len ln = int (length (x @ y))" using ln(2) by (simp add: line_rep_def)
    let ?f = "line_cut (int (length ?x)) (int (length x)) (ln_len ln - int (length x) + 1)"
    have le: "length ?x \<le> length x" and tk: "take (length ?x) (x @ y) = ?x"
      by (subst (2) xs, simp) (subst (2) xs, simp)
    have f: "\<exists>ln'. ?f k = Some ln' \<and> line_rep ln' (?x @ y)" if "line_rep k (x @ y)" for k
      using line_cut_rep [OF that le, of "ln_len ln - int (length x) + 1", unfolded tk] l
      by (simp del: take_append)
    let ?e0 = "e\<lparr>cursor_col := int (length ?x)\<rparr>"
    have d0: "doc ?e0 (A @ (x @ y) # B)" using g(1) by simp
    obtain e1 where e1: "upd_line (cursor_row e) ?f ?e0 = Some e1" "doc e1 (A @ (?x @ y) # B)"
      "buf_only ?e0 e1" "heap e1 = heap ?e0"
      by (rule doc_upd_line [OF d0 g(3) f])
    have "editor_delete_word e = Some (EDITOR_OK, clamp_scroll e1)"
      using False g(4) ln(1) word_left_eq [OF ln(2)] e1(1) by (simp add: editor_delete_word_def Let_def)
    moreover have "gap (clamp_scroll e1) (cut_word b) a"
    proof -
      have "clean (A @ (?x @ y) # B)" using g(2) by (subst (asm) xs) simp
      then show ?thesis using e1(2) g b' buf_onlyD [OF e1(3)] by (intro gapI [of _ A ?x y B]) simp_all
    qed
    ultimately show ?thesis using that [of "clamp_scroll e1"] e1(4) by simp
  qed
qed

end
