(* ===== verification/EditorMove.thy ===== *)
theory EditorMove
  imports EditorGap
begin

text \<open>
  The cursor movements of \<open>editor.c\<close>: each one slides the gap over the text, which stays as it is.
  \<open>slide e e' b' a'\<close>: the editor \<open>e'\<close> has the array, the clipboard and the selection anchor of \<open>e\<close>,
  and its cursor between \<open>b'\<close> and \<open>a'\<close>.
\<close>

definition cursor_only :: "editor \<Rightarrow> editor \<Rightarrow> bool" where
  "cursor_only e e' \<longleftrightarrow> lines e' = lines e \<and> row_cap e' = row_cap e \<and> row_count e' = row_count e
     \<and> visible_rows e' = visible_rows e \<and> visible_cols e' = visible_cols e \<and> sel_active e' = sel_active e
     \<and> sel_anchor_row e' = sel_anchor_row e \<and> sel_anchor_col e' = sel_anchor_col e \<and> ed_remote e' = ed_remote e
     \<and> remote_cursor_row e' = remote_cursor_row e \<and> remote_cursor_col e' = remote_cursor_col e
     \<and> clipboard e' = clipboard e \<and> heap e' = heap e"

lemma cursor_only_refl [simp]: "cursor_only e e"
  by (simp add: cursor_only_def)

lemma cursor_only_clamp [simp]:
  "cursor_only e (clamp_scroll (e\<lparr>cursor_row := r, cursor_col := c\<rparr>))"
  "cursor_only e (clamp_scroll (e\<lparr>cursor_col := c\<rparr>))" "cursor_only e (clamp_scroll e)"
  by (simp_all add: cursor_only_def)

lemma editor_upd_same:
  "e\<lparr>cursor_col := cursor_col e\<rparr> = (e::editor)"
  by (cases e; simp)

lemma cursor_only_doc: "cursor_only e e' \<Longrightarrow> doc e' t = doc e t"
  by (rule doc_cong) (simp_all add: cursor_only_def)

definition slide :: "(editor \<Rightarrow> editor option) \<Rightarrow> editor \<Rightarrow> string \<Rightarrow> string \<Rightarrow> bool" where
  "slide f e b a \<longleftrightarrow> (\<exists>e'. f e = Some e' \<and> cursor_only e e' \<and> gap e' b a)"

lemma move_left_back:
  assumes "gap e (b @ [c]) a"
  shows "slide editor_move_left e b (c # a)"
proof -
  obtain A x y B where g: "doc e (A @ (x @ y) # B)" "clean (A @ (x @ y) # B)"
    "cursor_row e = int (length A)" "cursor_col e = int (length x)" "b @ [c] = above A x" "a = below y B"
    by (rule gapE [OF assms(1)])
  consider x' d where "x = x' @ [d]" | A' s where "x = []" "A = A' @ [s]" | "x = []" "A = []"
    by (cases x rule: rev_cases; cases A rule: rev_cases) auto
  then show ?thesis
  proof cases
    case 1
    have eq: "b = above A x'" "c = d" using g(5) 1 by (simp_all add: above_snoc)
    have "editor_move_left e = Some (clamp_scroll (e\<lparr>cursor_col := cursor_col e - 1\<rparr>))"
      using 1 g(4) by (simp add: editor_move_left_def)
    moreover have "gap (clamp_scroll (e\<lparr>cursor_col := cursor_col e - 1\<rparr>)) b (c # a)"
      using g 1 eq by (intro gapI [of _ A x' "d # y" B]) (simp_all add: below_Cons)
    ultimately show ?thesis by (simp add: slide_def)
  next
    case 2
    have eq: "b = above A' s" "c = NL" using g(5) 2 by (simp_all add: above_row)
    have d: "doc e (A' @ s # y # B)" using g(1) 2 by simp
    obtain ln where ln: "line_at e (cursor_row e - 1) = Some ln" "line_rep ln s"
      by (rule doc_line_at [OF d]) (use g(3) 2 in auto)
    let ?e = "clamp_scroll (e\<lparr>cursor_row := cursor_row e - 1, cursor_col := ln_len ln\<rparr>)"
    have "line_at (e\<lparr>cursor_row := cursor_row e - 1\<rparr>) = line_at e" by (simp add: fun_eq_iff line_at_def)
    then have "editor_move_left e = Some ?e"
      using 2 g(3,4) ln(1) by (simp add: editor_move_left_def Let_def)
    moreover have "gap ?e b (c # a)"
      using g 2 eq ln(2) by (intro gapI [of _ A' s "[]" "y # B"]) (simp_all add: below_row line_rep_def)
    ultimately show ?thesis by (simp add: slide_def)
  next
    case 3
    with g(5) show ?thesis by simp
  qed
qed

lemma gap_empty_before:
  assumes "gap e [] a"
  shows "cursor_row e = 0 \<and> cursor_col e = 0"
proof -
  obtain A x y B where g: "cursor_row e = int (length A)" "cursor_col e = int (length x)" "[] = above A x"
    by (rule gapE [OF assms(1)])
  then show ?thesis by (cases A) (simp_all add: above_def)
qed

lemma move_left_start:
  assumes "gap e [] a"
  shows "slide editor_move_left e [] a"
  using gap_empty_before [OF assms] assms
  by (simp add: slide_def editor_move_left_def)

lemma move_right_on:
  assumes "gap e b (c # a)"
  shows "slide editor_move_right e (b @ [c]) a"
proof -
  obtain A x y B where g: "doc e (A @ (x @ y) # B)" "clean (A @ (x @ y) # B)"
    "cursor_row e = int (length A)" "cursor_col e = int (length x)" "b = above A x" "c # a = below y B"
    by (rule gapE [OF assms(1)])
  obtain ln where ln: "line_at e (cursor_row e) = Some ln" "line_rep ln (x @ y)"
    by (rule doc_line_at [OF g(1,3)])
  have l: "ln_len ln = int (length (x @ y))" using ln(2) by (simp add: line_rep_def)
  consider d y' where "y = d # y'" | s B' where "y = []" "B = s # B'" | "y = []" "B = []"
    by (cases y; cases B) auto
  then show ?thesis
  proof cases
    case 1
    have eq: "c = d" "a = below y' B" using g(6) 1 by (simp_all add: below_Cons)
    let ?e = "clamp_scroll (e\<lparr>cursor_col := cursor_col e + 1\<rparr>)"
    have "editor_move_right e = Some ?e"
      using 1 g(4) l ln(1) by (simp add: editor_move_right_def)
    moreover have "gap ?e (b @ [c]) a"
      using g 1 eq by (intro gapI [of _ A "x @ [d]" y' B]) (simp_all add: above_snoc)
    ultimately show ?thesis by (simp add: slide_def)
  next
    case 2
    have eq: "c = NL" "a = below s B'" using g(6) 2 by (simp_all add: below_row)
    let ?e = "clamp_scroll (e\<lparr>cursor_row := cursor_row e + 1, cursor_col := 0\<rparr>)"
    have "editor_move_right e = Some ?e"
      using 2 g(3,4) l ln(1) doc_row_count [OF g(1)] by (simp add: editor_move_right_def)
    moreover have "gap ?e (b @ [c]) a"
      using g 2 eq by (intro gapI [of _ "A @ [x]" "[]" s B']) (simp_all add: above_row)
    ultimately show ?thesis by (simp add: slide_def)
  next
    case 3
    with g(6) show ?thesis by simp
  qed
qed

lemma move_right_end:
  assumes "gap e b []"
  shows "slide editor_move_right e b []"
proof -
  obtain A x y B where g: "doc e (A @ (x @ y) # B)" "clean (A @ (x @ y) # B)"
    "cursor_row e = int (length A)" "cursor_col e = int (length x)" "b = above A x" "[] = below y B"
    by (rule gapE [OF assms(1)])
  obtain ln where ln: "line_at e (cursor_row e) = Some ln" "line_rep ln (x @ y)"
    by (rule doc_line_at [OF g(1,3)])
  have "y = []" "B = []" using g(6) by (cases B; simp add: below_def)+
  then have "editor_move_right e = Some (clamp_scroll e)"
    using g(3,4) ln doc_row_count [OF g(1)] by (simp add: editor_move_right_def line_rep_def)
  then show ?thesis using assms by (simp add: slide_def)
qed

lemma move_word_left_slide:
  assumes "gap e b a"
  shows "\<exists>m. b = cut_word b @ m \<and> slide editor_move_word_left e (cut_word b) (m @ a)"
proof -
  obtain A x y B where g: "doc e (A @ (x @ y) # B)" "clean (A @ (x @ y) # B)"
    "cursor_row e = int (length A)" "cursor_col e = int (length x)" "b = above A x" "a = below y B"
    by (rule gapE [OF assms(1)])
  obtain z where z: "z = strip_end (\<lambda>c. c \<noteq> SPACE) (strip_end (\<lambda>c. c = SPACE) x)" by simp
  obtain m m' where "strip_end (\<lambda>c. c = SPACE) x = z @ m" "x = strip_end (\<lambda>c. c = SPACE) x @ m'"
    unfolding z using strip_end_prefix by metis
  then have xs: "x = z @ m @ m'" by simp
  have b': "cut_word b = above A z" using g z by (simp add: cut_word_above)
  obtain ln where ln: "line_at e (cursor_row e) = Some ln" "line_rep ln (x @ y)"
    by (rule doc_line_at [OF g(1,3)])
  let ?e = "clamp_scroll (e\<lparr>cursor_col := int (length z)\<rparr>)"
  have mv: "editor_move_word_left e = Some ?e"
  proof (cases "x = []")
    case True
    then have "cursor_col e = 0" "z = []" using g(4) z by simp_all
    moreover have "e\<lparr>cursor_col := 0\<rparr> = e" using \<open>cursor_col e = 0\<close> editor_upd_same [of e] by metis
    moreover have "editor_move_word_left e = Some (clamp_scroll e)"
      using \<open>cursor_col e = 0\<close> by (simp add: editor_move_word_left_def)
    ultimately show ?thesis by (simp only: list.size int_ops)
  next
    case False
    then show ?thesis using g(4) ln(1) word_left_eq [OF ln(2)] z by (simp add: editor_move_word_left_def)
  qed
  have "gap ?e (cut_word b) ((m @ m') @ a)"
    using g b' xs by (intro gapI [of _ A z "(m @ m') @ y" B]) (simp_all add: below_def)
  then have "slide editor_move_word_left e (cut_word b) ((m @ m') @ a)" using mv by (simp add: slide_def)
  moreover have "b = cut_word b @ m @ m'" using b' g(5) xs by (simp add: above_def)
  ultimately show ?thesis by blast
qed

text \<open>The rest of the word after the cursor, and the spaces after that.\<close>

definition next_word :: "string \<Rightarrow> string" where
  "next_word a = (let w = takeWhile (\<lambda>c. c \<noteq> SPACE \<and> c \<noteq> NL) a
                  in w @ takeWhile (\<lambda>c. c = SPACE) (drop (length w) a))"

lemma takeWhile_below:
  assumes "\<not> p NL"
  shows "takeWhile p (below y B) = takeWhile p y"
proof (induction y)
  case Nil
  then show ?case using assms by (cases B) (simp_all add: below_def)
qed (simp add: below_def)

lemma next_word_below:
  assumes "NL \<notin> set y"
  shows "next_word (below y B) = takeWhile (\<lambda>c. c \<noteq> SPACE) y @ takeWhile (\<lambda>c. c = SPACE) (dropWhile (\<lambda>c. c \<noteq> SPACE) y)"
proof -
  let ?w = "takeWhile (\<lambda>c. c \<noteq> SPACE) y"
  have w: "takeWhile (\<lambda>c. c \<noteq> SPACE \<and> c \<noteq> NL) y = ?w"
    using assms by (intro takeWhile_cong) auto
  have "drop (length ?w) (below y B) = below (dropWhile (\<lambda>c. c \<noteq> SPACE) y) B"
    by (simp add: below_def dropWhile_eq_drop length_takeWhile_le)
  then show ?thesis by (simp add: next_word_def takeWhile_below w Let_def)
qed

lemma move_word_right_slide:
  assumes "gap e b a"
  shows "\<exists>a'. a = next_word a @ a' \<and> slide editor_move_word_right e (b @ next_word a) a'"
proof -
  obtain A x y B where g: "doc e (A @ (x @ y) # B)" "clean (A @ (x @ y) # B)"
    "cursor_row e = int (length A)" "cursor_col e = int (length x)" "b = above A x" "a = below y B"
    by (rule gapE [OF assms(1)])
  obtain w y1 where wy: "takeWhile (\<lambda>c. c \<noteq> SPACE) y = w" "dropWhile (\<lambda>c. c \<noteq> SPACE) y = y1" by blast
  have w: "y = w @ y1" using takeWhile_dropWhile_id [of "\<lambda>c. c \<noteq> SPACE" y] unfolding wy by (rule sym)
  obtain v y2 where vy: "takeWhile (\<lambda>c. c = SPACE) y1 = v" "dropWhile (\<lambda>c. c = SPACE) y1 = y2" by blast
  have v: "y1 = v @ y2" using takeWhile_dropWhile_id [of "\<lambda>c. c = SPACE" y1] unfolding vy by (rule sym)
  have n: "next_word a = w @ v" using next_word_below [of y B] g by (simp add: wy vy)
  obtain ln where ln: "line_at e (cursor_row e) = Some ln" "line_rep ln (x @ y)"
    by (rule doc_line_at [OF g(1,3)])
  obtain J where b: "ln_buf ln = Some (map Some (x @ y) @ Some NUL # J)" and l: "ln_len ln = int (length (x @ y))"
    using ln(2) by (auto simp: line_rep_def)
  have "skip_forward (\<lambda>x. x \<noteq> SPACE) (ln_buf ln) (ln_len ln) (cursor_col e) = Some (int (length (x @ w)))"
    using skip_forward_eq [OF b] unfolding l g(4) wy(1) [symmetric] by simp
  moreover have "skip_forward (\<lambda>x. x = SPACE) (ln_buf ln) (ln_len ln) (int (length (x @ w)))
      = Some (int (length (x @ w @ v)))"
    using skip_forward_eq [of "ln_buf ln" "x @ w" y1 "Some NUL # J" "\<lambda>x. x = SPACE"] b l w
    by (simp add: vy)
  ultimately have "editor_move_word_right e = Some (clamp_scroll (e\<lparr>cursor_col := int (length (x @ w @ v))\<rparr>))"
    using ln(1) by (simp add: editor_move_word_right_def)
  moreover have "gap (clamp_scroll (e\<lparr>cursor_col := int (length (x @ w @ v))\<rparr>)) (b @ next_word a) (below y2 B)"
    using g n w v by (intro gapI [of _ A "x @ w @ v" y2 B]) (simp_all add: above_def)
  ultimately have "slide editor_move_word_right e (b @ next_word a) (below y2 B)" by (simp add: slide_def)
  moreover have "a = next_word a @ below y2 B" using g n w v by (simp add: below_def)
  ultimately show ?thesis by blast
qed

lemma move_home_slide:
  assumes "gap e b a"
  shows "\<exists>b' m. b = b' @ m \<and> NL \<notin> set m \<and> (b' = [] \<or> last b' = NL) \<and> gap (editor_move_home e) b' (m @ a)"
proof -
  obtain A x y B where g: "doc e (A @ (x @ y) # B)" "clean (A @ (x @ y) # B)"
    "cursor_row e = int (length A)" "cursor_col e = int (length x)" "b = above A x" "a = below y B"
    by (rule gapE [OF assms(1)])
  have "gap (editor_move_home e) (above A []) (x @ a)"
    using g unfolding editor_move_home_def by (intro gapI [of _ A "[]" "x @ y" B]) (simp_all add: below_def)
  moreover have "b = above A [] @ x" "NL \<notin> set x" using g by (simp_all add: above_def)
  moreover have "above A [] = [] \<or> last (above A []) = NL"
    by (cases A rule: rev_cases) (simp_all add: above_def)
  ultimately show ?thesis by blast
qed

lemma move_end_slide:
  assumes "gap e b a"
  shows "\<exists>m a'. a = m @ a' \<and> NL \<notin> set m \<and> (a' = [] \<or> hd a' = NL) \<and> slide editor_move_end e (b @ m) a'"
proof -
  obtain A x y B where g: "doc e (A @ (x @ y) # B)" "clean (A @ (x @ y) # B)"
    "cursor_row e = int (length A)" "cursor_col e = int (length x)" "b = above A x" "a = below y B"
    by (rule gapE [OF assms(1)])
  obtain ln where ln: "line_at e (cursor_row e) = Some ln" "line_rep ln (x @ y)"
    by (rule doc_line_at [OF g(1,3)])
  let ?e = "clamp_scroll (e\<lparr>cursor_col := ln_len ln\<rparr>)"
  have "editor_move_end e = Some ?e" using ln(1) by (simp add: editor_move_end_def)
  moreover have "gap ?e (b @ y) (below [] B)"
    using g ln(2) by (intro gapI [of _ A "x @ y" "[]" B]) (simp_all add: above_def line_rep_def)
  ultimately have "slide editor_move_end e (b @ y) (below [] B)" by (simp add: slide_def)
  moreover have "a = y @ below [] B" "NL \<notin> set y" using g by (simp_all add: below_def)
  moreover have "below [] B = [] \<or> hd (below [] B) = NL" by (cases B) (simp_all add: below_def)
  ultimately show ?thesis by blast
qed

end
