(* ===== verification/EditorClip.thy ===== *)
theory EditorClip
  imports EditorMove
begin

text \<open>
  The selection and the clipboard: copying puts exactly the text between the anchor and the
  cursor on the clipboard, deleting removes exactly that text, and pasting inserts the clipboard
  before the gap, line breaks included.
\<close>

text \<open>The anchor of the selection as a position in the text.\<close>

definition anchored :: "editor \<Rightarrow> string \<Rightarrow> string \<Rightarrow> bool" where
  "anchored e b a \<longleftrightarrow> (\<exists>t. doc e t \<and> at_pos t (sel_anchor_row e) (sel_anchor_col e) b a)"

text \<open>Two positions of one text, the first one not after the second one.\<close>

lemma positions:
  assumes "A @ (x @ y) # B = A' @ (x' @ y') # B'"
    and "length A < length A' \<or> (length A = length A' \<and> length x \<le> length x')"
  obtains (same) m where "A' = A" and "B' = B" and "x' = x @ m" and "y = m @ y'"
  | (later) M where "A' = A @ (x @ y) # M" and "B = M @ (x' @ y') # B'"
proof (cases "length A = length A'")
  case True
  then have eq: "A = A'" "x @ y = x' @ y'" "B = B'" using assms(1) by simp_all
  have "length x \<le> length x'" using assms(2) True by simp
  then obtain m where "x' = x @ m"
    using eq(2) by (metis append_eq_append_conv_if append_take_drop_id)
  then show ?thesis using same eq by simp
next
  case False
  then have "length A < length A'" using assms(2) by simp
  then obtain M' where A': "A' = A @ M'" "M' \<noteq> []"
    using assms(1) by (metis append_eq_append_conv_if append_take_drop_id length_append less_irrefl
        linorder_not_le add.right_neutral list.size(3))
  then obtain M where "M' = (x @ y) # M" using assms(1) by (cases M') auto
  then show ?thesis using later A' assms(1) by simp
qed

lemma above_later: "above (A @ (x @ y) # M) x' = above A x @ y @ NL # above M x'"
  by (simp add: above_def)

lemma below_later: "below y (M @ (x' @ y') # B) = (y @ NL # above M x') @ below y' B"
  by (induction M arbitrary: y) (simp_all add: above_def below_def)

section \<open>Copying\<close>

text \<open>The rows after the first one, up to the end of the selection.\<close>

lemma sel_cols_mid:
  assumes "doc e (A @ s # B)" and "r \<noteq> r0" and "r = int (length A)" and "r \<noteq> r1"
  shows "sel_cols e (r0, c0, r1, c1) r = Some (0, int (length s))"
proof -
  obtain ln where "line_at e r = Some ln" "line_rep ln s" by (rule doc_line_at [OF assms(1,3)])
  then show ?thesis using assms by (simp add: sel_cols_def line_rep_def)
qed

lemma sel_size_tail:
  assumes "doc e (A @ M @ (x @ y) # B)" and "r0 < int (length A)" and "r1 = int (length A + length M)" and "c1 = int (length x)"
  shows "sel_size e (r0, c0, r1, c1) [int (length A)..r1] n = Some (n + int (length (above M x)))"
  using assms
proof (induction M arbitrary: A n)
  case Nil
  then show ?case by (simp add: sel_cols_def)
next
  case (Cons s M)
  have up: "[int (length A)..r1] = int (length A) # [int (length (A @ [s]))..r1]"
    using Cons.prems(3) by (subst upto.simps) (simp add: add.commute)
  have d: "doc e (A @ s # M @ (x @ y) # B)" using Cons.prems(1) by simp
  have "sel_cols e (r0, c0, r1, c1) (int (length A)) = Some (0, int (length s))"
    by (rule sel_cols_mid [OF d]) (use Cons.prems in auto)
  moreover have "sel_size e (r0, c0, r1, c1) [int (length (A @ [s]))..r1] (n + int (length s) + 1)
      = Some (n + int (length s) + 1 + int (length (above M x)))"
    by (rule Cons.IH) (use Cons.prems in auto)
  ultimately show ?case unfolding up using Cons.prems(3) by (simp add: above_def)
qed

text \<open>A piece \<open>w\<close> of a row copied to the end of what the clipboard has so far.\<close>

lemma clip_blit:
  fixes w :: string
  assumes "length w \<le> k" and "i = int (length p)" and "j = int (length u)" and "n = int (length w)"
  shows "blit (map Some p @ replicate k None) i (map Some u @ map Some w @ J) j n
       = Some (map Some (p @ w) @ replicate (k - length w) None)"
proof -
  have k: "replicate k None = (replicate (length w) None :: char cells) @ replicate (k - length w) None"
    using assms(1) by (simp flip: replicate_add)
  show ?thesis unfolding k map_append append_assoc
    by (rule blit_split) (use assms in auto)
qed

lemma clip_awrite:
  assumes "0 < k" and "i = int (length p)"
  shows "awrite (map Some p @ replicate k None) i c = Some (map Some (p @ [c]) @ replicate (k - 1) None)"
  using assms by (cases k) (simp_all add: mem_simps)

lemma sel_fill_tail:
  assumes "doc e (A @ M @ (x @ y) # B)" and "r0 < int (length A)" and "r1 = int (length A + length M)" and "c1 = int (length x)"
    and "length (above M x) \<le> k" and "i = int (length p)"
  shows "sel_fill e (r0, c0, r1, c1) [int (length A)..r1] i (map Some p @ replicate k None)
       = Some (i + int (length (above M x)), map Some (p @ above M x) @ replicate (k - length (above M x)) None)"
  using assms
proof (induction M arbitrary: A i p k)
  case Nil
  have d: "doc e (A @ (x @ y) # B)" using Nil.prems(1) by simp
  obtain ln where ln: "line_at e (int (length A)) = Some ln" "line_rep ln (x @ y)" by (rule doc_line_at [OF d refl])
  then obtain J where J: "ln_buf ln = Some (map Some [] @ map Some x @ map Some y @ Some NUL # J)"
    by (auto simp: line_rep_def)
  have "blit (map Some p @ replicate k None) i (map Some [] @ map Some x @ map Some y @ Some NUL # J) 0 c1
      = Some (map Some (p @ x) @ replicate (k - length x) None)"
    by (rule clip_blit) (use Nil.prems in auto)
  then show ?case using Nil.prems ln(1) J by (simp add: sel_cols_def buf_at_def)
next
  case (Cons s M)
  have up: "[int (length A)..r1] = int (length A) # [int (length (A @ [s]))..r1]"
    using Cons.prems(3) by (subst upto.simps) (simp add: add.commute)
  have d: "doc e (A @ s # M @ (x @ y) # B)" using Cons.prems(1) by simp
  obtain ln where ln: "line_at e (int (length A)) = Some ln" "line_rep ln s" by (rule doc_line_at [OF d refl])
  then obtain J where J: "ln_buf ln = Some (map Some [] @ map Some s @ Some NUL # J)"
    by (auto simp: line_rep_def)
  have "sel_cols e (r0, c0, r1, c1) (int (length A)) = Some (0, int (length s))"
    by (rule sel_cols_mid [OF d]) (use Cons.prems in auto)
  moreover have "blit (map Some p @ replicate k None) i (map Some [] @ map Some s @ Some NUL # J) 0 (int (length s))
      = Some (map Some (p @ s) @ replicate (k - length s) None)"
    by (rule clip_blit) (use Cons.prems in \<open>auto simp: above_def\<close>)
  moreover have "awrite (map Some (p @ s) @ replicate (k - length s) None) (i + int (length s)) NL
      = Some (map Some ((p @ s) @ [NL]) @ replicate (k - length s - 1) None)"
    by (rule clip_awrite) (use Cons.prems in \<open>auto simp: above_def\<close>)
  moreover have "sel_fill e (r0, c0, r1, c1) [int (length (A @ [s]))..r1] (i + int (length s) + 1)
        (map Some ((p @ s) @ [NL]) @ replicate (k - length s - 1) None)
      = Some (i + int (length s) + 1 + int (length (above M x)),
          map Some (((p @ s) @ [NL]) @ above M x) @ replicate (k - length s - 1 - length (above M x)) None)"
    by (rule Cons.IH) (use Cons.prems in \<open>auto simp: above_def\<close>)
  ultimately show ?case unfolding up using Cons.prems(3) ln(1) J
    by (simp add: above_def buf_at_def Let_def)
qed

text \<open>The range of the selection of \<open>e\<close> starts after \<open>b\<close>, has the text \<open>m\<close> and ends before \<open>a\<close>.\<close>

definition sel_range :: "editor \<Rightarrow> string \<Rightarrow> string \<Rightarrow> string \<Rightarrow> bool" where
  "sel_range e b m a \<longleftrightarrow> (\<exists>A x y B A' x' y' B'. doc e (A @ (x @ y) # B) \<and> clean (A @ (x @ y) # B)
     \<and> A @ (x @ y) # B = A' @ (x' @ y') # B'
     \<and> (length A < length A' \<or> (length A = length A' \<and> length x \<le> length x'))
     \<and> editor_sel_get_range e = (int (length A), int (length x), int (length A'), int (length x'))
     \<and> b = above A x \<and> a = below y' B' \<and> above A' x' = b @ m \<and> below y B = m @ a)"

lemma sel_rangeI:
  assumes "gap e b1 a1" and "anchored e b2 a2"
  shows "\<exists>m. sel_range e (if length b2 \<le> length b1 then b2 else b1) m (if length b2 \<le> length b1 then a1 else a2)"
proof -
  obtain A x y B where c: "doc e (A @ (x @ y) # B)" "clean (A @ (x @ y) # B)"
    "cursor_row e = int (length A)" "cursor_col e = int (length x)" "b1 = above A x" "a1 = below y B"
    by (rule gapE [OF assms(1)])
  obtain A' x' y' B' where s: "doc e (A' @ (x' @ y') # B')"
    "sel_anchor_row e = int (length A')" "sel_anchor_col e = int (length x')" "b2 = above A' x'" "a2 = below y' B'"
    using assms(2) by (auto simp: anchored_def at_pos_def)
  have eq: "A @ (x @ y) # B = A' @ (x' @ y') # B'" by (rule doc_unique [OF c(1) s(1)])
  have ex: "\<exists>m. above Z' z' = above Z z @ m \<and> below w D = m @ below w' D'
        \<and> (length (above Z' z') = length (above Z z) \<longrightarrow> Z = Z' \<and> z = z' \<and> w = w' \<and> D = D')"
    if "Z @ (z @ w) # D = Z' @ (z' @ w') # D'" "length Z < length Z' \<or> (length Z = length Z' \<and> length z \<le> length z')"
    for Z z w D Z' z' w' D'
    using that
  proof (cases rule: positions)
    case (same m)
    then show ?thesis by (intro exI [of _ m]) (auto simp: above_def below_def)
  next
    case (later M)
    then show ?thesis by (intro exI [of _ "w @ NL # above M z'"]) (simp add: above_later below_later)
  qed
  show ?thesis
  proof (cases "length A' < length A \<or> (length A' = length A \<and> length x' \<le> length x)")
    case True
    obtain m where m: "above A x = above A' x' @ m" "below y' B' = m @ below y B"
      using ex [OF eq [symmetric] True] by blast
    have "editor_sel_get_range e = (int (length A'), int (length x'), int (length A), int (length x))"
      using True c s by (auto simp: editor_sel_get_range_def)
    then have "sel_range e (above A' x') m (below y B)"
      unfolding sel_range_def using True c(1,2) m(1,2) eq by metis
    then have "sel_range e b2 m a1" unfolding c(6) s(4) .
    moreover have "length b2 \<le> length b1" using m(1) c(5) s(4) by simp
    ultimately show ?thesis by auto
  next
    case False
    then have F: "length A < length A' \<or> (length A = length A' \<and> length x \<le> length x')" by auto
    obtain m where m: "above A' x' = above A x @ m" "below y B = m @ below y' B'"
      "length (above A' x') = length (above A x) \<longrightarrow> A = A' \<and> x = x' \<and> y = y' \<and> B = B'"
      using ex [OF eq F] by blast
    have "editor_sel_get_range e = (int (length A), int (length x), int (length A'), int (length x'))"
      using False c s by (auto simp: editor_sel_get_range_def)
    then have "sel_range e (above A x) m (below y' B')"
      unfolding sel_range_def using F c(1,2) m(1,2) eq by blast
    then have "sel_range e b1 m a2" unfolding c(5) s(5) .
    moreover have "\<not> length b2 \<le> length b1"
    proof
      assume "length b2 \<le> length b1"
      then have "length (above A' x') = length (above A x)" using m(1) c(5) s(4) by simp
      then have "A = A'" "x = x'" using m(3) by auto
      with False show False by simp
    qed
    ultimately show ?thesis by auto
  qed
qed

lemma sel_rangeE:
  assumes "sel_range e b m a"
  obtains (one) A x y B where "doc e (A @ (x @ m @ y) # B)" and "clean (A @ (x @ m @ y) # B)"
      and "editor_sel_get_range e = (int (length A), int (length x), int (length A), int (length x + length m))"
      and "b = above A x" and "a = below y B"
  | (more) A x y M x' y' B where "doc e (A @ (x @ y) # M @ (x' @ y') # B)" and "clean (A @ (x @ y) # M @ (x' @ y') # B)"
      and "editor_sel_get_range e = (int (length A), int (length x), int (length A + 1 + length M), int (length x'))"
      and "b = above A x" and "a = below y' B" and "m = y @ NL # above M x'"
proof -
  obtain A x y B A' x' y' B' where r: "doc e (A @ (x @ y) # B)" "clean (A @ (x @ y) # B)"
    and eq: "A @ (x @ y) # B = A' @ (x' @ y') # B'"
    and le: "length A < length A' \<or> (length A = length A' \<and> length x \<le> length x')"
    and g: "editor_sel_get_range e = (int (length A), int (length x), int (length A'), int (length x'))"
    and ba: "b = above A x" "a = below y' B'" "above A' x' = b @ m"
    using assms unfolding sel_range_def by blast
  from eq le show ?thesis
  proof (cases rule: positions)
    case (same n)
    have "n = m" using same ba by (simp add: above_def)
    then show ?thesis using one [of A x y' B] r g ba same by simp
  next
    case (later M)
    have "m = y @ NL # above M x'" using later ba by (simp add: above_later)
    then show ?thesis using more [of A x y M x' y' B'] r g ba later by simp
  qed
qed

text \<open>The two loops over the rows selected measure and collect the text selected.\<close>

lemma range_read:
  assumes "sel_range e b m a" and rng: "editor_sel_get_range e = (r0, c0, r1, c1)"
  shows "sel_size e (r0, c0, r1, c1) [r0..r1] 0 = Some (int (length m))
    \<and> sel_fill e (r0, c0, r1, c1) [r0..r1] 0 (replicate (Suc (length m)) None) = Some (int (length m), map Some m @ [None])"
proof (rule sel_rangeE [OF assms(1)])
  fix A x y B
  assume d: "doc e (A @ (x @ m @ y) # B)"
    and g: "editor_sel_get_range e = (int (length A), int (length x), int (length A), int (length x + length m))"
  obtain ln where ln: "line_at e (int (length A)) = Some ln" "line_rep ln (x @ m @ y)" by (rule doc_line_at [OF d refl])
  then obtain J where J: "ln_buf ln = Some (map Some x @ map Some m @ map Some y @ Some NUL # J)"
    by (auto simp: line_rep_def)
  have "blit (map Some [] @ replicate (Suc (length m)) None) 0 (map Some x @ map Some m @ map Some y @ Some NUL # J)
      (int (length x)) (int (length m)) = Some (map Some ([] @ m) @ replicate (Suc (length m) - length m) None)"
    by (rule clip_blit) auto
  then show "sel_size e (r0, c0, r1, c1) [r0..r1] 0 = Some (int (length m))
    \<and> sel_fill e (r0, c0, r1, c1) [r0..r1] 0 (replicate (Suc (length m)) None) = Some (int (length m), map Some m @ [None])"
    using g rng ln(1) J by (simp add: sel_cols_def buf_at_def)
next
  fix A x y M x' y' B
  assume d: "doc e (A @ (x @ y) # M @ (x' @ y') # B)" and m: "m = y @ NL # above M x'"
    and g: "editor_sel_get_range e = (int (length A), int (length x), int (length A + 1 + length M), int (length x'))"
  have r: "r0 = int (length A)" "c0 = int (length x)" "r1 = int (length (A @ [x @ y]) + length M)" "c1 = int (length x')"
    using g rng by simp_all
  have up: "[r0..r1] = r0 # [int (length (A @ [x @ y]))..r1]"
    using r by (subst upto.simps) (simp add: add.commute)
  have d': "doc e ((A @ [x @ y]) @ M @ (x' @ y') # B)" using d by simp
  obtain ln where ln: "line_at e r0 = Some ln" "line_rep ln (x @ y)" by (rule doc_line_at [OF d r(1)])
  then obtain J where J: "ln_buf ln = Some (map Some x @ map Some y @ Some NUL # J)" "ln_len ln = int (length (x @ y))"
    by (auto simp: line_rep_def)
  have cols: "sel_cols e (r0, c0, r1, c1) r0 = Some (c0, int (length (x @ y)))"
    using ln(1) J(2) r by (simp add: sel_cols_def)
  have lt: "r0 < int (length (A @ [x @ y]))" "r0 < r1" using r by simp_all
  have "sel_size e (r0, c0, r1, c1) [int (length (A @ [x @ y]))..r1] (int (length y) + 1)
      = Some (int (length y) + 1 + int (length (above M x')))"
    by (rule sel_size_tail [OF d' lt(1) r(3,4)])
  then have s: "sel_size e (r0, c0, r1, c1) [r0..r1] 0 = Some (int (length m))"
    unfolding up using cols lt r(2) m by simp
  have "blit (map Some [] @ replicate (Suc (length m)) None) 0 (map Some x @ map Some y @ Some NUL # J) c0 (int (length y))
      = Some (map Some ([] @ y) @ replicate (Suc (length m) - length y) None)"
    by (rule clip_blit) (use m r in auto)
  moreover have "awrite (map Some y @ replicate (Suc (length m) - length y) None) (int (length y)) NL
      = Some (map Some (y @ [NL]) @ replicate (Suc (length m) - length y - 1) None)"
    by (rule clip_awrite) (use m in auto)
  moreover have "sel_fill e (r0, c0, r1, c1) [int (length (A @ [x @ y]))..r1] (int (length y) + 1)
      (map Some (y @ [NL]) @ replicate (Suc (length m) - length y - 1) None)
    = Some (int (length y) + 1 + int (length (above M x')), map Some ((y @ [NL]) @ above M x')
        @ replicate (Suc (length m) - length y - 1 - length (above M x')) None)"
    by (rule sel_fill_tail [OF d' lt(1) r(3,4)]) (use m in auto)
  ultimately have "sel_fill e (r0, c0, r1, c1) [r0..r1] 0 (replicate (Suc (length m)) None)
      = Some (int (length m), map Some m @ [None])"
    unfolding up using cols lt r(2) m ln(1) J(1) by (simp add: buf_at_def Let_def)
  with s show "sel_size e (r0, c0, r1, c1) [r0..r1] 0 = Some (int (length m))
    \<and> sel_fill e (r0, c0, r1, c1) [r0..r1] 0 (replicate (Suc (length m)) None) = Some (int (length m), map Some m @ [None])"
    by simp
qed

lemma copy_range:
  assumes "sel_range e b m a" and "sel_active e"
  obtains ok h where "editor_copy_selection e = Some (e\<lparr>clipboard := (if ok then Some (map Some m @ [Some NUL]) else None), heap := h\<rparr>)"
    and "heap e = [] \<longrightarrow> ok \<and> h = []"
proof -
  obtain r0 c0 r1 c1 where rng: "editor_sel_get_range e = (r0, c0, r1, c1)" by (cases "editor_sel_get_range e") auto
  obtain ok h where mal: "malloc_ok (heap e) = (ok, h)" "heap e = [] \<longrightarrow> ok \<and> h = []" by (rule malloc_okE)
  have fr: "fresh (int (length m) + 1) = replicate (Suc (length m)) None"
    by (simp add: fresh_def nat_add_distrib)
  have w: "awrite (map Some m @ [None]) (int (length m)) NUL = Some (map Some m @ [Some NUL])"
    by (simp add: mem_simps)
  have "editor_copy_selection e = Some (e\<lparr>clipboard := (if ok then Some (map Some m @ [Some NUL]) else None), heap := h\<rparr>)"
    using assms(2) rng range_read [OF assms(1) rng] mal(1) w
    by (simp add: editor_copy_selection_def fr del: replicate_Suc)
  then show ?thesis using that mal(2) by blast
qed

text \<open>The whole text, rows joined by line breaks.\<close>

fun flat :: "string list \<Rightarrow> string" where
  "flat [] = []"
| "flat [s] = s"
| "flat (s # t) = s @ NL # flat t"

lemma flat_focus: "flat (A @ (x @ y) # B) = above A x @ below y B"
proof (induction A)
  case Nil
  have "flat (s # B) = s @ concat (map (\<lambda>s. NL # s) B)" for s
    by (induction B arbitrary: s) auto
  then show ?case by (simp add: below_def)
next
  case (Cons s A)
  then show ?case by (cases A) (simp_all add: above_def)
qed

lemma at_pos_text: "at_pos t r c b a \<Longrightarrow> b @ a = flat t"
  unfolding at_pos_def by (auto simp: flat_focus)

lemma sel_range_text:
  assumes "sel_range e b m a" and "doc e t"
  shows "b @ m @ a = flat t"
proof -
  obtain A x y B where d: "doc e (A @ (x @ y) # B)" "b = above A x" "below y B = m @ a"
    using assms(1) unfolding sel_range_def by blast
  have "t = A @ (x @ y) # B" by (rule doc_unique [OF assms(2) d(1)])
  then show ?thesis using d by (simp add: flat_focus)
qed

lemma no_NUL_flat: "clean t \<Longrightarrow> NUL \<notin> set (flat t)"
  by (induction t rule: flat.induct) auto

lemma gap_no_NUL: "gap e b a \<Longrightarrow> NUL \<notin> set (b @ a)"
  unfolding gap_def using at_pos_text no_NUL_flat by metis

lemma anchored_no_NUL:
  assumes "gap e b1 a1" and "anchored e b2 a2"
  shows "NUL \<notin> set (b2 @ a2)"
proof -
  obtain t where t: "doc e t" "clean t" using assms(1) by (auto simp: gap_def)
  obtain u where u: "doc e u" "at_pos u (sel_anchor_row e) (sel_anchor_col e) b2 a2" using assms(2) by (auto simp: anchored_def)
  have "t = u" by (rule doc_unique [OF t(1) u(1)])
  then show ?thesis using t(2) at_pos_text [OF u(2)] no_NUL_flat by metis
qed

section \<open>Deleting the selection\<close>

lemma delete_range:
  assumes "sel_range e b m a" and "sel_active e"
  obtains ok e' where "editor_delete_selection e = Some (alloc_result ok, e')"
    and "ok \<longrightarrow> gap e' b a \<and> \<not> sel_active e'" and "\<not> ok \<longrightarrow> buf_only e e' \<and> sel_range e' b m a"
    and "clipboard e' = clipboard e" and "heap e = [] \<longrightarrow> ok \<and> heap e' = []"
  using assms(1)
proof (cases rule: sel_rangeE)
  case (one A x y B)
  obtain ln where ln: "line_at e (int (length A)) = Some ln" "line_rep ln (x @ m @ y)"
    by (rule doc_line_at [OF one(1) refl])
  have l: "ln_len ln = int (length (x @ m @ y))" using ln(2) by (simp add: line_rep_def)
  let ?f = "line_cut (int (length x)) (int (length x + length m)) (ln_len ln - int (length x + length m) + 1)"
  have f: "\<exists>ln'. ?f k = Some ln' \<and> line_rep ln' (x @ y)" if "line_rep k (x @ m @ y)" for k
    using line_cut_rep [OF that, of "length x" "length x + length m" "ln_len ln - int (length x + length m) + 1"] l
    by simp
  obtain e1 where e1: "upd_line (int (length A)) ?f e = Some e1" "doc e1 (A @ (x @ y) # B)" "buf_only e e1"
    "heap e1 = heap e"
    by (rule doc_upd_line [OF one(1) refl f])
  let ?e = "clamp_scroll (e1\<lparr>cursor_row := int (length A), cursor_col := int (length x),
                              sel_active := False, sel_dirty := True\<rparr>)"
  have "editor_delete_selection e = Some (alloc_result True, ?e)"
    using assms(2) one(3) ln(1) e1(1) by (simp add: editor_delete_selection_def)
  moreover have "gap ?e b a"
    using e1(2) one by (intro gapI [of _ A x y B]) simp_all
  ultimately show ?thesis using that [of True ?e] e1(4) buf_onlyD(15) [OF e1(3)] by simp
next
  case (more A x y M x' y' B)
  obtain ok e1 where e1: "delete_rows (int (length A)) (int (length x)) (int (length A + 1 + length M)) (int (length x')) e = Some (ok, e1)"
    "buf_only e e1" "ok \<longrightarrow> doc e1 (A @ (x @ y') # B)"
    "True \<and> \<not> ok \<longrightarrow> doc e1 (A @ (x @ y) # M @ (x' @ y') # B)" "heap e = [] \<longrightarrow> ok \<and> heap e1 = []"
    by (rule editsD [OF edits_delete_rows [OF refl refl refl refl] more(1)])
  let ?e = "clamp_scroll (e1\<lparr>cursor_row := int (length A), cursor_col := int (length x),
                              sel_active := False, sel_dirty := True\<rparr>)"
  have "editor_delete_selection e = Some (alloc_result ok, if ok then ?e else e1)"
    using assms(2) more(3) e1(1) by (simp add: editor_delete_selection_def add.commute)
  moreover have "ok \<longrightarrow> gap ?e b a"
  proof
    assume ok
    then show "gap ?e b a" using e1(3) more by (intro gapI [of _ A x y' B]) simp_all
  qed
  moreover have "\<not> ok \<longrightarrow> sel_range e1 b m a"
  proof
    assume "\<not> ok"
    then have d: "doc e1 (A @ (x @ y) # M @ (x' @ y') # B)" using e1(4) by simp
    have g: "editor_sel_get_range e1 = editor_sel_get_range e"
      using buf_onlyD [OF e1(2)] by (simp add: editor_sel_get_range_def)
    show "sel_range e1 b m a" unfolding sel_range_def
      by (rule exI [of _ A], rule exI [of _ x], rule exI [of _ y], rule exI [of _ "M @ (x' @ y') # B"],
          rule exI [of _ "A @ (x @ y) # M"], rule exI [of _ x'], rule exI [of _ y'], rule exI [of _ B])
        (use d g more in \<open>simp add: above_later below_later\<close>)
  qed
  ultimately show ?thesis using that [of ok "if ok then ?e else e1"] e1(2,5) buf_onlyD(15) [OF e1(2)] by simp
qed

section \<open>Pasting\<close>

text \<open>A new empty row after row \<open>r\<close>, as the loop of \<open>editor_paste\<close> makes it.\<close>

lemma doc_new_row:
  assumes "doc e (A @ x # B)" and "r = int (length A)"
  obtains ok1 e1 where "open_row r e = Some (ok1, e1)"
    and "buf_only e e1" and "heap e = [] \<longrightarrow> ok1 \<and> heap e1 = []"
    and "ok1 \<longrightarrow> (\<exists>ok2 e2. on_line (r + 1) (\<lambda>ln. line_ensure_cap ln 0) e1 = Some (ok2, e2) \<and> buf_only e e2
          \<and> (ok2 \<longrightarrow> doc (e2\<lparr>row_count := row_count e2 + 1\<rparr>) (A @ x # [] # B)) \<and> (heap e1 = [] \<longrightarrow> ok2 \<and> heap e2 = []))"
proof -
  obtain La ln Lb where r: "rows e (La @ ln # Lb)" "row_count e = int (length (La @ ln # Lb))" "length La = length A"
    and rep: "list_all2 line_rep La A" "line_rep ln x" "list_all2 line_rep Lb B"
    by (rule doc_split [OF assms(1)])
  have r': "r = int (length La)" "r + 1 = int (length (La @ [ln]))" using r(3) assms(2) by simp_all
  obtain ok1 e1 where e1: "open_row r e = Some (ok1, e1)" "ok1 \<longrightarrow> rows e1 (La @ ln # null_line # Lb)"
    "buf_only e e1" "row_count e1 = row_count e" "heap e = [] \<longrightarrow> ok1 \<and> heap e1 = []"
    by (rule rows_open_row [OF r(1,2) r'(1)]) blast
  show ?thesis
  proof (rule that [OF e1(1,3,5)], rule impI)
    assume ok1
    then have r1: "rows e1 ((La @ [ln]) @ null_line # Lb)" using e1(2) by simp
    have op: "line_op (\<lambda>ln. line_ensure_cap ln 0) [] []" by (rule line_ensure_cap_op) simp
    obtain ok2 l2 e2 where e2: "on_line (r + 1) (\<lambda>ln. line_ensure_cap ln 0) e1 = Some (ok2, e2)"
      "rows e2 ((La @ [ln]) @ l2 # Lb)" "ok2 \<longrightarrow> line_rep l2 []" "buf_only e1 e2"
      "row_count e2 = row_count e1" "heap e1 = [] \<longrightarrow> ok2 \<and> heap e2 = []"
      by (rule rows_on_line [OF r1 r'(2) op null_rep0]) blast
    have "ok2 \<longrightarrow> doc (e2\<lparr>row_count := row_count e2 + 1\<rparr>) (A @ x # [] # B)"
    proof
      assume ok2
      show "doc (e2\<lparr>row_count := row_count e2 + 1\<rparr>) (A @ x # [] # B)"
      proof (rule docI)
        show "rows (e2\<lparr>row_count := row_count e2 + 1\<rparr>) (La @ ln # l2 # Lb)" using e2(2) by (simp add: rows_def)
        show "list_all2 line_rep (La @ ln # l2 # Lb) (A @ x # [] # B)"
          using rep e2(3) \<open>ok2\<close> by (simp add: list_all2_appendI)
      qed (use e2(5) e1(4) r(2) in simp_all)
    qed
    moreover have "buf_only e e2" by (rule buf_only_trans [OF e1(3) e2(4)])
    ultimately show "\<exists>ok2 e2. on_line (r + 1) (\<lambda>ln. line_ensure_cap ln 0) e1 = Some (ok2, e2) \<and> buf_only e e2
          \<and> (ok2 \<longrightarrow> doc (e2\<lparr>row_count := row_count e2 + 1\<rparr>) (A @ x # [] # B)) \<and> (heap e1 = [] \<longrightarrow> ok2 \<and> heap e2 = [])"
      using e2(1,6) by blast
  qed
qed

lemma scan_segment_eq:
  assumes "NUL \<notin> set s"
  shows "scan_segment (map Some s @ Some NUL # J)
       = Some (takeWhile (\<lambda>c. c \<noteq> NL) s, map Some (dropWhile (\<lambda>c. c \<noteq> NL) s) @ Some NUL # J)"
  using assms by (induction s) auto

text \<open>One step of the loop: a line break, or the characters up to the next one.\<close>

lemma paste_break:
  assumes "doc e (A @ x # B)" and "r = int (length A)"
  obtains ok e' where "paste_loop (Some NL # p) r c e = (if ok then paste_loop p (r + 1) 0 e' else Some (False, r, c, e'))"
    and "buf_only e e'" and "heap e = [] \<longrightarrow> ok \<and> heap e' = []" and "ok \<longrightarrow> doc e' ((A @ [x]) @ [] # B)"
proof -
  obtain ok1 e1 where e1: "open_row r e = Some (ok1, e1)" "buf_only e e1" "heap e = [] \<longrightarrow> ok1 \<and> heap e1 = []"
    and opened: "ok1 \<longrightarrow> (\<exists>ok2 e2. on_line (r + 1) (\<lambda>ln. line_ensure_cap ln 0) e1 = Some (ok2, e2) \<and> buf_only e e2
        \<and> (ok2 \<longrightarrow> doc (e2\<lparr>row_count := row_count e2 + 1\<rparr>) (A @ x # [] # B)) \<and> (heap e1 = [] \<longrightarrow> ok2 \<and> heap e2 = []))"
    by (rule doc_new_row [OF assms])
  show thesis
  proof (cases ok1)
    case False
    then show thesis by (intro that [of False e1]) (use e1 in auto)
  next
    case True
    then obtain ok2 e2 where e2: "on_line (r + 1) (\<lambda>ln. line_ensure_cap ln 0) e1 = Some (ok2, e2)" "buf_only e e2"
      "ok2 \<longrightarrow> doc (e2\<lparr>row_count := row_count e2 + 1\<rparr>) (A @ x # [] # B)" "heap e1 = [] \<longrightarrow> ok2 \<and> heap e2 = []"
      using opened by blast
    then show thesis
      by (intro that [of ok2 "if ok2 then e2\<lparr>row_count := row_count e2 + 1\<rparr> else e2"]) (use e1 True in auto)
  qed
qed

lemma paste_segment:
  assumes "doc e (A @ x # B)" and "r = int (length A)" and "c = int (length x)" and "NUL \<notin> set s" and "s = d # t" and "d \<noteq> NL"
  defines "w \<equiv> takeWhile (\<lambda>c. c \<noteq> NL) s" and "u \<equiv> dropWhile (\<lambda>c. c \<noteq> NL) s"
  obtains ok e' where "paste_loop (map Some s @ Some NUL # J) r c e
      = (if ok then paste_loop (map Some u @ Some NUL # J) r (c + int (length w)) e' else Some (False, r, c, e'))"
    and "buf_only e e'" and "heap e = [] \<longrightarrow> ok \<and> heap e' = []" and "ok \<longrightarrow> doc e' (A @ (x @ w) # B)"
proof -
  have sc: "scan_segment (Some d # map Some t @ Some NUL # J) = Some (w, map Some u @ Some NUL # J)"
    using scan_segment_eq [OF assms(4)] assms(5) by (simp add: w_def u_def)
  have d: "d \<noteq> NUL" using assms(4,5) by auto
  let ?f = "line_put0 (c + int (length w) + 1) c (Some (map Some w)) 0 (int (length w))"
  have op: "line_op ?f x (x @ w)"
    using line_put0_op [of "length x" x "map Some w" "[]" w "[]" "c + int (length w) + 1" 0 "int (length w)"] assms(3) by simp
  obtain ok e1 where e1: "on_line r ?f e = Some (ok, e1)" "buf_only e e1" "ok \<longrightarrow> doc e1 (A @ (x @ w) # B)"
    "True \<and> \<not> ok \<longrightarrow> doc e1 (A @ x # B)" "heap e = [] \<longrightarrow> ok \<and> heap e1 = []"
    by (rule editsD [OF edits_line [OF op assms(2)] assms(1)])
  have "map Some s @ Some NUL # J = Some d # map Some t @ Some NUL # J" using assms(5) by simp
  then have "paste_loop (map Some s @ Some NUL # J) r c e
      = (if ok then paste_loop (map Some u @ Some NUL # J) r (c + int (length w)) e1 else Some (False, r, c, e1))"
    using d assms(6) sc e1(1) by (simp del: scan_segment.simps)
  then show thesis by (rule that [OF _ e1(2,5,3)])
qed

lemma paste_loop_doc:
  assumes "doc e (A @ x # B)" and "clean (A @ x # B)" and "NUL \<notin> set s"
    and "r = int (length A)" and "c = int (length x)"
  obtains ok r' c' e' where "paste_loop (map Some s @ Some NUL # J) r c e = Some (ok, r', c', e')"
    and "buf_only e e'" and "heap e = [] \<longrightarrow> ok \<and> heap e' = []"
    and "ok \<longrightarrow> (\<exists>A' x'. doc e' (A' @ x' # B) \<and> clean (A' @ x' # B) \<and> r' = int (length A') \<and> c' = int (length x')
            \<and> above A' x' = above A x @ s)"
  using assms
proof (induction s arbitrary: A x r c e thesis rule: length_induct)
  case (1 s)
  note IH = "1.IH" [rule_format] and prems = "1.prems"
  have further: thesis
    if step: "paste_loop (map Some s @ Some NUL # J) r c e = (if ok1 then paste_loop (map Some u @ Some NUL # J) r1 c1 e1 else Some (False, r, c, e1))"
      "buf_only e e1" "heap e = [] \<longrightarrow> ok1 \<and> heap e1 = []" "ok1 \<longrightarrow> doc e1 (A1 @ x1 # B)"
      and rest: "length u < length s" "clean (A1 @ x1 # B)" "NUL \<notin> set u" "r1 = int (length A1)" "c1 = int (length x1)"
        "above A1 x1 @ u = above A x @ s" for ok1 u r1 c1 e1 A1 x1
  proof (cases ok1)
    case False
    then show thesis by (intro prems(1) [of False r c e1]) (use step in auto)
  next
    case True
    then have d: "doc e1 (A1 @ x1 # B)" using step(4) by simp
    obtain ok r' c' e' where e': "paste_loop (map Some u @ Some NUL # J) r1 c1 e1 = Some (ok, r', c', e')"
      "buf_only e1 e'" "heap e1 = [] \<longrightarrow> ok \<and> heap e' = []"
      "ok \<longrightarrow> (\<exists>A' x'. doc e' (A' @ x' # B) \<and> clean (A' @ x' # B) \<and> r' = int (length A') \<and> c' = int (length x')
        \<and> above A' x' = above A1 x1 @ u)"
      by (rule IH [OF rest(1) _ d rest(2-5)]) blast
    have pl: "paste_loop (map Some s @ Some NUL # J) r c e = Some (ok, r', c', e')" using step(1) True e'(1) by simp
    show thesis by (rule prems(1) [OF pl buf_only_trans [OF step(2) e'(2)]]) (use step(3) e'(3,4) rest(6) in simp_all)
  qed
  consider "s = []" | t where "s = NL # t" | d t where "s = d # t" "d \<noteq> NL" by (cases s) auto
  then show ?case
  proof cases
    case 1
    then have pl: "paste_loop (map Some s @ Some NUL # J) r c e = Some (True, r, c, e)" by simp
    show ?thesis by (rule prems(1) [OF pl]) (use prems 1 in auto)
  next
    case (2 t)
    obtain ok e1 where "paste_loop (Some NL # map Some t @ Some NUL # J) r c e
        = (if ok then paste_loop (map Some t @ Some NUL # J) (r + 1) 0 e1 else Some (False, r, c, e1))"
      "buf_only e e1" "heap e = [] \<longrightarrow> ok \<and> heap e1 = []" "ok \<longrightarrow> doc e1 ((A @ [x]) @ [] # B)"
      by (rule paste_break [OF prems(2,5)])
    then show ?thesis by (intro further [of ok t "r + 1" 0 e1 "A @ [x]" "[]"]) (use 2 prems in \<open>simp_all add: above_row\<close>)
  next
    case (3 d t)
    let ?w = "takeWhile (\<lambda>c. c \<noteq> NL) s" and ?u = "dropWhile (\<lambda>c. c \<noteq> NL) s"
    obtain ok e1 where st: "paste_loop (map Some s @ Some NUL # J) r c e
        = (if ok then paste_loop (map Some ?u @ Some NUL # J) r (c + int (length ?w)) e1 else Some (False, r, c, e1))"
      "buf_only e e1" "heap e = [] \<longrightarrow> ok \<and> heap e1 = []" "ok \<longrightarrow> doc e1 (A @ (x @ ?w) # B)"
      by (rule paste_segment [OF prems(2,5,6,4) 3])
    have su: "?w @ ?u = s" by simp
    have nul: "NUL \<notin> set ?w" "NUL \<notin> set ?u" using prems(4) su by (metis Un_iff set_append)+
    have "NL \<notin> set ?w" by (metis set_takeWhileD)
    moreover have "?w \<noteq> []" using 3 by simp
    then have "length ?u < length s" using su by (metis length_append less_add_same_cancel2 length_greater_0_conv)
    ultimately show ?thesis using nul prems by (intro further [OF st]) (auto simp: above_def)
  qed
qed

lemma gap_paste:
  assumes "gap e b a" and "clipboard e = Some (map Some s @ Some NUL # J)" and "NUL \<notin> set s"
  obtains ok e' where "editor_paste e = Some (alloc_result ok, e')" and "ok \<longrightarrow> gap e' (b @ s) a"
    and "clipboard e' = clipboard e" and "heap e = [] \<longrightarrow> ok \<and> heap e' = []"
proof -
  obtain A x y B where g: "doc e (A @ (x @ y) # B)" "clean (A @ (x @ y) # B)"
    "cursor_row e = int (length A)" "cursor_col e = int (length x)" "b = above A x" "a = below y B"
    by (rule gapE [OF assms(1)])
  obtain ln where ln: "line_at e (cursor_row e) = Some ln" "line_rep ln (x @ y)"
    by (rule doc_line_at [OF g(1,3)])
  obtain K where K: "ln_buf ln = Some (map Some x @ (map Some y @ [Some NUL]) @ K)" "ln_len ln = int (length (x @ y))"
    using ln(2) by (auto simp: line_rep_def)
  let ?n = "ln_len ln - cursor_col e"
  have n: "?n = int (length y)" using K(2) g(4) by simp
  obtain ok h where mal: "malloc_ok (heap e) = (ok, h)" "heap e = [] \<longrightarrow> ok \<and> h = []" by (rule malloc_okE)
  show ?thesis
  proof (cases ok)
    case False
    then have "editor_paste e = Some (alloc_result False, e\<lparr>heap := h\<rparr>)"
      using assms(2) ln(1) mal(1) by (simp add: editor_paste_def alloc_result_def Let_def)
    then show ?thesis using that [of False "e\<lparr>heap := h\<rparr>"] mal(2) False by simp
  next
    case True
    have fr: "fresh (?n + 1) = [] @ replicate (length (map Some y @ [Some NUL] :: char cells)) None @ []"
      using n by (simp add: fresh_def nat_add_distrib)
    have tl: "blit (fresh (?n + 1)) 0 (map Some x @ (map Some y @ [Some NUL]) @ K) (cursor_col e) (?n + 1)
        = Some ([] @ (map Some y @ [Some NUL]) @ [])"
      unfolding fr by (rule blit_split) (use n g(4) in auto)
    have tr: "\<exists>ln'. line_truncate (cursor_col e) k = Some ln' \<and> line_rep ln' x" if "line_rep k (x @ y)" for k
      using line_truncate_rep [OF that, of "length x"] g(4) by simp
    have d0: "doc (e\<lparr>heap := h\<rparr>) (A @ (x @ y) # B)" using g(1) by simp
    obtain e1 where e1: "upd_line (cursor_row e) (line_truncate (cursor_col e)) (e\<lparr>heap := h\<rparr>) = Some e1"
      "doc e1 (A @ x # B)" "buf_only (e\<lparr>heap := h\<rparr>) e1" "heap e1 = heap (e\<lparr>heap := h\<rparr>)"
      by (rule doc_upd_line [OF d0 g(3) tr])
    have cl: "clean (A @ x # B)" using g(2) by simp
    obtain ok2 r' c' e2 where e2: "paste_loop (map Some s @ Some NUL # J) (cursor_row e) (cursor_col e) e1 = Some (ok2, r', c', e2)"
      "buf_only e1 e2" "heap e1 = [] \<longrightarrow> ok2 \<and> heap e2 = []"
      "ok2 \<longrightarrow> (\<exists>A' x'. doc e2 (A' @ x' # B) \<and> clean (A' @ x' # B) \<and> r' = int (length A') \<and> c' = int (length x')
            \<and> above A' x' = above A x @ s)"
      by (rule paste_loop_doc [OF e1(2) cl assms(3) g(3,4)]) blast
    have clip2: "clipboard e2 = clipboard e"
      using buf_onlyD(15) [OF e2(2)] buf_onlyD(15) [OF e1(3)] by simp
    note cur = buf_onlyD(1,2) [OF e1(3), simplified]
    show ?thesis
    proof (cases ok2)
      case False
      have "editor_paste e = Some (alloc_result False, e2)"
        using assms(2) ln(1) mal(1) True K(1) tl e1(1) e2(1) False
        by (simp add: editor_paste_def alloc_result_def Let_def cur)
      then show ?thesis using that [of False e2] clip2 mal(2) e1(4) e2(3) False by simp
    next
      case ok2: True
      obtain A' x' where A': "doc e2 (A' @ x' # B)" "clean (A' @ x' # B)" "r' = int (length A')" "c' = int (length x')"
        "above A' x' = above A x @ s" using e2(4) ok2 by blast
      let ?f = "line_put (c' + ?n + 1) c' (Some (map Some y @ [Some NUL])) 0 ?n"
      have op: "line_op ?f x' (x' @ y)"
        using line_put_op [of "length x'" x' "map Some y @ [Some NUL]" "[]" y "[]" "c' + ?n + 1" 0 "?n"] n A'(4) by simp
      obtain ok3 e3 where e3: "on_line r' ?f e2 = Some (ok3, e3)" "buf_only e2 e3" "ok3 \<longrightarrow> doc e3 (A' @ (x' @ y) # B)"
        "True \<and> \<not> ok3 \<longrightarrow> doc e3 (A' @ x' # B)" "heap e2 = [] \<longrightarrow> ok3 \<and> heap e3 = []"
        by (rule editsD [OF edits_line [OF op A'(3)] A'(1)])
      let ?e = "clamp_scroll (e3\<lparr>cursor_row := r', cursor_col := c'\<rparr>)"
      have "editor_paste e = Some (alloc_result ok3, if ok3 then ?e else e3)"
        using assms(2) ln(1) mal(1) True K(1) tl e1(1) e2(1) ok2 e3(1)
        by (simp add: editor_paste_def Let_def cur)
      moreover have "ok3 \<longrightarrow> gap ?e (b @ s) a"
      proof
        assume ok3
        then show "gap ?e (b @ s) a"
          using e3(3) A' g by (intro gapI [of _ A' x' y B]) simp_all
      qed
      ultimately show ?thesis
        using that [of ok3 "if ok3 then ?e else e3"] clip2 buf_onlyD(15) [OF e3(2)] mal(2) e1(4) e2(3) e3(5) by simp
    qed
  qed
qed

end
