(* ===== verification/EditorSync.thy ===== *)
theory EditorSync
  imports EditorClip
begin

text \<open>
  Two editors on one text. The remote editing functions make at the remote cursor the change the
  peer's own functions made at its cursor, so both texts stay equal; the local cursor keeps its
  place when the remote change is on another row. Replacing a block of rows and sending the new
  rows, and loading a file row by row, build the rows that were sent.
\<close>

section \<open>A position and a text determine the rows\<close>

lemma takeWhile_row: "NL \<notin> set s \<Longrightarrow> takeWhile (\<lambda>c. c \<noteq> NL) (s @ NL # r) = s"
  by (induction s) auto

lemma rows_shift: "concat (map ((#) NL) M) @ NL # r = NL # concat (map (\<lambda>s. s @ [NL]) M) @ r"
  by (induction M) simp_all

lemma above_inject:
  assumes "above A x = above A' x'" and "clean A" and "clean A'" and "NL \<notin> set x" and "NL \<notin> set x'"
  shows "A = A' \<and> x = x'"
  using assms
proof (induction A arbitrary: A')
  case Nil
  show ?case
  proof (cases A')
    case (Cons s A'')
    then have "NL \<in> set x" using Nil.prems(1) by (auto simp: above_def)
    with Nil.prems show ?thesis by simp
  qed (use Nil in simp)
next
  case (Cons s A)
  show ?case
  proof (cases A')
    case Nil
    then have "NL \<in> set x'" using Cons.prems(1) by (auto simp: above_def)
    with Cons.prems show ?thesis by simp
  next
    case A': (Cons s' A'')
    have eq: "s @ NL # above A x = s' @ NL # above A'' x'" using Cons.prems(1) A' by (simp add: above_def)
    have nl: "NL \<notin> set s" "NL \<notin> set s'" using Cons.prems A' by simp_all
    have "s = s'" using arg_cong [OF eq, of "takeWhile (\<lambda>c. c \<noteq> NL)"] nl by (simp only: takeWhile_row [OF nl(1)] takeWhile_row [OF nl(2)])
    moreover have "above A x = above A'' x'" using eq calculation by simp
    ultimately show ?thesis using Cons.IH [of A''] Cons.prems A' by simp
  qed
qed

lemma below_above: "rev (below y B) = above (rev (map rev B)) (rev y)"
  by (simp add: below_def above_def rev_concat rev_map comp_def)

lemma clean_rev [simp]: "clean (rev (map rev B)) = clean B"
  by (auto simp: clean_def)

lemma below_inject:
  assumes "below y B = below y' B'" and "clean B" and "clean B'" and "NL \<notin> set y" and "NL \<notin> set y'"
  shows "y = y' \<and> B = B'"
proof -
  have "above (rev (map rev B)) (rev y) = above (rev (map rev B')) (rev y')"
    using assms(1) by (simp flip: below_above)
  from above_inject [OF this] assms(2-5) have "rev (map rev B) = rev (map rev B')" "y = y'" by auto
  then show ?thesis by (auto simp: inj_map_eq_map)
qed

lemma at_pos_unique:
  assumes "at_pos t r c b a" and "at_pos t' r' c' b a" and "clean t" and "clean t'"
  shows "t = t' \<and> r = r' \<and> c = c'"
proof -
  obtain A x y B where p: "t = A @ (x @ y) # B" "r = int (length A)" "c = int (length x)" "b = above A x" "a = below y B"
    using assms(1) unfolding at_pos_def by blast
  obtain A' x' y' B' where q: "t' = A' @ (x' @ y') # B'" "r' = int (length A')" "c' = int (length x')"
    "b = above A' x'" "a = below y' B'"
    using assms(2) unfolding at_pos_def by blast
  have "A = A' \<and> x = x'" by (rule above_inject) (use p q assms(3,4) in simp_all)
  moreover have "y = y' \<and> B = B'" by (rule below_inject) (use p q assms(3,4) in simp_all)
  ultimately show ?thesis using p q by simp
qed

section \<open>The remote cursor\<close>

definition remote_gap :: "editor \<Rightarrow> string \<Rightarrow> string \<Rightarrow> bool" where
  "remote_gap e b a \<longleftrightarrow> (\<exists>t. doc e t \<and> clean t \<and> at_pos t (remote_cursor_row e) (remote_cursor_col e) b a)"

text \<open>Cursor of the one, remote cursor of the other at the same place: the same rows and the same position.\<close>

lemma mirrored:
  assumes "gap e b a" and "remote_gap f b a"
  shows "\<exists>t. doc e t \<and> doc f t \<and> cursor_row e = remote_cursor_row f \<and> cursor_col e = remote_cursor_col f"
proof -
  obtain t u where "doc e t" "clean t" "at_pos t (cursor_row e) (cursor_col e) b a"
    "doc f u" "clean u" "at_pos u (remote_cursor_row f) (remote_cursor_col f) b a"
    using assms unfolding gap_def remote_gap_def by blast
  then show ?thesis using at_pos_unique [of t _ _ b a u] by blast
qed

lemma remote_gapE:
  assumes "remote_gap e b a"
  obtains A x y B where "doc e (A @ (x @ y) # B)" and "clean (A @ (x @ y) # B)"
    and "remote_cursor_row e = int (length A)" and "remote_cursor_col e = int (length x)"
    and "b = above A x" and "a = below y B"
  using assms by (auto simp: remote_gap_def at_pos_def)

lemma remote_gapI:
  assumes "doc e (A @ (x @ y) # B)" and "clean (A @ (x @ y) # B)"
    and "remote_cursor_row e = int (length A)" and "remote_cursor_col e = int (length x)"
    and "b = above A x" and "a = below y B"
  shows "remote_gap e b a"
  using assms unfolding remote_gap_def at_pos_def by blast

lemma remote_insert_doc:
  assumes "doc e (A @ (x @ y) # B)" and "remote_cursor_row e = int (length A)" and "remote_cursor_col e = int (length x)"
  obtains ok e' where "editor_remote_insert_char c e = Some (alloc_result ok, e')"
    and "ok \<longrightarrow> doc e' (if c = NL then A @ x # y # B else A @ (x @ c # y) # B)
      \<and> remote_cursor_row e' = int (length A) + (if c = NL then 1 else 0)
      \<and> remote_cursor_col e' = (if c = NL then 0 else int (length x) + 1)
      \<and> cursor_row e' = cursor_row e + (if c = NL \<and> int (length A) < cursor_row e then 1 else 0)
      \<and> cursor_col e' = cursor_col e"
    and "heap e = [] \<longrightarrow> ok \<and> heap e' = []"
proof (cases "c = NL")
  case True
  obtain ok e1 where e1: "split_line (remote_cursor_row e) (remote_cursor_col e) e = Some (ok, e1)" "buf_only e e1"
    "ok \<longrightarrow> doc e1 (A @ x # y # B)" "heap e = [] \<longrightarrow> ok \<and> heap e1 = []"
    by (rule editsD [OF edits_split [OF assms(2,3)] assms(1)]) blast
  let ?e0 = "e1\<lparr>remote_cursor_row := remote_cursor_row e1 + 1, remote_cursor_col := 0\<rparr>"
  let ?e = "clamp_scroll (if remote_cursor_row e1 < cursor_row e1 then ?e0\<lparr>cursor_row := cursor_row e1 + 1\<rparr> else ?e0)"
  have "editor_remote_insert_char c e = Some (alloc_result ok, if ok then ?e else e1)"
    using True e1(1) by (simp add: editor_remote_insert_char_def alloc_result_def Let_def)
  then show ?thesis
    using that [of ok "if ok then ?e else e1"] e1(3,4) buf_onlyD [OF e1(2)] True assms(2) by simp
next
  case False
  have op: "line_op (line_insert (remote_cursor_col e) c) (x @ y) (x @ c # y)"
    using line_insert_op [of "length x" "x @ y" c] assms(3) by simp
  obtain ok e1 where e1: "on_line (remote_cursor_row e) (line_insert (remote_cursor_col e) c) e = Some (ok, e1)"
    "buf_only e e1" "ok \<longrightarrow> doc e1 (A @ (x @ c # y) # B)" "True \<and> \<not> ok \<longrightarrow> doc e1 (A @ (x @ y) # B)"
    "heap e = [] \<longrightarrow> ok \<and> heap e1 = []"
    by (rule editsD [OF edits_line [OF op assms(2)] assms(1)])
  let ?e = "clamp_scroll (e1\<lparr>remote_cursor_col := remote_cursor_col e1 + 1\<rparr>)"
  have "editor_remote_insert_char c e = Some (alloc_result ok, if ok then ?e else e1)"
    using False e1(1) by (simp add: editor_remote_insert_char_def)
  then show ?thesis
    using that [of ok "if ok then ?e else e1"] e1(3,5) buf_onlyD [OF e1(2)] False assms by simp
qed

lemma remote_gap_insert:
  assumes "remote_gap e b a" and "c \<noteq> NUL"
  obtains ok e' where "editor_remote_insert_char c e = Some (alloc_result ok, e')" and "ok \<longrightarrow> remote_gap e' (b @ [c]) a"
    and "heap e = [] \<longrightarrow> ok \<and> heap e' = []"
proof -
  obtain A x y B where g: "doc e (A @ (x @ y) # B)" "clean (A @ (x @ y) # B)"
    "remote_cursor_row e = int (length A)" "remote_cursor_col e = int (length x)" "b = above A x" "a = below y B"
    by (rule remote_gapE [OF assms(1)])
  obtain ok e' where e': "editor_remote_insert_char c e = Some (alloc_result ok, e')"
    "ok \<longrightarrow> doc e' (if c = NL then A @ x # y # B else A @ (x @ c # y) # B)
      \<and> remote_cursor_row e' = int (length A) + (if c = NL then 1 else 0)
      \<and> remote_cursor_col e' = (if c = NL then 0 else int (length x) + 1)
      \<and> cursor_row e' = cursor_row e + (if c = NL \<and> int (length A) < cursor_row e then 1 else 0)
      \<and> cursor_col e' = cursor_col e"
    "heap e = [] \<longrightarrow> ok \<and> heap e' = []"
    by (rule remote_insert_doc [OF g(1,3,4)])
  have "ok \<longrightarrow> remote_gap e' (b @ [c]) a"
  proof
    assume ok
    show "remote_gap e' (b @ [c]) a"
    proof (cases "c = NL")
      case True
      then show ?thesis using e'(2) \<open>ok\<close> g
        by (intro remote_gapI [of _ "A @ [x]" "[]" y B]) (simp_all add: above_row)
    next
      case False
      then show ?thesis using e'(2) \<open>ok\<close> g assms(2)
        by (intro remote_gapI [of _ A "x @ [c]" y B]) (simp_all add: above_snoc)
    qed
  qed
  with that e' show ?thesis by blast
qed

text \<open>
  What the change before \<open>rb | ra\<close>, that adds \<open>m\<close>, makes of a local position \<open>b | a\<close> on another row.
\<close>

lemma remote_insert_keeps_gap:
  assumes "gap e b a" and "remote_gap e rb ra" and "cursor_row e \<noteq> remote_cursor_row e" and "c \<noteq> NUL"
  obtains ok e' where "editor_remote_insert_char c e = Some (alloc_result ok, e')"
    and "ok \<longrightarrow> (if length rb < length b then gap e' (rb @ [c] @ drop (length rb) b) a
                 else gap e' b (take (length rb - length b) a @ [c] @ ra))"
    and "heap e = [] \<longrightarrow> ok \<and> heap e' = []"
proof -
  obtain P p q Q where g: "doc e (P @ (p @ q) # Q)" "clean (P @ (p @ q) # Q)"
    "cursor_row e = int (length P)" "cursor_col e = int (length p)" "b = above P p" "a = below q Q"
    by (rule gapE [OF assms(1)])
  obtain A x y B where r: "doc e (A @ (x @ y) # B)" "clean (A @ (x @ y) # B)"
    "remote_cursor_row e = int (length A)" "remote_cursor_col e = int (length x)" "rb = above A x" "ra = below y B"
    by (rule remote_gapE [OF assms(2)])
  have eq: "A @ (x @ y) # B = P @ (p @ q) # Q" by (rule doc_unique [OF r(1) g(1)])
  obtain ok e' where e': "editor_remote_insert_char c e = Some (alloc_result ok, e')"
    "ok \<longrightarrow> doc e' (if c = NL then A @ x # y # B else A @ (x @ c # y) # B)
      \<and> remote_cursor_row e' = int (length A) + (if c = NL then 1 else 0)
      \<and> remote_cursor_col e' = (if c = NL then 0 else int (length x) + 1)
      \<and> cursor_row e' = cursor_row e + (if c = NL \<and> int (length A) < cursor_row e then 1 else 0)
      \<and> cursor_col e' = cursor_col e"
    "heap e = [] \<longrightarrow> ok \<and> heap e' = []"
    by (rule remote_insert_doc [OF r(1,3,4)])
  have "ok \<longrightarrow> (if length rb < length b then gap e' (rb @ [c] @ drop (length rb) b) a
                 else gap e' b (take (length rb - length b) a @ [c] @ ra))"
  proof (cases "length A < length P")
    case True
    from eq disjI1 [OF True] show ?thesis
    proof (cases rule: positions)
      case (later M)
      have b: "b = rb @ y @ NL # above M p" using later g(5) r(5) by (simp add: above_later)
      have "gap e' (rb @ [c] @ y @ NL # above M p) a" if ok
      proof (cases "c = NL")
        case nl: True
        show ?thesis
          by (rule gapI [of _ "A @ x # y # M" p q Q])
            (use e'(2) that nl True later r g in \<open>simp_all add: above_def\<close>)
      next
        case False
        show ?thesis
          by (rule gapI [of _ "A @ (x @ c # y) # M" p q Q])
            (use e'(2) that False True later r g assms(4) in \<open>simp_all add: above_def\<close>)
      qed
      then show ?thesis using b by simp
    qed (use True in auto)
  next
    case False
    then have lt: "length P < length A" using assms(3) g(3) r(3) by simp
    from eq [symmetric] disjI1 [OF lt] show ?thesis
    proof (cases rule: positions)
      case (later M)
      let ?m = "q @ NL # above M x"
      have a: "a = ?m @ ra" and rb: "rb = b @ ?m"
        using later g(5,6) r(5,6) by (simp_all add: above_later below_later)
      have "gap e' b (?m @ [c] @ ra)" if ok
      proof (cases "c = NL")
        case nl: True
        show ?thesis
          by (rule gapI [of _ P p q "M @ x # y # B"])
            (use e'(2) that nl lt later r g in \<open>simp_all add: above_def below_def rows_shift\<close>)
      next
        case False
        show ?thesis
          by (rule gapI [of _ P p q "M @ (x @ c # y) # B"])
            (use e'(2) that False lt later r g assms(4) in \<open>simp_all add: above_def below_def rows_shift\<close>)
      qed
      then show ?thesis using a rb by simp
    qed (use lt in auto)
  qed
  with that e' show ?thesis by blast
qed

lemma remote_gap_delete:
  assumes "remote_gap e b a"
  obtains ok e' where "editor_remote_delete_char e = Some (alloc_result ok, e')" and "ok \<longrightarrow> remote_gap e' (butlast b) a"
    and "heap e = [] \<longrightarrow> ok \<and> heap e' = []"
proof -
  obtain A x y B where g: "doc e (A @ (x @ y) # B)" "clean (A @ (x @ y) # B)"
    "remote_cursor_row e = int (length A)" "remote_cursor_col e = int (length x)" "b = above A x" "a = below y B"
    by (rule remote_gapE [OF assms(1)])
  consider x' c where "x = x' @ [c]" | A' s where "x = []" "A = A' @ [s]" | "x = []" "A = []"
    by (cases x rule: rev_cases; cases A rule: rev_cases) auto
  then show ?thesis
  proof cases
    case 1
    obtain ln where ln: "line_at e (remote_cursor_row e) = Some ln" "line_rep ln (x @ y)"
      by (rule doc_line_at [OF g(1,3)])
    let ?f = "line_cut (remote_cursor_col e - 1) (remote_cursor_col e - 1 + 1) (ln_len ln - (remote_cursor_col e - 1))"
    have l: "ln_len ln = int (length (x @ y))" using ln(2) by (simp add: line_rep_def)
    have f: "\<exists>ln'. ?f m = Some ln' \<and> line_rep ln' (x' @ y)" if "line_rep m (x @ y)" for m
      using line_cut_rep [OF that, of "length x'" "length x" "ln_len ln - (remote_cursor_col e - 1)"] 1 g(4) l
      by (simp add: add.commute)
    let ?e0 = "e\<lparr>remote_cursor_col := remote_cursor_col e - 1\<rparr>"
    have d0: "doc ?e0 (A @ (x @ y) # B)" using g(1) by simp
    obtain e1 where e1: "upd_line (remote_cursor_row e) ?f ?e0 = Some e1" "doc e1 (A @ (x' @ y) # B)"
      "buf_only ?e0 e1" "heap e1 = heap ?e0"
      by (rule doc_upd_line [OF d0 g(3) f])
    have "line_at ?e0 = line_at e" by (simp add: fun_eq_iff line_at_def)
    then have "editor_remote_delete_char e = Some (alloc_result True, clamp_scroll e1)"
      using 1 g(4) ln(1) e1(1) by (simp add: editor_remote_delete_char_def alloc_result_def Let_def)
    moreover have "remote_gap (clamp_scroll e1) (butlast b) a"
      using e1(2) g 1 buf_onlyD [OF e1(3)]
      by (intro remote_gapI [of _ A x' y B]) (simp_all add: above_snoc)
    ultimately show ?thesis using that [of True "clamp_scroll e1"] e1(4) by simp
  next
    case 2
    have d: "doc e (A' @ s # y # B)" and r: "remote_cursor_row e = int (length A') + 1" using g(1,3) 2 by simp_all
    obtain ln where ln: "line_at e (remote_cursor_row e - 1) = Some ln" "line_rep ln s"
      by (rule doc_line_at [OF d]) (use r in auto)
    have l: "ln_len ln = int (length s)" using ln(2) by (simp add: line_rep_def)
    obtain ok e1 where e1: "merge_up (remote_cursor_row e) e = Some (ok, e1)" "buf_only e e1"
      "ok \<longrightarrow> doc e1 (A' @ (s @ y) # B)" "True \<and> \<not> ok \<longrightarrow> doc e1 (A' @ s # y # B)"
      "heap e = [] \<longrightarrow> ok \<and> heap e1 = []"
      by (rule editsD [OF edits_merge [OF r] d])
    let ?e0 = "e1\<lparr>remote_cursor_row := remote_cursor_row e1 - 1, remote_cursor_col := ln_len ln\<rparr>"
    let ?e = "clamp_scroll (if remote_cursor_row e1 < cursor_row e1 then ?e0\<lparr>cursor_row := cursor_row e1 - 1\<rparr> else ?e0)"
    have "editor_remote_delete_char e = Some (alloc_result ok, if ok then ?e else e1)"
      using 2 g(3,4) ln(1) e1(1) by (simp add: editor_remote_delete_char_def alloc_result_def Let_def)
    moreover have "ok \<longrightarrow> remote_gap ?e (butlast b) a"
    proof
      assume ok
      then show "remote_gap ?e (butlast b) a"
        using e1(3) g 2 l buf_onlyD [OF e1(2)]
        by (intro remote_gapI [of _ A' s y B]) (simp_all add: above_row)
    qed
    ultimately show ?thesis using that [of ok "if ok then ?e else e1"] e1(5) by simp
  next
    case 3
    then have "editor_remote_delete_char e = Some (alloc_result True, clamp_scroll e)"
      using g(3,4) by (simp add: editor_remote_delete_char_def alloc_result_def)
    moreover have "remote_gap (clamp_scroll e) (butlast b) a"
      using g 3 by (intro remote_gapI [of _ "[]" "[]" y B]) simp_all
    ultimately show ?thesis using that [of True "clamp_scroll e"] by simp
  qed
qed

section \<open>Blocks of rows\<close>

text \<open>Rows \<open>A\<close>, then \<open>n\<close> blank structures still to be filled, then rows \<open>B\<close>.\<close>

definition awaiting :: "editor \<Rightarrow> string list \<Rightarrow> nat \<Rightarrow> string list \<Rightarrow> bool" where
  "awaiting e A n B \<longleftrightarrow> (\<exists>La Lb. rows e (La @ replicate n null_line @ Lb) \<and> row_count e = int (length La + n + length Lb)
     \<and> list_all2 line_rep La A \<and> list_all2 line_rep Lb B)"

lemma awaiting_done: "awaiting e A 0 B \<Longrightarrow> A @ B \<noteq> [] \<Longrightarrow> doc e (A @ B)"
  unfolding awaiting_def by (auto intro!: docI list_all2_appendI)

lemma awaiting_clamp [simp]: "awaiting (clamp_scroll e) A n B = awaiting e A n B"
  by (simp add: awaiting_def rows_def)

lemma rows_gap:
  assumes "rows e (A @ C @ B)" and "row_count e = int (length (A @ C @ B))"
    and "int (length A + n + length B) \<le> row_cap e"
  obtains e1 e2 where "(if 0 < int (length B) then move_lines (int (length A + n)) (int (length A + length C)) (int (length B)) e else Some e) = Some e1"
    and "blank_rows (int (length A)) n e1 = Some e2" and "rows e2 (A @ replicate n null_line @ B)"
    and "buf_only e e2" and "row_count e1 = row_count e" and "row_count e2 = row_count e" and "heap e2 = heap e"
proof -
  obtain Z W e1 where e1: "(if 0 < int (length B) then move_lines (int (length A + n)) (int (length A + length C)) (int (length B)) e else Some e) = Some e1"
    "lines e1 = Some (map Some A @ Z @ map Some B @ W)" "length Z = n"
    "row_cap e1 = int (length A + length Z + length B + length W)" "buf_only e e1" "row_count e1 = row_count e" "heap e1 = heap e"
  proof (cases "B = []")
    case True
    from assms(1) obtain J where J: "lines e = Some (map Some A @ map Some C @ J)"
      "row_cap e = int (length A + length C) + int (length J)" by (auto simp: rows_def True)
    let ?T = "map Some C @ J"
    show ?thesis by (rule that [of e "take n ?T" "drop n ?T"]) (use J assms(3) True in \<open>auto simp del: take_append drop_append\<close>)
  next
    case False
    then show ?thesis using rows_move [OF assms(1,3) refl refl refl] that by (metis of_nat_0_less_iff length_greater_0_conv)
  qed
  obtain e2 where e2: "blank_rows (int (length A)) (length Z) e1 = Some e2"
    "rows e2 (A @ replicate (length Z) null_line @ B)" "buf_only e1 e2" "row_count e2 = row_count e1" "heap e2 = heap e1"
    by (rule rows_blank [OF e1(2,4)])
  show ?thesis using that [OF e1(1)] e2 e1(3,5,6,7) buf_only_trans [OF e1(5) e2(3)] by simp
qed

lemma replace_block_awaiting:
  assumes "doc e (A @ D @ B)" and "n \<noteq> 0 \<or> A @ B \<noteq> []"
  obtains ok e' where "editor_remote_replace_block (int (length A)) (int (length D)) (int n) e = Some (alloc_result ok, e')"
    and "ok \<longrightarrow> awaiting e' A n B" and "\<not> ok \<longrightarrow> doc e' (A @ D @ B)" and "heap e = [] \<longrightarrow> ok \<and> heap e' = []"
proof -
  obtain Ls where Ls: "rows e Ls" "row_count e = int (length Ls)" "Ls \<noteq> []" "list_all2 line_rep Ls (A @ D @ B)"
    using assms(1) by (auto simp: doc_def)
  then obtain La Ld Lb where L: "Ls = La @ Ld @ Lb" "list_all2 line_rep La A" "list_all2 line_rep Ld D" "list_all2 line_rep Lb B"
    by (auto simp: list_all2_append2)
  have len: "length La = length A" "length Ld = length D" "length Lb = length B"
    using L by (simp_all add: list_all2_lengthD)
  let ?s = "int n - int (length D)"
  have fr: "free_rows e (int (length A)) (nat (int (length D))) = Some ()"
    by (rule rows_free_rows [OF Ls(1)]) (use L(1) len in simp_all)
  obtain ok e1 where e1: "(if 0 < ?s then lines_ensure_cap (row_count e + ?s) e else Some (True, e)) = Some (ok, e1)"
    "rows e1 Ls" "buf_only e e1" "row_count e1 = row_count e" "ok \<longrightarrow> int (length La + n + length Lb) \<le> row_cap e1"
    "heap e = [] \<longrightarrow> ok \<and> heap e1 = []"
  proof (cases "0 < ?s")
    case True
    have le: "int (length Ls) \<le> row_count e + ?s" using True Ls(2) by simp
    obtain ok e1 where g: "lines_ensure_cap (row_count e + ?s) e = Some (ok, e1)" "rows e1 Ls" "buf_only e e1"
      "row_count e1 = row_count e" "ok \<longrightarrow> row_count e + ?s < row_cap e1" "heap e = [] \<longrightarrow> ok \<and> heap e1 = []"
      by (rule rows_ensure_cap [OF Ls(1,2,3) le])
    have "ok \<longrightarrow> int (length La + n + length Lb) \<le> row_cap e1"
      using g(5) True L(1) len Ls(2) by auto
    then show ?thesis using that [of ok e1] g True by simp
  next
    case False
    then show ?thesis using that [of True e] Ls(1,2) L(1) len by (auto simp: rows_def)
  qed
  have cnt: "row_count e = int (length A) + int (length D) + int (length B)" using Ls(2) L(1) len by simp
  show ?thesis
  proof (cases ok)
    case False
    have "editor_remote_replace_block (int (length A)) (int (length D)) (int n) e = Some (alloc_result False, e1)"
      using e1(1) False fr cnt by (simp add: editor_remote_replace_block_def alloc_result_def Let_def)
    moreover have "doc e1 (A @ D @ B)" by (rule docI [OF e1(2)]) (use e1(4) Ls in auto)
    ultimately show ?thesis using that [of False e1] e1(6) False by simp
  next
    case True
    have r1: "rows e1 (La @ Ld @ Lb)" "row_count e1 = int (length (La @ Ld @ Lb))" using e1 Ls(2) L(1) by simp_all
    have cap: "int (length La + n + length Lb) \<le> row_cap e1" using e1(5) True by simp
    obtain e2 e3 where e23: "(if 0 < int (length Lb) then move_lines (int (length La + n)) (int (length La + length Ld)) (int (length Lb)) e1 else Some e1) = Some e2"
      "blank_rows (int (length La)) n e2 = Some e3" "rows e3 (La @ replicate n null_line @ Lb)"
      "buf_only e1 e3" "row_count e2 = row_count e1" "row_count e3 = row_count e1" "heap e3 = heap e1"
      by (rule rows_gap [OF r1 cap])
    let ?e0 = "e3\<lparr>row_count := row_count e3 + ?s\<rparr>"
    let ?e = "clamp_scroll (if int (length A) + int (length D) \<le> cursor_row e3 then ?e0\<lparr>cursor_row := cursor_row e3 + ?s\<rparr> else ?e0)"
    have "editor_remote_replace_block (int (length A)) (int (length D)) (int n) e = Some (alloc_result True, ?e)"
      using e1(1) True fr cnt e1(4) e23(1,2) len
      by (cases "B = []") (simp_all add: editor_remote_replace_block_def alloc_result_def Let_def)
    moreover have "awaiting ?e A n B"
    proof -
      have "rows ?e (La @ replicate n null_line @ Lb)" using e23(3) by (simp add: rows_def)
      moreover have "row_count ?e = int (length La + n + length Lb)" using e23(6) e1(4) cnt len by simp
      ultimately show ?thesis using L(2,4) unfolding awaiting_def by blast
    qed
    ultimately show ?thesis using that [of True ?e] e1(6) e23(7) True by simp
  qed
qed

lemma update_line_awaiting:
  assumes "awaiting e A (Suc n) B"
  obtains ok e' where "editor_remote_update_line (int (length A)) (map Some s @ Q) (int (length s)) e = Some (alloc_result ok, e')"
    and "ok \<longrightarrow> awaiting e' (A @ [s]) n B" and "heap e = [] \<longrightarrow> ok \<and> heap e' = []"
proof -
  obtain La Lb where L: "rows e (La @ null_line # replicate n null_line @ Lb)" "row_count e = int (length La + Suc n + length Lb)"
    "list_all2 line_rep La A" "list_all2 line_rep Lb B"
    using assms by (auto simp: awaiting_def)
  have len: "length La = length A" using L(3) by (rule list_all2_lengthD)
  have i: "int (length A) = int (length La)" by (simp add: len)
  let ?f = "line_put0 (int (length s)) 0 (Some (map Some s @ Q)) 0 (int (length s))"
  have op: "line_op ?f [] s" using line_put0_op [of 0 "[]" "map Some s @ Q" "[]" s Q "int (length s)" 0 "int (length s)"] by simp
  obtain ok ln e1 where e1: "on_line (int (length A)) ?f e = Some (ok, e1)" "rows e1 (La @ ln # replicate n null_line @ Lb)"
    "ok \<longrightarrow> line_rep ln s" "buf_only e e1" "row_count e1 = row_count e" "heap e = [] \<longrightarrow> ok \<and> heap e1 = []"
    by (rule rows_on_line [OF L(1) i op null_rep0]) blast
  have "editor_remote_update_line (int (length A)) (map Some s @ Q) (int (length s)) e
      = Some (alloc_result ok, if ok then clamp_scroll e1 else e1)"
    using e1(1) L(2) len by (simp add: editor_remote_update_line_def)
  moreover have "ok \<longrightarrow> awaiting e1 (A @ [s]) n B"
  proof
    assume ok
    then have "list_all2 line_rep (La @ [ln]) (A @ [s])" using L(3) e1(3) by (simp add: list_all2_appendI)
    moreover have "rows e1 ((La @ [ln]) @ replicate n null_line @ Lb)" using e1(2) by simp
    ultimately show "awaiting e1 (A @ [s]) n B"
      using L(2,4) e1(5) unfolding awaiting_def by (intro exI [of _ "La @ [ln]"] exI [of _ Lb]) simp
  qed
  ultimately show ?thesis using that [of ok "if ok then clamp_scroll e1 else e1"] e1(6) by simp
qed

text \<open>The messages that follow a block replacement, one per row.\<close>

fun update_rows :: "int \<Rightarrow> string list \<Rightarrow> editor \<Rightarrow> (EditorResult \<times> editor) option" where
  "update_rows r [] e = Some (EDITOR_OK, e)"
| "update_rows r (s # N) e = do {
     (res, e) \<leftarrow> editor_remote_update_line r (map Some s) (int (length s)) e;
     if res = EDITOR_OK then update_rows (r + 1) N e else Some (res, e)
   }"

lemma update_rows_awaiting:
  assumes "awaiting e A (length N) B" and "A @ N @ B \<noteq> []" and "heap e = []"
  shows "\<exists>e'. update_rows (int (length A)) N e = Some (EDITOR_OK, e') \<and> doc e' (A @ N @ B) \<and> heap e' = []"
  using assms
proof (induction N arbitrary: A e)
  case Nil
  then show ?case using awaiting_done by force
next
  case (Cons s N)
  have w: "awaiting e A (Suc (length N)) B" using Cons.prems(1) by simp
  obtain ok e1 where e1: "editor_remote_update_line (int (length A)) (map Some s @ []) (int (length s)) e = Some (alloc_result ok, e1)"
    "ok \<longrightarrow> awaiting e1 (A @ [s]) (length N) B" "heap e = [] \<longrightarrow> ok \<and> heap e1 = []"
    by (rule update_line_awaiting [OF w])
  then have w1: "awaiting e1 (A @ [s]) (length N) B" "heap e1 = []"
    and u: "editor_remote_update_line (int (length A)) (map Some s) (int (length s)) e = Some (EDITOR_OK, e1)"
    using Cons.prems(3) by (simp_all add: alloc_result_def)
  obtain e' where "update_rows (int (length (A @ [s]))) N e1 = Some (EDITOR_OK, e')" "doc e' ((A @ [s]) @ N @ B)" "heap e' = []"
    using Cons.IH [OF w1(1) _ w1(2)] by auto
  then show ?case using u by (simp add: add.commute)
qed

section \<open>Loading\<close>

text \<open>Before the first call there is no array; later calls start from a document.\<close>

definition init_ready :: "editor \<Rightarrow> bool" where
  "init_ready e \<longleftrightarrow> (lines e = None \<and> row_cap e = 0) \<or> (\<exists>t. doc e t)"

lemma editor_cleanup_eq:
  assumes "init_ready e"
  shows "editor_cleanup e = Some (e\<lparr>lines := None, row_cap := 0, clipboard := None\<rparr>)"
proof (cases "lines e")
  case None
  then have "row_cap e = 0" using assms by (auto simp: init_ready_def doc_def rows_def)
  have "e\<lparr>clipboard := None\<rparr> = e\<lparr>lines := None, row_cap := 0, clipboard := None\<rparr>"
    using None \<open>row_cap e = 0\<close> by (cases e) simp
  with None show ?thesis by (simp add: editor_cleanup_def)
next
  case (Some ls)
  then obtain Ls where "rows e Ls" "row_count e = int (length Ls)" using assms by (auto simp: init_ready_def doc_def)
  then have "free_rows e 0 (nat (row_count e)) = Some ()" by (intro rows_free_rows [of e Ls]) simp_all
  with Some show ?thesis by (simp add: editor_cleanup_def)
qed

lemma editor_init_doc:
  assumes "init_ready e"
  obtains ok e' where "editor_init e = Some (ok, e')"
    and "ok \<longrightarrow> doc e' [[]] \<and> cursor_row e' = 0 \<and> cursor_col e' = 0 \<and> scroll_row e' = 0 \<and> scroll_col e' = 0
      \<and> \<not> sel_active e' \<and> clipboard e' = None"
    and "heap e = [] \<longrightarrow> ok \<and> heap e' = []"
proof -
  let ?e0 = "e\<lparr>lines := None, row_cap := 0, clipboard := None, row_count := 1\<rparr>"
  obtain ok h where mal: "malloc_ok (heap e) = (ok, h)" "heap e = [] \<longrightarrow> ok \<and> h = []" by (rule malloc_okE)
  have g: "grow_cap LINES_INIT_CAP 0 = 16" by (simp add: LINES_INIT_CAP_def grow_cap.simps)
  have cl: "(editor_cleanup e \<bind> (\<lambda>e. f (e\<lparr>row_count := 1\<rparr>))) = f ?e0" for f :: "editor \<Rightarrow> (bool \<times> editor) option"
    using editor_cleanup_eq [OF assms] by simp
  show ?thesis
  proof (cases ok)
    case False
    then have "lines_ensure_cap 0 ?e0 = Some (False, ?e0\<lparr>heap := h\<rparr>)"
      using mal(1) by (simp add: lines_ensure_cap_def)
    then have "editor_init e = Some (False, ?e0\<lparr>heap := h\<rparr>)"
      by (simp add: editor_init_def Let_def editor_cleanup_eq [OF assms])
    then show ?thesis using that [of False "?e0\<lparr>heap := h\<rparr>"] mal(2) False by simp
  next
    case True
    let ?e1 = "?e0\<lparr>lines := Some (fresh 16), row_cap := 16, heap := h\<rparr>"
    have c: "lines_ensure_cap 0 ?e0 = Some (True, ?e1)"
      using mal(1) True g by (simp add: lines_ensure_cap_def Let_def)
    let ?ls = "[Some null_line] @ replicate 15 None"
    let ?e2 = "?e1\<lparr>lines := Some ?ls\<rparr>"
    have fr: "fresh 16 = [] @ None # replicate 15 (None :: Line option)"
      by (simp add: fresh_def eval_nat_numeral)
    have s: "set_line 0 null_line ?e1 = Some ?e2"
      using awrite_split [of 0 "[]" None "replicate 15 None" null_line] unfolding fr
      by (simp add: set_line_def)
    have r2: "rows ?e2 ([] @ null_line # [])" unfolding rows_def by (rule exI [of _ "replicate 15 None"]) simp
    have op: "line_op (\<lambda>ln. line_ensure_cap ln 0) [] []" by (rule line_ensure_cap_op) simp
    obtain ok2 ln e3 where e3: "on_line 0 (\<lambda>ln. line_ensure_cap ln 0) ?e2 = Some (ok2, e3)" "rows e3 ([] @ ln # [])"
      "ok2 \<longrightarrow> line_rep ln []" "buf_only ?e2 e3" "row_count e3 = row_count ?e2" "heap ?e2 = [] \<longrightarrow> ok2 \<and> heap e3 = []"
      by (rule rows_on_line [where i = 0, OF r2 _ op null_rep0]) auto
    let ?e4 = "e3\<lparr>cursor_row := 0, cursor_col := 0, scroll_row := 0, scroll_col := 0,
           scroll_dirty := False, sel_active := False, sel_dirty := False, ed_remote := False\<rparr>"
    have "editor_init e = Some (ok2, if ok2 then ?e4 else e3)"
      using c s e3(1) by (simp add: editor_init_def Let_def editor_cleanup_eq [OF assms])
    moreover have "ok2 \<longrightarrow> doc ?e4 [[]]"
    proof
      assume ok2
      show "doc ?e4 [[]]" by (rule docI [of _ "[ln]"]) (use e3 \<open>ok2\<close> in \<open>simp_all add: rows_def\<close>)
    qed
    moreover have "clipboard e3 = None" using buf_onlyD(15) [OF e3(4)] by simp
    ultimately show ?thesis using that [of ok2 "if ok2 then ?e4 else e3"] e3(6) mal(2) by simp
  qed
qed

text \<open>While a file is loaded: the rows so far, then one row that is still empty.\<close>

definition loading :: "editor \<Rightarrow> string list \<Rightarrow> bool" where
  "loading e t \<longleftrightarrow> (\<exists>Ls ln. rows e (Ls @ [ln]) \<and> row_count e = int (length Ls + 1) \<and> list_all2 line_rep Ls t
     \<and> line_rep0 ln [])"

lemma loading_start: "doc e [[]] \<Longrightarrow> loading e []"
  unfolding loading_def doc_def
  by (auto simp: list_all2_Cons2 intro!: exI [of _ "[]"] rep_rep0)

lemma load_line_loading:
  assumes "loading e t"
  obtains ok e' where "editor_load_line (map Some s @ Some NUL # Q) (int (length s)) e = Some (alloc_result ok, e')"
    and "ok \<longrightarrow> loading e' (t @ [s])" and "buf_only e e'" and "heap e = [] \<longrightarrow> ok \<and> heap e' = []"
proof -
  obtain Ls ln where L: "rows e (Ls @ [ln])" "row_count e = int (length Ls + 1)" "list_all2 line_rep Ls t" "line_rep0 ln []"
    using assms by (auto simp: loading_def)
  let ?f = "line_put (int (length s)) 0 (Some (map Some s @ Some NUL # Q)) 0 (int (length s))"
  have op: "line_op ?f [] s"
    using line_put_op [of 0 "[]" "map Some s @ Some NUL # Q" "[]" s Q "int (length s)" 0 "int (length s)"] by simp
  have i: "row_count e - 1 = int (length Ls)" using L(2) by simp
  obtain ok1 ln1 e1 where e1: "on_line (row_count e - 1) ?f e = Some (ok1, e1)" "rows e1 (Ls @ [ln1])"
    "ok1 \<longrightarrow> line_rep ln1 s" "buf_only e e1" "row_count e1 = row_count e" "heap e = [] \<longrightarrow> ok1 \<and> heap e1 = []"
    by (rule rows_on_line [OF L(1) i op L(4)]) blast
  show ?thesis
  proof (cases ok1)
    case False
    have "editor_load_line (map Some s @ Some NUL # Q) (int (length s)) e = Some (alloc_result False, e1)"
      using e1(1) False by (simp add: editor_load_line_def alloc_result_def)
    then show ?thesis using that [of False e1] e1 False by simp
  next
    case True
    have pre: "row_count e1 = int (length (Ls @ [ln1]))" "Ls @ [ln1] \<noteq> []" "int (length (Ls @ [ln1])) \<le> row_count e1 + 1"
      using e1(5) L(2) by simp_all
    obtain ok2 e2 where e2: "lines_ensure_cap (row_count e1 + 1) e1 = Some (ok2, e2)" "rows e2 (Ls @ [ln1])" "buf_only e1 e2"
      "row_count e2 = row_count e1" "ok2 \<longrightarrow> row_count e1 + 1 < row_cap e2" "heap e1 = [] \<longrightarrow> ok2 \<and> heap e2 = []"
      by (rule rows_ensure_cap [OF e1(2) pre])
    show ?thesis
    proof (cases ok2)
      case False
      have "editor_load_line (map Some s @ Some NUL # Q) (int (length s)) e = Some (alloc_result False, e2)"
        using e1(1) e2(1) True False by (simp add: editor_load_line_def alloc_result_def)
      then show ?thesis using that [of False e2] e1(4,6) e2(3,6) False buf_only_trans [OF e1(4) e2(3)] by auto
    next
      case ok2: True
      obtain J where J: "lines e2 = Some (map Some (Ls @ [ln1]) @ J)" "row_cap e2 = int (length (Ls @ [ln1])) + int (length J)"
        using e2(2) by (auto simp: rows_def)
      then obtain z J' where z: "J = z # J'" using e2(4,5) ok2 e1(5) L(2) by (cases J) auto
      let ?e3 = "e2\<lparr>lines := Some (map Some (Ls @ [ln1]) @ Some null_line # J')\<rparr>"
      have s: "set_line (row_count e2) null_line e2 = Some ?e3"
        using J(1) z e2(4) e1(5) L(2) awrite_split [of "row_count e2" "map Some (Ls @ [ln1])" z J' null_line]
        by (simp add: set_line_def)
      let ?e = "?e3\<lparr>row_count := row_count ?e3 + 1\<rparr>"
      have "editor_load_line (map Some s @ Some NUL # Q) (int (length s)) e = Some (alloc_result True, ?e)"
        using e1(1) e2(1) True ok2 s by (simp add: editor_load_line_def alloc_result_def)
      moreover have "loading ?e (t @ [s])"
      proof -
        have "rows ?e ((Ls @ [ln1]) @ [null_line])" using J z unfolding rows_def by (intro exI [of _ J']) simp
        moreover have "list_all2 line_rep (Ls @ [ln1]) (t @ [s])" using L(3) e1(3) True by (simp add: list_all2_appendI)
        ultimately show ?thesis unfolding loading_def using e2(4) e1(5) L(2)
          by (intro exI [of _ "Ls @ [ln1]"] exI [of _ null_line]) simp
      qed
      moreover have "buf_only e ?e" using buf_only_trans [OF e1(4) e2(3)] by simp
      ultimately show ?thesis using that [of True ?e] e1(6) e2(6) by simp
    qed
  qed
qed

lemma load_finalize_doc:
  assumes "loading e t" and "t \<noteq> []"
  obtains e' where "editor_load_finalize e = Some e'" and "doc e' t" and "buf_only e e'" and "heap e' = heap e"
proof -
  obtain Ls ln where L: "rows e (Ls @ [ln])" "row_count e = int (length Ls + 1)" "list_all2 line_rep Ls t" "line_rep0 ln []"
    using assms by (auto simp: loading_def)
  have ne: "Ls \<noteq> []" using L(3) assms(2) by auto
  have at: "line_at e (row_count e - 1) = Some ln" by (rule rows_line_at [OF L(1)]) (use L(2) in simp)
  have "ln_len ln = 0" using L(4) by (auto simp: line_rep0_def line_rep_def null_line_def)
  then have "editor_load_finalize e = Some (e\<lparr>row_count := row_count e - 1\<rparr>)"
    using at L(2) ne by (simp add: editor_load_finalize_def)
  moreover have "doc (e\<lparr>row_count := row_count e - 1\<rparr>) t"
  proof (rule docI [of _ Ls])
    obtain J where "lines e = Some (map Some Ls @ Some ln # J)" "row_cap e = int (length Ls) + 1 + int (length J)"
      using L(1) by (auto simp: rows_def)
    then show "rows (e\<lparr>row_count := row_count e - 1\<rparr>) Ls" unfolding rows_def by (intro exI [of _ "Some ln # J"]) simp
  qed (use L ne in simp_all)
  ultimately show ?thesis using that by simp
qed

end
