(* ===== verification/EditorProps.thy ===== *)
theory EditorProps
  imports EditorSync
begin

text \<open>
  The properties of the text buffer, on the gap abstraction of \<open>EditorGap\<close>, with the editors
  obtained by typing a string into a new editor as their instances.
\<close>

definition new_editor :: editor where
  "new_editor = snd (the (editor_init (editor0 [])))"

fun type_string :: "string \<Rightarrow> editor \<Rightarrow> editor option" where
  "type_string [] e = Some e"
| "type_string (c # s) e = do { (_, e) \<leftarrow> editor_insert_char c e; type_string s e }"

fun backspaces :: "nat \<Rightarrow> editor \<Rightarrow> editor option" where
  "backspaces 0 e = Some e"
| "backspaces (Suc n) e = do { (_, e) \<leftarrow> editor_delete_char e; backspaces n e }"

definition typed :: "string \<Rightarrow> editor" where
  "typed s = the (type_string s new_editor)"

lemma gap_new_editor: "gap new_editor [] [] \<and> heap new_editor = [] \<and> doc new_editor [[]]"
proof -
  have "init_ready (editor0 [])" by (simp add: init_ready_def editor0_def)
  then obtain ok e where e: "editor_init (editor0 []) = Some (ok, e)"
    "ok \<longrightarrow> doc e [[]] \<and> cursor_row e = 0 \<and> cursor_col e = 0 \<and> scroll_row e = 0 \<and> scroll_col e = 0
      \<and> \<not> sel_active e \<and> clipboard e = None" "heap (editor0 []) = [] \<longrightarrow> ok \<and> heap e = []"
    by (rule editor_init_doc)
  have "gap e [] []" using e by (intro gapI [of _ "[]" "[]" "[]" "[]"]) (simp_all add: editor0_def)
  then show ?thesis using e by (simp add: new_editor_def editor0_def)
qed

lemma gap_type_string:
  assumes "gap e b a" and "NUL \<notin> set s" and "heap e = []"
  shows "\<exists>e'. type_string s e = Some e' \<and> gap e' (b @ s) a \<and> heap e' = []"
  using assms
proof (induction s arbitrary: e b)
  case (Cons c s)
  obtain ok e1 where "editor_insert_char c e = Some (alloc_result ok, e1)" "ok \<longrightarrow> gap e1 (b @ [c]) a"
    "heap e = [] \<longrightarrow> ok \<and> heap e1 = []"
    by (rule gap_insert [OF Cons.prems(1), of c]) (use Cons.prems in auto)
  with Cons.prems Cons.IH [of e1 "b @ [c]"] show ?case by auto
qed simp

lemma gap_backspaces:
  assumes "gap e (b @ s) a" and "heap e = []"
  shows "\<exists>e'. backspaces (length s) e = Some e' \<and> gap e' b a \<and> heap e' = []"
  using assms
proof (induction s arbitrary: e rule: rev_induct)
  case (snoc c s)
  obtain ok e1 where "editor_delete_char e = Some (alloc_result ok, e1)" "ok \<longrightarrow> gap e1 (butlast (b @ s @ [c])) a"
    "heap e = [] \<longrightarrow> ok \<and> heap e1 = []"
    by (rule gap_delete [OF snoc.prems(1)]) blast
  with snoc.prems snoc.IH [of e1] show ?case by (auto simp: butlast_append)
qed simp

lemma gap_typed: "NUL \<notin> set s \<Longrightarrow> gap (typed s) s [] \<and> heap (typed s) = []"
  using gap_type_string [of new_editor "[]" "[]" s] gap_new_editor by (auto simp: typed_def)

lemmas gap_ab = gap_typed [of "''a b''", simplified]

section \<open>Editing\<close>

text \<open>C1: Typing a character, line breaks included, inserts it before the gap and never leaves the
  buffers, whatever their capacities; a failed allocation is reported and, for a character other
  than a line break, leaves the text as it was.\<close>

theorem insert_char_refines:
  assumes "gap e b a" and "c \<noteq> NUL"
  shows "\<exists>ok e'. editor_insert_char c e = Some (alloc_result ok, e') \<and> (ok \<longrightarrow> gap e' (b @ [c]) a)
    \<and> (c \<noteq> NL \<and> \<not> ok \<longrightarrow> gap e' b a) \<and> (heap e = [] \<longrightarrow> ok \<and> heap e' = [])"
  by (rule gap_insert [OF assms]) blast

lemma insert_char_refines_witness:
  "\<exists>ok e'. editor_insert_char NL (typed ''a b'') = Some (alloc_result ok, e') \<and> gap e' (''a b'' @ [NL]) []"
  using insert_char_refines [of "typed ''a b''" "''a b''" "[]" NL] gap_ab by auto

text \<open>C12: Backspace removes the character before the gap, joining two rows when it is a line break;
  a failed allocation leaves the text as it was.\<close>

theorem delete_char_refines:
  assumes "gap e b a"
  shows "\<exists>ok e'. editor_delete_char e = Some (alloc_result ok, e') \<and> (ok \<longrightarrow> gap e' (butlast b) a)
    \<and> (\<not> ok \<longrightarrow> gap e' b a) \<and> (heap e = [] \<longrightarrow> ok \<and> heap e' = [])"
  by (rule gap_delete [OF assms]) blast

lemma delete_char_refines_witness:
  "\<exists>ok e'. editor_delete_char (typed ''a b'') = Some (alloc_result ok, e') \<and> gap e' ''a '' []"
  using delete_char_refines [of "typed ''a b''" "''a b''" "[]"] gap_ab by auto

text \<open>As many backspaces as characters were typed restore the text.\<close>

theorem backspaces_undo_typing:
  assumes "gap e b a" and "NUL \<notin> set s" and "heap e = []"
  shows "\<exists>e' e''. type_string s e = Some e' \<and> backspaces (length s) e' = Some e'' \<and> gap e'' b a"
proof -
  obtain e' where e': "type_string s e = Some e'" "gap e' (b @ s) a" "heap e' = []"
    using gap_type_string [OF assms] by blast
  obtain e'' where "backspaces (length s) e' = Some e''" "gap e'' b a"
    using gap_backspaces [OF e'(2,3)] by blast
  with e'(1) show ?thesis by blast
qed

lemma backspaces_undo_typing_witness:
  "\<exists>e' e''. type_string [CHR ''x'', NL] (typed ''a b'') = Some e' \<and> backspaces 2 e' = Some e'' \<and> gap e'' ''a b'' []"
  using backspaces_undo_typing [of "typed ''a b''" "''a b''" "[]" "[CHR ''x'', NL]"] gap_ab
  by (simp add: numeral_2_eq_2 del: type_string.simps backspaces.simps)

text \<open>Ctrl+Backspace removes the spaces before the gap and the word before them, within the row.\<close>

theorem delete_word_refines:
  assumes "gap e b a"
  shows "\<exists>e'. editor_delete_word e = Some (EDITOR_OK, e') \<and> gap e' (cut_word b) a"
  by (rule gap_delete_word [OF assms]) blast

lemma delete_word_refines_witness:
  "\<exists>e'. editor_delete_word (typed ''a b'') = Some (EDITOR_OK, e') \<and> gap e' ''a '' []"
  using delete_word_refines [of "typed ''a b''" "''a b''" "[]"] gap_ab
  by (simp add: cut_word_def strip_end_def)

section \<open>Moving\<close>

text \<open>C32: The left and right arrows slide the gap by one character, across line breaks, and do
  nothing at the ends of the text; only the cursor and the scroll position change.\<close>

theorem arrows_slide:
  assumes "gap e b a"
  shows "(b \<noteq> [] \<longrightarrow> slide editor_move_left e (butlast b) (last b # a)) \<and> (b = [] \<longrightarrow> slide editor_move_left e b a)
    \<and> (a \<noteq> [] \<longrightarrow> slide editor_move_right e (b @ [hd a]) (tl a)) \<and> (a = [] \<longrightarrow> slide editor_move_right e b a)"
proof (intro conjI impI)
  assume "b \<noteq> []"
  then show "slide editor_move_left e (butlast b) (last b # a)"
    using assms move_left_back [of e "butlast b" "last b" a] by simp
next
  assume "a \<noteq> []"
  then show "slide editor_move_right e (b @ [hd a]) (tl a)"
    using assms move_right_on [of e b "hd a" "tl a"] by simp
qed (use assms move_left_start [of e a] move_right_end [of e b] in auto)

lemma arrows_slide_witness:
  "slide editor_move_left (typed ''a b'') ''a '' ''b'' \<and> slide editor_move_right (typed ''a b'') ''a b'' []"
  using arrows_slide [of "typed ''a b''" "''a b''" "[]"] gap_ab by auto

text \<open>Word-wise movement, Home and End slide the gap to the start of the word before it, past the
  next word and its spaces, and to the ends of the row.\<close>

theorem word_and_row_moves_slide:
  assumes "gap e b a"
  shows "(\<exists>m. b = cut_word b @ m \<and> slide editor_move_word_left e (cut_word b) (m @ a))
    \<and> (\<exists>a'. a = next_word a @ a' \<and> slide editor_move_word_right e (b @ next_word a) a')
    \<and> (\<exists>b' m. b = b' @ m \<and> NL \<notin> set m \<and> (b' = [] \<or> last b' = NL) \<and> gap (editor_move_home e) b' (m @ a))
    \<and> (\<exists>m a'. a = m @ a' \<and> NL \<notin> set m \<and> (a' = [] \<or> hd a' = NL) \<and> slide editor_move_end e (b @ m) a')"
  by (intro conjI move_word_left_slide move_word_right_slide move_home_slide move_end_slide assms)

lemma word_and_row_moves_slide_witness: "\<exists>m. slide editor_move_word_left (typed ''a b'') ''a '' m"
proof -
  obtain m where "slide editor_move_word_left (typed ''a b'') (cut_word ''a b'') (m @ [])"
    using word_and_row_moves_slide [of "typed ''a b''" "''a b''" "[]"] gap_ab by blast
  then show ?thesis by (auto simp: cut_word_def strip_end_def)
qed

lemma set_cursor_doc:
  assumes "doc e t"
  shows "\<exists>e'. editor_set_cursor row col e = Some e' \<and>
    (if row = remote_cursor_row e then e' = e
     else cursor_only e e' \<and> cursor_row e' = max 0 (min row (int (length t) - 1))
       \<and> cursor_col e' = max 0 (min col (int (length (t ! nat (cursor_row e')))))
       \<and> (0 < visible_rows e \<and> 0 < visible_cols e \<longrightarrow> cursor_visible e'))"
proof (cases "row = remote_cursor_row e")
  case True
  then show ?thesis by (simp add: editor_set_cursor_def)
next
  case False
  let ?r = "max 0 (min row (int (length t) - 1))"
  have n: "0 < length t" using doc_nonempty [OF assms] by simp
  then have r: "nat ?r < length t" by linarith
  then have "t = take (nat ?r) t @ t ! nat ?r # drop (Suc (nat ?r)) t" by (rule id_take_nth_drop)
  with assms have d: "doc e (take (nat ?r) t @ t ! nat ?r # drop (Suc (nat ?r)) t)" by metis
  obtain ln where ln: "line_at e ?r = Some ln" "line_rep ln (t ! nat ?r)"
    by (rule doc_line_at [OF d, of ?r]) (use r in auto)
  let ?c = "max 0 (min col (int (length (t ! nat ?r))))"
  have row: "(if row_count e \<le> (if row < 0 then 0 else row) then row_count e - 1 else if row < 0 then 0 else row) = ?r"
    using doc_row_count [OF assms] n by auto
  have col: "(if ln_len ln < (if col < 0 then 0 else col) then ln_len ln else if col < 0 then 0 else col) = ?c"
    using ln(2) by (auto simp: line_rep_def)
  have nr: "remote_cursor_row e \<noteq> row" using False by simp
  have "editor_set_cursor row col e = Some (clamp_scroll (e\<lparr>cursor_row := ?r, cursor_col := ?c\<rparr>))"
    unfolding editor_set_cursor_def Let_def row ln(1) if_not_P [OF nr] Option.bind.bind_lunit col by (rule refl)
  then show ?thesis
    by (rule ssubst) (use False in \<open>simp add: clamp_scroll_visible\<close>)
qed

text \<open>C33: Placing the cursor, as a mouse click does, clamps the position into the text and brings it
  into view; the row the remote peer is on is refused.\<close>

theorem set_cursor_in_text:
  assumes "doc e t"
  shows "\<exists>e'. editor_set_cursor row col e = Some e' \<and>
    (if row = remote_cursor_row e then e' = e
     else cursor_only e e' \<and> cursor_row e' = max 0 (min row (int (length t) - 1))
       \<and> cursor_col e' = max 0 (min col (int (length (t ! nat (cursor_row e')))))
       \<and> (0 < visible_rows e \<and> 0 < visible_cols e \<longrightarrow> cursor_visible e'))"
  by (rule set_cursor_doc [OF assms])

lemma set_cursor_in_text_witness: "\<exists>e'. editor_set_cursor 7 7 new_editor = Some e'"
  using set_cursor_in_text [of new_editor "[[]]" 7 7] gap_new_editor by auto

section \<open>Selection and clipboard\<close>

lemma anchor_here: "gap e b a \<Longrightarrow> anchored (editor_sel_set_anchor e) b a \<and> gap (editor_sel_set_anchor e) b a"
  unfolding gap_def anchored_def editor_sel_set_anchor_def by auto

lemma slide_anchor:
  assumes "slide f e b' a'" and "anchored e b a" and "sel_active e" and "heap e = []"
  obtains e' where "f e = Some e'" and "gap e' b' a'" and "anchored e' b a" and "sel_active e'" and "heap e' = []"
proof -
  obtain e' where e': "f e = Some e'" "cursor_only e e'" "gap e' b' a'" using assms(1) by (auto simp: slide_def)
  have "anchored e' b a" using assms(2) cursor_only_doc [OF e'(2)] e'(2)
    by (auto simp: anchored_def cursor_only_def)
  then show ?thesis using that e' assms(3,4) by (simp add: cursor_only_def)
qed

text \<open>The typed text \<open>a b\<close> with its last character selected backwards, for the witnesses.\<close>

definition selected :: editor where
  "selected = the (editor_move_left (editor_sel_set_anchor (typed ''a b'')))"

lemma selected_b:
  "gap selected ''a '' ''b'' \<and> anchored selected ''a b'' [] \<and> sel_active selected \<and> heap selected = []"
proof -
  let ?e = "editor_sel_set_anchor (typed ''a b'')"
  have a: "anchored ?e ''a b'' []" and g: "gap ?e (''a '' @ ''b'') []"
    using anchor_here gap_ab by auto
  have s: "slide editor_move_left ?e ''a '' [CHR ''b'']"
    by (rule move_left_back) (use g in simp)
  have "sel_active ?e" "heap ?e = []" using gap_ab by (simp_all add: editor_sel_set_anchor_def)
  then obtain e' where "editor_move_left ?e = Some e'" "gap e' ''a '' [CHR ''b'']" "anchored e' ''a b'' []" "sel_active e'" "heap e' = []"
    using slide_anchor [OF s a] by metis
  then show ?thesis by (simp add: selected_def)
qed

lemma sel_range_between:
  assumes "gap e b1 a1" and "anchored e b2 a2"
    and "sel_range e (if length b2 \<le> length b1 then b2 else b1) m (if length b2 \<le> length b1 then a1 else a2)"
  shows "if length b2 \<le> length b1 then b1 = b2 @ m \<and> a2 = m @ a1 else b2 = b1 @ m \<and> a1 = m @ a2"
proof -
  let ?b = "if length b2 \<le> length b1 then b2 else b1" and ?a = "if length b2 \<le> length b1 then a1 else a2"
  obtain t where t: "doc e t" "at_pos t (cursor_row e) (cursor_col e) b1 a1" using assms(1) by (auto simp: gap_def)
  obtain u where u: "doc e u" "at_pos u (sel_anchor_row e) (sel_anchor_col e) b2 a2" using assms(2) by (auto simp: anchored_def)
  have "t = u" by (rule doc_unique [OF t(1) u(1)])
  then have eq: "b1 @ a1 = b2 @ a2" using at_pos_text [OF t(2)] at_pos_text [OF u(2)] by simp
  have flat: "?b @ m @ ?a = b1 @ a1" using sel_range_text [OF assms(3) t(1)] at_pos_text [OF t(2)] by simp
  show ?thesis
  proof (cases "length b2 \<le> length b1")
    case True
    then have "(b2 @ m) @ a1 = b1 @ a1" using flat by simp
    then have "b1 = b2 @ m" by (simp only: append_same_eq)
    with True eq show ?thesis by simp
  next
    case False
    then have f: "b1 @ m @ a2 = b1 @ a1" using flat by simp
    then have "a1 = m @ a2" by simp
    with False eq show ?thesis by simp
  qed
qed

lemma copy_then_delete:
  assumes "gap e b1 a1" and "anchored e b2 a2" and "sel_active e" and "heap e = []"
  shows "\<exists>m e' e''. (if length b2 \<le> length b1 then b1 = b2 @ m \<and> a2 = m @ a1 else b2 = b1 @ m \<and> a1 = m @ a2)
    \<and> editor_copy_selection e = Some e' \<and> e' = e\<lparr>clipboard := Some (map Some m @ [Some NUL])\<rparr>
    \<and> editor_delete_selection e' = Some (EDITOR_OK, e'')
    \<and> gap e'' (if length b2 \<le> length b1 then b2 else b1) (if length b2 \<le> length b1 then a1 else a2)
    \<and> clipboard e'' = clipboard e' \<and> heap e'' = []"
proof -
  let ?b = "if length b2 \<le> length b1 then b2 else b1" and ?a = "if length b2 \<le> length b1 then a1 else a2"
  obtain m where m: "sel_range e ?b m ?a" using sel_rangeI [OF assms(1,2)] by blast
  obtain ok h where c: "editor_copy_selection e = Some (e\<lparr>clipboard := (if ok then Some (map Some m @ [Some NUL]) else None), heap := h\<rparr>)"
    "heap e = [] \<longrightarrow> ok \<and> h = []" by (rule copy_range [OF m assms(3)])
  let ?e = "e\<lparr>clipboard := Some (map Some m @ [Some NUL])\<rparr>"
  have "e\<lparr>clipboard := Some (map Some m @ [Some NUL]), heap := []\<rparr> = ?e" using assms(4) by (cases e) simp
  then have c': "editor_copy_selection e = Some ?e" using c assms(4) by simp
  have rng: "editor_sel_get_range ?e = editor_sel_get_range e" by (simp add: editor_sel_get_range_def)
  have "sel_range ?e ?b m ?a" using m unfolding sel_range_def rng by (simp only: doc_upd)
  moreover have "sel_active ?e" using assms(3) by simp
  ultimately obtain ok2 e'' where d: "editor_delete_selection ?e = Some (alloc_result ok2, e'')"
    "ok2 \<longrightarrow> gap e'' ?b ?a \<and> \<not> sel_active e''" "\<not> ok2 \<longrightarrow> buf_only ?e e'' \<and> sel_range e'' ?b m ?a"
    "clipboard e'' = clipboard ?e" "heap ?e = [] \<longrightarrow> ok2 \<and> heap e'' = []" by (rule delete_range)
  have "if length b2 \<le> length b1 then b1 = b2 @ m \<and> a2 = m @ a1 else b2 = b1 @ m \<and> a1 = m @ a2"
    using sel_range_between [OF assms(1,2) m] .
  then show ?thesis using c' d assms(4) by (intro exI [of _ m] exI [of _ ?e] exI [of _ e'']) (simp add: alloc_result_def)
qed

text \<open>C15: Copying puts the text between the anchor and the cursor on the clipboard, terminated, and
  changes nothing else; deleting the selection removes exactly that text.\<close>

theorem selection_is_text_between:
  assumes "gap e b1 a1" and "anchored e b2 a2" and "sel_active e" and "heap e = []"
  shows "\<exists>m e' e''. (if length b2 \<le> length b1 then b1 = b2 @ m \<and> a2 = m @ a1 else b2 = b1 @ m \<and> a1 = m @ a2)
    \<and> editor_copy_selection e = Some e' \<and> e' = e\<lparr>clipboard := Some (map Some m @ [Some NUL])\<rparr>
    \<and> editor_delete_selection e' = Some (EDITOR_OK, e'')
    \<and> gap e'' (if length b2 \<le> length b1 then b2 else b1) (if length b2 \<le> length b1 then a1 else a2)
    \<and> clipboard e'' = clipboard e' \<and> heap e'' = []"
  by (rule copy_then_delete [OF assms])

lemma selection_is_text_between_witness:
  "\<exists>e' e''. editor_copy_selection selected = Some e' \<and> clipboard e' = Some [Some (CHR ''b''), Some NUL]
     \<and> editor_delete_selection e' = Some (EDITOR_OK, e'') \<and> gap e'' ''a '' []"
  using selection_is_text_between [of selected "''a ''" "''b''" "''a b''" "[]"] selected_b by auto

text \<open>C13: Pasting inserts the clipboard before the gap, its line breaks splitting rows, and keeps the
  clipboard.\<close>

theorem paste_inserts_clipboard:
  assumes "gap e b a" and "clipboard e = Some (map Some s @ Some NUL # J)" and "NUL \<notin> set s" and "heap e = []"
  shows "\<exists>e'. editor_paste e = Some (EDITOR_OK, e') \<and> gap e' (b @ s) a \<and> clipboard e' = clipboard e"
proof -
  obtain ok e' where "editor_paste e = Some (alloc_result ok, e')" "ok \<longrightarrow> gap e' (b @ s) a"
    "clipboard e' = clipboard e" "heap e = [] \<longrightarrow> ok \<and> heap e' = []" by (rule gap_paste [OF assms(1-3)])
  with assms(4) show ?thesis by (auto simp: alloc_result_def)
qed

lemma paste_inserts_clipboard_witness:
  "\<exists>e'. editor_paste ((typed ''a b'')\<lparr>clipboard := Some [Some (CHR ''x''), Some NL, Some NUL]\<rparr>) = Some (EDITOR_OK, e')
     \<and> gap e' (''a bx'' @ [NL]) []"
proof -
  have "gap ((typed ''a b'')\<lparr>clipboard := Some [Some (CHR ''x''), Some NL, Some NUL]\<rparr>) ''a b'' []"
    using gap_ab by (simp add: gap_def)
  then show ?thesis
    using paste_inserts_clipboard [of "(typed ''a b'')\<lparr>clipboard := Some [Some (CHR ''x''), Some NL, Some NUL]\<rparr>"
        "''a b''" "[]" "[CHR ''x'', NL]" "[]"] gap_ab by auto
qed

text \<open>C14: Cutting the selection and pasting it at once gives back the same text, with the cursor at the
  end of what was selected.\<close>

theorem cut_paste_roundtrip:
  assumes "gap e b1 a1" and "anchored e b2 a2" and "sel_active e" and "heap e = []"
  shows "\<exists>e1 e2 e3. editor_copy_selection e = Some e1 \<and> editor_delete_selection e1 = Some (EDITOR_OK, e2)
    \<and> editor_paste e2 = Some (EDITOR_OK, e3)
    \<and> gap e3 (if length b2 \<le> length b1 then b1 else b2) (if length b2 \<le> length b1 then a1 else a2)"
proof -
  obtain m' e1 e2 where e: "if length b2 \<le> length b1 then b1 = b2 @ m' \<and> a2 = m' @ a1 else b2 = b1 @ m' \<and> a1 = m' @ a2"
    "editor_copy_selection e = Some e1" "e1 = e\<lparr>clipboard := Some (map Some m' @ [Some NUL])\<rparr>"
    "editor_delete_selection e1 = Some (EDITOR_OK, e2)"
    "gap e2 (if length b2 \<le> length b1 then b2 else b1) (if length b2 \<le> length b1 then a1 else a2)"
    "clipboard e2 = clipboard e1" "heap e2 = []"
    using copy_then_delete [OF assms] by blast
  have "NUL \<notin> set m'"
    using gap_no_NUL [OF assms(1)] anchored_no_NUL [OF assms(1,2)] e(1) by (auto split: if_splits)
  moreover have "clipboard e2 = Some (map Some m' @ Some NUL # [])" using e(3,6) by simp
  ultimately obtain ok e3 where "editor_paste e2 = Some (alloc_result ok, e3)"
    "ok \<longrightarrow> gap e3 ((if length b2 \<le> length b1 then b2 else b1) @ m') (if length b2 \<le> length b1 then a1 else a2)"
    "heap e2 = [] \<longrightarrow> ok \<and> heap e3 = []"
    using gap_paste [OF e(5)] by metis
  then show ?thesis using e by (auto simp: alloc_result_def split: if_splits)
qed

lemma cut_paste_roundtrip_witness:
  "\<exists>e1 e2 e3. editor_copy_selection selected = Some e1 \<and> editor_delete_selection e1 = Some (EDITOR_OK, e2)
    \<and> editor_paste e2 = Some (EDITOR_OK, e3) \<and> gap e3 ''a b'' []"
  using cut_paste_roundtrip [of selected "''a ''" "''b''" "''a b''" "[]"] selected_b by auto

section \<open>The peer's edits\<close>

text \<open>The editors of the two peers on the text \<open>a b\<close>: the second one shows the first one's cursor.\<close>

definition peer :: editor where
  "peer = (typed ''a b'')\<lparr>remote_cursor_row := 0, remote_cursor_col := 3\<rparr>"

lemma peer_ab: "remote_gap peer ''a b'' [] \<and> heap peer = []"
proof -
  obtain t where t: "doc (typed ''a b'') t" "clean t"
    and p: "at_pos t (cursor_row (typed ''a b'')) (cursor_col (typed ''a b'')) ''a b'' []"
    using gap_ab unfolding gap_def by blast
  have "at_pos [''a b''] 0 3 ''a b'' []" unfolding at_pos_def
    by (rule exI [of _ "[]"], rule exI [of _ "''a b''"], rule exI [of _ "[]"], rule exI [of _ "[]"]) simp
  moreover from at_pos_unique [OF p this t(2)] have "t = [''a b'']" by simp
  ultimately show ?thesis using t gap_ab unfolding remote_gap_def peer_def by (auto intro!: exI [of _ t])
qed

text \<open>An edit at the cursor of one editor and the same edit at the remote cursor of the peer's
  editor, at the same place of the same text, leave the two with equal rows and the remote cursor
  again where the cursor is.\<close>

theorem peers_stay_equal:
  assumes "gap e b a" and "remote_gap f b a" and "c \<noteq> NUL" and "heap e = []" and "heap f = []"
  shows "(\<exists>e' f'. editor_insert_char c e = Some (EDITOR_OK, e') \<and> editor_remote_insert_char c f = Some (EDITOR_OK, f')
      \<and> gap e' (b @ [c]) a \<and> remote_gap f' (b @ [c]) a
      \<and> (\<exists>t. doc e' t \<and> doc f' t \<and> cursor_row e' = remote_cursor_row f' \<and> cursor_col e' = remote_cursor_col f'))
    \<and> (\<exists>e' f'. editor_delete_char e = Some (EDITOR_OK, e') \<and> editor_remote_delete_char f = Some (EDITOR_OK, f')
      \<and> gap e' (butlast b) a \<and> remote_gap f' (butlast b) a
      \<and> (\<exists>t. doc e' t \<and> doc f' t \<and> cursor_row e' = remote_cursor_row f' \<and> cursor_col e' = remote_cursor_col f'))"
proof (rule conjI)
  obtain ok e' where "editor_insert_char c e = Some (alloc_result ok, e')" "ok \<longrightarrow> gap e' (b @ [c]) a" "heap e = [] \<longrightarrow> ok \<and> heap e' = []"
    by (rule gap_insert [OF assms(1,3)])
  moreover obtain ok f' where "editor_remote_insert_char c f = Some (alloc_result ok, f')" "ok \<longrightarrow> remote_gap f' (b @ [c]) a" "heap f = [] \<longrightarrow> ok \<and> heap f' = []"
    by (rule remote_gap_insert [OF assms(2,3)])
  ultimately show "\<exists>e' f'. editor_insert_char c e = Some (EDITOR_OK, e') \<and> editor_remote_insert_char c f = Some (EDITOR_OK, f')
      \<and> gap e' (b @ [c]) a \<and> remote_gap f' (b @ [c]) a
      \<and> (\<exists>t. doc e' t \<and> doc f' t \<and> cursor_row e' = remote_cursor_row f' \<and> cursor_col e' = remote_cursor_col f')"
    using assms(4,5) mirrored by (auto simp: alloc_result_def)
next
  obtain ok e' where "editor_delete_char e = Some (alloc_result ok, e')" "ok \<longrightarrow> gap e' (butlast b) a" "heap e = [] \<longrightarrow> ok \<and> heap e' = []"
    by (rule gap_delete [OF assms(1)]) blast
  moreover obtain ok f' where "editor_remote_delete_char f = Some (alloc_result ok, f')" "ok \<longrightarrow> remote_gap f' (butlast b) a" "heap f = [] \<longrightarrow> ok \<and> heap f' = []"
    by (rule remote_gap_delete [OF assms(2)])
  ultimately show "\<exists>e' f'. editor_delete_char e = Some (EDITOR_OK, e') \<and> editor_remote_delete_char f = Some (EDITOR_OK, f')
      \<and> gap e' (butlast b) a \<and> remote_gap f' (butlast b) a
      \<and> (\<exists>t. doc e' t \<and> doc f' t \<and> cursor_row e' = remote_cursor_row f' \<and> cursor_col e' = remote_cursor_col f')"
    using assms(4,5) mirrored by (auto simp: alloc_result_def)
qed

lemma peers_stay_equal_witness:
  "\<exists>e' f' t. editor_insert_char NL (typed ''a b'') = Some (EDITOR_OK, e')
     \<and> editor_remote_insert_char NL peer = Some (EDITOR_OK, f') \<and> doc e' t \<and> doc f' t"
  using peers_stay_equal [of "typed ''a b''" "''a b''" "[]" peer NL] gap_ab peer_ab by auto

text \<open>C34: A remote insertion on another row than the cursor's leaves the cursor at its place in the
  text: what is before and after it changes by exactly the inserted character.\<close>

theorem remote_insert_keeps_place:
  assumes "gap e b a" and "remote_gap e rb ra" and "cursor_row e \<noteq> remote_cursor_row e" and "c \<noteq> NUL" and "heap e = []"
  shows "\<exists>e'. editor_remote_insert_char c e = Some (EDITOR_OK, e')
    \<and> (if length rb < length b then gap e' (rb @ [c] @ drop (length rb) b) a
       else gap e' b (take (length rb - length b) a @ [c] @ ra))"
proof -
  obtain ok e' where "editor_remote_insert_char c e = Some (alloc_result ok, e')"
    "ok \<longrightarrow> (if length rb < length b then gap e' (rb @ [c] @ drop (length rb) b) a
                 else gap e' b (take (length rb - length b) a @ [c] @ ra))"
    "heap e = [] \<longrightarrow> ok \<and> heap e' = []" by (rule remote_insert_keeps_gap [OF assms(1-4)])
  with assms(5) show ?thesis by (auto simp: alloc_result_def)
qed

lemma remote_insert_keeps_place_witness:
  "\<exists>e'. editor_remote_insert_char CHR ''x'' ((typed [CHR ''a'', NL, CHR ''b''])\<lparr>remote_cursor_row := 0, remote_cursor_col := 0\<rparr>)
      = Some (EDITOR_OK, e') \<and> gap e' [CHR ''x'', CHR ''a'', NL, CHR ''b''] []"
proof -
  let ?s = "[CHR ''a'', NL, CHR ''b'']"
  let ?e = "(typed ?s)\<lparr>remote_cursor_row := 0, remote_cursor_col := 0\<rparr>"
  have g: "gap (typed ?s) ?s []" "heap (typed ?s) = []" using gap_typed [of ?s] by simp_all
  then obtain t where t: "doc (typed ?s) t" "clean t" "at_pos t (cursor_row (typed ?s)) (cursor_col (typed ?s)) ?s []"
    unfolding gap_def by blast
  have p: "at_pos [''a'', ''b''] 1 1 ?s []" "at_pos [''a'', ''b''] 0 0 [] ?s"
    unfolding at_pos_def
    by (rule exI [of _ "[''a'']"], rule exI [of _ "''b''"], rule exI [of _ "[]"], rule exI [of _ "[]"], simp add: above_def)
      (rule exI [of _ "[]"], rule exI [of _ "[]"], rule exI [of _ "''a''"], rule exI [of _ "[''b'']"], simp add: below_def)
  from at_pos_unique [OF t(3) p(1) t(2)] have eq: "t = [''a'', ''b'']" "cursor_row (typed ?s) = 1" by simp_all
  have "gap ?e ?s []" using g by (simp add: gap_def)
  moreover have "remote_gap ?e [] ?s" using t(1,2) p(2) eq by (auto simp: remote_gap_def)
  ultimately show ?thesis
    using remote_insert_keeps_place [of ?e ?s "[]" "[]" ?s "CHR ''x''"] g eq by simp
qed

text \<open>A block replacement followed by one row update per inserted row puts the new rows in the place
  of the old ones, for any number of rows on both sides.\<close>

theorem replace_block_then_rows:
  assumes "doc e (A @ D @ B)" and "A @ N @ B \<noteq> []" and "heap e = []"
  shows "\<exists>e1 e2. editor_remote_replace_block (int (length A)) (int (length D)) (int (length N)) e = Some (EDITOR_OK, e1)
    \<and> update_rows (int (length A)) N e1 = Some (EDITOR_OK, e2) \<and> doc e2 (A @ N @ B)"
proof -
  have n: "length N \<noteq> 0 \<or> A @ B \<noteq> []" using assms(2) by auto
  obtain ok e1 where "editor_remote_replace_block (int (length A)) (int (length D)) (int (length N)) e = Some (alloc_result ok, e1)"
    "ok \<longrightarrow> awaiting e1 A (length N) B" "heap e = [] \<longrightarrow> ok \<and> heap e1 = []"
    by (rule replace_block_awaiting [OF assms(1) n])
  with assms(3) update_rows_awaiting [OF _ assms(2), of e1] show ?thesis by (auto simp: alloc_result_def)
qed

lemma replace_block_then_rows_witness:
  "\<exists>e1 e2. editor_remote_replace_block 0 1 2 new_editor = Some (EDITOR_OK, e1)
    \<and> update_rows 0 [''x'', ''y''] e1 = Some (EDITOR_OK, e2) \<and> doc e2 [''x'', ''y'']"
  using replace_block_then_rows [of new_editor "[]" "[[]]" "[]" "[''x'', ''y'']"] gap_new_editor
  by (simp del: update_rows.simps)

section \<open>Loading\<close>

fun load_lines :: "string list \<Rightarrow> editor \<Rightarrow> (EditorResult \<times> editor) option" where
  "load_lines [] e = Some (EDITOR_OK, e)"
| "load_lines (s # t) e = do {
     (res, e) \<leftarrow> editor_load_line (map Some s @ [Some NUL]) (int (length s)) e;
     if res = EDITOR_OK then load_lines t e else Some (res, e)
   }"

lemma load_lines_loading:
  assumes "loading e t" and "heap e = []"
  shows "\<exists>e'. load_lines u e = Some (EDITOR_OK, e') \<and> loading e' (t @ u) \<and> buf_only e e' \<and> heap e' = []"
  using assms
proof (induction u arbitrary: e t)
  case (Cons s u)
  obtain ok e1 where e1: "editor_load_line (map Some s @ Some NUL # []) (int (length s)) e = Some (alloc_result ok, e1)"
    "ok \<longrightarrow> loading e1 (t @ [s])" "buf_only e e1" "heap e = [] \<longrightarrow> ok \<and> heap e1 = []"
    by (rule load_line_loading [OF Cons.prems(1)])
  then have "loading e1 (t @ [s])" "heap e1 = []" using Cons.prems(2) by auto
  from Cons.IH [OF this] obtain e' where "load_lines u e1 = Some (EDITOR_OK, e')" "loading e' (t @ s # u)" "buf_only e1 e'" "heap e' = []"
    by auto
  then show ?case using e1 Cons.prems(2) buf_only_trans [OF e1(3)] by (auto simp: alloc_result_def)
qed auto

text \<open>C31: Loading the lines of a file into a fresh or used editor and finalising makes them the rows of
  the text, with the cursor at its start and nothing selected.\<close>

theorem load_file_rows:
  assumes "init_ready e" and "t \<noteq> []" and "heap e = []"
  shows "\<exists>e1 e2 e3. editor_init e = Some (True, e1) \<and> load_lines t e1 = Some (EDITOR_OK, e2)
    \<and> editor_load_finalize e2 = Some e3 \<and> doc e3 t \<and> cursor_row e3 = 0 \<and> cursor_col e3 = 0 \<and> \<not> sel_active e3"
proof -
  obtain ok e1 where e1: "editor_init e = Some (ok, e1)"
    "ok \<longrightarrow> doc e1 [[]] \<and> cursor_row e1 = 0 \<and> cursor_col e1 = 0 \<and> scroll_row e1 = 0 \<and> scroll_col e1 = 0
      \<and> \<not> sel_active e1 \<and> clipboard e1 = None" "heap e = [] \<longrightarrow> ok \<and> heap e1 = []"
    by (rule editor_init_doc [OF assms(1)])
  then have d: "doc e1 [[]]" "heap e1 = []" using assms(3) by auto
  obtain e2 where e2: "load_lines t e1 = Some (EDITOR_OK, e2)" "loading e2 t" "buf_only e1 e2"
    using load_lines_loading [OF loading_start [OF d(1)] d(2), of t] by auto
  obtain e3 where e3: "editor_load_finalize e2 = Some e3" "doc e3 t" "buf_only e2 e3"
    by (rule load_finalize_doc [OF e2(2) assms(2)])
  show ?thesis using e1 assms(3) e2(1) e3(1,2) buf_onlyD [OF buf_only_trans [OF e2(3) e3(3)]] by auto
qed

lemma load_file_rows_witness:
  "\<exists>e1 e2 e3. editor_init (typed ''a b'') = Some (True, e1) \<and> load_lines [''x'', [], ''y''] e1 = Some (EDITOR_OK, e2)
    \<and> editor_load_finalize e2 = Some e3 \<and> doc e3 [''x'', [], ''y'']"
proof -
  have "init_ready (typed ''a b'')" using gap_ab by (auto simp: init_ready_def gap_def)
  then show ?thesis using load_file_rows [of "typed ''a b''" "[''x'', [], ''y'']"] gap_ab by blast
qed

text \<open>The up and down arrows go to the row above or below, keeping the column where the row is long
  enough; the row the remote peer is on is refused, and the ends of the text are respected.\<close>

theorem up_down_moves:
  assumes "gap e b a" and "doc e t"
  shows "(\<exists>e'. editor_move_up e = Some e' \<and> cursor_only e e' \<and> (let r = cursor_row e in
      if r = 0 \<or> r - 1 = remote_cursor_row e then cursor_row e' = r \<and> cursor_col e' = cursor_col e
      else cursor_row e' = r - 1 \<and> cursor_col e' = min (cursor_col e) (int (length (t ! nat (r - 1))))))
    \<and> (\<exists>e'. editor_move_down e = Some e' \<and> cursor_only e e' \<and> (let r = cursor_row e in
      if r = int (length t) - 1 \<or> r + 1 = remote_cursor_row e then cursor_row e' = r \<and> cursor_col e' = cursor_col e
      else cursor_row e' = r + 1 \<and> cursor_col e' = min (cursor_col e) (int (length (t ! nat (r + 1))))))"
proof (intro conjI)
  obtain A x y B where g: "doc e (A @ (x @ y) # B)" "cursor_row e = int (length A)"
    by (rule gapE [OF assms(1)])
  have t: "t = A @ (x @ y) # B" by (rule doc_unique [OF assms(2) g(1)])
  have en: "enter_row (e\<lparr>cursor_row := int i\<rparr>) = Some (e\<lparr>cursor_row := int i, cursor_col := min (cursor_col e) (int (length (t ! i)))\<rparr>)"
    if "i < length t" for i
  proof -
    have d: "doc e (take i t @ t ! i # drop (Suc i) t)" using assms(2) that by (simp add: id_take_nth_drop [symmetric])
    have il: "int i = int (length (take i t))" using that by simp
    obtain ln where ln: "line_at e (int i) = Some ln" "line_rep ln (t ! i)"
      by (rule doc_line_at [OF d il])
    moreover have "line_at (e\<lparr>cursor_row := int i\<rparr>) = line_at e" by (simp add: fun_eq_iff line_at_def)
    moreover have "e\<lparr>cursor_row := int i\<rparr> = e\<lparr>cursor_row := int i, cursor_col := cursor_col e\<rparr>" by (cases e) simp
    ultimately show ?thesis by (simp add: enter_row_def line_rep_def min_def)
  qed
  have n: "row_count e = int (length t)" by (rule doc_row_count [OF assms(2)])
  show "\<exists>e'. editor_move_up e = Some e' \<and> cursor_only e e' \<and> (let r = cursor_row e in
      if r = 0 \<or> r - 1 = remote_cursor_row e then cursor_row e' = r \<and> cursor_col e' = cursor_col e
      else cursor_row e' = r - 1 \<and> cursor_col e' = min (cursor_col e) (int (length (t ! nat (r - 1)))))"
  proof (cases A rule: rev_cases)
    case Nil
    then show ?thesis using g(2) by (simp add: editor_move_up_def)
  next
    case (snoc A' s)
    then show ?thesis using g(2) t en [of "length A'"] by (simp add: editor_move_up_def Let_def)
  qed
  show "\<exists>e'. editor_move_down e = Some e' \<and> cursor_only e e' \<and> (let r = cursor_row e in
      if r = int (length t) - 1 \<or> r + 1 = remote_cursor_row e then cursor_row e' = r \<and> cursor_col e' = cursor_col e
      else cursor_row e' = r + 1 \<and> cursor_col e' = min (cursor_col e) (int (length (t ! nat (r + 1)))))"
  proof (cases B)
    case Nil
    then show ?thesis using g(2) t n by (simp add: editor_move_down_def)
  next
    case (Cons s B')
    then show ?thesis using g(2) t n en [of "Suc (length A)"]
      by (simp add: editor_move_down_def Let_def add.commute nat_add_distrib)
  qed
qed

lemma up_down_moves_witness: "\<exists>e'. editor_move_up (typed ''a b'') = Some e' \<and> cursor_only (typed ''a b'') e'"
  using up_down_moves [of "typed ''a b''" "''a b''" "[]"] gap_ab by (auto simp: gap_def)

end
