(* ===== verification/Ports.thy ===== *)
theory Ports
  imports Prelude
begin

text \<open>
  Calls into Minix and their results. The kernel calls (port input and output, delays, interrupt
  policies, standard error) are not part of the sources: they are the record \<open>io\<close>, a parameter of
  every definition that uses them, acting on a state \<open>'w\<close> of the machine. A C function that returns
  0 for success and may deliver a value is a function from \<open>'w\<close> to an optional value and the new
  state; \<open>framework/src/common/utils.c\<close> is modelled here.
\<close>

type_synonym ('a, 'w) call = "'w \<Rightarrow> 'a option \<times> 'w"

record 'w io =
  sys_inb :: "int \<Rightarrow> (u32, 'w) call"
  sys_outb :: "int \<Rightarrow> u32 \<Rightarrow> (unit, 'w) call"
  tickdelay :: "int \<Rightarrow> 'w \<Rightarrow> 'w"
  sys_irqsetpolicy :: "int \<Rightarrow> int \<Rightarrow> int \<Rightarrow> (int, 'w) call"
  sys_irqrmpolicy :: "int \<Rightarrow> (unit, 'w) call"
  print_err :: "string \<Rightarrow> 'w \<Rightarrow> 'w"

text \<open>\<open>if (m (&x) != OK) return e; k\<close>.\<close>

definition on_ok :: "('a, 'w) call \<Rightarrow> ('b, 'w) call \<Rightarrow> ('a \<Rightarrow> ('b, 'w) call) \<Rightarrow> ('b, 'w) call" where
  "on_ok m e k w = (case m w of (None, w) \<Rightarrow> e w | (Some x, w) \<Rightarrow> k x w)"

definition succeed :: "'a \<Rightarrow> ('a, 'w) call" where
  "succeed x w = (Some x, w)"

definition return1 :: "('a, 'w) call" where
  "return1 w = (None, w)"

datatype ErrorType = WARN | ERR | ERR_RTC | ERR_TIMER | ERR_KBC | ERR_KEYBOARD | ERR_MOUSE | ERR_VIDEO | ERR_SERIAL

definition print_err_type :: "'w io \<Rightarrow> ErrorType \<Rightarrow> 'w \<Rightarrow> 'w" where
  "print_err_type io error_type = (case error_type of
     WARN \<Rightarrow> print_err io (NL # ''Warning'' @ [NL])
   | ERR \<Rightarrow> print_err io (NL # ''Error'' @ [NL])
   | ERR_RTC \<Rightarrow> print_err io (NL # ''RTC Error'' @ [NL])
   | ERR_TIMER \<Rightarrow> print_err io (NL # ''Timer Error'' @ [NL])
   | ERR_KBC \<Rightarrow> print_err io (NL # ''KBC Error'' @ [NL])
   | ERR_KEYBOARD \<Rightarrow> print_err io (NL # ''Keyboard Error'' @ [NL])
   | ERR_MOUSE \<Rightarrow> print_err io (NL # ''Mouse Error'' @ [NL])
   | ERR_VIDEO \<Rightarrow> print_err io (NL # ''Video Error'' @ [NL])
   | ERR_SERIAL \<Rightarrow> id)"

definition fail :: "'w io \<Rightarrow> ErrorType \<Rightarrow> string \<Rightarrow> ('a, 'w) call" where
  "fail io error_type msg w = (None, print_err io (msg @ [NL]) (print_err_type io error_type w))"

definition util_sys_inb :: "'w io \<Rightarrow> int \<Rightarrow> (u8, 'w) call" where
  "util_sys_inb io port w =
     (case sys_inb io port w of (None, w) \<Rightarrow> (None, w) | (Some temp, w) \<Rightarrow> (Some (ucast temp), w))"

definition util_get_LSB :: "u16 \<Rightarrow> u8" where
  "util_get_LSB val = ucast (val AND 0xFF)"

definition util_get_MSB :: "u16 \<Rightarrow> u8" where
  "util_get_MSB val = ucast (drop_bit 8 val)"

lemma on_ok_simps [simp]:
  "m w = (None, w') \<Longrightarrow> on_ok m e k w = e w'"
  "m w = (Some x, w') \<Longrightarrow> on_ok m e k w = k x w'"
  by (simp_all add: on_ok_def)

text \<open>The two bytes of a 16 bit value, as they are sent one after the other, make it up again.\<close>

lemma MSB_LSB: "push_bit 8 (ucast (util_get_MSB v)) OR ucast (util_get_LSB v) = (v :: u16)"
proof -
  have m: "(0xFF :: u16) = mask 8" by (simp add: mask_eq_exp_minus_1)
  show ?thesis unfolding util_get_MSB_def util_get_LSB_def m
    by (rule bit_word_eqI) (auto simp: bit_simps)
qed

end
