(* ===== verification/Fifo.thy ===== *)
theory Fifo
  imports Prelude
begin

text \<open>
  Queues as the code uses them: the interface (a locale), the drain loop
  \<open>while (pop (&x)) handle (x);\<close> of \<open>serial_process\<close> and \<open>input_dispatch\<close>, and the ring buffer
  both queues of the program are built on.
\<close>

section \<open>The drain loop\<close>

text \<open>
  \<open>pop q\<close> is undefined (\<open>None\<close>), or returns false (\<open>Some (None, q')\<close>), or delivers an element.
  The loop is a partial function: \<open>None\<close> when it runs into undefined behaviour or does not end.
\<close>

partial_function (option) drain ::
    "('q \<Rightarrow> ('a option \<times> 'q) option) \<Rightarrow> ('a \<Rightarrow> 's \<Rightarrow> 's option) \<Rightarrow> 'q \<Rightarrow> 's \<Rightarrow> ('q \<times> 's) option" where
  "drain pop handle q s = do {
     (x, q') \<leftarrow> pop q;
     case x of None \<Rightarrow> Some (q', s)
     | Some a \<Rightarrow> do {
         s' \<leftarrow> handle a s;
         drain pop handle q' s'
       }
   }"

fun run_all :: "('a \<Rightarrow> 's \<Rightarrow> 's option) \<Rightarrow> 'a list \<Rightarrow> 's \<Rightarrow> 's option" where
  "run_all handle [] s = Some s"
| "run_all handle (a # as) s = Option.bind (handle a s) (run_all handle as)"

lemma run_all_append: "run_all h (as @ bs) s = Option.bind (run_all h as s) (run_all h bs)"
  by (induction as arbitrary: s) (auto split: Option.bind_splits)

lemma run_all_invariant:
  assumes "\<And>a s. a \<in> set as \<Longrightarrow> P s \<Longrightarrow> \<exists>s'. h a s = Some s' \<and> P s'" and "P s"
  shows "\<exists>s'. run_all h as s = Some s' \<and> P s'"
  using assms
proof (induction as arbitrary: s)
  case (Cons a as)
  then obtain s1 where "h a s = Some s1" "P s1" by (meson list.set_intros(1))
  with Cons show ?case by auto
qed simp

section \<open>The interface\<close>

locale fifo =
  fixes contents :: "'q \<Rightarrow> 'a list"
    and inv :: "'q \<Rightarrow> bool"
    and cap :: nat
    and pop :: "'q \<Rightarrow> ('a option \<times> 'q) option"
  assumes contents_cap: "inv q \<Longrightarrow> length (contents q) \<le> cap"
    and pop_empty: "inv q \<Longrightarrow> contents q = [] \<Longrightarrow> pop q = Some (None, q)"
    and pop_first: "inv q \<Longrightarrow> contents q = x # xs \<Longrightarrow>
          \<exists>q'. pop q = Some (Some x, q') \<and> inv q' \<and> contents q' = xs"
begin

lemma pop_defined: "inv q \<Longrightarrow> \<exists>r q'. pop q = Some (r, q') \<and> inv q'"
  by (cases "contents q") (auto dest: pop_empty pop_first)

text \<open>The drain loop ends and hands the queued elements to the handler in order.\<close>

lemma drain_contents:
  assumes "inv q"
  shows "\<exists>q'. inv q' \<and> contents q' = [] \<and>
           drain pop handle q s = map_option (Pair q') (run_all handle (contents q) s)"
  using assms
proof (induction "contents q" arbitrary: q s)
  case Nil
  with pop_empty [OF Nil(2)] show ?case by (auto simp: drain.simps)
next
  case (Cons x xs)
  obtain q1 where q1: "pop q = Some (Some x, q1)" "inv q1" "contents q1 = xs"
    using pop_first [OF Cons.prems] Cons.hyps(2) by metis
  have c: "contents q = x # contents q1" using Cons.hyps(2) q1(3) by simp
  show ?case
  proof (cases "handle x s")
    case None
    obtain q' where "inv q' \<and> contents q' = []" using Cons.hyps(1) q1 by blast
    with None q1 c show ?thesis by (auto simp: drain.simps [of pop handle q])
  next
    case (Some s1)
    obtain q' where "inv q'" "contents q' = []"
      "drain pop handle q1 s1 = map_option (Pair q') (run_all handle (contents q1) s1)"
      using Cons.hyps(1) [of q1 s1] q1(2,3) by blast
    with Some q1 c show ?thesis by (auto simp: drain.simps [of pop handle q])
  qed
qed

end

text \<open>A queue that refuses an element when it is full.\<close>

locale rejecting_fifo = fifo +
  fixes push :: "'b \<Rightarrow> 'a \<Rightarrow> (bool \<times> 'b) option"
  assumes push_room: "inv q \<Longrightarrow> length (contents q) < cap \<Longrightarrow>
          \<exists>q'. push q x = Some (True, q') \<and> inv q' \<and> contents q' = contents q @ [x]"
    and push_full: "inv q \<Longrightarrow> length (contents q) = cap \<Longrightarrow> push q x = Some (False, q)"
begin

text \<open>Pushing a sequence keeps the longest prefix there is room for.\<close>

lemma push_sequence:
  assumes "inv q"
  shows "\<exists>q'. run_all (\<lambda>x q. map_option snd (push q x)) xs q = Some q' \<and> inv q'
           \<and> contents q' = take cap (contents q @ xs)"
  using assms
proof (induction xs arbitrary: q)
  case Nil
  with contents_cap show ?case by auto
next
  case (Cons x xs)
  show ?case
  proof (cases "length (contents q) < cap")
    case True
    then obtain q1 where "push q x = Some (True, q1)" "inv q1" "contents q1 = contents q @ [x]"
      using push_room Cons.prems by blast
    with Cons.IH [of q1] show ?thesis by simp
  next
    case False
    then have "length (contents q) = cap" using contents_cap [OF Cons.prems] by simp
    with push_full Cons.prems Cons.IH [of q] show ?thesis by simp
  qed
qed

end

text \<open>A queue that drops its oldest element when it is full.\<close>

locale overwriting_fifo = fifo +
  fixes push :: "'b \<Rightarrow> 'a \<Rightarrow> (bool \<times> 'b) option"
  assumes push_last: "inv q \<Longrightarrow>
          \<exists>q'. push q x = Some (True, q') \<and> inv q' \<and>
               contents q' = (if length (contents q) < cap then contents q else tl (contents q)) @ [x]"
    and cap_pos: "0 < cap"
begin

lemma push_keeps_last:
  assumes "inv q"
  shows "\<exists>q'. push q x = Some (True, q') \<and> inv q' \<and>
           contents q' = drop (length (contents q) + 1 - cap) (contents q @ [x])"
proof -
  obtain q' where q': "push q x = Some (True, q')" "inv q'"
    "contents q' = (if length (contents q) < cap then contents q else tl (contents q)) @ [x]"
    using push_last [OF assms] by blast
  have "length (contents q) \<le> cap" by (rule contents_cap [OF assms])
  with q' cap_pos show ?thesis by (cases "contents q") auto
qed

text \<open>Pushing a sequence keeps its most recent \<open>cap\<close> elements.\<close>

lemma push_sequence:
  assumes "inv q"
  shows "\<exists>q'. run_all (\<lambda>x q. map_option snd (push q x)) xs q = Some q' \<and> inv q'
           \<and> contents q' = drop (length (contents q) + length xs - cap) (contents q @ xs)"
  using assms
proof (induction xs arbitrary: q)
  case Nil
  with contents_cap show ?case by simp
next
  case (Cons x xs)
  obtain q1 where q1: "push q x = Some (True, q1)" "inv q1"
    "contents q1 = drop (length (contents q) + 1 - cap) (contents q @ [x])"
    using push_keeps_last [OF Cons.prems] by blast
  let ?d = "length (contents q) + 1 - cap"
  obtain q2 where q2: "run_all (\<lambda>x q. map_option snd (push q x)) xs q1 = Some q2" "inv q2"
    "contents q2 = drop (length (contents q1) + length xs - cap) (contents q1 @ xs)"
    using Cons.IH [OF q1(2)] by blast
  have e: "contents q1 @ xs = drop ?d (contents q @ x # xs)" using cap_pos q1(3) by simp
  have l: "length (contents q1) = length (contents q) + 1 - ?d" using q1(3) by simp
  have "length (contents q) + 1 - ?d + length xs - cap + ?d = length (contents q) + length (x # xs) - cap"
    using contents_cap [OF Cons.prems] by auto
  then have "contents q2 = drop (length (contents q) + length (x # xs) - cap) (contents q @ x # xs)"
    by (simp only: q2(3) e l drop_drop)
  with q1(1) q2 show ?case by simp
qed

end

section \<open>Ring buffers\<close>

text \<open>
  \<open>ring n a h xs\<close>: the array \<open>a\<close> of \<open>n\<close> cells holds \<open>xs\<close> from index \<open>h\<close> on, wrapping around.
\<close>

definition ring :: "nat \<Rightarrow> 'a cells \<Rightarrow> nat \<Rightarrow> 'a list \<Rightarrow> bool" where
  "ring n a h xs \<longleftrightarrow> length a = n \<and> h < n \<and> length xs \<le> n
     \<and> (\<forall>i < length xs. a ! ((h + i) mod n) = Some (xs ! i))"

lemma ring_index_inj:
  assumes "i < n" and "j < n" and "(h + i) mod n = (h + j) mod n"
  shows "i = (j :: nat)"
proof -
  have *: "a = b" if "a \<le> b" "b < n" "(h + a) mod n = (h + b) mod n" for a b :: nat
  proof -
    have "n dvd (h + b) - (h + a)"
      using that by (metis add_le_mono le_refl mod_eq_dvd_iff_nat)
    moreover have "(h + b) - (h + a) < n" using that(2) by arith
    ultimately have "(h + b) - (h + a) = 0" by (meson nat_dvd_not_less not_gr_zero)
    then show ?thesis using that(1) by simp
  qed
  show ?thesis using * [of i j] * [of j i] assms by (cases "i \<le> j") auto
qed

lemma ring_push:
  assumes "ring n a h xs" and "length xs < n"
  shows "ring n (a[(h + length xs) mod n := Some x]) h (xs @ [x])"
  unfolding ring_def
proof (intro conjI allI impI)
  fix i assume i: "i < length (xs @ [x])"
  show "a[(h + length xs) mod n := Some x] ! ((h + i) mod n) = Some ((xs @ [x]) ! i)"
  proof (cases "i = length xs")
    case True
    with assms show ?thesis by (auto simp: ring_def nth_list_update)
  next
    case False
    with i have "i < length xs" by simp
    moreover have "(h + i) mod n \<noteq> (h + length xs) mod n"
      using ring_index_inj [of i n "length xs" h] assms(2) \<open>i < length xs\<close> by auto
    ultimately show ?thesis using assms(1) by (auto simp: ring_def nth_append nth_list_update)
  qed
qed (use assms in \<open>auto simp: ring_def\<close>)

lemma ring_pop:
  assumes "ring n a h (x # xs)"
  shows "a ! h = Some x" and "ring n a ((h + 1) mod n) xs"
proof -
  from assms have *: "h < n" "length a = n" "\<forall>i < Suc (length xs). a ! ((h + i) mod n) = Some ((x # xs) ! i)"
    by (auto simp: ring_def)
  from *(3) [rule_format, of 0] *(1) show "a ! h = Some x" by simp
  have "a ! (((h + 1) mod n + i) mod n) = Some (xs ! i)" if "i < length xs" for i
    using *(3) [rule_format, of "Suc i"] that by (simp add: mod_simps)
  then show "ring n a ((h + 1) mod n) xs" using assms * by (simp add: ring_def)
qed

end
