(* ===== verification/ByteQueue.thy ===== *)
theory ByteQueue
  imports Fifo
begin

text \<open>
  \<open>framework/src/common/queue.c\<close>: the software FIFO between the UART interrupt handler and the
  serial protocol.
\<close>

definition QUEUE_SIZE :: nat where "QUEUE_SIZE = 16"

record queue_t =
  q_buffer :: "u8 cells"
  q_head :: int
  q_tail :: int
  q_count :: int

definition queue_init :: "queue_t \<Rightarrow> queue_t" where
  "queue_init q = q\<lparr>q_head := 0, q_tail := 0, q_count := 0\<rparr>"

definition queue_is_empty :: "queue_t \<Rightarrow> bool" where
  "queue_is_empty q \<longleftrightarrow> q_count q = 0"

definition queue_is_full :: "queue_t \<Rightarrow> bool" where
  "queue_is_full q \<longleftrightarrow> q_count q = int QUEUE_SIZE"

definition queue_push :: "queue_t \<Rightarrow> u8 \<Rightarrow> (bool \<times> queue_t) option" where
  "queue_push q data =
     (if queue_is_full q then Some (False, q)
      else do {
        buf \<leftarrow> awrite (q_buffer q) (q_tail q) data;
        Some (True, q\<lparr>q_buffer := buf, q_tail := (q_tail q + 1) mod int QUEUE_SIZE,
                      q_count := q_count q + 1\<rparr>)
      })"

definition queue_pop :: "queue_t \<Rightarrow> (u8 option \<times> queue_t) option" where
  "queue_pop q =
     (if queue_is_empty q then Some (None, q)
      else do {
        data \<leftarrow> aread (q_buffer q) (q_head q);
        Some (Some data, q\<lparr>q_head := (q_head q + 1) mod int QUEUE_SIZE, q_count := q_count q - 1\<rparr>)
      })"

definition queue_rep :: "queue_t \<Rightarrow> u8 list \<Rightarrow> bool" where
  "queue_rep q xs \<longleftrightarrow> (\<exists>h. ring QUEUE_SIZE (q_buffer q) h xs \<and> q_head q = int h
     \<and> q_count q = int (length xs) \<and> q_tail q = int ((h + length xs) mod QUEUE_SIZE))"

definition queue_contents :: "queue_t \<Rightarrow> u8 list" where
  "queue_contents q = map (\<lambda>i. the (q_buffer q ! ((nat (q_head q) + i) mod QUEUE_SIZE))) [0..<nat (q_count q)]"

definition queue_inv :: "queue_t \<Rightarrow> bool" where
  "queue_inv q \<longleftrightarrow> (\<exists>xs. queue_rep q xs)"

lemma queue_rep_contents: "queue_rep q xs \<Longrightarrow> queue_contents q = xs"
  by (auto simp: queue_rep_def queue_contents_def ring_def intro: nth_equalityI)

lemma queue_inv_rep: "queue_inv q \<Longrightarrow> queue_rep q (queue_contents q)"
  unfolding queue_inv_def by (metis queue_rep_contents)

lemma queue_rep_init:
  "length (q_buffer q) = QUEUE_SIZE \<Longrightarrow> queue_rep (queue_init q) []"
  by (auto simp: queue_rep_def queue_init_def ring_def QUEUE_SIZE_def)

lemma queue_rep_push:
  assumes "queue_rep q xs" and "length xs < QUEUE_SIZE"
  shows "\<exists>q'. queue_push q x = Some (True, q') \<and> queue_rep q' (xs @ [x])"
proof -
  from assms(1) obtain h where h: "ring QUEUE_SIZE (q_buffer q) h xs" "q_head q = int h"
    "q_count q = int (length xs)" "q_tail q = int ((h + length xs) mod QUEUE_SIZE)"
    by (auto simp: queue_rep_def)
  have "(h + length xs) mod QUEUE_SIZE < length (q_buffer q)"
    using h(1) by (simp add: ring_def)
  then have w: "awrite (q_buffer q) (q_tail q) x
      = Some ((q_buffer q)[(h + length xs) mod QUEUE_SIZE := Some x])"
    using h(4) by (simp add: awrite_def in_range_def)
  have t: "(q_tail q + 1) mod int QUEUE_SIZE = int ((h + length (xs @ [x])) mod QUEUE_SIZE)"
    using h(4) by (simp add: zmod_int mod_simps ac_simps)
  show ?thesis
    using ring_push [OF h(1) assms(2), of x] w t h assms(2)
    by (auto simp: queue_push_def queue_is_full_def queue_rep_def intro!: exI [of _ h])
qed

lemma queue_rep_pop:
  assumes "queue_rep q (x # xs)"
  shows "\<exists>q'. queue_pop q = Some (Some x, q') \<and> queue_rep q' xs"
proof -
  from assms obtain h where h: "ring QUEUE_SIZE (q_buffer q) h (x # xs)" "q_head q = int h"
    "q_count q = int (length (x # xs))" "q_tail q = int ((h + length (x # xs)) mod QUEUE_SIZE)"
    by (auto simp: queue_rep_def)
  have "h < length (q_buffer q)" using h(1) by (simp add: ring_def)
  then have r: "aread (q_buffer q) (q_head q) = Some x"
    using h(2) ring_pop(1) [OF h(1)] by (simp add: aread_def in_range_def)
  have hd: "(q_head q + 1) mod int QUEUE_SIZE = int ((h + 1) mod QUEUE_SIZE)"
    using h(2) by (simp add: zmod_int add.commute)
  have t: "q_tail q = int (((h + 1) mod QUEUE_SIZE + length xs) mod QUEUE_SIZE)"
    using h(4) by (simp add: mod_simps)
  show ?thesis
    using ring_pop(2) [OF h(1)] r hd t h(3)
    by (auto simp: queue_pop_def queue_is_empty_def queue_rep_def)
qed

interpretation byte_fifo: rejecting_fifo queue_contents queue_inv QUEUE_SIZE queue_pop queue_push
proof unfold_locales
  fix q assume "queue_inv q"
  then have r: "queue_rep q (queue_contents q)" by (rule queue_inv_rep)
  then show "length (queue_contents q) \<le> QUEUE_SIZE" by (auto simp: queue_rep_def ring_def)
  show "queue_pop q = Some (None, q)" if "queue_contents q = []"
    using r that by (auto simp: queue_pop_def queue_is_empty_def queue_rep_def)
  show "\<exists>q'. queue_pop q = Some (Some x, q') \<and> queue_inv q' \<and> queue_contents q' = xs"
    if "queue_contents q = x # xs" for x xs
    using queue_rep_pop [of q x xs] r that by (auto simp: queue_inv_def dest: queue_rep_contents)
  show "\<exists>q'. queue_push q x = Some (True, q') \<and> queue_inv q' \<and> queue_contents q' = queue_contents q @ [x]"
    if "length (queue_contents q) < QUEUE_SIZE" for x
    using queue_rep_push [OF r that, of x] by (auto simp: queue_inv_def dest: queue_rep_contents)
  show "queue_push q x = Some (False, q)" if "length (queue_contents q) = QUEUE_SIZE" for x
    using r that by (auto simp: queue_push_def queue_is_full_def queue_rep_def)
qed

text \<open>The software FIFO of the serial driver. On a queue in its invariant (as \<open>queue_init\<close>
  leaves it), pushing any sequence of bytes has no undefined behaviour and keeps exactly the
  bytes that fit, in order, the ones that do not fit being refused; popping until the queue is
  empty then delivers those bytes in the order they were pushed and leaves it empty.\<close>

theorem byte_queue_fifo:
  assumes "queue_inv q"
  shows "\<exists>q1 q2. run_all (\<lambda>x q. map_option snd (queue_push q x)) bs q = Some q1
    \<and> queue_contents q1 = take QUEUE_SIZE (queue_contents q @ bs)
    \<and> drain queue_pop (\<lambda>x out. Some (out @ [x])) q1 [] = Some (q2, take QUEUE_SIZE (queue_contents q @ bs))
    \<and> queue_is_empty q2 \<and> queue_inv q2"
proof -
  obtain q1 where q1: "run_all (\<lambda>x q. map_option snd (queue_push q x)) bs q = Some q1" "queue_inv q1"
    "queue_contents q1 = take QUEUE_SIZE (queue_contents q @ bs)"
    using byte_fifo.push_sequence [OF assms] by blast
  have "run_all (\<lambda>x out. Some (out @ [x])) ys out = Some (out @ ys)" for ys out :: "u8 list"
    by (induction ys arbitrary: out) auto
  then obtain q2 where q2: "queue_inv q2" "queue_contents q2 = []"
    "drain queue_pop (\<lambda>x out. Some (out @ [x])) q1 [] = Some (q2, queue_contents q1)"
    using byte_fifo.drain_contents [OF q1(2), of "\<lambda>x out. Some (out @ [x])" "[]"] by auto
  have "queue_is_empty q2"
    using queue_inv_rep [OF q2(1)] q2(2) by (auto simp: queue_is_empty_def queue_rep_def)
  with q1 q2 show ?thesis by auto
qed

definition queue0 :: queue_t where
  "queue0 = queue_init \<lparr>q_buffer = replicate QUEUE_SIZE (Some 0), q_head = 0, q_tail = 0, q_count = 0\<rparr>"

lemma queue_inv0: "queue_inv queue0" and queue_contents0: "queue_contents queue0 = []"
  using queue_rep_init [of "\<lparr>q_buffer = replicate QUEUE_SIZE (Some 0), q_head = 0, q_tail = 0, q_count = 0\<rparr>"]
  by (auto simp: queue0_def queue_inv_def dest: queue_rep_contents)

theorem byte_queue_fifo_witness:
  "\<exists>q1 q2. run_all (\<lambda>x q. map_option snd (queue_push q x)) [7, 8, 9] queue0 = Some q1
     \<and> drain queue_pop (\<lambda>x out. Some (out @ [x])) q1 [] = Some (q2, [7, 8, 9])"
  using byte_queue_fifo [OF queue_inv0, of "[7, 8, 9]"]
  by (auto simp: queue_contents0 QUEUE_SIZE_def)

end
