(* ===== verification/SerialPort.thy ===== *)
theory SerialPort
  imports Ports ByteQueue
begin

text \<open>
  \<open>framework/src/drivers/serial_port.c\<close>: the UART driver. The interrupt handler moves the received
  bytes from the device to the software queue until one of them is exhausted; its loop is a partial
  function, since a device that never stops reporting data with an error would keep it running.
\<close>

definition COM1_BASE :: int where "COM1_BASE = 0x3F8"
definition COM1_IRQ :: int where "COM1_IRQ = 4"
definition RBR :: int where "RBR = 0"
definition THR :: int where "THR = 0"
definition IER :: int where "IER = 1"
definition IIR :: int where "IIR = 2"
definition FCR :: int where "FCR = 2"
definition LCR :: int where "LCR = 3"
definition LSR :: int where "LSR = 5"
definition DLL :: int where "DLL = 0"
definition DLM :: int where "DLM = 1"

definition IIR_NO_INT :: u8 where "IIR_NO_INT = 0x01"
definition IIR_INT_ID_MASK :: u8 where "IIR_INT_ID_MASK = 0x0E"
definition LSR_RX_READY :: u8 where "LSR_RX_READY = 0x01"
definition LSR_OVERRUN_ERR :: u8 where "LSR_OVERRUN_ERR = 0x02"
definition LSR_PARITY_ERR :: u8 where "LSR_PARITY_ERR = 0x04"
definition LSR_FRAME_ERR :: u8 where "LSR_FRAME_ERR = 0x08"
definition LSR_TX_READY :: u8 where "LSR_TX_READY = 0x20"
definition LCR_DLAB_BIT :: u32 where "LCR_DLAB_BIT = 0x80"

definition CONF_FCR :: u32 where "CONF_FCR = 0x01 OR 0x02 OR 0x04 OR 0x80"
definition CONF_LCR :: u32 where "CONF_LCR = 0x03"
definition CONF_IER :: u32 where "CONF_IER = 0x01"
definition UART_FREQ :: u32 where "UART_FREQ = 115200"
definition BIT_RATE :: u32 where "BIT_RATE = 115200"

definition IRQ_REENABLE :: int where "IRQ_REENABLE = 1"
definition IRQ_EXCLUSIVE :: int where "IRQ_EXCLUSIVE = 2"

record serial_port =
  rx_queue :: queue_t
  serial_initialized :: bool
  sp_hook_id :: int

definition serial_port0 :: serial_port where
  "serial_port0 = \<lparr>rx_queue = \<lparr>q_buffer = replicate QUEUE_SIZE (Some 0), q_head = 0, q_tail = 0, q_count = 0\<rparr>,
     serial_initialized = False, sp_hook_id = 4\<rparr>"

text \<open>
  The loop of the interrupt handler. \<open>data\<close> is the automatic variable, indeterminate until the
  first read succeeds; a failed read of a register leaves its variable as it was.
\<close>

definition keep_old :: "'a option \<Rightarrow> 'a option \<Rightarrow> 'a option" where
  "keep_old new old = (case new of None \<Rightarrow> old | Some x \<Rightarrow> Some x)"

partial_function (option) rx_loop :: "'w io \<Rightarrow> u8 \<Rightarrow> u8 option \<Rightarrow> queue_t \<Rightarrow> 'w \<Rightarrow> (queue_t \<times> 'w) option" where
  "rx_loop io lsr_val data q w =
     (if lsr_val AND LSR_RX_READY \<noteq> 0 \<and> \<not> queue_is_full q
      then do {
        let (r, w1) = util_sys_inb io (COM1_BASE + RBR) w;
        let data1 = keep_old r data;
        q1 \<leftarrow> (if lsr_val AND (LSR_OVERRUN_ERR OR LSR_PARITY_ERR OR LSR_FRAME_ERR) = 0
              then do { x \<leftarrow> data1; (ok, q1) \<leftarrow> queue_push q x; Some q1 }
              else Some q);
        let (l, w2) = util_sys_inb io (COM1_BASE + LSR) w1;
        rx_loop io (case l of None \<Rightarrow> lsr_val | Some x \<Rightarrow> x) data1 q1 w2
      }
      else Some (q, w))"

definition serial_ih :: "'w io \<Rightarrow> serial_port \<Rightarrow> 'w \<Rightarrow> (serial_port \<times> 'w) option" where
  "serial_ih io sp w =
     (case util_sys_inb io (COM1_BASE + IIR) w of
        (None, w) \<Rightarrow> Some (sp, w)
      | (Some iir_val, w) \<Rightarrow>
          if iir_val AND IIR_NO_INT = 0
             \<and> (let int_origin = iir_val AND IIR_INT_ID_MASK in int_origin = 0x02 \<or> int_origin = (0x02 OR 0x04))
          then (case util_sys_inb io (COM1_BASE + LSR) w of
                  (None, w) \<Rightarrow> Some (sp, w)
                | (Some lsr_val, w) \<Rightarrow> do {
                    (q, w) \<leftarrow> rx_loop io lsr_val None (rx_queue sp) w;
                    Some (sp\<lparr>rx_queue := q\<rparr>, w)
                  })
          else Some (sp, w))"

definition serial_read_char :: "serial_port \<Rightarrow> (u8 option \<times> serial_port) option" where
  "serial_read_char sp =
     (if \<not> serial_initialized sp then Some (None, sp)
      else do {
        (data, q) \<leftarrow> queue_pop (rx_queue sp);
        Some (data, sp\<lparr>rx_queue := q\<rparr>)
      })"

text \<open>Polls for the transmitter at most 100 times, 50 microseconds apart.\<close>

fun tx_tries :: "'w io \<Rightarrow> u8 \<Rightarrow> nat \<Rightarrow> (unit, 'w) call" where
  "tx_tries io data 0 w = (None, w)"
| "tx_tries io data (Suc n) w =
     on_ok (util_sys_inb io (COM1_BASE + LSR)) return1 (\<lambda>lsr_val.
       if lsr_val AND LSR_TX_READY \<noteq> 0
       then on_ok (sys_outb io (COM1_BASE + THR) (ucast data)) return1 (\<lambda>_. succeed ())
       else (\<lambda>w. tx_tries io data n (tickdelay io 50 w))) w"

definition serial_write_char :: "'w io \<Rightarrow> u8 \<Rightarrow> (unit, 'w) call" where
  "serial_write_char io data = tx_tries io data 100"

definition serial_init :: "'w io \<Rightarrow> serial_port \<Rightarrow> 'w \<Rightarrow> bool \<times> serial_port \<times> 'w" where
  "serial_init io sp w =
     (if serial_initialized sp then (True, sp, w)
      else
        let sp = sp\<lparr>rx_queue := queue_init (rx_queue sp)\<rparr>;
            divisor = UART_FREQ div BIT_RATE;
            (r, w) =
              on_ok (sys_outb io (COM1_BASE + LCR) LCR_DLAB_BIT) return1 (\<lambda>_.
              on_ok (sys_outb io (COM1_BASE + DLL) (divisor AND 0xFF)) return1 (\<lambda>_.
              on_ok (sys_outb io (COM1_BASE + DLM) (drop_bit 8 divisor AND 0xFF)) return1 (\<lambda>_.
              on_ok (sys_outb io (COM1_BASE + LCR) CONF_LCR) return1 (\<lambda>_.
              on_ok (sys_outb io (COM1_BASE + FCR) CONF_FCR) return1 (\<lambda>_.
              on_ok (sys_outb io (COM1_BASE + IER) CONF_IER) return1 (\<lambda>_.
              succeed ())))))) w
        in case r of None \<Rightarrow> (False, sp, w) | Some _ \<Rightarrow> (True, sp\<lparr>serial_initialized := True\<rparr>, w))"

text \<open>The bit number the caller gets is the hook id before the kernel changes it.\<close>

definition serial_subscribe_int :: "'w io \<Rightarrow> serial_port \<Rightarrow> 'w \<Rightarrow> (u8 \<times> bool \<times> serial_port) \<times> 'w" where
  "serial_subscribe_int io sp w =
     (let bit_no = word_of_int (sp_hook_id sp) in
      case on_ok (sys_irqsetpolicy io COM1_IRQ (IRQ_REENABLE + IRQ_EXCLUSIVE) (sp_hook_id sp))
             (fail io ERR_SERIAL ''serial_subscribe_int: sys_irqsetpolicy failed'') succeed w of
        (None, w) \<Rightarrow> ((bit_no, False, sp), w)
      | (Some h, w) \<Rightarrow> ((bit_no, True, sp\<lparr>sp_hook_id := h\<rparr>), w))"

definition serial_unsubscribe_int :: "'w io \<Rightarrow> serial_port \<Rightarrow> (unit, 'w) call" where
  "serial_unsubscribe_int io sp =
     on_ok (sys_irqrmpolicy io (sp_hook_id sp))
       (fail io ERR_SERIAL ''serial_unsubscribe_int: sys_irqrmpolicy failed'') succeed"

section \<open>The device\<close>

text \<open>The interrupt identifications the handler acts on.\<close>

definition acted_on :: "u8 \<Rightarrow> bool" where
  "acted_on iir \<longleftrightarrow> iir AND IIR_NO_INT = 0 \<and> (iir AND IIR_INT_ID_MASK = 0x02 \<or> iir AND IIR_INT_ID_MASK = 0x06)"

text \<open>
  What the handler relies on of a UART whose line is free of errors: \<open>received w\<close> are the bytes in
  the device; while there are any, the interrupt identification register reads \<open>iir\<close>, with no
  pending interrupt otherwise; the line status reports whether there are bytes, and reading the
  receiver buffer takes the first one.
\<close>

definition uart_receives :: "'w io \<Rightarrow> u8 \<Rightarrow> ('w \<Rightarrow> u8 list) \<Rightarrow> bool" where
  "uart_receives io iir received \<longleftrightarrow> (\<forall>w.
     sys_inb io (COM1_BASE + IIR) w = (Some (if received w = [] then 0x01 else ucast iir), w)
     \<and> sys_inb io (COM1_BASE + LSR) w = (Some (if received w = [] then 0x60 else 0x61), w)
     \<and> (received w \<noteq> [] \<longrightarrow> (\<exists>w'. sys_inb io (COM1_BASE + RBR) w = (Some (ucast (hd (received w))), w')
           \<and> received w' = tl (received w))))"

lemma uart_status:
  assumes "uart_receives io iir received"
  shows "util_sys_inb io (COM1_BASE + IIR) w = (Some (if received w = [] then 0x01 else iir), w)"
    and "util_sys_inb io (COM1_BASE + LSR) w = (Some (if received w = [] then 0x60 else 0x61), w)"
  using assms by (simp_all add: uart_receives_def util_sys_inb_def)

lemma uart_data:
  assumes "uart_receives io iir received" and "received w = b # bs"
  obtains w' where "util_sys_inb io (COM1_BASE + RBR) w = (Some b, w')" and "received w' = bs"
proof -
  obtain w' where "sys_inb io (COM1_BASE + RBR) w = (Some (ucast b), w')" "received w' = bs"
    using assms unfolding uart_receives_def by (metis list.sel(1,3) list.distinct(1))
  then show ?thesis using that by (simp add: util_sys_inb_def)
qed

lemma lsr_bits:
  "(0x60 :: u8) AND LSR_RX_READY = 0" "(0x61 :: u8) AND LSR_RX_READY \<noteq> 0"
  "(0x61 :: u8) AND (LSR_OVERRUN_ERR OR LSR_PARITY_ERR OR LSR_FRAME_ERR) = 0"
  by (simp_all add: LSR_RX_READY_def LSR_OVERRUN_ERR_def LSR_PARITY_ERR_def LSR_FRAME_ERR_def)

lemma rx_loop_moves:
  assumes "uart_receives io iir received" and "queue_rep q xs"
  shows "\<exists>q' w'. rx_loop io (if received w = [] then 0x60 else 0x61) d q w = Some (q', w')
    \<and> queue_rep q' (xs @ take (QUEUE_SIZE - length xs) (received w))
    \<and> received w' = drop (QUEUE_SIZE - length xs) (received w)"
  using assms(2)
proof (induction "received w" arbitrary: w d q xs)
  case Nil
  then show ?case by (subst rx_loop.simps) (simp add: lsr_bits)
next
  case (Cons b bs)
  note r = Cons.hyps(2) [symmetric]
  have len: "length xs \<le> QUEUE_SIZE" using Cons.prems by (auto simp: queue_rep_def ring_def)
  show ?case
  proof (cases "length xs < QUEUE_SIZE")
    case True
    obtain w1 where w1: "util_sys_inb io (COM1_BASE + RBR) w = (Some b, w1)" "received w1 = bs"
      by (rule uart_data [OF assms(1) r])
    obtain q1 where q1: "queue_push q b = Some (True, q1)" "queue_rep q1 (xs @ [b])"
      using queue_rep_push [OF Cons.prems True] by blast
    have nf: "\<not> queue_is_full q" using Cons.prems True by (auto simp: queue_rep_def queue_is_full_def)
    obtain q' w' where IH: "rx_loop io (if received w1 = [] then 0x60 else 0x61) (Some b) q1 w1 = Some (q', w')"
      "queue_rep q' ((xs @ [b]) @ take (QUEUE_SIZE - length (xs @ [b])) (received w1))"
      "received w' = drop (QUEUE_SIZE - length (xs @ [b])) (received w1)"
      using Cons.hyps(1) [OF w1(2) [symmetric] q1(2)] by blast
    obtain k where k: "QUEUE_SIZE - length xs = Suc k" using True by (metis Suc_diff_Suc)
    then have k': "QUEUE_SIZE - length (xs @ [b]) = k" by simp
    have "rx_loop io (if received w = [] then 0x60 else 0x61) d q w = Some (q', w')"
      using r nf w1(1) q1(1) uart_status(2) [OF assms(1), of w1] IH(1)
      by (subst rx_loop.simps) (simp add: lsr_bits keep_old_def)
    then show ?thesis using IH(2,3) k k' r w1(2) by simp
  next
    case False
    then have full: "QUEUE_SIZE - length xs = 0" "queue_is_full q"
      using len Cons.prems by (auto simp: queue_rep_def queue_is_full_def)
    have stop: "rx_loop io v d q w = Some (q, w)" for v
      by (subst rx_loop.simps) (use full(2) in \<open>simp only: simp_thms if_False\<close>)
    show ?thesis
      by (rule exI [of _ q], rule exI [of _ w]) (simp only: stop full(1) take_0 drop_0 append_Nil2 Cons.prems simp_thms)
  qed
qed

lemma serial_ih_moves:
  assumes "uart_receives io iir received" and "queue_rep (rx_queue sp) xs" and "acted_on iir"
  obtains sp' w' where "serial_ih io sp w = Some (sp', w')"
    and "queue_rep (rx_queue sp') (xs @ take (QUEUE_SIZE - length xs) (received w))"
    and "received w' = drop (QUEUE_SIZE - length xs) (received w)"
    and "serial_initialized sp' = serial_initialized sp"
proof (cases "received w")
  case Nil
  have "serial_ih io sp w = Some (sp, w)"
    using uart_status(1) [OF assms(1), of w] Nil by (simp add: serial_ih_def IIR_NO_INT_def)
  then show ?thesis by (rule that) (use assms(2) Nil in simp_all)
next
  case (Cons b bs)
  obtain q' w' where l: "rx_loop io (if received w = [] then 0x60 else 0x61) None (rx_queue sp) w = Some (q', w')"
    "queue_rep q' (xs @ take (QUEUE_SIZE - length xs) (received w))"
    "received w' = drop (QUEUE_SIZE - length xs) (received w)"
    using rx_loop_moves [OF assms(1,2)] by blast
  have "serial_ih io sp w = Some (sp\<lparr>rx_queue := q'\<rparr>, w')"
    using uart_status [OF assms(1), of w] Cons l(1) assms(3)
    by (simp add: serial_ih_def acted_on_def)
  then show ?thesis by (rule that) (use l in simp_all)
qed

lemma serial_ih_other:
  assumes "uart_receives io iir received" and "\<not> acted_on iir"
  shows "serial_ih io sp w = Some (sp, w)"
  using uart_status(1) [OF assms(1), of w] assms(2)
  by (cases "received w = []") (auto simp: serial_ih_def acted_on_def IIR_NO_INT_def Let_def)

text \<open>Reading characters is popping the software queue.\<close>

definition sp_inv :: "serial_port \<Rightarrow> bool" where
  "sp_inv sp \<longleftrightarrow> serial_initialized sp \<and> queue_inv (rx_queue sp)"

interpretation uart_fifo: fifo "\<lambda>sp. queue_contents (rx_queue sp)" sp_inv QUEUE_SIZE serial_read_char
proof unfold_locales
  fix sp x xs
  assume i: "sp_inv sp"
  then have q: "queue_inv (rx_queue sp)" "serial_initialized sp" by (simp_all add: sp_inv_def)
  show "length (queue_contents (rx_queue sp)) \<le> QUEUE_SIZE" using q(1) by (rule byte_fifo.contents_cap)
  show "serial_read_char sp = Some (None, sp)" if "queue_contents (rx_queue sp) = []"
    using byte_fifo.pop_empty [OF q(1) that] q(2) by (simp add: serial_read_char_def)
  show "\<exists>sp'. serial_read_char sp = Some (Some x, sp') \<and> sp_inv sp' \<and> queue_contents (rx_queue sp') = xs"
    if "queue_contents (rx_queue sp) = x # xs"
    using byte_fifo.pop_first [OF q(1) that] q(2) by (auto simp: serial_read_char_def sp_inv_def)
qed

end
