(* ===== verification/Events.thy ===== *)
theory Events
  imports Fifo
begin

text \<open>
  The input events (\<open>controller/input/keyboard.h\<close>, \<open>mouse.h\<close>, \<open>controller/serial.h\<close>,
  \<open>events.h\<close>) and the event queue of \<open>controller/input/events.c\<close>, a ring of 64 events that drops
  its oldest event when it is full. \<open>input_dispatch\<close>, which drains it, is in the theory that
  models the main loop.
\<close>

section \<open>Events\<close>

datatype Direction = DIR_NONE | DIR_LEFT | DIR_RIGHT | DIR_UP | DIR_DOWN | DIR_HOME | DIR_END

record KeyEvent =
  ev_c :: char
  ev_ctrl :: bool
  ev_shift :: bool
  ev_altgr :: bool
  ev_backspace :: bool
  ev_enter :: bool
  ev_escape :: bool
  ev_dir :: Direction

record MouseEvent =
  left_clicked :: bool
  left_holding :: bool
  click_x :: int
  click_y :: int
  me_scroll :: int

text \<open>\<open>payload_buf\<close> has 256 bytes, of which only the first \<open>payload_len\<close> are ever written.\<close>

record SerialEvent =
  se_cmd :: u8
  se_payload :: "u8 cells"
  se_len :: u8

text \<open>The tagged union: \<open>type\<close> selects the member of \<open>data\<close>.\<close>

datatype InputEvent = INPUT_EVENT_KEY KeyEvent | INPUT_EVENT_MOUSE MouseEvent | INPUT_EVENT_SERIAL SerialEvent

section \<open>The queue\<close>

definition INPUT_EVENT_QUEUE_SIZE :: nat where "INPUT_EVENT_QUEUE_SIZE = 64"

record event_queue =
  eq_queue :: "InputEvent cells"
  eq_head :: int
  eq_tail :: int
  eq_count :: int

definition event_queue0 :: event_queue where
  "event_queue0 = \<lparr>eq_queue = replicate INPUT_EVENT_QUEUE_SIZE None, eq_head = 0, eq_tail = 0, eq_count = 0\<rparr>"

definition input_event_push :: "event_queue \<Rightarrow> InputEvent \<Rightarrow> (bool \<times> event_queue) option" where
  "input_event_push q ev =
     (let q = (if int INPUT_EVENT_QUEUE_SIZE \<le> eq_count q
               then q\<lparr>eq_head := (eq_head q + 1) mod int INPUT_EVENT_QUEUE_SIZE, eq_count := eq_count q - 1\<rparr>
               else q)
      in do {
        arr \<leftarrow> awrite (eq_queue q) (eq_tail q) ev;
        Some (True, q\<lparr>eq_queue := arr, eq_tail := (eq_tail q + 1) mod int INPUT_EVENT_QUEUE_SIZE,
                      eq_count := eq_count q + 1\<rparr>)
      })"

text \<open>With \<open>out\<close> not \<open>NULL\<close>, as in its only caller.\<close>

definition input_event_pop :: "event_queue \<Rightarrow> (InputEvent option \<times> event_queue) option" where
  "input_event_pop q =
     (if eq_count q = 0 then Some (None, q)
      else do {
        ev \<leftarrow> aread (eq_queue q) (eq_head q);
        Some (Some ev, q\<lparr>eq_head := (eq_head q + 1) mod int INPUT_EVENT_QUEUE_SIZE, eq_count := eq_count q - 1\<rparr>)
      })"

definition input_events_is_empty :: "event_queue \<Rightarrow> bool" where
  "input_events_is_empty q \<longleftrightarrow> eq_count q = 0"

definition input_events_clear :: "event_queue \<Rightarrow> event_queue" where
  "input_events_clear q = q\<lparr>eq_head := 0, eq_tail := 0, eq_count := 0\<rparr>"

section \<open>The queue as a list of events\<close>

definition events_rep :: "event_queue \<Rightarrow> InputEvent list \<Rightarrow> bool" where
  "events_rep q xs \<longleftrightarrow> (\<exists>h. ring INPUT_EVENT_QUEUE_SIZE (eq_queue q) h xs \<and> eq_head q = int h
     \<and> eq_count q = int (length xs) \<and> eq_tail q = int ((h + length xs) mod INPUT_EVENT_QUEUE_SIZE))"

definition pending :: "event_queue \<Rightarrow> InputEvent list" where
  "pending q = map (\<lambda>i. the (eq_queue q ! ((nat (eq_head q) + i) mod INPUT_EVENT_QUEUE_SIZE)))
                 [0..<nat (eq_count q)]"

definition events_inv :: "event_queue \<Rightarrow> bool" where
  "events_inv q \<longleftrightarrow> (\<exists>xs. events_rep q xs)"

lemma events_rep_pending: "events_rep q xs \<Longrightarrow> pending q = xs"
  by (auto simp: events_rep_def pending_def ring_def intro: nth_equalityI)

lemma events_inv_rep: "events_inv q \<Longrightarrow> events_rep q (pending q)"
  unfolding events_inv_def by (metis events_rep_pending)

lemma events_repI: "events_rep q xs \<Longrightarrow> events_inv q \<and> pending q = xs"
  by (auto simp: events_inv_def dest: events_rep_pending)

lemma events_rep0: "events_rep event_queue0 []"
  by (auto simp: events_rep_def event_queue0_def ring_def INPUT_EVENT_QUEUE_SIZE_def)

lemma events_rep_clear: "events_rep q xs \<Longrightarrow> events_rep (input_events_clear q) []"
  by (auto simp: events_rep_def input_events_clear_def ring_def INPUT_EVENT_QUEUE_SIZE_def)

lemma events_rep_pop:
  assumes "events_rep q (x # xs)"
  shows "\<exists>q'. input_event_pop q = Some (Some x, q') \<and> events_rep q' xs"
    and "events_rep (q\<lparr>eq_head := (eq_head q + 1) mod int INPUT_EVENT_QUEUE_SIZE, eq_count := eq_count q - 1\<rparr>) xs"
proof -
  let ?q = "q\<lparr>eq_head := (eq_head q + 1) mod int INPUT_EVENT_QUEUE_SIZE, eq_count := eq_count q - 1\<rparr>"
  from assms obtain h where h: "ring INPUT_EVENT_QUEUE_SIZE (eq_queue q) h (x # xs)" "eq_head q = int h"
    "eq_count q = int (length (x # xs))" "eq_tail q = int ((h + length (x # xs)) mod INPUT_EVENT_QUEUE_SIZE)"
    by (auto simp: events_rep_def)
  have "h < length (eq_queue q)" using h(1) by (simp add: ring_def)
  then have r: "aread (eq_queue q) (eq_head q) = Some x"
    using h(2) ring_pop(1) [OF h(1)] by (simp add: aread_def in_range_def)
  have hd: "(eq_head q + 1) mod int INPUT_EVENT_QUEUE_SIZE = int ((h + 1) mod INPUT_EVENT_QUEUE_SIZE)"
    using h(2) by (simp add: zmod_int add.commute)
  have t: "eq_tail q = int (((h + 1) mod INPUT_EVENT_QUEUE_SIZE + length xs) mod INPUT_EVENT_QUEUE_SIZE)"
    using h(4) by (simp add: mod_simps)
  show rep: "events_rep ?q xs"
    using ring_pop(2) [OF h(1)] hd t h(3) by (auto simp: events_rep_def)
  show "\<exists>q'. input_event_pop q = Some (Some x, q') \<and> events_rep q' xs"
    using rep r h(3) by (auto simp: input_event_pop_def)
qed

lemma events_rep_push:
  assumes "events_rep q xs"
  shows "\<exists>q'. input_event_push q ev = Some (True, q')
    \<and> events_rep q' ((if length xs < INPUT_EVENT_QUEUE_SIZE then xs else tl xs) @ [ev])"
proof -
  let ?room = "if int INPUT_EVENT_QUEUE_SIZE \<le> eq_count q
     then q\<lparr>eq_head := (eq_head q + 1) mod int INPUT_EVENT_QUEUE_SIZE, eq_count := eq_count q - 1\<rparr> else q"
  let ?ys = "if length xs < INPUT_EVENT_QUEUE_SIZE then xs else tl xs"
  have le: "length xs \<le> INPUT_EVENT_QUEUE_SIZE" and c: "eq_count q = int (length xs)"
    using assms by (auto simp: events_rep_def ring_def)
  have room: "events_rep ?room ?ys" and l: "length ?ys < INPUT_EVENT_QUEUE_SIZE"
    using assms c le events_rep_pop(2) [of q] by (cases xs; auto simp: INPUT_EVENT_QUEUE_SIZE_def)+
  from room obtain h where h: "ring INPUT_EVENT_QUEUE_SIZE (eq_queue ?room) h ?ys" "eq_head ?room = int h"
    "eq_count ?room = int (length ?ys)" "eq_tail ?room = int ((h + length ?ys) mod INPUT_EVENT_QUEUE_SIZE)"
    by (auto simp only: events_rep_def)
  let ?i = "(h + length ?ys) mod INPUT_EVENT_QUEUE_SIZE"
  have "?i < length (eq_queue ?room)" using h(1) by (simp only: ring_def) simp
  then have w: "awrite (eq_queue ?room) (eq_tail ?room) ev = Some ((eq_queue ?room)[?i := Some ev])"
    unfolding h(4) by (simp only: awrite_def in_range_def) simp
  have t: "(eq_tail ?room + 1) mod int INPUT_EVENT_QUEUE_SIZE
           = int ((h + length (?ys @ [ev])) mod INPUT_EVENT_QUEUE_SIZE)"
    unfolding h(4) by (simp add: zmod_int mod_simps ac_simps)
  let ?q' = "?room\<lparr>eq_queue := (eq_queue ?room)[?i := Some ev],
      eq_tail := (eq_tail ?room + 1) mod int INPUT_EVENT_QUEUE_SIZE, eq_count := eq_count ?room + 1\<rparr>"
  have "input_event_push q ev = Some (True, ?q')"
    unfolding input_event_push_def Let_def w by simp
  moreover have "events_rep ?q' (?ys @ [ev])"
    unfolding events_rep_def
    by (rule exI [of _ h]) (use ring_push [OF h(1) l, of ev] h(2,3) t in \<open>simp\<close>)
  ultimately show ?thesis by blast
qed

interpretation event_fifo: overwriting_fifo pending events_inv INPUT_EVENT_QUEUE_SIZE input_event_pop
  input_event_push
proof unfold_locales
  fix q assume "events_inv q"
  then have r: "events_rep q (pending q)" by (rule events_inv_rep)
  then show "length (pending q) \<le> INPUT_EVENT_QUEUE_SIZE" by (auto simp: events_rep_def ring_def)
  show "input_event_pop q = Some (None, q)" if "pending q = []"
    using r that by (auto simp: input_event_pop_def events_rep_def)
  show "\<exists>q'. input_event_pop q = Some (Some x, q') \<and> events_inv q' \<and> pending q' = xs"
    if "pending q = x # xs" for x xs
    using events_rep_pop(1) [of q x xs] r that by (auto dest: events_repI)
  show "\<exists>q'. input_event_push q x = Some (True, q') \<and> events_inv q' \<and>
          pending q' = (if length (pending q) < INPUT_EVENT_QUEUE_SIZE then pending q else tl (pending q)) @ [x]"
    for x using events_rep_push [OF r, of x] by (auto dest!: events_repI)
qed (simp add: INPUT_EVENT_QUEUE_SIZE_def)

text \<open>C29: The event queue never refuses an event and never runs out of its array: after any
  sequence of pushes it holds the most recent 64 of the pending and pushed events, in order,
  and the drain loop of \<open>input_dispatch\<close> passes exactly those, oldest first, to the handler and
  leaves the queue empty, whatever the handler does to its own state.\<close>

theorem event_queue_keeps_latest:
  assumes "events_inv q"
  shows "\<exists>q1 q2. run_all (\<lambda>x q. map_option snd (input_event_push q x)) evs q = Some q1
    \<and> events_inv q1 \<and> events_inv q2 \<and> input_events_is_empty q2
    \<and> pending q1 = drop (length (pending q) + length evs - 64) (pending q @ evs)
    \<and> drain input_event_pop handle q1 s = map_option (Pair q2) (run_all handle (pending q1) s)"
proof -
  obtain q1 where q1: "run_all (\<lambda>x q. map_option snd (input_event_push q x)) evs q = Some q1"
    "events_inv q1" "pending q1 = drop (length (pending q) + length evs - INPUT_EVENT_QUEUE_SIZE) (pending q @ evs)"
    using event_fifo.push_sequence [OF assms] by blast
  obtain q2 where q2: "events_inv q2" "pending q2 = []"
    "drain input_event_pop handle q1 s = map_option (Pair q2) (run_all handle (pending q1) s)"
    using event_fifo.drain_contents [OF q1(2), of handle s] by auto
  have "input_events_is_empty q2"
    using events_inv_rep [OF q2(1)] q2(2) by (auto simp: input_events_is_empty_def events_rep_def)
  with q1 q2 show ?thesis
    by (intro exI [of _ q1] exI [of _ q2]) (simp add: INPUT_EVENT_QUEUE_SIZE_def)
qed

lemma events_inv0: "events_inv event_queue0" and pending0: "pending event_queue0 = []"
  using events_repI [OF events_rep0] by simp_all

text \<open>A character key pressed without modifiers.\<close>

definition plain_key :: "char \<Rightarrow> KeyEvent" where
  "plain_key c = \<lparr>ev_c = c, ev_ctrl = False, ev_shift = False, ev_altgr = False,
     ev_backspace = False, ev_enter = False, ev_escape = False, ev_dir = DIR_NONE\<rparr>"

theorem event_queue_keeps_latest_witness:
  "\<exists>q1. run_all (\<lambda>x q. map_option snd (input_event_push q x))
            (replicate 70 (INPUT_EVENT_KEY (plain_key (CHR ''a'')))) event_queue0 = Some q1
          \<and> length (pending q1) = 64"
proof -
  obtain q1 where "run_all (\<lambda>x q. map_option snd (input_event_push q x))
            (replicate 70 (INPUT_EVENT_KEY (plain_key (CHR ''a'')))) event_queue0 = Some q1"
    "pending q1 = drop (length (pending event_queue0) + 70 - 64)
       (pending event_queue0 @ replicate 70 (INPUT_EVENT_KEY (plain_key (CHR ''a''))))"
    using event_queue_keeps_latest [OF events_inv0, of "replicate 70 (INPUT_EVENT_KEY (plain_key (CHR ''a'')))"
        "\<lambda>_ (s::unit). Some s" "()"] by (metis length_replicate)
  then show ?thesis by (simp add: pending0)
qed

end
