(* ===== verification/Framing.thy ===== *)
theory Framing
  imports Prelude
begin

text \<open>
  Decoders that are fed one byte at a time and now and then deliver a packet: the serial protocol
  and the three-byte packets of the mouse. The interface says that a frame fed to an idle decoder
  delivers its packet and leaves it idle again; streams of frames follow, however they are cut.
\<close>

fun feed :: "('b \<Rightarrow> 's \<Rightarrow> ('s \<times> 'e option) option) \<Rightarrow> 'b list \<Rightarrow> 's \<Rightarrow> ('s \<times> 'e list) option" where
  "feed step [] s = Some (s, [])"
| "feed step (b # bs) s = do {
     (s, e) \<leftarrow> step b s;
     (s, es) \<leftarrow> feed step bs s;
     Some (s, (case e of None \<Rightarrow> es | Some x \<Rightarrow> x # es))
   }"

text \<open>The bytes can arrive in any portions.\<close>

lemma feed_append:
  "feed step (as @ bs) s = do {
     (s, es) \<leftarrow> feed step as s;
     (s, fs) \<leftarrow> feed step bs s;
     Some (s, es @ fs)
   }"
  by (induction as arbitrary: s) (auto split: Option.bind_splits option.splits)

lemma feed_appendI:
  "feed step as s = Some (s', es) \<Longrightarrow> feed step bs s' = Some (s'', fs) \<Longrightarrow> feed step (as @ bs) s = Some (s'', es @ fs)"
  by (simp add: feed_append)

lemma feed_quiet:
  assumes "\<And>b s. b \<in> set bs \<Longrightarrow> P s \<Longrightarrow> \<exists>s'. step b s = Some (s', None) \<and> P s'" and "P s"
  shows "\<exists>s'. feed step bs s = Some (s', []) \<and> P s'"
  using assms
proof (induction bs arbitrary: s)
  case (Cons b bs)
  then obtain s1 where s1: "step b s = Some (s1, None)" "P s1" by (meson list.set_intros(1))
  obtain s2 where "feed step bs s1 = Some (s2, [])" "P s2" using Cons.IH [of s1] Cons.prems(1) s1(2) by auto
  with s1 show ?case by simp
qed simp

locale framing =
  fixes step :: "'b \<Rightarrow> 's \<Rightarrow> ('s \<times> 'e option) option"
    and idle :: "'s \<Rightarrow> bool"
    and frame :: "'p \<Rightarrow> 'b list"
    and packet :: "'p \<Rightarrow> 'e"
    and sendable :: "'p \<Rightarrow> bool"
    and noise :: "'b \<Rightarrow> bool"
  assumes framed: "idle s \<Longrightarrow> sendable p \<Longrightarrow> \<exists>s'. feed step (frame p) s = Some (s', [packet p]) \<and> idle s'"
    and skipped: "idle s \<Longrightarrow> noise b \<Longrightarrow> \<exists>s'. step b s = Some (s', None) \<and> idle s'"
begin

lemma noise_skipped: "idle s \<Longrightarrow> (\<forall>b \<in> set bs. noise b) \<Longrightarrow> \<exists>s'. feed step bs s = Some (s', []) \<and> idle s'"
  by (rule feed_quiet [where P = idle]) (auto dest: skipped)

text \<open>A stream of frames, with noise in front of each one, delivers the packets in order.\<close>

lemma stream:
  assumes "idle s" and "\<forall>(bs, p) \<in> set ps. sendable p \<and> (\<forall>b \<in> set bs. noise b)"
  shows "\<exists>s'. feed step (concat (map (\<lambda>(bs, p). bs @ frame p) ps)) s = Some (s', map (packet \<circ> snd) ps) \<and> idle s'"
  using assms
proof (induction ps arbitrary: s)
  case (Cons q ps)
  obtain bs p where q: "q = (bs, p)" by force
  obtain s1 where s1: "feed step bs s = Some (s1, [])" "idle s1"
    using noise_skipped [OF Cons.prems(1), of bs] Cons.prems(2) q by auto
  obtain s2 where s2: "feed step (frame p) s1 = Some (s2, [packet p])" "idle s2"
    using framed [OF s1(2), of p] Cons.prems q by auto
  obtain s3 where s3: "feed step (concat (map (\<lambda>(bs, p). bs @ frame p) ps)) s2 = Some (s3, map (packet \<circ> snd) ps)" "idle s3"
    using Cons.IH [OF s2(2)] Cons.prems(2) by auto
  have "feed step ((bs @ frame p) @ concat (map (\<lambda>(bs, p). bs @ frame p) ps)) s
      = Some (s3, ([] @ [packet p]) @ map (packet \<circ> snd) ps)"
    by (rule feed_appendI [OF feed_appendI [OF s1(1) s2(1)] s3(1)])
  with s3(2) q show ?case by simp
qed simp

end

end
