(* ===== verification/Serial.thy ===== *)
theory Serial
  imports SerialPort Events Framing
begin

text \<open>
  \<open>controller/serial.c\<close>: the packet protocol of the shared session. The receiving state machine takes
  one byte at a time and pushes an event for every complete packet; \<open>build_packet_serial\<close> makes
  and sends the packet of a command.
\<close>

definition PKT_START_BYTE :: u8 where "PKT_START_BYTE = 0xFE"

datatype SerialCommand = CMD_INSERT_CHAR | CMD_DELETE_CHAR | CMD_MOVE_CURSOR | CMD_REPLACE_BLOCK | CMD_UPDATE_LINE
  | CMD_FILE_START | CMD_FILE_LINE

primrec cmd_code :: "SerialCommand \<Rightarrow> u8" where
  "cmd_code CMD_INSERT_CHAR = 0x01"
| "cmd_code CMD_DELETE_CHAR = 0x02"
| "cmd_code CMD_MOVE_CURSOR = 0x03"
| "cmd_code CMD_REPLACE_BLOCK = 0x05"
| "cmd_code CMD_UPDATE_LINE = 0x06"
| "cmd_code CMD_FILE_START = 0x10"
| "cmd_code CMD_FILE_LINE = 0x11"

datatype ProtocolState = STATE_WAIT_START | STATE_READ_CMD | STATE_READ_LEN | STATE_READ_PAYLOAD

record serial_state =
  ps_state :: ProtocolState
  current_cmd :: u8
  payload_len :: u8
  payload_buf :: "u8 cells"
  payload_idx :: int

definition serial_state0 :: serial_state where
  "serial_state0 = \<lparr>ps_state = STATE_WAIT_START, current_cmd = 0, payload_len = 0,
     payload_buf = replicate 256 (Some 0), payload_idx = 0\<rparr>"

section \<open>Receiving\<close>

text \<open>One byte, with the event to push if it completes a packet. The event is an automatic variable.\<close>

definition serial_byte :: "u8 \<Rightarrow> serial_state \<Rightarrow> (serial_state \<times> SerialEvent option) option" where
  "serial_byte byte s = (case ps_state s of
     STATE_WAIT_START \<Rightarrow>
       Some (if byte = PKT_START_BYTE then s\<lparr>ps_state := STATE_READ_CMD\<rparr> else s, None)
   | STATE_READ_CMD \<Rightarrow> Some (s\<lparr>current_cmd := byte, ps_state := STATE_READ_LEN\<rparr>, None)
   | STATE_READ_LEN \<Rightarrow>
       (let s = s\<lparr>payload_len := byte, payload_idx := 0\<rparr>
        in if payload_len s = 0
           then Some (s\<lparr>ps_state := STATE_WAIT_START\<rparr>,
                  Some \<lparr>se_cmd = current_cmd s, se_payload = replicate 256 None, se_len = payload_len s\<rparr>)
           else Some (s\<lparr>ps_state := STATE_READ_PAYLOAD\<rparr>, None))
   | STATE_READ_PAYLOAD \<Rightarrow> do {
       buf \<leftarrow> awrite (payload_buf s) (payload_idx s) byte;
       let s = s\<lparr>payload_buf := buf, payload_idx := payload_idx s + 1\<rparr>;
       if uint (payload_len s) \<le> payload_idx s
       then do {
         ev_buf \<leftarrow> blit (replicate 256 None) 0 (payload_buf s) 0 (uint (payload_len s));
         Some (s\<lparr>ps_state := STATE_WAIT_START\<rparr>,
               Some \<lparr>se_cmd = current_cmd s, se_payload = ev_buf, se_len = payload_len s\<rparr>)
       } else Some (s, None)
     })"

definition serial_handle_byte :: "u8 \<Rightarrow> serial_state \<times> event_queue \<Rightarrow> (serial_state \<times> event_queue) option" where
  "serial_handle_byte byte = (\<lambda>(s, q). do {
     (s, ev) \<leftarrow> serial_byte byte s;
     case ev of None \<Rightarrow> Some (s, q)
     | Some e \<Rightarrow> do {
         (ok, q) \<leftarrow> input_event_push q (INPUT_EVENT_SERIAL e);
         Some (s, q)
       }
   })"

definition serial_process :: "'w io \<Rightarrow> serial_port \<Rightarrow> serial_state \<times> event_queue \<Rightarrow> 'w
    \<Rightarrow> (serial_port \<times> (serial_state \<times> event_queue) \<times> 'w) option" where
  "serial_process io sp sq w = do {
     (sp, w) \<leftarrow> serial_ih io sp w;
     (sp, sq) \<leftarrow> drain serial_read_char serial_handle_byte sp sq;
     Some (sp, sq, w)
   }"

section \<open>Sending\<close>

text \<open>\<open>buf[1..]\<close> of \<open>build_packet_serial\<close>; \<open>payload\<close> is read up to \<open>n\<close> bytes.\<close>

fun copy_bytes :: "u8 cells \<Rightarrow> int \<Rightarrow> nat \<Rightarrow> u8 list option" where
  "copy_bytes payload i 0 = Some []"
| "copy_bytes payload i (Suc n) = do { b \<leftarrow> aread payload i; bs \<leftarrow> copy_bytes payload (i + 1) n; Some (b # bs) }"

definition packet_body :: "SerialCommand \<Rightarrow> u8 cells \<Rightarrow> int \<Rightarrow> u16 \<Rightarrow> u8 list option" where
  "packet_body cmd payload len num_lines = (case cmd of
     CMD_INSERT_CHAR \<Rightarrow> do { b \<leftarrow> aread payload 0; Some [cmd_code cmd, 0x01, b] }
   | CMD_DELETE_CHAR \<Rightarrow> Some [cmd_code cmd, 0x00]
   | CMD_MOVE_CURSOR \<Rightarrow> do { bs \<leftarrow> copy_bytes payload 0 4; Some ([cmd_code cmd, 0x04] @ bs) }
   | CMD_REPLACE_BLOCK \<Rightarrow> do { bs \<leftarrow> copy_bytes payload 0 6; Some ([cmd_code cmd, 0x06] @ bs) }
   | CMD_UPDATE_LINE \<Rightarrow>
       (let len = (if 250 < len then 250 else len)
        in if len < 0 then None
           else do { bs \<leftarrow> copy_bytes payload 0 (nat len);
                     Some ([cmd_code cmd, word_of_int (len + 2), ucast (drop_bit 8 num_lines AND 0xFF), ucast (num_lines AND 0xFF)] @ bs) })
   | CMD_FILE_START \<Rightarrow>
       (let len = (if 250 < len then 250 else len)
        in if len < 0 then None
           else do { bs \<leftarrow> copy_bytes payload 0 (nat len);
                     Some ([cmd_code cmd, word_of_int (len + 2), ucast (drop_bit 8 num_lines AND 0xFF), ucast (num_lines AND 0xFF)] @ bs) })
   | CMD_FILE_LINE \<Rightarrow>
       (let len = (if 252 < len then 252 else len)
        in if len < 0 then None
           else do { bs \<leftarrow> copy_bytes payload 0 (nat len);
                     Some ([cmd_code cmd, word_of_int len] @ bs) }))"

text \<open>The result of \<open>serial_write_char\<close> is ignored: a byte that times out is lost.\<close>

fun send_bytes :: "'w io \<Rightarrow> u8 list \<Rightarrow> 'w \<Rightarrow> 'w" where
  "send_bytes io [] w = w"
| "send_bytes io (b # bs) w = send_bytes io bs (snd (serial_write_char io b w))"

definition send_packet :: "'w io \<Rightarrow> u8 list \<Rightarrow> 'w \<Rightarrow> 'w" where
  "send_packet io body = send_bytes io (PKT_START_BYTE # body)"

definition build_packet_serial :: "'w io \<Rightarrow> SerialCommand \<Rightarrow> u8 cells \<Rightarrow> int \<Rightarrow> u16 \<Rightarrow> 'w \<Rightarrow> 'w option" where
  "build_packet_serial io cmd payload len num_lines w = do {
     body \<leftarrow> packet_body cmd payload len num_lines;
     Some (send_packet io body w)
   }"

section \<open>The frame format\<close>

definition frame_bytes :: "u8 \<times> u8 list \<Rightarrow> u8 list" where
  "frame_bytes p = [PKT_START_BYTE, fst p, of_nat (length (snd p))] @ snd p"

definition frame_event :: "u8 \<times> u8 list \<Rightarrow> SerialEvent" where
  "frame_event p = \<lparr>se_cmd = fst p, se_payload = map Some (snd p) @ replicate (256 - length (snd p)) None,
     se_len = of_nat (length (snd p))\<rparr>"

definition waiting :: "serial_state \<Rightarrow> bool" where
  "waiting s \<longleftrightarrow> ps_state s = STATE_WAIT_START \<and> length (payload_buf s) = 256"

lemma waiting0: "waiting serial_state0"
  by (simp add: waiting_def serial_state0_def)

lemma uint_len: "length bs < 256 \<Longrightarrow> uint (of_nat (length bs) :: u8) = int (length bs)"
  by (simp add: uint_nat unat_of_nat)

text \<open>The bytes of the payload, \<open>pre\<close> already received.\<close>

lemma feed_payload:
  assumes "ps_state s = STATE_READ_PAYLOAD" and "payload_buf s = map Some pre @ rest" and "payload_idx s = int (length pre)"
    and "length (payload_buf s) = 256" and "length (pre @ bs) < 256" and "bs \<noteq> []" and "payload_len s = of_nat (length (pre @ bs))"
  shows "\<exists>s'. feed serial_byte bs s = Some (s', [frame_event (current_cmd s, pre @ bs)]) \<and> waiting s'"
  using assms
proof (induction bs arbitrary: s pre rest)
  case (Cons b bs)
  obtain r rest' where rest: "rest = r # rest'" using Cons.prems(2,4,5) by (cases rest) auto
  have w: "awrite (payload_buf s) (payload_idx s) b = Some (map Some (pre @ [b]) @ rest')"
    using Cons.prems(2,3) rest by (simp add: mem_simps)
  have len: "uint (payload_len s) = int (length (pre @ b # bs))"
    unfolding Cons.prems(7) by (rule uint_len) (rule Cons.prems(5))
  let ?s = "s\<lparr>payload_buf := map Some (pre @ [b]) @ rest', payload_idx := payload_idx s + 1\<rparr>"
  show ?case
  proof (cases "bs = []")
    case True
    have l: "length (map Some (pre @ [b]) @ rest') = 256" using Cons.prems(2,4) rest by simp
    have "blit (replicate 256 None) 0 (map Some (pre @ [b]) @ rest') 0 (int (length (pre @ [b])))
        = Some (map Some (pre @ [b]) @ replicate (256 - length (pre @ [b])) None)"
    proof -
      have split: "replicate 256 (None :: u8 option) = [] @ replicate (length (pre @ [b])) None @ replicate (256 - length (pre @ [b])) None"
        using Cons.prems(5) True by (simp only: append_Nil) (rule replicate_split, simp)
      show ?thesis unfolding split
        using blit_split [of 0 "[]" "int (length (pre @ [b]))" "map Some (pre @ [b])" "replicate (length (pre @ [b])) None" 0 "[]" _ rest']
        by simp
    qed
    then have "serial_byte b s = Some (?s\<lparr>ps_state := STATE_WAIT_START\<rparr>, Some (frame_event (current_cmd s, pre @ [b])))"
      using Cons.prems(1,3,7) w len True by (simp add: serial_byte_def frame_event_def Let_def)
    then show ?thesis using True l by (simp add: waiting_def)
  next
    case False
    then have "serial_byte b s = Some (?s, None)"
      using Cons.prems(1,3) w len by (simp add: serial_byte_def Let_def)
    moreover have "\<exists>s'. feed serial_byte bs ?s = Some (s', [frame_event (current_cmd ?s, (pre @ [b]) @ bs)]) \<and> waiting s'"
      by (rule Cons.IH [where rest = rest']) (use Cons.prems False rest in simp_all)
    ultimately show ?thesis by auto
  qed
qed simp

lemma feed_frame:
  assumes "waiting s" and "length (snd p) < 256"
  shows "\<exists>s'. feed serial_byte (frame_bytes p) s = Some (s', [frame_event p]) \<and> waiting s'"
proof -
  obtain c bs where p: "p = (c, bs)" by force
  let ?s1 = "s\<lparr>ps_state := STATE_READ_CMD\<rparr>"
  let ?s2 = "?s1\<lparr>current_cmd := c, ps_state := STATE_READ_LEN\<rparr>"
  let ?s3 = "?s2\<lparr>payload_len := of_nat (length bs), payload_idx := 0\<rparr>"
  have s1: "serial_byte PKT_START_BYTE s = Some (?s1, None)" using assms(1) by (simp add: serial_byte_def waiting_def)
  have s2: "serial_byte c ?s1 = Some (?s2, None)" by (simp add: serial_byte_def)
  show ?thesis
  proof (cases "bs = []")
    case True
    have "serial_byte 0 ?s2 = Some (?s3\<lparr>ps_state := STATE_WAIT_START\<rparr>, Some (frame_event p))"
      using True p by (simp add: serial_byte_def frame_event_def Let_def)
    then show ?thesis using s1 s2 p True assms(1) by (simp add: frame_bytes_def waiting_def)
  next
    case False
    have nz: "(of_nat (length bs) :: u8) \<noteq> 0"
      using uint_len [of bs] assms(2) p False by auto
    then have s3: "serial_byte (of_nat (length bs)) ?s2 = Some (?s3\<lparr>ps_state := STATE_READ_PAYLOAD\<rparr>, None)"
      by (simp add: serial_byte_def Let_def)
    have "\<exists>s'. feed serial_byte bs (?s3\<lparr>ps_state := STATE_READ_PAYLOAD\<rparr>)
        = Some (s', [frame_event (current_cmd (?s3\<lparr>ps_state := STATE_READ_PAYLOAD\<rparr>), [] @ bs)]) \<and> waiting s'"
      by (rule feed_payload [where rest = "payload_buf s"])
        (use assms p False in \<open>simp_all add: waiting_def\<close>)
    then show ?thesis using s1 s2 s3 p by (auto simp: frame_bytes_def)
  qed
qed

interpretation serial_frames: framing serial_byte waiting frame_bytes frame_event "\<lambda>p. length (snd p) < 256"
  "\<lambda>b. b \<noteq> PKT_START_BYTE"
proof unfold_locales
  show "\<exists>s'. feed serial_byte (frame_bytes p) s = Some (s', [frame_event p]) \<and> waiting s'"
    if "waiting s" "length (snd p) < 256" for s p by (rule feed_frame [OF that])
  show "\<exists>s'. serial_byte b s = Some (s', None) \<and> waiting s'" if "waiting s" "b \<noteq> PKT_START_BYTE" for s b
    using that by (simp add: serial_byte_def waiting_def)
qed

text \<open>What \<open>build_packet_serial\<close> puts on the line is the frame of a command.\<close>

lemma copy_bytes_eq: "copy_bytes (map Some (pre @ bs) @ rest) (int (length pre)) (length bs) = Some bs"
proof (induction bs arbitrary: pre)
  case (Cons b bs)
  have "copy_bytes (map Some ((pre @ [b]) @ bs) @ rest) (int (length (pre @ [b]))) (length bs) = Some bs"
    by (rule Cons.IH)
  moreover have "aread (map Some (pre @ b # bs) @ rest) (int (length pre)) = Some b" by (simp add: mem_simps)
  ultimately show ?case by (simp add: add.commute)
qed simp

text \<open>The payload a command sends: what its length limit leaves of the bytes, after the line number.\<close>

definition sent_payload :: "SerialCommand \<Rightarrow> u8 list \<Rightarrow> u16 \<Rightarrow> u8 list" where
  "sent_payload cmd bs n = (case cmd of
     CMD_INSERT_CHAR \<Rightarrow> take 1 bs
   | CMD_DELETE_CHAR \<Rightarrow> []
   | CMD_MOVE_CURSOR \<Rightarrow> take 4 bs
   | CMD_REPLACE_BLOCK \<Rightarrow> take 6 bs
   | CMD_UPDATE_LINE \<Rightarrow> [util_get_MSB n, util_get_LSB n] @ take 250 bs
   | CMD_FILE_START \<Rightarrow> [util_get_MSB n, util_get_LSB n] @ take 250 bs
   | CMD_FILE_LINE \<Rightarrow> take 252 bs)"

definition enough_bytes :: "SerialCommand \<Rightarrow> u8 list \<Rightarrow> bool" where
  "enough_bytes cmd bs \<longleftrightarrow> (case cmd of CMD_INSERT_CHAR \<Rightarrow> 1 \<le> length bs | CMD_MOVE_CURSOR \<Rightarrow> 4 \<le> length bs
     | CMD_REPLACE_BLOCK \<Rightarrow> 6 \<le> length bs | _ \<Rightarrow> True)"

lemma MSB_masked: "ucast (drop_bit 8 n AND 0xFF) = util_get_MSB n"
proof -
  have m: "(0xFF :: u16) = mask 8" by (simp add: mask_eq_exp_minus_1)
  show ?thesis unfolding util_get_MSB_def m by (rule bit_word_eqI) (auto simp: bit_simps)
qed

lemma copy_take: "n \<le> length bs \<Longrightarrow> copy_bytes (map Some bs @ rest) 0 n = Some (take n bs)"
  using copy_bytes_eq [of "[]" "take n bs" "map Some (drop n bs) @ rest"]
  by (simp flip: map_append append_assoc)

lemma packet_body_frame:
  assumes "enough_bytes cmd bs"
  shows "map_option (\<lambda>body. PKT_START_BYTE # body) (packet_body cmd (map Some bs @ rest) (int (length bs)) n)
       = Some (frame_bytes (cmd_code cmd, sent_payload cmd bs n))"
proof -
  have c250: "copy_bytes (map Some bs @ rest) 0 (nat (if 250 < int (length bs) then 250 else int (length bs))) = Some (take 250 bs)"
    using copy_take [of 250 bs rest] copy_take [of "length bs" bs rest] by (cases "250 < length bs") auto
  have c252: "copy_bytes (map Some bs @ rest) 0 (nat (if 252 < int (length bs) then 252 else int (length bs))) = Some (take 252 bs)"
    using copy_take [of 252 bs rest] copy_take [of "length bs" bs rest] by (cases "252 < length bs") auto
  show ?thesis
  proof (cases cmd)
    case CMD_INSERT_CHAR
    with assms obtain b bs' where "bs = b # bs'" by (cases bs) (auto simp: enough_bytes_def)
    with CMD_INSERT_CHAR show ?thesis using aread_split [of 0 "[]" "Some b" "map Some bs' @ rest"]
      by (simp add: packet_body_def frame_bytes_def sent_payload_def)
  next
    case CMD_UPDATE_LINE
    then show ?thesis using c250
      by (auto simp: packet_body_def frame_bytes_def sent_payload_def Let_def MSB_masked util_get_LSB_def min_def add.commute)
  next
    case CMD_FILE_START
    then show ?thesis using c250
      by (auto simp: packet_body_def frame_bytes_def sent_payload_def Let_def MSB_masked util_get_LSB_def min_def add.commute)
  next
    case CMD_FILE_LINE
    then show ?thesis using c252
      by (auto simp: packet_body_def frame_bytes_def sent_payload_def Let_def min_def)
  qed (use assms copy_take [of 4 bs rest] copy_take [of 6 bs rest] in
       \<open>auto simp: packet_body_def frame_bytes_def sent_payload_def enough_bytes_def min_def\<close>)
qed

lemma sent_payload_short: "length (sent_payload cmd bs n) < 256"
  by (cases cmd) (auto simp: sent_payload_def)

section \<open>Any bytes at all\<close>

text \<open>The states between two bytes: inside a payload there is room for the bytes still missing.\<close>

definition serial_inv :: "serial_state \<Rightarrow> bool" where
  "serial_inv s \<longleftrightarrow> length (payload_buf s) = 256 \<and> list_all (\<lambda>c. c \<noteq> None) (payload_buf s)
     \<and> (ps_state s = STATE_READ_PAYLOAD \<longrightarrow> 0 \<le> payload_idx s \<and> payload_idx s < uint (payload_len s))"

lemma serial_inv0: "serial_inv serial_state0"
  by (simp add: serial_inv_def serial_state0_def list_all_iff)

lemma serial_byte_inv:
  assumes "serial_inv s"
  obtains s' e where "serial_byte b s = Some (s', e)" and "serial_inv s'"
proof (cases "ps_state s = STATE_READ_PAYLOAD")
  case True
  have i: "0 \<le> payload_idx s" "payload_idx s < uint (payload_len s)" and l: "length (payload_buf s) = 256"
    using assms True by (simp_all add: serial_inv_def)
  have u: "uint (payload_len s) < 256" using uint_lt2p [of "payload_len s"] by simp
  let ?b = "(payload_buf s)[nat (payload_idx s) := Some b]"
  have w: "awrite (payload_buf s) (payload_idx s) b = Some ?b"
    using i u l by (simp add: awrite_def in_range_def)
  have all: "list_all (\<lambda>c. c \<noteq> None) ?b"
    using assms by (auto simp: serial_inv_def list_all_iff dest!: set_update_subset_insert [THEN subsetD])
  obtain ev where ev: "blit (replicate 256 None) 0 ?b 0 (uint (payload_len s)) = Some ev"
    using u l uint_ge_0 [of "payload_len s"] by (simp add: blit_def in_range_def)
  show ?thesis
  proof (cases "uint (payload_len s) \<le> payload_idx s + 1")
    case le: True
    then have "serial_byte b s = Some (s\<lparr>payload_buf := ?b, payload_idx := payload_idx s + 1, ps_state := STATE_WAIT_START\<rparr>,
        Some \<lparr>se_cmd = current_cmd s, se_payload = ev, se_len = payload_len s\<rparr>)"
      using True w ev by (simp add: serial_byte_def Let_def)
    then show ?thesis by (rule that) (use l all in \<open>simp add: serial_inv_def\<close>)
  next
    case False
    then have "serial_byte b s = Some (s\<lparr>payload_buf := ?b, payload_idx := payload_idx s + 1\<rparr>, None)"
      using True w by (simp add: serial_byte_def Let_def)
    then show ?thesis by (rule that) (use l all False i in \<open>simp add: serial_inv_def\<close>)
  qed
next
  case False
  have pos: "b \<noteq> 0 \<Longrightarrow> 0 < uint b" using uint_ge_0 [of b] uint_0_iff [of b] by linarith
  show ?thesis
    using that assms False pos
    by (cases "ps_state s"; cases "b = 0") (auto simp: serial_byte_def serial_inv_def Let_def)
qed

lemma feed_serial_inv:
  assumes "serial_inv s"
  shows "\<exists>s' es. feed serial_byte bs s = Some (s', es) \<and> serial_inv s'"
  using assms
proof (induction bs arbitrary: s)
  case (Cons b bs)
  obtain s1 e where s1: "serial_byte b s = Some (s1, e)" "serial_inv s1" by (rule serial_byte_inv [OF Cons.prems])
  with Cons.IH [OF s1(2)] show ?case by auto
qed simp

lemma handle_bytes:
  assumes "feed serial_byte bs s = Some (s', es)" and "events_inv q"
  shows "\<exists>q'. run_all serial_handle_byte bs (s, q) = Some (s', q') \<and> events_inv q'
    \<and> pending q' = drop (length (pending q) + length es - 64) (pending q @ map INPUT_EVENT_SERIAL es)"
proof -
  have "run_all serial_handle_byte bs (s, q)
      = map_option (Pair s') (run_all (\<lambda>x q. map_option snd (input_event_push q x)) (map INPUT_EVENT_SERIAL es) q)"
    using assms(1)
  proof (induction bs arbitrary: s q es)
    case (Cons b bs)
    obtain s1 e es' where s1: "serial_byte b s = Some (s1, e)" "feed serial_byte bs s1 = Some (s', es')"
      "es = (case e of None \<Rightarrow> es' | Some x \<Rightarrow> x # es')"
      using Cons.prems by (auto split: Option.bind_splits)
    show ?case
    proof (cases e)
      case None
      then show ?thesis using s1 Cons.IH [OF s1(2)] by (simp add: serial_handle_byte_def)
    next
      case (Some x)
      show ?thesis
        using s1 Cons.IH [OF s1(2)] Some
        by (cases "input_event_push q (INPUT_EVENT_SERIAL x)") (auto simp: serial_handle_byte_def)
    qed
  qed simp
  moreover obtain q' where "run_all (\<lambda>x q. map_option snd (input_event_push q x)) (map INPUT_EVENT_SERIAL es) q = Some q'"
    "events_inv q'" "pending q' = drop (length (pending q) + length (map INPUT_EVENT_SERIAL es) - INPUT_EVENT_QUEUE_SIZE)
        (pending q @ map INPUT_EVENT_SERIAL es)"
    using event_fifo.push_sequence [OF assms(2)] by blast
  ultimately show ?thesis by (simp add: INPUT_EVENT_QUEUE_SIZE_def)
qed

section \<open>Properties\<close>

text \<open>The state after the bytes came in portions, one portion per interrupt.\<close>

fun feed_portions :: "u8 list list \<Rightarrow> serial_state \<Rightarrow> (serial_state \<times> SerialEvent list) option" where
  "feed_portions [] s = Some (s, [])"
| "feed_portions (p # ps) s = do {
     (s, es) \<leftarrow> feed serial_byte p s;
     (s, fs) \<leftarrow> feed_portions ps s;
     Some (s, es @ fs)
   }"

lemma feed_portions_concat: "feed_portions ps s = feed serial_byte (concat ps) s"
  by (induction ps arbitrary: s) (auto simp: feed_append split: Option.bind_splits)

text \<open>C4: What one side sends the other side receives: for any sequence of commands, with any bytes that
  are no start bytes between the packets and with the stream cut into any portions, the receiving
  state machine delivers one event per command, with the command's code and the payload it sent
  (its bytes up to the length limit, after the line number where the command has one), and is
  ready for the next packet.\<close>

theorem packets_arrive:
  assumes "waiting s" and "\<forall>(noise, cmd, bs, n) \<in> set cs. enough_bytes cmd bs \<and> PKT_START_BYTE \<notin> set noise"
    and "concat portions = concat (map (\<lambda>(noise, cmd, bs, n). noise @
            PKT_START_BYTE # the (packet_body cmd (map Some bs) (int (length bs)) n)) cs)"
  shows "\<exists>s'. feed_portions portions s
      = Some (s', map (\<lambda>(noise, cmd, bs, n). frame_event (cmd_code cmd, sent_payload cmd bs n)) cs) \<and> waiting s'"
proof -
  let ?ps = "map (\<lambda>(noise, cmd, bs, n). (noise, cmd_code cmd, sent_payload cmd bs n)) cs"
  have body: "PKT_START_BYTE # the (packet_body cmd (map Some bs) (int (length bs)) n)
      = frame_bytes (cmd_code cmd, sent_payload cmd bs n)" if "enough_bytes cmd bs" for cmd bs n
    using packet_body_frame [OF that, of "[]" n] by auto
  have "concat portions = concat (map (\<lambda>(noise, p). noise @ frame_bytes p) ?ps)"
    unfolding assms(3) map_map
    by (rule arg_cong [where f = concat], rule map_cong [OF refl]) (use assms(2) body in auto)
  moreover have "\<forall>(noise, p) \<in> set ?ps. length (snd p) < 256 \<and> (\<forall>b \<in> set noise. b \<noteq> PKT_START_BYTE)"
    using assms(2) by (auto simp: sent_payload_short)
  ultimately obtain s' where "feed serial_byte (concat portions) s = Some (s', map (frame_event \<circ> snd) ?ps)" "waiting s'"
    using serial_frames.stream [OF assms(1), of ?ps] by auto
  moreover have "map (frame_event \<circ> snd) ?ps = map (\<lambda>(noise, cmd, bs, n). frame_event (cmd_code cmd, sent_payload cmd bs n)) cs"
    by auto
  ultimately show ?thesis by (simp add: feed_portions_concat)
qed

lemma packets_arrive_witness:
  "\<exists>s'. feed_portions [[0, 0xFE, 1], [1, 97], [0xFE, 2, 0]] serial_state0
    = Some (s', [frame_event (1, [97]), frame_event (2, [])])"
proof -
  have "aread [Some 97] 0 = Some (97 :: u8)" by (simp add: aread_def in_range_def)
  then have "packet_body CMD_INSERT_CHAR (map Some [97]) (int (length [97 :: u8])) 0 = Some [1, 1, 97]"
    and "packet_body CMD_DELETE_CHAR (map Some []) (int (length ([] :: u8 list))) 0 = Some [2, 0]"
    by (simp_all add: packet_body_def)
  then show ?thesis
    using packets_arrive [OF waiting0, of "[([0], CMD_INSERT_CHAR, [97], 0), ([], CMD_DELETE_CHAR, [], 0)]"
        "[[0, 0xFE, 1], [1, 97], [0xFE, 2, 0]]"]
    by (auto simp: enough_bytes_def PKT_START_BYTE_def sent_payload_def)
qed

text \<open>C23: No sequence of bytes on the line makes the receiver leave its buffers: every byte is accepted,
  and inside a payload the missing bytes always fit.\<close>

theorem any_bytes_received_safely:
  assumes "serial_inv s"
  shows "\<exists>s' es. feed serial_byte bs s = Some (s', es) \<and> serial_inv s' \<and> (\<forall>e \<in> set es. length (se_payload e) = 256)"
  using assms
proof (induction bs arbitrary: s)
  case (Cons b bs)
  obtain s1 e where s1: "serial_byte b s = Some (s1, e)" "serial_inv s1" by (rule serial_byte_inv [OF Cons.prems])
  have "\<forall>x \<in> set_option e. length (se_payload x) = 256"
    using s1(1) by (auto simp: serial_byte_def Let_def split: ProtocolState.splits if_splits Option.bind_splits dest: length_blit)
  with s1 Cons.IH [OF s1(2)] show ?case by (auto split: option.splits)
qed simp

lemma any_bytes_received_safely_witness:
  "\<exists>s' es. feed serial_byte [0xFE, 0xFE, 0xFE, 0xFE, 0x11] serial_state0 = Some (s', es) \<and> serial_inv s'"
  using any_bytes_received_safely [OF serial_inv0, of "[0xFE, 0xFE, 0xFE, 0xFE, 0x11]"] by blast

lemma serial_process_step:
  assumes "uart_receives io iir received" and "sp_inv sp" and "queue_contents (rx_queue sp) = []"
    and "serial_inv s" and "events_inv q"
  shows "\<exists>sp' s' q' w' es. serial_process io sp (s, q) w = Some (sp', (s', q'), w') \<and> sp_inv sp'
    \<and> queue_contents (rx_queue sp') = [] \<and> serial_inv s' \<and> events_inv q'
    \<and> feed serial_byte (if acted_on iir then take 16 (received w) else []) s = Some (s', es)
    \<and> received w' = (if acted_on iir then drop 16 (received w) else received w)
    \<and> pending q' = drop (length (pending q) + length es - 64) (pending q @ map INPUT_EVENT_SERIAL es)"
proof -
  let ?bs = "if acted_on iir then take 16 (received w) else []"
  have qr: "queue_rep (rx_queue sp) []" and ini: "serial_initialized sp"
    using assms(2,3) queue_inv_rep [of "rx_queue sp"] by (auto simp: sp_inv_def)
  obtain sp1 w1 where ih: "serial_ih io sp w = Some (sp1, w1)" "sp_inv sp1" "queue_contents (rx_queue sp1) = ?bs"
    "received w1 = (if acted_on iir then drop 16 (received w) else received w)"
  proof (cases "acted_on iir")
    case True
    obtain sp1 w1 where "serial_ih io sp w = Some (sp1, w1)"
      "queue_rep (rx_queue sp1) ([] @ take (QUEUE_SIZE - length ([] :: u8 list)) (received w))"
      "received w1 = drop (QUEUE_SIZE - length ([] :: u8 list)) (received w)" "serial_initialized sp1 = serial_initialized sp"
      by (rule serial_ih_moves [OF assms(1) qr True])
    then show ?thesis using that [of sp1 w1] True ini queue_rep_contents
      by (auto simp: sp_inv_def queue_inv_def QUEUE_SIZE_def)
  next
    case False
    then show ?thesis using that [OF serial_ih_other [OF assms(1) False]] assms(2,3) by simp
  qed
  obtain s' es where f: "feed serial_byte ?bs s = Some (s', es)" "serial_inv s'"
    using feed_serial_inv [OF assms(4)] by blast
  obtain q' where q': "run_all serial_handle_byte ?bs (s, q) = Some (s', q')" "events_inv q'"
    "pending q' = drop (length (pending q) + length es - 64) (pending q @ map INPUT_EVENT_SERIAL es)"
    using handle_bytes [OF f(1) assms(5)] by blast
  obtain sp2 where d: "sp_inv sp2" "queue_contents (rx_queue sp2) = []"
    "drain serial_read_char serial_handle_byte sp1 (s, q)
      = map_option (Pair sp2) (run_all serial_handle_byte (queue_contents (rx_queue sp1)) (s, q))"
    using uart_fifo.drain_contents [OF ih(2), of serial_handle_byte "(s, q)"] by blast
  have "serial_process io sp (s, q) w = Some (sp2, (s', q'), w1)"
    using ih(1) d(3) q'(1) unfolding ih(3) by (simp add: serial_process_def)
  with d(1,2) f q' ih(4) show ?thesis by blast
qed


text \<open>A UART that holds \<open>bs\<close> and identifies its interrupts with \<open>iir\<close>.\<close>

definition test_uart :: "u8 \<Rightarrow> u8 list io" where
  "test_uart iir = \<lparr>sys_inb = (\<lambda>port w.
       if port = COM1_BASE + IIR then (Some (if w = [] then 0x01 else ucast iir), w)
       else if port = COM1_BASE + LSR then (Some (if w = [] then 0x60 else 0x61), w)
       else (Some (if w = [] then 0 else ucast (hd w)), tl w)),
     sys_outb = (\<lambda>_ _ w. (Some (), w)), tickdelay = (\<lambda>_ w. w), sys_irqsetpolicy = (\<lambda>_ _ h w. (Some h, w)),
     sys_irqrmpolicy = (\<lambda>_ w. (Some (), w)), print_err = (\<lambda>_ w. w)\<rparr>"

lemma test_uart_receives: "uart_receives (test_uart iir) iir (\<lambda>w. w)"
  by (simp add: uart_receives_def test_uart_def COM1_BASE_def IIR_def LSR_def RBR_def)

definition ready_port :: serial_port where
  "ready_port = serial_port0\<lparr>serial_initialized := True\<rparr>"

lemma ready_port_inv: "sp_inv ready_port \<and> queue_contents (rx_queue ready_port) = []"
proof -
  have "queue_rep (rx_queue ready_port) []"
    by (auto simp: queue_rep_def ready_port_def serial_port0_def ring_def QUEUE_SIZE_def)
  then show ?thesis using queue_rep_contents by (auto simp: sp_inv_def queue_inv_def ready_port_def)
qed


text \<open>C25: The identification a 16550 gives for received data, with its FIFOs on, is not one the handler
  acts on: nothing is ever taken from the device.\<close>

theorem data_ready_not_acted_on:
  assumes "uart_receives io 0xC4 received"
  shows "serial_ih io sp w = Some (sp, w)"
  by (rule serial_ih_other [OF assms]) (simp add: acted_on_def IIR_NO_INT_def IIR_INT_ID_MASK_def)

lemma data_ready_not_acted_on_witness: "serial_ih (test_uart 0xC4) ready_port [0xFE, 2, 0] = Some (ready_port, [0xFE, 2, 0])"
  by (rule data_ready_not_acted_on [OF test_uart_receives])

end
