(* ===== verification/Keyboard.thy ===== *)
theory Keyboard
  imports Ports Events Framing
begin

text \<open>
  The keyboard: the driver \<open>framework/src/drivers/keyboard.c\<close>, which reads a byte from the controller
  and assembles scancodes of one or two bytes, and \<open>controller/input/keyboard.c\<close>, which keeps the
  modifiers and turns scancodes into key events.
\<close>

section \<open>The keyboard controller\<close>

definition KBC_STATUS_REG :: int where "KBC_STATUS_REG = 0x64"
definition KBC_DATA_REG :: int where "KBC_DATA_REG = 0x60"
definition KBC_ST_OBF :: u8 where "KBC_ST_OBF = 0x01"
definition KBC_ST_IBF :: u8 where "KBC_ST_IBF = 0x02"
definition KBC_MOUSE_DATA :: u8 where "KBC_MOUSE_DATA = 0x20"
definition KBC_TOUT_ERR :: u8 where "KBC_TOUT_ERR = 0x40"
definition KBC_PAR_ERR :: u8 where "KBC_PAR_ERR = 0x80"
definition RD_CMD :: u32 where "RD_CMD = 0x20"
definition WR_CMD :: u32 where "WR_CMD = 0x60"
definition TWO_BYTE :: u8 where "TWO_BYTE = 0xE0"
definition KEYBOARD_IRQ :: int where "KEYBOARD_IRQ = 1"
definition IRQ_REENABLE_EXCLUSIVE :: int where "IRQ_REENABLE_EXCLUSIVE = 3"

definition KBC_RETRY_DELAY :: int where "KBC_RETRY_DELAY = 20000"
definition KBC_MAX_TRIES :: nat where "KBC_MAX_TRIES = 10"

fun kbc_input_tries :: "'w io \<Rightarrow> nat \<Rightarrow> (unit, 'w) call" where
  "kbc_input_tries io 0 w = fail io ERR_KBC ''kbc_wait_input_empty: timeout'' w"
| "kbc_input_tries io (Suc tries) w =
     on_ok (util_sys_inb io KBC_STATUS_REG) (fail io ERR_KBC ''kbc_wait_input_empty: failed to read status'')
       (\<lambda>status. if status AND KBC_ST_IBF = 0 then succeed ()
                 else (\<lambda>w. kbc_input_tries io tries (tickdelay io KBC_RETRY_DELAY w))) w"

definition kbc_wait_input_empty :: "'w io \<Rightarrow> (unit, 'w) call" where
  "kbc_wait_input_empty io = kbc_input_tries io KBC_MAX_TRIES"

fun kbc_output_tries :: "'w io \<Rightarrow> nat \<Rightarrow> (u8, 'w) call" where
  "kbc_output_tries io 0 w = fail io ERR_KBC ''kbc_wait_input_empty: timeout'' w"
| "kbc_output_tries io (Suc tries) w =
     on_ok (util_sys_inb io KBC_STATUS_REG) (fail io ERR_KBC ''kbc_wait_output_full: failed to read status'')
       (\<lambda>status. if status AND KBC_ST_OBF \<noteq> 0
                 then on_ok (util_sys_inb io KBC_DATA_REG)
                        (fail io ERR_KBC ''kbc_wait_output_full: failed to read data'') succeed
                 else (\<lambda>w. kbc_output_tries io tries (tickdelay io KBC_RETRY_DELAY w))) w"

definition kbc_wait_output_full :: "'w io \<Rightarrow> (u8, 'w) call" where
  "kbc_wait_output_full io = kbc_output_tries io KBC_MAX_TRIES"

definition kbc_enable_interrupts :: "'w io \<Rightarrow> (unit, 'w) call" where
  "kbc_enable_interrupts io =
     on_ok (kbc_wait_input_empty io) (fail io ERR_KBC ''kbc_enable_interrupts: input buffer not empty (read cmd)'') (\<lambda>_.
     on_ok (sys_outb io KBC_STATUS_REG RD_CMD) (fail io ERR_KBC ''kbc_enable_interrupts: failed to send READ_CMD'') (\<lambda>_.
     on_ok (kbc_wait_output_full io) (fail io ERR_KBC ''kbc_enable_interrupts: failed to read command byte'') (\<lambda>cmd.
     let cmd = cmd OR 1 in
     on_ok (kbc_wait_input_empty io) (fail io ERR_KBC ''kbc_enable_interrupts: input buffer not empty (write cmd)'') (\<lambda>_.
     on_ok (sys_outb io KBC_STATUS_REG WR_CMD) (fail io ERR_KBC ''kbc_enable_interrupts: failed to send WRITE_CMD'') (\<lambda>_.
     on_ok (kbc_wait_input_empty io) (fail io ERR_KBC ''kbc_enable_interrupts: input buffer not empty (write data)'') (\<lambda>_.
     on_ok (sys_outb io KBC_DATA_REG (ucast cmd)) (fail io ERR_KBC ''kbc_enable_interrupts: failed to write command byte'') (\<lambda>_.
     succeed ())))))))"

section \<open>The driver\<close>

record packet_scancode =
  two_byte :: bool
  ps_make :: bool
  ps_size :: u8
  ps_bytes :: "u8 \<times> u8"

definition packet_scancode0 :: packet_scancode where
  "packet_scancode0 = \<lparr>two_byte = False, ps_make = False, ps_size = 0, ps_bytes = (0, 0)\<rparr>"

record keyboard_driver =
  kd_scancode :: u8
  kd_hook_id :: int

definition keyboard_driver0 :: keyboard_driver where
  "keyboard_driver0 = \<lparr>kd_scancode = 0, kd_hook_id = 1\<rparr>"

definition set_scancode :: "u8 \<Rightarrow> keyboard_driver \<Rightarrow> keyboard_driver" where
  "set_scancode code d = d\<lparr>kd_scancode := code\<rparr>"

definition get_scancode :: "keyboard_driver \<Rightarrow> u8" where
  "get_scancode d = kd_scancode d"

text \<open>The packet after one more byte; \<open>None\<close> if its size is invalid.\<close>

definition add_scancode :: "u8 \<Rightarrow> packet_scancode \<Rightarrow> packet_scancode option" where
  "add_scancode byte ps =
     (if 2 < ps_size ps then None
      else if byte = TWO_BYTE then Some (ps\<lparr>two_byte := True, ps_bytes := (byte, snd (ps_bytes ps))\<rparr>)
      else
        let ps = (if two_byte ps
                  then ps\<lparr>ps_bytes := (fst (ps_bytes ps), byte), ps_size := 2, two_byte := False\<rparr>
                  else ps\<lparr>ps_bytes := (byte, snd (ps_bytes ps)), ps_size := 1\<rparr>)
        in Some (ps\<lparr>ps_make := (byte AND 0x80 = 0)\<rparr>))"

definition build_scancode :: "'w io \<Rightarrow> keyboard_driver \<Rightarrow> packet_scancode \<Rightarrow> (packet_scancode, 'w) call" where
  "build_scancode io d ps = (case add_scancode (get_scancode d) ps of
     None \<Rightarrow> fail io ERR_KEYBOARD ''build_scancode: invalid scancode size''
   | Some ps \<Rightarrow> succeed ps)"

text \<open>A failure leaves the previous scancode in place.\<close>

definition keyboard_ih :: "'w io \<Rightarrow> keyboard_driver \<Rightarrow> 'w \<Rightarrow> keyboard_driver \<times> 'w" where
  "keyboard_ih io d w =
     (case on_ok (util_sys_inb io KBC_STATUS_REG) (fail io ERR_KEYBOARD ''keyboard_ih: failed to read status register'')
        (\<lambda>status.
          if status AND KBC_ST_OBF = 0 then fail io ERR_KEYBOARD ''keyboard_ih: output buffer not full''
          else if status AND (KBC_PAR_ERR OR KBC_TOUT_ERR) \<noteq> 0 then fail io ERR_KEYBOARD ''keyboard_ih: parity or timeout error''
          else on_ok (util_sys_inb io KBC_DATA_REG) (fail io ERR_KEYBOARD ''keyboard_ih: failed to read data register'') succeed) w
      of (None, w) \<Rightarrow> (d, w) | (Some data, w) \<Rightarrow> (set_scancode data d, w))"

definition keyboard_subscribe_int :: "'w io \<Rightarrow> keyboard_driver \<Rightarrow> 'w \<Rightarrow> (u8 \<times> bool \<times> keyboard_driver) \<times> 'w" where
  "keyboard_subscribe_int io d w =
     (let bit_no = word_of_int (kd_hook_id d) in
      case on_ok (sys_irqsetpolicy io KEYBOARD_IRQ IRQ_REENABLE_EXCLUSIVE (kd_hook_id d))
             (fail io ERR_KEYBOARD ''keyboard_subscribe_int: sys_irqsetpolicy failed'') succeed w of
        (None, w) \<Rightarrow> ((bit_no, False, d), w)
      | (Some h, w) \<Rightarrow> ((bit_no, True, d\<lparr>kd_hook_id := h\<rparr>), w))"

definition keyboard_unsubscribe_int :: "'w io \<Rightarrow> keyboard_driver \<Rightarrow> (unit, 'w) call" where
  "keyboard_unsubscribe_int io d =
     on_ok (sys_irqrmpolicy io (kd_hook_id d))
       (fail io ERR_KEYBOARD ''keyboard_unsubscribe_int: sys_irqrmpolicy failed'') succeed"

section \<open>Key events\<close>

definition SCANCODE_ESC :: u8 where "SCANCODE_ESC = 0x01"
definition SCANCODE_BACKSPACE :: u8 where "SCANCODE_BACKSPACE = 0x0E"
definition SCANCODE_ENTER :: u8 where "SCANCODE_ENTER = 0x1C"
definition SCANCODE_LCTRL :: u8 where "SCANCODE_LCTRL = 0x1D"
definition SCANCODE_RCTRL :: u8 where "SCANCODE_RCTRL = 0x1D"
definition SCANCODE_LSHIFT :: u8 where "SCANCODE_LSHIFT = 0x2A"
definition SCANCODE_RSHIFT :: u8 where "SCANCODE_RSHIFT = 0x36"
definition SCANCODE_RALT :: u8 where "SCANCODE_RALT = 0x38"
definition SCANCODE_UP :: u8 where "SCANCODE_UP = 0x48"
definition SCANCODE_DOWN :: u8 where "SCANCODE_DOWN = 0x50"
definition SCANCODE_LEFT :: u8 where "SCANCODE_LEFT = 0x4B"
definition SCANCODE_RIGHT :: u8 where "SCANCODE_RIGHT = 0x4D"
definition SCANCODE_HOME :: u8 where "SCANCODE_HOME = 0x47"
definition SCANCODE_END :: u8 where "SCANCODE_END = 0x4F"


text \<open>The key maps, in the order of the scancodes 0x00 to 0x39; \<open>NUL\<close> marks a key without a character.\<close>

definition sc_lower :: string where
  "sc_lower = [NUL, NUL] @ ''1234567890'' @ [APOS, NUL, NUL, TAB] @ ''qwertyuiop+'' @ [NUL, NUL, NUL]
     @ ''asdfghjkl'' @ [NUL, NUL, BSLASH, NUL] @ ''~zxcvbnm,.-'' @ [NUL, NUL, NUL, SPACE]"

definition sc_upper :: string where
  "sc_upper = [NUL, NUL, CHR 0x21, QUOTE] @ ''#$%&/()=?'' @ [NUL, NUL, TAB] @ ''QWERTYUIOP*'' @ [NUL, NUL, NUL]
     @ ''ASDFGHJKL'' @ [NUL, NUL, CHR 0x7C, NUL] @ ''^ZXCVBNM;:_'' @ [NUL, NUL, NUL, SPACE]"

definition sc_altgr :: string where
  "sc_altgr = [NUL, NUL] @ ''1@3456{[]}'' @ [APOS, NUL, NUL, TAB] @ ''qwertyuiop+'' @ [NUL, NUL, NUL]
     @ ''asdfghjkl'' @ [NUL, NUL, BSLASH, NUL] @ ''~zxcvbnm,.-'' @ [NUL, NUL, NUL, SPACE]"

record KeyboardState =
  kb_ctrl :: bool
  kb_shift :: bool
  kb_altgr :: bool

definition keyboard_state0 :: KeyboardState where
  "keyboard_state0 = \<lparr>kb_ctrl = False, kb_shift = False, kb_altgr = False\<rparr>"

definition make_event :: "KeyboardState \<Rightarrow> KeyEvent" where
  "make_event kb = \<lparr>ev_c = NUL, ev_ctrl = kb_ctrl kb, ev_shift = kb_shift kb, ev_altgr = kb_altgr kb,
     ev_backspace = False, ev_enter = False, ev_escape = False, ev_dir = DIR_NONE\<rparr>"

definition translate_char :: "KeyboardState \<Rightarrow> u8 \<Rightarrow> char" where
  "translate_char kb code =
     (if 58 \<le> code then NUL
      else if kb_altgr kb then sc_altgr ! unat code
      else if kb_shift kb then sc_upper ! unat code
      else sc_lower ! unat code)"

text \<open>The new modifiers, and the event to push if there is one.\<close>

definition handle_extended :: "packet_scancode \<Rightarrow> KeyboardState \<Rightarrow> KeyboardState \<times> KeyEvent option" where
  "handle_extended ps kb =
     (let code = snd (ps_bytes ps) AND 0x7F in
      if code = SCANCODE_RCTRL then (kb\<lparr>kb_ctrl := ps_make ps\<rparr>, None)
      else if code = SCANCODE_RALT then (kb\<lparr>kb_altgr := ps_make ps\<rparr>, None)
      else if \<not> ps_make ps then (kb, None)
      else
        let ev = make_event kb in
        if code = SCANCODE_LEFT then (kb, Some (ev\<lparr>ev_dir := DIR_LEFT\<rparr>))
        else if code = SCANCODE_RIGHT then (kb, Some (ev\<lparr>ev_dir := DIR_RIGHT\<rparr>))
        else if code = SCANCODE_UP then (kb, Some (ev\<lparr>ev_dir := DIR_UP\<rparr>))
        else if code = SCANCODE_DOWN then (kb, Some (ev\<lparr>ev_dir := DIR_DOWN\<rparr>))
        else if code = SCANCODE_HOME then (kb, Some (ev\<lparr>ev_dir := DIR_HOME\<rparr>))
        else if code = SCANCODE_END then (kb, Some (ev\<lparr>ev_dir := DIR_END\<rparr>))
        else (kb, None))"

definition key_event :: "packet_scancode \<Rightarrow> KeyboardState \<Rightarrow> KeyboardState \<times> KeyEvent option" where
  "key_event ps kb =
     (if ps_size ps = 2 then handle_extended ps kb
      else
        let code = fst (ps_bytes ps) AND 0x7F in
        if code = SCANCODE_LCTRL then (kb\<lparr>kb_ctrl := ps_make ps\<rparr>, None)
        else if code = SCANCODE_LSHIFT \<or> code = SCANCODE_RSHIFT then (kb\<lparr>kb_shift := ps_make ps\<rparr>, None)
        else if \<not> ps_make ps then (kb, None)
        else
          let ev = make_event kb;
              ev = (if code = SCANCODE_ESC then ev\<lparr>ev_escape := True\<rparr>
                    else if code = SCANCODE_BACKSPACE then ev\<lparr>ev_backspace := True\<rparr>
                    else if code = SCANCODE_ENTER then ev\<lparr>ev_enter := True\<rparr>
                    else ev\<lparr>ev_c := translate_char kb code\<rparr>)
          in if ev_escape ev \<or> ev_backspace ev \<or> ev_enter ev \<or> ev_dir ev \<noteq> DIR_NONE \<or> ev_c ev \<noteq> NUL
             then (kb, Some ev) else (kb, None))"

definition push_event :: "KeyEvent option \<Rightarrow> event_queue \<Rightarrow> event_queue option" where
  "push_event ev q = (case ev of None \<Rightarrow> Some q
     | Some e \<Rightarrow> do { (ok, q) \<leftarrow> input_event_push q (INPUT_EVENT_KEY e); Some q })"

definition keyboard_process :: "packet_scancode \<Rightarrow> KeyboardState \<Rightarrow> event_queue \<Rightarrow> (KeyboardState \<times> event_queue) option" where
  "keyboard_process ps kb q = do {
     let (kb, ev) = key_event ps kb;
     q \<leftarrow> push_event ev q;
     Some (kb, q)
   }"

section \<open>Scancodes\<close>

text \<open>A scancode as the hardware sends it: extended or not, and the byte with the break bit.\<close>

definition scancode_bytes :: "bool \<times> u8 \<Rightarrow> u8 list" where
  "scancode_bytes p = (if fst p then [TWO_BYTE, snd p] else [snd p])"

text \<open>The packet \<open>keyboard_handler\<close> passes on for it, the first byte of \<open>bytes\<close> aside.\<close>

definition scancode_packet :: "bool \<times> u8 \<Rightarrow> bool \<times> bool \<times> u8 \<times> u8" where
  "scancode_packet p = (False, snd p AND 0x80 = 0, if fst p then 2 else 1, snd p)"

text \<open>One interrupt: the byte is read, and the packet is passed on unless it is a prefix.\<close>

definition keyboard_step :: "u8 \<Rightarrow> packet_scancode \<Rightarrow> (packet_scancode \<times> (bool \<times> bool \<times> u8 \<times> u8) option) option" where
  "keyboard_step byte ps = do {
     ps \<leftarrow> add_scancode byte ps;
     Some (ps, if two_byte ps then None
               else Some (two_byte ps, ps_make ps, ps_size ps,
                          if ps_size ps = 2 then snd (ps_bytes ps) else fst (ps_bytes ps)))
   }"

definition scan_idle :: "packet_scancode \<Rightarrow> bool" where
  "scan_idle ps \<longleftrightarrow> \<not> two_byte ps \<and> ps_size ps \<le> 2"

interpretation scancodes: framing keyboard_step scan_idle scancode_bytes scancode_packet "\<lambda>p. snd p \<noteq> TWO_BYTE" "\<lambda>_. False"
proof unfold_locales
  fix ps and p :: "bool \<times> u8"
  assume i: "scan_idle ps" and p: "snd p \<noteq> TWO_BYTE"
  have n: "\<not> 2 < ps_size ps" "\<not> two_byte ps" using i by (simp_all add: scan_idle_def not_less)
  show "\<exists>ps'. feed keyboard_step (scancode_bytes p) ps = Some (ps', [scancode_packet p]) \<and> scan_idle ps'"
    using n p by (simp add: scancode_bytes_def keyboard_step_def add_scancode_def scancode_packet_def scan_idle_def Let_def)
qed simp

section \<open>Properties\<close>

text \<open>All packets of a stream of scancodes, as the controller sees them, and the events they make.\<close>

fun key_events :: "(bool \<times> bool \<times> u8 \<times> u8) list \<Rightarrow> KeyboardState \<Rightarrow> KeyboardState \<times> KeyEvent list" where
  "key_events [] kb = (kb, [])"
| "key_events ((tb, mk, sz, byte) # ps) kb =
     (let (kb, ev) = key_event \<lparr>two_byte = tb, ps_make = mk, ps_size = sz, ps_bytes = (byte, byte)\<rparr> kb;
          (kb, evs) = key_events ps kb
      in (kb, (case ev of None \<Rightarrow> evs | Some e \<Rightarrow> e # evs)))"

text \<open>A key as the user presses or releases it: extended, base code, pressed.\<close>

type_synonym key_action = "bool \<times> u8 \<times> bool"

definition action_bytes :: "key_action \<Rightarrow> u8 list" where
  "action_bytes = (\<lambda>(ext, code, press). scancode_bytes (ext, if press then code else code OR 0x80))"

definition is_ctrl :: "key_action \<Rightarrow> bool" where
  "is_ctrl = (\<lambda>(ext, code, press). code = 0x1D)"

definition is_shift :: "key_action \<Rightarrow> bool" where
  "is_shift = (\<lambda>(ext, code, press). \<not> ext \<and> (code = 0x2A \<or> code = 0x36))"

definition is_altgr :: "key_action \<Rightarrow> bool" where
  "is_altgr = (\<lambda>(ext, code, press). ext \<and> code = 0x38)"

text \<open>Whether the last of the actions on such a key was a press.\<close>

definition held :: "(key_action \<Rightarrow> bool) \<Rightarrow> key_action list \<Rightarrow> bool" where
  "held is_key as = (case find is_key (rev as) of None \<Rightarrow> False | Some (ext, code, press) \<Rightarrow> press)"

definition after_actions :: "key_action list \<Rightarrow> (packet_scancode \<times> KeyboardState \<times> KeyEvent list) option" where
  "after_actions as = do {
     (ps, packets) \<leftarrow> feed keyboard_step (concat (map action_bytes as)) packet_scancode0;
     Some (ps, key_events packets keyboard_state0)
   }"

lemma key_events_append:
  "key_events (ps @ qs) kb = (let (kb, es) = key_events ps kb; (kb, fs) = key_events qs kb in (kb, es @ fs))"
  by (induction ps kb rule: key_events.induct) (auto simp: Let_def split: prod.splits option.splits)

lemma masked: "code AND 0x80 = 0 \<Longrightarrow> (code OR 0x80) AND 0x80 = (0x80 :: u8) \<and> (code OR 0x80) AND 0x7F = code \<and> code AND 0x7F = code"
proof -
  assume z: "code AND 0x80 = (0 :: u8)"
  have "(0x80 :: u8) = 2 ^ 7" and m: "(0x7F :: u8) = mask 7" by (simp_all add: mask_eq_exp_minus_1)
  then have "code AND 2 ^ 7 = 0" using z by metis
  then have nb: "\<not> bit code 7" using and_exp_eq_0_iff_not_bit by blast
  have c: "code AND 0x7F = code" unfolding m
  proof (rule bit_word_eqI)
    fix n assume "n < LENGTH(8)"
    then show "bit (code AND mask 7) n = bit code n" using nb by (cases "n = 7") (auto simp: bit_simps)
  qed
  have "(code OR 0x80) AND 0x80 = (0x80 :: u8)" by (simp add: bit.conj_disj_distrib2 z)
  moreover have "(code OR 0x80) AND 0x7F = code" by (simp add: bit.conj_disj_distrib2 c)
  ultimately show ?thesis using c by simp
qed

lemma held_snoc: "held P (as @ [a]) = (if P a then snd (snd a) else held P as)"
  by (cases a) (simp add: held_def)

definition action_packet :: "key_action \<Rightarrow> bool \<times> bool \<times> u8 \<times> u8" where
  "action_packet = (\<lambda>(ext, code, press). scancode_packet (ext, if press then code else code OR 0x80))"

lemma key_event_modifiers:
  assumes "code AND 0x80 = 0" and "action_packet (ext, code, press) = (tb, mk, sz, byte)"
  shows "fst (key_event \<lparr>two_byte = tb, ps_make = mk, ps_size = sz, ps_bytes = (byte, byte)\<rparr> kb)
     = \<lparr>kb_ctrl = (if is_ctrl (ext, code, press) then press else kb_ctrl kb),
        kb_shift = (if is_shift (ext, code, press) then press else kb_shift kb),
        kb_altgr = (if is_altgr (ext, code, press) then press else kb_altgr kb)\<rparr>"
proof -
  have m: "byte AND 0x7F = code" "mk = press" "sz = (if ext then 2 else 1)"
    using assms masked [OF assms(1)] by (auto simp: action_packet_def scancode_packet_def split: if_splits)
  show ?thesis
    by (cases ext; cases kb) (simp_all add: key_event_def handle_extended_def m is_ctrl_def is_shift_def is_altgr_def
        SCANCODE_LCTRL_def SCANCODE_RCTRL_def SCANCODE_LSHIFT_def SCANCODE_RSHIFT_def SCANCODE_RALT_def Let_def)
qed

lemma key_events_actions:
  assumes "\<forall>(ext, code, press) \<in> set as. code AND 0x80 = 0 \<and> code \<noteq> 0x60"
  shows "fst (key_events (map action_packet as) keyboard_state0)
     = \<lparr>kb_ctrl = held is_ctrl as, kb_shift = held is_shift as, kb_altgr = held is_altgr as\<rparr>"
  using assms
proof (induction as rule: rev_induct)
  case Nil
  then show ?case by (simp add: held_def keyboard_state0_def)
next
  case (snoc a as)
  obtain ext code press where a: "a = (ext, code, press)" by (cases a) auto
  have z: "code AND 0x80 = 0" using snoc.prems a by simp
  obtain tb mk sz byte where p: "action_packet (ext, code, press) = (tb, mk, sz, byte)" by (cases "action_packet (ext, code, press)") auto
  obtain kb es where ke: "key_events (map action_packet as) keyboard_state0 = (kb, es)" by force
  have kb: "kb = \<lparr>kb_ctrl = held is_ctrl as, kb_shift = held is_shift as, kb_altgr = held is_altgr as\<rparr>"
    using snoc ke by simp
  have "fst (key_events (map action_packet (as @ [a])) keyboard_state0)
      = fst (key_event \<lparr>two_byte = tb, ps_make = mk, ps_size = sz, ps_bytes = (byte, byte)\<rparr> kb)"
    using ke p a by (simp add: key_events_append Let_def split: prod.splits)
  then show ?case unfolding key_event_modifiers [OF z p] kb a by (simp add: held_snoc)
qed



text \<open>The characters some key press, with some modifiers, puts into an event.\<close>

definition typable :: "char \<Rightarrow> bool" where
  "typable c \<longleftrightarrow> c \<noteq> NUL \<and> (\<exists>code kb kb' ev. code AND 0x80 = 0
     \<and> key_event \<lparr>two_byte = False, ps_make = True, ps_size = 1, ps_bytes = (code, 0)\<rparr> kb = (kb', Some ev) \<and> ev_c ev = c)"

lemma map_lengths: "length sc_lower = 58" "length sc_upper = 58" "length sc_altgr = 58"
  by (simp_all add: sc_lower_def sc_upper_def sc_altgr_def)

lemma typable_iff: "typable c \<longleftrightarrow> c \<noteq> NUL \<and> c \<in> set sc_lower \<union> set sc_upper \<union> set sc_altgr"
proof -
  let ?all = "set sc_lower \<union> set sc_upper \<union> set sc_altgr"
  show ?thesis
  proof
    assume "typable c"
    then obtain code kb kb' ev where e: "c \<noteq> NUL" "code AND 0x80 = 0"
      "key_event \<lparr>two_byte = False, ps_make = True, ps_size = 1, ps_bytes = (code, 0)\<rparr> kb = (kb', Some ev)" "ev_c ev = c"
      by (auto simp: typable_def)
    have "c = translate_char kb code"
      using e masked [OF e(2)] by (auto simp: key_event_def make_event_def Let_def split: if_splits)
    then show "c \<noteq> NUL \<and> c \<in> ?all"
      using e(1) map_lengths by (auto simp: translate_char_def word_le_nat_alt split: if_splits)
  next
    assume c: "c \<noteq> NUL \<and> c \<in> ?all"
    then obtain i and kb :: KeyboardState where i: "i < 58" "(if kb_altgr kb then sc_altgr else if kb_shift kb then sc_upper else sc_lower) ! i = c"
    proof -
      have "c \<in> set sc_lower \<or> c \<in> set sc_upper \<or> c \<in> set sc_altgr" using c by simp
      then show thesis
      proof (elim disjE)
        assume "c \<in> set sc_lower"
        then obtain i where "i < 58" "sc_lower ! i = c" using map_lengths by (auto simp: in_set_conv_nth)
        then show thesis by (intro that [of i keyboard_state0]) (simp_all add: keyboard_state0_def)
      next
        assume "c \<in> set sc_upper"
        then obtain i where "i < 58" "sc_upper ! i = c" using map_lengths by (auto simp: in_set_conv_nth)
        then show thesis
          by (intro that [of i "keyboard_state0\<lparr>kb_shift := True\<rparr>"]) (simp_all add: keyboard_state0_def)
      next
        assume "c \<in> set sc_altgr"
        then obtain i where "i < 58" "sc_altgr ! i = c" using map_lengths by (auto simp: in_set_conv_nth)
        then show thesis
          by (intro that [of i "keyboard_state0\<lparr>kb_altgr := True\<rparr>"]) (simp_all add: keyboard_state0_def)
      qed
    qed
    let ?code = "of_nat i :: u8"
    have u: "unat ?code = i" using i(1) by (simp add: unat_of_nat)
    have lt: "\<not> 58 \<le> ?code" using i(1) u by (simp add: word_le_nat_alt)
    have t: "translate_char kb ?code = c" using i u lt by (simp add: translate_char_def split: if_splits)
    have bit7: "?code AND 0x80 = 0"
    proof -
      have "\<not> bit i 7" using i(1) by (simp add: bit_iff_odd)
      moreover have "bit (unat ?code) 7 = bit ?code 7" by (simp only: bit_unsigned_iff) simp
      ultimately have "\<not> bit ?code 7" using u by simp
      then have "?code AND 2 ^ 7 = 0" using and_exp_eq_0_iff_not_bit by blast
      then show ?thesis by simp
    qed
    have "\<forall>j \<in> {1, 14, 28, 29, 42, 54}. sc_lower ! j = NUL \<and> sc_upper ! j = NUL \<and> sc_altgr ! j = NUL"
      by (simp add: sc_lower_def sc_upper_def sc_altgr_def)
    then have "i \<notin> {1, 14, 28, 29, 42, 54}" using c i(2) by (auto split: if_splits)
    then have ne: "?code \<noteq> k" if "k \<in> {1, 14, 28, 29, 42, 54}" for k
      using that u by auto
    have "key_event \<lparr>two_byte = False, ps_make = True, ps_size = 1, ps_bytes = (?code, 0)\<rparr> kb
        = (kb, Some ((make_event kb)\<lparr>ev_c := c\<rparr>))"
      using ne masked [OF bit7] t c by (simp add: key_event_def Let_def SCANCODE_LCTRL_def SCANCODE_LSHIFT_def
          SCANCODE_RSHIFT_def SCANCODE_ESC_def SCANCODE_BACKSPACE_def SCANCODE_ENTER_def make_event_def)
    then show "typable c" using c bit7 unfolding typable_def
      by (intro conjI exI [of _ ?code] exI [of _ kb] exI [of _ "(make_event kb)\<lparr>ev_c := c\<rparr>"]) auto
  qed
qed

text \<open>A key press can put a character into an event exactly if one of the three key maps has it; the
  less-than and greater-than signs and the backquote are in none of them, so they cannot be typed.\<close>

theorem typable_characters:
  "(typable c \<longleftrightarrow> c \<noteq> NUL \<and> c \<in> set sc_lower \<union> set sc_upper \<union> set sc_altgr)
    \<and> \<not> typable (CHR 0x3C) \<and> \<not> typable (CHR 0x3E) \<and> \<not> typable (CHR 0x60)"
  unfolding typable_iff by (simp add: sc_lower_def sc_upper_def sc_altgr_def)

end
