(* ===== verification/RenderState.thy ===== *)
theory RenderState
  imports Prelude
begin

text \<open>
  \<open>model/render_state.c\<close>: the pending redraw of the screen. The redraw modes are the
  \<open>RENDER_*\<close> constants of \<open>render_state.h\<close>, ordered by their numbers.
\<close>

datatype render_mode =
    RENDER_NONE | RENDER_MOUSE | RENDER_STATUS | RENDER_CHAR | RENDER_REMOTE_LINE
  | RENDER_LINE | RENDER_WORD | RENDER_FULL

fun render_code :: "render_mode \<Rightarrow> nat" where
  "render_code RENDER_NONE = 0"
| "render_code RENDER_MOUSE = 1"
| "render_code RENDER_STATUS = 2"
| "render_code RENDER_CHAR = 3"
| "render_code RENDER_REMOTE_LINE = 4"
| "render_code RENDER_LINE = 5"
| "render_code RENDER_WORD = 6"
| "render_code RENDER_FULL = 7"

lemma render_code_inj: "render_code a = render_code b \<Longrightarrow> a = b"
  by (cases a; cases b) simp_all

instantiation render_mode :: linorder
begin

definition less_eq_render_mode :: "render_mode \<Rightarrow> render_mode \<Rightarrow> bool" where
  "a \<le> b \<longleftrightarrow> render_code a \<le> render_code b"

definition less_render_mode :: "render_mode \<Rightarrow> render_mode \<Rightarrow> bool" where
  "a < b \<longleftrightarrow> render_code a < render_code b"

instance
  by standard (auto simp: less_eq_render_mode_def less_render_mode_def dest: render_code_inj)

end

text \<open>
  \<open>set_render\<close>: the first test may replace the pending mode by \<open>RENDER_FULL\<close>, the second is on
  the mode it leaves.
\<close>

definition set_render :: "render_mode \<Rightarrow> render_mode \<Rightarrow> render_mode" where
  "set_render mode cur =
     (let cur = (if (cur = RENDER_LINE \<and> mode = RENDER_REMOTE_LINE)
                    \<or> (cur = RENDER_REMOTE_LINE \<and> mode = RENDER_LINE)
                 then RENDER_FULL else cur)
      in if cur < mode then mode else cur)"

definition get_render :: "render_mode \<Rightarrow> render_mode" where
  "get_render cur = cur"

definition clear_render :: "render_mode \<Rightarrow> render_mode" where
  "clear_render cur = RENDER_NONE"

text \<open>What part of the screen a sequence of requests must redraw before the next frame.\<close>

fun request_all :: "render_mode list \<Rightarrow> render_mode \<Rightarrow> render_mode" where
  "request_all [] cur = cur"
| "request_all (m # ms) cur = request_all ms (set_render m cur)"

lemma render_le_FULL [simp]: "m \<le> RENDER_FULL"
  by (cases m) (simp_all add: less_eq_render_mode_def)

lemma FULL_not_less [simp]: "\<not> RENDER_FULL < m"
  by (simp add: not_less)

lemma set_render_ge: "mode \<le> set_render mode cur \<and> cur \<le> set_render mode cur"
  by (auto simp: set_render_def Let_def not_less)

lemma set_render_max:
  "\<not> (cur = RENDER_LINE \<and> mode = RENDER_REMOTE_LINE) \<Longrightarrow>
   \<not> (cur = RENDER_REMOTE_LINE \<and> mode = RENDER_LINE) \<Longrightarrow>
   set_render mode cur = max cur mode"
  by (auto simp: set_render_def Let_def max_def)

lemma request_all_mono: "cur \<le> request_all ms cur"
proof (induction ms arbitrary: cur)
  case (Cons m ms)
  have "cur \<le> set_render m cur" using set_render_ge by blast
  also have "\<dots> \<le> request_all ms (set_render m cur)" by (rule Cons.IH)
  finally show ?case by simp
qed simp

lemma request_all_ge: "m \<in> set ms \<Longrightarrow> m \<le> request_all ms cur"
proof (induction ms arbitrary: cur)
  case (Cons a ms)
  show ?case
  proof (cases "m = a")
    case True
    have "a \<le> set_render a cur" using set_render_ge by blast
    also have "\<dots> \<le> request_all ms (set_render a cur)" by (rule request_all_mono)
    finally show ?thesis using True by simp
  next
    case False
    with Cons show ?thesis by simp
  qed
qed simp

lemma request_all_append: "request_all (ms @ ns) cur = request_all ns (request_all ms cur)"
  by (induction ms arbitrary: cur) simp_all

text \<open>
  While only \<open>RENDER_WORD\<close> is left out of the requests (no caller of the code asks for it), a
  pending line redraw is never lost.
\<close>

definition covers_line :: "render_mode \<Rightarrow> bool" where
  "covers_line m \<longleftrightarrow> m = RENDER_LINE \<or> m = RENDER_FULL"

definition covers_remote_line :: "render_mode \<Rightarrow> bool" where
  "covers_remote_line m \<longleftrightarrow> m = RENDER_REMOTE_LINE \<or> m = RENDER_FULL"

lemma set_render_line:
  "covers_line cur \<or> m = RENDER_LINE \<Longrightarrow> m \<noteq> RENDER_WORD \<Longrightarrow> cur \<noteq> RENDER_WORD \<Longrightarrow>
   covers_line (set_render m cur)"
  by (cases m; cases cur) (auto simp: covers_line_def set_render_def less_render_mode_def)

lemma set_render_remote_line:
  "covers_remote_line cur \<or> m = RENDER_REMOTE_LINE \<Longrightarrow> m \<noteq> RENDER_WORD \<Longrightarrow> cur \<noteq> RENDER_WORD \<Longrightarrow>
   covers_remote_line (set_render m cur)"
  by (cases m; cases cur) (auto simp: covers_remote_line_def set_render_def less_render_mode_def)

lemma set_render_no_WORD: "m \<noteq> RENDER_WORD \<Longrightarrow> cur \<noteq> RENDER_WORD \<Longrightarrow> set_render m cur \<noteq> RENDER_WORD"
  by (auto simp: set_render_def Let_def)

lemma request_all_keeps:
  assumes "\<And>m cur. m \<noteq> RENDER_WORD \<Longrightarrow> cur \<noteq> RENDER_WORD \<Longrightarrow> P cur \<or> m = w \<Longrightarrow> P (set_render m cur)"
  shows "P cur \<or> w \<in> set ms \<Longrightarrow> RENDER_WORD \<notin> set ms \<Longrightarrow> cur \<noteq> RENDER_WORD \<Longrightarrow>
         P (request_all ms cur)"
proof (induction ms arbitrary: cur)
  case (Cons a ms)
  have "P (set_render a cur) \<or> w \<in> set ms" using Cons.prems assms [of a cur] by auto
  moreover have "set_render a cur \<noteq> RENDER_WORD" using Cons.prems set_render_no_WORD [of a cur] by auto
  ultimately show ?case using Cons by simp
qed simp



end
