(* ===== verification/Mouse.thy ===== *)
theory Mouse
  imports Keyboard RenderState
begin

text \<open>
  The mouse: the driver \<open>framework/src/drivers/mouse.c\<close>, which collects the bytes of a packet (three, or
  four in wheel mode), decodes it and sends commands to the device, and \<open>controller/input/mouse.c\<close>,
  which moves the pointer and pushes click, hold and scroll events.
\<close>

section \<open>The driver\<close>

definition MOUSE_MAX_TRIES :: nat where "MOUSE_MAX_TRIES = 5"
definition MOUSE_COMMAND :: u32 where "MOUSE_COMMAND = 0xD4"
definition ENABLE_DR :: u8 where "ENABLE_DR = 0xF4"
definition DISABLE_DR :: u8 where "DISABLE_DR = 0xF5"
definition SUCCESS :: u8 where "SUCCESS = 0xFA"
definition FAILURE :: u8 where "FAILURE = 0xFE"
definition SET_SAMPLE_RATE :: u8 where "SET_SAMPLE_RATE = 0xF3"
definition GET_DEVICE_ID :: u8 where "GET_DEVICE_ID = 0xF2"
definition KBD_AUX_IRQ :: int where "KBD_AUX_IRQ = 12"

record mouse_packet =
  mp_bytes :: "u8 \<times> u8 \<times> u8 \<times> u8"
  mp_rb :: bool
  mp_mb :: bool
  mp_lb :: bool
  delta_x :: "16 word"
  delta_y :: "16 word"
  delta_z :: "8 word"
  x_ov :: bool
  y_ov :: bool

record mouse_driver =
  packet_size :: int
  md_hook_id :: int
  packet_index :: int
  packet_ready :: bool
  md_error :: bool
  packet_bytes :: "u8 cells"

definition mouse_driver0 :: mouse_driver where
  "mouse_driver0 = \<lparr>packet_size = 3, md_hook_id = 2, packet_index = 0, packet_ready = False, md_error = False,
     packet_bytes = replicate 4 (Some 0)\<rparr>"

definition is_packet_ready :: "mouse_driver \<Rightarrow> bool" where
  "is_packet_ready d = packet_ready d"

definition mouse_parse_packet :: "mouse_driver \<Rightarrow> mouse_packet option" where
  "mouse_parse_packet d = do {
     b0 \<leftarrow> aread (packet_bytes d) 0;
     b1 \<leftarrow> aread (packet_bytes d) 1;
     b2 \<leftarrow> aread (packet_bytes d) 2;
     b3 \<leftarrow> (if packet_size d = 4 then aread (packet_bytes d) 3 else Some 0);
     Some \<lparr>mp_bytes = (b0, b1, b2, b3),
       mp_rb = (b0 AND 0x02 \<noteq> 0), mp_mb = (b0 AND 0x04 \<noteq> 0), mp_lb = (b0 AND 0x01 \<noteq> 0),
       delta_x = (if b0 AND 0x10 \<noteq> 0 then 0xFF00 OR ucast b1 else ucast b1),
       delta_y = (if b0 AND 0x20 \<noteq> 0 then 0xFF00 OR ucast b2 else ucast b2),
       delta_z = (if packet_size d = 4 then b3 else 0),
       x_ov = (b0 AND 0x40 \<noteq> 0), y_ov = (b0 AND 0x80 \<noteq> 0)\<rparr>
   }"

text \<open>\<open>pp\<close> is not \<open>NULL\<close> in the only call. A failure is reported on standard error.\<close>

definition build_packet :: "'w io \<Rightarrow> mouse_driver \<Rightarrow> 'w \<Rightarrow> ((mouse_packet \<times> mouse_driver) option \<times> 'w) option" where
  "build_packet io d w =
     (if \<not> packet_ready d then Some (fail io ERR_MOUSE ''build_packet: packet not ready'' w)
      else do {
        pp \<leftarrow> mouse_parse_packet d;
        Some (Some (pp, d\<lparr>packet_ready := False\<rparr>), w)
      })"

definition mouse_subscribe_int :: "'w io \<Rightarrow> mouse_driver \<Rightarrow> 'w \<Rightarrow> (u8 \<times> bool \<times> mouse_driver) \<times> 'w" where
  "mouse_subscribe_int io d w =
     (let bit_no = word_of_int (md_hook_id d) in
      case on_ok (sys_irqsetpolicy io KBD_AUX_IRQ IRQ_REENABLE_EXCLUSIVE (md_hook_id d))
             (fail io ERR_MOUSE ''mouse_subscribe_int: sys_irqsetpolicy failed'') succeed w of
        (None, w) \<Rightarrow> ((bit_no, False, d), w)
      | (Some h, w) \<Rightarrow> ((bit_no, True, d\<lparr>md_hook_id := h\<rparr>), w))"

definition mouse_unsubscribe_int :: "'w io \<Rightarrow> mouse_driver \<Rightarrow> (unit, 'w) call" where
  "mouse_unsubscribe_int io d =
     on_ok (sys_irqrmpolicy io (md_hook_id d))
       (fail io ERR_MOUSE ''mouse_unsubscribe_int: sys_irqrmpolicy failed'') succeed"

text \<open>The end of \<open>mouse_ih\<close>: a byte that came in from the mouse.\<close>

definition store_byte :: "u8 \<Rightarrow> mouse_driver \<Rightarrow> mouse_driver option" where
  "store_byte data d =
     (if packet_index d = 0 \<and> data AND 0x08 = 0 then Some d
      else do {
        bytes \<leftarrow> awrite (packet_bytes d) (packet_index d) data;
        let d = d\<lparr>packet_bytes := bytes, packet_index := packet_index d + 1\<rparr>;
        Some (if packet_index d = packet_size d then d\<lparr>packet_ready := True, packet_index := 0\<rparr>
              else d\<lparr>packet_ready := False\<rparr>)
      })"

text \<open>Reading the status again, at most \<open>n\<close> times, while the output buffer is empty.\<close>

fun await_output :: "'w io \<Rightarrow> nat \<Rightarrow> u8 \<Rightarrow> (u8, 'w) call" where
  "await_output io 0 status w = succeed status w"
| "await_output io (Suc n) status w =
     (if status AND KBC_ST_OBF \<noteq> 0 then succeed status w
      else on_ok (util_sys_inb io KBC_STATUS_REG)
             (fail io ERR_MOUSE ''mouse_ih: failed to re-read status register'')
             (\<lambda>status. await_output io n status) (tickdelay io 20000 w))"

text \<open>What \<open>mouse_ih\<close> reads: an error, or the byte, if it came from the mouse.\<close>

definition read_mouse_byte :: "'w io \<Rightarrow> (u8 option, 'w) call" where
  "read_mouse_byte io =
     on_ok (util_sys_inb io KBC_STATUS_REG) (fail io ERR_MOUSE ''mouse_ih: failed to read status register'') (\<lambda>status.
     on_ok (await_output io 10 status) return1 (\<lambda>status.
     if status AND KBC_ST_OBF = 0 then fail io ERR_MOUSE ''mouse_ih: output buffer not full''
     else if status AND (KBC_PAR_ERR OR KBC_TOUT_ERR) \<noteq> 0 then fail io ERR_MOUSE ''mouse_ih: parity or timeout error''
     else if status AND KBC_MOUSE_DATA = 0 then succeed None
     else on_ok (util_sys_inb io KBC_DATA_REG) (fail io ERR_MOUSE ''mouse_ih: failed to read data register'')
            (\<lambda>data. succeed (Some data))))"

definition mouse_ih :: "'w io \<Rightarrow> mouse_driver \<Rightarrow> 'w \<Rightarrow> (mouse_driver \<times> 'w) option" where
  "mouse_ih io d w =
     (let d = d\<lparr>md_error := False\<rparr> in
      case read_mouse_byte io w of
        (None, w) \<Rightarrow> Some (d\<lparr>md_error := True\<rparr>, w)
      | (Some None, w) \<Rightarrow> Some (d, w)
      | (Some (Some data), w) \<Rightarrow> do { d \<leftarrow> store_byte data d; Some (d, w) })"

fun write_tries :: "'w io \<Rightarrow> u8 \<Rightarrow> nat \<Rightarrow> (unit, 'w) call" where
  "write_tries io cmd 0 w = fail io ERR_MOUSE ''mouse_write_command: retries exceeded'' w"
| "write_tries io cmd (Suc attempts) w =
     on_ok (kbc_wait_input_empty io) (fail io ERR_MOUSE ''mouse_write_command: input buffer not empty (write cmd)'') (\<lambda>_.
     on_ok (sys_outb io KBC_STATUS_REG MOUSE_COMMAND) (fail io ERR_MOUSE ''mouse_write_command: failed to send mouse command'') (\<lambda>_.
     on_ok (kbc_wait_input_empty io) (fail io ERR_MOUSE ''mouse_write_command: input buffer not empty (write data)'') (\<lambda>_.
     on_ok (sys_outb io KBC_DATA_REG (ucast cmd)) (fail io ERR_MOUSE ''mouse_write_command: failed to write command'') (\<lambda>_.
     on_ok (kbc_wait_output_full io) (fail io ERR_MOUSE ''mouse_write_command: failed to read response'') (\<lambda>response.
     if response = SUCCESS then succeed ()
     else if response \<noteq> FAILURE then fail io ERR_MOUSE ''mouse_write_command: unexpected response''
     else (\<lambda>w. write_tries io cmd attempts w)))))) w"

definition mouse_write_command :: "'w io \<Rightarrow> u8 \<Rightarrow> (unit, 'w) call" where
  "mouse_write_command io cmd = write_tries io cmd MOUSE_MAX_TRIES"

fun write_commands :: "'w io \<Rightarrow> u8 list \<Rightarrow> (unit, 'w) call" where
  "write_commands io [] w = succeed () w"
| "write_commands io (c # cs) w = on_ok (mouse_write_command io c) return1 (\<lambda>_. write_commands io cs) w"

text \<open>The result, and the driver with the packet size the device's answer asks for.\<close>

definition mouse_enable_wheel_mode :: "'w io \<Rightarrow> mouse_driver \<Rightarrow> 'w \<Rightarrow> (bool \<times> mouse_driver) \<times> 'w" where
  "mouse_enable_wheel_mode io d w =
     (case on_ok (write_commands io [SET_SAMPLE_RATE, 200, SET_SAMPLE_RATE, 100, SET_SAMPLE_RATE, 80, GET_DEVICE_ID]) return1
             (\<lambda>_. on_ok (kbc_wait_output_full io) (fail io ERR_MOUSE ''mouse_enable_wheel_mode: failed to read device id'') succeed) w of
        (None, w) \<Rightarrow> ((False, d), w)
      | (Some i, w) \<Rightarrow>
          let d = d\<lparr>packet_size := (if 3 \<le> i then 4 else 3), packet_index := 0, packet_ready := False\<rparr>
          in case mouse_write_command io ENABLE_DR w of
               (None, w) \<Rightarrow> ((False, d), w)
             | (Some _, w) \<Rightarrow> ((True, d), w))"

definition my_mouse_enable_data_reporting :: "'w io \<Rightarrow> (unit, 'w) call" where
  "my_mouse_enable_data_reporting io = mouse_write_command io ENABLE_DR"

definition my_mouse_disable_data_reporting :: "'w io \<Rightarrow> (unit, 'w) call" where
  "my_mouse_disable_data_reporting io = mouse_write_command io DISABLE_DR"

section \<open>The pointer\<close>

record mouse_state =
  mouse_x :: int
  mouse_y :: int
  mouse_initialized :: bool
  prev_lb :: bool

definition mouse_state0 :: mouse_state where
  "mouse_state0 = \<lparr>mouse_x = 0, mouse_y = 0, mouse_initialized = False, prev_lb = False\<rparr>"

definition mouse_event :: "bool \<Rightarrow> bool \<Rightarrow> mouse_state \<Rightarrow> int \<Rightarrow> InputEvent" where
  "mouse_event clicked holding m z = INPUT_EVENT_MOUSE \<lparr>left_clicked = clicked, left_holding = holding,
     click_x = mouse_x m, click_y = mouse_y m, me_scroll = z\<rparr>"

text \<open>The pointer after a packet, on a screen of \<open>h\<close> by \<open>v\<close> pixels.\<close>

definition move_pointer :: "mouse_packet \<Rightarrow> int \<Rightarrow> int \<Rightarrow> mouse_state \<Rightarrow> mouse_state" where
  "move_pointer pp h v m =
     (let m = (if \<not> mouse_initialized m
               then m\<lparr>mouse_x := h div 2, mouse_y := v div 2, mouse_initialized := True\<rparr> else m);
          m = m\<lparr>mouse_x := mouse_x m + sint (delta_x pp)\<rparr>;
          m = m\<lparr>mouse_y := mouse_y m - sint (delta_y pp)\<rparr>;
          m = (if mouse_x m < 0 then m\<lparr>mouse_x := 0\<rparr> else m);
          m = (if mouse_y m < 0 then m\<lparr>mouse_y := 0\<rparr> else m);
          m = (if h \<le> mouse_x m then m\<lparr>mouse_x := h - 1\<rparr> else m);
          m = (if v \<le> mouse_y m then m\<lparr>mouse_y := v - 1\<rparr> else m)
      in m)"

text \<open>The events of a packet, in the order they are pushed.\<close>

definition packet_events :: "mouse_packet \<Rightarrow> mouse_state \<Rightarrow> InputEvent list" where
  "packet_events pp m =
     (if mp_lb pp \<and> \<not> prev_lb m then [mouse_event True False m (sint (delta_z pp))]
      else if mp_lb pp then [mouse_event False True m (sint (delta_z pp))]
      else [])
     @ (if sint (delta_z pp) \<noteq> 0 then [mouse_event False False m (sint (delta_z pp))] else [])"

fun push_all :: "InputEvent list \<Rightarrow> event_queue \<Rightarrow> event_queue option" where
  "push_all [] q = Some q"
| "push_all (e # es) q = do { (ok, q) \<leftarrow> input_event_push q e; push_all es q }"

definition mouse_process :: "mouse_packet \<Rightarrow> int \<Rightarrow> int \<Rightarrow> mouse_state \<Rightarrow> render_mode \<Rightarrow> event_queue
    \<Rightarrow> (mouse_state \<times> render_mode \<times> event_queue) option" where
  "mouse_process pp h v m r q = do {
     let moved = (delta_x pp \<noteq> 0 \<or> delta_y pp \<noteq> 0);
     let m = move_pointer pp h v m;
     let r = (if moved then set_render RENDER_MOUSE r else r);
     q \<leftarrow> push_all (packet_events pp m) q;
     Some (m\<lparr>prev_lb := mp_lb pp\<rparr>, r, q)
   }"

definition ih_get_mouse_x :: "mouse_state \<Rightarrow> int" where "ih_get_mouse_x m = mouse_x m"
definition ih_get_mouse_y :: "mouse_state \<Rightarrow> int" where "ih_get_mouse_y m = mouse_y m"

section \<open>Packets\<close>

text \<open>
  A movement report as the device encodes it: the buttons, the overflow flags, the displacements as
  nine bit two's complement numbers (the sign bits are in the first byte) and, in wheel mode, the
  wheel steps as a signed byte.
\<close>

record mouse_report =
  rp_lb :: bool
  rp_rb :: bool
  rp_mb :: bool
  rp_xov :: bool
  rp_yov :: bool
  rp_dx :: int
  rp_dy :: int
  rp_dz :: int

definition report_ok :: "mouse_report \<Rightarrow> bool" where
  "report_ok p \<longleftrightarrow> rp_dx p \<in> {-256..<256} \<and> rp_dy p \<in> {-256..<256} \<and> rp_dz p \<in> {-128..<128}"

definition flag_byte :: "mouse_report \<Rightarrow> u8" where
  "flag_byte p = (if rp_lb p then 0x01 else 0) OR (if rp_rb p then 0x02 else 0) OR (if rp_mb p then 0x04 else 0)
     OR 0x08 OR (if rp_dx p < 0 then 0x10 else 0) OR (if rp_dy p < 0 then 0x20 else 0)
     OR (if rp_xov p then 0x40 else 0) OR (if rp_yov p then 0x80 else 0)"

definition report_bytes :: "bool \<Rightarrow> mouse_report \<Rightarrow> u8 list" where
  "report_bytes wheel p = [flag_byte p, word_of_int (rp_dx p), word_of_int (rp_dy p)]
     @ (if wheel then [word_of_int (rp_dz p)] else [])"

definition report_packet :: "bool \<Rightarrow> mouse_report \<Rightarrow> mouse_packet" where
  "report_packet wheel p = \<lparr>mp_bytes = (flag_byte p, word_of_int (rp_dx p), word_of_int (rp_dy p),
       if wheel then word_of_int (rp_dz p) else 0),
     mp_rb = rp_rb p, mp_mb = rp_mb p, mp_lb = rp_lb p,
     delta_x = word_of_int (rp_dx p), delta_y = word_of_int (rp_dy p),
     delta_z = (if wheel then word_of_int (rp_dz p) else 0), x_ov = rp_xov p, y_ov = rp_yov p\<rparr>"

lemma if_and: "(if b then x else 0) AND y = (if b then x AND y else (0 :: 'a :: len word))"
  by simp

lemma flag_byte_bits:
  "flag_byte p AND 0x01 \<noteq> 0 \<longleftrightarrow> rp_lb p" "flag_byte p AND 0x02 \<noteq> 0 \<longleftrightarrow> rp_rb p" "flag_byte p AND 0x04 \<noteq> 0 \<longleftrightarrow> rp_mb p"
  "flag_byte p AND 0x08 \<noteq> 0" "flag_byte p AND 0x10 \<noteq> 0 \<longleftrightarrow> rp_dx p < 0" "flag_byte p AND 0x20 \<noteq> 0 \<longleftrightarrow> rp_dy p < 0"
  "flag_byte p AND 0x40 \<noteq> 0 \<longleftrightarrow> rp_xov p" "flag_byte p AND 0x80 \<noteq> 0 \<longleftrightarrow> rp_yov p"
  unfolding flag_byte_def bit.conj_disj_distrib2 if_and by simp_all

lemma sign_extended:
  assumes "d \<in> {-256..<256}"
  shows "(if d < 0 then 0xFF00 OR ucast (word_of_int d :: u8) else ucast (word_of_int d :: u8)) = (word_of_int d :: 16 word)"
proof -
  have f: "(0xFF00 :: 16 word) = push_bit 8 (mask 8)" by (simp add: mask_eq_exp_minus_1 push_bit_eq_mult)
  have s: "signed_take_bit 8 d = d" using assms by (simp add: signed_take_bit_int_eq_self_iff)
  have b: "bit d n \<longleftrightarrow> bit d 8" if "8 \<le> n" for n
    using bit_signed_take_bit_iff [of 8 d n] that unfolding s by (simp add: min_def)
  have g: "d < 0 \<longleftrightarrow> bit d 8" using signed_take_bit_negative_iff [of 8 d] unfolding s by simp
  have "bit (if d < 0 then 0xFF00 OR ucast (word_of_int d :: u8) else ucast (word_of_int d :: u8) :: 16 word) n
      \<longleftrightarrow> bit (word_of_int d :: 16 word) n" if "n < 16" for n
    using that b [of n] unfolding f g by (cases "n < 8") (auto simp: bit_simps)
  then show ?thesis by (intro bit_word_eqI) simp
qed

text \<open>The driver and \<open>build_packet\<close> as a decoder of bytes, as \<open>mouse_handler\<close> calls them.\<close>

definition mouse_step :: "u8 \<Rightarrow> mouse_driver \<Rightarrow> (mouse_driver \<times> mouse_packet option) option" where
  "mouse_step b d = do {
     d \<leftarrow> store_byte b d;
     if packet_ready d then do { pp \<leftarrow> mouse_parse_packet d; Some (d\<lparr>packet_ready := False\<rparr>, Some pp) }
     else Some (d, None)
   }"

definition mouse_idle :: "bool \<Rightarrow> mouse_driver \<Rightarrow> bool" where
  "mouse_idle wheel d \<longleftrightarrow> packet_index d = 0 \<and> packet_size d = (if wheel then 4 else 3) \<and> \<not> packet_ready d
     \<and> length (packet_bytes d) = 4"

lemma report_decoded:
  assumes "mouse_idle wheel d" and "report_ok p"
  shows "\<exists>d'. feed mouse_step (report_bytes wheel p) d = Some (d', [report_packet wheel p]) \<and> mouse_idle wheel d'"
proof -
  obtain x0 x1 x2 x3 where b: "packet_bytes d = [x0, x1, x2, x3]"
    using assms(1) by (auto simp: mouse_idle_def length_Suc_conv eval_nat_numeral)
  have x: "rp_dx p \<in> {-256..<256}" and y: "rp_dy p \<in> {-256..<256}" using assms(2) by (simp_all add: report_ok_def)
  note f = flag_byte_bits [of p]
  show ?thesis using assms(1) f unfolding mouse_idle_def
    by (cases wheel)
      (simp_all add: b report_bytes_def mouse_step_def store_byte_def awrite_def aread_def in_range_def
        mouse_parse_packet_def report_packet_def sign_extended [OF x] sign_extended [OF y])
qed

interpretation mouse_frames: framing mouse_step "mouse_idle wheel" "report_bytes wheel" "report_packet wheel" report_ok
  "\<lambda>b. b AND 0x08 = 0" for wheel
proof unfold_locales
  show "\<exists>d'. feed mouse_step (report_bytes wheel p) d = Some (d', [report_packet wheel p]) \<and> mouse_idle wheel d'"
    if "mouse_idle wheel d" "report_ok p" for d p by (rule report_decoded [OF that])
  show "\<exists>d'. mouse_step b d = Some (d', None) \<and> mouse_idle wheel d'"
    if "mouse_idle wheel d" "b AND 0x08 = 0" for d b
    using that by (auto simp: mouse_step_def store_byte_def mouse_idle_def)
qed

text \<open>C26: The driver decodes every movement report of the mouse, in three- and in four-byte packets: from
  any stream of reports, with any bytes that cannot begin a packet in front of each one, come the
  packets in order, with the buttons, and the displacements as the two's complement numbers the
  device sent; between two packets the driver is ready for the next.\<close>

theorem mouse_packets_decoded:
  assumes "mouse_idle wheel d" and "\<forall>(noise, p) \<in> set ps. report_ok p \<and> (\<forall>b \<in> set noise. b AND 0x08 = 0)"
  shows "\<exists>d'. feed mouse_step (concat (map (\<lambda>(noise, p). noise @ report_bytes wheel p) ps)) d
      = Some (d', map (report_packet wheel \<circ> snd) ps)
    \<and> mouse_idle wheel d'
    \<and> (\<forall>(noise, p) \<in> set ps. sint (delta_x (report_packet wheel p)) = rp_dx p
        \<and> sint (delta_y (report_packet wheel p)) = rp_dy p
        \<and> sint (delta_z (report_packet wheel p)) = (if wheel then rp_dz p else 0))"
proof -
  have "sint (delta_x (report_packet wheel p)) = rp_dx p \<and> sint (delta_y (report_packet wheel p)) = rp_dy p
        \<and> sint (delta_z (report_packet wheel p)) = (if wheel then rp_dz p else 0)" if "report_ok p" for p
    using that by (simp add: report_packet_def report_ok_def signed_of_int signed_take_bit_int_eq_self)
  then show ?thesis using mouse_frames.stream [OF assms] assms(2) by fastforce
qed

definition report0 :: mouse_report where
  "report0 = \<lparr>rp_lb = True, rp_rb = False, rp_mb = False, rp_xov = False, rp_yov = False,
     rp_dx = -200, rp_dy = 7, rp_dz = -1\<rparr>"

theorem mouse_packets_decoded_witness:
  "\<exists>d'. feed mouse_step ([0x00, 0xF0] @ report_bytes False report0) mouse_driver0
      = Some (d', [report_packet False report0]) \<and> sint (delta_x (report_packet False report0)) = -200"
  using mouse_packets_decoded [where wheel = False and d = mouse_driver0 and ps = "[([0x00, 0xF0], report0)]"]
  by (simp add: mouse_idle_def mouse_driver0_def report_ok_def report0_def del: feed.simps) blast

section \<open>The pointer and the buttons\<close>

lemma push_all_run: "push_all es q = run_all (\<lambda>e q. map_option snd (input_event_push q e)) es q"
  by (induction es arbitrary: q) (auto split: Option.bind_splits)

lemma push_all_pending:
  assumes "events_inv q"
  shows "\<exists>q'. push_all es q = Some q' \<and> events_inv q'
    \<and> pending q' = drop (length (pending q) + length es - INPUT_EVENT_QUEUE_SIZE) (pending q @ es)"
  unfolding push_all_run by (rule event_fifo.push_sequence [OF assms])

lemma pending_cap: "events_inv q \<Longrightarrow> length (pending q) \<le> INPUT_EVENT_QUEUE_SIZE"
  by (rule event_fifo.contents_cap)

fun process_packets :: "int \<Rightarrow> int \<Rightarrow> mouse_packet list \<Rightarrow> mouse_state \<times> render_mode \<times> event_queue
    \<Rightarrow> (mouse_state \<times> render_mode \<times> event_queue) option" where
  "process_packets h v [] s = Some s"
| "process_packets h v (pp # pps) (m, r, q) = Option.bind (mouse_process pp h v m r q) (process_packets h v pps)"

text \<open>The reference: displacements with clamping, and the number of times the button goes down.\<close>

definition clamp :: "int \<Rightarrow> int \<Rightarrow> int" where
  "clamp n x = max 0 (min (n - 1) x)"

definition pointer_on :: "int \<Rightarrow> int \<Rightarrow> mouse_state \<Rightarrow> int \<times> int" where
  "pointer_on h v m = (if mouse_initialized m then (mouse_x m, mouse_y m) else (h div 2, v div 2))"

fun travel :: "int \<Rightarrow> int \<Rightarrow> mouse_packet list \<Rightarrow> int \<times> int \<Rightarrow> int \<times> int" where
  "travel h v [] (x, y) = (x, y)"
| "travel h v (pp # pps) (x, y) = travel h v pps (clamp h (x + sint (delta_x pp)), clamp v (y - sint (delta_y pp)))"

fun presses :: "bool \<Rightarrow> bool list \<Rightarrow> nat" where
  "presses was [] = 0"
| "presses was (b # bs) = (if b \<and> \<not> was then 1 else 0) + presses b bs"

definition is_click :: "InputEvent \<Rightarrow> bool" where
  "is_click ev = (case ev of INPUT_EVENT_MOUSE me \<Rightarrow> left_clicked me | _ \<Rightarrow> False)"

definition on_screen :: "int \<Rightarrow> int \<Rightarrow> InputEvent \<Rightarrow> bool" where
  "on_screen h v ev = (case ev of
     INPUT_EVENT_MOUSE me \<Rightarrow> 0 \<le> click_x me \<and> click_x me < h \<and> 0 \<le> click_y me \<and> click_y me < v | _ \<Rightarrow> False)"

lemma move_pointer_clamps:
  assumes "0 < h" and "0 < v"
  shows "pointer_on h v (move_pointer pp h v m) = travel h v [pp] (pointer_on h v m)"
    and "mouse_initialized (move_pointer pp h v m)" and "prev_lb (move_pointer pp h v m) = prev_lb m"
  using assms by (auto simp: move_pointer_def pointer_on_def clamp_def Let_def)

lemma travel_split: "travel h v (pp # pps) p = travel h v pps (travel h v [pp] p)"
  by (cases p) simp

lemma packet_events_spec:
  assumes "mouse_initialized m" and "pointer_on h v m = (clamp h x, clamp v y)" and "0 < h" and "0 < v"
  shows "length (filter is_click (packet_events pp m)) = presses (prev_lb m) [mp_lb pp]"
    and "\<forall>ev \<in> set (packet_events pp m). on_screen h v ev"
  using assms by (auto simp: packet_events_def is_click_def on_screen_def mouse_event_def pointer_on_def clamp_def)

lemma drop_last_twice:
  "drop (length (drop (length xs - k) xs) + length zs - k) (drop (length xs - k) xs @ zs)
     = drop (length xs + length zs - k) (xs @ zs)"
proof (cases "length xs \<le> k")
  case False
  then have "length (drop (length xs - k) xs) = k" "length xs + length zs - k = length zs + (length xs - k)" by simp_all
  moreover have "drop (length xs - k) xs @ zs = drop (length xs - k) (xs @ zs)" using False by simp
  ultimately show ?thesis by (simp only: drop_drop) simp
qed simp

text \<open>C27: The mouse controller keeps the pointer on the screen: each packet moves it by its displacement,
  clamped to the screen, from its centre at the start. Each time the button goes down exactly one
  click is queued, however long it is held, every event carries a position on the screen, and of the
  events of any number of packets the queue keeps the latest.\<close>

theorem pointer_and_clicks:
  assumes "events_inv q" and "0 < h" and "0 < v"
  shows "\<exists>m' r' q' es. process_packets h v pps (m, r, q) = Some (m', r', q') \<and> events_inv q'
    \<and> pending q' = drop (length (pending q) + length es - INPUT_EVENT_QUEUE_SIZE) (pending q @ es)
    \<and> pointer_on h v m' = travel h v pps (pointer_on h v m)
    \<and> length (filter is_click es) = presses (prev_lb m) (map mp_lb pps)
    \<and> (\<forall>ev \<in> set es. on_screen h v ev)"
  using assms(1)
proof (induction pps arbitrary: m r q)
  case Nil
  have "pointer_on h v m = travel h v [] (pointer_on h v m)" by (cases "pointer_on h v m") simp
  with Nil pending_cap [of q] show ?case by (intro exI [of _ m] exI [of _ r] exI [of _ q] exI [of _ "[]"]) simp
next
  case (Cons pp pps)
  let ?m = "move_pointer pp h v m"
  obtain x y where xy: "pointer_on h v m = (x, y)" by force
  note mv = move_pointer_clamps [OF assms(2,3), of pp m]
  have p: "pointer_on h v ?m = (clamp h (x + sint (delta_x pp)), clamp v (y - sint (delta_y pp)))"
    using mv(1) xy by simp
  note ev = packet_events_spec [OF mv(2) p assms(2,3), of pp]
  obtain q1 where q1: "push_all (packet_events pp ?m) q = Some q1" "events_inv q1"
    "pending q1 = drop (length (pending q) + length (packet_events pp ?m) - INPUT_EVENT_QUEUE_SIZE)
       (pending q @ packet_events pp ?m)"
    using push_all_pending [OF Cons.prems] by blast
  let ?m1 = "?m\<lparr>prev_lb := mp_lb pp\<rparr>"
  obtain r1 where step: "mouse_process pp h v m r q = Some (?m1, r1, q1)"
    using q1(1) by (simp add: mouse_process_def)
  obtain m' r' q' es where IH: "process_packets h v pps (?m1, r1, q1) = Some (m', r', q')" "events_inv q'"
    "pending q' = drop (length (pending q1) + length es - INPUT_EVENT_QUEUE_SIZE) (pending q1 @ es)"
    "pointer_on h v m' = travel h v pps (pointer_on h v ?m1)"
    "length (filter is_click es) = presses (mp_lb pp) (map mp_lb pps)" "\<forall>ev \<in> set es. on_screen h v ev"
    using Cons.IH [OF q1(2), of ?m1 r1] by auto
  have "pointer_on h v ?m1 = pointer_on h v ?m" by (simp add: pointer_on_def)
  then have "pointer_on h v m' = travel h v (pp # pps) (pointer_on h v m)"
    using IH(4) mv(1) travel_split by metis
  moreover have "pending q' = drop (length (pending q) + length (packet_events pp ?m @ es) - INPUT_EVENT_QUEUE_SIZE)
      (pending q @ packet_events pp ?m @ es)"
    unfolding IH(3) q1(3) using drop_last_twice [of "pending q @ packet_events pp ?m" INPUT_EVENT_QUEUE_SIZE es]
    by (simp add: add.assoc)
  moreover have "length (filter is_click (packet_events pp ?m @ es)) = presses (prev_lb m) (map mp_lb (pp # pps))"
    using ev(1) IH(5) mv(3) by simp
  moreover have "\<forall>e \<in> set (packet_events pp ?m @ es). on_screen h v e" using ev(2) IH(6) by auto
  ultimately show ?case using step IH(1,2)
    by (intro exI [of _ m'] exI [of _ r'] exI [of _ q'] exI [of _ "packet_events pp ?m @ es"]) simp
qed

theorem pointer_and_clicks_witness:
  "\<exists>m' r' q' es. process_packets 800 600 (replicate 3 (report_packet True report0)) (mouse_state0, RENDER_NONE, event_queue0)
      = Some (m', r', q') \<and> pending q' = drop (length es - 64) es \<and> pointer_on 800 600 m' = (0, 279) \<and> length (filter is_click es) = 1"
proof -
  let ?pps = "replicate 3 (report_packet True report0)"
  have t: "travel 800 600 ?pps (pointer_on 800 600 mouse_state0) = (0, 279)"
    "presses False (map mp_lb ?pps) = 1"
    by (simp_all add: eval_nat_numeral report_packet_def report0_def pointer_on_def mouse_state0_def clamp_def)
  show ?thesis
    using pointer_and_clicks [where q = event_queue0 and m = mouse_state0 and r = RENDER_NONE and h = 800 and v = 600 and pps = ?pps, OF events_inv0]
      t by (auto simp: pending0 INPUT_EVENT_QUEUE_SIZE_def mouse_state0_def)
qed

end
