(* ===== verification/CommandBar.thy ===== *)
theory CommandBar
  imports Prelude
begin

text \<open>
  \<open>model/command_bar/command_bar.c\<close>: the command input line, the file name and the timed status
  message. The three \<open>char[CMD_BUF_SIZE]\<close> arrays are static, so they start fully written; they
  are kept as the arrays of the code, and what the getters return is the C string in them.
\<close>

definition CMD_BUF_SIZE :: nat where "CMD_BUF_SIZE = 128"

text \<open>\<open>TIMER_HZ\<close> of \<open>fw/drivers/timer.h\<close>.\<close>

definition TIMER_HZ :: int where "TIMER_HZ = 60"

datatype EditorMode = MODE_EDITOR | MODE_COMMAND

record command_bar =
  cb_mode :: EditorMode
  filename :: "char cells"
  input :: "char cells"
  input_len :: int
  status_msg :: "char cells"
  status_ticks :: int

definition c_array :: "string \<Rightarrow> char cells" where
  "c_array s = map Some s @ replicate (CMD_BUF_SIZE - length s) (Some NUL)"

definition command_bar0 :: command_bar where
  "command_bar0 =
     \<lparr>cb_mode = MODE_EDITOR, filename = c_array ''untitled'', input = c_array [], input_len = 0,
      status_msg = c_array [], status_ticks = 0\<rparr>"

definition command_bar_init :: "string option \<Rightarrow> command_bar \<Rightarrow> command_bar option" where
  "command_bar_init name b = do {
     fn \<leftarrow> (case name of None \<Rightarrow> Some (filename b)
            | Some s \<Rightarrow> strncpy (filename b) s (CMD_BUF_SIZE - 1));
     Some (b\<lparr>filename := fn, cb_mode := MODE_EDITOR\<rparr>)
   }"

definition command_bar_get_mode :: "command_bar \<Rightarrow> EditorMode" where
  "command_bar_get_mode b = cb_mode b"

definition command_bar_get_filename :: "command_bar \<Rightarrow> string option" where
  "command_bar_get_filename b = cstring (filename b)"

definition command_bar_set_filename :: "string \<Rightarrow> command_bar \<Rightarrow> command_bar option" where
  "command_bar_set_filename name b = do {
     fn \<leftarrow> strncpy (filename b) name (CMD_BUF_SIZE - 1);
     Some (b\<lparr>filename := fn\<rparr>)
   }"

definition command_bar_start :: "command_bar \<Rightarrow> command_bar option" where
  "command_bar_start b = do {
     inp \<leftarrow> afill (input b) 0 NUL (int CMD_BUF_SIZE);
     Some (b\<lparr>input := inp, input_len := 0, cb_mode := MODE_COMMAND\<rparr>)
   }"

text \<open>The loop \<open>while (*text && input_len < CMD_BUF_SIZE - 1) input[input_len++] = *text++;\<close>.\<close>

fun prefill :: "string \<Rightarrow> command_bar \<Rightarrow> command_bar option" where
  "prefill [] b = Some b"
| "prefill (c # text) b =
     (if input_len b < int CMD_BUF_SIZE - 1 then do {
        inp \<leftarrow> awrite (input b) (input_len b) c;
        prefill text (b\<lparr>input := inp, input_len := input_len b + 1\<rparr>)
      } else Some b)"

definition command_bar_start_prefill :: "string option \<Rightarrow> command_bar \<Rightarrow> command_bar option" where
  "command_bar_start_prefill text b = do {
     b \<leftarrow> command_bar_start b;
     case text of None \<Rightarrow> Some b
     | Some s \<Rightarrow> do {
         b \<leftarrow> prefill s b;
         inp \<leftarrow> awrite (input b) (input_len b) NUL;
         Some (b\<lparr>input := inp\<rparr>)
       }
   }"

definition command_bar_cancel :: "command_bar \<Rightarrow> command_bar" where
  "command_bar_cancel b = b\<lparr>cb_mode := MODE_EDITOR\<rparr>"

definition command_bar_get_input :: "command_bar \<Rightarrow> string option" where
  "command_bar_get_input b = cstring (input b)"

definition command_bar_insert :: "char \<Rightarrow> command_bar \<Rightarrow> command_bar option" where
  "command_bar_insert c b =
     (if int CMD_BUF_SIZE - 1 \<le> input_len b then Some b
      else do {
        inp \<leftarrow> awrite (input b) (input_len b) c;
        inp \<leftarrow> awrite inp (input_len b + 1) NUL;
        Some (b\<lparr>input := inp, input_len := input_len b + 1\<rparr>)
      })"

definition command_bar_delete :: "command_bar \<Rightarrow> command_bar option" where
  "command_bar_delete b =
     (if 0 < input_len b then do {
        inp \<leftarrow> awrite (input b) (input_len b - 1) NUL;
        Some (b\<lparr>input := inp, input_len := input_len b - 1\<rparr>)
      } else Some b)"

definition command_bar_commit :: "command_bar \<Rightarrow> (string \<times> command_bar) option" where
  "command_bar_commit b = do {
     s \<leftarrow> cstring (input b);
     Some (s, b\<lparr>cb_mode := MODE_EDITOR\<rparr>)
   }"

definition command_bar_set_status :: "string \<Rightarrow> command_bar \<Rightarrow> command_bar option" where
  "command_bar_set_status msg b = do {
     m \<leftarrow> strncpy (status_msg b) msg (CMD_BUF_SIZE - 1);
     m \<leftarrow> awrite m (int CMD_BUF_SIZE - 1) NUL;
     Some (b\<lparr>status_msg := m, status_ticks := TIMER_HZ\<rparr>)
   }"

definition command_bar_tick :: "command_bar \<Rightarrow> (bool \<times> command_bar) option" where
  "command_bar_tick b =
     (if status_ticks b \<le> 0 then Some (False, b)
      else let b = b\<lparr>status_ticks := status_ticks b - 1\<rparr> in
        if status_ticks b = 0 then do {
          m \<leftarrow> awrite (status_msg b) 0 NUL;
          Some (True, b\<lparr>status_msg := m\<rparr>)
        } else Some (False, b))"

definition command_bar_get_status :: "command_bar \<Rightarrow> string option" where
  "command_bar_get_status b = cstring (status_msg b)"

section \<open>What the arrays hold\<close>

text \<open>
  \<open>holds a s\<close>: the array of \<open>CMD_BUF_SIZE\<close> bytes holds the string \<open>s\<close> and ends with \<open>NUL\<close>.
  \<open>typed b s\<close>: the command line holds exactly the \<open>input_len\<close> characters of \<open>s\<close>.
\<close>

definition holds :: "char cells \<Rightarrow> string \<Rightarrow> bool" where
  "holds a s \<longleftrightarrow> cstring a = Some s \<and> length a = CMD_BUF_SIZE \<and> a ! (CMD_BUF_SIZE - 1) = Some NUL"

definition typed :: "command_bar \<Rightarrow> string \<Rightarrow> bool" where
  "typed b s \<longleftrightarrow> input_len b = int (length s) \<and> length s < CMD_BUF_SIZE \<and> NUL \<notin> set s
     \<and> (\<exists>r. input b = map Some s @ Some NUL # r \<and> length (input b) = CMD_BUF_SIZE)"

definition bar_inv :: "command_bar \<Rightarrow> bool" where
  "bar_inv b \<longleftrightarrow> (\<exists>s. typed b s) \<and> (\<exists>s. holds (filename b) s) \<and> (\<exists>s. holds (status_msg b) s)
     \<and> 0 \<le> status_ticks b \<and> status_ticks b \<le> TIMER_HZ"

lemma holds_strncpy:
  assumes "holds a t" and "NUL \<notin> set s"
  shows "\<exists>a'. strncpy a s (CMD_BUF_SIZE - 1) = Some a' \<and> holds a' (take (CMD_BUF_SIZE - 1) s)"
proof -
  have "length a = Suc (CMD_BUF_SIZE - 1)" "a ! (CMD_BUF_SIZE - 1) = Some NUL"
    using assms(1) by (simp_all add: holds_def CMD_BUF_SIZE_def)
  from cstring_strncpy [OF this assms(2)] show ?thesis
    by (auto simp: holds_def CMD_BUF_SIZE_def)
qed

lemma holds_c_array: "NUL \<notin> set s \<Longrightarrow> length s < CMD_BUF_SIZE \<Longrightarrow> holds (c_array s) s"
  by (cases "CMD_BUF_SIZE - length s")
     (auto simp: holds_def c_array_def nth_append CMD_BUF_SIZE_def nth_Cons')

lemma holds_awrite_0: "holds a s \<Longrightarrow> \<exists>a'. awrite a 0 NUL = Some a' \<and> holds a' []"
  by (cases a) (auto simp: holds_def awrite_def in_range_def CMD_BUF_SIZE_def)

lemma typed_update [simp]:
  "typed (b\<lparr>status_msg := m\<rparr>) s = typed b s"
  "typed (b\<lparr>filename := m\<rparr>) s = typed b s"
  "typed (b\<lparr>status_ticks := n\<rparr>) s = typed b s"
  "typed (b\<lparr>cb_mode := md\<rparr>) s = typed b s"
  by (simp_all add: typed_def)

lemma typed_input: "typed b s \<Longrightarrow> cstring (input b) = Some s"
  by (auto simp: typed_def)

lemma typed_start:
  assumes "length (input b) = CMD_BUF_SIZE"
  shows "\<exists>b'. command_bar_start b = Some b' \<and> typed b' [] \<and> cb_mode b' = MODE_COMMAND
              \<and> filename b' = filename b \<and> status_msg b' = status_msg b \<and> status_ticks b' = status_ticks b"
  using assms
  by (simp add: command_bar_start_def afill_def blit_def in_range_def typed_def CMD_BUF_SIZE_def
      numeral_eq_Suc)

lemma typed_snoc:
  assumes "typed b s" and "length s < CMD_BUF_SIZE - 1"
  obtains y r where "input b = map Some s @ Some NUL # y # r"
    and "length s + 2 + length r = CMD_BUF_SIZE" and "input_len b = int (length s)"
    and "NUL \<notin> set s"
proof -
  from assms(1) obtain r where r: "input b = map Some s @ Some NUL # r"
    "length (input b) = CMD_BUF_SIZE" "input_len b = int (length s)" "NUL \<notin> set s"
    by (auto simp: typed_def)
  with assms(2) obtain y r' where "r = y # r'" by (cases r) auto
  with r that show ?thesis by auto
qed

lemma typed_insert:
  assumes "typed b s" and "c \<noteq> NUL" and "length s < CMD_BUF_SIZE - 1"
  shows "\<exists>b'. command_bar_insert c b = Some b' \<and> typed b' (s @ [c]) \<and> cb_mode b' = cb_mode b
    \<and> filename b' = filename b \<and> status_msg b' = status_msg b \<and> status_ticks b' = status_ticks b"
proof -
  from typed_snoc [OF assms(1,3)] obtain y r where i: "input b = map Some s @ Some NUL # y # r"
    "length s + 2 + length r = CMD_BUF_SIZE" "input_len b = int (length s)" "NUL \<notin> set s" .
  have w1: "awrite (input b) (input_len b) c = Some ((map Some s @ [Some c]) @ y # r)"
    using i by (simp add: mem_simps)
  have w2: "awrite ((map Some s @ [Some c]) @ y # r) (input_len b + 1) NUL
            = Some ((map Some s @ [Some c]) @ Some NUL # r)"
    by (rule awrite_split) (simp add: i(3))
  show ?thesis
    using assms(2,3) i w1 w2 by (auto simp: command_bar_insert_def typed_def)
qed

lemma typed_insert_full:
  "typed b s \<Longrightarrow> length s = CMD_BUF_SIZE - 1 \<Longrightarrow> command_bar_insert c b = Some b"
  by (simp add: command_bar_insert_def typed_def CMD_BUF_SIZE_def)

lemma typed_delete:
  assumes "typed b s"
  shows "\<exists>b'. command_bar_delete b = Some b' \<and> typed b' (butlast s) \<and> cb_mode b' = cb_mode b
    \<and> filename b' = filename b \<and> status_msg b' = status_msg b \<and> status_ticks b' = status_ticks b"
proof (cases s rule: rev_cases)
  case Nil
  with assms show ?thesis by (auto simp: command_bar_delete_def typed_def)
next
  case (snoc t c)
  with assms obtain r where r: "input b = map Some t @ Some c # Some NUL # r"
    by (auto simp: typed_def)
  have "awrite (input b) (input_len b - 1) NUL = Some (map Some t @ Some NUL # Some NUL # r)"
    unfolding r by (rule awrite_split) (use assms snoc in \<open>simp add: typed_def\<close>)
  with assms snoc r show ?thesis by (auto simp: command_bar_delete_def typed_def)
qed

lemma prefill_typed:
  assumes "length s + length t < CMD_BUF_SIZE" and "NUL \<notin> set t" and "NUL \<notin> set s"
    and "length (input b) = CMD_BUF_SIZE" and "input_len b = int (length s)"
    and "\<exists>r. input b = map Some s @ r"
  shows "\<exists>b' r. prefill t b = Some b' \<and> input_len b' = int (length (s @ t))
    \<and> input b' = map Some (s @ t) @ r \<and> length (input b') = CMD_BUF_SIZE \<and> cb_mode b' = cb_mode b
    \<and> filename b' = filename b \<and> status_msg b' = status_msg b \<and> status_ticks b' = status_ticks b"
  using assms
proof (induction t arbitrary: b s)
  case Nil
  then show ?case by auto
next
  case (Cons c t)
  then obtain r where r: "input b = map Some s @ r" by blast
  with Cons.prems obtain y r' where y: "r = y # r'" by (cases r) auto
  have w: "awrite (input b) (input_len b) c = Some (map Some s @ Some c # r')"
    using r y Cons.prems(5) by (simp add: mem_simps)
  let ?b = "b\<lparr>input := map Some s @ Some c # r', input_len := int (length s) + 1\<rparr>"
  have "\<exists>b' r. prefill t ?b = Some b' \<and> input_len b' = int (length ((s @ [c]) @ t))
    \<and> input b' = map Some ((s @ [c]) @ t) @ r \<and> length (input b') = CMD_BUF_SIZE
    \<and> cb_mode b' = cb_mode ?b \<and> filename b' = filename ?b \<and> status_msg b' = status_msg ?b
    \<and> status_ticks b' = status_ticks ?b"
    by (rule Cons.IH) (use Cons.prems r y in \<open>auto\<close>)
  with w Cons.prems show ?case by (simp add: CMD_BUF_SIZE_def)
qed

lemma typed_start_prefill:
  assumes "length (input b) = CMD_BUF_SIZE" and "length t < CMD_BUF_SIZE" and "NUL \<notin> set t"
  shows "\<exists>b'. command_bar_start_prefill (Some t) b = Some b' \<and> typed b' t \<and> cb_mode b' = MODE_COMMAND
    \<and> filename b' = filename b \<and> status_msg b' = status_msg b \<and> status_ticks b' = status_ticks b"
proof -
  obtain b0 where b0: "command_bar_start b = Some b0" "typed b0 []" "cb_mode b0 = MODE_COMMAND"
    "filename b0 = filename b" "status_msg b0 = status_msg b" "status_ticks b0 = status_ticks b"
    using typed_start [OF assms(1)] by blast
  obtain b1 r where b1: "prefill t b0 = Some b1" "input_len b1 = int (length t)"
    "input b1 = map Some t @ r" "length (input b1) = CMD_BUF_SIZE" "cb_mode b1 = cb_mode b0"
    "filename b1 = filename b0" "status_msg b1 = status_msg b0" "status_ticks b1 = status_ticks b0"
    using prefill_typed [of "[]" t b0] assms b0(2) by (auto simp: typed_def)
  have "length t + length r = CMD_BUF_SIZE" using b1(3,4) by auto
  with assms(2) obtain y r' where r: "r = y # r'" by (cases r) auto
  have "awrite (input b1) (input_len b1) NUL = Some (map Some t @ Some NUL # r')"
    unfolding b1(3) r b1(2) by (rule awrite_split) simp
  with b0 b1 r assms show ?thesis
    by (auto simp: command_bar_start_prefill_def typed_def)
qed

section \<open>Typing a command\<close>

text \<open>
  The editing keys of command mode and the line they are meant to produce: at most
  \<open>CMD_BUF_SIZE - 1\<close> characters, backspace on an empty line does nothing.
\<close>

datatype line_key = Type char | Backspace

fun line_edit :: "line_key list \<Rightarrow> string \<Rightarrow> string" where
  "line_edit [] s = s"
| "line_edit (Type c # ks) s =
     line_edit ks (if length s < CMD_BUF_SIZE - 1 then s @ [c] else s)"
| "line_edit (Backspace # ks) s = line_edit ks (butlast s)"

fun type_keys :: "line_key list \<Rightarrow> command_bar \<Rightarrow> command_bar option" where
  "type_keys [] b = Some b"
| "type_keys (Type c # ks) b = Option.bind (command_bar_insert c b) (type_keys ks)"
| "type_keys (Backspace # ks) b = Option.bind (command_bar_delete b) (type_keys ks)"

lemma type_keys_typed:
  assumes "typed b s" and "Type NUL \<notin> set ks"
  shows "\<exists>b'. type_keys ks b = Some b' \<and> typed b' (line_edit ks s) \<and> cb_mode b' = cb_mode b
    \<and> filename b' = filename b"
  using assms
proof (induction ks s arbitrary: b rule: line_edit.induct)
  case (1 s)
  then show ?case by auto
next
  case (2 c ks s)
  show ?case
  proof (cases "length s < CMD_BUF_SIZE - 1")
    case True
    with 2 typed_insert [of b s c] show ?thesis by fastforce
  next
    case False
    with "2.prems" have "length s = CMD_BUF_SIZE - 1" by (auto simp: typed_def CMD_BUF_SIZE_def)
    with 2 typed_insert_full [of b s c] show ?thesis by auto
  qed
next
  case (3 ks s)
  with typed_delete [of b s] show ?case by fastforce
qed

text \<open>C35: Typing in command mode. From any state whose input array is intact, opening the command
  line with a prefilled text and then pressing any sequence of character and backspace keys
  never has undefined behaviour; committing returns exactly the line those keys produce
  (characters beyond 127 are dropped), returns to the editor mode and leaves the file name
  alone.\<close>

theorem command_line_typing:
  assumes "length (input b) = CMD_BUF_SIZE" and "length t < CMD_BUF_SIZE" and "NUL \<notin> set t"
    and "Type NUL \<notin> set ks"
  shows "\<exists>b1 b2. command_bar_start_prefill (Some t) b = Some b1 \<and> cb_mode b1 = MODE_COMMAND
    \<and> type_keys ks b1 = Some b2 \<and> cb_mode b2 = MODE_COMMAND
    \<and> command_bar_commit b2 = Some (line_edit ks t, b2\<lparr>cb_mode := MODE_EDITOR\<rparr>)
    \<and> filename b2 = filename b"
proof -
  obtain b1 where b1: "command_bar_start_prefill (Some t) b = Some b1" "typed b1 t"
    "cb_mode b1 = MODE_COMMAND" "filename b1 = filename b"
    using typed_start_prefill [OF assms(1-3)] by blast
  obtain b2 where "type_keys ks b1 = Some b2" "typed b2 (line_edit ks t)" "cb_mode b2 = cb_mode b1"
    "filename b2 = filename b1"
    using type_keys_typed [OF b1(2) assms(4)] by blast
  with b1 typed_input show ?thesis by (auto simp: command_bar_commit_def)
qed

theorem command_line_typing_witness:
  "\<exists>b1 b2. command_bar_start_prefill (Some ''save '') command_bar0 = Some b1
     \<and> type_keys [Type (CHR ''a''), Type (CHR ''b''), Backspace] b1 = Some b2
     \<and> command_bar_commit b2 = Some (''save a'', b2\<lparr>cb_mode := MODE_EDITOR\<rparr>)"
proof -
  have h: "length (input command_bar0) = CMD_BUF_SIZE"
    by (simp add: command_bar0_def c_array_def)
  show ?thesis
    using command_line_typing
      [of command_bar0 "''save ''" "[Type (CHR ''a''), Type (CHR ''b''), Backspace]", OF h]
    by (auto simp: CMD_BUF_SIZE_def)
qed

section \<open>The timed status message\<close>

text \<open>\<open>n\<close> timer ticks, with the result of the last one (\<open>False\<close> for none).\<close>

fun ticks :: "nat \<Rightarrow> command_bar \<Rightarrow> (bool \<times> command_bar) option" where
  "ticks 0 b = Some (False, b)"
| "ticks (Suc n) b = Option.bind (ticks n b) (\<lambda>(_, b'). command_bar_tick b')"

lemma ticks_before:
  assumes "int n < status_ticks b"
  shows "ticks n b = Some (False, b\<lparr>status_ticks := status_ticks b - int n\<rparr>)"
  using assms by (induction n) (simp_all add: command_bar_tick_def Let_def algebra_simps)

lemma ticks_expiry:
  assumes "status_ticks b = int (Suc n)" and "holds (status_msg b) s"
  shows "\<exists>m. ticks (Suc n) b = Some (True, b\<lparr>status_ticks := 0, status_msg := m\<rparr>) \<and> holds m []"
proof -
  have "ticks n b = Some (False, b\<lparr>status_ticks := 1\<rparr>)"
    using ticks_before [of n b] assms(1) by simp
  with holds_awrite_0 [OF assms(2)] show ?thesis by (auto simp: command_bar_tick_def Let_def)
qed

lemma ticks_after: "status_ticks b \<le> 0 \<Longrightarrow> ticks n b = Some (False, b)"
  by (induction n) (simp_all add: command_bar_tick_def)

text \<open>A status message is shown for exactly one second of timer ticks. After
  \<open>command_bar_set_status\<close> the message (cut to 127 characters) is what
  \<open>command_bar_get_status\<close> returns after each of the next 59 ticks, none of which asks for a
  redraw; the 60th tick asks for the redraw and empties the message; later ticks do nothing.\<close>

theorem status_message_lifetime:
  assumes "holds (status_msg b) old" and "NUL \<notin> set msg"
  shows "\<exists>b1. command_bar_set_status msg b = Some b1
    \<and> (\<forall>n < 60. \<exists>b2. ticks n b1 = Some (False, b2)
                  \<and> command_bar_get_status b2 = Some (take (CMD_BUF_SIZE - 1) msg))
    \<and> (\<exists>b3. ticks 60 b1 = Some (True, b3) \<and> command_bar_get_status b3 = Some []
           \<and> (\<forall>n. ticks n b3 = Some (False, b3)))"
proof -
  obtain m where m: "strncpy (status_msg b) msg (CMD_BUF_SIZE - 1) = Some m"
    "holds m (take (CMD_BUF_SIZE - 1) msg)"
    using holds_strncpy [OF assms] by blast
  have "awrite m (int CMD_BUF_SIZE - 1) NUL = Some m"
    using m(2) by (auto simp: holds_def awrite_def in_range_def CMD_BUF_SIZE_def)
      (metis list_update_id)
  with m(1) have b1: "command_bar_set_status msg b = Some (b\<lparr>status_msg := m, status_ticks := 60\<rparr>)"
    by (simp add: command_bar_set_status_def TIMER_HZ_def)
  let ?b1 = "b\<lparr>status_msg := m, status_ticks := 60\<rparr>"
  have "\<exists>b2. ticks n ?b1 = Some (False, b2)
      \<and> command_bar_get_status b2 = Some (take (CMD_BUF_SIZE - 1) msg)" if "n < 60" for n
    using ticks_before [of n ?b1] that m(2) by (simp add: command_bar_get_status_def holds_def)
  moreover obtain m' where "ticks 60 ?b1 = Some (True, ?b1\<lparr>status_ticks := 0, status_msg := m'\<rparr>)"
    "holds m' []"
    using ticks_expiry [of ?b1 59] m(2) by auto
  ultimately show ?thesis
    using b1 ticks_after by (auto simp: command_bar_get_status_def holds_def)
qed

theorem status_message_lifetime_witness:
  "\<exists>b1 b3. command_bar_set_status ''Out of memory'' command_bar0 = Some b1
     \<and> ticks 60 b1 = Some (True, b3) \<and> command_bar_get_status b3 = Some []"
proof -
  have "holds (status_msg command_bar0) []"
    by (simp add: command_bar0_def holds_c_array CMD_BUF_SIZE_def)
  from status_message_lifetime [OF this, of "''Out of memory''"] show ?thesis by auto
qed

section \<open>The invariant of the component\<close>

lemma typed0: "typed command_bar0 []"
  by (auto simp: typed_def command_bar0_def c_array_def CMD_BUF_SIZE_def numeral_eq_Suc)

lemma bar_inv_init: "bar_inv command_bar0"
proof -
  have "holds (filename command_bar0) ''untitled''"
    by (simp add: command_bar0_def holds_c_array CMD_BUF_SIZE_def)
  moreover have "holds (status_msg command_bar0) []"
    by (simp add: command_bar0_def holds_c_array CMD_BUF_SIZE_def)
  ultimately show ?thesis using typed0 unfolding bar_inv_def
    by (auto simp: command_bar0_def TIMER_HZ_def)
qed

lemma bar_inv_set_filename:
  assumes "bar_inv b" and "NUL \<notin> set s"
  shows "\<exists>b'. command_bar_set_filename s b = Some b' \<and> bar_inv b'
    \<and> command_bar_get_filename b' = Some (take (CMD_BUF_SIZE - 1) s)"
proof -
  obtain t where "holds (filename b) t" using assms(1) by (auto simp: bar_inv_def)
  from holds_strncpy [OF this assms(2)] obtain a
    where "strncpy (filename b) s (CMD_BUF_SIZE - 1) = Some a" "holds a (take (CMD_BUF_SIZE - 1) s)"
    by blast
  with assms(1) show ?thesis
    by (auto simp: command_bar_set_filename_def command_bar_get_filename_def bar_inv_def holds_def
        typed_def)
qed

lemma bar_inv_set_status:
  assumes "bar_inv b" and "NUL \<notin> set s"
  shows "\<exists>b'. command_bar_set_status s b = Some b' \<and> bar_inv b'"
proof -
  obtain t where "holds (status_msg b) t" using assms(1) by (auto simp: bar_inv_def)
  from holds_strncpy [OF this assms(2)] obtain a
    where a: "strncpy (status_msg b) s (CMD_BUF_SIZE - 1) = Some a" "holds a (take (CMD_BUF_SIZE - 1) s)"
    by blast
  moreover have "awrite a (int CMD_BUF_SIZE - 1) NUL = Some a"
    using a(2) by (auto simp: holds_def awrite_def in_range_def CMD_BUF_SIZE_def)
      (metis list_update_id)
  ultimately show ?thesis using assms(1)
    by (auto simp: command_bar_set_status_def bar_inv_def typed_def TIMER_HZ_def)
qed

lemma bar_inv_typed_change:
  "bar_inv b \<Longrightarrow> typed b' s \<Longrightarrow> filename b' = filename b \<Longrightarrow> status_msg b' = status_msg b \<Longrightarrow>
   status_ticks b' = status_ticks b \<Longrightarrow> bar_inv b'"
  by (auto simp: bar_inv_def)

lemma bar_inv_tick:
  assumes "bar_inv b"
  shows "\<exists>r b'. command_bar_tick b = Some (r, b') \<and> bar_inv b'"
proof -
  obtain t where t: "holds (status_msg b) t" using assms by (auto simp: bar_inv_def)
  consider "status_ticks b \<le> 0" | "status_ticks b = 1" | "1 < status_ticks b" by linarith
  then show ?thesis
  proof cases
    case 2
    obtain a where "awrite (status_msg b) 0 NUL = Some a" "holds a []"
      using holds_awrite_0 [OF t] by blast
    with 2 have "command_bar_tick b = Some (True, b\<lparr>status_ticks := 0, status_msg := a\<rparr>)"
      by (simp add: command_bar_tick_def Let_def)
    moreover have "bar_inv (b\<lparr>status_ticks := 0, status_msg := a\<rparr>)"
      using assms \<open>holds a []\<close> by (auto simp: bar_inv_def TIMER_HZ_def)
    ultimately show ?thesis by blast
  qed (use assms in \<open>auto simp: command_bar_tick_def bar_inv_def\<close>)
qed

end
