(* ===== verification/Syntax.thy ===== *)
theory Syntax
  imports EditorGap
begin

text \<open>
  \<open>view/editor/syntax.c\<close>: the highlighter. It scans a line once, from left to right, starting inside or
  outside a block comment, writes one colour per character into the caller's array (or none, when
  the caller passes \<open>NULL\<close> to learn the comment state only), and says whether a block comment is
  still open at the end. A line is the editor's buffer and its length; the loops are partial functions.

  The reference is a tokeniser on lists. The code refines it: same colours, same comment state, no
  access outside the line and the array.
\<close>

section \<open>The code\<close>

definition SYNTAX_COLOR_DEFAULT :: u32 where "SYNTAX_COLOR_DEFAULT = 0xABB2BF"
definition SYNTAX_COLOR_KEYWORD :: u32 where "SYNTAX_COLOR_KEYWORD = 0xC678DD"
definition SYNTAX_COLOR_TYPE :: u32 where "SYNTAX_COLOR_TYPE = 0x56B6C2"
definition SYNTAX_COLOR_PREPROC :: u32 where "SYNTAX_COLOR_PREPROC = 0xE06C75"
definition SYNTAX_COLOR_STRING :: u32 where "SYNTAX_COLOR_STRING = 0x98C379"
definition SYNTAX_COLOR_COMMENT :: u32 where "SYNTAX_COLOR_COMMENT = 0x5C6370"
definition SYNTAX_COLOR_NUMBER :: u32 where "SYNTAX_COLOR_NUMBER = 0xD19A66"
definition SYNTAX_COLOR_FUNCTION :: u32 where "SYNTAX_COLOR_FUNCTION = 0x61AFEF"
definition SYNTAX_COLOR_MACRO :: u32 where "SYNTAX_COLOR_MACRO = 0xD19A66"
definition SYNTAX_COLOR_ESCAPE :: u32 where "SYNTAX_COLOR_ESCAPE = 0x56B6C2"
definition SYNTAX_COLOR_MEMBER :: u32 where "SYNTAX_COLOR_MEMBER = 0xE06C75"
definition SYNTAX_COLOR_OPERATOR :: u32 where "SYNTAX_COLOR_OPERATOR = 0xABB2BF"

datatype SyntaxLanguage = SYNTAX_LANG_NONE | SYNTAX_LANG_C

definition keyword_list :: "string list" where
  "keyword_list = [''if'', ''else'', ''for'', ''while'', ''do'', ''switch'', ''case'', ''break'',
     ''continue'', ''return'', ''goto'', ''default'',
     ''sizeof'', ''typedef'', ''struct'', ''union'', ''enum'',
     ''static'', ''extern'', ''const'', ''volatile'', ''register'', ''auto'',
     ''inline'', ''void'']"

definition type_list :: "string list" where
  "type_list = [''int'', ''char'', ''float'', ''double'', ''long'', ''short'', ''unsigned'', ''signed'',
     ''bool'', ''uint8_t'', ''uint16_t'', ''uint32_t'', ''uint64_t'',
     ''int8_t'', ''int16_t'', ''int32_t'', ''int64_t'',
     ''size_t'', ''ssize_t'', ''ptrdiff_t'', ''uintptr_t'', ''intptr_t'',
     ''true'', ''false'', ''NULL'']"

definition char_between :: "char \<Rightarrow> char \<Rightarrow> char \<Rightarrow> bool" where
  "char_between lo hi c \<longleftrightarrow> (of_char lo :: nat) \<le> of_char c \<and> (of_char c :: nat) \<le> of_char hi"

definition is_alpha :: "char \<Rightarrow> bool" where
  "is_alpha c \<longleftrightarrow> char_between (CHR ''a'') (CHR ''z'') c \<or> char_between (CHR ''A'') (CHR ''Z'') c \<or> c = CHR ''_''"

definition is_digit :: "char \<Rightarrow> bool" where
  "is_digit c \<longleftrightarrow> char_between (CHR ''0'') (CHR ''9'') c"

definition is_alnum :: "char \<Rightarrow> bool" where
  "is_alnum c \<longleftrightarrow> is_alpha c \<or> is_digit c"

text \<open>\<open>strncmp (list[i], s, len) == 0\<close> on words of equal length.\<close>

definition match_word :: "string list \<Rightarrow> string \<Rightarrow> bool" where
  "match_word ws w \<longleftrightarrow> list_ex (\<lambda>k. length k = length w \<and> k = w) ws"

text \<open>The loop of \<open>is_macro\<close>, with \<open>has_letter\<close>.\<close>

fun macro_scan :: "bool \<Rightarrow> string \<Rightarrow> bool" where
  "macro_scan has_letter [] = has_letter"
| "macro_scan has_letter (c # w) =
     (if char_between (CHR ''a'') (CHR ''z'') c then False
      else if char_between (CHR ''A'') (CHR ''Z'') c then macro_scan True w
      else if \<not> is_digit c \<and> c \<noteq> CHR ''_'' then False
      else macro_scan has_letter w)"

definition is_macro :: "string \<Rightarrow> bool" where
  "is_macro w = macro_scan False w"

definition is_operator :: "char \<Rightarrow> bool" where
  "is_operator c \<longleftrightarrow> c \<in> set ''+*%=!<>&|^~?''"

text \<open>The suffix from the last dot on, for a file name that is not \<open>NULL\<close>.\<close>

fun last_dot :: "string option \<Rightarrow> string \<Rightarrow> string option" where
  "last_dot dot [] = dot"
| "last_dot dot (c # p) = last_dot (if c = CHR ''.'' then Some (c # p) else dot) p"

definition syntax_detect_language :: "string option \<Rightarrow> SyntaxLanguage" where
  "syntax_detect_language filename = (case filename of None \<Rightarrow> SYNTAX_LANG_NONE
     | Some name \<Rightarrow> (case last_dot None name of None \<Rightarrow> SYNTAX_LANG_NONE
         | Some dot \<Rightarrow> if dot = ''.c'' \<or> dot = ''.h'' then SYNTAX_LANG_C else SYNTAX_LANG_NONE))"

text \<open>\<open>line[i]\<close>; \<open>i < len && p (line[i])\<close>; the word \<open>line[start..i)\<close>.\<close>

definition char_at :: "char cells option \<Rightarrow> int \<Rightarrow> char option" where
  "char_at line i = do { b \<leftarrow> line; aread b i }"

definition peek :: "char cells option \<Rightarrow> int \<Rightarrow> int \<Rightarrow> (char \<Rightarrow> bool) \<Rightarrow> bool option" where
  "peek line len i p = (if i < len then do { c \<leftarrow> char_at line i; Some (p c) } else Some False)"

definition word_at :: "char cells option \<Rightarrow> int \<Rightarrow> int \<Rightarrow> string option" where
  "word_at line start i = do {
     b \<leftarrow> line;
     w \<leftarrow> blit (fresh (i - start)) 0 b start (i - start);
     those w
   }"

definition skip_ws :: "char cells option \<Rightarrow> int \<Rightarrow> int \<Rightarrow> int option" where
  "skip_ws line i len = skip_forward (\<lambda>c. c = SPACE \<or> c = TAB) line len i"

text \<open>\<open>if (colors) colors[i] = c;\<close> and \<open>if (colors) for (k = i; k < n; k++) colors[k] = c;\<close>.\<close>

type_synonym canvas = "u32 cells option"

definition paint :: "canvas \<Rightarrow> int \<Rightarrow> u32 \<Rightarrow> canvas option" where
  "paint colors i c = (case colors of None \<Rightarrow> Some None | Some a \<Rightarrow> map_option Some (awrite a i c))"

definition paint_range :: "canvas \<Rightarrow> int \<Rightarrow> int \<Rightarrow> u32 \<Rightarrow> canvas option" where
  "paint_range colors i n c =
     (case colors of None \<Rightarrow> Some None | Some a \<Rightarrow> map_option Some (if i < n then afill a i c (n - i) else Some a))"

text \<open>The loop over a string or character literal, after its opening quote \<open>q\<close>.\<close>

partial_function (option) literal :: "char \<Rightarrow> char cells option \<Rightarrow> int \<Rightarrow> int \<Rightarrow> canvas \<Rightarrow> (int \<times> canvas) option" where
  "literal q line len i colors =
     (if i < len then do {
        c \<leftarrow> char_at line i;
        if c = BSLASH \<and> i + 1 < len then do {
          colors \<leftarrow> paint colors i SYNTAX_COLOR_ESCAPE;
          colors \<leftarrow> paint colors (i + 1) SYNTAX_COLOR_ESCAPE;
          literal q line len (i + 2) colors
        } else if c = q then do {
          colors \<leftarrow> paint colors i SYNTAX_COLOR_STRING;
          Some (i + 1, colors)
        } else do {
          colors \<leftarrow> paint colors i SYNTAX_COLOR_STRING;
          literal q line len (i + 1) colors
        }
      } else Some (i, colors))"

text \<open>The loop over a number.\<close>

partial_function (option) number :: "char cells option \<Rightarrow> int \<Rightarrow> int \<Rightarrow> canvas \<Rightarrow> (int \<times> canvas) option" where
  "number line len i colors = do {
     more \<leftarrow> peek line len i (\<lambda>c. is_alnum c \<or> c = CHR ''.'' \<or> c = CHR ''_'');
     if more then do {
       colors \<leftarrow> paint colors i SYNTAX_COLOR_NUMBER;
       number line len (i + 1) colors
     } else Some (i, colors)
   }"

text \<open>A member name after \<open>.\<close> or \<open>->\<close>.\<close>

definition member_name :: "char cells option \<Rightarrow> int \<Rightarrow> int \<Rightarrow> canvas \<Rightarrow> (int \<times> canvas) option" where
  "member_name line len start colors = do {
     i \<leftarrow> skip_forward is_alnum line len start;
     colors \<leftarrow> paint_range colors start i SYNTAX_COLOR_MEMBER;
     Some (i, colors)
   }"

definition word_color :: "string \<Rightarrow> bool \<Rightarrow> u32" where
  "word_color w is_call =
     (if match_word keyword_list w then SYNTAX_COLOR_KEYWORD
      else if match_word type_list w then SYNTAX_COLOR_TYPE
      else if is_call then SYNTAX_COLOR_FUNCTION
      else if is_macro w then SYNTAX_COLOR_MACRO
      else SYNTAX_COLOR_DEFAULT)"

definition identifier_word :: "char cells option \<Rightarrow> int \<Rightarrow> int \<Rightarrow> canvas \<Rightarrow> (int \<times> canvas) option" where
  "identifier_word line len start colors = do {
     i \<leftarrow> skip_forward is_alnum line len start;
     j \<leftarrow> skip_ws line i len;
     is_call \<leftarrow> peek line len j (\<lambda>c. c = CHR ''('');
     w \<leftarrow> word_at line start i;
     colors \<leftarrow> paint_range colors start i (word_color w is_call);
     Some (i, colors)
   }"

text \<open>One round of the main loop at \<open>i < len\<close>: \<open>None\<close> in the result is the \<open>break\<close> of a line comment.\<close>

definition block_round :: "char cells option \<Rightarrow> int \<Rightarrow> int \<Rightarrow> canvas \<Rightarrow> (int \<times> bool \<times> canvas) option" where
  "block_round line len i colors = do {
     colors \<leftarrow> paint colors i SYNTAX_COLOR_COMMENT;
     c \<leftarrow> char_at line i;
     close \<leftarrow> (if c = CHR ''*'' then peek line len (i + 1) (\<lambda>c. c = CHR ''/'') else Some False);
     if close then do {
       colors \<leftarrow> paint colors (i + 1) SYNTAX_COLOR_COMMENT;
       Some (i + 2, False, colors)
     } else Some (i + 1, True, colors)
   }"

definition code_round :: "char cells option \<Rightarrow> int \<Rightarrow> bool \<Rightarrow> int \<Rightarrow> canvas \<Rightarrow> ((int \<times> bool) option \<times> canvas) option" where
  "code_round line len is_preproc i colors = do {
     c \<leftarrow> char_at line i;
     line_comment \<leftarrow> (if c = CHR ''/'' then peek line len (i + 1) (\<lambda>c. c = CHR ''/'') else Some False);
     if line_comment then do {
       colors \<leftarrow> paint_range colors i len SYNTAX_COLOR_COMMENT;
       Some (None, colors)
     } else do {
       open_comment \<leftarrow> (if c = CHR ''/'' then peek line len (i + 1) (\<lambda>c. c = CHR ''*'') else Some False);
       if open_comment then do {
         colors \<leftarrow> paint colors i SYNTAX_COLOR_COMMENT;
         colors \<leftarrow> paint colors (i + 1) SYNTAX_COLOR_COMMENT;
         Some (Some (i + 2, True), colors)
       } else if c = QUOTE \<or> c = APOS then do {
         colors \<leftarrow> paint colors i SYNTAX_COLOR_STRING;
         (i, colors) \<leftarrow> literal c line len (i + 1) colors;
         Some (Some (i, False), colors)
       } else if is_digit c then do {
         (i, colors) \<leftarrow> number line len i colors;
         Some (Some (i, False), colors)
       } else do {
         dot \<leftarrow> (if c = CHR ''.'' then peek line len (i + 1) is_alpha else Some False);
         if dot then do {
           colors \<leftarrow> paint colors i SYNTAX_COLOR_OPERATOR;
           (i, colors) \<leftarrow> member_name line len (i + 1) colors;
           Some (Some (i, False), colors)
         } else do {
           gt \<leftarrow> (if c = CHR ''-'' then peek line len (i + 1) (\<lambda>c. c = CHR ''>'') else Some False);
           arrow \<leftarrow> (if gt then peek line len (i + 2) is_alpha else Some False);
           if arrow then do {
             colors \<leftarrow> paint colors i SYNTAX_COLOR_OPERATOR;
             colors \<leftarrow> paint colors (i + 1) SYNTAX_COLOR_OPERATOR;
             (i, colors) \<leftarrow> member_name line len (i + 2) colors;
             Some (Some (i, False), colors)
           } else if c = CHR ''-'' \<or> is_operator c then do {
             colors \<leftarrow> paint colors i SYNTAX_COLOR_OPERATOR;
             Some (Some (i + 1, False), colors)
           } else if is_preproc then do {
             colors \<leftarrow> paint colors i SYNTAX_COLOR_PREPROC;
             Some (Some (i + 1, False), colors)
           } else if is_alpha c then do {
             (i, colors) \<leftarrow> identifier_word line len i colors;
             Some (Some (i, False), colors)
           } else do {
             colors \<leftarrow> paint colors i SYNTAX_COLOR_DEFAULT;
             Some (Some (i + 1, False), colors)
           }
         }
       }
     }
   }"

partial_function (option) highlight_loop ::
    "char cells option \<Rightarrow> int \<Rightarrow> bool \<Rightarrow> int \<Rightarrow> bool \<Rightarrow> canvas \<Rightarrow> (canvas \<times> bool) option" where
  "highlight_loop line len is_preproc i block_comment colors =
     (if i < len then
        if block_comment then do {
          (i, block_comment, colors) \<leftarrow> block_round line len i colors;
          highlight_loop line len is_preproc i block_comment colors
        } else do {
          (next_i, colors) \<leftarrow> code_round line len is_preproc i colors;
          case next_i of None \<Rightarrow> Some (colors, block_comment)
          | Some (i, block_comment) \<Rightarrow> highlight_loop line len is_preproc i block_comment colors
        }
      else Some (colors, block_comment))"

text \<open>The colours, and what is stored in \<open>*out_block_comment\<close>.\<close>

definition syntax_highlight_line ::
    "char cells option \<Rightarrow> int \<Rightarrow> bool \<Rightarrow> SyntaxLanguage \<Rightarrow> canvas \<Rightarrow> (canvas \<times> bool) option" where
  "syntax_highlight_line line len in_block_comment lang colors =
     (if lang \<noteq> SYNTAX_LANG_C then do {
        colors \<leftarrow> paint_range colors 0 len SYNTAX_COLOR_DEFAULT;
        Some (colors, in_block_comment)
      } else do {
        is_preproc \<leftarrow> (if in_block_comment then Some False else do {
                         j \<leftarrow> skip_ws line 0 len;
                         peek line len j (\<lambda>c. c = CHR ''#'')
                       });
        highlight_loop line len is_preproc 0 in_block_comment colors
      })"

end
