(* ===== verification/SyntaxRef.thy ===== *)
theory SyntaxRef
  imports Syntax
begin

text \<open>
  The reference highlighter: a tokeniser on lists. \<open>token pre block s\<close> takes the first token of \<open>s\<close> and
  gives its colours, the rest and whether a block comment is open after it; \<open>highlight\<close> repeats it.
  The code of \<open>syntax.c\<close> computes the same, on every line and for every array that is long enough.
\<close>

section \<open>The reference\<close>

fun starts :: "(char \<Rightarrow> bool) \<Rightarrow> string \<Rightarrow> bool" where
  "starts p [] = False"
| "starts p (c # s) = p c"

fun literal_ref :: "char \<Rightarrow> string \<Rightarrow> u32 list \<times> string" where
  "literal_ref q [] = ([], [])"
| "literal_ref q [c] = ([SYNTAX_COLOR_STRING], [])"
| "literal_ref q (c # d # s) =
     (if c = BSLASH then let (cs, r) = literal_ref q s in (SYNTAX_COLOR_ESCAPE # SYNTAX_COLOR_ESCAPE # cs, r)
      else if c = q then ([SYNTAX_COLOR_STRING], d # s)
      else let (cs, r) = literal_ref q (d # s) in (SYNTAX_COLOR_STRING # cs, r))"

definition numeric :: "char \<Rightarrow> bool" where
  "numeric c \<longleftrightarrow> is_alnum c \<or> c = CHR ''.'' \<or> c = CHR ''_''"

definition blank :: "char \<Rightarrow> bool" where
  "blank c \<longleftrightarrow> c = SPACE \<or> c = TAB"

definition token :: "bool \<Rightarrow> bool \<Rightarrow> string \<Rightarrow> u32 list \<times> string \<times> bool" where
  "token pre block t = (let c = hd t; s = tl t in
     if block then
       (if c = CHR ''*'' \<and> starts (\<lambda>c. c = CHR ''/'') s then ([SYNTAX_COLOR_COMMENT, SYNTAX_COLOR_COMMENT], tl s, False)
        else ([SYNTAX_COLOR_COMMENT], s, True))
     else if c = CHR ''/'' \<and> starts (\<lambda>c. c = CHR ''/'') s then (replicate (length t) SYNTAX_COLOR_COMMENT, [], False)
     else if c = CHR ''/'' \<and> starts (\<lambda>c. c = CHR ''*'') s then ([SYNTAX_COLOR_COMMENT, SYNTAX_COLOR_COMMENT], tl s, True)
     else if c = QUOTE \<or> c = APOS then
       (SYNTAX_COLOR_STRING # fst (literal_ref c s), snd (literal_ref c s), False)
     else if is_digit c then
       (SYNTAX_COLOR_NUMBER # replicate (length (takeWhile numeric s)) SYNTAX_COLOR_NUMBER, dropWhile numeric s, False)
     else if c = CHR ''.'' \<and> starts is_alpha s then
       (SYNTAX_COLOR_OPERATOR # replicate (length (takeWhile is_alnum s)) SYNTAX_COLOR_MEMBER, dropWhile is_alnum s, False)
     else if c = CHR ''-'' \<and> starts (\<lambda>c. c = CHR ''>'') s \<and> starts is_alpha (tl s) then
       (SYNTAX_COLOR_OPERATOR # SYNTAX_COLOR_OPERATOR # replicate (length (takeWhile is_alnum (tl s))) SYNTAX_COLOR_MEMBER,
        dropWhile is_alnum (tl s), False)
     else if c = CHR ''-'' \<or> is_operator c then ([SYNTAX_COLOR_OPERATOR], s, False)
     else if pre then ([SYNTAX_COLOR_PREPROC], s, False)
     else if is_alpha c then
       (replicate (length (takeWhile is_alnum t))
          (word_color (takeWhile is_alnum t) (starts (\<lambda>c. c = CHR ''('') (dropWhile blank (dropWhile is_alnum t)))),
        dropWhile is_alnum t, False)
     else ([SYNTAX_COLOR_DEFAULT], s, False))"

lemma literal_ref_length: "length (fst (literal_ref q s)) + length (snd (literal_ref q s)) = length s"
  by (induction q s rule: literal_ref.induct) (auto split: prod.splits)

lemma length_take_drop_while: "length (takeWhile p s) + length (dropWhile p s) = length s"
  by (metis length_append takeWhile_dropWhile_id)

lemma token_length:
  assumes "t \<noteq> []"
  shows "length (fst (token pre block t)) + length (fst (snd (token pre block t))) = length t"
    and "fst (token pre block t) \<noteq> []"
proof -
  obtain c s where t: "t = c # s" using assms by (cases t) auto
  have a: "is_alnum c" if "is_alpha c" using that by (simp add: is_alnum_def)
  show "length (fst (token pre block t)) + length (fst (snd (token pre block t))) = length t"
    unfolding t token_def Let_def using literal_ref_length [of c s] length_take_drop_while [of numeric s]
      length_take_drop_while [of is_alnum s] length_take_drop_while [of is_alnum "tl s"] a
    by (cases s) (auto simp del: length_dropWhile_le)
  show "fst (token pre block t) \<noteq> []" unfolding t token_def Let_def using a by auto
qed

lemma literal_ref_rest: "snd (literal_ref q s) = drop (length (fst (literal_ref q s))) s"
  by (induction q s rule: literal_ref.induct) (auto split: prod.splits)

lemma token_rest:
  assumes "t \<noteq> []"
  shows "fst (snd (token pre block t)) = drop (length (fst (token pre block t))) t"
proof -
  obtain c s where t: "t = c # s" using assms by (cases t) auto
  have a: "is_alnum c" if "is_alpha c" using that by (simp add: is_alnum_def)
  show ?thesis unfolding t token_def Let_def using literal_ref_rest [of c s] a
    by (cases s) (auto simp: dropWhile_eq_drop)
qed

function highlight :: "bool \<Rightarrow> bool \<Rightarrow> string \<Rightarrow> u32 list \<times> bool" where
  "highlight pre block t =
     (if t = [] then ([], block)
      else let (cs, r, b) = token pre block t; (cs', b') = highlight pre b r in (cs @ cs', b'))"
  by pat_completeness auto
termination
proof (relation "measure (\<lambda>(pre, block, t). length t)", goal_cases)
  case (2 pre block t x cs y r b)
  then have "token pre block t = (cs, r, b)" by simp
  with 2(1) token_length [of t pre block] show ?case by (cases cs) simp_all
qed simp

declare highlight.simps [simp del]

lemma highlight_Nil [simp]: "highlight pre block [] = ([], block)"
  by (simp add: highlight.simps)

lemma highlight_step:
  assumes "t \<noteq> []" and "token pre block t = (cs, r, b)"
  shows "highlight pre block t = (cs @ fst (highlight pre b r), snd (highlight pre b r))"
  using assms by (subst highlight.simps) (simp add: split_beta)

lemma highlight_length: "length (fst (highlight pre block t)) = length t"
proof (induction pre block t rule: highlight.induct)
  case (1 pre block t)
  show ?case
  proof (cases "t = []")
    case False
    obtain cs r b where tk: "token pre block t = (cs, r, b)" by (cases "token pre block t")
    show ?thesis using 1 [OF False tk [symmetric] refl] highlight_step [OF False tk] token_length(1) [OF False, of pre block] tk
      by simp
  qed simp
qed

section \<open>The code computes the reference\<close>

text \<open>
  The colour array while it is being written: the part before the current position and the part from
  it on; \<open>adv cs\<close> writes the colours \<open>cs\<close> at the current position.
\<close>

type_synonym brush = "(u32 cells \<times> u32 cells) option"

fun canvas_of :: "brush \<Rightarrow> canvas" where
  "canvas_of None = None"
| "canvas_of (Some (A, T)) = Some (A @ T)"

fun adv :: "u32 list \<Rightarrow> brush \<Rightarrow> brush" where
  "adv cs None = None"
| "adv cs (Some (A, T)) = Some (A @ map Some cs, drop (length cs) T)"

fun fits :: "nat \<Rightarrow> nat \<Rightarrow> brush \<Rightarrow> bool" where
  "fits n k None = True"
| "fits n k (Some (A, T)) = (length A = n \<and> k \<le> length T)"

lemma adv_adv [simp]: "adv ds (adv cs b) = adv (cs @ ds) b"
  by (cases "(cs, b)" rule: adv.cases) (auto simp: add.commute)

lemma adv_Nil [simp]: "adv [] b = b"
  by (cases "([] :: u32 list, b)" rule: adv.cases) auto

lemma fits_adv: "fits n k b \<Longrightarrow> length cs \<le> k \<Longrightarrow> m = n + length cs \<Longrightarrow> l \<le> k - length cs \<Longrightarrow> fits m l (adv cs b)"
  by (cases "(cs, b)" rule: adv.cases) auto

lemma paint_range_adv:
  assumes "fits n k b" and "m \<le> k" and "i = int n" and "j = int (n + m)"
  shows "paint_range (canvas_of b) i j c = Some (canvas_of (adv (replicate m c) b))"
proof (cases b)
  case (Some AT)
  obtain A T where b: "b = Some (A, T)" using Some by (cases AT) auto
  have T: "T = take m T @ drop m T" by simp
  have l: "length (take m T) = m" using assms(1,2) b by simp
  have "blit (A @ take m T @ drop m T) (int (length A)) ([] @ replicate m (Some c) @ []) 0 (int m)
      = Some (A @ replicate m (Some c) @ drop m T)"
    by (rule blit_split) (use l in simp_all)
  then have "0 < m \<Longrightarrow> afill (A @ T) i c (int m) = Some (A @ replicate m (Some c) @ drop m T)"
    using assms b by (simp add: afill_def)
  then show ?thesis using assms b by (cases "m = 0") (auto simp: paint_range_def)
qed (simp add: paint_range_def)

lemma paint_adv:
  assumes "fits n k b" and "0 < k" and "i = int n"
  shows "paint (canvas_of b) i c = Some (canvas_of (adv [c] b))"
proof (cases b)
  case (Some AT)
  obtain A T where b: "b = Some (A, T)" using Some by (cases AT) auto
  obtain x T' where "T = x # T'" using assms(1,2) b by (cases T) auto
  then show ?thesis using assms b by (simp add: paint_def mem_simps)
qed (simp add: paint_def)

lemma paint_adv2:
  assumes "fits n k b" and "1 < k" and "i = int n"
  shows "Option.bind (paint (canvas_of b) i c) (\<lambda>colors. Option.bind (paint colors (i + 1) d) f)
    = f (canvas_of (adv [c, d] b))"
proof -
  have "fits (Suc n) (k - 1) (adv [c] b)" by (rule fits_adv [OF assms(1)]) (use assms in auto)
  then have "paint (canvas_of (adv [c] b)) (i + 1) d = Some (canvas_of (adv [c, d] b))"
    using paint_adv [of "Suc n" "k - 1" "adv [c] b" "i + 1" d] assms by simp
  with paint_adv [OF assms(1) _ assms(3), of c] assms(2) show ?thesis by simp
qed

text \<open>A line whose text is \<open>x @ y\<close>, read at the position between \<open>x\<close> and \<open>y\<close>.\<close>

definition text_line :: "char cells option \<Rightarrow> string \<Rightarrow> string \<Rightarrow> bool" where
  "text_line line x y \<longleftrightarrow> (\<exists>R. line = Some (map Some (x @ y) @ R)) \<or> (x @ y = [])"

lemma text_line_shift: "text_line line x (y @ z) = text_line line (x @ y) z"
  by (simp add: text_line_def)

lemma char_at_line:
  assumes "text_line line x (c # y)"
  shows "char_at line (int (length x)) = Some c"
  using assms by (auto simp: text_line_def char_at_def mem_simps)

lemma peek_line:
  assumes "text_line line x y"
  shows "peek line (int (length (x @ y))) (int (length x)) p = Some (starts p y)"
proof (cases y)
  case (Cons c z)
  then show ?thesis using char_at_line [of line x c z] assms by (simp add: peek_def)
qed (simp add: peek_def)

lemma skip_line:
  assumes "text_line line x y"
  shows "skip_forward p line (int (length (x @ y))) (int (length x)) = Some (int (length (x @ takeWhile p y)))"
proof (cases "x @ y = []")
  case False
  then obtain R where "line = Some (map Some (x @ y) @ R)" using assms by (auto simp: text_line_def)
  from skip_forward_eq [OF this] show ?thesis by simp
qed (simp add: skip_forward.simps)

lemma word_at_line:
  assumes "text_line line x (w @ y)" and "w \<noteq> []"
  shows "word_at line (int (length x)) (int (length (x @ w))) = Some w"
proof -
  obtain R where "line = Some (map Some x @ map Some w @ map Some y @ R)" using assms by (auto simp: text_line_def)
  moreover have "blit ([] @ fresh (int (length w)) @ []) 0 (map Some x @ map Some w @ map Some y @ R)
      (int (length x)) (int (length w)) = Some ([] @ map Some w @ [])"
    by (rule blit_split) simp_all
  ultimately show ?thesis by (simp add: word_at_def those_map_Some)
qed

lemma text_line_Cons: "text_line line x (c # y) \<Longrightarrow> text_line line (x @ [c]) y"
  by (simp add: text_line_def)

lemma literal_line:
  assumes "text_line line x y" and "fits (length x) (length y) b"
  shows "literal q line (int (length (x @ y))) (int (length x)) (canvas_of b)
    = Some (int (length x + length (fst (literal_ref q y))), canvas_of (adv (fst (literal_ref q y)) b))"
  using assms
proof (induction q y arbitrary: x b rule: literal_ref.induct)
  case (1 q)
  show ?case by (subst literal.simps) simp
next
  case (2 q c)
  have "literal q line (int (length (x @ [c]))) (int (length x) + 1) (canvas_of (adv [SYNTAX_COLOR_STRING] b))
      = Some (int (length x) + 1, canvas_of (adv [SYNTAX_COLOR_STRING] b))"
    by (subst literal.simps) simp
  then show ?case using char_at_line [OF 2(1)] paint_adv [OF 2(2)] by (subst literal.simps) simp
next
  case (3 q c d s)
  note ch = char_at_line [OF 3(3)]
  consider (esc) "c = BSLASH" | (quot) "c \<noteq> BSLASH" "c = q" | (other) "c \<noteq> BSLASH" "c \<noteq> q" by blast
  then show ?case
  proof cases
    case esc
    let ?b = "adv [SYNTAX_COLOR_ESCAPE, SYNTAX_COLOR_ESCAPE] b"
    have "literal q line (int (length ((x @ [c, d]) @ s))) (int (length (x @ [c, d]))) (canvas_of ?b)
        = Some (int (length (x @ [c, d]) + length (fst (literal_ref q s))), canvas_of (adv (fst (literal_ref q s)) ?b))"
      by (rule 3(1) [OF esc]) (use 3(3) in \<open>simp add: text_line_def\<close>, rule fits_adv [OF 3(4)], simp_all)
    moreover have "literal q line (int (length (x @ c # d # s))) (int (length x)) (canvas_of b)
        = literal q line (int (length (x @ c # d # s))) (int (length x) + 2) (canvas_of ?b)"
      using ch esc paint_adv2 [OF 3(4) _ refl] by (subst literal.simps) simp
    ultimately show ?thesis using esc by (simp add: split_beta add.commute)
  next
    case quot
    then show ?thesis using ch paint_adv [OF 3(4)] by (subst literal.simps) simp
  next
    case other
    let ?b = "adv [SYNTAX_COLOR_STRING] b"
    have "literal q line (int (length ((x @ [c]) @ d # s))) (int (length (x @ [c]))) (canvas_of ?b)
        = Some (int (length (x @ [c]) + length (fst (literal_ref q (d # s)))), canvas_of (adv (fst (literal_ref q (d # s))) ?b))"
      by (rule 3(2) [OF other text_line_Cons [OF 3(3)]], rule fits_adv [OF 3(4)]) simp_all
    moreover have "literal q line (int (length (x @ c # d # s))) (int (length x)) (canvas_of b)
        = literal q line (int (length (x @ c # d # s))) (int (length x) + 1) (canvas_of ?b)"
      using ch other paint_adv [OF 3(4)] by (subst literal.simps) simp
    ultimately show ?thesis using other by (simp add: split_beta add.commute)
  qed
qed

lemma number_line:
  assumes "text_line line x y" and "fits (length x) (length y) b"
  shows "number line (int (length (x @ y))) (int (length x)) (canvas_of b)
    = Some (int (length x + length (takeWhile numeric y)),
        canvas_of (adv (replicate (length (takeWhile numeric y)) SYNTAX_COLOR_NUMBER) b))"
  using assms
proof (induction y arbitrary: x b)
  case Nil
  then show ?case using peek_line [OF Nil(1)] by (subst number.simps) simp
next
  case (Cons c y)
  have p: "peek line (int (length (x @ c # y))) (int (length x)) (\<lambda>c. is_alnum c \<or> c = CHR ''.'' \<or> c = CHR ''_'') = Some (numeric c)"
    using peek_line [OF Cons(2), of numeric] by (simp add: numeric_def [abs_def])
  show ?case
  proof (cases "numeric c")
    case True
    let ?b = "adv [SYNTAX_COLOR_NUMBER] b"
    have "number line (int (length ((x @ [c]) @ y))) (int (length (x @ [c]))) (canvas_of ?b)
      = Some (int (length (x @ [c]) + length (takeWhile numeric y)),
          canvas_of (adv (replicate (length (takeWhile numeric y)) SYNTAX_COLOR_NUMBER) ?b))"
      by (rule Cons.IH [OF text_line_Cons [OF Cons(2)]], rule fits_adv [OF Cons(3)]) simp_all
    moreover have "number line (int (length (x @ c # y))) (int (length x)) (canvas_of b)
        = number line (int (length (x @ c # y))) (int (length x) + 1) (canvas_of ?b)"
      using p True paint_adv [OF Cons(3)] by (subst number.simps) simp
    ultimately show ?thesis using True by (simp add: add.commute)
  next
    case False
    then show ?thesis using p by (subst number.simps) simp
  qed
qed

lemma member_line:
  assumes "text_line line x y" and "fits (length x) (length y) b"
  shows "member_name line (int (length (x @ y))) (int (length x)) (canvas_of b)
    = Some (int (length x + length (takeWhile is_alnum y)),
        canvas_of (adv (replicate (length (takeWhile is_alnum y)) SYNTAX_COLOR_MEMBER) b))"
  using skip_line [OF assms(1), of is_alnum] paint_range_adv [OF assms(2) length_takeWhile_le refl refl]
  by (simp add: member_name_def)

lemma identifier_line:
  assumes "text_line line x y" and "fits (length x) (length y) b" and "takeWhile is_alnum y \<noteq> []"
  shows "identifier_word line (int (length (x @ y))) (int (length x)) (canvas_of b)
    = Some (int (length x + length (takeWhile is_alnum y)),
        canvas_of (adv (replicate (length (takeWhile is_alnum y))
          (word_color (takeWhile is_alnum y) (starts (\<lambda>c. c = CHR ''('') (dropWhile blank (dropWhile is_alnum y))))) b))"
proof -
  let ?w = "takeWhile is_alnum y" and ?r = "dropWhile is_alnum y"
  have t1: "text_line line (x @ ?w) ?r" using assms(1) by (simp add: text_line_def)
  have t2: "text_line line ((x @ ?w) @ takeWhile blank ?r) (dropWhile blank ?r)"
    using t1 by (simp add: text_line_def)
  have b: "(\<lambda>c. c = SPACE \<or> c = TAB) = blank" by (simp add: fun_eq_iff blank_def)
  have l: "length (((x @ ?w) @ takeWhile blank ?r) @ dropWhile blank ?r) = length (x @ y)"
    "length ((x @ ?w) @ ?r) = length (x @ y)" by simp_all
  have s: "skip_ws line (int (length (x @ ?w))) (int (length (x @ y))) = Some (int (length ((x @ ?w) @ takeWhile blank ?r)))"
    using skip_line [OF t1, of blank] unfolding skip_ws_def b l by simp
  have w: "word_at line (int (length x)) (int (length (x @ ?w))) = Some ?w"
    by (rule word_at_line [where y = ?r]) (use assms in simp_all)
  show ?thesis
    using skip_line [OF assms(1), of is_alnum] s peek_line [OF t2, of "\<lambda>c. c = CHR ''(''"] w
      paint_range_adv [OF assms(2) length_takeWhile_le refl refl]
    unfolding l by (simp add: identifier_word_def)
qed

lemma block_round_line:
  assumes "text_line line x (c # s)" and "fits (length x) (length (c # s)) b" and "token pre True (c # s) = (cs, r, k)"
  shows "block_round line (int (length (x @ c # s))) (int (length x)) (canvas_of b)
    = Some (int (length x + length cs), k, canvas_of (adv cs b))"
proof -
  let ?len = "int (length (x @ c # s))"
  have p: "peek line ?len (int (length x) + 1) p = Some (starts p s)" for p
    using peek_line [OF text_line_Cons [OF assms(1)], of p] by (simp add: add.commute)
  note ch = char_at_line [OF assms(1)]
  show ?thesis
  proof (cases "c = CHR ''*'' \<and> starts (\<lambda>c. c = CHR ''/'') s")
    case True
    then obtain d s' where s: "s = d # s'" by (cases s) auto
    have "fits (Suc (length x)) (length s) (adv [SYNTAX_COLOR_COMMENT] b)" by (rule fits_adv [OF assms(2)]) simp_all
    from paint_adv [OF this, of "int (length x) + 1" SYNTAX_COLOR_COMMENT] s
    have "paint (canvas_of (adv [SYNTAX_COLOR_COMMENT] b)) (int (length x) + 1) SYNTAX_COLOR_COMMENT
        = Some (canvas_of (adv [SYNTAX_COLOR_COMMENT, SYNTAX_COLOR_COMMENT] b))" by simp
    then show ?thesis using True p ch paint_adv [OF assms(2)] assms(3) unfolding block_round_def token_def by auto
  next
    case False
    then show ?thesis using p ch paint_adv [OF assms(2)] assms(3) unfolding block_round_def token_def
      by (cases "c = CHR ''*''") auto
  qed
qed

text \<open>A round outside of a comment: the two cases that look at more than the next character, and all others.\<close>

lemma peek_next: "text_line line x (c # s) \<Longrightarrow> peek line (int (length (x @ c # s))) (int (length x) + 1) p = Some (starts p s)"
  using peek_line [OF text_line_Cons, of line x c s p] by (simp add: add.commute)

lemma arrow_round:
  assumes "text_line line x (c # s)" and "fits (length x) (length (c # s)) b"
    and "c = CHR ''-''" and "starts (\<lambda>c. c = CHR ''>'') s" and "starts is_alpha (tl s)"
  shows "code_round line (int (length (x @ c # s))) pre (int (length x)) (canvas_of b)
    = Some (Some (int (length x) + 2 + int (length (takeWhile is_alnum (tl s))), False),
        canvas_of (adv (SYNTAX_COLOR_OPERATOR # SYNTAX_COLOR_OPERATOR # replicate (length (takeWhile is_alnum (tl s))) SYNTAX_COLOR_MEMBER) b))"
proof -
  let ?len = "int (length (x @ c # s))" and ?i = "int (length x)" and ?b = "canvas_of b"
  obtain s' where s: "s = CHR ''>'' # s'" using assms(4) by (cases s) auto
  have d: "c \<noteq> CHR ''/''" "\<not> (c = QUOTE \<or> c = APOS)" "\<not> is_digit c" "c \<noteq> CHR ''.''"
    using assms(3) by (auto simp: is_digit_def char_between_def)
  have pt: "paint ?b ?i col = Some (canvas_of (adv [col] b))" for col
    using paint_adv [OF assms(2) _ refl] by simp
  have f1: "fits (length (x @ [c])) (length s) (adv [col] b)" for col by (rule fits_adv [OF assms(2)]) simp_all
  have pt2: "paint (canvas_of (adv [col] b)) (?i + 1) col' = Some (canvas_of (adv [col, col'] b))" for col col'
    using paint_adv [OF f1 [of col], of "?i + 1" col'] s by simp
  have t2: "text_line line (x @ [c, CHR ''>'']) s'" using assms(1) s by (simp add: text_line_def)
  have f2: "fits (length (x @ [c, CHR ''>''])) (length s') (adv [SYNTAX_COLOR_OPERATOR, SYNTAX_COLOR_OPERATOR] b)"
    by (rule fits_adv [OF assms(2)]) (simp_all add: s)
  have l2: "length ((x @ [c, CHR ''>'']) @ s') = length (x @ c # s)" "int (length (x @ [c, CHR ''>''])) = ?i + 2"
    using s by simp_all
  have "member_name line ?len (?i + 2) (canvas_of (adv [SYNTAX_COLOR_OPERATOR, SYNTAX_COLOR_OPERATOR] b))
      = Some (int (length (x @ [c, CHR ''>'']) + length (takeWhile is_alnum s')),
          canvas_of (adv (SYNTAX_COLOR_OPERATOR # SYNTAX_COLOR_OPERATOR # replicate (length (takeWhile is_alnum s')) SYNTAX_COLOR_MEMBER) b))"
    using member_line [OF t2 f2] unfolding l2 by simp
  moreover have "peek line ?len (?i + 2) is_alpha = Some True"
    using peek_line [OF t2, of is_alpha] assms(5) s unfolding l2 by simp
  ultimately show ?thesis using assms(3,4) d char_at_line [OF assms(1)] peek_next [OF assms(1)] s pt pt2
    unfolding code_round_def by (auto simp: add.assoc)
qed

lemma single_round:
  assumes "text_line line x (c # s)" and "fits (length x) (length (c # s)) b"
    and "\<not> (c = CHR ''/'' \<and> starts (\<lambda>c. c = CHR ''/'') s)" and "\<not> (c = CHR ''/'' \<and> starts (\<lambda>c. c = CHR ''*'') s)"
    and "\<not> (c = QUOTE \<or> c = APOS)" and "\<not> is_digit c" and "\<not> (c = CHR ''.'' \<and> starts is_alpha s)"
    and "\<not> (c = CHR ''-'' \<and> starts (\<lambda>c. c = CHR ''>'') s \<and> starts is_alpha (tl s))" and "pre \<or> \<not> is_alpha c"
  defines "col \<equiv> if c = CHR ''-'' \<or> is_operator c then SYNTAX_COLOR_OPERATOR else if pre then SYNTAX_COLOR_PREPROC else SYNTAX_COLOR_DEFAULT"
  shows "code_round line (int (length (x @ c # s))) pre (int (length x)) (canvas_of b)
      = Some (Some (int (length x) + 1, False), canvas_of (adv [col] b))"
    and "token pre False (c # s) = ([col], s, False)"
proof -
  let ?len = "int (length (x @ c # s))" and ?i = "int (length x)"
  note p = peek_next [OF assms(1)]
  have pt: "paint (canvas_of b) ?i k = Some (canvas_of (adv [k] b))" for k
    using paint_adv [OF assms(2) _ refl] by simp
  have p2: "peek line ?len (?i + 2) is_alpha = Some (starts is_alpha (tl s))" if g: "starts (\<lambda>c. c = CHR ''>'') s"
  proof -
    obtain d s' where s: "s = d # s'" using g by (cases s) auto
    have "text_line line (x @ [c, d]) s'" using assms(1) s by (simp add: text_line_def)
    from peek_line [OF this, of is_alpha] s show ?thesis by (simp add: add.commute)
  qed
  have q: "(if c = CHR ''/'' then Some (starts (\<lambda>c. c = CHR ''/'') s) else Some False) = Some False"
    "(if c = CHR ''/'' then Some (starts (\<lambda>c. c = CHR ''*'') s) else Some False) = Some False"
    "(if c = CHR ''.'' then Some (starts is_alpha s) else Some False) = Some False"
    using assms(3,4,7) by auto
  have q2: "Option.bind (if c = CHR ''-'' then Some (starts (\<lambda>c. c = CHR ''>'') s) else Some False)
      (\<lambda>gt. Option.bind (if gt then peek line ?len (?i + 2) is_alpha else Some False) f) = f False" for f
    using assms(8) p2 by (cases "c = CHR ''-'' \<and> starts (\<lambda>c. c = CHR ''>'') s") auto
  show "code_round line ?len pre ?i (canvas_of b) = Some (Some (?i + 1, False), canvas_of (adv [col] b))"
    unfolding code_round_def char_at_line [OF assms(1)] Option.bind.bind_lunit p q q2 if_False Let_def
    using assms(5,6,9) by (cases pre) (simp_all add: pt col_def)
  show "token pre False (c # s) = ([col], s, False)"
    unfolding token_def Let_def list.sel
    by (simp only: assms(3-8) if_False) (use assms(9) in \<open>cases pre; simp add: col_def\<close>)
qed

lemma code_round_line:
  assumes "text_line line x (c # s)" and "fits (length x) (length (c # s)) b" and "token pre False (c # s) = (cs, r, k)"
  shows "\<exists>nxt. code_round line (int (length (x @ c # s))) pre (int (length x)) (canvas_of b) = Some (nxt, canvas_of (adv cs b))
    \<and> (nxt = Some (int (length x + length cs), k) \<or> nxt = None \<and> r = [] \<and> \<not> k)"
proof -
  let ?len = "int (length (x @ c # s))" and ?i = "int (length x)" and ?b = "canvas_of b"
  have t1: "text_line line (x @ [c]) s" by (rule text_line_Cons [OF assms(1)])
  note p = peek_next [OF assms(1)]
  note ch = char_at_line [OF assms(1)]
  have pt: "paint ?b ?i col = Some (canvas_of (adv [col] b))" for col
    using paint_adv [OF assms(2) _ refl] by simp
  have f1: "fits (length (x @ [c])) (length s) (adv [col] b)" for col by (rule fits_adv [OF assms(2)]) simp_all
  have l1: "length ((x @ [c]) @ s) = length (x @ c # s)" "int (length (x @ [c])) = ?i + 1" by simp_all
  consider (line) "c = CHR ''/''" "starts (\<lambda>c. c = CHR ''/'') s"
    | (opened) "c = CHR ''/''" "starts (\<lambda>c. c = CHR ''*'') s"
    | (lit) "c = QUOTE \<or> c = APOS"
    | (digit) "is_digit c"
    | (dot) "c = CHR ''.''" "starts is_alpha s"
    | (arrow) "c = CHR ''-''" "starts (\<lambda>c. c = CHR ''>'') s" "starts is_alpha (tl s)"
    | (alpha) "\<not> pre" "is_alpha c"
    | (single) "\<not> (c = CHR ''/'' \<and> starts (\<lambda>c. c = CHR ''/'') s)" "\<not> (c = CHR ''/'' \<and> starts (\<lambda>c. c = CHR ''*'') s)"
      "\<not> (c = QUOTE \<or> c = APOS)" "\<not> is_digit c" "\<not> (c = CHR ''.'' \<and> starts is_alpha s)"
      "\<not> (c = CHR ''-'' \<and> starts (\<lambda>c. c = CHR ''>'') s \<and> starts is_alpha (tl s))" "pre \<or> \<not> is_alpha c" by blast
  then show ?thesis
  proof cases
    case line
    have "paint_range ?b ?i ?len SYNTAX_COLOR_COMMENT
        = Some (canvas_of (adv (replicate (length (c # s)) SYNTAX_COLOR_COMMENT) b))"
      by (rule paint_range_adv [OF assms(2)]) simp_all
    then show ?thesis using line p ch assms(3) unfolding code_round_def token_def by auto
  next
    case opened
    have ns: "\<not> starts (\<lambda>c. c = CHR ''/'') s" using opened(2) by (cases s) auto
    have "1 < length (c # s)" using opened(2) by (cases s) auto
    from paint_adv2 [OF assms(2) this refl]
    show ?thesis using opened ns p ch assms(3) unfolding code_round_def token_def by auto
  next
    case lit
    have "literal c line ?len (?i + 1) (canvas_of (adv [SYNTAX_COLOR_STRING] b))
        = Some (int (length (x @ [c]) + length (fst (literal_ref c s))), canvas_of (adv (SYNTAX_COLOR_STRING # fst (literal_ref c s)) b))"
      using literal_line [OF t1 f1, of c SYNTAX_COLOR_STRING] unfolding l1 by simp
    then show ?thesis using lit ch pt assms(3) unfolding code_round_def token_def by (auto simp: algebra_simps)
  next
    case digit
    have d: "c \<noteq> CHR ''/''" "\<not> (c = QUOTE \<or> c = APOS)" "numeric c"
      using digit by (auto simp: is_digit_def char_between_def numeric_def is_alnum_def)
    have "number line ?len ?i ?b = Some (int (length x + Suc (length (takeWhile numeric s))),
        canvas_of (adv (SYNTAX_COLOR_NUMBER # replicate (length (takeWhile numeric s)) SYNTAX_COLOR_NUMBER) b))"
      using number_line [OF assms(1,2)] d(3) by simp
    then show ?thesis using digit d ch assms(3) unfolding code_round_def token_def by (auto simp: algebra_simps)
  next
    case dot
    have d: "c \<noteq> CHR ''/''" "\<not> (c = QUOTE \<or> c = APOS)" "\<not> is_digit c"
      using dot by (auto simp: is_digit_def char_between_def)
    have "member_name line ?len (?i + 1) (canvas_of (adv [SYNTAX_COLOR_OPERATOR] b))
        = Some (int (length (x @ [c]) + length (takeWhile is_alnum s)),
            canvas_of (adv (SYNTAX_COLOR_OPERATOR # replicate (length (takeWhile is_alnum s)) SYNTAX_COLOR_MEMBER) b))"
      using member_line [OF t1 f1, of SYNTAX_COLOR_OPERATOR] unfolding l1 by simp
    then show ?thesis using dot d ch pt p assms(3) unfolding code_round_def token_def by (auto simp: algebra_simps)
  next
    case arrow
    have "\<not> is_digit c" "\<not> (c = QUOTE \<or> c = APOS)" using arrow(1) by (auto simp: is_digit_def char_between_def)
    then show ?thesis using arrow_round [OF assms(1,2) arrow] arrow assms(3) unfolding token_def by (auto simp: algebra_simps)
  next
    case alpha
    have d: "c \<noteq> CHR ''/''" "\<not> (c = QUOTE \<or> c = APOS)" "\<not> is_digit c" "c \<noteq> CHR ''.''" "c \<noteq> CHR ''-''" "\<not> is_operator c" "is_alnum c"
      using alpha(2) by (auto simp: is_alpha_def is_digit_def is_operator_def char_between_def is_alnum_def)
    then have "takeWhile is_alnum (c # s) \<noteq> []" by simp
    from identifier_line [OF assms(1,2) this]
    show ?thesis using alpha d ch assms(3) unfolding code_round_def token_def by (auto simp: algebra_simps)
  next
    case single
    show ?thesis using single_round [OF assms(1,2) single] assms(3) by simp
  qed
qed

lemma highlight_loop_line:
  assumes "text_line line x y" and "fits (length x) (length y) b"
  shows "highlight_loop line (int (length (x @ y))) pre (int (length x)) k (canvas_of b)
    = Some (canvas_of (adv (fst (highlight pre k y)) b), snd (highlight pre k y))"
  using assms
proof (induction "length y" arbitrary: x y b k rule: less_induct)
  case less
  show ?case
  proof (cases y)
    case Nil
    then show ?thesis by (subst highlight_loop.simps) simp
  next
    case (Cons c s)
    obtain cs r k' where tk: "token pre k (c # s) = (cs, r, k')" by (cases "token pre k (c # s)")
    note len = token_length [of "c # s" pre k, unfolded tk, simplified]
    note hl = highlight_step [of "c # s" pre k cs r k', OF _ tk, simplified]
    define z where "z = take (length cs) (c # s)"
    have r: "c # s = z @ r" "length z = length cs"
      using token_rest [of "c # s" pre k] tk len by (simp_all add: z_def)
    have t: "text_line line (x @ z) r" using less.prems(1) r(1) Cons by (simp add: text_line_def)
    have f: "fits (length (x @ z)) (length r) (adv cs b)" 
      by (rule fits_adv [OF less.prems(2)]) (use r len Cons in auto)
    have "length r < length y" using len Cons by (cases cs) auto
    from less.hyps [OF this t f] have IH: "highlight_loop line (int (length (x @ y))) pre (int (length x + length cs)) k' (canvas_of (adv cs b))
        = Some (canvas_of (adv (cs @ fst (highlight pre k' r)) b), snd (highlight pre k' r))" for k'
      using r Cons by (simp add: add.assoc)
    note prems = less.prems [unfolded Cons]
    show ?thesis
    proof (cases k)
      case True
      then have k: "k = True" by simp
      from block_round_line [OF prems tk [unfolded k]] IH show ?thesis
        unfolding Cons k by (subst highlight_loop.simps) (simp add: hl [unfolded k])
    next
      case False
      then have k: "k = False" by simp
      obtain nxt where nxt: "code_round line (int (length (x @ c # s))) pre (int (length x)) (canvas_of b) = Some (nxt, canvas_of (adv cs b))"
        "nxt = Some (int (length x + length cs), k') \<or> nxt = None \<and> r = [] \<and> \<not> k'"
        using code_round_line [OF prems tk [unfolded k]] by blast
      show ?thesis using nxt IH unfolding Cons k
        by (subst highlight_loop.simps) (auto simp: hl [unfolded k])
    qed
  qed
qed

definition highlight_ref :: "SyntaxLanguage \<Rightarrow> bool \<Rightarrow> string \<Rightarrow> u32 list \<times> bool" where
  "highlight_ref lang k t =
     (if lang = SYNTAX_LANG_C then highlight (\<not> k \<and> starts (\<lambda>c. c = CHR ''#'') (dropWhile blank t)) k t
      else (replicate (length t) SYNTAX_COLOR_DEFAULT, k))"

lemma highlight_ref_length: "length (fst (highlight_ref lang k t)) = length t"
  by (simp add: highlight_ref_def highlight_length)

definition painted :: "u32 list \<Rightarrow> canvas \<Rightarrow> canvas" where
  "painted cs = map_option (\<lambda>a. map Some cs @ drop (length cs) a)"

definition canvas_fits :: "nat \<Rightarrow> canvas \<Rightarrow> bool" where
  "canvas_fits n colors = (case colors of None \<Rightarrow> True | Some a \<Rightarrow> n \<le> length a)"

lemma highlight_line_eq:
  assumes "text_line line [] t" and "canvas_fits (length t) colors"
  shows "syntax_highlight_line line (int (length t)) k lang colors
    = Some (painted (fst (highlight_ref lang k t)) colors, snd (highlight_ref lang k t))"
proof -
  let ?b = "map_option (Pair []) colors :: brush"
  have c: "canvas_of ?b = colors" by (cases colors) auto
  have f: "fits (length ([] :: string)) (length t) ?b" using assms(2) by (cases colors) (auto simp: canvas_fits_def)
  have a: "canvas_of (adv cs ?b) = painted cs colors" for cs by (cases colors) (auto simp: painted_def)
  show ?thesis
  proof (cases "lang = SYNTAX_LANG_C")
    case True
    have t1: "text_line line (takeWhile blank t) (dropWhile blank t)" using assms(1) by (simp add: text_line_def)
    have b: "(\<lambda>c. c = SPACE \<or> c = TAB) = blank" by (simp add: fun_eq_iff blank_def)
    have j: "skip_ws line 0 (int (length t)) = Some (int (length (takeWhile blank t)))"
      using skip_line [OF assms(1), of blank] unfolding skip_ws_def b by simp
    have "peek line (int (length t)) (int (length (takeWhile blank t))) (\<lambda>c. c = CHR ''#'')
        = Some (starts (\<lambda>c. c = CHR ''#'') (dropWhile blank t))"
      using peek_line [OF t1, of "\<lambda>c. c = CHR ''#''"] by simp
    then show ?thesis using True j highlight_loop_line [OF assms(1) f, of _ k] unfolding c a
      by (simp add: syntax_highlight_line_def highlight_ref_def)
  next
    case False
    have "paint_range colors 0 (int (length t)) SYNTAX_COLOR_DEFAULT
        = Some (painted (replicate (length t) SYNTAX_COLOR_DEFAULT) colors)"
      using paint_range_adv [OF f, of "length t" 0 "int (length t)"] unfolding c a by simp
    then show ?thesis using False by (simp add: syntax_highlight_line_def highlight_ref_def)
  qed
qed

section \<open>Block comments\<close>

text \<open>The comment state after a text, by the lexical rules of C alone.\<close>

datatype lexer = Code | Comment | Quoted char

fun comment_after :: "lexer \<Rightarrow> string \<Rightarrow> bool" where
  "comment_after m [] = (m = Comment)"
| "comment_after m [c] = (m = Comment)"
| "comment_after Comment (c # d # s) =
     (if c = CHR ''*'' \<and> d = CHR ''/'' then comment_after Code s else comment_after Comment (d # s))"
| "comment_after (Quoted q) (c # d # s) =
     (if c = BSLASH then comment_after (Quoted q) s
      else if c = q then comment_after Code (d # s) else comment_after (Quoted q) (d # s))"
| "comment_after Code (c # d # s) =
     (if c = CHR ''/'' \<and> d = CHR ''/'' then False
      else if c = CHR ''/'' \<and> d = CHR ''*'' then comment_after Comment s
      else if c = QUOTE \<or> c = APOS then comment_after (Quoted c) (d # s)
      else comment_after Code (d # s))"

lemma comment_after_skip:
  "\<forall>c \<in> set w. c \<notin> {CHR ''/'', QUOTE, APOS} \<Longrightarrow> comment_after Code (w @ s) = comment_after Code s"
proof (induction w)
  case (Cons c w)
  then show ?case by (cases "w @ s") auto
qed simp

lemma comment_after_literal: "comment_after (Quoted q) s = comment_after Code (snd (literal_ref q s))"
  by (induction q s rule: literal_ref.induct) (auto split: prod.splits)

lemma alnum_plain: "is_alnum c \<Longrightarrow> c \<notin> {CHR ''/'', QUOTE, APOS}" "numeric c \<Longrightarrow> c \<notin> {CHR ''/'', QUOTE, APOS}"
  by (auto simp: is_alnum_def is_alpha_def is_digit_def char_between_def numeric_def)

lemma comment_after_dropWhile:
  assumes "\<And>c. P c \<Longrightarrow> c \<notin> {CHR ''/'', QUOTE, APOS}"
  shows "comment_after Code (dropWhile P s) = comment_after Code s"
proof -
  have "\<forall>c \<in> set (takeWhile P s). c \<notin> {CHR ''/'', QUOTE, APOS}" using assms by (auto dest: set_takeWhileD)
  from comment_after_skip [OF this, of "dropWhile P s"] show ?thesis by simp
qed

lemma comment_after_Cons:
  "comment_after Code (c # s) =
     (if c = CHR ''/'' \<and> starts (\<lambda>c. c = CHR ''/'') s then False
      else if c = CHR ''/'' \<and> starts (\<lambda>c. c = CHR ''*'') s then comment_after Comment (tl s)
      else if c = QUOTE \<or> c = APOS then comment_after (Quoted c) s
      else comment_after Code s)"
  by (cases s) auto

lemma comment_after_Comment_Cons:
  "comment_after Comment (c # s) =
     (if c = CHR ''*'' \<and> starts (\<lambda>c. c = CHR ''/'') s then comment_after Code (tl s) else comment_after Comment s)"
  by (cases s) auto

lemma plain_signs: "\<not> is_digit (CHR ''/'')" "\<not> is_operator (CHR ''/'')" "\<not> is_alpha (CHR ''/'')"
  by (simp_all add: is_digit_def is_operator_def is_alpha_def char_between_def)

lemma comment_after_token:
  assumes "t \<noteq> []" and "token pre k t = (cs, r, k')"
  shows "comment_after (if k' then Comment else Code) r = comment_after (if k then Comment else Code) t"
proof -
  obtain c s where t: "t = c # s" using assms by (cases t) auto
  have tk: "r = fst (snd (token pre k t))" "k' = snd (snd (token pre k t))" using assms(2) by simp_all
  note dw = comment_after_dropWhile [of is_alnum, OF alnum_plain(1)] comment_after_dropWhile [of numeric, OF alnum_plain(2)]
  have gt: "comment_after Code s = comment_after Code (tl s)" if "starts (\<lambda>c. c = CHR ''>'') s"
    using that by (cases s) (simp_all add: comment_after_Cons)
  have al: "is_alpha c \<Longrightarrow> is_alnum c" by (simp add: is_alnum_def)
  show ?thesis
  proof (cases k)
    case True
    then show ?thesis unfolding tk t token_def Let_def list.sel
      by (auto simp: comment_after_Comment_Cons)
  next
    case False
    then have k: "k = False" by simp
    show ?thesis
    proof (cases "c = CHR ''/'' \<or> c = QUOTE \<or> c = APOS")
      case True
      then show ?thesis unfolding tk t k token_def Let_def list.sel
        by (elim disjE) (simp_all add: comment_after_Cons comment_after_literal plain_signs)
    next
      case False
      then show ?thesis unfolding tk t k token_def Let_def list.sel
        using al by (simp add: comment_after_Cons dw gt)
    qed
  qed
qed

lemma highlight_comment: "snd (highlight pre k t) = comment_after (if k then Comment else Code) t"
proof (induction pre k t rule: highlight.induct)
  case (1 pre k t)
  show ?case
  proof (cases "t = []")
    case False
    obtain cs r k' where tk: "token pre k t = (cs, r, k')" by (cases "token pre k t")
    show ?thesis using 1 [OF False tk [symmetric] refl] highlight_step [OF False tk] comment_after_token [OF False tk] by simp
  qed simp
qed

section \<open>Properties\<close>

text \<open>C22: Highlighting a line never leaves the line or the colour array and is the tokeniser's: it gives
  each character the colour of its token, in an array of at least the line's length, leaves the rest
  of the array alone, and reports the tokeniser's comment state, with or without an array.\<close>

theorem highlight_refines_tokens:
  assumes "line = Some (map Some t @ R)" and "canvas_fits (length t) colors"
  shows "syntax_highlight_line line (int (length t)) k lang colors
      = Some (painted (fst (highlight_ref lang k t)) colors, snd (highlight_ref lang k t))
    \<and> length (fst (highlight_ref lang k t)) = length t"
proof -
  have "text_line line [] t" using assms(1) by (simp add: text_line_def)
  from highlight_line_eq [OF this assms(2)] highlight_ref_length show ?thesis by simp
qed

theorem highlight_refines_tokens_witness:
  "\<exists>cols. syntax_highlight_line (Some (map Some ''if (x) /* y'' @ [Some NUL])) 11 False SYNTAX_LANG_C (Some (fresh 12))
     = Some (Some cols, snd (highlight_ref SYNTAX_LANG_C False ''if (x) /* y'')) \<and> length cols = 12"
  using highlight_refines_tokens [where line = "Some (map Some ''if (x) /* y'' @ [Some NUL])" and t = "''if (x) /* y''"
      and R = "[Some NUL]" and colors = "Some (fresh 12)" and k = False and lang = SYNTAX_LANG_C]
  by (auto simp: canvas_fits_def painted_def)

text \<open>The comment state the highlighter reports for a line of C is the one the lexical rules give,
  whether or not colours are asked for: comments open at \<open>/*\<close> outside literals and line comments, and
  close at \<open>*/\<close>, and no other token hides or makes one.\<close>

theorem comment_state_of_line:
  assumes "line = Some (map Some t @ R)" and "canvas_fits (length t) colors"
  shows "map_option snd (syntax_highlight_line line (int (length t)) k SYNTAX_LANG_C colors)
    = Some (comment_after (if k then Comment else Code) t)"
proof -
  have "text_line line [] t" using assms(1) by (simp add: text_line_def)
  from highlight_line_eq [OF this assms(2)] show ?thesis by (simp add: highlight_ref_def highlight_comment)
qed

theorem comment_state_of_line_witness:
  "map_option snd (syntax_highlight_line (Some (map Some [QUOTE, CHR ''/'', CHR ''*'', QUOTE, CHR ''/'', CHR ''*''] @ [Some NUL])) 6 False
     SYNTAX_LANG_C None) = Some True"
  using comment_state_of_line [where line = "Some (map Some [QUOTE, CHR ''/'', CHR ''*'', QUOTE, CHR ''/'', CHR ''*''] @ [Some NUL])"
      and t = "[QUOTE, CHR ''/'', CHR ''*'', QUOTE, CHR ''/'', CHR ''*'']" and R = "[Some NUL]" and colors = None and k = False]
  by (simp add: canvas_fits_def)

end
