(* ===== verification/HighlightCache.thy ===== *)
theory HighlightCache
  imports SyntaxRef
begin

text \<open>
  \<open>view/editor/highlight_cache.c\<close>: for every row, whether a block comment is open at its start
  (\<open>hc_open\<close>, the array \<open>block_comment_open\<close>) and the colours of its characters once they have been
  computed (\<open>hc_rows\<close>, the array of pointers \<open>line_colors_cache\<close>, with the sizes of their buffers in
  \<open>hc_caps\<close>). A \<open>NULL\<close> pointer is \<open>None\<close>. After an edit of a row, \<open>highlight_cache_rebuild_from\<close>
  recolours from it on and stops as soon as a row's comment state is what it was.
\<close>

section \<open>The code\<close>

record highlight_cache =
  hc_lang :: SyntaxLanguage
  hc_open :: "bool cells option"
  hc_open_cap :: int
  hc_rows :: "canvas cells option"
  hc_caps :: "int cells option"
  hc_count :: int
  hc_last :: int
  hc_heap :: heap

definition highlight_cache0 :: highlight_cache where
  "highlight_cache0 = \<lparr>hc_lang = SYNTAX_LANG_NONE, hc_open = None, hc_open_cap = 0, hc_rows = None, hc_caps = None,
     hc_count = 0, hc_last = 0, hc_heap = []\<rparr>"

text \<open>\<open>memcpy (p, a, n)\<close> from an array that may be \<open>NULL\<close> when \<open>n\<close> is 0.\<close>

definition copy_in :: "'a cells \<Rightarrow> 'a cells option \<Rightarrow> int \<Rightarrow> 'a cells option" where
  "copy_in p a n = blit p 0 (case a of None \<Rightarrow> [] | Some a \<Rightarrow> a) 0 n"

definition block_comment_open_grow :: "int \<Rightarrow> highlight_cache \<Rightarrow> (bool \<times> highlight_cache) option" where
  "block_comment_open_grow needed hc =
     (if needed \<le> hc_open_cap hc then Some (True, hc)
      else
        let new_cap = grow_cap (if hc_open_cap hc \<noteq> 0 then hc_open_cap hc * 2 else 64) (needed - 1);
            (ok, h) = malloc_ok (hc_heap hc)
        in if \<not> ok then Some (False, hc\<lparr>hc_heap := h\<rparr>) else do {
          p \<leftarrow> copy_in (fresh new_cap) (hc_open hc) (hc_open_cap hc);
          p \<leftarrow> afill p (hc_open_cap hc) False (new_cap - hc_open_cap hc);
          Some (True, hc\<lparr>hc_open := Some p, hc_open_cap := new_cap, hc_heap := h\<rparr>)
        })"

definition block_comment_open_cleanup :: "highlight_cache \<Rightarrow> highlight_cache" where
  "block_comment_open_cleanup hc = hc\<lparr>hc_open := None, hc_open_cap := 0\<rparr>"

definition block_comment_open_at :: "int \<Rightarrow> highlight_cache \<Rightarrow> bool option" where
  "block_comment_open_at row hc =
     (if row < 0 \<or> hc_open_cap hc \<le> row then Some False else do { a \<leftarrow> hc_open hc; aread a row })"

definition set_open :: "int \<Rightarrow> bool \<Rightarrow> highlight_cache \<Rightarrow> highlight_cache option" where
  "set_open row k hc = do { a \<leftarrow> hc_open hc; a \<leftarrow> awrite a row k; Some (hc\<lparr>hc_open := Some a\<rparr>) }"

text \<open>A call of the highlighter on row \<open>r\<close> of the editor.\<close>

definition highlight_row :: "editor \<Rightarrow> int \<Rightarrow> bool \<Rightarrow> canvas \<Rightarrow> highlight_cache \<Rightarrow> (canvas \<times> bool) option" where
  "highlight_row e r k dst hc = do {
     line \<leftarrow> editor_get_line e r;
     len \<leftarrow> editor_get_line_len e r;
     syntax_highlight_line line len k (hc_lang hc) dst
   }"

text \<open>The loop of \<open>rebuild_block_comment_open_full\<close> from row \<open>r\<close> on.\<close>

function open_loop :: "editor \<Rightarrow> int \<Rightarrow> int \<Rightarrow> bool \<Rightarrow> highlight_cache \<Rightarrow> highlight_cache option" where
  "open_loop e n_rows r k hc =
     (if r < n_rows then do {
        hc \<leftarrow> set_open r k hc;
        (_, out_bc) \<leftarrow> highlight_row e r k None hc;
        open_loop e n_rows (r + 1) out_bc hc
      } else Some hc)"
  by pat_completeness auto
termination
  by (relation "measure (\<lambda>(e, n_rows, r, k, hc). nat (n_rows - r))") auto

declare open_loop.simps [simp del]

definition rebuild_block_comment_open_full :: "editor \<Rightarrow> highlight_cache \<Rightarrow> highlight_cache option" where
  "rebuild_block_comment_open_full e hc = do {
     let n_rows = editor_get_row_count e;
     (ok, hc) \<leftarrow> block_comment_open_grow (n_rows + 1) hc;
     if \<not> ok then Some hc else open_loop e n_rows 0 False hc
   }"

definition line_colors_cache_grow :: "int \<Rightarrow> highlight_cache \<Rightarrow> (bool \<times> highlight_cache) option" where
  "line_colors_cache_grow needed hc =
     (if needed \<le> hc_count hc then Some (True, hc)
      else
        let new_count = grow_cap (if hc_count hc \<noteq> 0 then hc_count hc * 2 else 64) (needed - 1);
            (ok, h) = malloc_ok (hc_heap hc)
        in if \<not> ok then Some (False, hc\<lparr>hc_heap := h\<rparr>) else
        let (ok, h) = malloc_ok h
        in if \<not> ok then Some (False, hc\<lparr>hc_heap := h\<rparr>) else do {
          p \<leftarrow> (if 0 < hc_count hc then copy_in (fresh new_count) (hc_rows hc) (hc_count hc) else Some (fresh new_count));
          q \<leftarrow> (if 0 < hc_count hc then copy_in (fresh new_count) (hc_caps hc) (hc_count hc) else Some (fresh new_count));
          p \<leftarrow> afill p (hc_count hc) None (new_count - hc_count hc);
          q \<leftarrow> afill q (hc_count hc) 0 (new_count - hc_count hc);
          Some (True, hc\<lparr>hc_rows := Some p, hc_caps := Some q, hc_count := new_count, hc_heap := h\<rparr>)
        })"

definition row_at :: "int \<Rightarrow> highlight_cache \<Rightarrow> canvas option" where
  "row_at r hc = do { p \<leftarrow> hc_rows hc; aread p r }"

definition set_row :: "int \<Rightarrow> canvas \<Rightarrow> int \<Rightarrow> highlight_cache \<Rightarrow> highlight_cache option" where
  "set_row r c n hc = do {
     p \<leftarrow> hc_rows hc;
     p \<leftarrow> awrite p r c;
     q \<leftarrow> hc_caps hc;
     q \<leftarrow> awrite q r n;
     Some (hc\<lparr>hc_rows := Some p, hc_caps := Some q\<rparr>)
   }"

definition highlight_cache_free_row :: "int \<Rightarrow> highlight_cache \<Rightarrow> highlight_cache option" where
  "highlight_cache_free_row row hc =
     (if row < 0 \<or> hc_count hc \<le> row then Some hc else set_row row None 0 hc)"

text \<open>The loop of \<open>line_colors_cache_invalidate_all\<close>; freeing a row does not change the count.\<close>

function free_loop :: "int \<Rightarrow> int \<Rightarrow> highlight_cache \<Rightarrow> highlight_cache option" where
  "free_loop n r hc =
     (if r < n then do { hc \<leftarrow> highlight_cache_free_row r hc; free_loop n (r + 1) hc } else Some hc)"
  by pat_completeness auto
termination
  by (relation "measure (\<lambda>(n, r, hc). nat (n - r))") auto

declare free_loop.simps [simp del]

definition line_colors_cache_invalidate_all :: "highlight_cache \<Rightarrow> highlight_cache option" where
  "line_colors_cache_invalidate_all hc = do { hc \<leftarrow> free_loop (hc_count hc) 0 hc; Some (hc\<lparr>hc_last := 0\<rparr>) }"

text \<open>Whether the pointer returned is not \<open>NULL\<close>; it is the row's pointer in the array.\<close>

definition ensure_row_cap :: "int \<Rightarrow> int \<Rightarrow> highlight_cache \<Rightarrow> (bool \<times> highlight_cache) option" where
  "ensure_row_cap row len hc =
     (if len \<le> 0 then Some (False, hc) else do {
        (ok, hc) \<leftarrow> line_colors_cache_grow (row + 1) hc;
        if \<not> ok then Some (False, hc) else do {
          q \<leftarrow> hc_caps hc;
          n \<leftarrow> aread q row;
          if n < len then
            let (ok, h) = malloc_ok (hc_heap hc) in
            if \<not> ok then Some (False, hc\<lparr>hc_heap := h\<rparr>)
            else do { hc \<leftarrow> set_row row (Some (fresh len)) len hc; Some (True, hc\<lparr>hc_heap := h\<rparr>) }
          else do { c \<leftarrow> row_at row hc; Some (c \<noteq> None, hc) }
        }
      })"

definition highlight_cache_cleanup :: "highlight_cache \<Rightarrow> highlight_cache option" where
  "highlight_cache_cleanup hc = do {
     hc \<leftarrow> line_colors_cache_invalidate_all hc;
     Some (block_comment_open_cleanup (hc\<lparr>hc_rows := None, hc_caps := None, hc_count := 0\<rparr>))
   }"

text \<open>The two \<open>memmove\<close>s of \<open>highlight_cache_sync\<close>.\<close>

definition shift_rows :: "int \<Rightarrow> int \<Rightarrow> int \<Rightarrow> highlight_cache \<Rightarrow> highlight_cache option" where
  "shift_rows d s n hc =
     (if 0 < n then do {
        p \<leftarrow> hc_rows hc;
        p \<leftarrow> blit p d p s n;
        q \<leftarrow> hc_caps hc;
        q \<leftarrow> blit q d q s n;
        Some (hc\<lparr>hc_rows := Some p, hc_caps := Some q\<rparr>)
      } else Some hc)"

definition highlight_cache_sync :: "int \<Rightarrow> int \<Rightarrow> highlight_cache \<Rightarrow> highlight_cache option" where
  "highlight_cache_sync new_count cur hc =
     (let old_count = hc_last hc in
      if new_count = old_count then Some hc
      else if old_count = 0 then Some (hc\<lparr>hc_last := new_count\<rparr>)
      else do {
        hc \<leftarrow> (if new_count = old_count + 1 then
                 let split_row = cur - 1 in
                 if 0 \<le> split_row then do {
                   (ok, hc) \<leftarrow> line_colors_cache_grow new_count hc;
                   if \<not> ok then Some hc else do {
                     hc \<leftarrow> shift_rows (split_row + 2) (split_row + 1) (old_count - split_row - 1) hc;
                     hc \<leftarrow> highlight_cache_free_row split_row hc;
                     set_row (split_row + 1) None 0 hc
                   }
                 } else Some hc
               else if new_count = old_count - 1 then
                 let merge_row = cur;
                     eff_old = (if old_count < hc_count hc then old_count else hc_count hc) in
                 if 0 \<le> merge_row \<and> merge_row < eff_old then do {
                   hc \<leftarrow> highlight_cache_free_row merge_row hc;
                   hc \<leftarrow> highlight_cache_free_row (merge_row + 1) hc;
                   hc \<leftarrow> shift_rows (merge_row + 1) (merge_row + 2) (eff_old - merge_row - 2) hc;
                   let vacated = eff_old - 1;
                   if 0 \<le> vacated \<and> vacated < hc_count hc then set_row vacated None 0 hc else Some hc
                 } else Some hc
               else line_colors_cache_invalidate_all hc);
        Some (hc\<lparr>hc_last := new_count\<rparr>)
      })"

text \<open>Storing what the highlighter wrote through the pointer of row \<open>r\<close>, if there was one.\<close>

definition store_row :: "int \<Rightarrow> canvas \<Rightarrow> highlight_cache \<Rightarrow> highlight_cache option" where
  "store_row r c hc = (case c of None \<Rightarrow> Some hc
     | Some a \<Rightarrow> do { p \<leftarrow> hc_rows hc; p \<leftarrow> awrite p r (Some a); Some (hc\<lparr>hc_rows := Some p\<rparr>) })"

definition color_row :: "editor \<Rightarrow> int \<Rightarrow> bool \<Rightarrow> bool \<Rightarrow> highlight_cache \<Rightarrow> (bool \<times> highlight_cache) option" where
  "color_row e r k has_dst hc = do {
     dst \<leftarrow> (if has_dst then row_at r hc else Some None);
     (dst, out_bc) \<leftarrow> highlight_row e r k dst hc;
     hc \<leftarrow> store_row r dst hc;
     Some (out_bc, hc)
   }"

definition highlight_cache_get_line :: "editor \<Rightarrow> int \<Rightarrow> highlight_cache \<Rightarrow> (canvas \<times> highlight_cache) option" where
  "highlight_cache_get_line e row hc = do {
     (ok, hc) \<leftarrow> line_colors_cache_grow (row + 1) hc;
     if \<not> ok then Some (None, hc) else do {
       c \<leftarrow> row_at row hc;
       if c \<noteq> None then Some (c, hc) else do {
         len \<leftarrow> editor_get_line_len e row;
         (ok, hc) \<leftarrow> ensure_row_cap row len hc;
         if \<not> ok then Some (None, hc) else do {
           k \<leftarrow> block_comment_open_at row hc;
           (_, hc) \<leftarrow> color_row e row k True hc;
           c \<leftarrow> row_at row hc;
           Some (c, hc)
         }
       }
     }
   }"

definition highlight_cache_set_language :: "editor \<Rightarrow> SyntaxLanguage \<Rightarrow> highlight_cache \<Rightarrow> highlight_cache option" where
  "highlight_cache_set_language e lang hc = do {
     hc \<leftarrow> line_colors_cache_invalidate_all (hc\<lparr>hc_lang := lang\<rparr>);
     rebuild_block_comment_open_full e hc
   }"

function rebuild_loop :: "editor \<Rightarrow> int \<Rightarrow> int \<Rightarrow> bool \<Rightarrow> highlight_cache \<Rightarrow> highlight_cache option" where
  "rebuild_loop e n_rows r k hc =
     (if r < n_rows then do {
        len \<leftarrow> editor_get_line_len e r;
        (has_dst, hc) \<leftarrow> ensure_row_cap r len hc;
        (out_bc, hc) \<leftarrow> color_row e r k has_dst hc;
        if r + 1 < hc_open_cap hc then do {
          a \<leftarrow> hc_open hc;
          k' \<leftarrow> aread a (r + 1);
          if k' = out_bc then Some hc else do {
            hc \<leftarrow> highlight_cache_free_row (r + 1) hc;
            hc \<leftarrow> set_open (r + 1) out_bc hc;
            rebuild_loop e n_rows (r + 1) out_bc hc
          }
        } else rebuild_loop e n_rows (r + 1) out_bc hc
      } else Some hc)"
  by pat_completeness auto
termination
  by (relation "measure (\<lambda>(e, n_rows, r, k, hc). nat (n_rows - r))") auto

declare rebuild_loop.simps [simp del]

definition highlight_cache_rebuild_from :: "editor \<Rightarrow> int \<Rightarrow> highlight_cache \<Rightarrow> highlight_cache option" where
  "highlight_cache_rebuild_from e row hc =
     (let n_rows = editor_get_row_count e in
      if row < 0 \<or> n_rows \<le> row then Some hc else do {
        (ok, hc) \<leftarrow> block_comment_open_grow (n_rows + 1) hc;
        if \<not> ok then Some hc else do {
          a \<leftarrow> hc_open hc;
          k \<leftarrow> aread a row;
          rebuild_loop e n_rows row k hc
        }
      })"

end
