(* ===== verification/HighlightRows.thy ===== *)
theory HighlightRows
  imports HighlightCache
begin

text \<open>
  What the operations of the colour cache do to the lists it holds: \<open>cache lang opn cols n hc\<close> says that
  \<open>hc\<close> has the comment states \<open>opn\<close> and the row buffers \<open>cols\<close>, that every buffer has the size
  recorded for it, and that no allocation will fail.
\<close>

definition buf_size :: "canvas \<Rightarrow> int" where
  "buf_size c = (case c of None \<Rightarrow> 0 | Some a \<Rightarrow> int (length a))"

definition holds_list :: "'a cells option \<Rightarrow> 'a list \<Rightarrow> bool" where
  "holds_list a xs \<longleftrightarrow> a = Some (map Some xs) \<or> a = None \<and> xs = []"

definition cache :: "SyntaxLanguage \<Rightarrow> bool list \<Rightarrow> canvas list \<Rightarrow> int \<Rightarrow> highlight_cache \<Rightarrow> bool" where
  "cache lang opn cols n hc \<longleftrightarrow> hc_lang hc = lang \<and> hc_last hc = n \<and> hc_heap hc = []
     \<and> holds_list (hc_open hc) opn \<and> hc_open_cap hc = int (length opn)
     \<and> holds_list (hc_rows hc) cols \<and> holds_list (hc_caps hc) (map buf_size cols) \<and> hc_count hc = int (length cols)"

lemma cache0: "cache SYNTAX_LANG_NONE [] [] 0 highlight_cache0"
  by (simp add: cache_def highlight_cache0_def holds_list_def)

lemma copy_in_list:
  assumes "holds_list a xs" and "int (length xs) \<le> n"
  shows "copy_in (fresh n) a (int (length xs)) = Some (map Some xs @ replicate (nat n - length xs) None)"
proof -
  have f: "fresh n = [] @ replicate (length xs) None @ replicate (nat n - length xs) None"
    using assms(2) by (simp add: fresh_def flip: replicate_add)
  have s: "(case a of None \<Rightarrow> [] | Some a \<Rightarrow> a) = [] @ map Some xs @ []"
    using assms(1) by (auto simp: holds_list_def)
  have "copy_in (fresh n) a (int (length xs)) = Some ([] @ map Some xs @ replicate (nat n - length xs) None)"
    unfolding copy_in_def s f by (rule blit_split) simp_all
  then show ?thesis by simp
qed

lemma afill_rest:
  assumes "int (length xs) \<le> n"
  shows "afill (map Some xs @ replicate (nat n - length xs) None) (int (length xs)) v (n - int (length xs))
    = Some (map Some (xs @ replicate (nat n - length xs) v))"
proof -
  let ?m = "nat n - length xs"
  have b: "blit (map Some xs @ replicate ?m None @ []) (int (length xs)) ([] @ replicate ?m (Some v) @ []) 0 (int ?m)
      = Some (map Some xs @ replicate ?m (Some v) @ [])"
    by (rule blit_split) simp_all
  have n: "n - int (length xs) = int ?m" using assms by simp
  show ?thesis unfolding afill_def n nat_int
    using b by (simp only: append_Nil append_Nil2 map_append map_replicate)
qed

lemma doubled_cap:
  assumes "0 \<le> c" and "needed > c"
  shows "needed \<le> grow_cap (if c \<noteq> 0 then c * 2 else 64) (needed - 1)" and "c \<le> grow_cap (if c \<noteq> 0 then c * 2 else 64) (needed - 1)"
  using grow_cap_gt [of "if c \<noteq> 0 then c * 2 else 64" "needed - 1"] assms by auto

lemma open_grow:
  assumes "cache lang opn cols n hc"
  obtains hc' k where "block_comment_open_grow needed hc = Some (True, hc')"
    and "cache lang (opn @ replicate k False) cols n hc'" and "needed \<le> int (length opn + k)"
proof (cases "needed \<le> hc_open_cap hc")
  case True
  show ?thesis by (rule that [of hc 0]) (use True assms in \<open>simp_all add: block_comment_open_grow_def cache_def\<close>)
next
  case False
  define m where "m = grow_cap (if hc_open_cap hc \<noteq> 0 then hc_open_cap hc * 2 else 64) (needed - 1)"
  have c: "hc_open_cap hc = int (length opn)" "holds_list (hc_open hc) opn" "hc_heap hc = []"
    using assms by (simp_all add: cache_def)
  have m: "needed \<le> m" "int (length opn) \<le> m" using doubled_cap [of "hc_open_cap hc" needed] False c unfolding m_def by auto
  let ?k = "nat m - length opn"
  let ?hc = "hc\<lparr>hc_open := Some (map Some (opn @ replicate ?k False)), hc_open_cap := m, hc_heap := []\<rparr>"
  have "block_comment_open_grow needed hc = Some (True, ?hc)"
    using False copy_in_list [OF c(2) m(2)] afill_rest [OF m(2), of False]
    unfolding block_comment_open_grow_def Let_def m_def [symmetric] c(3) by (simp add: c(1))
  moreover have "cache lang (opn @ replicate ?k False) cols n ?hc"
    using assms m(2) by (simp add: cache_def holds_list_def)
  moreover have "needed \<le> int (length opn + ?k)" using m by simp
  ultimately show ?thesis by (rule that)
qed

lemma rows_grow:
  assumes "cache lang opn cols n hc"
  obtains hc' k where "line_colors_cache_grow needed hc = Some (True, hc')"
    and "cache lang opn (cols @ replicate k None) n hc'" and "needed \<le> int (length cols + k)"
proof (cases "needed \<le> hc_count hc")
  case True
  show ?thesis by (rule that [of hc 0]) (use True assms in \<open>simp_all add: line_colors_cache_grow_def cache_def\<close>)
next
  case False
  define m where "m = grow_cap (if hc_count hc \<noteq> 0 then hc_count hc * 2 else 64) (needed - 1)"
  have c: "hc_count hc = int (length cols)" "holds_list (hc_rows hc) cols" "holds_list (hc_caps hc) (map buf_size cols)" "hc_heap hc = []"
    using assms by (simp_all add: cache_def)
  have m: "needed \<le> m" "int (length cols) \<le> m" using doubled_cap [of "hc_count hc" needed] False c unfolding m_def by auto
  let ?k = "nat m - length cols"
  have cp: "(if 0 < hc_count hc then copy_in (fresh m) a (hc_count hc) else Some (fresh m)) = copy_in (fresh m) a (int (length cols))"
    if "cols = [] \<Longrightarrow> holds_list a []" for a :: "'a cells option"
    using that c(1) by (cases cols) (auto simp: holds_list_def copy_in_def blit_def in_range_def)
  have r: "copy_in (fresh m) (hc_rows hc) (int (length cols)) = Some (map Some cols @ replicate ?k None)"
    "copy_in (fresh m) (hc_caps hc) (int (length cols)) = Some (map Some (map buf_size cols) @ replicate ?k None)"
    using copy_in_list [OF c(2) m(2)] copy_in_list [OF c(3), of m] m(2) by simp_all
  have f: "afill (map Some cols @ replicate ?k None) (int (length cols)) None (m - int (length cols))
      = Some (map Some (cols @ replicate ?k None))"
    "afill (map Some (map buf_size cols) @ replicate ?k None) (int (length cols)) 0 (m - int (length cols))
      = Some (map Some (map buf_size cols @ replicate ?k 0))"
    using afill_rest [OF m(2), of None] afill_rest [of "map buf_size cols" m 0] m(2) by simp_all
  have cp': "(if 0 < hc_count hc then copy_in (fresh m) (hc_rows hc) (hc_count hc) else Some (fresh m))
      = copy_in (fresh m) (hc_rows hc) (int (length cols))"
    "(if 0 < hc_count hc then copy_in (fresh m) (hc_caps hc) (hc_count hc) else Some (fresh m))
      = copy_in (fresh m) (hc_caps hc) (int (length cols))"
    by (rule cp, use c in simp)+
  let ?hc = "hc\<lparr>hc_rows := Some (map Some (cols @ replicate ?k None)),
     hc_caps := Some (map Some (map buf_size cols @ replicate ?k 0)), hc_count := m, hc_heap := []\<rparr>"
  have "line_colors_cache_grow needed hc = Some (True, ?hc)"
    unfolding line_colors_cache_grow_def Let_def m_def [symmetric] c(4) malloc_ok_Nil split cp' r Option.bind.bind_lunit
    using False by (simp only: c(1) f Option.bind.bind_lunit) simp
  moreover have "cache lang opn (cols @ replicate ?k None) n ?hc"
    using assms m(2) by (simp add: cache_def holds_list_def buf_size_def)
  moreover have "needed \<le> int (length cols + ?k)" using m by simp
  ultimately show ?thesis by (rule that)
qed

lemma holds_list_nth: "holds_list a xs \<Longrightarrow> r < length xs \<Longrightarrow> a = Some (map Some xs)"
  by (auto simp: holds_list_def)

lemma aread_map: "r < length xs \<Longrightarrow> aread (map Some xs) (int r) = Some (xs ! r)"
  by (simp add: aread_def in_range_def)

lemma awrite_map: "r < length xs \<Longrightarrow> awrite (map Some xs) (int r) x = Some (map Some (xs[r := x]))"
  by (simp add: awrite_def in_range_def map_update)

lemma cache_set_open:
  assumes "cache lang opn cols n hc" and "r < length opn"
  obtains hc' where "set_open (int r) k hc = Some hc'" and "cache lang (opn[r := k]) cols n hc'"
proof
  have o: "hc_open hc = Some (map Some opn)" using assms by (auto simp: cache_def intro: holds_list_nth)
  show "set_open (int r) k hc = Some (hc\<lparr>hc_open := Some (map Some (opn[r := k]))\<rparr>)"
    by (simp add: set_open_def o awrite_map [OF assms(2)])
  show "cache lang (opn[r := k]) cols n (hc\<lparr>hc_open := Some (map Some (opn[r := k]))\<rparr>)"
    using assms(1) by (simp add: cache_def holds_list_def)
qed

lemma cache_open_at:
  "cache lang opn cols n hc \<Longrightarrow> r < length opn \<Longrightarrow> block_comment_open_at (int r) hc = Some (opn ! r)"
  "cache lang opn cols n hc \<Longrightarrow> r < length opn \<Longrightarrow> hc_open hc = Some (map Some opn)"
  by (auto simp: cache_def block_comment_open_at_def holds_list_def aread_map)

lemma cache_row_at:
  "cache lang opn cols n hc \<Longrightarrow> r < length cols \<Longrightarrow> row_at (int r) hc = Some (cols ! r)"
  by (auto simp: cache_def row_at_def holds_list_def aread_map)

lemma cache_set_row:
  assumes "cache lang opn cols n hc" and "r < length cols" and "m = buf_size c"
  obtains hc' where "set_row (int r) c m hc = Some hc'" and "cache lang opn (cols[r := c]) n hc'"
proof
  have o: "hc_rows hc = Some (map Some cols)" "hc_caps hc = Some (map Some (map buf_size cols))"
    using assms by (auto simp: cache_def holds_list_def)
  let ?hc = "hc\<lparr>hc_rows := Some (map Some (cols[r := c])), hc_caps := Some (map Some ((map buf_size cols)[r := m]))\<rparr>"
  have "awrite (map Some (map buf_size cols)) (int r) m = Some (map Some ((map buf_size cols)[r := m]))"
    by (rule awrite_map) (simp add: assms(2))
  then show "set_row (int r) c m hc = Some ?hc"
    by (simp add: set_row_def o awrite_map [OF assms(2)] del: map_map)
  show "cache lang opn (cols[r := c]) n ?hc"
    using assms(1,3) by (simp add: cache_def holds_list_def map_update del: map_map)
qed

lemma cache_free_row:
  assumes "cache lang opn cols n hc"
  obtains hc' where "highlight_cache_free_row (int r) hc = Some hc'" and "cache lang opn (cols[r := None]) n hc'"
proof (cases "r < length cols")
  case True
  obtain hc' where "set_row (int r) None 0 hc = Some hc'" "cache lang opn (cols[r := None]) n hc'"
    using cache_set_row [OF assms True, of 0 None] by (auto simp: buf_size_def)
  moreover have "highlight_cache_free_row (int r) hc = set_row (int r) None 0 hc"
    using assms True by (simp add: highlight_cache_free_row_def cache_def)
  ultimately show ?thesis using that by simp
next
  case False
  then show ?thesis using that [of hc] assms
    by (simp add: highlight_cache_free_row_def cache_def list_update_beyond)
qed

lemma cache_free_loop:
  assumes "cache lang opn cols n hc" and "r \<le> length cols"
  shows "\<exists>hc'. free_loop (int (length cols)) (int r) hc = Some hc'
    \<and> cache lang opn (take r cols @ replicate (length cols - r) None) n hc'"
  using assms
proof (induction "length cols - r" arbitrary: r hc cols)
  case 0
  then show ?case by (subst free_loop.simps) simp
next
  case (Suc k)
  then have r: "r < length cols" by simp
  obtain hc1 where h1: "highlight_cache_free_row (int r) hc = Some hc1" "cache lang opn (cols[r := None]) n hc1"
    by (rule cache_free_row [OF Suc.prems(1)])
  have "\<exists>hc'. free_loop (int (length (cols[r := None]))) (int (Suc r)) hc1 = Some hc' \<and>
      cache lang opn (take (Suc r) (cols[r := None]) @ replicate (length (cols[r := None]) - Suc r) None) n hc'"
    by (rule Suc.hyps(1) [OF _ h1(2)]) (use Suc.hyps(2) r in simp_all)
  moreover have "take (Suc r) (cols[r := None]) = take r cols @ [None]"
    using r by (simp add: take_Suc_conv_app_nth)
  moreover have "replicate (length cols - r) (None :: canvas) = None # replicate (length cols - Suc r) None"
    using r by (metis Suc_diff_Suc replicate_Suc)
  ultimately show ?case using h1(1) r by (subst free_loop.simps) (simp add: add.commute)
qed

lemma cache_invalidate:
  assumes "cache lang opn cols n hc"
  obtains hc' where "line_colors_cache_invalidate_all hc = Some hc'" and "cache lang opn (replicate (length cols) None) 0 hc'"
proof -
  obtain hc1 where "free_loop (hc_count hc) 0 hc = Some hc1" "cache lang opn (replicate (length cols) None) n hc1"
    using cache_free_loop [OF assms, of 0] assms by (auto simp: cache_def)
  then show ?thesis using that [of "hc1\<lparr>hc_last := 0\<rparr>"]
    by (simp add: line_colors_cache_invalidate_all_def cache_def)
qed

text \<open>The buffer of row \<open>i\<close>; rows beyond the array have none yet.\<close>

definition row_buf :: "canvas list \<Rightarrow> nat \<Rightarrow> canvas" where
  "row_buf cols i = (if i < length cols then cols ! i else None)"

lemma row_buf_grow [simp]: "row_buf (cols @ replicate k None) i = row_buf cols i"
  by (auto simp: row_buf_def nth_append)

lemma row_buf_update: "r < length cols \<Longrightarrow> row_buf (cols[r := c]) i = (if i = r then c else row_buf cols i)"
  by (auto simp: row_buf_def)

lemma row_buf_free: "row_buf (cols[r := None]) i = (if i = r then None else row_buf cols i)"
  by (auto simp: row_buf_def)

lemma cache_ensure_row:
  assumes "cache lang opn cols n hc" and "0 < m"
  obtains hc' cols' a where "ensure_row_cap (int r) (int m) hc = Some (True, hc')" and "cache lang opn cols' n hc'"
    and "r < length cols'" and "row_buf cols' = (row_buf cols)(r := Some a)" and "m \<le> length a"
proof -
  obtain hc1 k where h1: "line_colors_cache_grow (int r + 1) hc = Some (True, hc1)"
    "cache lang opn (cols @ replicate k None) n hc1" "int r + 1 \<le> int (length cols + k)"
    by (rule rows_grow [OF assms(1)])
  let ?cols = "cols @ replicate k None"
  have r: "r < length ?cols" using h1(3) by simp
  have caps: "hc_caps hc1 = Some (map Some (map buf_size ?cols))" "hc_heap hc1 = []"
    using h1(2) r by (auto simp: cache_def holds_list_def)
  have n: "aread (map Some (map buf_size ?cols)) (int r) = Some (buf_size (?cols ! r))"
    using aread_map [of r "map buf_size ?cols"] r by (simp only: length_map nth_map)
  note en = ensure_row_cap_def h1(1) Option.bind.bind_lunit caps n
  show ?thesis
  proof (cases "buf_size (?cols ! r) < int m")
    case True
    obtain hc2 where h2: "set_row (int r) (Some (fresh (int m))) (int m) hc1 = Some hc2"
      "cache lang opn (?cols[r := Some (fresh (int m))]) n hc2"
      by (rule cache_set_row [OF h1(2) r, of "int m" "Some (fresh (int m))"]) (simp add: buf_size_def)
    have h: "hc2\<lparr>hc_heap := []\<rparr> = hc2" using h2(2) by (cases hc2) (simp add: cache_def)
    show ?thesis
    proof (rule that [OF _ h2(2)])
      show "ensure_row_cap (int r) (int m) hc = Some (True, hc2)"
        using assms(2) True h2(1) h unfolding en by (simp add: caps n del: map_map map_append)
      show "row_buf (?cols[r := Some (fresh (int m))]) = (row_buf cols)(r := Some (fresh (int m)))"
        using r by (auto simp: row_buf_update)
    qed (use r in simp_all)
  next
    case False
    then obtain a where a: "?cols ! r = Some a" "m \<le> length a"
      using assms(2) by (auto simp: buf_size_def split: option.splits)
    show ?thesis
    proof (rule that [OF _ h1(2) r _ a(2)])
      show "ensure_row_cap (int r) (int m) hc = Some (True, hc1)"
        using assms(2) False a cache_row_at [OF h1(2) r] unfolding en by (simp add: caps n del: map_map map_append)
      show "row_buf ?cols = (row_buf cols)(r := Some a)"
        using a(1) r by (auto simp: fun_eq_iff row_buf_def nth_append split: if_splits)
    qed
  qed
qed

end
