(* ===== verification/HighlightProps.thy ===== *)
theory HighlightProps
  imports HighlightRows
begin

text \<open>
  The colour cache is right: \<open>coherent lang t opn cols\<close> says that \<open>opn\<close> has the comment state before
  every row of the text \<open>t\<close>, and every buffer in \<open>cols\<close> the colours the reference gives the row. A full
  rebuild makes it so, reading a row keeps it so, and after an edit of one row the incremental rebuild
  makes it so again.
\<close>

definition line_out :: "SyntaxLanguage \<Rightarrow> bool \<Rightarrow> string \<Rightarrow> bool" where
  "line_out lang k s = snd (highlight_ref lang k s)"

definition before :: "SyntaxLanguage \<Rightarrow> string list \<Rightarrow> nat \<Rightarrow> bool" where
  "before lang t r = foldl (line_out lang) False (take r t)"

definition shown :: "SyntaxLanguage \<Rightarrow> bool \<Rightarrow> string \<Rightarrow> u32 cells \<Rightarrow> bool" where
  "shown lang k s a \<longleftrightarrow> length s \<le> length a \<and> take (length s) a = map Some (fst (highlight_ref lang k s))"

definition coherent :: "SyntaxLanguage \<Rightarrow> string list \<Rightarrow> bool list \<Rightarrow> canvas list \<Rightarrow> bool" where
  "coherent lang t opn cols \<longleftrightarrow> length t \<le> length opn \<and> (\<forall>r < length t. opn ! r = before lang t r)
     \<and> (\<forall>r < length t. \<forall>a. row_buf cols r = Some a \<longrightarrow> shown lang (before lang t r) (t ! r) a)"

lemma before_0 [simp]: "before lang t 0 = False"
  by (simp add: before_def)

lemma before_Suc: "r < length t \<Longrightarrow> before lang t (Suc r) = line_out lang (before lang t r) (t ! r)"
  by (simp add: before_def take_Suc_conv_app_nth)

lemma before_cong: "take r t = take r u \<Longrightarrow> before lang t r = before lang u r"
  by (simp add: before_def)

section \<open>Colouring one row\<close>

lemma doc_line:
  assumes "doc e t" and "r < length t"
  obtains J where "editor_get_line e (int r) = Some (Some (map Some (t ! r) @ Some NUL # J))"
    and "editor_get_line_len e (int r) = Some (int (length (t ! r)))"
proof -
  obtain Ls where Ls: "rows e Ls" "row_count e = int (length Ls)" "list_all2 line_rep Ls t"
    using assms(1) by (auto simp: doc_def)
  have l: "length Ls = length t" by (rule list_all2_lengthD [OF Ls(3)])
  have "line_rep (Ls ! r) (t ! r)" using Ls(3) assms(2) l by (simp add: list_all2_nthD)
  then obtain J where "ln_buf (Ls ! r) = Some (map Some (t ! r) @ Some NUL # J)" "ln_len (Ls ! r) = int (length (t ! r))"
    by (auto simp: line_rep_def)
  moreover have "line_at e (int r) = Some (Ls ! r)" using rows_nth [OF Ls(1), of "int r"] assms(2) l by simp
  ultimately show ?thesis using that Ls(2) assms(2) l
    by (simp add: editor_get_line_def editor_get_line_len_def)
qed

lemma highlight_row_eq:
  assumes "doc e t" and "r < length t" and "hc_lang hc = lang" and "canvas_fits (length (t ! r)) dst"
  shows "highlight_row e (int r) k dst hc
    = Some (painted (fst (highlight_ref lang k (t ! r))) dst, line_out lang k (t ! r))"
proof -
  obtain J where J: "editor_get_line e (int r) = Some (Some (map Some (t ! r) @ Some NUL # J))"
    "editor_get_line_len e (int r) = Some (int (length (t ! r)))" by (rule doc_line [OF assms(1,2)])
  have "text_line (Some (map Some (t ! r) @ Some NUL # J)) [] (t ! r)" by (simp add: text_line_def)
  from highlight_line_eq [OF this assms(4)] J assms(3) show ?thesis
    by (simp add: highlight_row_def line_out_def)
qed

lemma color_row_none:
  assumes "doc e t" and "r < length t" and "cache lang opn cols n hc"
  shows "color_row e (int r) k False hc = Some (line_out lang k (t ! r), hc)"
  using highlight_row_eq [OF assms(1,2), of hc lang None k] assms(3)
  by (simp add: color_row_def canvas_fits_def painted_def store_row_def cache_def)

lemma color_row_some:
  assumes "doc e t" and "r < length t" and "cache lang opn cols n hc" and "r < length cols"
    and "row_buf cols r = Some a" and "length (t ! r) \<le> length a"
  obtains hc' cols' a' where "color_row e (int r) k True hc = Some (line_out lang k (t ! r), hc')"
    and "cache lang opn cols' n hc'" and "length cols' = length cols" and "row_buf cols' = (row_buf cols)(r := Some a')"
    and "shown lang k (t ! r) a'"
proof -
  let ?cs = "fst (highlight_ref lang k (t ! r))"
  let ?a = "map Some ?cs @ drop (length ?cs) a"
  have l: "length ?cs = length (t ! r)" by (rule highlight_ref_length)
  have row: "row_at (int r) hc = Some (Some a)" using cache_row_at [OF assms(3,4)] assms(4,5) by (simp add: row_buf_def)
  have h: "highlight_row e (int r) k (Some a) hc = Some (Some ?a, line_out lang k (t ! r))"
    using highlight_row_eq [OF assms(1,2), of hc lang "Some a" k] assms(3,6)
    by (simp add: canvas_fits_def painted_def cache_def)
  have o: "hc_rows hc = Some (map Some cols)" using assms(3,4) by (auto simp: cache_def holds_list_def)
  let ?hc = "hc\<lparr>hc_rows := Some (map Some (cols[r := Some ?a]))\<rparr>"
  have st: "store_row (int r) (Some ?a) hc = Some ?hc" by (simp add: store_row_def o awrite_map [OF assms(4)])
  have b: "buf_size (Some ?a) = buf_size (cols ! r)" using l assms(4-6) by (simp add: buf_size_def row_buf_def)
  have "map buf_size (cols[r := Some ?a]) = map buf_size cols"
    unfolding map_update b by (metis list_update_id map_update)
  then have "cache lang opn (cols[r := Some ?a]) n ?hc" using assms(3) by (simp add: cache_def holds_list_def)
  moreover have "row_buf (cols[r := Some ?a]) = (row_buf cols)(r := Some ?a)"
    using assms(4) by (auto simp: fun_eq_iff row_buf_update)
  moreover have "shown lang k (t ! r) ?a" using l assms(6) by (simp add: shown_def)
  moreover have "color_row e (int r) k True hc = Some (line_out lang k (t ! r), ?hc)"
    by (simp add: color_row_def row h st)
  ultimately show ?thesis using that by simp
qed

section \<open>The comment states from scratch\<close>

lemma open_loop_states:
  assumes "doc e t" and "cache lang opn cols n hc" and "length t \<le> length opn" and "r \<le> length t"
    and "\<forall>i < r. opn ! i = before lang t i"
  shows "\<exists>hc' opn'. open_loop e (int (length t)) (int r) (before lang t r) hc = Some hc' \<and> cache lang opn' cols n hc'
    \<and> length opn' = length opn \<and> (\<forall>i < length t. opn' ! i = before lang t i)"
  using assms(2-5)
proof (induction "length t - r" arbitrary: r opn hc)
  case 0
  then show ?case by (subst open_loop.simps) auto
next
  case (Suc m)
  then have r: "r < length t" by simp
  obtain hc1 where h1: "set_open (int r) (before lang t r) hc = Some hc1" "cache lang (opn[r := before lang t r]) cols n hc1"
    using cache_set_open [OF Suc.prems(1), of r] r Suc.prems(2) by auto
  have row: "highlight_row e (int r) (before lang t r) None hc1 = Some (None, before lang t (Suc r))"
    using highlight_row_eq [OF assms(1) r, of hc1 lang None] h1(2) r
    by (simp add: cache_def canvas_fits_def painted_def before_Suc)
  have "\<exists>hc' opn'. open_loop e (int (length t)) (int (Suc r)) (before lang t (Suc r)) hc1 = Some hc' \<and> cache lang opn' cols n hc'
    \<and> length opn' = length (opn[r := before lang t r]) \<and> (\<forall>i < length t. opn' ! i = before lang t i)"
    by (rule Suc.hyps(1) [OF _ h1(2)]) (use Suc.hyps(2) Suc.prems r in \<open>auto simp: nth_list_update less_Suc_eq\<close>)
  then show ?case using h1(1) row r by (subst open_loop.simps) (simp add: add.commute)
qed

lemma set_language_coherent:
  assumes "doc e t" and "cache lang0 opn cols n hc"
  obtains hc' opn' cols' where "highlight_cache_set_language e lang hc = Some hc'" and "cache lang opn' cols' 0 hc'"
    and "coherent lang t opn' cols'" and "\<And>i. row_buf cols' i = None"
proof -
  have "cache lang opn cols n (hc\<lparr>hc_lang := lang\<rparr>)" using assms(2) by (simp add: cache_def)
  then obtain hc1 where h1: "line_colors_cache_invalidate_all (hc\<lparr>hc_lang := lang\<rparr>) = Some hc1"
    "cache lang opn (replicate (length cols) None) 0 hc1" by (rule cache_invalidate)
  obtain hc2 k where h2: "block_comment_open_grow (int (length t) + 1) hc1 = Some (True, hc2)"
    "cache lang (opn @ replicate k False) (replicate (length cols) None) 0 hc2" "int (length t) + 1 \<le> int (length opn + k)"
    by (rule open_grow [OF h1(2)])
  have rc: "editor_get_row_count e = int (length t)" using doc_row_count [OF assms(1)] by (simp add: editor_get_row_count_def)
  obtain hc3 opn' where h3: "open_loop e (int (length t)) 0 False hc2 = Some hc3" "cache lang opn' (replicate (length cols) None) 0 hc3"
    "length opn' = length (opn @ replicate k False)" "\<forall>i < length t. opn' ! i = before lang t i"
    using open_loop_states [OF assms(1) h2(2), of 0] h2(3) by auto
  have none: "row_buf (replicate (length cols) None) i = None" for i by (simp add: row_buf_def)
  show ?thesis
  proof (rule that [OF _ h3(2) _ none])
    show "highlight_cache_set_language e lang hc = Some hc3"
      by (simp add: highlight_cache_set_language_def h1(1) rebuild_block_comment_open_full_def rc h2(1) h3(1))
    show "coherent lang t opn' (replicate (length cols) None)"
      using h3(3,4) h2(3) none by (simp add: coherent_def)
  qed
qed

section \<open>Reading a row\<close>

lemma cache_open_state:
  "cache lang opn cols n hc \<Longrightarrow> block_comment_open_at (int r) hc = Some (r < length opn \<and> opn ! r)"
  using cache_open_at(1) [of lang opn cols n hc r] by (cases "r < length opn") (simp_all add: block_comment_open_at_def cache_def)

text \<open>A row whose colours are kept gets these, any other one is coloured from its comment state.\<close>

lemma get_line_rows:
  assumes "doc e t" and "cache lang opn cols n hc" and "r < length t"
  obtains c hc' cols' where "highlight_cache_get_line e (int r) hc = Some (c, hc')" and "cache lang opn cols' n hc'"
    and "row_buf cols' = (row_buf cols)(r := c)" and "\<forall>a. row_buf cols r = Some a \<longrightarrow> c = Some a"
    and "row_buf cols r = None \<and> t ! r \<noteq> [] \<longrightarrow> (\<exists>a. c = Some a \<and> shown lang (r < length opn \<and> opn ! r) (t ! r) a)"
    and "row_buf cols r = None \<and> t ! r = [] \<longrightarrow> c = None"
proof -
  obtain hc1 k where h1: "line_colors_cache_grow (int r + 1) hc = Some (True, hc1)"
    "cache lang opn (cols @ replicate k None) n hc1" "int r + 1 \<le> int (length cols + k)" by (rule rows_grow [OF assms(2)])
  let ?cols = "cols @ replicate k None"
  have r: "r < length ?cols" using h1(3) by simp
  have row: "row_at (int r) hc1 = Some (row_buf cols r)" using cache_row_at [OF h1(2) r] r row_buf_grow [of cols k r] by (simp add: row_buf_def)
  obtain J where len: "editor_get_line_len e (int r) = Some (int (length (t ! r)))" by (rule doc_line [OF assms(1,3)])
  note gl = highlight_cache_get_line_def h1(1) Option.bind.bind_lunit
  show ?thesis
  proof (cases "row_buf cols r")
    case (Some a)
    have "highlight_cache_get_line e (int r) hc = Some (Some a, hc1)" using row Some unfolding gl by simp
    then show ?thesis by (rule that [OF _ h1(2)]) (use Some in auto)
  next
    case None
    show ?thesis
    proof (cases "t ! r = []")
      case True
      have "highlight_cache_get_line e (int r) hc = Some (None, hc1)"
        using row None len True unfolding gl by (simp add: ensure_row_cap_def)
      then show ?thesis by (rule that [OF _ h1(2)]) (use None True in auto)
    next
      case False
      obtain hc2 cols2 a where h2: "ensure_row_cap (int r) (int (length (t ! r))) hc1 = Some (True, hc2)" "cache lang opn cols2 n hc2"
        "r < length cols2" "row_buf cols2 = (row_buf ?cols)(r := Some a)" "length (t ! r) \<le> length a"
        using cache_ensure_row [OF h1(2), of "length (t ! r)" r] False by (metis length_greater_0_conv)
      have ra: "row_buf cols2 r = Some a" using h2(4) by simp
      obtain hc3 cols3 a' where h3: "color_row e (int r) (r < length opn \<and> opn ! r) True hc2 = Some (line_out lang (r < length opn \<and> opn ! r) (t ! r), hc3)"
        "cache lang opn cols3 n hc3" "length cols3 = length cols2" "row_buf cols3 = (row_buf cols2)(r := Some a')"
        "shown lang (r < length opn \<and> opn ! r) (t ! r) a'" by (rule color_row_some [OF assms(1,3) h2(2,3) ra h2(5)])
      have "row_at (int r) hc3 = Some (Some a')"
        using cache_row_at [OF h3(2), of r] h3(3,4) h2(3) by (simp add: row_buf_def fun_eq_iff) (metis option.distinct(1))
      then have "highlight_cache_get_line e (int r) hc = Some (Some a', hc3)"
        using row None len h2(1) cache_open_state [OF h2(2), of r] h3(1) unfolding gl by simp
      then show ?thesis by (rule that [OF _ h3(2)]) (use None False h3(4,5) h2(4) in auto)
    qed
  qed
qed

lemma get_line_coherent:
  assumes "doc e t" and "cache lang opn cols n hc" and "coherent lang t opn cols" and "r < length t"
  obtains c hc' cols' where "highlight_cache_get_line e (int r) hc = Some (c, hc')" and "cache lang opn cols' n hc'"
    and "coherent lang t opn cols'" and "t ! r \<noteq> [] \<Longrightarrow> c \<noteq> None" and "\<And>a. c = Some a \<Longrightarrow> shown lang (before lang t r) (t ! r) a"
proof -
  obtain c hc' cols' where g: "highlight_cache_get_line e (int r) hc = Some (c, hc')" "cache lang opn cols' n hc'"
    "row_buf cols' = (row_buf cols)(r := c)" "\<forall>a. row_buf cols r = Some a \<longrightarrow> c = Some a"
    "row_buf cols r = None \<and> t ! r \<noteq> [] \<longrightarrow> (\<exists>a. c = Some a \<and> shown lang (r < length opn \<and> opn ! r) (t ! r) a)"
    "row_buf cols r = None \<and> t ! r = [] \<longrightarrow> c = None"
    by (rule get_line_rows [OF assms(1,2,4)])
  have k: "(r < length opn \<and> opn ! r) = before lang t r" using assms(3,4) by (auto simp: coherent_def)
  have c: "shown lang (before lang t r) (t ! r) a" if "c = Some a" for a
    using that g(4-6) k assms(3,4) by (cases "row_buf cols r"; cases "t ! r = []") (auto simp: coherent_def)
  show ?thesis
  proof (rule that [OF g(1,2) _ _ c])
    show "coherent lang t opn cols'" using assms(3) c unfolding coherent_def g(3) by auto
    show "c \<noteq> None" if "t ! r \<noteq> []" using that g(4,5) by (cases "row_buf cols r") auto
  qed
qed

section \<open>Rebuilding from a row\<close>

lemma shown_Nil: "shown lang k [] a"
  using highlight_ref_length [of lang k "[]"] by (simp add: shown_def)

lemma recolor_row:
  assumes "doc e t" and "cache lang opn cols n hc" and "r < length t"
  obtains len has_dst hc1 hc2 cols' where "editor_get_line_len e (int r) = Some len"
    and "ensure_row_cap (int r) len hc = Some (has_dst, hc1)"
    and "color_row e (int r) k has_dst hc1 = Some (line_out lang k (t ! r), hc2)" and "cache lang opn cols' n hc2"
    and "\<And>i. i \<noteq> r \<Longrightarrow> row_buf cols' i = row_buf cols i" and "\<And>a. row_buf cols' r = Some a \<Longrightarrow> shown lang k (t ! r) a"
proof -
  obtain J where len: "editor_get_line_len e (int r) = Some (int (length (t ! r)))" by (rule doc_line [OF assms(1,3)])
  show ?thesis
  proof (cases "t ! r = []")
    case True
    have "ensure_row_cap (int r) (int (length (t ! r))) hc = Some (False, hc)" using True by (simp add: ensure_row_cap_def)
    from that [OF len this color_row_none [OF assms(1,3,2)] assms(2)] show ?thesis using True by (simp add: shown_Nil)
  next
    case False
    obtain hc1 cols1 a where h1: "ensure_row_cap (int r) (int (length (t ! r))) hc = Some (True, hc1)" "cache lang opn cols1 n hc1"
      "r < length cols1" "row_buf cols1 = (row_buf cols)(r := Some a)" "length (t ! r) \<le> length a"
      using cache_ensure_row [OF assms(2), of "length (t ! r)" r] False by (metis length_greater_0_conv)
    have ra: "row_buf cols1 r = Some a" using h1(4) by simp
    obtain hc2 cols2 a' where h2: "color_row e (int r) k True hc1 = Some (line_out lang k (t ! r), hc2)" "cache lang opn cols2 n hc2"
      "length cols2 = length cols1" "row_buf cols2 = (row_buf cols1)(r := Some a')" "shown lang k (t ! r) a'"
      by (rule color_row_some [OF assms(1,3) h1(2,3) ra h1(5)])
    show ?thesis by (rule that [OF len h1(1) h2(1,2)]) (use h1(4) h2(4,5) in auto)
  qed
qed

text \<open>
  Between two rounds at row \<open>r\<close>: everything is right up to \<open>r\<close>, and after it the states and the
  colours still fit each other.
\<close>

definition resuming :: "SyntaxLanguage \<Rightarrow> string list \<Rightarrow> bool list \<Rightarrow> canvas list \<Rightarrow> nat \<Rightarrow> bool" where
  "resuming lang t opn cols r \<longleftrightarrow> length t < length opn \<and> (\<forall>i \<le> r. i < length t \<longrightarrow> opn ! i = before lang t i)
     \<and> (\<forall>i < r. i < length t \<longrightarrow> (\<forall>a. row_buf cols i = Some a \<longrightarrow> shown lang (before lang t i) (t ! i) a))
     \<and> (\<forall>i > r. Suc i < length t \<longrightarrow> opn ! Suc i = line_out lang (opn ! i) (t ! i))
     \<and> (\<forall>i > r. i < length t \<longrightarrow> (\<forall>a. row_buf cols i = Some a \<longrightarrow> shown lang (opn ! i) (t ! i) a))"

text \<open>The early stop: when the next row's state is what it was, the rest is right.\<close>

lemma resuming_stop:
  assumes "resuming lang t opn cols r" and "\<And>a. row_buf cols r = Some a \<Longrightarrow> shown lang (before lang t r) (t ! r) a"
    and "Suc r < length t \<Longrightarrow> opn ! Suc r = before lang t (Suc r)"
  shows "coherent lang t opn cols"
proof -
  have st: "opn ! i = before lang t i" if "i < length t" for i
    using that
  proof (induction i)
    case 0
    then show ?case using assms(1) by (simp add: resuming_def)
  next
    case (Suc i)
    consider "Suc i \<le> r" | "i = r" | "r < i" by linarith
    then show ?case
    proof cases
      case 3
      then have "opn ! Suc i = line_out lang (opn ! i) (t ! i)" using assms(1) Suc.prems by (simp add: resuming_def)
      then show ?thesis using Suc by (simp add: before_Suc)
    qed (use assms(1,3) Suc.prems in \<open>auto simp: resuming_def\<close>)
  qed
  moreover have "shown lang (before lang t i) (t ! i) a" if "i < length t" "row_buf cols i = Some a" for i a
  proof -
    consider "i < r" | "i = r" | "r < i" by linarith
    then show ?thesis
    proof cases
      case 3
      then have "shown lang (opn ! i) (t ! i) a" using assms(1) that by (simp add: resuming_def)
      then show ?thesis using st [OF that(1)] by simp
    qed (use assms(1,2) that in \<open>auto simp: resuming_def\<close>)
  qed
  ultimately show ?thesis using assms(1) by (simp add: coherent_def resuming_def)
qed

lemma rebuild_loop_coherent:
  assumes "doc e t" and "cache lang opn cols n hc" and "resuming lang t opn cols r" and "r < length t"
  shows "\<exists>hc' opn' cols'. rebuild_loop e (int (length t)) (int r) (before lang t r) hc = Some hc'
    \<and> cache lang opn' cols' n hc' \<and> coherent lang t opn' cols'"
  using assms(2-4)
proof (induction "length t - r" arbitrary: r opn cols hc rule: less_induct)
  case less
  let ?k = "before lang t r" and ?out = "line_out lang (before lang t r) (t ! r)"
  obtain len has_dst hc1 hc2 cols2 where h: "editor_get_line_len e (int r) = Some len"
    "ensure_row_cap (int r) len hc = Some (has_dst, hc1)"
    "color_row e (int r) ?k has_dst hc1 = Some (?out, hc2)" "cache lang opn cols2 n hc2"
    "\<And>i. i \<noteq> r \<Longrightarrow> row_buf cols2 i = row_buf cols i" "\<And>a. row_buf cols2 r = Some a \<Longrightarrow> shown lang ?k (t ! r) a"
    using recolor_row [OF assms(1) less.prems(1,3), of ?k] by metis
  have o: "Suc r < length opn" using less.prems(2,3) by (simp add: resuming_def)
  have res: "resuming lang t opn cols2 r" using less.prems(2) h(5) by (auto simp: resuming_def)
  have cap: "hc_open_cap hc2 = int (length opn)" using h(4) by (simp add: cache_def)
  have a: "aread (map Some opn) (int r + 1) = Some (opn ! Suc r)" using aread_map [OF o] by (simp add: add.commute)
  note opened = cache_open_at(2) [OF h(4) o]
  have sr: "int (Suc r) = int r + 1" by simp
  show ?case
  proof (cases "opn ! Suc r = ?out")
    case True
    have "rebuild_loop e (int (length t)) (int r) ?k hc = Some hc2"
      using h(1-3) o less.prems(3) True by (subst rebuild_loop.simps) (simp add: cap opened a)
    moreover have "coherent lang t opn cols2"
      by (rule resuming_stop [OF res h(6)]) (use True less.prems(3) in \<open>simp_all add: before_Suc\<close>)
    ultimately show ?thesis using h(4) by blast
  next
    case False
    obtain hc3 where h3: "highlight_cache_free_row (int (Suc r)) hc2 = Some hc3" "cache lang opn (cols2[Suc r := None]) n hc3"
      by (rule cache_free_row [OF h(4)])
    obtain hc4 where h4: "set_open (int (Suc r)) ?out hc3 = Some hc4" "cache lang (opn[Suc r := ?out]) (cols2[Suc r := None]) n hc4"
      by (rule cache_set_open [OF h3(2) o])
    have step: "rebuild_loop e (int (length t)) (int r) ?k hc = rebuild_loop e (int (length t)) (int (Suc r)) ?out hc4"
      using h(1-3) o less.prems(3) False h3(1) h4(1) unfolding sr
      by (subst rebuild_loop.simps) (simp add: cap opened a)
    let ?opn = "opn[Suc r := ?out]" and ?cols = "cols2[Suc r := None]"
    have st: "?opn ! i = before lang t i" if "i \<le> Suc r" "i < length t" for i
      using that res less.prems(3) o by (cases "i = Suc r") (auto simp: resuming_def before_Suc)
    have res': "resuming lang t ?opn ?cols (Suc r)"
      using res st h(6) less.prems(3) unfolding resuming_def by (auto simp: row_buf_free less_Suc_eq split: if_splits)
    show ?thesis
    proof (cases "Suc r < length t")
      case True
      have e: "?out = before lang t (Suc r)" using less.prems(3) by (simp add: before_Suc)
      show ?thesis unfolding step e
        by (rule less.hyps [OF _ h4(2) [unfolded e] res' [unfolded e] True]) (use True in simp)
    next
      case False
      then have l: "length t = Suc r" using less.prems(3) by simp
      have "rebuild_loop e (int (length t)) (int (Suc r)) ?out hc4 = Some hc4" unfolding l by (subst rebuild_loop.simps) simp
      moreover have "coherent lang t ?opn ?cols"
        using st res' l by (auto simp: coherent_def resuming_def)
      ultimately show ?thesis using h4(2) step by auto
    qed
  qed
qed

lemma rebuild_from_coherent:
  assumes "doc e (t[r := s])" and "cache lang opn cols n hc" and "coherent lang t opn cols" and "r < length t"
  obtains hc' opn' cols' where "highlight_cache_rebuild_from e (int r) hc = Some hc'" and "cache lang opn' cols' n hc'"
    and "coherent lang (t[r := s]) opn' cols'"
proof -
  let ?t = "t[r := s]"
  obtain hc1 k where h1: "block_comment_open_grow (int (length t) + 1) hc = Some (True, hc1)"
    "cache lang (opn @ replicate k False) cols n hc1" "int (length t) + 1 \<le> int (length opn + k)" by (rule open_grow [OF assms(2)])
  let ?opn = "opn @ replicate k False"
  have c: "length t \<le> length opn" "\<And>i. i < length t \<Longrightarrow> opn ! i = before lang t i"
    "\<And>i a. i < length t \<Longrightarrow> row_buf cols i = Some a \<Longrightarrow> shown lang (before lang t i) (t ! i) a"
    using assms(3) by (auto simp: coherent_def)
  have o: "?opn ! i = before lang t i" if "i < length t" for i using c(1,2) that by (simp add: nth_append)
  have b: "before lang ?t i = before lang t i" if "i \<le> r" for i by (rule before_cong) (use that in simp)
  have res: "resuming lang ?t ?opn cols r"
    unfolding resuming_def
  proof (intro conjI allI impI)
    show "length ?t < length ?opn" using h1(3) by simp
    show "?opn ! i = before lang ?t i" if "i \<le> r" "i < length ?t" for i using o b that by simp
    show "shown lang (before lang ?t i) (?t ! i) a" if "i < r" "i < length ?t" "row_buf cols i = Some a" for i a
      using c(3) b that by simp
    show "?opn ! Suc i = line_out lang (?opn ! i) (?t ! i)" if "r < i" "Suc i < length ?t" for i
      using o [of i] o [of "Suc i"] that by (simp add: before_Suc)
    show "shown lang (?opn ! i) (?t ! i) a" if "r < i" "i < length ?t" "row_buf cols i = Some a" for i a
      using o [of i] c(3) that by simp
  qed
  have r: "r < length ?t" using assms(4) by simp
  obtain hc2 opn' cols' where h2: "rebuild_loop e (int (length ?t)) (int r) (before lang ?t r) hc1 = Some hc2"
    "cache lang opn' cols' n hc2" "coherent lang ?t opn' cols'"
    using rebuild_loop_coherent [OF assms(1) h1(2) res r] by blast
  have ro: "r < length ?opn" using h1(3) assms(4) by simp
  have "aread (map Some ?opn) (int r) = Some (before lang ?t r)"
    using aread_map [OF ro] o [OF assms(4)] b [of r] by simp
  moreover have "editor_get_row_count e = int (length t)" using doc_row_count [OF assms(1)] by (simp add: editor_get_row_count_def)
  ultimately have "highlight_cache_rebuild_from e (int r) hc = Some hc2"
    using h1(1) h2(1) assms(4) cache_open_at(2) [OF h1(2) ro]
    unfolding highlight_cache_rebuild_from_def by (simp add: Let_def del: map_append)
  then show ?thesis using that h2(2,3) by blast
qed

section \<open>Rows inserted and removed\<close>

lemma blit_map: "blit (map f a) d (map f b) s n = map_option (map f) (blit a d b s n)"
  by (simp add: blit_def in_range_def take_map drop_map)

lemma nth_blit_nat:
  assumes "d + n \<le> length a" and "s + n \<le> length a" and "i < length a"
  shows "(take d a @ take n (drop s a) @ drop (d + n) a) ! i = (if d \<le> i \<and> i < d + n then a ! (i - d + s) else a ! i)"
  using assms by (auto simp: nth_append add.commute)

lemma cache_shift_rows:
  assumes "cache lang opn cols n hc" and "d + m \<le> length cols" and "s + m \<le> length cols" and "0 < m"
  obtains hc' cols' where "shift_rows (int d) (int s) (int m) hc = Some hc'" and "cache lang opn cols' n hc'"
    and "length cols' = length cols"
    and "\<And>i. row_buf cols' i = (if d \<le> i \<and> i < d + m then row_buf cols (i - d + s) else row_buf cols i)"
proof -
  let ?cols = "take d cols @ take m (drop s cols) @ drop (d + m) cols"
  have l: "length ?cols = length cols" using assms(2,3) by simp
  have b: "blit (map Some xs) (int d) (map Some xs) (int s) (int m) = Some (map Some (take d xs @ take m (drop s xs) @ drop (d + m) xs))"
    if "length xs = length cols" for xs :: "'a list"
    using that assms(2,3) unfolding blit_map blit_def in_range_def by (simp add: nat_int_add take_map drop_map)
  have o: "hc_rows hc = Some (map Some cols)" "hc_caps hc = Some (map Some (map buf_size cols))"
    using assms(1,2,4) by (auto simp: cache_def holds_list_def)
  have caps: "take d (map buf_size cols) @ take m (drop s (map buf_size cols)) @ drop (d + m) (map buf_size cols) = map buf_size ?cols"
    by (simp add: take_map drop_map)
  let ?hc = "hc\<lparr>hc_rows := Some (map Some ?cols), hc_caps := Some (map Some (map buf_size ?cols))\<rparr>"
  have "shift_rows (int d) (int s) (int m) hc = Some ?hc"
    using assms(4) b [of cols] b [of "map buf_size cols"] unfolding shift_rows_def o caps by (simp del: map_append map_map)
  moreover have "cache lang opn ?cols n ?hc" using assms(1) l by (simp add: cache_def holds_list_def)
  moreover have "row_buf ?cols i = (if d \<le> i \<and> i < d + m then row_buf cols (i - d + s) else row_buf cols i)" for i
  proof (cases "i < length cols")
    case True
    then show ?thesis unfolding row_buf_def l using nth_blit_nat [OF assms(2,3) True] assms(2,3) by auto
  next
    case False
    then show ?thesis using assms(2) unfolding row_buf_def l by simp
  qed
  ultimately show ?thesis using that l by blast
qed

lemma sync_insert:
  assumes "cache lang opn cols (int n) hc" and "0 < c" and "c \<le> n" and "0 < n"
  obtains hc' cols' where "highlight_cache_sync (int n + 1) (int c) hc = Some hc'" and "cache lang opn cols' (int n + 1) hc'"
    and "\<And>i. i \<le> n \<Longrightarrow> row_buf cols' i = (if i < c - 1 then row_buf cols i else if i \<le> c then None else row_buf cols (i - 1))"
proof -
  obtain hc1 k where h1: "line_colors_cache_grow (int n + 1) hc = Some (True, hc1)"
    "cache lang opn (cols @ replicate k None) (int n) hc1" "int n + 1 \<le> int (length cols + k)" by (rule rows_grow [OF assms(1)])
  let ?cols = "cols @ replicate k None"
  have l: "n + 1 \<le> length ?cols" using h1(3) by simp
  obtain hc2 cols2 where h2: "shift_rows (int c + 1) (int c) (int n - int c) hc1 = Some hc2" "cache lang opn cols2 (int n) hc2"
    "length cols2 = length ?cols"
    "\<And>i. row_buf cols2 i = (if c + 1 \<le> i \<and> i < n + 1 then row_buf ?cols (i - 1) else row_buf ?cols i)"
  proof (cases "c = n")
    case True
    show ?thesis by (rule that [OF _ h1(2)]) (use True in \<open>auto simp: shift_rows_def\<close>)
  next
    case False
    then have m: "0 < n - c" "c + 1 + (n - c) \<le> length ?cols" "c + (n - c) \<le> length ?cols" using assms(3) l by simp_all
    obtain hc2 cols2 where h: "shift_rows (int (c + 1)) (int c) (int (n - c)) hc1 = Some hc2" "cache lang opn cols2 (int n) hc2"
      "length cols2 = length ?cols"
      "\<And>i. row_buf cols2 i = (if c + 1 \<le> i \<and> i < c + 1 + (n - c) then row_buf ?cols (i - (c + 1) + c) else row_buf ?cols i)"
      using cache_shift_rows [OF h1(2) m(2,3,1)] by metis
    have rb: "row_buf cols2 i = (if c + 1 \<le> i \<and> i < n + 1 then row_buf ?cols (i - 1) else row_buf ?cols i)" for i
      using h(4) [of i] assms(3) by auto
    show ?thesis by (rule that [OF _ h(2,3) rb]) (use h(1) assms(3) in \<open>simp add: of_nat_diff add.commute\<close>)
  qed
  obtain hc3 where h3: "highlight_cache_free_row (int (c - 1)) hc2 = Some hc3" "cache lang opn (cols2[c - 1 := None]) (int n) hc3"
    by (rule cache_free_row [OF h2(2)])
  obtain hc4 where h4: "set_row (int c) None 0 hc3 = Some hc4" "cache lang opn (cols2[c - 1 := None, c := None]) (int n) hc4"
    by (rule cache_set_row [OF h3(2), of c 0 None]) (use l assms(3) h2(3) in \<open>simp_all add: buf_size_def\<close>)
  have c: "int (c - 1) = int c - 1" using assms(2) by simp
  have last: "hc_last hc = int n" using assms(1) by (simp add: cache_def)
  have "highlight_cache_sync (int n + 1) (int c) hc = Some (hc4\<lparr>hc_last := int n + 1\<rparr>)"
    using assms(2,4) h1(1) h2(1) h3(1) h4(1) unfolding highlight_cache_sync_def last c
    by (simp add: Let_def add.commute)
  moreover have "cache lang opn (cols2[c - 1 := None, c := None]) (int n + 1) (hc4\<lparr>hc_last := int n + 1\<rparr>)"
    using h4(2) by (simp add: cache_def)
  moreover have "row_buf (cols2[c - 1 := None, c := None]) i
      = (if i < c - 1 then row_buf cols i else if i \<le> c then None else row_buf cols (i - 1))" if "i \<le> n" for i
    using that h2(4) [of i] assms(2) unfolding row_buf_free by auto
  ultimately show ?thesis using that by blast
qed

lemma sync_delete:
  assumes "cache lang opn cols (int n) hc" and "c + 1 < n"
  obtains hc' cols' where "highlight_cache_sync (int n - 1) (int c) hc = Some hc'" and "cache lang opn cols' (int n - 1) hc'"
    and "\<And>i. i + 1 < n \<Longrightarrow> row_buf cols' i = (if i < c then row_buf cols i else if i = c then None else row_buf cols (i + 1))"
proof -
  have last: "hc_last hc = int n" and count: "hc_count hc = int (length cols)" using assms(1) by (simp_all add: cache_def)
  define eff where "eff = min n (length cols)"
  have eff: "(if int n < int (length cols) then int n else int (length cols)) = int eff" by (simp add: eff_def)
  have el: "eff \<le> length cols" by (simp add: eff_def)
  have beyond: "row_buf cols i = None" if "eff \<le> i" "i < n" for i using that by (auto simp: eff_def row_buf_def)
  show ?thesis
  proof (cases "c < eff")
    case False
    have "highlight_cache_sync (int n - 1) (int c) hc = Some (hc\<lparr>hc_last := int n - 1\<rparr>)"
      using False assms(2) unfolding highlight_cache_sync_def last count Let_def eff by simp
    moreover have "cache lang opn cols (int n - 1) (hc\<lparr>hc_last := int n - 1\<rparr>)" using assms(1) by (simp add: cache_def)
    moreover have "row_buf cols i = (if i < c then row_buf cols i else if i = c then None else row_buf cols (i + 1))" if "i + 1 < n" for i
      using that False beyond [of i] beyond [of "i + 1"] by auto
    ultimately show ?thesis using that by blast
  next
    case True
    obtain hc1 where h1: "highlight_cache_free_row (int c) hc = Some hc1" "cache lang opn (cols[c := None]) (int n) hc1"
      by (rule cache_free_row [OF assms(1)])
    obtain hc2 where h2: "highlight_cache_free_row (int (c + 1)) hc1 = Some hc2" "cache lang opn (cols[c := None, c + 1 := None]) (int n) hc2"
      by (rule cache_free_row [OF h1(2)])
    let ?cols = "cols[c := None, c + 1 := None]"
    obtain hc3 cols3 where h3: "shift_rows (int c + 1) (int c + 2) (int eff - int c - 2) hc2 = Some hc3" "cache lang opn cols3 (int n) hc3"
      "length cols3 = length cols"
      "\<And>i. row_buf cols3 i = (if c + 1 \<le> i \<and> i + 1 < eff then row_buf ?cols (i + 1) else row_buf ?cols i)"
    proof (cases "c + 2 < eff")
      case False
      show ?thesis by (rule that [OF _ h2(2)]) (use False in \<open>auto simp: shift_rows_def\<close>)
    next
      case True
      then have m: "0 < eff - c - 2" "c + 1 + (eff - c - 2) \<le> length ?cols" "c + 2 + (eff - c - 2) \<le> length ?cols"
        using el by simp_all
      obtain hc3 cols3 where h: "shift_rows (int (c + 1)) (int (c + 2)) (int (eff - c - 2)) hc2 = Some hc3" "cache lang opn cols3 (int n) hc3"
        "length cols3 = length ?cols"
        "\<And>i. row_buf cols3 i = (if c + 1 \<le> i \<and> i < c + 1 + (eff - c - 2) then row_buf ?cols (i - (c + 1) + (c + 2)) else row_buf ?cols i)"
        using cache_shift_rows [OF h2(2) m(2,3,1)] by metis
      have rb: "row_buf cols3 i = (if c + 1 \<le> i \<and> i + 1 < eff then row_buf ?cols (i + 1) else row_buf ?cols i)" for i
        using h(4) [of i] True by (auto simp: Suc_diff_Suc)
      have e: "int (c + 1) = int c + 1" "int (c + 2) = int c + 2" "int (eff - c - 2) = int eff - int c - 2" using True by auto
      show ?thesis by (rule that [OF h(1) [unfolded e] h(2) _ rb]) (use h(3) in simp)
    qed
    have v: "eff - 1 < length cols3" "int (eff - 1) = int eff - 1" using True h3(3) by (auto simp: eff_def)
    obtain hc4 where h4: "set_row (int (eff - 1)) None 0 hc3 = Some hc4" "cache lang opn (cols3[eff - 1 := None]) (int n) hc4"
      by (rule cache_set_row [OF h3(2) v(1), of 0 None]) (simp_all add: buf_size_def)
    have counts: "hc_count hc3 = int (length cols)" using h3(2,3) by (simp add: cache_def)
    have ci: "int c < int eff" "int (c + 1) = int c + 1" using True by simp_all
    have g: "0 \<le> int eff - 1 \<and> int eff - 1 < int (length cols)" using True el by simp
    have "highlight_cache_sync (int n - 1) (int c) hc = Some (hc4\<lparr>hc_last := int n - 1\<rparr>)"
      using assms(2) ci(1) h1(1) h2(1) [unfolded ci(2)] h3(1) h4(1) [unfolded v(2)] g
      unfolding highlight_cache_sync_def last count Let_def eff by (simp add: counts)
    moreover have "cache lang opn (cols3[eff - 1 := None]) (int n - 1) (hc4\<lparr>hc_last := int n - 1\<rparr>)" using h4(2) by (simp add: cache_def)
    moreover have "row_buf (cols3[eff - 1 := None]) i = (if i < c then row_buf cols i else if i = c then None else row_buf cols (i + 1))"
      if "i + 1 < n" for i
      using that h3(4) [of i] True beyond [of i] beyond [of "i + 1"] unfolding row_buf_free by auto
    ultimately show ?thesis using that by blast
  qed
qed

section \<open>Properties\<close>

definition highlighted :: "SyntaxLanguage \<Rightarrow> string list \<Rightarrow> highlight_cache \<Rightarrow> bool" where
  "highlighted lang t hc \<longleftrightarrow> (\<exists>opn cols n. cache lang opn cols n hc \<and> coherent lang t opn cols)"

definition cache_ok :: "highlight_cache \<Rightarrow> bool" where
  "cache_ok hc \<longleftrightarrow> (\<exists>lang opn cols n. cache lang opn cols n hc)"

text \<open>Choosing a language, as after opening or saving a file, makes the cache right for the whole text,
  whatever it held: the comment state of every row is recomputed and no old colours remain.\<close>

theorem set_language_highlights:
  assumes "doc e t" and "cache_ok hc"
  shows "\<exists>hc'. highlight_cache_set_language e lang hc = Some hc' \<and> highlighted lang t hc'"
  using assms(2) unfolding cache_ok_def highlighted_def by (metis set_language_coherent [OF assms(1)])

text \<open>C21: The incremental update is as good as the full one: if the cache is right for a text and one row
  changes, recolouring from that row on, which stops at the first row whose comment state is what it
  was, makes it right for the new text.\<close>

theorem rebuild_from_highlights:
  assumes "doc e (t[r := s])" and "highlighted lang t hc" and "r < length t"
  shows "\<exists>hc'. highlight_cache_rebuild_from e (int r) hc = Some hc' \<and> highlighted lang (t[r := s]) hc'"
  using assms(2) unfolding highlighted_def by (metis rebuild_from_coherent [OF assms(1) _ _ assms(3)])

text \<open>C37: The colours the cache hands out for a row are the tokeniser's for that row, started in the comment
  state the rows above leave, and handing them out keeps the cache right.\<close>

theorem cached_colours_right:
  assumes "doc e t" and "highlighted lang t hc" and "r < length t"
  shows "\<exists>c hc'. highlight_cache_get_line e (int r) hc = Some (c, hc') \<and> highlighted lang t hc'
    \<and> (t ! r \<noteq> [] \<longrightarrow> (\<exists>a. c = Some a \<and> take (length (t ! r)) a
          = map Some (fst (highlight_ref lang (foldl (\<lambda>k s. snd (highlight_ref lang k s)) False (take r t)) (t ! r)))))"
proof -
  obtain opn cols n where h: "cache lang opn cols n hc" "coherent lang t opn cols" using assms(2) by (auto simp: highlighted_def)
  have b: "before lang t r = foldl (\<lambda>k s. snd (highlight_ref lang k s)) False (take r t)"
    unfolding before_def line_out_def ..
  obtain c hc' cols' where g: "highlight_cache_get_line e (int r) hc = Some (c, hc')" "cache lang opn cols' n hc'"
    "coherent lang t opn cols'" "t ! r \<noteq> [] \<Longrightarrow> c \<noteq> None" "\<And>a. c = Some a \<Longrightarrow> shown lang (before lang t r) (t ! r) a"
    using get_line_coherent [OF assms(1) h assms(3)] by metis
  have hl: "highlighted lang t hc'" using g(2,3) unfolding highlighted_def by blast
  show ?thesis unfolding b [symmetric]
  proof (intro exI conjI impI)
    assume "t ! r \<noteq> []"
    then obtain a where "c = Some a" using g(4) by blast
    then show "c = Some (the c)" "take (length (t ! r)) (the c) = map Some (fst (highlight_ref lang (before lang t r) (t ! r)))"
      using g(5) [of a] by (simp_all add: shown_def)
  qed (rule g(1), rule hl)
qed

text \<open>When one row is inserted or removed the colours follow their rows: after a line break the rows
  above keep theirs, the two halves have none, and the rows below have theirs one row further down;
  after a join the merged row has none and the rows below move up.\<close>

theorem colours_follow_rows:
  assumes "cache lang opn cols (int n) hc"
  shows "(0 < c \<and> c \<le> n \<longrightarrow> (\<exists>hc' cols'. highlight_cache_sync (int n + 1) (int c) hc = Some hc' \<and> cache lang opn cols' (int n + 1) hc'
      \<and> (\<forall>i \<le> n. row_buf cols' i = (if i < c - 1 then row_buf cols i else if i \<le> c then None else row_buf cols (i - 1)))))
    \<and> (c + 1 < n \<longrightarrow> (\<exists>hc' cols'. highlight_cache_sync (int n - 1) (int c) hc = Some hc' \<and> cache lang opn cols' (int n - 1) hc'
      \<and> (\<forall>i. i + 1 < n \<longrightarrow> row_buf cols' i = (if i < c then row_buf cols i else if i = c then None else row_buf cols (i + 1)))))"
proof (intro conjI impI)
  assume c: "0 < c \<and> c \<le> n"
  then have "0 < c" "c \<le> n" "0 < n" by simp_all
  from sync_insert [OF assms this]
  show "\<exists>hc' cols'. highlight_cache_sync (int n + 1) (int c) hc = Some hc' \<and> cache lang opn cols' (int n + 1) hc'
      \<and> (\<forall>i \<le> n. row_buf cols' i = (if i < c - 1 then row_buf cols i else if i \<le> c then None else row_buf cols (i - 1)))"
    by blast
next
  assume "c + 1 < n"
  from sync_delete [OF assms this]
  show "\<exists>hc' cols'. highlight_cache_sync (int n - 1) (int c) hc = Some hc' \<and> cache lang opn cols' (int n - 1) hc'
      \<and> (\<forall>i. i + 1 < n \<longrightarrow> row_buf cols' i = (if i < c then row_buf cols i else if i = c then None else row_buf cols (i + 1)))"
    by blast
qed

section \<open>Witnesses\<close>

text \<open>An editor with two rows, the first opening a comment, and a cache with given comment states.\<close>

definition two_rows :: editor where
  "two_rows = (editor0 [])\<lparr>lines := Some [Some \<lparr>ln_buf = Some (map Some ''x /*'' @ [Some NUL]), ln_len = 4, ln_cap = 5\<rparr>,
       Some \<lparr>ln_buf = Some (map Some ''if'' @ [Some NUL]), ln_len = 2, ln_cap = 3\<rparr>], row_cap := 2, row_count := 2\<rparr>"

definition cache_of :: "bool list \<Rightarrow> highlight_cache" where
  "cache_of opn = highlight_cache0\<lparr>hc_lang := SYNTAX_LANG_C, hc_open := Some (map Some opn), hc_open_cap := int (length opn)\<rparr>"

lemma doc_two_rows: "doc two_rows [''x /*'', ''if'']"
  unfolding doc_def rows_def
  by (rule exI [of _ "[\<lparr>ln_buf = Some (map Some ''x /*'' @ [Some NUL]), ln_len = 4, ln_cap = 5\<rparr>,
       \<lparr>ln_buf = Some (map Some ''if'' @ [Some NUL]), ln_len = 2, ln_cap = 3\<rparr>]"])
    (simp add: two_rows_def line_rep_def)

lemma highlighted_cache_of:
  assumes "length opn = length t" and "\<forall>r < length t. opn ! r = before SYNTAX_LANG_C t r"
  shows "highlighted SYNTAX_LANG_C t (cache_of opn)"
proof -
  have "cache SYNTAX_LANG_C opn [] 0 (cache_of opn)"
    by (simp add: cache_def cache_of_def highlight_cache0_def holds_list_def)
  moreover have "coherent SYNTAX_LANG_C t opn []" using assms by (simp add: coherent_def row_buf_def)
  ultimately show ?thesis unfolding highlighted_def by blast
qed

lemma line_out_C: "line_out SYNTAX_LANG_C k s = comment_after (if k then Comment else Code) s"
  by (simp add: line_out_def highlight_ref_def highlight_comment)

theorem set_language_highlights_witness:
  "\<exists>hc'. highlight_cache_set_language two_rows SYNTAX_LANG_C highlight_cache0 = Some hc'
     \<and> highlighted SYNTAX_LANG_C [''x /*'', ''if''] hc'"
  by (rule set_language_highlights [OF doc_two_rows]) (use cache0 in \<open>unfold cache_ok_def, blast\<close>)

theorem rebuild_from_highlights_witness:
  "\<exists>hc'. highlight_cache_rebuild_from two_rows 0 (cache_of [False, False]) = Some hc'
     \<and> highlighted SYNTAX_LANG_C [''x /*'', ''if''] hc'"
proof -
  have "highlighted SYNTAX_LANG_C [''x'', ''if''] (cache_of [False, False])"
    by (rule highlighted_cache_of) (simp_all add: less_Suc_eq All_less_Suc before_Suc line_out_C)
  from rebuild_from_highlights [where e = two_rows and t = "[''x'', ''if'']" and r = 0 and s = "''x /*''", OF _ this]
  show ?thesis by (simp add: doc_two_rows)
qed

theorem cached_colours_right_witness:
  "\<exists>a hc'. highlight_cache_get_line two_rows 1 (cache_of [False, True]) = Some (Some a, hc')
     \<and> take 2 a = [Some SYNTAX_COLOR_COMMENT, Some SYNTAX_COLOR_COMMENT]"
proof -
  have h: "highlighted SYNTAX_LANG_C [''x /*'', ''if''] (cache_of [False, True])"
    by (rule highlighted_cache_of) (simp_all add: less_Suc_eq All_less_Suc before_Suc line_out_C)
  have f: "foldl (\<lambda>k s. snd (highlight_ref SYNTAX_LANG_C k s)) False [''x /*''] = True"
    by (simp add: highlight_ref_def highlight_comment)
  have c: "fst (highlight_ref SYNTAX_LANG_C True ''if'') = [SYNTAX_COLOR_COMMENT, SYNTAX_COLOR_COMMENT]"
    by (simp add: highlight_ref_def highlight.simps token_def)
  from cached_colours_right [OF doc_two_rows h, where r = 1] f c show ?thesis by (auto simp: numeral_2_eq_2)
qed

theorem colours_follow_rows_witness:
  "\<exists>hc' cols'. highlight_cache_sync 3 1 ((cache_of [])\<lparr>hc_rows := Some [Some (Some []), Some (Some [])],
       hc_caps := Some [Some 0, Some 0], hc_count := 2, hc_last := 2\<rparr>) = Some hc'
     \<and> cache SYNTAX_LANG_C [] cols' 3 hc' \<and> row_buf cols' 0 = None \<and> row_buf cols' 1 = None \<and> row_buf cols' 2 = Some []"
proof -
  let ?hc = "(cache_of [])\<lparr>hc_rows := Some [Some (Some []), Some (Some [])],
       hc_caps := Some [Some 0, Some 0], hc_count := 2, hc_last := 2\<rparr>"
  have "cache SYNTAX_LANG_C [] [Some [], Some []] (int 2) ?hc"
    by (simp add: cache_def cache_of_def highlight_cache0_def holds_list_def buf_size_def)
  from colours_follow_rows [OF this, of 1]
  obtain hc' cols' where "highlight_cache_sync 3 1 ?hc = Some hc'" "cache SYNTAX_LANG_C [] cols' 3 hc'"
    "\<forall>i \<le> 2. row_buf cols' i = (if i < 1 - 1 then row_buf [Some [], Some []] i else if i \<le> 1 then None else row_buf [Some [], Some []] (i - 1))"
    by auto
  moreover from this(3) have "row_buf cols' 0 = None" "row_buf cols' 1 = None" "row_buf cols' 2 = Some []"
    by (auto dest: spec [of _ 0] spec [of _ 1] spec [of _ 2] simp: row_buf_def [of "[Some [], Some []]"])
  ultimately show ?thesis by blast
qed

end
