(* ===== verification/FileTree.thy ===== *)
theory FileTree
  imports Prelude "HOL-Library.Multiset"
begin

text \<open>
  \<open>model/filetree/filetree.c\<close>: the panel that lists a directory. The directory itself is not part of the
  program: it is the record \<open>dirs\<close>, a parameter, with what \<open>opendir\<close> and \<open>readdir\<close>, \<open>stat\<close>, \<open>getcwd\<close> and
  \<open>strerror\<close> give. The character arrays \<open>cwd\<close>, \<open>error_msg\<close> and \<open>name\<close> are static and terminated after
  every operation, so they are the strings they hold, cut to their sizes where \<open>snprintf\<close> and
  \<open>strncpy\<close> cut them.
\<close>

section \<open>The code\<close>

record dirs =
  list_dir :: "string \<Rightarrow> string list option"
  is_directory :: "string \<Rightarrow> bool"
  current_dir :: "string option"
  error_text :: string

definition PATH_MAX :: nat where "PATH_MAX = 1024"
definition CWD_MAX :: nat where "CWD_MAX = PATH_MAX"
definition FILETREE_MAX_ENTRIES :: nat where "FILETREE_MAX_ENTRIES = 256"
definition FILETREE_NAME_LEN :: nat where "FILETREE_NAME_LEN = 64"

datatype FiletreeResult = FILETREE_OK | FILETREE_FILE | FILETREE_ERR

record FileEntry =
  fe_name :: string
  fe_is_dir :: bool

record filetree =
  ft_cwd :: string
  ft_entries :: "FileEntry list"
  entry_count :: int
  ft_cursor :: int
  ft_scroll :: int
  ft_visible :: bool
  ft_focused :: bool
  error_msg :: string

definition filetree0 :: filetree where
  "filetree0 = \<lparr>ft_cwd = '''', ft_entries = replicate FILETREE_MAX_ENTRIES \<lparr>fe_name = '''', fe_is_dir = False\<rparr>,
     entry_count = 0, ft_cursor = 0, ft_scroll = 0, ft_visible = True, ft_focused = False, error_msg = ''''\<rparr>"

text \<open>\<open>strcmp\<close>: the sign of the first difference of the bytes.\<close>

fun strcmp :: "string \<Rightarrow> string \<Rightarrow> int" where
  "strcmp [] [] = 0"
| "strcmp [] (c # s) = -1"
| "strcmp (c # s) [] = 1"
| "strcmp (c # s) (d # t) =
     (if c = d then strcmp s t else if (of_char c :: nat) < of_char d then -1 else 1)"

text \<open>\<open>snprintf (buf, n, "%s", s)\<close>.\<close>

definition cut :: "nat \<Rightarrow> string \<Rightarrow> string" where
  "cut n s = take (n - 1) s"

definition compare_entries :: "FileEntry \<Rightarrow> FileEntry \<Rightarrow> int" where
  "compare_entries ea eb =
     (if fe_name ea = ''..'' then -1
      else if fe_name eb = ''..'' then 1
      else if fe_is_dir ea \<noteq> fe_is_dir eb then (if fe_is_dir ea then -1 else 1)
      else strcmp (fe_name ea) (fe_name eb))"

text \<open>
  \<open>qsort\<close> with a comparison function; the order of equal elements, which the standard leaves open, is
  the one they came in.
\<close>

fun insert_by :: "('a \<Rightarrow> 'a \<Rightarrow> int) \<Rightarrow> 'a \<Rightarrow> 'a list \<Rightarrow> 'a list" where
  "insert_by cmp x [] = [x]"
| "insert_by cmp x (y # ys) = (if cmp x y \<le> 0 then x # y # ys else y # insert_by cmp x ys)"

definition qsort :: "('a \<Rightarrow> 'a \<Rightarrow> int) \<Rightarrow> 'a list \<Rightarrow> 'a list" where
  "qsort cmp xs = foldr (insert_by cmp) xs []"

definition filetree_get_error :: "filetree \<Rightarrow> string option" where
  "filetree_get_error ft = (if error_msg ft = '''' then None else Some (error_msg ft))"

text \<open>The loop over \<open>readdir\<close>, storing entries from index \<open>entry_count\<close> on.\<close>

fun read_entries :: "dirs \<Rightarrow> string list \<Rightarrow> filetree \<Rightarrow> filetree option" where
  "read_entries d [] ft = Some ft"
| "read_entries d (n # ns) ft =
     (if int FILETREE_MAX_ENTRIES \<le> entry_count ft then Some ft
      else if n = ''.'' then read_entries d ns ft
      else if \<not> in_range (ft_entries ft) (entry_count ft) 1 then None
      else
        let full = cut (CWD_MAX + FILETREE_NAME_LEN + 1) (ft_cwd ft @ ''/'' @ n);
            entry = \<lparr>fe_name = cut FILETREE_NAME_LEN n, fe_is_dir = is_directory d full\<rparr>
        in read_entries d ns (ft\<lparr>ft_entries := (ft_entries ft)[nat (entry_count ft) := entry],
             entry_count := entry_count ft + 1\<rparr>))"

definition filetree_refresh :: "dirs \<Rightarrow> filetree \<Rightarrow> (FiletreeResult \<times> filetree) option" where
  "filetree_refresh d ft =
     (let ft = ft\<lparr>entry_count := 0\<rparr> in
      case list_dir d (ft_cwd ft) of
        None \<Rightarrow> Some (FILETREE_ERR, ft\<lparr>error_msg := cut 128 (''Cannot open '' @ [APOS] @ ft_cwd ft @ [APOS] @ '': '' @ error_text d)\<rparr>)
      | Some names \<Rightarrow> do {
          ft \<leftarrow> read_entries d names (ft\<lparr>error_msg := ''''\<rparr>);
          let n = nat (entry_count ft);
          let ft = ft\<lparr>ft_entries := qsort compare_entries (take n (ft_entries ft)) @ drop n (ft_entries ft)\<rparr>;
          Some (FILETREE_OK,
            if entry_count ft \<le> ft_cursor ft
            then ft\<lparr>ft_cursor := (if 0 < entry_count ft then entry_count ft - 1 else 0)\<rparr> else ft)
        })"

definition filetree_init :: "dirs \<Rightarrow> filetree \<Rightarrow> filetree option" where
  "filetree_init d ft =
     (let ft = (case current_dir d of
                  None \<Rightarrow> ft\<lparr>error_msg := cut 128 (''Cannot get working directory: '' @ error_text d), ft_cwd := ''/''\<rparr>
                | Some dir \<Rightarrow> ft\<lparr>ft_cwd := dir\<rparr>)
      in map_option snd (filetree_refresh d ft))"

definition filetree_is_visible :: "filetree \<Rightarrow> bool" where
  "filetree_is_visible ft = ft_visible ft"

definition filetree_set_visible :: "bool \<Rightarrow> filetree \<Rightarrow> filetree" where
  "filetree_set_visible v ft = ft\<lparr>ft_visible := v\<rparr>"

definition filetree_is_focused :: "filetree \<Rightarrow> bool" where
  "filetree_is_focused ft = ft_focused ft"

definition filetree_set_focused :: "bool \<Rightarrow> filetree \<Rightarrow> filetree" where
  "filetree_set_focused f ft = ft\<lparr>ft_focused := f\<rparr>"

definition filetree_get_cwd :: "filetree \<Rightarrow> string" where
  "filetree_get_cwd ft = ft_cwd ft"

definition filetree_get_count :: "filetree \<Rightarrow> int" where
  "filetree_get_count ft = entry_count ft"

definition filetree_get_cursor :: "filetree \<Rightarrow> int" where
  "filetree_get_cursor ft = ft_cursor ft"

definition filetree_get_scroll :: "filetree \<Rightarrow> int" where
  "filetree_get_scroll ft = ft_scroll ft"

text \<open>A slot of the array of entries, and the pointer to one: \<open>None\<close> inside is \<open>NULL\<close>.\<close>

definition entry_at :: "filetree \<Rightarrow> int \<Rightarrow> FileEntry option" where
  "entry_at ft i = (if in_range (ft_entries ft) i 1 then Some (ft_entries ft ! nat i) else None)"

definition filetree_get_entry :: "int \<Rightarrow> filetree \<Rightarrow> FileEntry option option" where
  "filetree_get_entry i ft =
     (if i < 0 \<or> entry_count ft \<le> i then Some None else map_option Some (entry_at ft i))"

definition filetree_move_up :: "int \<Rightarrow> filetree \<Rightarrow> filetree" where
  "filetree_move_up vis_rows ft =
     (let ft = (if ft_scroll ft + vis_rows < ft_cursor ft then ft\<lparr>ft_cursor := ft_scroll ft + vis_rows\<rparr> else ft);
          ft = (if 0 < ft_cursor ft then ft\<lparr>ft_cursor := ft_cursor ft - 1\<rparr> else ft)
      in if ft_cursor ft < ft_scroll ft then ft\<lparr>ft_scroll := ft_cursor ft\<rparr> else ft)"

definition filetree_move_down :: "int \<Rightarrow> filetree \<Rightarrow> filetree" where
  "filetree_move_down vis_rows ft =
     (let ft = (if ft_cursor ft < ft_scroll ft then ft\<lparr>ft_cursor := ft_scroll ft - 1\<rparr> else ft);
          ft = (if ft_cursor ft < entry_count ft - 1 then ft\<lparr>ft_cursor := ft_cursor ft + 1\<rparr> else ft)
      in if ft_scroll ft + vis_rows \<le> ft_cursor ft then ft\<lparr>ft_scroll := ft_cursor ft - vis_rows + 1\<rparr> else ft)"

definition filetree_set_cursor :: "int \<Rightarrow> int \<Rightarrow> filetree \<Rightarrow> filetree" where
  "filetree_set_cursor idx vis_rows ft =
     (if entry_count ft = 0 then ft\<lparr>ft_cursor := 0, ft_scroll := 0\<rparr>
      else
        let idx = (if idx < 0 then 0 else idx);
            idx = (if entry_count ft \<le> idx then entry_count ft - 1 else idx);
            ft = ft\<lparr>ft_cursor := idx\<rparr>;
            ft = (if ft_cursor ft < ft_scroll ft then ft\<lparr>ft_scroll := ft_cursor ft\<rparr> else ft)
        in if ft_scroll ft + vis_rows \<le> ft_cursor ft then ft\<lparr>ft_scroll := ft_cursor ft - vis_rows + 1\<rparr> else ft)"

text \<open>\<open>strrchr (s, '/')\<close>: what is before the last slash, if there is one.\<close>

fun before_last_slash :: "string \<Rightarrow> string option" where
  "before_last_slash [] = None"
| "before_last_slash (c # s) =
     (case before_last_slash s of
        Some p \<Rightarrow> Some (c # p)
      | None \<Rightarrow> if c = CHR ''/'' then Some [] else None)"

definition filetree_go_parent :: "dirs \<Rightarrow> filetree \<Rightarrow> (FiletreeResult \<times> filetree) option" where
  "filetree_go_parent d ft =
     (if ft_cwd ft = ''/'' then Some (FILETREE_OK, ft)
      else
        let dir = (case before_last_slash (ft_cwd ft) of
                     Some p \<Rightarrow> if p \<noteq> [] then p else ''/''
                   | None \<Rightarrow> ''/'')
        in filetree_refresh d (ft\<lparr>ft_cwd := dir, ft_cursor := 0, ft_scroll := 0\<rparr>))"

text \<open>\<open>strncat (cwd, s, sizeof (cwd) - strlen (cwd) - 1)\<close>.\<close>

definition strncat_cwd :: "string \<Rightarrow> string \<Rightarrow> string" where
  "strncat_cwd cwd s = cwd @ take (CWD_MAX - length cwd - 1) s"

definition filetree_enter_selected :: "dirs \<Rightarrow> filetree \<Rightarrow> (FiletreeResult \<times> filetree) option" where
  "filetree_enter_selected d ft =
     (if entry_count ft = 0 then Some (FILETREE_ERR, ft)
      else do {
        e \<leftarrow> entry_at ft (ft_cursor ft);
        if \<not> fe_is_dir e then Some (FILETREE_FILE, ft)
        else if fe_name e = ''..'' then filetree_go_parent d ft
        else
          let new_len = length (ft_cwd ft) + 1 + length (fe_name e) in
          if CWD_MAX \<le> new_len then Some (FILETREE_ERR, ft\<lparr>error_msg := ''Path too long''\<rparr>)
          else
            let dir = (if ft_cwd ft = ''/'' then cut CWD_MAX (''/'' @ fe_name e)
                       else strncat_cwd (strncat_cwd (ft_cwd ft) ''/'') (fe_name e))
            in filetree_refresh d (ft\<lparr>ft_cwd := dir, ft_cursor := 0, ft_scroll := 0\<rparr>)
      })"

definition filetree_get_selected_path :: "nat \<Rightarrow> filetree \<Rightarrow> string option" where
  "filetree_get_selected_path n ft =
     (if entry_count ft = 0 then Some ''''
      else do { e \<leftarrow> entry_at ft (ft_cursor ft); Some (cut n (ft_cwd ft @ ''/'' @ fe_name e)) })"

definition filetree_scroll_by :: "int \<Rightarrow> int \<Rightarrow> filetree \<Rightarrow> filetree" where
  "filetree_scroll_by delta vis_rows ft =
     (let ft = ft\<lparr>ft_scroll := ft_scroll ft + delta\<rparr>;
          ft = (if ft_scroll ft < 0 then ft\<lparr>ft_scroll := 0\<rparr> else ft);
          max_scroll = entry_count ft - vis_rows;
          max_scroll = (if max_scroll < 0 then 0 else max_scroll)
      in if max_scroll < ft_scroll ft then ft\<lparr>ft_scroll := max_scroll\<rparr> else ft)"

section \<open>Sorting\<close>

lemma mset_insert_by: "mset (insert_by cmp x ys) = add_mset x (mset ys)"
  by (induction ys) auto

lemma mset_qsort: "mset (qsort cmp xs) = mset xs"
  unfolding qsort_def by (induction xs) (simp_all add: mset_insert_by)

lemma set_insert_by [simp]: "set (insert_by cmp x ys) = insert x (set ys)"
  by (induction ys) auto

lemma sorted_insert_by:
  assumes "\<And>a b. cmp a b \<le> 0 \<or> cmp b a \<le> 0" and "\<And>a b c. cmp a b \<le> 0 \<Longrightarrow> cmp b c \<le> 0 \<Longrightarrow> cmp a c \<le> 0"
  shows "sorted_wrt (\<lambda>a b. cmp a b \<le> (0 :: int)) ys \<Longrightarrow> sorted_wrt (\<lambda>a b. cmp a b \<le> 0) (insert_by cmp x ys)"
proof (induction ys)
  case (Cons y ys)
  then show ?case using assms(1) [of x y] assms(2) [of x y] by auto
qed simp

lemma sorted_qsort:
  assumes "\<And>a b. cmp a b \<le> 0 \<or> cmp b a \<le> 0" and "\<And>a b c. cmp a b \<le> 0 \<Longrightarrow> cmp b c \<le> 0 \<Longrightarrow> cmp a c \<le> 0"
  shows "sorted_wrt (\<lambda>a b. cmp a b \<le> (0 :: int)) (qsort cmp xs)"
  unfolding qsort_def by (induction xs) (simp_all add: sorted_insert_by assms)

lemma strcmp_antisym: "strcmp s t = - strcmp t s"
  by (induction s t rule: strcmp.induct) (auto simp: of_char_eq_iff)

lemma strcmp_trans: "strcmp s t \<le> 0 \<Longrightarrow> strcmp t u \<le> 0 \<Longrightarrow> strcmp s u \<le> 0"
proof (induction s t arbitrary: u rule: strcmp.induct)
  case (4 c s d t)
  then show ?case by (cases u) (auto split: if_splits)
next
  case (2 c s)
  then show ?case by (cases u) auto
qed (auto split: if_splits)

definition listed_before :: "FileEntry \<Rightarrow> FileEntry \<Rightarrow> bool" where
  "listed_before a b \<longleftrightarrow> fe_name a = ''..'' \<or> fe_name b \<noteq> ''..'' \<and>
     (fe_is_dir a \<and> \<not> fe_is_dir b \<or> fe_is_dir a = fe_is_dir b \<and> strcmp (fe_name a) (fe_name b) \<le> 0)"

lemma compare_entries_iff: "compare_entries a b \<le> 0 \<longleftrightarrow> listed_before a b"
  by (auto simp: compare_entries_def listed_before_def)

lemma sorted_entries: "sorted_wrt listed_before (qsort compare_entries xs)"
proof -
  have "sorted_wrt (\<lambda>a b. compare_entries a b \<le> 0) (qsort compare_entries xs)"
  proof (rule sorted_qsort)
    fix a b c :: FileEntry
    show "compare_entries a b \<le> 0 \<or> compare_entries b a \<le> 0"
      using strcmp_antisym [of "fe_name a" "fe_name b"] unfolding compare_entries_iff listed_before_def by auto
    show "compare_entries a b \<le> 0 \<Longrightarrow> compare_entries b c \<le> 0 \<Longrightarrow> compare_entries a c \<le> 0"
      unfolding compare_entries_iff listed_before_def by (auto intro: strcmp_trans)
  qed
  then show ?thesis by (simp add: compare_entries_iff)
qed

section \<open>Reading a directory\<close>

definition entry_of :: "dirs \<Rightarrow> string \<Rightarrow> string \<Rightarrow> FileEntry" where
  "entry_of d dir n = \<lparr>fe_name = cut FILETREE_NAME_LEN n,
     fe_is_dir = is_directory d (cut (CWD_MAX + FILETREE_NAME_LEN + 1) (dir @ ''/'' @ n))\<rparr>"

definition listing :: "dirs \<Rightarrow> string \<Rightarrow> string list \<Rightarrow> FileEntry list" where
  "listing d dir names = map (entry_of d dir) (take FILETREE_MAX_ENTRIES (filter (\<lambda>n. n \<noteq> ''.'') names))"

definition shown_entries :: "filetree \<Rightarrow> FileEntry list" where
  "shown_entries ft = take (nat (entry_count ft)) (ft_entries ft)"

lemma read_entries_spec:
  assumes "length (ft_entries ft) = FILETREE_MAX_ENTRIES" and "entry_count ft = int k" and "k \<le> FILETREE_MAX_ENTRIES"
  shows "\<exists>E m. read_entries d ns ft = Some (ft\<lparr>ft_entries := E, entry_count := int m\<rparr>) \<and> length E = FILETREE_MAX_ENTRIES
    \<and> m \<le> FILETREE_MAX_ENTRIES
    \<and> take m E = take k (ft_entries ft) @ map (entry_of d (ft_cwd ft)) (take (FILETREE_MAX_ENTRIES - k) (filter (\<lambda>n. n \<noteq> ''.'') ns))"
  using assms
proof (induction ns arbitrary: ft k)
  case Nil
  then show ?case by (intro exI [of _ "ft_entries ft"] exI [of _ k]) simp
next
  case (Cons n ns)
  consider (full) "k = FILETREE_MAX_ENTRIES" | (dot) "k < FILETREE_MAX_ENTRIES" "n = ''.''"
    | (more) "k < FILETREE_MAX_ENTRIES" "n \<noteq> ''.''" using Cons.prems(3) by linarith
  then show ?case
  proof cases
    case full
    then show ?thesis using Cons.prems by (intro exI [of _ "ft_entries ft"] exI [of _ k]) simp
  next
    case dot
    then have "read_entries d (n # ns) ft = read_entries d ns ft" using Cons.prems(2) by simp
    with Cons.IH [OF Cons.prems] dot(2) show ?thesis by simp
  next
    case more
    let ?e = "entry_of d (ft_cwd ft) n"
    let ?ft = "ft\<lparr>ft_entries := (ft_entries ft)[k := ?e], entry_count := int (Suc k)\<rparr>"
    have step: "read_entries d (n # ns) ft = read_entries d ns ?ft"
      using more Cons.prems by (simp add: entry_of_def in_range_def add.commute)
    obtain E m where E: "read_entries d ns ?ft = Some (?ft\<lparr>ft_entries := E, entry_count := int m\<rparr>)" "length E = FILETREE_MAX_ENTRIES"
      "m \<le> FILETREE_MAX_ENTRIES"
      "take m E = take (Suc k) (ft_entries ?ft) @ map (entry_of d (ft_cwd ?ft)) (take (FILETREE_MAX_ENTRIES - Suc k) (filter (\<lambda>n. n \<noteq> ''.'') ns))"
      using Cons.IH [of ?ft "Suc k"] Cons.prems more by auto
    have t: "take (Suc k) ((ft_entries ft)[k := ?e]) = take k (ft_entries ft) @ [?e]"
      using more(1) Cons.prems(1) by (simp add: take_Suc_conv_app_nth)
    have s: "FILETREE_MAX_ENTRIES - k = Suc (FILETREE_MAX_ENTRIES - Suc k)" using more(1) by simp
    have r: "read_entries d (n # ns) ft = Some (ft\<lparr>ft_entries := E, entry_count := int m\<rparr>)"
      unfolding step E(1) by simp
    have "take m E = take k (ft_entries ft) @ map (entry_of d (ft_cwd ft)) (take (FILETREE_MAX_ENTRIES - k) (filter (\<lambda>n. n \<noteq> ''.'') (n # ns)))"
      using E(4) more(2) unfolding s by (simp add: t)
    with r E(2,3) show ?thesis by blast
  qed
qed

text \<open>The invariant: cursor and scroll offset are inside the list, or 0 when it is empty.\<close>

definition ft_inv :: "filetree \<Rightarrow> bool" where
  "ft_inv ft \<longleftrightarrow> length (ft_entries ft) = FILETREE_MAX_ENTRIES
     \<and> 0 \<le> entry_count ft \<and> entry_count ft \<le> int FILETREE_MAX_ENTRIES
     \<and> 0 \<le> ft_cursor ft \<and> (ft_cursor ft < entry_count ft \<or> ft_cursor ft = 0)
     \<and> 0 \<le> ft_scroll ft \<and> (ft_scroll ft < entry_count ft \<or> ft_scroll ft = 0)"

lemma refresh_spec:
  assumes "length (ft_entries ft) = FILETREE_MAX_ENTRIES" and "ft_cursor ft = 0" and "ft_scroll ft = 0"
  obtains ft' where "filetree_refresh d ft = Some (if list_dir d (ft_cwd ft) = None then FILETREE_ERR else FILETREE_OK, ft')"
    and "ft_inv ft'" and "ft_cwd ft' = ft_cwd ft" and "ft_cursor ft' = 0" and "ft_scroll ft' = 0"
    and "ft_visible ft' = ft_visible ft" and "ft_focused ft' = ft_focused ft"
    and "shown_entries ft' = (case list_dir d (ft_cwd ft) of None \<Rightarrow> [] | Some names \<Rightarrow> qsort compare_entries (listing d (ft_cwd ft) names))"
proof (cases "list_dir d (ft_cwd ft)")
  case None
  then obtain msg where "filetree_refresh d ft = Some (FILETREE_ERR, ft\<lparr>entry_count := 0, error_msg := msg\<rparr>)"
    by (simp add: filetree_refresh_def Let_def)
  then show ?thesis
    by (intro that [of "ft\<lparr>entry_count := 0, error_msg := msg\<rparr>"])
      (use None assms in \<open>simp_all add: ft_inv_def shown_entries_def\<close>)
next
  case (Some names)
  let ?ft = "ft\<lparr>entry_count := 0, error_msg := ''''\<rparr>"
  obtain E m where E: "read_entries d names ?ft = Some (?ft\<lparr>ft_entries := E, entry_count := int m\<rparr>)"
    "length E = FILETREE_MAX_ENTRIES" "m \<le> FILETREE_MAX_ENTRIES" "take m E = listing d (ft_cwd ft) names"
    using read_entries_spec [of ?ft 0 d names] assms(1) by (auto simp: listing_def)
  let ?E = "qsort compare_entries (take m E) @ drop m E"
  have l: "length (qsort compare_entries (take m E)) = m"
    using mset_qsort [of compare_entries "take m E"] E(2,3) by (metis length_take min.absorb2 size_mset)
  show ?thesis
    by (rule that [of "?ft\<lparr>ft_entries := ?E, entry_count := int m\<rparr>"])
      (use Some assms E l in \<open>auto simp: filetree_refresh_def ft_inv_def shown_entries_def Let_def\<close>)
qed

section \<open>Properties\<close>

text \<open>C38: Reading a directory fills the panel with its entries except \<open>.\<close>, at most 256 of them and with
  their names cut to 63 characters, in order: \<open>..\<close> first, then directories, then files, each group by
  name; and it puts the panel into its invariant. A directory that cannot be opened leaves an empty
  panel and an error.\<close>

theorem refresh_lists_sorted:
  assumes "length (ft_entries ft) = FILETREE_MAX_ENTRIES" and "ft_cursor ft = 0" and "ft_scroll ft = 0"
  shows "\<exists>ft'. filetree_refresh d ft = Some (if list_dir d (ft_cwd ft) = None then FILETREE_ERR else FILETREE_OK, ft') \<and> ft_inv ft'
    \<and> mset (shown_entries ft') = (case list_dir d (ft_cwd ft) of None \<Rightarrow> {#} | Some names \<Rightarrow> mset (listing d (ft_cwd ft) names))
    \<and> sorted_wrt listed_before (shown_entries ft')"
proof -
  obtain ft' where ft': "filetree_refresh d ft = Some (if list_dir d (ft_cwd ft) = None then FILETREE_ERR else FILETREE_OK, ft')" "ft_inv ft'"
    "shown_entries ft' = (case list_dir d (ft_cwd ft) of None \<Rightarrow> [] | Some names \<Rightarrow> qsort compare_entries (listing d (ft_cwd ft) names))"
    using refresh_spec [OF assms] by metis
  show ?thesis
    by (rule exI [of _ ft']) (use ft' in \<open>auto simp: mset_qsort sorted_entries split: option.splits\<close>)
qed

definition root_dirs :: dirs where
  "root_dirs = \<lparr>list_dir = (\<lambda>p. if p = ''/home'' then Some [''b.c'', ''.'', ''src'', ''..''] else if p = ''/home/src'' then Some [''..''] else None),
     is_directory = (\<lambda>p. p \<noteq> ''/home/b.c''), current_dir = Some ''/home'', error_text = ''error''\<rparr>"

theorem refresh_lists_sorted_witness:
  "\<exists>ft'. filetree_refresh root_dirs (filetree0\<lparr>ft_cwd := ''/home''\<rparr>) = Some (FILETREE_OK, ft')
     \<and> length (shown_entries ft') = 3 \<and> sorted_wrt listed_before (shown_entries ft')"
proof -
  obtain ft' where "filetree_refresh root_dirs (filetree0\<lparr>ft_cwd := ''/home''\<rparr>) = Some (FILETREE_OK, ft')"
    "mset (shown_entries ft') = mset (listing root_dirs ''/home'' [''b.c'', ''.'', ''src'', ''..''])"
    "sorted_wrt listed_before (shown_entries ft')"
    using refresh_lists_sorted [where d = root_dirs and ft = "filetree0\<lparr>ft_cwd := ''/home''\<rparr>"]
    by (auto simp: filetree0_def root_dirs_def)
  moreover from this(2) have "length (shown_entries ft') = length (listing root_dirs ''/home'' [''b.c'', ''.'', ''src'', ''..''])"
    by (metis size_mset)
  ultimately show ?thesis by (auto simp: listing_def FILETREE_MAX_ENTRIES_def)
qed

definition cursor_in_view :: "int \<Rightarrow> filetree \<Rightarrow> bool" where
  "cursor_in_view vis ft \<longleftrightarrow> ft_scroll ft \<le> ft_cursor ft \<and> ft_cursor ft < ft_scroll ft + vis"

lemma ft_inv_moves:
  assumes "ft_inv ft" and "0 < vis"
  shows "ft_inv (filetree_move_up vis ft) \<and> cursor_in_view vis (filetree_move_up vis ft)
    \<and> ft_inv (filetree_move_down vis ft) \<and> cursor_in_view vis (filetree_move_down vis ft)
    \<and> ft_inv (filetree_set_cursor i vis ft) \<and> cursor_in_view vis (filetree_set_cursor i vis ft)
    \<and> ft_inv (filetree_scroll_by k vis ft) \<and> filetree_get_selected_path n ft \<noteq> None"
proof -
  note inv = assms(1) [unfolded ft_inv_def]
  have "ft_inv (filetree_move_up vis ft) \<and> cursor_in_view vis (filetree_move_up vis ft)"
    using inv assms(2) by (auto simp: filetree_move_up_def ft_inv_def cursor_in_view_def Let_def)
  moreover have "ft_inv (filetree_move_down vis ft) \<and> cursor_in_view vis (filetree_move_down vis ft)"
    using inv assms(2) by (auto simp: filetree_move_down_def ft_inv_def cursor_in_view_def Let_def)
  moreover have "ft_inv (filetree_set_cursor i vis ft) \<and> cursor_in_view vis (filetree_set_cursor i vis ft)"
    using inv assms(2) by (auto simp: filetree_set_cursor_def ft_inv_def cursor_in_view_def Let_def)
  moreover have "ft_inv (filetree_scroll_by k vis ft)"
    using inv assms(2) by (auto simp: filetree_scroll_by_def ft_inv_def Let_def)
  moreover have "filetree_get_selected_path n ft \<noteq> None"
    using inv by (auto simp: filetree_get_selected_path_def entry_at_def in_range_def)
  ultimately show ?thesis by blast
qed

text \<open>Moving the selection, selecting an entry and scrolling keep the selection and the scroll offset
  inside the list; moving and selecting bring the selection into view, even when it was scrolled out
  of it; and then the selected entry can be read.\<close>

theorem selection_stays_visible:
  assumes "ft_inv ft" and "0 < vis"
  shows "ft_inv (filetree_move_up vis ft) \<and> cursor_in_view vis (filetree_move_up vis ft)
    \<and> ft_inv (filetree_move_down vis ft) \<and> cursor_in_view vis (filetree_move_down vis ft)
    \<and> ft_inv (filetree_set_cursor i vis ft) \<and> cursor_in_view vis (filetree_set_cursor i vis ft)
    \<and> ft_inv (filetree_scroll_by k vis ft) \<and> filetree_get_selected_path n ft \<noteq> None"
  by (rule ft_inv_moves [OF assms])

theorem selection_stays_visible_witness:
  "ft_inv (filetree_move_down 2 (filetree0\<lparr>entry_count := 9, ft_cursor := 1, ft_scroll := 6\<rparr>))
     \<and> cursor_in_view 2 (filetree_move_down 2 (filetree0\<lparr>entry_count := 9, ft_cursor := 1, ft_scroll := 6\<rparr>))"
  using selection_stays_visible [where ft = "filetree0\<lparr>entry_count := 9, ft_cursor := 1, ft_scroll := 6\<rparr>" and vis = 2]
  by (simp add: ft_inv_def filetree0_def FILETREE_MAX_ENTRIES_def)

lemma before_last_slash_append: "CHR ''/'' \<notin> set n \<Longrightarrow> before_last_slash (p @ CHR ''/'' # n) = Some p"
proof (induction p)
  case Nil
  have "CHR ''/'' \<notin> set n \<Longrightarrow> before_last_slash n = None" by (induction n) auto
  with Nil show ?case by simp
qed simp

text \<open>Entering a directory and going back to its parent returns to the path the panel was at, with the
  entries of that directory, whatever the directory entered holds.\<close>

theorem enter_then_parent:
  assumes "ft_inv ft" and "0 < entry_count ft" and "e = ft_entries ft ! nat (ft_cursor ft)"
    and "fe_is_dir e" and "fe_name e \<noteq> ''..''" and "CHR ''/'' \<notin> set (fe_name e) \<and> fe_name e \<noteq> ''''"
    and "ft_cwd ft \<noteq> ''''" and "length (ft_cwd ft) + 1 + length (fe_name e) < CWD_MAX" and "list_dir d (ft_cwd ft) = Some names"
  shows "\<exists>r ft1 ft2. filetree_enter_selected d ft = Some (r, ft1)
    \<and> ft_cwd ft1 = (if ft_cwd ft = ''/'' then ''/'' @ fe_name e else ft_cwd ft @ ''/'' @ fe_name e)
    \<and> filetree_go_parent d ft1 = Some (FILETREE_OK, ft2) \<and> ft_cwd ft2 = ft_cwd ft
    \<and> shown_entries ft2 = qsort compare_entries (listing d (ft_cwd ft) names)"
proof -
  define dir where "dir = (if ft_cwd ft = ''/'' then ''/'' @ fe_name e else ft_cwd ft @ ''/'' @ fe_name e)"
  have en: "entry_at ft (ft_cursor ft) = Some e" using assms(1-3) by (auto simp: ft_inv_def entry_at_def in_range_def)
  have cat: "(if ft_cwd ft = ''/'' then cut CWD_MAX (''/'' @ fe_name e)
      else strncat_cwd (strncat_cwd (ft_cwd ft) ''/'') (fe_name e)) = dir"
    using assms(8) by (auto simp: dir_def cut_def strncat_cwd_def)
  let ?ft = "ft\<lparr>ft_cwd := dir, ft_cursor := 0, ft_scroll := 0\<rparr>"
  have p: "length (ft_entries ?ft) = FILETREE_MAX_ENTRIES" "ft_cursor ?ft = 0" "ft_scroll ?ft = 0" "ft_cwd ?ft = dir"
    using assms(1) by (simp_all add: ft_inv_def)
  obtain ft1 where ft1: "filetree_refresh d ?ft = Some (if list_dir d dir = None then FILETREE_ERR else FILETREE_OK, ft1)"
    "ft_inv ft1" "ft_cwd ft1 = dir"
    using refresh_spec [OF p(1-3), of d] unfolding p(4) by metis
  have enter: "filetree_enter_selected d ft = filetree_refresh d ?ft"
    using en assms(2,4,5,8) unfolding filetree_enter_selected_def en Option.bind.bind_lunit Let_def cat by simp
  let ?ft1 = "ft1\<lparr>ft_cwd := ft_cwd ft, ft_cursor := 0, ft_scroll := 0\<rparr>"
  have p1: "length (ft_entries ?ft1) = FILETREE_MAX_ENTRIES" "ft_cursor ?ft1 = 0" "ft_scroll ?ft1 = 0" "ft_cwd ?ft1 = ft_cwd ft"
    using ft1(2) by (simp_all add: ft_inv_def)
  obtain ft2 where r: "filetree_refresh d ?ft1 = Some (if list_dir d (ft_cwd ?ft1) = None then FILETREE_ERR else FILETREE_OK, ft2)"
    "ft_cwd ft2 = ft_cwd ?ft1" "shown_entries ft2 = (case list_dir d (ft_cwd ?ft1) of None \<Rightarrow> []
      | Some names \<Rightarrow> qsort compare_entries (listing d (ft_cwd ?ft1) names))"
    using refresh_spec [OF p1(1-3), of d] by metis
  have ft2: "filetree_refresh d ?ft1 = Some (FILETREE_OK, ft2)" "ft_cwd ft2 = ft_cwd ft"
    "shown_entries ft2 = qsort compare_entries (listing d (ft_cwd ft) names)"
    using r unfolding p1(4) assms(9) by simp_all
  have "before_last_slash dir = Some (if ft_cwd ft = ''/'' then '''' else ft_cwd ft)"
    using before_last_slash_append [of "fe_name e" "[]"] before_last_slash_append [of "fe_name e" "ft_cwd ft"] assms(6) by (simp add: dir_def)
  moreover have "dir \<noteq> ''/''" using assms(6) by (cases "fe_name e") (auto simp: dir_def)
  ultimately have "filetree_go_parent d ft1 = Some (FILETREE_OK, ft2)"
    using ft2(1) assms(7) unfolding filetree_go_parent_def ft1(3)
    by (cases "ft_cwd ft = ''/''") (simp_all add: Let_def)
  with enter ft1(1,3) ft2(2,3) show ?thesis unfolding dir_def [symmetric] by auto
qed

theorem enter_then_parent_witness:
  "\<exists>r ft1 ft2. filetree_enter_selected root_dirs (filetree0\<lparr>ft_cwd := ''/home'', entry_count := 1,
       ft_entries := \<lparr>fe_name = ''src'', fe_is_dir = True\<rparr> # replicate 255 \<lparr>fe_name = '''', fe_is_dir = False\<rparr>\<rparr>) = Some (r, ft1)
     \<and> filetree_go_parent root_dirs ft1 = Some (FILETREE_OK, ft2) \<and> ft_cwd ft2 = ''/home''"
  using enter_then_parent [where d = root_dirs and names = "[''b.c'', ''.'', ''src'', ''..'']" and e = "\<lparr>fe_name = ''src'', fe_is_dir = True\<rparr>"
      and ft = "filetree0\<lparr>ft_cwd := ''/home'', entry_count := 1,
       ft_entries := \<lparr>fe_name = ''src'', fe_is_dir = True\<rparr> # replicate 255 \<lparr>fe_name = '''', fe_is_dir = False\<rparr>\<rparr>"]
  by (auto simp: ft_inv_def filetree0_def root_dirs_def FILETREE_MAX_ENTRIES_def CWD_MAX_def PATH_MAX_def)

end
