(* ===== verification/Timer.thy ===== *)
theory Timer
  imports Ports
begin

text \<open>
  The timer: \<open>framework/src/drivers/timer.c\<close> programs the i8254 and counts its interrupts in a 32 bit
  counter; \<open>model/time/session_time.c\<close> turns the ticks since the last file was opened into hours,
  minutes and seconds.
\<close>

section \<open>The driver\<close>

definition TIMER_FREQ :: u32 where "TIMER_FREQ = 1193182"
definition TIMER0_IRQ :: int where "TIMER0_IRQ = 0"
definition TIMER_0 :: int where "TIMER_0 = 0x40"
definition TIMER_CTRL :: int where "TIMER_CTRL = 0x43"
definition TIMER_SEL0 :: u8 where "TIMER_SEL0 = 0x00"
definition TIMER_SEL1 :: u8 where "TIMER_SEL1 = 0x40"
definition TIMER_SEL2 :: u8 where "TIMER_SEL2 = 0x80"
definition TIMER_RB_CMD :: u8 where "TIMER_RB_CMD = 0xC0"
definition TIMER_LSB :: u8 where "TIMER_LSB = 0x10"
definition TIMER_MSB :: u8 where "TIMER_MSB = 0x20"
definition TIMER_LSB_MSB :: u8 where "TIMER_LSB_MSB = TIMER_LSB OR TIMER_MSB"
definition TIMER_RB_COUNT :: u8 where "TIMER_RB_COUNT = 0x20"
definition TIMER_RB_SEL :: "u8 \<Rightarrow> u8" where "TIMER_RB_SEL n = ucast (push_bit (unat n + 1) (1 :: u32))"
definition IRQ_REENABLE_ONLY :: int where "IRQ_REENABLE_ONLY = 1"

record timer =
  int_counter :: u32
  tm_hook_id :: int

definition timer0 :: timer where
  "timer0 = \<lparr>int_counter = 0, tm_hook_id = 0\<rparr>"

lemma timer_start [simp]: "int_counter timer0 = 0"
  by (simp add: timer0_def)

definition get_int_counter :: "timer \<Rightarrow> u32" where
  "get_int_counter tm = int_counter tm"

definition timer_int_handler :: "timer \<Rightarrow> timer" where
  "timer_int_handler tm = tm\<lparr>int_counter := int_counter tm + 1\<rparr>"

text \<open>The status read is delivered.\<close>

definition timer_get_conf :: "'w io \<Rightarrow> u8 \<Rightarrow> (u8, 'w) call" where
  "timer_get_conf io timer =
     on_ok (sys_outb io TIMER_CTRL (ucast (TIMER_RB_CMD OR TIMER_RB_COUNT OR TIMER_RB_SEL timer)))
       (fail io ERR_TIMER ''timer_get_conf: failed to send read-back command'') (\<lambda>_.
     on_ok (util_sys_inb io (TIMER_0 + uint timer))
       (fail io ERR_TIMER ''timer_get_conf: failed to read timer status'') succeed)"

definition timer_select :: "u8 \<Rightarrow> u8 option" where
  "timer_select timer =
     (if timer = 0 then Some TIMER_SEL0 else if timer = 1 then Some TIMER_SEL1
      else if timer = 2 then Some TIMER_SEL2 else None)"

definition timer_set_frequency :: "'w io \<Rightarrow> u8 \<Rightarrow> u32 \<Rightarrow> (unit, 'w) call" where
  "timer_set_frequency io timer freq =
     (if freq = 0 \<or> TIMER_FREQ < freq then fail io ERR_TIMER ''timer_set_frequency: invalid frequency''
      else
        on_ok (timer_get_conf io timer) (fail io ERR_TIMER ''timer_set_frequency: failed to get timer config'') (\<lambda>st.
        let counter = ucast (TIMER_FREQ div freq) :: u16;
            control = (st AND 0x0F) OR TIMER_LSB_MSB
        in case timer_select timer of
             None \<Rightarrow> fail io ERR_TIMER ''timer_set_frequency: invalid timer id''
           | Some sel \<Rightarrow>
               let control = control OR sel;
                   lsb = util_get_LSB counter;
                   msb = util_get_MSB counter
               in on_ok (sys_outb io TIMER_CTRL (ucast control))
                    (fail io ERR_TIMER ''timer_set_frequency: failed to write control word'') (\<lambda>_.
                  on_ok (sys_outb io (TIMER_0 + uint timer) (ucast lsb))
                    (fail io ERR_TIMER ''timer_set_frequency: failed to write LSB'') (\<lambda>_.
                  on_ok (sys_outb io (TIMER_0 + uint timer) (ucast msb))
                    (fail io ERR_TIMER ''timer_set_frequency: failed to write MSB'') (\<lambda>_. succeed ())))))"

text \<open>\<open>bit_no\<close> is not \<open>NULL\<close> in the only call. The result: the bit, whether the call succeeded, the new state.\<close>

definition timer_subscribe_int :: "'w io \<Rightarrow> timer \<Rightarrow> 'w \<Rightarrow> (u8 \<times> bool \<times> timer) \<times> 'w" where
  "timer_subscribe_int io tm w =
     (let bit_no = word_of_int (tm_hook_id tm) in
      case on_ok (sys_irqsetpolicy io TIMER0_IRQ IRQ_REENABLE_ONLY (tm_hook_id tm))
             (fail io ERR_TIMER ''timer_subscribe_int: irqsetpolicy failed'') succeed w of
        (None, w) \<Rightarrow> ((bit_no, False, tm), w)
      | (Some h, w) \<Rightarrow> ((bit_no, True, tm\<lparr>tm_hook_id := h\<rparr>), w))"

definition timer_unsubscribe_int :: "'w io \<Rightarrow> timer \<Rightarrow> (unit, 'w) call" where
  "timer_unsubscribe_int io tm =
     on_ok (sys_irqrmpolicy io (tm_hook_id tm)) (fail io ERR_TIMER ''timer_unsubscribe_int: irqrmpolicy failed'') succeed"

section \<open>The session time\<close>

definition TIMER_HZ64 :: u64 where "TIMER_HZ64 = 60"

definition session_time_reset :: "timer \<Rightarrow> u64" where
  "session_time_reset tm = ucast (get_int_counter tm)"

definition session_time_get_seconds :: "timer \<Rightarrow> u64 \<Rightarrow> u64" where
  "session_time_get_seconds tm start_ticks = (ucast (get_int_counter tm) - start_ticks) div TIMER_HZ64"

text \<open>\<open>%d\<close> and \<open>%02d\<close>.\<close>

fun decimal :: "nat \<Rightarrow> string" where
  "decimal n = (if n < 10 then [char_of (48 + n)] else decimal (n div 10) @ [char_of (48 + n mod 10)])"

declare decimal.simps [simp del]

definition print_02d :: "int \<Rightarrow> string" where
  "print_02d i = (if i < 0 then ''-'' @ decimal (nat (- i))
     else if i < 10 then ''0'' @ decimal (nat i) else decimal (nat i))"

definition print_hms :: "int \<Rightarrow> int \<Rightarrow> int \<Rightarrow> string" where
  "print_hms h m s = print_02d h @ '':'' @ print_02d m @ '':'' @ print_02d s"

text \<open>The string in \<open>buf\<close>, of \<open>n\<close> bytes; the conversions to \<open>int\<close> are modulo \<open>2 ^ 32\<close>.\<close>

definition session_time_format :: "timer \<Rightarrow> u64 \<Rightarrow> nat \<Rightarrow> string" where
  "session_time_format tm start_ticks n =
     (let s = session_time_get_seconds tm start_ticks;
          hours = sint (ucast (s div 3600) :: u32);
          minutes = sint (ucast ((s mod 3600) div 60) :: u32);
          seconds = sint (ucast (s mod 60) :: u32)
      in take (n - 1) (print_hms hours minutes seconds))"

section \<open>Properties\<close>

text \<open>A machine that accepts every write and records it, with timers that report the status \<open>st\<close>.\<close>

definition records_writes :: "((int \<times> u32) list) io \<Rightarrow> u8 \<Rightarrow> bool" where
  "records_writes io st \<longleftrightarrow> (\<forall>p v w. sys_outb io p v w = (Some (), w @ [(p, v)]))
     \<and> (\<forall>p w. sys_inb io p w = (Some (ucast st), w))"

lemma divisor_fits:
  assumes "19 \<le> freq"
  shows "unat (ucast (TIMER_FREQ div freq) :: u16) = 1193182 div unat freq"
proof -
  have f: "19 \<le> unat freq" using assms by (simp add: word_le_nat_alt)
  have "1193182 div unat freq \<le> 1193182 div 19" using f by (intro div_le_mono2) auto
  then have "1193182 div unat freq < 65536" by simp
  moreover have "unat (TIMER_FREQ div freq) = 1193182 div unat freq"
    by (simp add: TIMER_FREQ_def unat_div_distrib)
  ultimately show ?thesis by (simp add: unsigned_ucast_eq take_bit_nat_eq_self)
qed

lemma two_bytes: "unat (util_get_MSB v) * 256 + unat (util_get_LSB v) = unat v"
proof -
  have "unat v < 65536" using unsigned_less [of v] by simp
  then have msb: "unat (util_get_MSB v) = unat v div 256"
    by (simp add: util_get_MSB_def unsigned_ucast_eq unsigned_drop_bit_eq take_bit_nat_eq_self drop_bit_eq_div
        unat_div_distrib)
  have "(0xFF :: u16) = mask 8" by (simp add: mask_eq_exp_minus_1)
  then have "v AND 0xFF = take_bit 8 v" by (simp only: take_bit_eq_mask)
  then have "unat (util_get_LSB v) = unat v mod 256"
    by (simp add: util_get_LSB_def unsigned_ucast_eq unsigned_take_bit_eq take_bit_eq_mod unat_mod_distrib)
  with msb show ?thesis by simp
qed

lemma control_word:
  "drop_bit 6 ((st AND 0x0F OR TIMER_LSB_MSB) OR push_bit 6 t) = t"
  "((st AND 0x0F OR TIMER_LSB_MSB) OR push_bit 6 t) AND 0x0F = st AND 0x0F"
  "((st AND 0x0F OR TIMER_LSB_MSB) OR push_bit 6 t) AND 0x30 = 0x30"
  if "t = 0 \<or> t = 1 \<or> t = 2" for t st :: u8
proof -
  have k: "(0x0F :: u8) = mask 4" "TIMER_LSB_MSB = push_bit 4 (mask 2)" "(0x30 :: u8) = push_bit 4 (mask 2)"
    by (simp_all add: TIMER_LSB_MSB_def TIMER_LSB_def TIMER_MSB_def mask_eq_exp_minus_1)
  have t: "t = take_bit 2 t" using that by auto
  show "drop_bit 6 ((st AND 0x0F OR TIMER_LSB_MSB) OR push_bit 6 t) = t"
    by (subst (2) t, subst t, unfold k, rule bit_word_eqI) (auto simp: bit_simps)
  show "((st AND 0x0F OR TIMER_LSB_MSB) OR push_bit 6 t) AND 0x0F = st AND 0x0F"
    by (subst t, unfold k, rule bit_word_eqI) (auto simp: bit_simps)
  show "((st AND 0x0F OR TIMER_LSB_MSB) OR push_bit 6 t) AND 0x30 = 0x30"
    by (subst t, unfold k, rule bit_word_eqI) (auto simp: bit_simps)
qed

lemma timer_select_eq: "t = 0 \<or> t = 1 \<or> t = 2 \<Longrightarrow> timer_select t = Some (push_bit 6 t)"
  by (auto simp: timer_select_def TIMER_SEL0_def TIMER_SEL1_def TIMER_SEL2_def)

text \<open>For a timer 0, 1 or 2 and a frequency from 19 Hz (below, the divisor does not fit its two bytes) to
  the timer's own, \<open>timer_set_frequency\<close> asks for the timer's status, then writes one control word, which
  selects the timer and both bytes of the divisor and keeps the low four bits of the status (mode and
  base), and then the divisor's low and high byte, in this order, to the timer's port: the two bytes make up
  the whole quotient of the timer's frequency and the one asked for. Nothing else is written.\<close>

theorem timer_is_programmed:
  assumes "records_writes io st" and "timer = 0 \<or> timer = 1 \<or> timer = 2" and "19 \<le> freq" and "freq \<le> TIMER_FREQ"
  shows "\<exists>control lsb msb.
    timer_set_frequency io timer freq w
      = (Some (), w @ [(TIMER_CTRL, 0xE0 OR push_bit (unat timer + 1) 1), (TIMER_CTRL, ucast (control :: u8)),
                       (TIMER_0 + uint timer, ucast (lsb :: u8)), (TIMER_0 + uint timer, ucast (msb :: u8))])
    \<and> unat msb * 256 + unat lsb = 1193182 div unat freq
    \<and> drop_bit 6 control = timer \<and> control AND 0x30 = 0x30 \<and> control AND 0x0F = st AND 0x0F"
proof -
  let ?c = "(st AND 0x0F OR TIMER_LSB_MSB) OR push_bit 6 timer"
  let ?v = "ucast (TIMER_FREQ div freq) :: u16"
  have f: "freq \<noteq> 0" "\<not> TIMER_FREQ < freq" using assms(3,4) by auto
  have rb: "ucast (TIMER_RB_CMD OR TIMER_RB_COUNT OR TIMER_RB_SEL timer) = 0xE0 OR push_bit (unat timer + 1) (1 :: u32)"
    using assms(2) by (auto simp: TIMER_RB_CMD_def TIMER_RB_COUNT_def TIMER_RB_SEL_def)
  have st: "ucast (ucast st :: u32) = st" by simp
  have "timer_set_frequency io timer freq w
      = (Some (), w @ [(TIMER_CTRL, 0xE0 OR push_bit (unat timer + 1) 1), (TIMER_CTRL, ucast ?c),
                       (TIMER_0 + uint timer, ucast (util_get_LSB ?v)), (TIMER_0 + uint timer, ucast (util_get_MSB ?v))])"
    using assms(1) f timer_select_eq [OF assms(2)]
    by (simp add: timer_set_frequency_def timer_get_conf_def on_ok_def util_sys_inb_def records_writes_def
        succeed_def rb st Let_def)
  moreover have "unat (util_get_MSB ?v) * 256 + unat (util_get_LSB ?v) = 1193182 div unat freq"
    using divisor_fits [OF assms(3)] two_bytes [of ?v] by simp
  ultimately show ?thesis using control_word [OF assms(2), where st = st] by (intro exI conjI)
qed

definition recorder :: "u8 \<Rightarrow> ((int \<times> u32) list) io" where
  "recorder st = \<lparr>sys_inb = \<lambda>p w. (Some (ucast st), w), sys_outb = \<lambda>p v w. (Some (), w @ [(p, v)]),
     tickdelay = \<lambda>n w. w, sys_irqsetpolicy = \<lambda>l p h w. (Some h, w), sys_irqrmpolicy = \<lambda>h w. (Some (), w),
     print_err = \<lambda>s w. w\<rparr>"

lemma recorder_records: "records_writes (recorder st) st"
  by (simp add: records_writes_def recorder_def)

lemma timer_is_programmed_witness:
  "\<exists>control lsb msb.
    timer_set_frequency (recorder 0x34) 0 60 []
      = (Some (), [(TIMER_CTRL, 0xE2), (TIMER_CTRL, ucast (control :: u8)),
                   (TIMER_0, ucast (lsb :: u8)), (TIMER_0, ucast (msb :: u8))])
    \<and> unat msb * 256 + unat lsb = 19886
    \<and> drop_bit 6 control = 0 \<and> control AND 0x30 = 0x30 \<and> control AND 0x0F = 4"
  using timer_is_programmed [OF recorder_records [where st = "0x34"], where timer = 0 and freq = 60 and w = "[]"] by (simp add: TIMER_FREQ_def)

text \<open>Below 19 Hz the divisor loses its high bits: 18 Hz programs the rate for a divisor of 751.\<close>

lemma low_frequency_wraps: "unat (ucast (TIMER_FREQ div 18) :: u16) = 751"
  by (simp add: TIMER_FREQ_def)

section \<open>The time of a session\<close>

text \<open>\<open>n\<close> interrupts.\<close>

definition ticks :: "nat \<Rightarrow> timer \<Rightarrow> timer" where
  "ticks n = timer_int_handler ^^ n"

lemma ticks_counter: "int_counter (ticks n tm) = int_counter tm + of_nat n"
  unfolding ticks_def by (induction n) (simp_all add: timer_int_handler_def)

text \<open>As long as the 32 bit counter does not wrap, the session's seconds are a sixtieth of the ticks since
  it began.\<close>

lemma session_seconds:
  assumes "unat (int_counter tm) + n < 2 ^ 32"
  shows "session_time_get_seconds (ticks n tm) (session_time_reset tm) = of_nat (n div 60)"
proof -
  have n: "n < 2 ^ 32" using assms by simp
  have c: "unat (int_counter tm + of_nat n) = unat (int_counter tm) + n"
    using assms n by (simp add: unat_word_ariths(1) unat_of_nat)
  have "(ucast (int_counter (ticks n tm)) :: u64) = of_nat (unat (int_counter tm) + n)"
    by (simp only: ticks_counter flip: c) simp
  moreover have "(ucast (int_counter tm) :: u64) = of_nat (unat (int_counter tm))" by simp
  ultimately have d: "(ucast (int_counter (ticks n tm)) :: u64) - ucast (int_counter tm) = of_nat n"
    by (simp del: of_nat_unat)
  have "unat (of_nat n :: u64) = n" using n by (simp add: unat_of_nat)
  then have "unat ((of_nat n :: u64) div 60) = n div 60" by (simp add: unat_div_distrib)
  then have "(of_nat n :: u64) div 60 = of_nat (n div 60)" by (metis of_nat_unat ucast_id)
  then show ?thesis using d
    by (simp add: session_time_get_seconds_def session_time_reset_def get_int_counter_def TIMER_HZ64_def)
qed

lemma of_nat_div_mod:
  assumes "k < 2 ^ 64" and "c < 2 ^ 64"
  shows "(of_nat k :: u64) div of_nat c = of_nat (k div c)" and "(of_nat k :: u64) mod of_nat c = of_nat (k mod c)"
proof -
  have u: "unat (of_nat k :: u64) = k" "unat (of_nat c :: u64) = c" using assms by (simp_all add: unat_of_nat)
  have "unat ((of_nat k :: u64) div of_nat c) = k div c" by (simp add: unat_div_distrib u)
  then show "(of_nat k :: u64) div of_nat c = of_nat (k div c)" by (metis of_nat_unat ucast_id)
  have "unat ((of_nat k :: u64) mod of_nat c) = k mod c" by (simp add: unat_mod_distrib u)
  then show "(of_nat k :: u64) mod of_nat c = of_nat (k mod c)" by (metis of_nat_unat ucast_id)
qed

lemma small_int: "k < 2 ^ 31 \<Longrightarrow> sint (ucast (of_nat k :: u64) :: u32) = int k"
proof -
  assume k: "k < 2 ^ 31"
  then have "(ucast (of_nat k :: u64) :: u32) = of_nat k"
    using of_nat_unat [where w = "of_nat k :: u64" and 'a = "32 word"] by (simp add: unat_of_nat)
  then have "(ucast (of_nat k :: u64) :: u32) = word_of_int (int k)" by simp
  moreover have "signed_take_bit 31 (int k) = int k" using k by (simp add: signed_take_bit_int_eq_self_iff)
  then have "sint (word_of_int (int k) :: u32) = int k" by (simp only: signed_of_int) simp
  ultimately show ?thesis by simp
qed

lemma decimal_length: "n < 10 ^ Suc d \<Longrightarrow> length (decimal n) \<le> Suc d"
proof (induction d arbitrary: n)
  case 0
  then show ?case by (simp add: decimal.simps)
next
  case (Suc d)
  then have "n div 10 < 10 ^ Suc d" by (simp add: less_mult_imp_div_less mult.commute)
  with Suc.IH show ?case by (subst decimal.simps) auto
qed

lemma print_02d_length: "k < 10 ^ Suc d \<Longrightarrow> 1 \<le> d \<Longrightarrow> length (print_02d (int k)) \<le> Suc d"
  using decimal_length [of k d] decimal_length [of k 0] by (auto simp: print_02d_def)

text \<open>\<open>n\<close> timer interrupts after a file was opened, the status bar's session time is
  \<open>n div 60\<close> seconds, written as hours, minutes and seconds with at least two digits each, for every buffer
  that can hold them, as long as the 32 bit counter of interrupts has not wrapped around.\<close>

theorem session_time_shown:
  assumes "unat (int_counter tm) + n < 2 ^ 32" and "16 \<le> len"
  shows "session_time_format (ticks n tm) (session_time_reset tm) len
       = print_hms (int (n div 60 div 3600)) (int (n div 60 mod 3600 div 60)) (int (n div 60 mod 60))"
proof -
  let ?k = "n div 60"
  have n: "n < 2 ^ 32" using assms(1) by simp
  then have k: "?k < 2 ^ 31" by simp
  have d: "?k div 3600 < 2 ^ 31" "?k mod 3600 div 60 < 2 ^ 31" "?k mod 60 < 2 ^ 31" "?k mod 3600 < 2 ^ 64"
    using k by (auto intro: le_less_trans [OF div_le_dividend] le_less_trans [OF mod_less_eq_dividend])
  have w: "(of_nat ?k :: u64) div 3600 = of_nat (?k div 3600)" "(of_nat ?k :: u64) mod 3600 = of_nat (?k mod 3600)"
    "(of_nat ?k :: u64) mod 60 = of_nat (?k mod 60)"
    "(of_nat (?k mod 3600) :: u64) div 60 = of_nat (?k mod 3600 div 60)"
    using of_nat_div_mod [of ?k 3600] of_nat_div_mod [of ?k 60] of_nat_div_mod(1) [of "?k mod 3600" 60] k d(4)
    by simp_all
  have "?k div 3600 < 100000" "?k mod 3600 div 60 < 100" "?k mod 60 < 100" using n by auto
  then have l: "length (print_hms (int (?k div 3600)) (int (?k mod 3600 div 60)) (int (?k mod 60))) \<le> 15"
    using print_02d_length [of "?k div 3600" 4] print_02d_length [of "?k mod 3600 div 60" 1]
      print_02d_length [of "?k mod 60" 1] by (simp add: print_hms_def)
  have t: "take (len - 1) (print_hms (int (?k div 3600)) (int (?k mod 3600 div 60)) (int (?k mod 60)))
    = print_hms (int (?k div 3600)) (int (?k mod 3600 div 60)) (int (?k mod 60))" using l assms(2) by (intro take_all) linarith
  show ?thesis unfolding session_time_format_def session_seconds [OF assms(1)] Let_def w
    by (simp only: small_int [OF d(1)] small_int [OF d(2)] small_int [OF d(3)] t)
qed

lemma session_time_shown_witness:
  "session_time_format (ticks 223260 timer0) (session_time_reset timer0) 16 = ''01:02:01''"
  using session_time_shown [where tm = timer0 and n = 223260 and len = 16]
  by (simp add: print_hms_def print_02d_def decimal.simps char_of_def bit_0)

end
