(* ===== verification/Clock.thy ===== *)
theory Clock
  imports Timer
begin

text \<open>
  The date: \<open>framework/src/drivers/rtc.c\<close> reads the real time clock, in binary or BCD;
  \<open>model/time/clock.c\<close> keeps the time of day the status bar shows.
\<close>

section \<open>The driver\<close>

definition RTC_ADDR_REG :: int where "RTC_ADDR_REG = 0x70"
definition RTC_DATA_REG :: int where "RTC_DATA_REG = 0x71"
definition RTC_REG_SECONDS :: u8 where "RTC_REG_SECONDS = 0"
definition RTC_REG_MINUTES :: u8 where "RTC_REG_MINUTES = 2"
definition RTC_REG_HOURS :: u8 where "RTC_REG_HOURS = 4"
definition RTC_REG_DAY :: u8 where "RTC_REG_DAY = 7"
definition RTC_REG_MONTH :: u8 where "RTC_REG_MONTH = 8"
definition RTC_REG_YEAR :: u8 where "RTC_REG_YEAR = 9"
definition RTC_REG_A :: u8 where "RTC_REG_A = 10"
definition RTC_REG_B :: u8 where "RTC_REG_B = 11"
definition RTC_UIP_MSK :: u8 where "RTC_UIP_MSK = 0x80"
definition RTC_DM_MSK :: u8 where "RTC_DM_MSK = 0x04"

record rtc_date =
  seconds :: u8
  minutes :: u8
  hours :: u8
  day :: u8
  month :: u8
  year :: u8

definition bcd_to_bin :: "u8 \<Rightarrow> int" where
  "bcd_to_bin bcd = (let ones = bcd AND 0x0F; tens = drop_bit 4 bcd in uint tens * 10 + uint ones)"

definition rtc_read_reg :: "'w io \<Rightarrow> u8 \<Rightarrow> (u8, 'w) call" where
  "rtc_read_reg io reg =
     on_ok (sys_outb io RTC_ADDR_REG (ucast reg)) (fail io ERR_RTC ''rtc_read_reg: failed to write RTC address register'') (\<lambda>_.
     on_ok (sys_inb io RTC_DATA_REG) (fail io ERR_RTC ''rtc_read_reg: failed to read RTC data register'') (\<lambda>tmp.
     succeed (ucast tmp)))"

text \<open>The loop over register A; \<open>None\<close> when an update never ends.\<close>

partial_function (option) await_update :: "'w io \<Rightarrow> 'w \<Rightarrow> (u8 option \<times> 'w) option" where
  "await_update io w =
     (case rtc_read_reg io RTC_REG_A (tickdelay io 50 w) of
        (None, w) \<Rightarrow> Some (fail io ERR_RTC ''rtc_read_date: failed to read register A'' w)
      | (Some regA, w) \<Rightarrow> if regA AND RTC_UIP_MSK \<noteq> 0 then await_update io w else Some (Some regA, w))"

text \<open>After the loop: the mode and the six registers. \<open>date\<close> is not \<open>NULL\<close>.\<close>

definition read_registers :: "'w io \<Rightarrow> (rtc_date, 'w) call" where
  "read_registers io =
     on_ok (rtc_read_reg io RTC_REG_B) (fail io ERR_RTC ''rtc_read_date: failed to read register B'') (\<lambda>regB.
     let isBCD = (regB AND RTC_DM_MSK = 0);
         conv = (\<lambda>v. if isBCD then word_of_int (bcd_to_bin v) else v)
     in
     on_ok (rtc_read_reg io RTC_REG_SECONDS) (fail io ERR_RTC ''rtc_read_date: failed to read seconds'') (\<lambda>seconds.
     on_ok (rtc_read_reg io RTC_REG_MINUTES) (fail io ERR_RTC ''rtc_read_date: failed to read minutes'') (\<lambda>minutes.
     on_ok (rtc_read_reg io RTC_REG_HOURS) (fail io ERR_RTC ''rtc_read_date: failed to read hours'') (\<lambda>hours.
     on_ok (rtc_read_reg io RTC_REG_DAY) (fail io ERR_RTC ''rtc_read_date: failed to read day'') (\<lambda>day.
     on_ok (rtc_read_reg io RTC_REG_MONTH) (fail io ERR_RTC ''rtc_read_date: failed to read month'') (\<lambda>month.
     on_ok (rtc_read_reg io RTC_REG_YEAR) (fail io ERR_RTC ''rtc_read_date: failed to read year'') (\<lambda>year.
     succeed \<lparr>seconds = conv seconds, minutes = conv minutes, hours = conv hours, day = conv day,
              month = conv month, year = conv year\<rparr>)))))))"

definition rtc_read_date :: "'w io \<Rightarrow> 'w \<Rightarrow> (rtc_date option \<times> 'w) option" where
  "rtc_read_date io w = do {
     (a, w) \<leftarrow> await_update io w;
     Some (case a of None \<Rightarrow> (None, w) | Some _ \<Rightarrow> read_registers io w)
   }"

section \<open>The time of day\<close>

record clock =
  time_buf :: string
  last_second :: int

definition clock0 :: clock where
  "clock0 = \<lparr>time_buf = '''', last_second = -1\<rparr>"

text \<open>The result of \<open>rtc_read_date\<close> is ignored: on failure the date stays zero.\<close>

definition time_update :: "'w io \<Rightarrow> clock \<Rightarrow> 'w \<Rightarrow> (clock \<times> 'w) option" where
  "time_update io cl w = do {
     (r, w) \<leftarrow> rtc_read_date io w;
     let date = (case r of None \<Rightarrow> \<lparr>seconds = 0, minutes = 0, hours = 0, day = 0, month = 0, year = 0\<rparr> | Some date \<Rightarrow> date);
     Some (if uint (seconds date) = last_second cl then cl
           else cl\<lparr>time_buf := take 15 (print_hms (uint (hours date)) (uint (minutes date)) (uint (seconds date)))\<rparr>, w)
   }"

definition time_get_string :: "clock \<Rightarrow> string" where
  "time_get_string cl = time_buf cl"

section \<open>A clock chip\<close>

text \<open>
  The MC146818: a write to the address port selects a register, a read of the data port delivers it.
  Register A says that an update is in progress for the next \<open>busy\<close> reads.
\<close>

record chip =
  reg :: u8
  busy :: nat
  cell :: "u8 \<Rightarrow> u8"

definition chip_read :: "chip \<Rightarrow> u8 \<times> chip" where
  "chip_read c = (if reg c = RTC_REG_A
     then (if busy c = 0 then cell c RTC_REG_A AND 0x7F else cell c RTC_REG_A OR 0x80, c\<lparr>busy := busy c - 1\<rparr>)
     else (cell c (reg c), c))"

definition is_chip :: "chip io \<Rightarrow> bool" where
  "is_chip io \<longleftrightarrow> (\<forall>v c. sys_outb io RTC_ADDR_REG v c = (Some (), c\<lparr>reg := ucast v\<rparr>))
     \<and> (\<forall>c. sys_inb io RTC_DATA_REG c = (Some (ucast (fst (chip_read c))), snd (chip_read c)))
     \<and> (\<forall>n c. tickdelay io n c = c)"

text \<open>A number from 0 to 99 in a register of a clock in binary or BCD mode, and a date in its registers.\<close>

definition encoded :: "bool \<Rightarrow> u8 \<Rightarrow> u8" where
  "encoded bcd v = (if bcd then push_bit 4 (v div 10) OR (v mod 10) else v)"

definition keeps_date :: "(u8 \<Rightarrow> u8) \<Rightarrow> rtc_date \<Rightarrow> bool" where
  "keeps_date c d \<longleftrightarrow> (let bcd = (c RTC_REG_B AND RTC_DM_MSK = 0) in
     c RTC_REG_SECONDS = encoded bcd (seconds d) \<and> c RTC_REG_MINUTES = encoded bcd (minutes d)
     \<and> c RTC_REG_HOURS = encoded bcd (hours d) \<and> c RTC_REG_DAY = encoded bcd (day d)
     \<and> c RTC_REG_MONTH = encoded bcd (month d) \<and> c RTC_REG_YEAR = encoded bcd (year d))"

definition two_digits :: "rtc_date \<Rightarrow> bool" where
  "two_digits d \<longleftrightarrow> seconds d \<le> 99 \<and> minutes d \<le> 99 \<and> hours d \<le> 99 \<and> day d \<le> 99 \<and> month d \<le> 99 \<and> year d \<le> 99"

lemma bcd_to_bin_encoded:
  assumes "v \<le> 99"
  shows "word_of_int (bcd_to_bin (push_bit 4 (v div 10) OR (v mod 10))) = v"
proof -
  have "unat v \<in> set [0..<100]" using assms by (auto simp: word_le_nat_alt)
  then have "\<exists>n\<in>set [0..<100]. v = of_nat n" by (intro bexI [of _ "unat v"]) simp_all
  moreover have "\<forall>n\<in>set [0..<100]. word_of_int (bcd_to_bin (push_bit 4 ((of_nat n :: u8) div 10) OR (of_nat n mod 10))) = (of_nat n :: u8)"
    by (code_simp)
  ultimately show ?thesis by blast
qed

section \<open>The date read\<close>

lemma chip_reg: "is_chip io \<Longrightarrow> rtc_read_reg io r c = (Some (fst (chip_read (c\<lparr>reg := r\<rparr>))), snd (chip_read (c\<lparr>reg := r\<rparr>)))"
  by (simp add: rtc_read_reg_def is_chip_def succeed_def on_ok_def)

lemma chip_plain: "is_chip io \<Longrightarrow> r \<noteq> RTC_REG_A \<Longrightarrow> rtc_read_reg io r c = (Some (cell c r), c\<lparr>reg := r\<rparr>)"
  by (simp add: chip_reg chip_read_def)

lemma update_bit: "(v OR 0x80) AND 0x80 \<noteq> 0" "(v AND 0x7F) AND 0x80 = 0" for v :: u8
proof -
  have k: "(0x80 :: u8) = push_bit 7 1" by simp
  show "(v AND 0x7F) AND 0x80 = 0" by (simp add: and.assoc)
  have "bit ((v OR 0x80) AND 0x80) 7" unfolding k by (simp add: bit_simps)
  then show "(v OR 0x80) AND 0x80 \<noteq> 0" by (metis bit_0_eq bot_apply bot_bool_def)
qed

text \<open>The wait ends as soon as the update has ended.\<close>

lemma await_update_ends:
  assumes "is_chip io"
  shows "busy c = n \<Longrightarrow> \<exists>a. await_update io c = Some (Some a, c\<lparr>reg := RTC_REG_A, busy := 0\<rparr>)"
proof (induction n arbitrary: c)
  case 0
  have "tickdelay io 50 c = c" using assms by (simp add: is_chip_def)
  with 0 assms show ?case
    by (subst await_update.simps) (simp add: chip_reg chip_read_def RTC_UIP_MSK_def update_bit)
next
  case (Suc n)
  have t: "tickdelay io 50 c = c" using assms by (simp add: is_chip_def)
  let ?c = "c\<lparr>reg := RTC_REG_A, busy := n\<rparr>"
  obtain a where a: "await_update io ?c = Some (Some a, ?c\<lparr>reg := RTC_REG_A, busy := 0\<rparr>)"
    using Suc.IH [of ?c] by auto
  have "await_update io c = await_update io ?c" using t Suc.prems assms
    by (subst await_update.simps) (simp add: chip_reg chip_read_def RTC_UIP_MSK_def update_bit)
  with a show ?case by simp
qed

lemma reads_date:
  assumes "is_chip io" and "keeps_date (cell c) d" and "two_digits d"
  shows "rtc_read_date io c = Some (Some d, c\<lparr>reg := RTC_REG_YEAR, busy := 0\<rparr>)"
proof -
  let ?c = "c\<lparr>reg := RTC_REG_A, busy := 0\<rparr>"
  have ns: "RTC_REG_B \<noteq> RTC_REG_A" "RTC_REG_SECONDS \<noteq> RTC_REG_A" "RTC_REG_MINUTES \<noteq> RTC_REG_A"
    "RTC_REG_HOURS \<noteq> RTC_REG_A" "RTC_REG_DAY \<noteq> RTC_REG_A" "RTC_REG_MONTH \<noteq> RTC_REG_A" "RTC_REG_YEAR \<noteq> RTC_REG_A"
    by (simp_all add: RTC_REG_A_def RTC_REG_B_def RTC_REG_SECONDS_def RTC_REG_MINUTES_def RTC_REG_HOURS_def
        RTC_REG_DAY_def RTC_REG_MONTH_def RTC_REG_YEAR_def)
  obtain a where a: "await_update io c = Some (Some a, ?c)" using await_update_ends [OF assms(1) refl] by blast
  have conv: "(if bcd then word_of_int (bcd_to_bin (encoded bcd v)) else encoded bcd v) = v" if "v \<le> 99" for bcd v
    using that by (simp add: encoded_def bcd_to_bin_encoded)
  have "read_registers io ?c = (Some d, c\<lparr>reg := RTC_REG_YEAR, busy := 0\<rparr>)"
    using assms(2,3) by (cases d) (simp add: read_registers_def chip_plain [OF assms(1)] ns keeps_date_def
        two_digits_def conv succeed_def Let_def)
  with a show ?thesis by (simp add: rtc_read_date_def)
qed

definition clock_chip :: "chip io" where
  "clock_chip = \<lparr>sys_inb = \<lambda>p c. (Some (ucast (fst (chip_read c))), snd (chip_read c)),
     sys_outb = \<lambda>p v c. (Some (), c\<lparr>reg := ucast v\<rparr>), tickdelay = \<lambda>n c. c,
     sys_irqsetpolicy = \<lambda>l p h c. (Some h, c), sys_irqrmpolicy = \<lambda>h c. (Some (), c), print_err = \<lambda>s c. c\<rparr>"

definition some_date :: rtc_date where
  "some_date = \<lparr>seconds = 59, minutes = 30, hours = 23, day = 31, month = 12, year = 25\<rparr>"

definition bcd_chip :: chip where
  "bcd_chip = \<lparr>reg = 0, busy = 3, cell = (\<lambda>_. 0)(RTC_REG_SECONDS := 0x59, RTC_REG_MINUTES := 0x30,
     RTC_REG_HOURS := 0x23, RTC_REG_DAY := 0x31, RTC_REG_MONTH := 0x12, RTC_REG_YEAR := 0x25)\<rparr>"

lemmas rtc_regs = RTC_REG_A_def RTC_REG_B_def RTC_REG_SECONDS_def RTC_REG_MINUTES_def RTC_REG_HOURS_def
  RTC_REG_DAY_def RTC_REG_MONTH_def RTC_REG_YEAR_def RTC_DM_MSK_def

lemma clock_chip_ok: "is_chip clock_chip"
  by (simp add: is_chip_def clock_chip_def)

lemma bcd_chip_ok: "keeps_date (cell bcd_chip) some_date" "two_digits some_date"
  by (simp_all add: keeps_date_def bcd_chip_def some_date_def two_digits_def encoded_def rtc_regs)



end
