(* ===== verification/Video.thy ===== *)
theory Video
  imports Ports
begin

text \<open>
  \<open>framework/src/drivers/video.c\<close>: the graphics mode, the mapped video memory and the back buffer
  everything is drawn into before regions of it are copied to the screen. Both memories are arrays of
  bytes; the \<open>bb_\<close> functions write 32 bit words into the back buffer, least significant byte first.
  Unsigned products are written with their wrap-around.
\<close>

section \<open>The code\<close>

definition VBE_864p_DC :: u16 where "VBE_864p_DC = 0x14C"
definition VBE_MODE_SET :: u16 where "VBE_MODE_SET = 0x4F02"
definition VBE_LINEAR_FB :: u16 where "VBE_LINEAR_FB = push_bit 14 1"
definition BIOS_VIDEOCARD_SERV :: u8 where "BIOS_VIDEOCARD_SERV = 0x10"

text \<open>Minix and BIOS calls: parameters.\<close>

record reg86 =
  intno :: u8
  ax :: u16
  bx :: u16

record vbe_mode_info =
  BitsPerPixel :: u8
  XResolution :: u16
  YResolution :: u16
  PhysBasePtr :: u32

record 'w bios =
  sys_int86 :: "reg86 \<Rightarrow> (unit, 'w) call"
  vg_exit :: "(unit, 'w) call"
  vbe_get_mode_info :: "u16 \<Rightarrow> (vbe_mode_info, 'w) call"
  add_mem :: "int \<Rightarrow> int \<Rightarrow> (unit, 'w) call"
  vm_map_phys :: "int \<Rightarrow> int \<Rightarrow> (u8 list, 'w) call"

record video =
  video_mem :: "u8 list"
  h_res :: int
  v_res :: int
  bytes_per_pixel :: int
  frame_size :: int
  back_buffer :: "u8 cells option"
  vd_heap :: heap

definition vg_get_h_res :: "video \<Rightarrow> int" where "vg_get_h_res v = h_res v"
definition vg_get_v_res :: "video \<Rightarrow> int" where "vg_get_v_res v = v_res v"

definition set_graphics_mode :: "'w io \<Rightarrow> 'w bios \<Rightarrow> u16 \<Rightarrow> (unit, 'w) call" where
  "set_graphics_mode io b mode =
     on_ok (sys_int86 b \<lparr>intno = BIOS_VIDEOCARD_SERV, ax = VBE_MODE_SET, bx = mode OR VBE_LINEAR_FB\<rparr>)
       (fail io ERR_VIDEO ''set_graphics_mode: sys_int86 failed'') succeed"

definition set_text_mode :: "'w io \<Rightarrow> 'w bios \<Rightarrow> (unit, 'w) call" where
  "set_text_mode io b = on_ok (vg_exit b) (fail io ERR_VIDEO ''set_text_mode: vg_exit failed'') succeed"

text \<open>The result says whether the call succeeded; the sizes are set in any case after the mode is known.\<close>

definition vg_map_vram :: "'w io \<Rightarrow> 'w bios \<Rightarrow> u16 \<Rightarrow> video \<Rightarrow> 'w \<Rightarrow> (bool \<times> video) \<times> 'w" where
  "vg_map_vram io b mode v w =
     (let failed = (\<lambda>v msg w. ((False, v), snd (fail io ERR_VIDEO msg w :: unit option \<times> _))) in
      case vbe_get_mode_info b mode w of
        (None, w) \<Rightarrow> failed v ''vg_map_vram: vbe_get_mode_info failed'' w
      | (Some info, w) \<Rightarrow>
          let bpp = (uint (BitsPerPixel info) + 7) div 8;
              v = v\<lparr>bytes_per_pixel := bpp, h_res := uint (XResolution info), v_res := uint (YResolution info),
                    frame_size := (uint (XResolution info) * uint (YResolution info) * bpp) mod 2 ^ 32\<rparr>;
              base = uint (PhysBasePtr info)
          in case add_mem b base ((base + frame_size v) mod 2 ^ 32) w of
               (None, w) \<Rightarrow> failed v ''vg_map_vram: sys_privctl failed'' w
             | (Some _, w) \<Rightarrow>
                 (case vm_map_phys b base (frame_size v) w of
                    (None, w) \<Rightarrow> failed v ''vg_map_vram: vm_map_phys failed'' w
                  | (Some m, w) \<Rightarrow> ((True, v\<lparr>video_mem := m\<rparr>), w)))"

text \<open>\<open>memcpy (video_mem + index, &color, bytes_per_pixel)\<close>: a colour has four bytes.\<close>

definition le32 :: "u32 \<Rightarrow> u8 list" where
  "le32 c = [ucast c, ucast (drop_bit 8 c), ucast (drop_bit 16 c), ucast (drop_bit 24 c)]"

definition vg_draw_pixel :: "u16 \<Rightarrow> u16 \<Rightarrow> u32 \<Rightarrow> video \<Rightarrow> video option" where
  "vg_draw_pixel x y color v =
     (if h_res v \<le> uint x \<or> v_res v \<le> uint y then Some v
      else do {
        let index = ((h_res v * uint y + uint x) * bytes_per_pixel v) mod 2 ^ 32;
        m \<leftarrow> blit (video_mem v) index (le32 color) 0 (bytes_per_pixel v);
        Some (v\<lparr>video_mem := m\<rparr>)
      })"

text \<open>The loops over the pixels of a line and the lines of a rectangle, \<open>n\<close> from \<open>i\<close> on.\<close>

fun vg_hline_from :: "nat \<Rightarrow> u16 \<Rightarrow> u16 \<Rightarrow> nat \<Rightarrow> u32 \<Rightarrow> video \<Rightarrow> video option" where
  "vg_hline_from i x y 0 color v = Some v"
| "vg_hline_from i x y (Suc n) color v =
     do { v \<leftarrow> vg_draw_pixel (x + of_nat i) y color v; vg_hline_from (i + 1) x y n color v }"

definition vg_draw_hline :: "u16 \<Rightarrow> u16 \<Rightarrow> u16 \<Rightarrow> u32 \<Rightarrow> video \<Rightarrow> video option" where
  "vg_draw_hline x y len color v = vg_hline_from 0 x y (unat len) color v"

fun vg_rectangle_from :: "nat \<Rightarrow> u16 \<Rightarrow> u16 \<Rightarrow> u16 \<Rightarrow> nat \<Rightarrow> u32 \<Rightarrow> video \<Rightarrow> video option" where
  "vg_rectangle_from i x y width 0 color v = Some v"
| "vg_rectangle_from i x y width (Suc n) color v =
     do { v \<leftarrow> vg_draw_hline x (y + of_nat i) width color v; vg_rectangle_from (i + 1) x y width n color v }"

definition vg_draw_rectangle :: "u16 \<Rightarrow> u16 \<Rightarrow> u16 \<Rightarrow> u16 \<Rightarrow> u32 \<Rightarrow> video \<Rightarrow> video option" where
  "vg_draw_rectangle x y width height color v = vg_rectangle_from 0 x y width (unat height) color v"

text \<open>
  The pixels of an image \<open>xpm_load\<close> has loaded, \<open>n\<close> from the \<open>k\<close>th on, row by row. \<open>xpm_load\<close> is a
  parameter: the sizes and the bytes of the image. In the 24 bit mode, too, the colours are read as
  words of four bytes.
\<close>

datatype xpm_type = XPM_INDEXED | XPM_8_8_8 | XPM_8_8_8_8

definition of_le32 :: "u8 list \<Rightarrow> u32" where
  "of_le32 bs = foldr (\<lambda>b c. ucast b OR push_bit 8 c) bs 0"

definition xpm_pixel :: "xpm_type \<Rightarrow> u8 list \<Rightarrow> nat \<Rightarrow> u32 option" where
  "xpm_pixel typ raw idx =
     (if typ = XPM_INDEXED then (if idx < length raw then Some (ucast (raw ! idx)) else None)
      else if 4 * idx + 4 \<le> length raw then Some (of_le32 (take 4 (drop (4 * idx) raw))) else None)"

fun xpm_from :: "xpm_type \<Rightarrow> u8 list \<Rightarrow> int \<Rightarrow> nat \<Rightarrow> nat \<Rightarrow> u16 \<Rightarrow> u16 \<Rightarrow> video \<Rightarrow> video option" where
  "xpm_from typ raw width k 0 x y v = Some v"
| "xpm_from typ raw width k (Suc n) x y v = do {
     color \<leftarrow> xpm_pixel typ raw k;
     v \<leftarrow> vg_draw_pixel (x + word_of_int (int k mod width)) (y + word_of_int (int k div width)) color v;
     xpm_from typ raw width (k + 1) n x y v
   }"

definition print_xpm :: "'w io \<Rightarrow> (xpm_type \<Rightarrow> (u16 \<times> u16 \<times> u8 list) option) \<Rightarrow> u16 \<Rightarrow> u16 \<Rightarrow> video \<Rightarrow> 'w
    \<Rightarrow> ((bool \<times> video) \<times> 'w) option" where
  "print_xpm io xpm_load x y v w =
     (let failed = (\<lambda>msg. Some ((False, v), snd (fail io ERR_VIDEO msg w :: unit option \<times> _)));
          typ = (if bytes_per_pixel v = 1 then Some XPM_INDEXED else if bytes_per_pixel v = 3 then Some XPM_8_8_8
                 else if bytes_per_pixel v = 4 then Some XPM_8_8_8_8 else None)
      in case typ of None \<Rightarrow> failed ''print_xpm: unsupported bytes_per_pixel''
         | Some typ \<Rightarrow>
             (case xpm_load typ of None \<Rightarrow> failed ''print_xpm: xpm_load failed''
              | Some (width, height, raw) \<Rightarrow> do {
                  v \<leftarrow> xpm_from typ raw (uint width) 0 (unat width * unat height) x y v;
                  Some ((True, v), w)
                }))"

text \<open>The result says whether the call succeeded. The back buffer is indeterminate until it is cleared.\<close>

definition video_init :: "'w io \<Rightarrow> 'w bios \<Rightarrow> u16 \<Rightarrow> video \<Rightarrow> 'w \<Rightarrow> ((bool \<times> video) \<times> 'w) option" where
  "video_init io b mode v w =
     (let failed = (\<lambda>v msg w. Some ((False, v), snd (fail io ERR_VIDEO msg w :: unit option \<times> _)));
          ((ok, v), w) = vg_map_vram io b mode v w
      in if \<not> ok then failed v ''video_init: vg_map_vram failed'' w else
      case set_graphics_mode io b mode w of
        (None, w) \<Rightarrow> failed v ''video_init: set_graphics_mode failed'' w
      | (Some _, w) \<Rightarrow>
          let (ok, h) = malloc_ok (vd_heap v); v = v\<lparr>vd_heap := h\<rparr> in
          if \<not> ok then failed (v\<lparr>back_buffer := None\<rparr>) ''video_init: malloc back_buffer failed'' w
          else do {
            a \<leftarrow> afill (fresh (frame_size v)) 0 0 (frame_size v);
            Some ((True, v\<lparr>back_buffer := Some a\<rparr>), w)
          })"

text \<open>Copying the back buffer to the screen: the bytes copied have been written.\<close>

definition to_screen :: "int \<Rightarrow> int \<Rightarrow> video \<Rightarrow> video option" where
  "to_screen offset n v = do {
     b \<leftarrow> back_buffer v;
     m \<leftarrow> blit (map Some (video_mem v)) offset b offset n;
     m \<leftarrow> those m;
     Some (v\<lparr>video_mem := m\<rparr>)
   }"

definition vg_flip_buffer :: "video \<Rightarrow> video option" where
  "vg_flip_buffer v = to_screen 0 (frame_size v) v"

text \<open>The loop of \<open>vg_flip_region\<close>; \<open>row\<close> has 16 bits, its bound does not.\<close>

partial_function (option) flip_rows :: "u16 \<Rightarrow> u16 \<Rightarrow> u16 \<Rightarrow> u16 \<Rightarrow> u16 \<Rightarrow> video \<Rightarrow> video option" where
  "flip_rows row x y w h v =
     (if uint row < uint y + uint h then do {
        let offset = ((uint row * h_res v + uint x) * bytes_per_pixel v) mod 2 ^ 32;
        v \<leftarrow> to_screen offset ((uint w * bytes_per_pixel v) mod 2 ^ 32) v;
        flip_rows (row + 1) x y w h v
      } else Some v)"

definition vg_flip_region :: "u16 \<Rightarrow> u16 \<Rightarrow> u16 \<Rightarrow> u16 \<Rightarrow> video \<Rightarrow> video option" where
  "vg_flip_region x y w h v = flip_rows y x y w h v"

definition video_cleanup :: "'w io \<Rightarrow> 'w bios \<Rightarrow> video \<Rightarrow> 'w \<Rightarrow> video \<times> 'w" where
  "video_cleanup io b v w = (v\<lparr>back_buffer := None\<rparr>, snd (set_text_mode io b w))"

text \<open>\<open>((uint32_t *) back_buffer)[i]\<close>.\<close>

definition put32 :: "int \<Rightarrow> u32 \<Rightarrow> video \<Rightarrow> video option" where
  "put32 i color v = do {
     b \<leftarrow> back_buffer v;
     b \<leftarrow> blit b (4 * i) (map Some (le32 color)) 0 4;
     Some (v\<lparr>back_buffer := Some b\<rparr>)
   }"

definition get32 :: "int \<Rightarrow> video \<Rightarrow> u32 option" where
  "get32 i v = do {
     b \<leftarrow> back_buffer v;
     bs \<leftarrow> blit (fresh 4) 0 b (4 * i) 4;
     bs \<leftarrow> those bs;
     Some (of_le32 bs)
   }"

definition bb_draw_pixel :: "u16 \<Rightarrow> u16 \<Rightarrow> u32 \<Rightarrow> video \<Rightarrow> video option" where
  "bb_draw_pixel x y color v =
     (if h_res v \<le> uint x \<or> v_res v \<le> uint y then Some v
      else put32 ((uint y * h_res v + uint x) mod 2 ^ 32) color v)"

definition bb_get_pixel :: "u16 \<Rightarrow> u16 \<Rightarrow> video \<Rightarrow> u32 option" where
  "bb_get_pixel x y v =
     (if h_res v \<le> uint x \<or> v_res v \<le> uint y then Some 0
      else get32 ((uint y * h_res v + uint x) mod 2 ^ 32) v)"

text \<open>The pointer is the index of the word it points to; \<open>None\<close> is \<open>NULL\<close>.\<close>

definition bb_row_ptr :: "u16 \<Rightarrow> video \<Rightarrow> int option" where
  "bb_row_ptr y v = (if v_res v \<le> uint y then None else Some ((uint y * h_res v) mod 2 ^ 32))"

text \<open>\<open>for (i = 0; i < n; i++) p[i] = color\<close>.\<close>

fun put_words :: "int \<Rightarrow> nat \<Rightarrow> u32 \<Rightarrow> video \<Rightarrow> video option" where
  "put_words p 0 color v = Some v"
| "put_words p (Suc n) color v = do { v \<leftarrow> put32 p color v; put_words (p + 1) n color v }"

definition bb_draw_hline :: "u16 \<Rightarrow> u16 \<Rightarrow> u16 \<Rightarrow> u32 \<Rightarrow> video \<Rightarrow> video option" where
  "bb_draw_hline x y len color v =
     (if v_res v \<le> uint y \<or> h_res v \<le> uint x then Some v
      else
        let len = (if h_res v < uint x + uint len then (h_res v - uint x) mod 2 ^ 16 else uint len)
        in put_words ((uint y * h_res v) mod 2 ^ 32 + uint x) (nat len) color v)"

fun rect_from :: "nat \<Rightarrow> u16 \<Rightarrow> u16 \<Rightarrow> u16 \<Rightarrow> nat \<Rightarrow> u32 \<Rightarrow> video \<Rightarrow> video option" where
  "rect_from i x y w 0 color v = Some v"
| "rect_from i x y w (Suc n) color v =
     do { v \<leftarrow> bb_draw_hline x (y + of_nat i) w color v; rect_from (i + 1) x y w n color v }"

definition bb_draw_rect :: "u16 \<Rightarrow> u16 \<Rightarrow> u16 \<Rightarrow> u16 \<Rightarrow> u32 \<Rightarrow> video \<Rightarrow> video option" where
  "bb_draw_rect x y w h color v = rect_from 0 x y w (unat h) color v"

definition bb_clear :: "u32 \<Rightarrow> video \<Rightarrow> video option" where
  "bb_clear color v =
     (if color = 0 then do {
        b \<leftarrow> back_buffer v;
        b \<leftarrow> afill b 0 0 (frame_size v);
        Some (v\<lparr>back_buffer := Some b\<rparr>)
      } else put_words 0 (nat ((h_res v * v_res v) mod 2 ^ 32)) color v)"

definition video0 :: video where
  "video0 = \<lparr>video_mem = [], h_res = 0, v_res = 0, bytes_per_pixel = 0, frame_size = 0, back_buffer = None, vd_heap = []\<rparr>"

section \<open>Pictures\<close>

text \<open>
  A picture gives every position its colour; a memory holds the words of its pixels, row after row. The
  state is that of a 32 bit graphics mode, with sizes whose products fit 32 bits.
\<close>

type_synonym picture = "int \<Rightarrow> int \<Rightarrow> u32"

definition pixels :: "int \<Rightarrow> int \<Rightarrow> picture \<Rightarrow> u32 list" where
  "pixels w h f = map (\<lambda>i. f (int i mod w) (int i div w)) [0..<nat (w * h)]"

definition bytes :: "u32 list \<Rightarrow> u8 list" where
  "bytes ps = concat (map le32 ps)"

definition mode32 :: "video \<Rightarrow> bool" where
  "mode32 v \<longleftrightarrow> 0 < h_res v \<and> h_res v < 2 ^ 16 \<and> 0 < v_res v \<and> v_res v < 2 ^ 16
     \<and> 4 * (h_res v * v_res v) < 2 ^ 32 \<and> bytes_per_pixel v = 4 \<and> frame_size v = 4 * (h_res v * v_res v)"

definition drawn :: "video \<Rightarrow> picture \<Rightarrow> bool" where
  "drawn v f \<longleftrightarrow> mode32 v \<and> back_buffer v = Some (map Some (bytes (pixels (h_res v) (v_res v) f)))"

definition displayed :: "video \<Rightarrow> picture \<Rightarrow> bool" where
  "displayed v f \<longleftrightarrow> video_mem v = bytes (pixels (h_res v) (v_res v) f)"

definition draw :: "picture \<Rightarrow> video \<Rightarrow> video" where
  "draw f v = v\<lparr>back_buffer := Some (map Some (bytes (pixels (h_res v) (v_res v) f)))\<rparr>"

text \<open>A rectangle filled with the colours of another picture.\<close>

definition patch :: "int \<Rightarrow> int \<Rightarrow> int \<Rightarrow> int \<Rightarrow> picture \<Rightarrow> picture \<Rightarrow> picture" where
  "patch x y w h g f = (\<lambda>a b. if x \<le> a \<and> a < x + w \<and> y \<le> b \<and> b < y + h then g a b else f a b)"

abbreviation plain :: "u32 \<Rightarrow> picture" where "plain c \<equiv> \<lambda>_ _. c"

lemma length_le32 [simp]: "length (le32 c) = 4"
  by (simp add: le32_def)

lemma of_le32_le32 [simp]: "of_le32 (le32 c) = c"
proof (rule bit_word_eqI)
  fix n assume n: "n < LENGTH(32)"
  consider "n < 8" | "8 \<le> n" "n < 16" | "16 \<le> n" "n < 24" | "24 \<le> n" by linarith
  then show "bit (of_le32 (le32 c)) n = bit c n" unfolding of_le32_def le32_def
    using n by cases (auto simp: bit_simps)
qed

lemma bytes_append [simp]: "bytes (ps @ qs) = bytes ps @ bytes qs"
  and bytes_Cons [simp]: "bytes (p # ps) = le32 p @ bytes ps"
  and bytes_Nil [simp]: "bytes [] = []"
  by (simp_all add: bytes_def)

lemma length_bytes [simp]: "length (bytes ps) = 4 * length ps"
  by (induction ps) simp_all

lemma length_pixels [simp]: "length (pixels w h f) = nat (w * h)"
  by (simp add: pixels_def)

lemma draw_simps [simp]: "h_res (draw f v) = h_res v" "v_res (draw f v) = v_res v"
  "bytes_per_pixel (draw f v) = bytes_per_pixel v" "frame_size (draw f v) = frame_size v"
  "video_mem (draw f v) = video_mem v" "vd_heap (draw f v) = vd_heap v"
  "mode32 (draw f v) = mode32 v" "draw f (draw g v) = draw f v"
  by (simp_all add: draw_def mode32_def)

lemma drawn_draw [simp]: "drawn (draw f v) f = mode32 v"
  by (simp add: drawn_def draw_def mode32_def)

lemma drawn_eq: "drawn v f \<Longrightarrow> v = draw f v"
  by (simp add: drawn_def draw_def)

lemma drawn_mode: "drawn v f \<Longrightarrow> mode32 v"
  by (simp add: drawn_def)

text \<open>Only what is on the screen counts.\<close>

lemma pixels_cong:
  "(\<And>x y. 0 \<le> x \<Longrightarrow> x < w \<Longrightarrow> 0 \<le> y \<Longrightarrow> y < h \<Longrightarrow> f x y = g x y) \<Longrightarrow> 0 < w \<Longrightarrow> pixels w h f = pixels w h g"
  unfolding pixels_def
proof (rule map_cong [OF refl])
  fix i
  assume eq: "\<And>x y. 0 \<le> x \<Longrightarrow> x < w \<Longrightarrow> 0 \<le> y \<Longrightarrow> y < h \<Longrightarrow> f x y = g x y" and w: "0 < w"
    and "i \<in> set [0..<nat (w * h)]"
  then have "int i < w * h" by auto
  moreover have "int i div w * w \<le> int i" using w by (simp add: div_mult_mod_eq [symmetric] minus_mod_eq_div_mult [symmetric])
  ultimately have "int i div w * w < h * w" by (simp add: mult.commute)
  then have "int i div w < h" using w by (simp only: mult_less_cancel_right)
  then show "f (int i mod w) (int i div w) = g (int i mod w) (int i div w)"
    using w by (intro eq pos_mod_bound pos_mod_sign pos_imp_zdiv_nonneg_iff [THEN iffD2]) simp_all
qed

lemma draw_cong:
  assumes "mode32 v" and "\<And>x y. 0 \<le> x \<Longrightarrow> x < h_res v \<Longrightarrow> 0 \<le> y \<Longrightarrow> y < v_res v \<Longrightarrow> f x y = g x y"
  shows "draw f v = draw g v"
proof -
  have "0 < h_res v" using assms(1) by (simp add: mode32_def)
  then have "pixels (h_res v) (v_res v) f = pixels (h_res v) (v_res v) g"
    by (intro pixels_cong) (rule assms(2))
  then show ?thesis by (simp add: draw_def)
qed

text \<open>The pixels of two pictures, one row's part of one in the other.\<close>

lemma pixel_index:
  fixes x y w h :: int
  assumes "0 \<le> x" and "x < w" and "0 \<le> y" and "y < h"
  shows "0 \<le> y * w + x" and "y * w + x < w * h"
proof -
  show "0 \<le> y * w + x" using assms by (intro add_nonneg_nonneg mult_nonneg_nonneg) auto
  have "y * w + x < (y + 1) * w" using assms by (simp add: algebra_simps)
  also have "\<dots> \<le> h * w" using assms by (intro mult_right_mono) auto
  finally show "y * w + x < w * h" by (simp add: mult.commute)
qed

lemma in_row:
  fixes x y w n i :: int
  assumes "0 \<le> x" and "x + n \<le> w" and "0 \<le> n" and "0 < w" and "0 \<le> i"
  shows "y * w + x \<le> i \<and> i < y * w + x + n \<longleftrightarrow> x \<le> i mod w \<and> i mod w < x + n \<and> y \<le> i div w \<and> i div w < y + 1"
proof -
  have i: "i = i div w * w + i mod w" by (rule div_mult_mod_eq [symmetric])
  have m: "0 \<le> i mod w" "i mod w < w" using assms by simp_all
  show ?thesis
  proof
    assume r: "y * w + x \<le> i \<and> i < y * w + x + n"
    have "i div w = y" using r assms(1,2,4)
      by (intro int_div_pos_eq [of _ w y "i - y * w"]) (auto simp: algebra_simps)
    then show "x \<le> i mod w \<and> i mod w < x + n \<and> y \<le> i div w \<and> i div w < y + 1" using r i by auto
  next
    assume r: "x \<le> i mod w \<and> i mod w < x + n \<and> y \<le> i div w \<and> i div w < y + 1"
    then have "i div w = y" by simp
    with i have "i = y * w + i mod w" by simp
    with r show "y * w + x \<le> i \<and> i < y * w + x + n" by linarith
  qed
qed

lemma nth_overlay:
  assumes "length gs = length fs" and "p + n \<le> length fs" and "i < length fs"
  shows "(take p fs @ take n (drop p gs) @ drop (p + n) fs) ! i = (if p \<le> i \<and> i < p + n then gs ! i else fs ! i)"
proof -
  have l: "length (take p fs) = p" "length (take n (drop p gs)) = n" using assms by simp_all
  consider "i < p" | "p \<le> i" "i < p + n" | "p + n \<le> i" by linarith
  then show ?thesis
  proof cases
    case 2
    then have "i - p < n" by simp
    with 2 l assms show ?thesis by (simp add: nth_append)
  next
    case 3
    then have "\<not> i < p" "\<not> i - p < n" "p + n + (i - p - n) = i" by simp_all
    with 3 l assms show ?thesis by (simp add: nth_append)
  qed (use assms in \<open>simp add: nth_append\<close>)
qed

lemma pixels_row:
  assumes "0 \<le> x" and "x + n \<le> w" and "0 \<le> n" and "0 < w" and "0 \<le> y" and "y < h"
  shows "take (nat (y * w + x)) (pixels w h f) @ take (nat n) (drop (nat (y * w + x)) (pixels w h g))
      @ drop (nat (y * w + x + n)) (pixels w h f) = pixels w h (patch x y n 1 g f)"
proof (cases "n = 0")
  case True
  have "patch x y 0 1 g f = f" by (auto simp: patch_def fun_eq_iff)
  with True show ?thesis by simp
next
  case False
  let ?p = "nat (y * w + x)"
  have "y * w + (x + n - 1) < w * h" using assms False by (intro pixel_index) auto
  then have "nat (y * w + x + n) \<le> nat (w * h)" by (intro nat_mono) simp
  moreover have nn: "0 \<le> y * w + x" using assms by simp
  have e: "nat (y * w + x + n) = ?p + nat n" by (rule nat_add_distrib [OF nn assms(3)])
  ultimately have le: "?p + nat n \<le> nat (w * h)" by simp
  show ?thesis unfolding e
  proof (rule nth_equalityI)
    show "length (take ?p (pixels w h f) @ take (nat n) (drop ?p (pixels w h g)) @ drop (?p + nat n) (pixels w h f))
        = length (pixels w h (patch x y n 1 g f))" using le by simp
  next
    fix i assume "i < length (take ?p (pixels w h f) @ take (nat n) (drop ?p (pixels w h g)) @ drop (?p + nat n) (pixels w h f))"
    then have i: "i < nat (w * h)" using le by simp
    have "?p \<le> i \<and> i < ?p + nat n \<longleftrightarrow> y * w + x \<le> int i \<and> int i < y * w + x + n"
      unfolding e [symmetric] by (simp only: nat_le_iff zless_nat_eq_int_zless)
    also have "\<dots> \<longleftrightarrow> x \<le> int i mod w \<and> int i mod w < x + n \<and> y \<le> int i div w \<and> int i div w < y + 1"
      using assms by (intro in_row) auto
    finally have in_eq: "?p \<le> i \<and> i < ?p + nat n \<longleftrightarrow> x \<le> int i mod w \<and> int i mod w < x + n \<and> y \<le> int i div w \<and> int i div w < y + 1" .
    have lhs: "(take ?p (pixels w h f) @ take (nat n) (drop ?p (pixels w h g)) @ drop (?p + nat n) (pixels w h f)) ! i
       = (if ?p \<le> i \<and> i < ?p + nat n then pixels w h g ! i else pixels w h f ! i)"
      by (rule nth_overlay) (use i le in simp_all)
    show "(take ?p (pixels w h f) @ take (nat n) (drop ?p (pixels w h g)) @ drop (?p + nat n) (pixels w h f)) ! i
        = pixels w h (patch x y n 1 g f) ! i"
      unfolding lhs in_eq using i by (simp add: pixels_def patch_def)
  qed
qed

section \<open>Drawing into the back buffer\<close>

lemma word_index:
  assumes "mode32 v" and "0 \<le> x" and "x < h_res v" and "0 \<le> y" and "y < v_res v"
  shows "(y * h_res v + x) mod 2 ^ 32 = y * h_res v + x" and "(y * h_res v) mod 2 ^ 32 = y * h_res v"
proof -
  have "y * h_res v + x < h_res v * v_res v" by (rule pixel_index(2)) (use assms in auto)
  moreover have "0 \<le> y * h_res v" using assms by (simp add: mode32_def)
  ultimately have "0 \<le> y * h_res v + x" "y * h_res v + x < 2 ^ 32" "0 \<le> y * h_res v" "y * h_res v < 2 ^ 32"
    using assms by (simp_all add: mode32_def)
  then show "(y * h_res v + x) mod 2 ^ 32 = y * h_res v + x" "(y * h_res v) mod 2 ^ 32 = y * h_res v"
    by (simp_all only: mod_pos_pos_trivial)
qed

text \<open>A list of words, split where it is written to.\<close>

lemma words_split:
  assumes "i + n \<le> length ps"
  obtains A M B where "ps = A @ M @ B" and "length A = i" and "length M = n"
proof
  show "ps = take i ps @ take n (drop i ps) @ drop (i + n) ps"
    by (metis append_take_drop_id take_add append.assoc)
qed (use assms in auto)

lemma blit_words:
  assumes "length ps = length qs" and "i + n \<le> length ps"
  shows "blit (map f (bytes ps)) (4 * int i) (map f (bytes qs)) (4 * int i) (4 * int n)
    = Some (map f (bytes (take i ps @ take n (drop i qs) @ drop (i + n) ps)))"
proof -
  obtain A M B where p: "ps = A @ M @ B" "length A = i" "length M = n" using assms(2) by (rule words_split)
  obtain A' M' B' where q: "qs = A' @ M' @ B'" "length A' = i" "length M' = n"
    using assms by (metis words_split)
  have "blit (map f (bytes A) @ map f (bytes M) @ map f (bytes B)) (4 * int i)
      (map f (bytes A') @ map f (bytes M') @ map f (bytes B')) (4 * int i) (4 * int n)
      = Some (map f (bytes A) @ map f (bytes M') @ map f (bytes B))"
    by (rule blit_split) (simp_all add: p q)
  then show ?thesis using p q by simp
qed

lemma put32_bytes:
  assumes "back_buffer v = Some (map Some (bytes ps))" and "0 \<le> i" and "i < int (length ps)"
  shows "put32 i c v = Some (v\<lparr>back_buffer := Some (map Some (bytes (ps[nat i := c])))\<rparr>)"
proof -
  have i: "nat i < length ps" using assms by simp
  let ?A = "take (nat i) ps" and ?B = "drop (Suc (nat i)) ps"
  have p: "ps = ?A @ ps ! nat i # ?B" using i by (simp add: id_take_nth_drop)
  have u: "ps[nat i := c] = ?A @ c # ?B" using i by (simp add: upd_conv_take_nth_drop)
  have "blit (map Some (bytes ?A) @ map Some (le32 (ps ! nat i)) @ map Some (bytes ?B)) (4 * i)
     ([] @ map Some (le32 c) @ []) 0 4 = Some (map Some (bytes ?A) @ map Some (le32 c) @ map Some (bytes ?B))"
    by (rule blit_split) (use i assms(2) in simp_all)
  then have "blit (map Some (bytes ps)) (4 * i) (map Some (le32 c)) 0 4 = Some (map Some (bytes (ps[nat i := c])))"
    unfolding u by (subst p) simp
  then show ?thesis using assms(1) by (simp add: put32_def)
qed

lemma get32_bytes:
  assumes "back_buffer v = Some (map Some (bytes ps))" and "0 \<le> i" and "i < int (length ps)"
  shows "get32 i v = Some (ps ! nat i)"
proof -
  have i: "nat i < length ps" using assms by simp
  let ?A = "take (nat i) ps" and ?B = "drop (Suc (nat i)) ps"
  have p: "ps = ?A @ ps ! nat i # ?B" using i by (simp add: id_take_nth_drop)
  have "blit ([] @ fresh 4 @ []) 0 (map Some (bytes ?A) @ map Some (le32 (ps ! nat i)) @ map Some (bytes ?B)) (4 * i) 4
      = Some ([] @ map Some (le32 (ps ! nat i)) @ [])"
    by (rule blit_split) (use i assms(2) in simp_all)
  then have "blit (fresh 4) 0 (map Some (bytes ps)) (4 * i) 4 = Some (map Some (le32 (ps ! nat i)))"
    by (subst p) simp
  then show ?thesis using assms(1) by (simp add: get32_def those_map_Some)
qed

lemma update_take: "i < length ps \<Longrightarrow> ps[i := c] = take i ps @ take 1 (drop i qs) @ drop (i + 1) ps"
  if "i < length qs" and "qs ! i = c" for ps qs :: "'a list"
proof -
  have "take 1 (drop i qs) = [c]" using that by (simp add: Cons_nth_drop_Suc [symmetric])
  then show "i < length ps \<Longrightarrow> ps[i := c] = take i ps @ take 1 (drop i qs) @ drop (i + 1) ps"
    by (simp add: upd_conv_take_nth_drop)
qed

lemma pixels_nth:
  assumes "0 \<le> x" and "x < w" and "0 \<le> y" and "y < h"
  shows "pixels w h f ! nat (y * w + x) = f x y"
proof -
  let ?i = "y * w + x"
  have "nat ?i < nat (w * h)" "int (nat ?i) = ?i" using pixel_index [OF assms] by simp_all
  moreover have "?i mod w = x" "?i div w = y" using assms by simp_all
  ultimately show ?thesis by (simp add: pixels_def)
qed

lemma pixels_update:
  assumes "0 \<le> x" and "x < w" and "0 \<le> y" and "y < h"
  shows "(pixels w h f)[nat (y * w + x) := c] = pixels w h (patch x y 1 1 (plain c) f)"
proof -
  let ?p = "nat (y * w + x)"
  have lt: "?p < nat (w * h)" using pixel_index [OF assms] by simp
  have c: "pixels w h (plain c) ! ?p = c" by (rule pixels_nth [OF assms])
  have e: "nat (y * w + x + 1) = ?p + 1" using pixel_index(1) [OF assms] by simp
  have "(pixels w h f)[?p := c] = take ?p (pixels w h f) @ take 1 (drop ?p (pixels w h (plain c))) @ drop (?p + 1) (pixels w h f)"
    by (rule update_take) (use lt c in simp_all)
  then show ?thesis using pixels_row [of x 1 w y h f "plain c"] assms e by simp
qed

lemma put_pixel:
  assumes "drawn v f" and "0 \<le> x" and "x < h_res v" and "0 \<le> y" and "y < v_res v"
  shows "put32 (y * h_res v + x) c v = Some (draw (patch x y 1 1 (plain c) f) v)"
proof -
  have "put32 (y * h_res v + x) c v
      = Some (v\<lparr>back_buffer := Some (map Some (bytes ((pixels (h_res v) (v_res v) f)[nat (y * h_res v + x) := c])))\<rparr>)"
    by (rule put32_bytes) (use assms pixel_index [OF assms(2-5)] in \<open>simp_all add: drawn_def\<close>)
  then show ?thesis using assms(2-5) by (simp add: pixels_update draw_def)
qed

lemma bb_draw_pixel_draws:
  assumes "drawn v f"
  shows "bb_draw_pixel x y c v = Some (draw (patch (uint x) (uint y) 1 1 (plain c) f) v)"
proof (cases "h_res v \<le> uint x \<or> v_res v \<le> uint y")
  case True
  have "draw (patch (uint x) (uint y) 1 1 (plain c) f) v = draw f v"
    by (rule draw_cong [OF drawn_mode [OF assms]]) (use True in \<open>auto simp: patch_def\<close>)
  then show ?thesis using True drawn_eq [OF assms] by (simp add: bb_draw_pixel_def)
next
  case False
  then show ?thesis using put_pixel [OF assms, of "uint x" "uint y"] word_index(1) [OF drawn_mode [OF assms], of "uint x" "uint y"]
    by (simp add: bb_draw_pixel_def)
qed

lemma bb_get_pixel_gets:
  assumes "drawn v f"
  shows "bb_get_pixel x y v = Some (if uint x < h_res v \<and> uint y < v_res v then f (uint x) (uint y) else 0)"
proof (cases "uint x < h_res v \<and> uint y < v_res v")
  case True
  then have x: "0 \<le> uint x" "uint x < h_res v" "0 \<le> uint y" "uint y < v_res v" by simp_all
  let ?i = "uint y * h_res v + uint x"
  have "get32 ?i v = Some (pixels (h_res v) (v_res v) f ! nat ?i)"
    by (rule get32_bytes) (use assms pixel_index [OF x] in \<open>simp_all add: drawn_def\<close>)
  also have "pixels (h_res v) (v_res v) f ! nat ?i = f (uint x) (uint y)" by (rule pixels_nth [OF x])
  finally show ?thesis using True word_index(1) [OF drawn_mode [OF assms] x] by (simp add: bb_get_pixel_def)
qed (auto simp: bb_get_pixel_def)

lemma patch_join: "patch x y (1 + n) 1 (plain c) f = patch (x + 1) y n 1 (plain c) (patch x y 1 1 (plain c) f)"
  if "0 \<le> n" using that by (auto simp: patch_def fun_eq_iff)

lemma put_words_draws:
  "drawn v f \<Longrightarrow> 0 \<le> x \<Longrightarrow> x + int n \<le> h_res v \<Longrightarrow> 0 \<le> y \<Longrightarrow> y < v_res v \<Longrightarrow>
   put_words (y * h_res v + x) n c v = Some (draw (patch x y (int n) 1 (plain c) f) v)"
proof (induction n arbitrary: x f v)
  case 0
  have "patch x y 0 1 (plain c) f = f" by (auto simp: patch_def fun_eq_iff)
  then show ?case using drawn_eq [OF "0.prems"(1)] by simp
next
  case (Suc n)
  let ?v = "draw (patch x y 1 1 (plain c) f) v"
  have "put_words (y * h_res ?v + (x + 1)) n c ?v
      = Some (draw (patch (x + 1) y (int n) 1 (plain c) (patch x y 1 1 (plain c) f)) ?v)"
    by (rule Suc.IH) (use Suc.prems in \<open>simp_all add: drawn_mode\<close>)
  then show ?case using put_pixel [OF Suc.prems(1), of x y c] Suc.prems
    by (simp add: patch_join add.assoc del: of_nat_add)
qed

lemma bb_draw_hline_draws:
  assumes "drawn v f"
  shows "bb_draw_hline x y len c v = Some (draw (patch (uint x) (uint y) (uint len) 1 (plain c) f) v)"
proof (cases "v_res v \<le> uint y \<or> h_res v \<le> uint x")
  case True
  have "draw (patch (uint x) (uint y) (uint len) 1 (plain c) f) v = draw f v"
    by (rule draw_cong [OF drawn_mode [OF assms]]) (use True in \<open>auto simp: patch_def\<close>)
  then show ?thesis using True drawn_eq [OF assms] by (simp add: bb_draw_hline_def)
next
  case False
  have m: "h_res v < 2 ^ 16" "0 < h_res v" using drawn_mode [OF assms] by (simp_all add: mode32_def)
  define n where "n = (if h_res v < uint x + uint len then h_res v - uint x else uint len)"
  have "(h_res v - uint x) mod 2 ^ 16 = h_res v - uint x"
    using False m uint_ge_0 [of x] by (intro mod_pos_pos_trivial) linarith+
  then have len: "(if h_res v < uint x + uint len then (h_res v - uint x) mod 2 ^ 16 else uint len) = n"
    by (simp add: n_def)
  have n: "0 \<le> n" "uint x + n \<le> h_res v" using False by (auto simp: n_def)
  have "put_words (uint y * h_res v + uint x) (nat n) c v = Some (draw (patch (uint x) (uint y) n 1 (plain c) f) v)"
    using put_words_draws [OF assms, of "uint x" "nat n" "uint y"] False n by simp
  also have "draw (patch (uint x) (uint y) n 1 (plain c) f) v = draw (patch (uint x) (uint y) (uint len) 1 (plain c) f) v"
    by (rule draw_cong [OF drawn_mode [OF assms]]) (auto simp: patch_def n_def)
  finally show ?thesis
    using False word_index(2) [OF drawn_mode [OF assms], of 0 "uint y"] m
    unfolding bb_draw_hline_def Let_def len by simp
qed

text \<open>A rectangle, as long as its last row's number fits 16 bits: the picture with the part that is on the screen filled.\<close>

lemma patch_rows: "0 \<le> n \<Longrightarrow> patch x y w (1 + n) g f = patch x (y + 1) w n g (patch x y w 1 g f)"
  by (auto simp: patch_def fun_eq_iff)

lemma uint_add: "uint y + int n < 2 ^ 16 \<Longrightarrow> uint (y + of_nat n) = uint y + int n" for y :: u16
  by (simp add: uint_word_ariths unsigned_of_nat take_bit_eq_mod zmod_int mod_simps)

lemma rect_from_draws:
  "drawn v f \<Longrightarrow> uint y + int (i + n) \<le> 2 ^ 16 \<Longrightarrow>
   rect_from i x y w n c v = Some (draw (patch (uint x) (uint y + int i) (uint w) (int n) (plain c) f) v)"
proof (induction n arbitrary: i f v)
  case 0
  have "patch (uint x) (uint y + int i) (uint w) 0 (plain c) f = f" by (auto simp: patch_def fun_eq_iff)
  then show ?case using drawn_eq [OF "0.prems"(1)] by simp
next
  case (Suc n)
  let ?f = "patch (uint x) (uint y + int i) (uint w) 1 (plain c) f"
  have y: "uint (y + of_nat i) = uint y + int i" by (rule uint_add) (use Suc.prems(2) in simp)
  have "rect_from (i + 1) x y w n c (draw ?f v)
      = Some (draw (patch (uint x) (uint y + int (i + 1)) (uint w) (int n) (plain c) ?f) (draw ?f v))"
    by (rule Suc.IH) (use Suc.prems in \<open>simp_all add: drawn_mode\<close>)
  then show ?case using bb_draw_hline_draws [OF Suc.prems(1), of x "y + of_nat i" w c] y
      patch_rows [of "int n" "uint x" "uint y + int i" "uint w" "plain c" f]
    by (simp add: add_ac)
qed

lemma bb_draw_rect_draws:
  assumes "drawn v f" and "uint y + uint h \<le> 2 ^ 16"
  shows "bb_draw_rect x y w h c v = Some (draw (patch (uint x) (uint y) (uint w) (uint h) (plain c) f) v)"
  using rect_from_draws [OF assms(1), of y 0 "unat h" x w c] assms(2) by (simp add: bb_draw_rect_def)

section \<open>Copying to the screen\<close>

lemma to_screen_words:
  assumes "drawn v f" and "displayed v g" and "0 \<le> p" and "0 \<le> n" and "p + n \<le> h_res v * v_res v"
  shows "to_screen (4 * p) (4 * n) v = Some (v\<lparr>video_mem := bytes (take (nat p) (pixels (h_res v) (v_res v) g)
      @ take (nat n) (drop (nat p) (pixels (h_res v) (v_res v) f)) @ drop (nat (p + n)) (pixels (h_res v) (v_res v) g))\<rparr>)"
proof -
  have le: "nat p + nat n \<le> nat (h_res v * v_res v)" using assms(3-5) by simp
  have "blit (map Some (bytes (pixels (h_res v) (v_res v) g))) (4 * int (nat p))
      (map Some (bytes (pixels (h_res v) (v_res v) f))) (4 * int (nat p)) (4 * int (nat n))
    = Some (map Some (bytes (take (nat p) (pixels (h_res v) (v_res v) g) @ take (nat n) (drop (nat p) (pixels (h_res v) (v_res v) f))
        @ drop (nat p + nat n) (pixels (h_res v) (v_res v) g))))"
    by (rule blit_words) (use le in simp_all)
  then show ?thesis using assms by (simp add: to_screen_def drawn_def displayed_def those_map_Some nat_add_distrib del: map_append bytes_append)
qed

lemma row_part:
  fixes x y w h b :: int
  assumes "0 \<le> x" and "0 \<le> b" and "x + b \<le> w" and "0 \<le> y" and "y < h"
  shows "0 \<le> y * w + x" and "y * w + x + b \<le> w * h"
proof -
  show "0 \<le> y * w + x" using assms by (intro add_nonneg_nonneg mult_nonneg_nonneg) auto
  have "y * w + x + b \<le> (y + 1) * w" using assms by (simp add: algebra_simps)
  also have "\<dots> \<le> h * w" using assms by (intro mult_right_mono) auto
  finally show "y * w + x + b \<le> w * h" by (simp add: mult.commute)
qed

lemma to_screen_row:
  assumes "drawn v f" and "displayed v g" and "0 \<le> x" and "0 \<le> w" and "x + w \<le> h_res v" and "0 \<le> y" and "y < v_res v"
  obtains m where "to_screen (4 * (y * h_res v + x)) (4 * w) v = Some (v\<lparr>video_mem := m\<rparr>)"
    and "displayed (v\<lparr>video_mem := m\<rparr>) (patch x y w 1 f g)"
proof -
  have h: "0 < h_res v" using drawn_mode [OF assms(1)] by (simp add: mode32_def)
  have l: "0 \<le> y * h_res v + x" "y * h_res v + x + w \<le> h_res v * v_res v" by (rule row_part; use assms in simp)+
  note e = to_screen_words [OF assms(1,2) l(1) assms(4) l(2)]
  note p = pixels_row [OF assms(3,5,4) h assms(6,7), of g f]
  show thesis using that [OF e] unfolding p by (simp add: displayed_def)
qed

lemma quadruple: "0 \<le> a \<Longrightarrow> a + b \<le> c \<Longrightarrow> 4 * c < n \<Longrightarrow> 0 \<le> b \<Longrightarrow> 0 \<le> 4 * a \<and> 4 * a < n" for a b c n :: int
  by auto

lemma flip_rows_copies:
  assumes "uint x + uint w \<le> h_res v" and "uint y + uint h \<le> v_res v"
  shows "drawn v f \<Longrightarrow> displayed v g \<Longrightarrow> uint row + int n = uint y + uint h \<Longrightarrow>
    \<exists>m. flip_rows row x y w h v = Some (v\<lparr>video_mem := m\<rparr>)
      \<and> displayed (v\<lparr>video_mem := m\<rparr>) (patch (uint x) (uint row) (uint w) (int n) f g)"
  using assms
proof (induction n arbitrary: row g v)
  case 0
  have "patch (uint x) (uint row) (uint w) 0 f g = g" by (auto simp: patch_def fun_eq_iff)
  with 0 show ?case by (subst flip_rows.simps) (simp add: exI [of _ "video_mem v"])
next
  case (Suc n)
  have m: "mode32 v" by (rule drawn_mode [OF Suc.prems(1)])
  have row: "uint row < v_res v" "uint row < uint y + uint h" using Suc.prems by simp_all
  obtain m' where t: "to_screen (4 * (uint row * h_res v + uint x)) (4 * uint w) v = Some (v\<lparr>video_mem := m'\<rparr>)"
      and d: "displayed (v\<lparr>video_mem := m'\<rparr>) (patch (uint x) (uint row) (uint w) 1 f g)"
    using to_screen_row [OF Suc.prems(1,2), of "uint x" "uint w" "uint row"] row(1) Suc.prems(4) by auto
  let ?v = "v\<lparr>video_mem := m'\<rparr>"
  have next_row: "uint (row + 1) = uint row + 1"
    using uint_add [of row 1] row Suc.prems m by (simp add: mode32_def)
  have "\<exists>m. flip_rows (row + 1) x y w h ?v = Some (?v\<lparr>video_mem := m\<rparr>)
      \<and> displayed (?v\<lparr>video_mem := m\<rparr>) (patch (uint x) (uint (row + 1)) (uint w) (int n) f (patch (uint x) (uint row) (uint w) 1 f g))"
    by (rule Suc.IH [OF _ d]) (use Suc.prems next_row in \<open>simp_all add: drawn_def mode32_def\<close>)
  moreover have "((uint row * h_res v + uint x) * bytes_per_pixel v) mod 2 ^ 32 = 4 * (uint row * h_res v + uint x)"
    "(uint w * bytes_per_pixel v) mod 2 ^ 32 = 4 * uint w"
  proof -
    have "0 \<le> uint row * h_res v + uint x" "uint row * h_res v + uint x + uint w \<le> h_res v * v_res v"
      by (rule row_part; use Suc.prems(4) row(1) in simp)+
    moreover have "4 * (h_res v * v_res v) < 2 ^ 32" using m by (simp add: mode32_def)
    ultimately have "0 \<le> 4 * (uint row * h_res v + uint x) \<and> 4 * (uint row * h_res v + uint x) < 2 ^ 32"
      using uint_ge_0 [of w] by (intro quadruple)
    then show "((uint row * h_res v + uint x) * bytes_per_pixel v) mod 2 ^ 32 = 4 * (uint row * h_res v + uint x)"
      using m by (simp only: mode32_def mult.commute [of _ 4] mod_pos_pos_trivial)
    have "uint w < 2 ^ 16" by (rule order.strict_trans2 [OF unsigned_less]) simp
    then have "4 * uint w < 2 ^ 32" by simp
    then show "(uint w * bytes_per_pixel v) mod 2 ^ 32 = 4 * uint w"
      using m uint_ge_0 [of w] by (simp only: mode32_def mult.commute [of _ 4]) (simp add: mod_pos_pos_trivial)
  qed
  ultimately show ?case using t row(2) patch_rows [of "int n" "uint x" "uint row" "uint w" f g]
    by (subst flip_rows.simps) (simp add: next_row)
qed

text \<open>After \<open>vg_flip_region\<close> the screen shows what is in the back buffer inside the region, and what it showed
  before everywhere else, for a region on the screen; the back buffer is not changed, and no byte outside
  the two memories is touched.\<close>

theorem region_flipped:
  assumes "drawn v f" and "displayed v g" and "uint x + uint w \<le> h_res v" and "uint y + uint h \<le> v_res v"
  shows "\<exists>m. vg_flip_region x y w h v = Some (v\<lparr>video_mem := m\<rparr>)
    \<and> displayed (v\<lparr>video_mem := m\<rparr>) (patch (uint x) (uint y) (uint w) (uint h) f g)"
  using flip_rows_copies [OF assms(3,4,1,2), of y "unat h"] by (simp add: vg_flip_region_def)

definition small_screen :: video where
  "small_screen = \<lparr>video_mem = bytes (pixels 3 2 (plain 7)), h_res = 3, v_res = 2, bytes_per_pixel = 4, frame_size = 24,
     back_buffer = Some (map Some (bytes (pixels 3 2 (plain 5)))), vd_heap = []\<rparr>"

lemma small_screen_drawn: "drawn small_screen (plain 5)" "displayed small_screen (plain 7)"
  by (simp_all add: drawn_def mode32_def small_screen_def displayed_def)

lemma region_flipped_witness:
  "\<exists>m. vg_flip_region 1 0 2 1 small_screen = Some (small_screen\<lparr>video_mem := m\<rparr>)
    \<and> displayed (small_screen\<lparr>video_mem := m\<rparr>) (patch 1 0 2 1 (plain 5) (plain 7))"
  using region_flipped [OF small_screen_drawn, of 1 2 0 1] by (simp add: small_screen_def)

lemma whole_screen_flipped:
  assumes "drawn v f" and "length (video_mem v) = nat (frame_size v)"
  shows "\<exists>m. vg_flip_buffer v = Some (v\<lparr>video_mem := m\<rparr>) \<and> displayed (v\<lparr>video_mem := m\<rparr>) f"
proof -
  let ?b = "bytes (pixels (h_res v) (v_res v) f)"
  have l: "length ?b = nat (frame_size v)" using assms(1) by (simp add: drawn_def mode32_def nat_mult_distrib)
  have "blit ([] @ map Some (video_mem v) @ []) 0 ([] @ map Some ?b @ []) 0 (frame_size v) = Some ([] @ map Some ?b @ [])"
    by (rule blit_split) (use assms l in \<open>simp_all add: drawn_def mode32_def\<close>)
  then show ?thesis using assms(1)
    by (simp add: vg_flip_buffer_def to_screen_def drawn_def displayed_def those_map_Some)
qed

text \<open>After a successful start in a 32 bit mode the back buffer is black.\<close>

lemma replicate_4: "replicate (4 + k) x = x # x # x # x # replicate k x"
  by (simp add: numeral_eq_Suc)

lemma bytes_black: "bytes (replicate n 0) = replicate (4 * n) 0"
  by (induction n) (simp_all add: le32_def replicate_4)

lemma pixels_plain: "pixels w h (plain c) = replicate (nat (w * h)) c"
  by (simp add: pixels_def map_replicate_const)

lemma cleared:
  assumes "mode32 v" and "back_buffer v = Some b" and "length b = nat (frame_size v)"
  shows "bb_clear 0 v = Some (draw (plain 0) v)"
proof -
  let ?n = "nat (frame_size v)"
  have n: "int ?n = frame_size v" "?n = 4 * nat (h_res v * v_res v)"
    using assms(1) by (simp_all add: mode32_def nat_mult_distrib)
  have "blit ([] @ b @ []) 0 ([] @ replicate ?n (Some 0) @ []) 0 (frame_size v) = Some ([] @ replicate ?n (Some 0) @ [])"
    by (rule blit_split) (use assms n in simp_all)
  then show ?thesis using assms(2) n(2)
    by (simp add: bb_clear_def afill_def draw_def pixels_plain bytes_black)
qed

lemma init_black:
  assumes "vbe_get_mode_info b mode w = (Some info, w1)" and "BitsPerPixel info = 32"
    and "0 < XResolution info" and "0 < YResolution info"
    and "4 * (uint (XResolution info) * uint (YResolution info)) < 2 ^ 32"
    and "add_mem b (uint (PhysBasePtr info)) ((uint (PhysBasePtr info) + 4 * (uint (XResolution info) * uint (YResolution info))) mod 2 ^ 32) w1 = (Some (), w2)"
    and "vm_map_phys b (uint (PhysBasePtr info)) (4 * (uint (XResolution info) * uint (YResolution info))) w2 = (Some m, w3)"
    and "sys_int86 b \<lparr>intno = BIOS_VIDEOCARD_SERV, ax = VBE_MODE_SET, bx = mode OR VBE_LINEAR_FB\<rparr> w3 = (Some (), w4)"
    and "vd_heap v = []"
  shows "\<exists>v'. video_init io b mode v w = Some ((True, v'), w4) \<and> drawn v' (plain 0) \<and> video_mem v' = m
    \<and> h_res v' = uint (XResolution info) \<and> v_res v' = uint (YResolution info)"
proof -
  let ?x = "uint (XResolution info)" and ?y = "uint (YResolution info)"
  have p: "0 < ?x" "0 < ?y" using assms(3,4) by (simp_all add: word_less_def)
  have xy: "?x < 2 ^ 16" "?y < 2 ^ 16" by (rule order.strict_trans2 [OF unsigned_less], simp)+
  have fs: "(?x * ?y * 4) mod 2 ^ 32 = 4 * (?x * ?y)" using assms(5) p by (simp add: mod_pos_pos_trivial)
  define v1 where "v1 = v\<lparr>bytes_per_pixel := 4, h_res := ?x, v_res := ?y, frame_size := 4 * (?x * ?y), video_mem := m,
    vd_heap := [], back_buffer := Some (fresh (4 * (?x * ?y)))\<rparr>"
  have m: "mode32 v1" using p xy assms(5) by (simp add: v1_def mode32_def)
  have "afill (fresh (4 * (?x * ?y))) 0 0 (4 * (?x * ?y)) = Some (map Some (bytes (pixels ?x ?y (plain 0))))"
    using cleared [OF m, of "fresh (4 * (?x * ?y))"]
    by (auto simp: v1_def bb_clear_def draw_def bind_eq_Some_conv dest: arg_cong [of _ _ back_buffer])
  moreover have "drawn (v1\<lparr>back_buffer := Some (map Some (bytes (pixels ?x ?y (plain 0))))\<rparr>) (plain 0)"
    using m by (simp add: drawn_def mode32_def v1_def)
  ultimately show ?thesis using assms(1,2,6-9) fs
    by (simp add: video_init_def vg_map_vram_def set_graphics_mode_def on_ok_def succeed_def v1_def)
qed

end
