(* ===== verification/Font.thy ===== *)
theory Font
  imports Video
begin

text \<open>
  \<open>view/renderer/font.c\<close> with its font, \<open>assets/font.xpm.h\<close>: 128 glyphs of 16 rows of 8 pixels, the leftmost
  pixel in the highest bit.
\<close>

definition FONT_W :: int where "FONT_W = 8"
definition FONT_H :: int where "FONT_H = 16"

definition font_8x16 :: "u8 list list" where
  "font_8x16 =
    [[0, 0, 0, 0, 0, 0, 0, 0, 0, 0, 0, 0, 0, 0, 0, 0],
     [0, 0, 0, 0, 0, 0, 0, 0, 0, 0, 0, 0, 0, 0, 0, 0],
     [0, 0, 0, 0, 0, 0, 0, 0, 0, 0, 0, 0, 0, 0, 0, 0],
     [0, 0, 0, 0, 0, 0, 0, 0, 0, 0, 0, 0, 0, 0, 0, 0],
     [0, 0, 0, 0, 0, 0, 0, 0, 0, 0, 0, 0, 0, 0, 0, 0],
     [0, 0, 0, 0, 0, 0, 0, 0, 0, 0, 0, 0, 0, 0, 0, 0],
     [0, 0, 0, 0, 0, 0, 0, 0, 0, 0, 0, 0, 0, 0, 0, 0],
     [0, 0, 0, 0, 0, 0, 0, 0, 0, 0, 0, 0, 0, 0, 0, 0],
     [0, 0, 0, 0, 0, 0, 0, 0, 0, 0, 0, 0, 0, 0, 0, 0],
     [0, 0, 0, 0, 0, 0, 0, 0, 0, 0, 0, 0, 0, 0, 0, 0],
     [0, 0, 0, 0, 0, 0, 0, 0, 0, 0, 0, 0, 0, 0, 0, 0],
     [0, 0, 0, 0, 0, 0, 0, 0, 0, 0, 0, 0, 0, 0, 0, 0],
     [0, 0, 0, 0, 0, 0, 0, 0, 0, 0, 0, 0, 0, 0, 0, 0],
     [0, 0, 0, 0, 0, 0, 0, 0, 0, 0, 0, 0, 0, 0, 0, 0],
     [0, 0, 0, 0, 0, 0, 0, 0, 0, 0, 0, 0, 0, 0, 0, 0],
     [0, 0, 0, 0, 0, 0, 0, 0, 0, 0, 0, 0, 0, 0, 0, 0],
     [0, 0, 0, 0, 0, 0, 0, 0, 0, 0, 0, 0, 0, 0, 0, 0],
     [0, 0, 0, 0, 0, 0, 0, 0, 0, 0, 0, 0, 0, 0, 0, 0],
     [0, 0, 0, 0, 0, 0, 0, 0, 0, 0, 0, 0, 0, 0, 0, 0],
     [0, 0, 0, 0, 0, 0, 0, 0, 0, 0, 0, 0, 0, 0, 0, 0],
     [0, 0, 0, 0, 0, 0, 0, 0, 0, 0, 0, 0, 0, 0, 0, 0],
     [0, 0, 0, 0, 0, 0, 0, 0, 0, 0, 0, 0, 0, 0, 0, 0],
     [0, 0, 0, 0, 0, 0, 0, 0, 0, 0, 0, 0, 0, 0, 0, 0],
     [0, 0, 0, 0, 0, 0, 0, 0, 0, 0, 0, 0, 0, 0, 0, 0],
     [0, 0, 0, 0, 0, 0, 0, 0, 0, 0, 0, 0, 0, 0, 0, 0],
     [0, 0, 0, 0, 0, 0, 0, 0, 0, 0, 0, 0, 0, 0, 0, 0],
     [0, 0, 0, 0, 0, 0, 0, 0, 0, 0, 0, 0, 0, 0, 0, 0],
     [0, 0, 0, 0, 0, 0, 0, 0, 0, 0, 0, 0, 0, 0, 0, 0],
     [0, 0, 0, 0, 0, 0, 0, 0, 0, 0, 0, 0, 0, 0, 0, 0],
     [0, 0, 0, 0, 0, 0, 0, 0, 0, 0, 0, 0, 0, 0, 0, 0],
     [0, 0, 0, 0, 0, 0, 0, 0, 0, 0, 0, 0, 0, 0, 0, 0],
     [0, 0, 0, 0, 0, 0, 0, 0, 0, 0, 0, 0, 0, 0, 0, 0],
     [0, 0, 0, 0, 0, 0, 0, 0, 0, 0, 0, 0, 0, 0, 0, 0],
     [0, 0, 0x18, 0x18, 0x18, 0x18, 0x18, 0x18, 0x18, 0, 0x18, 0x18, 0, 0, 0, 0],
     [0, 0, 0x66, 0x66, 0x66, 0, 0, 0, 0, 0, 0, 0, 0, 0, 0, 0],
     [0, 0, 0x36, 0x36, 0x7f, 0x36, 0x36, 0x7f, 0x36, 0x36, 0, 0, 0, 0, 0, 0],
     [0, 0x18, 0x7c, 0xc6, 0xc2, 0xc0, 0x7c, 0x6, 0x6, 0x86, 0xc6, 0x7c, 0x18, 0, 0, 0],
     [0, 0, 0, 0, 0xc2, 0xc6, 0xc, 0x18, 0x30, 0x66, 0xc6, 0, 0, 0, 0, 0],
     [0, 0, 0x38, 0x6c, 0x6c, 0x38, 0x76, 0xdc, 0xcc, 0xcc, 0xcc, 0x76, 0, 0, 0, 0],
     [0, 0, 0x18, 0x18, 0x18, 0x30, 0, 0, 0, 0, 0, 0, 0, 0, 0, 0],
     [0, 0, 0xc, 0x18, 0x30, 0x30, 0x30, 0x30, 0x30, 0x30, 0x18, 0xc, 0, 0, 0, 0],
     [0, 0, 0x30, 0x18, 0xc, 0xc, 0xc, 0xc, 0xc, 0xc, 0x18, 0x30, 0, 0, 0, 0],
     [0, 0, 0, 0, 0, 0x66, 0x3c, 0xff, 0x3c, 0x66, 0, 0, 0, 0, 0, 0],
     [0, 0, 0, 0, 0, 0x18, 0x18, 0x7e, 0x18, 0x18, 0, 0, 0, 0, 0, 0],
     [0, 0, 0, 0, 0, 0, 0, 0, 0, 0x18, 0x18, 0x30, 0, 0, 0, 0],
     [0, 0, 0, 0, 0, 0, 0x7e, 0, 0, 0, 0, 0, 0, 0, 0, 0],
     [0, 0, 0, 0, 0, 0, 0, 0, 0, 0x18, 0x18, 0, 0, 0, 0, 0],
     [0, 0, 0, 0x6, 0x6, 0xc, 0x18, 0x30, 0x60, 0xc0, 0xc0, 0, 0, 0, 0, 0],
     [0, 0, 0x7c, 0xc6, 0xce, 0xde, 0xf6, 0xe6, 0xc6, 0xc6, 0xc6, 0x7c, 0, 0, 0, 0],
     [0, 0, 0x18, 0x38, 0x78, 0x18, 0x18, 0x18, 0x18, 0x18, 0x18, 0x7e, 0, 0, 0, 0],
     [0, 0, 0x7c, 0xc6, 0x6, 0xc, 0x18, 0x30, 0x60, 0xc0, 0xc6, 0xfe, 0, 0, 0, 0],
     [0, 0, 0x7c, 0xc6, 0x6, 0x6, 0x3c, 0x6, 0x6, 0x6, 0xc6, 0x7c, 0, 0, 0, 0],
     [0, 0, 0xc, 0x1c, 0x3c, 0x6c, 0xcc, 0xfe, 0xc, 0xc, 0xc, 0x1e, 0, 0, 0, 0],
     [0, 0, 0xfe, 0xc0, 0xc0, 0xc0, 0xfc, 0x6, 0x6, 0x6, 0xc6, 0x7c, 0, 0, 0, 0],
     [0, 0, 0x38, 0x60, 0xc0, 0xc0, 0xfc, 0xc6, 0xc6, 0xc6, 0xc6, 0x7c, 0, 0, 0, 0],
     [0, 0, 0xfe, 0xc6, 0x6, 0x6, 0xc, 0x18, 0x30, 0x30, 0x30, 0x30, 0, 0, 0, 0],
     [0, 0, 0x7c, 0xc6, 0xc6, 0xc6, 0x7c, 0xc6, 0xc6, 0xc6, 0xc6, 0x7c, 0, 0, 0, 0],
     [0, 0, 0x7c, 0xc6, 0xc6, 0xc6, 0x7e, 0x6, 0x6, 0x6, 0xc, 0x78, 0, 0, 0, 0],
     [0, 0, 0, 0x18, 0x18, 0, 0, 0, 0x18, 0x18, 0, 0, 0, 0, 0, 0],
     [0, 0, 0, 0x18, 0x18, 0, 0, 0, 0x18, 0x18, 0x30, 0, 0, 0, 0, 0],
     [0, 0, 0, 0x6, 0xc, 0x18, 0x30, 0x60, 0x30, 0x18, 0xc, 0x6, 0, 0, 0, 0],
     [0, 0, 0, 0, 0, 0x7e, 0, 0, 0x7e, 0, 0, 0, 0, 0, 0, 0],
     [0, 0, 0, 0x60, 0x30, 0x18, 0xc, 0x6, 0xc, 0x18, 0x30, 0x60, 0, 0, 0, 0],
     [0, 0, 0x7c, 0xc6, 0xc6, 0xc, 0x18, 0x18, 0x18, 0, 0x18, 0x18, 0, 0, 0, 0],
     [0, 0, 0x7c, 0xc6, 0xc6, 0xde, 0xde, 0xde, 0xdc, 0xc0, 0xc4, 0x7c, 0, 0, 0, 0],
     [0, 0, 0x10, 0x38, 0x6c, 0xc6, 0xc6, 0xfe, 0xc6, 0xc6, 0xc6, 0xc6, 0, 0, 0, 0],
     [0, 0, 0xfc, 0x66, 0x66, 0x66, 0x7c, 0x66, 0x66, 0x66, 0x66, 0xfc, 0, 0, 0, 0],
     [0, 0, 0x3c, 0x66, 0xc2, 0xc0, 0xc0, 0xc0, 0xc0, 0xc2, 0x66, 0x3c, 0, 0, 0, 0],
     [0, 0, 0xf8, 0x6c, 0x66, 0x66, 0x66, 0x66, 0x66, 0x66, 0x6c, 0xf8, 0, 0, 0, 0],
     [0, 0, 0xfe, 0x66, 0x62, 0x68, 0x78, 0x68, 0x60, 0x62, 0x66, 0xfe, 0, 0, 0, 0],
     [0, 0, 0xfe, 0x66, 0x62, 0x68, 0x78, 0x68, 0x60, 0x60, 0x60, 0xf0, 0, 0, 0, 0],
     [0, 0, 0x3c, 0x66, 0xc2, 0xc0, 0xc0, 0xde, 0xc6, 0xc6, 0x66, 0x3a, 0, 0, 0, 0],
     [0, 0, 0xc6, 0xc6, 0xc6, 0xc6, 0xfe, 0xc6, 0xc6, 0xc6, 0xc6, 0xc6, 0, 0, 0, 0],
     [0, 0, 0x3c, 0x18, 0x18, 0x18, 0x18, 0x18, 0x18, 0x18, 0x18, 0x3c, 0, 0, 0, 0],
     [0, 0, 0x1e, 0xc, 0xc, 0xc, 0xc, 0xc, 0xcc, 0xcc, 0xcc, 0x78, 0, 0, 0, 0],
     [0, 0, 0xe6, 0x66, 0x66, 0x6c, 0x78, 0x78, 0x6c, 0x66, 0x66, 0xe6, 0, 0, 0, 0],
     [0, 0, 0xf0, 0x60, 0x60, 0x60, 0x60, 0x60, 0x60, 0x62, 0x66, 0xfe, 0, 0, 0, 0],
     [0, 0, 0xc6, 0xee, 0xfe, 0xfe, 0xd6, 0xc6, 0xc6, 0xc6, 0xc6, 0xc6, 0, 0, 0, 0],
     [0, 0, 0xc6, 0xe6, 0xf6, 0xfe, 0xde, 0xce, 0xc6, 0xc6, 0xc6, 0xc6, 0, 0, 0, 0],
     [0, 0, 0x7c, 0xc6, 0xc6, 0xc6, 0xc6, 0xc6, 0xc6, 0xc6, 0xc6, 0x7c, 0, 0, 0, 0],
     [0, 0, 0xfc, 0x66, 0x66, 0x66, 0x7c, 0x60, 0x60, 0x60, 0x60, 0xf0, 0, 0, 0, 0],
     [0, 0, 0x7c, 0xc6, 0xc6, 0xc6, 0xc6, 0xc6, 0xc6, 0xd6, 0xde, 0x7c, 0xc, 0xe, 0, 0],
     [0, 0, 0xfc, 0x66, 0x66, 0x66, 0x7c, 0x6c, 0x66, 0x66, 0x66, 0xe6, 0, 0, 0, 0],
     [0, 0, 0x7c, 0xc6, 0xc6, 0x60, 0x38, 0xc, 0x6, 0xc6, 0xc6, 0x7c, 0, 0, 0, 0],
     [0, 0, 0x7e, 0x7e, 0x5a, 0x18, 0x18, 0x18, 0x18, 0x18, 0x18, 0x3c, 0, 0, 0, 0],
     [0, 0, 0xc6, 0xc6, 0xc6, 0xc6, 0xc6, 0xc6, 0xc6, 0xc6, 0xc6, 0x7c, 0, 0, 0, 0],
     [0, 0, 0xc6, 0xc6, 0xc6, 0xc6, 0xc6, 0xc6, 0xc6, 0x6c, 0x38, 0x10, 0, 0, 0, 0],
     [0, 0, 0xc6, 0xc6, 0xc6, 0xc6, 0xd6, 0xd6, 0xd6, 0xfe, 0xee, 0xc6, 0, 0, 0, 0],
     [0, 0, 0xc6, 0xc6, 0x6c, 0x7c, 0x38, 0x38, 0x7c, 0x6c, 0xc6, 0xc6, 0, 0, 0, 0],
     [0, 0, 0x66, 0x66, 0x66, 0x66, 0x3c, 0x18, 0x18, 0x18, 0x18, 0x3c, 0, 0, 0, 0],
     [0, 0, 0xfe, 0xc6, 0x86, 0xc, 0x18, 0x30, 0x60, 0xc2, 0xc6, 0xfe, 0, 0, 0, 0],
     [0, 0, 0x3c, 0x30, 0x30, 0x30, 0x30, 0x30, 0x30, 0x30, 0x30, 0x3c, 0, 0, 0, 0],
     [0, 0, 0, 0xc0, 0x60, 0x30, 0x18, 0xc, 0x6, 0x3, 0, 0, 0, 0, 0, 0],
     [0, 0, 0x3c, 0xc, 0xc, 0xc, 0xc, 0xc, 0xc, 0xc, 0xc, 0x3c, 0, 0, 0, 0],
     [0x10, 0x38, 0x6c, 0xc6, 0, 0, 0, 0, 0, 0, 0, 0, 0, 0, 0, 0],
     [0, 0, 0, 0, 0, 0, 0, 0, 0, 0, 0, 0xff, 0, 0, 0, 0],
     [0, 0x30, 0x18, 0xc, 0, 0, 0, 0, 0, 0, 0, 0, 0, 0, 0, 0],
     [0, 0, 0, 0, 0, 0x78, 0xc, 0x7c, 0xcc, 0xcc, 0xcc, 0x76, 0, 0, 0, 0],
     [0, 0, 0xe0, 0x60, 0x60, 0x78, 0x6c, 0x66, 0x66, 0x66, 0x66, 0x7c, 0, 0, 0, 0],
     [0, 0, 0, 0, 0, 0x7c, 0xc6, 0xc0, 0xc0, 0xc0, 0xc6, 0x7c, 0, 0, 0, 0],
     [0, 0, 0x1c, 0xc, 0xc, 0x3c, 0x6c, 0xcc, 0xcc, 0xcc, 0xcc, 0x76, 0, 0, 0, 0],
     [0, 0, 0, 0, 0, 0x7c, 0xc6, 0xfe, 0xc0, 0xc0, 0xc6, 0x7c, 0, 0, 0, 0],
     [0, 0, 0x1c, 0x36, 0x32, 0x30, 0x7c, 0x30, 0x30, 0x30, 0x30, 0x78, 0, 0, 0, 0],
     [0, 0, 0, 0, 0, 0x76, 0xcc, 0xcc, 0xcc, 0xcc, 0xcc, 0x7c, 0xc, 0xcc, 0x78, 0],
     [0, 0, 0xe0, 0x60, 0x60, 0x6c, 0x76, 0x66, 0x66, 0x66, 0x66, 0xe6, 0, 0, 0, 0],
     [0, 0, 0x18, 0x18, 0, 0x38, 0x18, 0x18, 0x18, 0x18, 0x18, 0x3c, 0, 0, 0, 0],
     [0, 0, 0x6, 0x6, 0, 0xe, 0x6, 0x6, 0x6, 0x6, 0x6, 0x6, 0x66, 0x66, 0x3c, 0],
     [0, 0, 0xe0, 0x60, 0x60, 0x66, 0x6c, 0x78, 0x78, 0x6c, 0x66, 0xe6, 0, 0, 0, 0],
     [0, 0, 0x38, 0x18, 0x18, 0x18, 0x18, 0x18, 0x18, 0x18, 0x18, 0x3c, 0, 0, 0, 0],
     [0, 0, 0, 0, 0, 0xec, 0xfe, 0xd6, 0xd6, 0xd6, 0xd6, 0xc6, 0, 0, 0, 0],
     [0, 0, 0, 0, 0, 0xdc, 0x66, 0x66, 0x66, 0x66, 0x66, 0x66, 0, 0, 0, 0],
     [0, 0, 0, 0, 0, 0x7c, 0xc6, 0xc6, 0xc6, 0xc6, 0xc6, 0x7c, 0, 0, 0, 0],
     [0, 0, 0, 0, 0, 0xdc, 0x66, 0x66, 0x66, 0x66, 0x66, 0x7c, 0x60, 0x60, 0xf0, 0],
     [0, 0, 0, 0, 0, 0x76, 0xcc, 0xcc, 0xcc, 0xcc, 0xcc, 0x7c, 0xc, 0xc, 0x1e, 0],
     [0, 0, 0, 0, 0, 0xdc, 0x76, 0x66, 0x60, 0x60, 0x60, 0xf0, 0, 0, 0, 0],
     [0, 0, 0, 0, 0, 0x7c, 0xc6, 0x60, 0x38, 0xc, 0xc6, 0x7c, 0, 0, 0, 0],
     [0, 0, 0x10, 0x30, 0x30, 0xfc, 0x30, 0x30, 0x30, 0x30, 0x36, 0x1c, 0, 0, 0, 0],
     [0, 0, 0, 0, 0, 0xcc, 0xcc, 0xcc, 0xcc, 0xcc, 0xcc, 0x76, 0, 0, 0, 0],
     [0, 0, 0, 0, 0, 0xc6, 0xc6, 0xc6, 0xc6, 0xc6, 0x6c, 0x38, 0, 0, 0, 0],
     [0, 0, 0, 0, 0, 0xc6, 0xc6, 0xd6, 0xd6, 0xd6, 0xfe, 0x6c, 0, 0, 0, 0],
     [0, 0, 0, 0, 0, 0xc6, 0x6c, 0x38, 0x38, 0x38, 0x6c, 0xc6, 0, 0, 0, 0],
     [0, 0, 0, 0, 0, 0xc6, 0xc6, 0xc6, 0xc6, 0xc6, 0xc6, 0x7e, 0x6, 0xc, 0xf8, 0],
     [0, 0, 0, 0, 0, 0xfe, 0xcc, 0x18, 0x30, 0x60, 0xc6, 0xfe, 0, 0, 0, 0],
     [0, 0, 0xe, 0x18, 0x18, 0x18, 0x70, 0x18, 0x18, 0x18, 0x18, 0xe, 0, 0, 0, 0],
     [0, 0, 0x18, 0x18, 0x18, 0x18, 0x18, 0x18, 0x18, 0x18, 0x18, 0x18, 0, 0, 0, 0],
     [0, 0, 0x70, 0x18, 0x18, 0x18, 0xe, 0x18, 0x18, 0x18, 0x18, 0x70, 0, 0, 0, 0],
     [0x76, 0xdc, 0, 0, 0, 0, 0, 0, 0, 0, 0, 0, 0, 0, 0, 0],
     [0, 0, 0, 0, 0, 0, 0, 0, 0, 0, 0, 0, 0, 0, 0, 0]]"

lemma font_size: "length font_8x16 = 128" "list_all (\<lambda>g. length g = 16) font_8x16"
  unfolding font_8x16_def by simp_all

text \<open>The loops over the columns and the rows of a glyph, \<open>n\<close> from \<open>col\<close> and \<open>row\<close> on.\<close>

fun draw_cols :: "nat \<Rightarrow> nat \<Rightarrow> int \<Rightarrow> int \<Rightarrow> u8 \<Rightarrow> u32 \<Rightarrow> video \<Rightarrow> video option" where
  "draw_cols 0 col line x bits color v = Some v"
| "draw_cols (Suc n) col line x bits color v =
     (let px = x + int col in
      if px < 0 \<or> vg_get_h_res v \<le> px then draw_cols n (col + 1) line x bits color v
      else do {
        v \<leftarrow> (if bits AND drop_bit col 0x80 \<noteq> 0 then put32 (line + px) color v else Some v);
        draw_cols n (col + 1) line x bits color v
      })"

fun draw_rows :: "nat \<Rightarrow> nat \<Rightarrow> int \<Rightarrow> int \<Rightarrow> u8 list \<Rightarrow> u32 \<Rightarrow> video \<Rightarrow> video option" where
  "draw_rows 0 row x y glyph color v = Some v"
| "draw_rows (Suc n) row x y glyph color v =
     (let py = y + int row in
      if py < 0 then draw_rows n (row + 1) x y glyph color v
      else case bb_row_ptr (word_of_int py) v of
             None \<Rightarrow> Some v
           | Some line \<Rightarrow> do {
               v \<leftarrow> draw_cols (nat FONT_W) 0 line x (glyph ! row) color v;
               draw_rows n (row + 1) x y glyph color v
             })"

definition draw_char :: "int \<Rightarrow> int \<Rightarrow> char \<Rightarrow> u32 \<Rightarrow> video \<Rightarrow> video option" where
  "draw_char x y c color v =
     (if 128 \<le> (of_char c :: nat) then Some v
      else draw_rows (nat FONT_H) 0 x y (font_8x16 ! of_char c) color v)"

fun draw_from :: "int \<Rightarrow> int \<Rightarrow> int \<Rightarrow> string \<Rightarrow> u32 \<Rightarrow> video \<Rightarrow> video option" where
  "draw_from start_x x y [] color v = Some v"
| "draw_from start_x x y (c # s) color v =
     (if c = NL then draw_from start_x start_x (y + FONT_H) s color v
      else do { v \<leftarrow> draw_char x y c color v; draw_from start_x (x + FONT_W) y s color v })"

definition draw_string :: "int \<Rightarrow> int \<Rightarrow> string \<Rightarrow> u32 \<Rightarrow> video \<Rightarrow> video option" where
  "draw_string x y s color v = draw_from x x y s color v"

section \<open>What is drawn\<close>

definition glyph_pixel :: "char \<Rightarrow> int \<Rightarrow> int \<Rightarrow> bool" where
  "glyph_pixel c i j \<longleftrightarrow> 0 \<le> i \<and> i < 8 \<and> 0 \<le> j \<and> j < 16 \<and> (of_char c :: nat) < 128
     \<and> bit (font_8x16 ! of_char c ! nat j) (7 - nat i)"

definition inked :: "(int \<Rightarrow> int \<Rightarrow> bool) \<Rightarrow> u32 \<Rightarrow> picture \<Rightarrow> picture" where
  "inked p color f = (\<lambda>a b. if p a b then color else f a b)"

lemma column_bit: "col < 8 \<Longrightarrow> bits AND drop_bit col 0x80 \<noteq> 0 \<longleftrightarrow> bit bits (7 - col)" for bits :: u8
proof -
  assume "col < 8"
  then have "col \<in> {0, 1, 2, 3, 4, 5, 6, 7}" by auto
  then have "drop_bit col 0x80 = push_bit (7 - col) (1 :: u8)" by (elim insertE) simp_all
  then show ?thesis by (simp only: bit_iff_and_push_bit_not_eq_0)
qed

lemma draw_cols_draws:
  "drawn v f \<Longrightarrow> 0 \<le> y \<Longrightarrow> y < v_res v \<Longrightarrow> col + n \<le> 8 \<Longrightarrow>
   draw_cols n col (y * h_res v) x bits color v
     = Some (draw (inked (\<lambda>a b. b = y \<and> x + int col \<le> a \<and> a < x + int (col + n) \<and> bit bits (7 - nat (a - x))) color f) v)"
proof (induction n arbitrary: col f v)
  case 0
  have "inked (\<lambda>a b. b = y \<and> x + int col \<le> a \<and> a < x + int (col + 0) \<and> bit bits (7 - nat (a - x))) color f = f"
    by (auto simp: inked_def fun_eq_iff)
  then show ?case using drawn_eq [OF "0.prems"(1)] by simp
next
  case (Suc n)
  let ?px = "x + int col"
  let ?on = "\<not> (?px < 0 \<or> h_res v \<le> ?px) \<and> bit bits (7 - col)"
  define g where "g = (if ?on then patch ?px y 1 1 (plain color) f else f)"
  have m: "mode32 v" by (rule drawn_mode [OF Suc.prems(1)])
  have one: "nat (a - x) = col" if "x + int col \<le> a" "\<not> x + (1 + int col) \<le> a" for a using that by simp
  have s: "(if \<not> (?px < 0 \<or> h_res v \<le> ?px) \<and> bits AND drop_bit col 0x80 \<noteq> 0 then put32 (y * h_res v + ?px) color v else Some v)
      = Some (draw g v)"
    using put_pixel [OF Suc.prems(1), of ?px y color] Suc.prems(2,3,4) drawn_eq [OF Suc.prems(1)] column_bit [of col bits]
    by (simp add: g_def)
  have "draw_cols n (col + 1) (y * h_res (draw g v)) x bits color (draw g v)
      = Some (draw (inked (\<lambda>a b. b = y \<and> x + int (col + 1) \<le> a \<and> a < x + int (col + 1 + n) \<and> bit bits (7 - nat (a - x))) color g) (draw g v))"
    by (rule Suc.IH) (use Suc.prems m in simp_all)
  also have "\<dots> = Some (draw (inked (\<lambda>a b. b = y \<and> x + int (col + 1) \<le> a \<and> a < x + int (col + 1 + n) \<and> bit bits (7 - nat (a - x))) color g) v)"
    by simp
  also have "\<dots> = Some (draw (inked (\<lambda>a b. b = y \<and> x + int col \<le> a \<and> a < x + int (col + Suc n) \<and> bit bits (7 - nat (a - x))) color f) v)"
    by (rule arg_cong [where f = Some], rule draw_cong [OF m]) (auto simp: inked_def g_def patch_def one)
  finally have r: "draw_cols n (col + 1) (y * h_res v) x bits color (draw g v)
    = Some (draw (inked (\<lambda>a b. b = y \<and> x + int col \<le> a \<and> a < x + int (col + Suc n) \<and> bit bits (7 - nat (a - x))) color f) v)"
    by simp
  show ?case
  proof (cases "?px < 0 \<or> h_res v \<le> ?px")
    case True
    then have "draw g v = v" using drawn_eq [OF Suc.prems(1)] by (auto simp: g_def)
    then show ?thesis using True r by (simp add: vg_get_h_res_def)
  next
    case False
    then show ?thesis using s r by (simp add: vg_get_h_res_def split: if_splits)
  qed
qed

lemma draw_rows_draws:
  "drawn v f \<Longrightarrow> y + int (row + n) \<le> 2 ^ 16 \<Longrightarrow> row + n \<le> length glyph \<Longrightarrow>
   draw_rows n row x y glyph color v
     = Some (draw (inked (\<lambda>a b. y + int row \<le> b \<and> b < y + int (row + n) \<and> x \<le> a \<and> a < x + 8
           \<and> bit (glyph ! nat (b - y)) (7 - nat (a - x))) color f) v)"
proof (induction n arbitrary: row f v)
  case 0
  have "inked (\<lambda>a b. y + int row \<le> b \<and> b < y + int (row + 0) \<and> x \<le> a \<and> a < x + 8
     \<and> bit (glyph ! nat (b - y)) (7 - nat (a - x))) color f = f" by (auto simp: inked_def fun_eq_iff)
  then show ?case using drawn_eq [OF "0.prems"(1)] by simp
next
  case (Suc n)
  let ?py = "y + int row"
  let ?all = "\<lambda>k m. inked (\<lambda>a b. y + int k \<le> b \<and> b < y + int (k + m) \<and> x \<le> a \<and> a < x + 8
     \<and> bit (glyph ! nat (b - y)) (7 - nat (a - x))) color"
  have m: "mode32 v" by (rule drawn_mode [OF Suc.prems(1)])
  have one: "nat (b - y) = row" if "y + int row \<le> b" "\<not> y + (1 + int row) \<le> b" for b using that by simp
  consider "?py < 0" | "v_res v \<le> ?py" | "0 \<le> ?py" "?py < v_res v" by linarith
  then show ?case
  proof cases
    case 1
    have "draw_rows n (row + 1) x y glyph color v = Some (draw (?all (row + 1) n f) v)"
      by (rule Suc.IH) (use Suc.prems in simp_all)
    also have "draw (?all (row + 1) n f) v = draw (?all row (Suc n) f) v"
      by (rule draw_cong [OF m]) (use 1 in \<open>auto simp: inked_def\<close>)
    finally show ?thesis using 1 by simp
  next
    case 2
    have p: "0 \<le> ?py" using 2 m by (simp add: mode32_def)
    have "draw (?all row (Suc n) f) v = draw f v"
      by (rule draw_cong [OF m]) (use 2 in \<open>auto simp: inked_def\<close>)
    moreover have "uint (word_of_int ?py :: u16) = ?py"
      by (rule u16_small) (use p Suc.prems(2) in simp_all)
    ultimately show ?thesis using 2 p drawn_eq [OF Suc.prems(1)] by (simp add: bb_row_ptr_def)
  next
    case 3
    let ?g = "inked (\<lambda>a b. b = ?py \<and> x \<le> a \<and> a < x + 8 \<and> bit (glyph ! row) (7 - nat (a - x))) color f"
    have u: "uint (word_of_int ?py :: u16) = ?py"
      by (rule u16_small) (use 3 Suc.prems(2) in simp_all)
    have h: "0 < h_res v" using m by (simp add: mode32_def)
    have line: "bb_row_ptr (word_of_int ?py) v = Some (?py * h_res v)"
      using 3 u word_index(2) [OF m, of 0 ?py] h by (simp add: bb_row_ptr_def)
    have cols: "draw_cols (nat FONT_W) 0 (?py * h_res v) x (glyph ! row) color v = Some (draw ?g v)"
      using draw_cols_draws [OF Suc.prems(1) 3, of 0 8 x "glyph ! row" color] by (simp add: FONT_W_def)
    have "draw_rows n (row + 1) x y glyph color (draw ?g v) = Some (draw (?all (row + 1) n ?g) (draw ?g v))"
      by (rule Suc.IH) (use Suc.prems m in simp_all)
    also have "\<dots> = Some (draw (?all (row + 1) n ?g) v)" by simp
    also have "draw (?all (row + 1) n ?g) v = draw (?all row (Suc n) f) v"
      by (rule draw_cong [OF m]) (auto simp: inked_def one)
    finally show ?thesis using 3 line cols by simp
  qed
qed

lemma glyph_length: "k < 128 \<Longrightarrow> length (font_8x16 ! k) = 16"
  using font_size by (auto simp: list_all_length)

lemma draw_char_draws:
  assumes "drawn v f" and "y + 16 \<le> 2 ^ 16"
  shows "draw_char x y c color v = Some (draw (inked (\<lambda>a b. glyph_pixel c (a - x) (b - y)) color f) v)"
proof (cases "128 \<le> (of_char c :: nat)")
  case True
  then have "inked (\<lambda>a b. glyph_pixel c (a - x) (b - y)) color f = f"
    by (auto simp: inked_def glyph_pixel_def fun_eq_iff)
  then show ?thesis using True drawn_eq [OF assms(1)] by (simp add: draw_char_def)
next
  case False
  have "(\<lambda>a b. y + int 0 \<le> b \<and> b < y + int (0 + 16) \<and> x \<le> a \<and> a < x + 8
      \<and> bit (font_8x16 ! of_char c ! nat (b - y)) (7 - nat (a - x))) = (\<lambda>a b. glyph_pixel c (a - x) (b - y))"
    using False by (auto simp: glyph_pixel_def fun_eq_iff)
  then show ?thesis using draw_rows_draws [OF assms(1), of y 0 16 "font_8x16 ! of_char c" x color] False assms(2)
    by (simp add: draw_char_def FONT_H_def glyph_length)
qed

text \<open>The ink of a text: lines 16 pixels apart, characters 8 pixels apart.\<close>

fun text_ink :: "int \<Rightarrow> int \<Rightarrow> int \<Rightarrow> string \<Rightarrow> int \<Rightarrow> int \<Rightarrow> bool" where
  "text_ink start_x x y [] a b = False"
| "text_ink start_x x y (c # s) a b =
     (if c = NL then text_ink start_x start_x (y + 16) s a b
      else glyph_pixel c (a - x) (b - y) \<or> text_ink start_x (x + 8) y s a b)"

lemma inked_inked: "inked p c (inked q c f) = inked (\<lambda>a b. q a b \<or> p a b) c f"
  by (auto simp: inked_def fun_eq_iff)

lemma draw_from_draws:
  "drawn v f \<Longrightarrow> y + 16 * (1 + int (count_list s NL)) \<le> 2 ^ 16 \<Longrightarrow>
   draw_from start_x x y s color v = Some (draw (inked (text_ink start_x x y s) color f) v)"
proof (induction s arbitrary: x y f v)
  case Nil
  have "inked (\<lambda>a b. False) color f = f" by (simp add: inked_def)
  then show ?case using drawn_eq [OF Nil.prems(1)] by (simp add: fun_eq_iff)
next
  case (Cons c s)
  show ?case
  proof (cases "c = NL")
    case True
    then show ?thesis using Cons.IH [OF Cons.prems(1), of "y + 16" start_x] Cons.prems(2)
      by (simp add: FONT_H_def algebra_simps)
  next
    case False
    let ?g = "inked (\<lambda>a b. glyph_pixel c (a - x) (b - y)) color f"
    have y: "y + 16 \<le> 2 ^ 16" using Cons.prems(2) by simp
    have "draw_from start_x (x + 8) y s color (draw ?g v) = Some (draw (inked (text_ink start_x (x + 8) y s) color ?g) (draw ?g v))"
      by (rule Cons.IH) (use Cons.prems False in \<open>simp_all add: drawn_mode\<close>)
    then show ?thesis using draw_char_draws [OF Cons.prems(1) y, of x c color] False
      by (simp add: FONT_W_def inked_inked)
  qed
qed

lemma draw_string_draws:
  "drawn v f \<Longrightarrow> y + 16 * (1 + int (count_list s NL)) \<le> 2 ^ 16 \<Longrightarrow>
   draw_string x y s color v = Some (draw (inked (text_ink x x y s) color f) v)"
  unfolding draw_string_def by (rule draw_from_draws)

text \<open>On one line, the character of index \<open>i\<close> is drawn in the cell of index \<open>i\<close>.\<close>

lemma text_ink_line:
  "NL \<notin> set s \<Longrightarrow> text_ink start_x x y s a b \<longleftrightarrow>
     x \<le> a \<and> a < x + 8 * int (length s) \<and> glyph_pixel (s ! nat ((a - x) div 8)) ((a - x) mod 8) (b - y)"
proof (induction s arbitrary: x)
  case Nil
  then show ?case by simp
next
  case (Cons c s)
  have ih: "text_ink start_x (x + 8) y s a b \<longleftrightarrow> x + 8 \<le> a \<and> a < x + 8 + 8 * int (length s)
      \<and> glyph_pixel (s ! nat ((a - (x + 8)) div 8)) ((a - (x + 8)) mod 8) (b - y)"
    using Cons.IH Cons.prems by simp
  have nl: "c \<noteq> NL" using Cons.prems by auto
  have sub: "(a - (x + 8)) mod 8 = (a - x) mod 8" "(a - (x + 8)) div 8 = (a - x) div 8 - 1"
  proof -
    have e: "a - (x + 8) = (a - x) - 8" by simp
    have k: "(k - 8) mod 8 = k mod 8" "(k - 8) div 8 = k div 8 - 1" for k :: int
      using div_add_self2 [of 8 "k - 8"] by simp_all
    show "(a - (x + 8)) mod 8 = (a - x) mod 8" "(a - (x + 8)) div 8 = (a - x) div 8 - 1" unfolding e by (rule k)+
  qed
  show ?case
  proof (cases "x \<le> a \<and> a < x + 8")
    case True
    then have "(a - x) div 8 = 0" "(a - x) mod 8 = a - x" by simp_all
    then show ?thesis using True ih nl by simp
  next
    case False
    then have g: "\<not> glyph_pixel c (a - x) (b - y)" by (auto simp: glyph_pixel_def)
    show ?thesis
    proof (cases "a < x")
      case True
      then show ?thesis using g ih nl by simp
    next
      case False': False
      then have "1 \<le> (a - x) div 8" using False by presburger
      then have "nat ((a - x) div 8) = Suc (nat ((a - x) div 8 - 1))" by simp
      then show ?thesis using g ih nl False False' unfolding sub by (simp add: add.assoc)
    qed
  qed
qed

text \<open>A text of one line is drawn with the character of index \<open>i\<close> in the \<open>i\<close>th cell of 8 by 16 pixels from the
  position: exactly the positions on the screen where the font has ink get the colour, everything else
  keeps what it had, and nothing outside the back buffer is written, wherever the text begins (also left
  of or above the screen).\<close>

theorem text_drawn:
  assumes "drawn v f" and "NL \<notin> set s" and "y + 16 \<le> 2 ^ 16"
  shows "\<exists>v'. draw_string x y s color v = Some v' \<and> drawn v' (\<lambda>a b.
    if x \<le> a \<and> a < x + 8 * int (length s) \<and> glyph_pixel (s ! nat ((a - x) div 8)) ((a - x) mod 8) (b - y)
    then color else f a b)"
proof -
  have "count_list s NL = 0" using assms(2) by (simp add: count_list_0_iff)
  then have "draw_string x y s color v = Some (draw (inked (text_ink x x y s) color f) v)"
    by (intro draw_string_draws [OF assms(1)]) (use assms(3) in simp)
  then show ?thesis using drawn_mode [OF assms(1)] by (simp add: inked_def text_ink_line [OF assms(2)])
qed

lemma text_drawn_witness:
  "\<exists>v'. draw_string (-3) 0 ''ab'' 9 small_screen = Some v' \<and> drawn v' (\<lambda>a b.
    if -3 \<le> a \<and> a < 13 \<and> glyph_pixel (''ab'' ! nat ((a + 3) div 8)) ((a + 3) mod 8) b then 9 else 5)"
  using text_drawn [OF small_screen_drawn(1), of "''ab''" 0 "-3" 9] by simp

end
