(* ===== verification/MouseCursor.thy ===== *)
theory MouseCursor
  imports Video
begin

text \<open>
  \<open>view/renderer/mouse_cursor.c\<close>: the pointer's sprite is drawn over the back buffer after the pixels
  below it have been saved, and hidden by writing them back. \<open>xpm_load\<close> is a library function: what it
  returns for the sprite, its sizes and its 32 bit pixels, is the parameter of \<open>mouse_cursor_init\<close>.
\<close>

section \<open>The code\<close>

record xpm_image =
  im_width :: u16
  im_height :: u16
  im_pixels :: "u32 list"

record mouse_cursor =
  img :: "xpm_image"
  img_bytes :: "u32 list option"
  bg_buf :: "u32 cells option"
  prev_x :: int
  prev_y :: int
  mc_heap :: heap

definition mouse_cursor0 :: mouse_cursor where
  "mouse_cursor0 = \<lparr>img = \<lparr>im_width = 0, im_height = 0, im_pixels = []\<rparr>, img_bytes = None, bg_buf = None,
     prev_x = -1, prev_y = -1, mc_heap = []\<rparr>"

text \<open>The result says whether the call succeeded.\<close>

definition mouse_cursor_init :: "xpm_image option \<Rightarrow> mouse_cursor \<Rightarrow> bool \<times> mouse_cursor" where
  "mouse_cursor_init loaded mc = (case loaded of
     None \<Rightarrow> (False, mc)
   | Some im \<Rightarrow>
       let mc = mc\<lparr>img := im, img_bytes := Some (im_pixels im)\<rparr>;
           (ok, h) = malloc_ok (mc_heap mc);
           mc = mc\<lparr>mc_heap := h\<rparr>
       in if ok then (True, mc\<lparr>bg_buf := Some (fresh (uint (im_width im) * uint (im_height im)))\<rparr>)
          else (False, mc\<lparr>bg_buf := None\<rparr>))"

definition mouse_cursor_cleanup :: "mouse_cursor \<Rightarrow> mouse_cursor" where
  "mouse_cursor_cleanup mc = mc\<lparr>bg_buf := None, img_bytes := None\<rparr>"

definition mouse_cursor_prev_x :: "mouse_cursor \<Rightarrow> int" where "mouse_cursor_prev_x mc = prev_x mc"
definition mouse_cursor_prev_y :: "mouse_cursor \<Rightarrow> int" where "mouse_cursor_prev_y mc = prev_y mc"
definition mouse_cursor_width :: "mouse_cursor \<Rightarrow> int" where "mouse_cursor_width mc = uint (im_width (img mc))"
definition mouse_cursor_height :: "mouse_cursor \<Rightarrow> int" where "mouse_cursor_height mc = uint (im_height (img mc))"

text \<open>
  The two nested loops visit the cells of the sprite row by row; \<open>cell_at\<close> is the cell visited \<open>k\<close>th, in
  the body of the loops \<open>j * img.width + i = k\<close>.
\<close>

definition cell_at :: "mouse_cursor \<Rightarrow> nat \<Rightarrow> int \<times> int" where
  "cell_at mc k = (int k mod mouse_cursor_width mc, int k div mouse_cursor_width mc)"

definition cells_of :: "mouse_cursor \<Rightarrow> nat" where
  "cells_of mc = nat (mouse_cursor_width mc * mouse_cursor_height mc)"

definition visible_px :: "video \<Rightarrow> int \<Rightarrow> int \<Rightarrow> bool" where
  "visible_px v px py \<longleftrightarrow> 0 \<le> px \<and> px < vg_get_h_res v \<and> 0 \<le> py \<and> py < vg_get_v_res v"

fun hide_from :: "mouse_cursor \<Rightarrow> nat \<Rightarrow> nat \<Rightarrow> video \<Rightarrow> video option" where
  "hide_from mc k 0 v = Some v"
| "hide_from mc k (Suc n) v =
     (let (i, j) = cell_at mc k; px = prev_x mc + i; py = prev_y mc + j in
      if visible_px v px py then do {
        b \<leftarrow> bg_buf mc;
        c \<leftarrow> aread b (int k);
        v \<leftarrow> bb_draw_pixel (word_of_int px) (word_of_int py) c v;
        hide_from mc (k + 1) n v
      } else hide_from mc (k + 1) n v)"

definition mouse_cursor_hide :: "mouse_cursor \<Rightarrow> video \<Rightarrow> video option" where
  "mouse_cursor_hide mc v =
     (if prev_x mc < 0 \<or> bg_buf mc = None then Some v else hide_from mc 0 (cells_of mc) v)"

definition set_bg :: "int \<Rightarrow> u32 \<Rightarrow> mouse_cursor \<Rightarrow> mouse_cursor option" where
  "set_bg k c mc = do { b \<leftarrow> bg_buf mc; b \<leftarrow> awrite b k c; Some (mc\<lparr>bg_buf := Some b\<rparr>) }"

definition sprite_at :: "mouse_cursor \<Rightarrow> nat \<Rightarrow> u32 option" where
  "sprite_at mc k = do { s \<leftarrow> img_bytes mc; if k < length s then Some (s ! k) else None }"

text \<open>\<open>transparent\<close> is what the library function \<open>xpm_transparency_color\<close> gives.\<close>

fun show_from :: "u32 \<Rightarrow> int \<Rightarrow> int \<Rightarrow> nat \<Rightarrow> nat \<Rightarrow> mouse_cursor \<Rightarrow> video \<Rightarrow> (mouse_cursor \<times> video) option" where
  "show_from transparent x y k 0 mc v = Some (mc, v)"
| "show_from transparent x y k (Suc n) mc v =
     (let (i, j) = cell_at mc k; px = x + i; py = y + j in do {
        sprite_px \<leftarrow> sprite_at mc k;
        if \<not> visible_px v px py then do {
          mc \<leftarrow> set_bg (int k) 0 mc;
          show_from transparent x y (k + 1) n mc v
        } else do {
          old \<leftarrow> bb_get_pixel (word_of_int px) (word_of_int py) v;
          mc \<leftarrow> set_bg (int k) old mc;
          v \<leftarrow> (if sprite_px \<noteq> transparent
                then bb_draw_pixel (word_of_int px) (word_of_int py) (sprite_px AND 0x00FFFFFF) v else Some v);
          show_from transparent x y (k + 1) n mc v
        }
      })"

definition mouse_cursor_show :: "u32 \<Rightarrow> int \<Rightarrow> int \<Rightarrow> mouse_cursor \<Rightarrow> video \<Rightarrow> (mouse_cursor \<times> video) option" where
  "mouse_cursor_show transparent x y mc v =
     (if bg_buf mc = None then Some (mc, v)
      else do {
        (mc, v) \<leftarrow> show_from transparent x y 0 (cells_of mc) mc v;
        Some (mc\<lparr>prev_x := x, prev_y := y\<rparr>, v)
      })"

section \<open>Showing and hiding\<close>

text \<open>The position of the \<open>k\<close>th cell of a sprite at \<open>(x, y)\<close>, and what it has to be saved as.\<close>

definition spot :: "mouse_cursor \<Rightarrow> int \<Rightarrow> int \<Rightarrow> nat \<Rightarrow> int \<times> int" where
  "spot mc x y k = (x + int k mod mouse_cursor_width mc, y + int k div mouse_cursor_width mc)"

definition on_screen_spot :: "video \<Rightarrow> int \<times> int \<Rightarrow> bool" where
  "on_screen_spot v p \<longleftrightarrow> visible_px v (fst p) (snd p)"

definition below :: "video \<Rightarrow> picture \<Rightarrow> int \<times> int \<Rightarrow> u32" where
  "below v f p = (if on_screen_spot v p then f (fst p) (snd p) else 0)"

definition over :: "u32 \<Rightarrow> mouse_cursor \<Rightarrow> nat \<Rightarrow> picture \<Rightarrow> int \<times> int \<Rightarrow> u32" where
  "over transparent mc k f p = (if im_pixels (img mc) ! k \<noteq> transparent then im_pixels (img mc) ! k AND 0x00FFFFFF else f (fst p) (snd p))"

definition cursor_ready :: "mouse_cursor \<Rightarrow> bool" where
  "cursor_ready mc \<longleftrightarrow> (\<exists>b. bg_buf mc = Some b \<and> length b = cells_of mc)
     \<and> img_bytes mc = Some (im_pixels (img mc)) \<and> cells_of mc \<le> length (im_pixels (img mc))"

lemma spot_inj: "spot mc x y j = spot mc x y k \<Longrightarrow> j = k"
proof -
  let ?w = "mouse_cursor_width mc"
  assume "spot mc x y j = spot mc x y k"
  then have "int j mod ?w = int k mod ?w" "int j div ?w = int k div ?w" by (simp_all add: spot_def)
  then have "int j div ?w * ?w + int j mod ?w = int k div ?w * ?w + int k mod ?w" by simp
  then show "j = k" by (simp only: div_mult_mod_eq of_nat_eq_iff)
qed

lemma visible_u16:
  assumes "mode32 v" and "visible_px v a b"
  shows "uint (word_of_int a :: u16) = a" and "uint (word_of_int b :: u16) = b"
  using assms by (auto intro!: u16_small simp: mode32_def visible_px_def vg_get_h_res_def vg_get_v_res_def)

lemma visible_draw [simp]: "visible_px (draw f v) a b = visible_px v a b" "below (draw f v) g p = below v g p"
  "on_screen_spot (draw f v) p = on_screen_spot v p"
  by (simp_all add: visible_px_def vg_get_h_res_def vg_get_v_res_def below_def on_screen_spot_def)

lemma width_bg [simp]: "mouse_cursor_width (mc\<lparr>bg_buf := b\<rparr>) = mouse_cursor_width mc"
  "cells_of (mc\<lparr>bg_buf := b\<rparr>) = cells_of mc" "spot (mc\<lparr>bg_buf := b\<rparr>) = spot mc" "over t (mc\<lparr>bg_buf := b\<rparr>) = over t mc"
  "mouse_cursor_width (mc\<lparr>prev_x := x, prev_y := y\<rparr>) = mouse_cursor_width mc"
  "cells_of (mc\<lparr>prev_x := x, prev_y := y\<rparr>) = cells_of mc" "spot (mc\<lparr>prev_x := x, prev_y := y\<rparr>) = spot mc"
  by (simp_all add: mouse_cursor_width_def cells_of_def mouse_cursor_height_def spot_def over_def fun_eq_iff)

text \<open>What has been drawn once the cells before \<open>k\<close> have been visited.\<close>

definition shown_upto :: "u32 \<Rightarrow> mouse_cursor \<Rightarrow> int \<Rightarrow> int \<Rightarrow> nat \<Rightarrow> video \<Rightarrow> picture \<Rightarrow> picture \<Rightarrow> bool" where
  "shown_upto transparent mc x y k v f g \<longleftrightarrow>
     (\<forall>j<k. on_screen_spot v (spot mc x y j) \<longrightarrow> g (fst (spot mc x y j)) (snd (spot mc x y j)) = over transparent mc j f (spot mc x y j))
     \<and> (\<forall>a b. (\<forall>j<k. (a, b) \<noteq> spot mc x y j) \<longrightarrow> g a b = f a b)"

lemma shown_upto_skip:
  assumes "shown_upto t mc x y k v f g" and "\<not> on_screen_spot v (spot mc x y k)"
  shows "shown_upto t mc x y (Suc k) v f g"
  using assms by (auto simp: shown_upto_def less_Suc_eq)

lemma shown_upto_draw:
  assumes "shown_upto t mc x y k v f g" and "spot mc x y k = (a, b)" and "c = over t mc k f (a, b)"
  shows "shown_upto t mc x y (Suc k) v f (patch a b 1 1 (plain c) g)"
proof -
  have o: "patch a b 1 1 (plain c) g a' b' = (if (a', b') = (a, b) then c else g a' b')" for a' b'
    by (auto simp: patch_def)
  have n: "spot mc x y j \<noteq> (a, b)" if "j < k" for j using spot_inj [of mc x y j k] that assms(2) by auto
  show ?thesis unfolding shown_upto_def o
    using assms n by (auto simp: shown_upto_def less_Suc_eq)
qed

lemma set_bg_split:
  "bg_buf mc = Some (A @ c # B) \<Longrightarrow> length A = k \<Longrightarrow> set_bg (int k) z mc = Some (mc\<lparr>bg_buf := Some (A @ Some z # B)\<rparr>)"
  by (simp add: set_bg_def awrite_split)

lemma show_from_shows:
  assumes "img_bytes mc = Some (im_pixels (img mc))" and "k + n \<le> length (im_pixels (img mc))"
    and "drawn v g" and "shown_upto t mc x y k v f g"
    and "bg_buf mc = Some (map (\<lambda>j. Some (below v f (spot mc x y j))) [0..<k] @ R)" and "length R = n"
  shows "\<exists>h. show_from t x y k n mc v = Some (mc\<lparr>bg_buf := Some (map (\<lambda>j. Some (below v f (spot mc x y j))) [0..<k + n])\<rparr>, draw h v)
    \<and> shown_upto t mc x y (k + n) v f h"
  using assms
proof (induction n arbitrary: k mc v g R)
  case 0
  then show ?case using drawn_eq [of v g] by (intro exI [of _ g]) simp
next
  case (Suc n)
  obtain a b where s: "spot mc x y k = (a, b)" by (cases "spot mc x y k")
  obtain c0 R' where R: "R = c0 # R'" "length R' = n" using Suc.prems(6) by (cases R) auto
  have m: "mode32 v" by (rule drawn_mode [OF Suc.prems(3)])
  have cell: "cell_at mc k = (a - x, b - y)" using s by (auto simp: spot_def cell_at_def)
  have px: "sprite_at mc k = Some (im_pixels (img mc) ! k)" using Suc.prems(1,2) by (simp add: sprite_at_def)
  let ?bg = "\<lambda>k. map (\<lambda>j. Some (below v f (spot mc x y j))) [0..<k]"
  let ?mc = "mc\<lparr>bg_buf := Some (?bg (Suc k) @ R')\<rparr>"
  have w: "set_bg (int k) (below v f (a, b)) mc = Some ?mc"
    using set_bg_split [of mc "?bg k" c0 R' k "below v f (a, b)"] Suc.prems(5) R s by simp
  have step: "\<exists>h. show_from t x y (k + 1) n ?mc v' = Some (mc\<lparr>bg_buf := Some (?bg (k + Suc n))\<rparr>, draw h v)
      \<and> shown_upto t mc x y (k + Suc n) v f h"
    if v': "v' = draw g' v" and g': "shown_upto t mc x y (Suc k) v f g'" for v' g'
  proof -
    have sh: "shown_upto t ?mc x y (k + 1) v' f g'"
      using g' v' by (simp add: shown_upto_def)
    have "\<exists>h. show_from t x y (k + 1) n ?mc v'
        = Some (?mc\<lparr>bg_buf := Some (map (\<lambda>j. Some (below v' f (spot ?mc x y j))) [0..<k + 1 + n])\<rparr>, draw h v')
      \<and> shown_upto t ?mc x y (k + 1 + n) v' f h"
      by (rule Suc.IH [OF _ _ _ sh]) (use Suc.prems m R(2) v' in simp_all)
    then show ?thesis using v' by (simp add: shown_upto_def)
  qed
  show ?case
  proof (cases "visible_px v a b")
    case False
    have "below v f (a, b) = 0" using False by (simp add: below_def on_screen_spot_def)
    moreover have "shown_upto t mc x y (Suc k) v f g"
      using shown_upto_skip [OF Suc.prems(4)] False s by (simp add: on_screen_spot_def)
    ultimately show ?thesis using step [OF drawn_eq [OF Suc.prems(3)]] w False cell px by simp
  next
    case True
    note u = visible_u16 [OF m True]
    have "g a b = f a b" using Suc.prems(4) spot_inj [of mc x y _ k] s unfolding shown_upto_def by (metis nat_less_le)
    then have get: "bb_get_pixel (word_of_int a) (word_of_int b) v = Some (below v f (a, b))"
      using bb_get_pixel_gets [OF Suc.prems(3), of "word_of_int a" "word_of_int b"] u True
      by (simp add: below_def on_screen_spot_def visible_px_def vg_get_h_res_def vg_get_v_res_def)
    let ?c = "over t mc k f (a, b)"
    let ?g = "patch a b 1 1 (plain ?c) g"
    have same: "draw ?g v = v" if "im_pixels (img mc) ! k = t"
    proof -
      have "?g = g" using \<open>g a b = f a b\<close> that by (auto simp: patch_def over_def fun_eq_iff)
      then show ?thesis using drawn_eq [OF Suc.prems(3)] by simp
    qed
    have put: "(if im_pixels (img mc) ! k \<noteq> t
        then bb_draw_pixel (word_of_int a) (word_of_int b) (im_pixels (img mc) ! k AND 0x00FFFFFF) v else Some v) = Some (draw ?g v)"
    proof (cases "im_pixels (img mc) ! k = t")
      case True
      with same show ?thesis by (simp only: simp_thms if_False)
    next
      case False
      then have c: "?c = im_pixels (img mc) ! k AND 0x00FFFFFF" by (simp add: over_def)
      show ?thesis using bb_draw_pixel_draws [OF Suc.prems(3), of "word_of_int a" "word_of_int b" ?c] u False
        unfolding c by simp
    qed
    show ?thesis using step [OF refl shown_upto_draw [OF Suc.prems(4) s refl]] w True cell px get put
      by (simp split: if_splits)
  qed
qed

definition restored :: "mouse_cursor \<Rightarrow> int \<Rightarrow> int \<Rightarrow> nat set \<Rightarrow> video \<Rightarrow> picture \<Rightarrow> picture \<Rightarrow> picture" where
  "restored mc x y K v f g = (\<lambda>a b. if visible_px v a b \<and> (a, b) \<in> spot mc x y ` K then f a b else g a b)"

lemma hide_from_hides:
  assumes "bg_buf mc = Some (map (\<lambda>j. Some (below v f (spot mc (prev_x mc) (prev_y mc) j))) [0..<N])"
    and "k + n \<le> N" and "drawn v g"
  shows "hide_from mc k n v = Some (draw (restored mc (prev_x mc) (prev_y mc) {k..<k + n} v f g) v)"
  using assms
proof (induction n arbitrary: k v g)
  case 0
  have "restored mc (prev_x mc) (prev_y mc) {k..<k + 0} v f g = g" by (simp add: restored_def)
  then show ?case using drawn_eq [OF "0.prems"(3)] by simp
next
  case (Suc n)
  let ?x = "prev_x mc" and ?y = "prev_y mc"
  obtain a b where s: "spot mc ?x ?y k = (a, b)" by (cases "spot mc ?x ?y k")
  have m: "mode32 v" by (rule drawn_mode [OF Suc.prems(3)])
  have cell: "cell_at mc k = (a - ?x, b - ?y)" using s by (auto simp: spot_def cell_at_def)
  have r: "{k..<k + Suc n} = insert k {k + 1..<k + 1 + n}" by auto
  have step: "hide_from mc (k + 1) n v' = Some (draw (restored mc ?x ?y {k..<k + Suc n} v f g) v)"
    if v': "v' = draw g' v" and g': "\<And>a' b'. visible_px v a' b' \<Longrightarrow> g' a' b' = restored mc ?x ?y {k} v f g a' b'" for v' g'
  proof -
    have d: "drawn v' g'" using v' m by simp
    have b: "bg_buf mc = Some (map (\<lambda>j. Some (below v' f (spot mc ?x ?y j))) [0..<N])" using Suc.prems(1) v' by simp
    have "k + 1 + n \<le> N" using Suc.prems(2) by simp
    from Suc.IH [OF b this d] have "hide_from mc (k + 1) n v' = Some (draw (restored mc ?x ?y {k + 1..<k + 1 + n} v' f g') v')" .
    also have "draw (restored mc ?x ?y {k + 1..<k + 1 + n} v' f g') v' = draw (restored mc ?x ?y {k + 1..<k + 1 + n} v f g') v"
      using v' by (simp add: restored_def)
    also have "\<dots> = draw (restored mc ?x ?y {k..<k + Suc n} v f g) v"
      by (rule draw_cong [OF m]) (unfold r, auto simp: restored_def g' visible_px_def vg_get_h_res_def vg_get_v_res_def)
    finally show ?thesis .
  qed
  show ?case
  proof (cases "visible_px v a b")
    case False
    have "restored mc ?x ?y {k} v f g a' b' = g a' b'" for a' b' using False s by (auto simp: restored_def)
    then show ?thesis using step [OF drawn_eq [OF Suc.prems(3)]] False cell by simp
  next
    case True
    note u = visible_u16 [OF m True]
    have read: "aread (map (\<lambda>j. Some (below v f (spot mc ?x ?y j))) [0..<N]) (int k) = Some (f a b)"
      using Suc.prems(2) True s by (simp add: aread_def in_range_def below_def on_screen_spot_def)
    have put: "bb_draw_pixel (word_of_int a) (word_of_int b) (f a b) v = Some (draw (patch a b 1 1 (plain (f a b)) g) v)"
      using bb_draw_pixel_draws [OF Suc.prems(3), of "word_of_int a" "word_of_int b" "f a b"] u by simp
    have "patch a b 1 1 (plain (f a b)) g a' b' = restored mc ?x ?y {k} v f g a' b'" for a' b'
      using True s by (auto simp: restored_def patch_def)
    then show ?thesis using step [OF refl, of "patch a b 1 1 (plain (f a b)) g"] True cell Suc.prems(1) read put by simp
  qed
qed

text \<open>A pointer is shown over the picture \<open>f\<close>: the back buffer shows \<open>g\<close>.\<close>

definition pointer_over :: "mouse_cursor \<Rightarrow> video \<Rightarrow> picture \<Rightarrow> picture \<Rightarrow> bool" where
  "pointer_over mc v f g \<longleftrightarrow>
     bg_buf mc = Some (map (\<lambda>j. Some (below v f (spot mc (prev_x mc) (prev_y mc) j))) [0..<cells_of mc])
     \<and> (\<forall>a b. (\<forall>k<cells_of mc. (a, b) \<noteq> spot mc (prev_x mc) (prev_y mc) k) \<longrightarrow> g a b = f a b)"

lemma show_shows:
  assumes "drawn v f" and "cursor_ready mc"
  obtains h mc' where "mouse_cursor_show transparent x y mc v = Some (mc', draw h v)"
    and "shown_upto transparent mc x y (cells_of mc) v f h" and "pointer_over mc' (draw h v) f h"
    and "mc' = mc\<lparr>bg_buf := bg_buf mc', prev_x := x, prev_y := y\<rparr>" and "cursor_ready mc'"
proof -
  let ?N = "cells_of mc"
  obtain B where b: "bg_buf mc = Some B" "length B = ?N" using assms(2) by (auto simp: cursor_ready_def)
  have im: "img_bytes mc = Some (im_pixels (img mc))" "?N \<le> length (im_pixels (img mc))"
    using assms(2) by (simp_all add: cursor_ready_def)
  let ?bg = "map (\<lambda>j. Some (below v f (spot mc x y j))) [0..<?N]"
  obtain h where sh: "show_from transparent x y 0 ?N mc v = Some (mc\<lparr>bg_buf := Some ?bg\<rparr>, draw h v)"
      and up: "shown_upto transparent mc x y ?N v f h"
    using show_from_shows [of mc 0 ?N v f transparent x y f B] im assms(1) b by (auto simp: shown_upto_def)
  let ?mc = "mc\<lparr>bg_buf := Some ?bg, prev_x := x, prev_y := y\<rparr>"
  have s: "spot ?mc = spot mc" "cells_of ?mc = ?N"
    by (simp_all add: spot_def cells_of_def mouse_cursor_width_def mouse_cursor_height_def fun_eq_iff)
  show thesis
  proof (rule that [OF _ up])
    show "mouse_cursor_show transparent x y mc v = Some (?mc, draw h v)"
      using sh b by (simp add: mouse_cursor_show_def)
    show "pointer_over ?mc (draw h v) f h" using s up by (simp add: pointer_over_def shown_upto_def)
    show "cursor_ready ?mc" using s im by (simp add: cursor_ready_def)
  qed simp
qed

lemma hide_hides:
  assumes "drawn v g" and "pointer_over mc v f g" and "0 \<le> prev_x mc"
  shows "mouse_cursor_hide mc v = Some (draw f v)"
proof -
  let ?N = "cells_of mc" and ?x = "prev_x mc" and ?y = "prev_y mc"
  have m: "mode32 v" by (rule drawn_mode [OF assms(1)])
  have elsewhere: "g a b = f a b" if "(a, b) \<notin> spot mc ?x ?y ` {0..<?N}" for a b
  proof -
    have "\<forall>j<?N. (a, b) \<noteq> spot mc ?x ?y j" using that by (metis atLeastLessThan_iff image_eqI zero_le)
    then show ?thesis using assms(2) by (simp add: pointer_over_def)
  qed
  have "hide_from mc 0 ?N v = Some (draw (restored mc ?x ?y {0..<?N} v f g) v)"
    using hide_from_hides [of mc v f ?N 0 ?N g] assms(1,2) by (simp add: pointer_over_def)
  also have "draw (restored mc ?x ?y {0..<?N} v f g) v = draw f v"
    by (rule draw_cong [OF m]) (use elsewhere in \<open>auto simp: restored_def visible_px_def vg_get_h_res_def vg_get_v_res_def\<close>)
  finally show ?thesis using assms(2,3) by (auto simp: mouse_cursor_hide_def pointer_over_def)
qed

text \<open>C40: Showing the pointer at \<open>(x, y)\<close> gives every pixel of its sprite that is on the screen the sprite's colour
  (without its top byte), where the sprite is not transparent, and changes no other pixel, also for a
  pointer partly off the right or lower edge; hiding it then restores the back buffer exactly.\<close>

theorem pointer_leaves_no_trace:
  assumes "drawn v f" and "cursor_ready mc" and "0 \<le> x"
  shows "\<exists>mc' v' g. mouse_cursor_show transparent x y mc v = Some (mc', v') \<and> drawn v' g
    \<and> (\<forall>a b. g a b = f a b \<or> (\<exists>k<cells_of mc. (a, b) = spot mc x y k))
    \<and> (\<forall>k<cells_of mc. on_screen_spot v (spot mc x y k) \<longrightarrow>
         g (fst (spot mc x y k)) (snd (spot mc x y k)) = over transparent mc k f (spot mc x y k))
    \<and> mouse_cursor_hide mc' v' = Some v"
proof -
  have m: "mode32 v" by (rule drawn_mode [OF assms(1)])
  obtain h mc' where sh: "mouse_cursor_show transparent x y mc v = Some (mc', draw h v)"
    and up: "shown_upto transparent mc x y (cells_of mc) v f h" and ov: "pointer_over mc' (draw h v) f h"
    and mc': "mc' = mc\<lparr>bg_buf := bg_buf mc', prev_x := x, prev_y := y\<rparr>"
    using show_shows [OF assms(1,2)] by metis
  have "prev_x mc' = x" by (subst mc') simp
  then have "mouse_cursor_hide mc' (draw h v) = Some v"
    using hide_hides [OF _ ov] m assms(3) drawn_eq [OF assms(1)] by simp
  moreover have "h a b = f a b \<or> (\<exists>k<cells_of mc. (a, b) = spot mc x y k)" for a b
    using up unfolding shown_upto_def by blast
  ultimately show ?thesis using sh up m
    by (intro exI [of _ mc'] exI [of _ "draw h v"] exI [of _ h]) (simp add: shown_upto_def)
qed

definition arrow :: mouse_cursor where
  "arrow = snd (mouse_cursor_init (Some \<lparr>im_width = 2, im_height = 1, im_pixels = [0xFF000001, 0xFF00B200]\<rparr>) mouse_cursor0)"

lemma arrow_ready: "cursor_ready arrow" "cells_of arrow = 2"
  by (simp_all add: cursor_ready_def arrow_def mouse_cursor_init_def mouse_cursor0_def cells_of_def
      mouse_cursor_width_def mouse_cursor_height_def)

lemma pointer_leaves_no_trace_witness:
  "\<exists>mc' v'. mouse_cursor_show 0xFF000001 2 1 arrow small_screen = Some (mc', v')
    \<and> mouse_cursor_hide mc' v' = Some small_screen"
  using pointer_leaves_no_trace [OF small_screen_drawn(1) arrow_ready(1), where x = 2 and y = 1 and transparent = "0xFF000001"]
  by fastforce

text \<open>A pointer left of the screen is not hidden: \<open>prev_x\<close> says that none is shown.\<close>

lemma negative_not_hidden: "prev_x mc < 0 \<Longrightarrow> mouse_cursor_hide mc v = Some v"
  by (simp add: mouse_cursor_hide_def)

end
