(* ===== verification/App.thy ===== *)
theory App
  imports EditorProps HighlightProps CommandBar FileTree Mouse RenderState Clock Font MouseCursor
begin

text \<open>
  The whole program's state: the static state of every module of the editor, side by side. The modules
  call each other only through their functions; a call is the function of its theory, applied to its
  part of the record.
\<close>

record rect =
  r_x :: int
  r_y :: int
  r_w :: int
  r_h :: int

text \<open>The static state of \<open>view/renderer/scene.c\<close>; \<open>current_scene\<close> has only one value.\<close>

record scene =
  l_editor :: rect
  l_filetree :: rect
  l_gutter :: rect
  l_scrollbar :: rect
  l_status_bar :: rect
  sc_prev_col :: int
  sc_prev_row :: int
  sc_vis_rows :: int
  sc_vis_cols :: int
  sc_gutter_w :: int

text \<open>
  With the state of \<open>scene.c\<close> and the other modules of model and view: the flags of
  \<open>controller/commands/commands.c\<close> and the machine \<open>'w\<close>, to which the serial line and the files belong.
\<close>

record 'w app =
  a_ed :: editor
  a_cb :: command_bar
  a_ft :: filetree
  a_hc :: highlight_cache
  a_sc :: scene
  a_rs :: render_mode
  a_vd :: video
  a_mc :: mouse_cursor
  a_ms :: mouse_state
  a_cl :: clock
  a_tm :: timer
  a_start :: u64
  quit_flag :: bool
  remote :: bool
  file_num_lines :: u16
  lines_contador :: u16
  a_w :: 'w

text \<open>Calls that return nothing, on one part of the state.\<close>

definition on_ed :: "(editor \<Rightarrow> editor option) \<Rightarrow> 'w app \<Rightarrow> 'w app option" where
  "on_ed f a = do { e \<leftarrow> f (a_ed a); Some (a\<lparr>a_ed := e\<rparr>) }"

definition on_cb :: "(command_bar \<Rightarrow> command_bar option) \<Rightarrow> 'w app \<Rightarrow> 'w app option" where
  "on_cb f a = do { b \<leftarrow> f (a_cb a); Some (a\<lparr>a_cb := b\<rparr>) }"

definition on_hc :: "(highlight_cache \<Rightarrow> highlight_cache option) \<Rightarrow> 'w app \<Rightarrow> 'w app option" where
  "on_hc f a = do { h \<leftarrow> f (a_hc a); Some (a\<lparr>a_hc := h\<rparr>) }"

definition on_vd :: "(video \<Rightarrow> video option) \<Rightarrow> 'w app \<Rightarrow> 'w app option" where
  "on_vd f a = do { v \<leftarrow> f (a_vd a); Some (a\<lparr>a_vd := v\<rparr>) }"

definition render :: "render_mode \<Rightarrow> 'w app \<Rightarrow> 'w app" where
  "render m a = a\<lparr>a_rs := set_render m (a_rs a)\<rparr>"

text \<open>A \<open>for\<close> loop over the values of its variable.\<close>

fun each :: "('x \<Rightarrow> 'a \<Rightarrow> 'a option) \<Rightarrow> 'x list \<Rightarrow> 'a \<Rightarrow> 'a option" where
  "each f [] a = Some a"
| "each f (x # xs) a = do { a \<leftarrow> f x a; each f xs a }"

end
