(* ===== verification/Scene.thy ===== *)
theory Scene
  imports App
begin

text \<open>
  \<open>view/renderer/scene.c\<close>: the layout of the screen, the drawing of the editor into the back buffer, the
  copying of what has changed to the screen, and the way back from a pixel to a position in the text.
  Coordinates are passed to the video driver as 16 bit values.
\<close>

section \<open>Layout\<close>

definition COLOR_BG :: u32 where "COLOR_BG = 0x282C34"
definition COLOR_TEXT :: u32 where "COLOR_TEXT = 0xABB2BF"
definition COLOR_SEL_BG :: u32 where "COLOR_SEL_BG = 0x3E4451"
definition COLOR_STATUS_BG :: u32 where "COLOR_STATUS_BG = 0x21252B"
definition COLOR_STATUS_FG :: u32 where "COLOR_STATUS_FG = 0xABB2BF"
definition COLOR_GUTTER_BG :: u32 where "COLOR_GUTTER_BG = 0x282C34"
definition COLOR_GUTTER_FG :: u32 where "COLOR_GUTTER_FG = 0x4B5263"
definition COLOR_FILETREE_BG :: u32 where "COLOR_FILETREE_BG = 0x21252B"
definition COLOR_FILETREE_SEL :: u32 where "COLOR_FILETREE_SEL = 0x2C313C"
definition COLOR_FILETREE_DIR :: u32 where "COLOR_FILETREE_DIR = 0x61AFEF"
definition COLOR_FILETREE_FILE :: u32 where "COLOR_FILETREE_FILE = 0xABB2BF"
definition COLOR_FILETREE_SEP :: u32 where "COLOR_FILETREE_SEP = 0x181A1F"

definition FILETREE_COLS :: int where "FILETREE_COLS = 20"
definition FILETREE_W_PX :: int where "FILETREE_W_PX = FILETREE_COLS * FONT_W"
definition EDITOR_Y :: int where "EDITOR_Y = 10"
definition GUTTER_DIGITS_MIN :: int where "GUTTER_DIGITS_MIN = 3"
definition GUTTER_PAD :: int where "GUTTER_PAD = 2"
definition SCROLLBAR_W :: int where "SCROLLBAR_W = 8"
definition SCROLLBAR_HANDLE_MIN :: int where "SCROLLBAR_HANDLE_MIN = 4"

definition rect0 :: rect where "rect0 = \<lparr>r_x = 0, r_y = 0, r_w = 0, r_h = 0\<rparr>"

definition scene0 :: scene where
  "scene0 = \<lparr>l_editor = rect0, l_filetree = rect0, l_gutter = rect0, l_scrollbar = rect0, l_status_bar = rect0,
     sc_prev_col = 0, sc_prev_row = 0, sc_vis_rows = 0, sc_vis_cols = 0, sc_gutter_w = 0\<rparr>"

text \<open>The loop that counts digits, from \<open>digits\<close> on.\<close>

function count_digits :: "int \<Rightarrow> int \<Rightarrow> int" where
  "count_digits n digits = (if 10 \<le> n then count_digits (n div 10) (digits + 1) else digits)"
  by pat_completeness auto
termination
  by (relation "measure (\<lambda>(n, digits). nat n)") auto

declare count_digits.simps [simp del]

definition scene_update_layout :: "'w app \<Rightarrow> 'w app" where
  "scene_update_layout a =
     (let h_res = vg_get_h_res (a_vd a);
          v_res = vg_get_v_res (a_vd a);
          fw = (if filetree_is_visible (a_ft a) then FILETREE_W_PX else 0);
          digits = count_digits (editor_get_row_count (a_ed a)) 1;
          digits = (if digits < GUTTER_DIGITS_MIN then GUTTER_DIGITS_MIN else digits);
          gutter_w = FONT_W * (digits + GUTTER_PAD);
          gutter = \<lparr>r_x = fw, r_y = EDITOR_Y, r_w = gutter_w, r_h = v_res - EDITOR_Y - FONT_H\<rparr>;
          scrollbar = \<lparr>r_x = h_res - SCROLLBAR_W, r_y = EDITOR_Y, r_w = SCROLLBAR_W, r_h = r_h gutter\<rparr>;
          editor = \<lparr>r_x = fw + gutter_w, r_y = EDITOR_Y, r_w = r_x scrollbar - (fw + gutter_w), r_h = r_h gutter\<rparr>
      in a\<lparr>a_sc := (a_sc a)\<lparr>l_editor := editor, l_filetree := \<lparr>r_x = 0, r_y = 0, r_w = fw, r_h = v_res\<rparr>,
             l_gutter := gutter, l_scrollbar := scrollbar,
             l_status_bar := \<lparr>r_x = 0, r_y = v_res - FONT_H, r_w = h_res, r_h = FONT_H\<rparr>,
             sc_vis_cols := r_w editor sdiv FONT_W, sc_vis_rows := r_h editor sdiv FONT_H, sc_gutter_w := gutter_w\<rparr>\<rparr>)"

definition set_viewport :: "'w app \<Rightarrow> 'w app" where
  "set_viewport a = a\<lparr>a_ed := editor_set_viewport (sc_vis_rows (a_sc a)) (sc_vis_cols (a_sc a)) (a_ed a)\<rparr>"

text \<open>The result says whether the call succeeded; \<open>xpm\<close> is what \<open>xpm_load\<close> returns for the pointer's sprite.\<close>

definition scene_init :: "xpm_image option \<Rightarrow> 'w app \<Rightarrow> bool \<times> 'w app" where
  "scene_init xpm a =
     (let a = set_viewport (scene_update_layout a);
          (ok, mc) = mouse_cursor_init xpm (a_mc a);
          a = a\<lparr>a_mc := mc\<rparr>
      in if ok then (True, render RENDER_FULL a) else (False, a))"

definition scene_cleanup :: "'w app \<Rightarrow> 'w app option" where
  "scene_cleanup a = on_hc highlight_cache_cleanup (a\<lparr>a_mc := mouse_cursor_cleanup (a_mc a)\<rparr>)"

definition scene_get_vis_rows :: "'w app \<Rightarrow> int" where
  "scene_get_vis_rows a = sc_vis_rows (a_sc a)"

definition scene_set_language :: "SyntaxLanguage \<Rightarrow> 'w app \<Rightarrow> 'w app option" where
  "scene_set_language lang a = on_hc (highlight_cache_set_language (a_ed a) lang) a"

section \<open>Coordinates\<close>

definition model_to_px :: "'w app \<Rightarrow> int \<Rightarrow> int" where
  "model_to_px a model_col = r_x (l_editor (a_sc a)) + (model_col - editor_get_scroll_col (a_ed a)) * FONT_W"

definition model_to_py :: "'w app \<Rightarrow> int \<Rightarrow> int" where
  "model_to_py a model_row = r_y (l_editor (a_sc a)) + (model_row - editor_get_scroll_row (a_ed a)) * FONT_H"

text \<open>The row and the column stored, or \<open>None\<close> inside for the result \<open>false\<close>.\<close>

definition scene_px_to_text :: "int \<Rightarrow> int \<Rightarrow> 'w app \<Rightarrow> (int \<times> int) option option" where
  "scene_px_to_text px py a =
     (let sc = a_sc a; e = a_ed a in
      if px < r_x (l_editor sc) \<or> r_x (l_scrollbar sc) \<le> px then Some None
      else if py < r_y (l_editor sc) \<or> r_y (l_status_bar sc) \<le> py then Some None
      else
        let col = (px - r_x (l_editor sc)) sdiv FONT_W + editor_get_scroll_col e;
            row = (py - EDITOR_Y) sdiv FONT_H + editor_get_scroll_row e;
            row = (if row < 0 then 0 else row);
            row = (if editor_get_row_count e \<le> row then editor_get_row_count e - 1 else row);
            col = (if col < 0 then 0 else col)
        in do {
          len \<leftarrow> editor_get_line_len e row;
          Some (Some (row, if len < col then len else col))
        })"

definition scene_click_scrollbar :: "int \<Rightarrow> int \<Rightarrow> 'w app \<Rightarrow> bool \<times> 'w app" where
  "scene_click_scrollbar px py a =
     (let sb = l_scrollbar (a_sc a) in
      if px < r_x sb \<or> r_x sb + r_w sb \<le> px then (False, a)
      else if py < r_y sb \<or> r_y sb + r_h sb \<le> py then (False, a)
      else
        let row_count = editor_get_row_count (a_ed a);
            vis = sc_vis_rows (a_sc a);
            max_scroll = (if vis < row_count then row_count - vis else 0);
            target = (if 0 < max_scroll then ((py - r_y sb) * max_scroll) sdiv r_h sb else 0);
            e = editor_scroll_by (target - editor_get_scroll_row (a_ed a)) 0 (a_ed a);
            (dirty, e) = editor_consume_scroll_dirty e;
            a = a\<lparr>a_ed := e\<rparr>
        in (True, if dirty then render RENDER_FULL a else a))"

text \<open>The index stored, or \<open>None\<close> for the result \<open>false\<close>.\<close>

definition scene_px_to_filetree :: "int \<Rightarrow> int \<Rightarrow> 'w app \<Rightarrow> int option" where
  "scene_px_to_filetree px py a =
     (if \<not> filetree_is_visible (a_ft a) then None
      else if px < 0 \<or> r_w (l_filetree (a_sc a)) \<le> px then None
      else if py < EDITOR_Y then None
      else
        let index = filetree_get_scroll (a_ft a) + (py - EDITOR_Y) sdiv FONT_H
        in Some (if filetree_get_count (a_ft a) \<le> index then -1 else index))"

section \<open>Drawing\<close>

definition fill :: "int \<Rightarrow> int \<Rightarrow> int \<Rightarrow> int \<Rightarrow> u32 \<Rightarrow> 'w app \<Rightarrow> 'w app option" where
  "fill x y w h color = on_vd (bb_draw_rect (word_of_int x) (word_of_int y) (word_of_int w) (word_of_int h) color)"

definition fill_rect :: "rect \<Rightarrow> u32 \<Rightarrow> 'w app \<Rightarrow> 'w app option" where
  "fill_rect r color = fill (r_x r) (r_y r) (r_w r) (r_h r) color"

definition write_text :: "int \<Rightarrow> int \<Rightarrow> string \<Rightarrow> u32 \<Rightarrow> 'w app \<Rightarrow> 'w app option" where
  "write_text x y s color = on_vd (draw_string x y s color)"

definition draw_cursor :: "int \<Rightarrow> int \<Rightarrow> 'w app \<Rightarrow> 'w app option" where
  "draw_cursor model_col model_row a =
     (if filetree_is_focused (a_ft a) then Some a
      else fill (model_to_px a model_col) (model_to_py a model_row) FONT_W FONT_H COLOR_TEXT a)"

definition draw_remote_cursor :: "int \<Rightarrow> int \<Rightarrow> 'w app \<Rightarrow> 'w app option" where
  "draw_remote_cursor model_col model_row a =
     (if model_row < 0 \<or> model_col < 0 then Some a
      else fill (model_to_px a model_col) (model_to_py a model_row) FONT_W FONT_H 0xFF0000 a)"

definition selection_row :: "int \<times> int \<times> int \<times> int \<Rightarrow> int \<Rightarrow> 'w app \<Rightarrow> 'w app option" where
  "selection_row rng r a = (case rng of (sel_start_row, sel_start_col, sel_end_row, sel_end_col) \<Rightarrow>
     let scr = editor_get_scroll_row (a_ed a);
         scc = editor_get_scroll_col (a_ed a);
         ed = l_editor (a_sc a);
         vis = sc_vis_cols (a_sc a);
         y = r_y ed + (r - scr) * FONT_H;
         col_start = (if r = sel_start_row then sel_start_col else 0)
     in do {
       line_len \<leftarrow> editor_get_line_len (a_ed a) r;
       let col_end = (if r = sel_end_row then sel_end_col else line_len);
       let pixel_start = r_x ed + (if scc < col_start then col_start - scc else 0) * FONT_W;
       let pixel_end = r_x ed + (if col_end < scc + vis then col_end - scc else vis) * FONT_W;
       if pixel_start < pixel_end then fill pixel_start y (pixel_end - pixel_start) FONT_H COLOR_SEL_BG a else Some a
     })"

definition draw_selection_bg :: "int \<Rightarrow> 'w app \<Rightarrow> 'w app option" where
  "draw_selection_bg end_r a =
     (let rng = editor_sel_get_range (a_ed a);
          scr = editor_get_scroll_row (a_ed a)
      in case rng of (sel_start_row, _, sel_end_row, _) \<Rightarrow>
        let first_row = (if scr < sel_start_row then sel_start_row else scr);
            last_row = (if sel_end_row < end_r - 1 then sel_end_row else end_r - 1)
        in each (selection_row rng) [first_row..last_row] a)"

definition status_left :: "'w app \<Rightarrow> 'w app option" where
  "status_left a =
     (let sy = r_y (l_status_bar (a_sc a)) in
      if command_bar_get_mode (a_cb a) = MODE_COMMAND then do {
        input \<leftarrow> command_bar_get_input (a_cb a);
        a \<leftarrow> write_text 4 sy '':'' COLOR_STATUS_FG a;
        let px = 4 + FONT_W;
        a \<leftarrow> write_text px sy input COLOR_STATUS_FG a;
        fill (px + int (length input) * FONT_W) sy FONT_W FONT_H COLOR_STATUS_FG a
      } else do {
        status \<leftarrow> command_bar_get_status (a_cb a);
        if status \<noteq> '''' then write_text 4 sy status 0xFFCC00 a
        else do {
          name \<leftarrow> command_bar_get_filename (a_cb a);
          write_text 4 sy name COLOR_STATUS_FG a
        }
      })"

definition render_status_bar :: "'w app \<Rightarrow> 'w app option" where
  "render_status_bar a = do {
     let sb = l_status_bar (a_sc a);
     a \<leftarrow> fill_rect sb COLOR_STATUS_BG a;
     a \<leftarrow> status_left a;
     let t = time_get_string (a_cl a);
     a \<leftarrow> write_text (r_w sb - int (length t) * FONT_W - 4) (r_y sb) t COLOR_STATUS_FG a;
     write_text (r_x sb + r_w sb sdiv 2 - 32) (r_y sb) (session_time_format (a_tm a) (a_start a) 16) COLOR_STATUS_FG a
   }"

definition filetree_row :: "int \<Rightarrow> 'w app \<Rightarrow> 'w app option" where
  "filetree_row i a = do {
     ep \<leftarrow> filetree_get_entry i (a_ft a);
     let y = EDITOR_Y + (i - filetree_get_scroll (a_ft a)) * FONT_H;
     a \<leftarrow> (if i = filetree_get_cursor (a_ft a)
           then fill 0 y (r_w (l_filetree (a_sc a)) - 1) FONT_H
                  (if filetree_is_focused (a_ft a) then COLOR_FILETREE_SEL else COLOR_GUTTER_BG) a
           else Some a);
     e \<leftarrow> ep;
     write_text 4 y (cut (nat FILETREE_COLS) (fe_name e)) (if fe_is_dir e then COLOR_FILETREE_DIR else COLOR_FILETREE_FILE) a
   }"

definition draw_filetree :: "int \<Rightarrow> 'w app \<Rightarrow> 'w app option" where
  "draw_filetree vrows a = do {
     let lf = l_filetree (a_sc a);
     a \<leftarrow> fill_rect lf COLOR_FILETREE_BG a;
     a \<leftarrow> fill (r_w lf - 1) 0 1 (r_h lf) COLOR_FILETREE_SEP a;
     let scr = filetree_get_scroll (a_ft a);
     each filetree_row [scr..min (scr + vrows) (filetree_get_count (a_ft a)) - 1] a
   }"

text \<open>A line number written from its last digit on, and without its leading zeros.\<close>

fun digit_string :: "nat \<Rightarrow> int \<Rightarrow> string" where
  "digit_string 0 n = []"
| "digit_string (Suc i) n = digit_string i (n div 10) @ [char_of (48 + nat (n mod 10))]"

fun skip_zeros :: "string \<Rightarrow> string" where
  "skip_zeros (c # d # p) = (if c = CHR ''0'' then skip_zeros (d # p) else c # d # p)"
| "skip_zeros p = p"

definition gutter_row :: "int \<Rightarrow> int \<Rightarrow> 'w app \<Rightarrow> 'w app option" where
  "gutter_row digits r a =
     (let gu = l_gutter (a_sc a);
          y = r_y (l_editor (a_sc a)) + (r - editor_get_scroll_row (a_ed a)) * FONT_H;
          p = skip_zeros (digit_string (nat digits) (r + 1))
      in write_text (r_x gu + r_w gu - GUTTER_PAD - int (length p) * FONT_W) y p COLOR_GUTTER_FG a)"

text \<open>The line number is written into an array of 9 bytes.\<close>

definition draw_gutter :: "int \<Rightarrow> int \<Rightarrow> 'w app \<Rightarrow> 'w app option" where
  "draw_gutter scr end_r a = do {
     let gu = l_gutter (a_sc a);
     a \<leftarrow> fill_rect gu COLOR_GUTTER_BG a;
     let digits = r_w gu sdiv FONT_W - GUTTER_PAD;
     if digits < 0 \<or> 9 \<le> digits then None else each (gutter_row digits) [scr..end_r - 1] a
   }"

definition handle_height :: "int \<Rightarrow> int \<Rightarrow> int \<Rightarrow> int" where
  "handle_height n_rows vis track_h =
     (let handle_h = (if n_rows \<le> vis then track_h else (vis * track_h) sdiv n_rows);
          handle_h = (if handle_h < SCROLLBAR_HANDLE_MIN then SCROLLBAR_HANDLE_MIN else handle_h)
      in if track_h < handle_h then track_h else handle_h)"

definition handle_top :: "int \<Rightarrow> int \<Rightarrow> int \<Rightarrow> rect \<Rightarrow> int" where
  "handle_top n_rows vis scr sb =
     (let max_scroll = (if vis < n_rows then n_rows - vis else 1);
          max_handle_y = r_y sb + r_h sb - handle_height n_rows vis (r_h sb)
      in r_y sb + (scr * (max_handle_y - r_y sb)) sdiv max_scroll)"

definition draw_scrollbar :: "'w app \<Rightarrow> 'w app option" where
  "draw_scrollbar a = do {
     let row_count = editor_get_row_count (a_ed a);
     let sb = l_scrollbar (a_sc a);
     a \<leftarrow> fill_rect sb COLOR_GUTTER_BG a;
     if row_count \<le> 0 then Some a
     else let vis = sc_vis_rows (a_sc a) in
       fill (r_x sb + 2) (handle_top row_count vis (editor_get_scroll_row (a_ed a)) sb) (r_w sb - 4)
         (handle_height row_count vis (r_h sb)) COLOR_GUTTER_FG a
   }"

text \<open>A character of a line with its colour.\<close>

definition colored_char :: "(int \<Rightarrow> int) \<Rightarrow> int \<Rightarrow> char cells option \<Rightarrow> u32 cells \<Rightarrow> int \<Rightarrow> 'w app \<Rightarrow> 'w app option" where
  "colored_char px y line colors c a = do {
     ch \<leftarrow> char_at line c;
     color \<leftarrow> aread colors c;
     on_vd (draw_char (px c) y ch color) a
   }"

definition draw_line_colored :: "int \<Rightarrow> int \<Rightarrow> char cells option \<Rightarrow> int \<Rightarrow> u32 cells \<Rightarrow> int \<Rightarrow> 'w app \<Rightarrow> 'w app option" where
  "draw_line_colored x y line scc colors line_len =
     each (colored_char (\<lambda>c. x + (c - scc) * FONT_W) y line colors) [scc..line_len - 1]"

definition get_colors :: "int \<Rightarrow> 'w app \<Rightarrow> (canvas \<times> 'w app) option" where
  "get_colors r a = do { (c, h) \<leftarrow> highlight_cache_get_line (a_ed a) r (a_hc a); Some (c, a\<lparr>a_hc := h\<rparr>) }"

definition text_row :: "int \<Rightarrow> int \<Rightarrow> int \<Rightarrow> 'w app \<Rightarrow> 'w app option" where
  "text_row y scc r a = do {
     len \<leftarrow> editor_get_line_len (a_ed a) r;
     if len \<le> scc then Some a else do {
       (colors, a) \<leftarrow> get_colors r a;
       case colors of None \<Rightarrow> Some a
       | Some colors \<Rightarrow> do {
           line \<leftarrow> editor_get_line (a_ed a) r;
           draw_line_colored (r_x (l_editor (a_sc a))) y line scc colors len a
         }
     }
   }"

definition draw_text_lines :: "int \<Rightarrow> int \<Rightarrow> int \<Rightarrow> 'w app \<Rightarrow> 'w app option" where
  "draw_text_lines scr end_r scc = each (\<lambda>r. text_row (EDITOR_Y + (r - scr) * FONT_H) scc r) [scr..end_r - 1]"

section \<open>One frame\<close>

definition render_full :: "int \<Rightarrow> int \<Rightarrow> int \<Rightarrow> int \<Rightarrow> 'w app \<Rightarrow> 'w app option" where
  "render_full col row scr scc a = do {
     a \<leftarrow> on_hc (highlight_cache_sync (editor_get_row_count (a_ed a)) row) a;
     let a = set_viewport (scene_update_layout a);
     a \<leftarrow> on_vd (bb_clear COLOR_BG) a;
     let end_r = scr + sc_vis_rows (a_sc a);
     let end_r = (if editor_get_row_count (a_ed a) < end_r then editor_get_row_count (a_ed a) else end_r);
     a \<leftarrow> (if filetree_is_visible (a_ft a) then draw_filetree (sc_vis_rows (a_sc a)) a else Some a);
     a \<leftarrow> draw_gutter scr end_r a;
     a \<leftarrow> (if editor_sel_is_active (a_ed a) then draw_selection_bg end_r a else Some a);
     a \<leftarrow> draw_text_lines scr end_r scc a;
     a \<leftarrow> draw_cursor col row a;
     a \<leftarrow> draw_remote_cursor (editor_get_remote_cursor_col (a_ed a)) (editor_get_remote_cursor_row (a_ed a)) a;
     a \<leftarrow> draw_scrollbar a;
     render_status_bar a
   }"

definition render_line :: "int \<Rightarrow> int \<Rightarrow> int \<Rightarrow> int \<Rightarrow> 'w app \<Rightarrow> 'w app option" where
  "render_line col row scr scc a = do {
     a \<leftarrow> on_hc (highlight_cache_free_row row) a;
     a \<leftarrow> on_hc (highlight_cache_rebuild_from (a_ed a) row) a;
     let ed = l_editor (a_sc a);
     let y = r_y ed + (row - scr) * FONT_H;
     a \<leftarrow> fill (r_x ed) y (r_w ed) FONT_H COLOR_BG a;
     a \<leftarrow> text_row y scc row a;
     draw_cursor col row a
   }"

text \<open>\<open>line + scroll_col\<close>: the rest of the string.\<close>

definition render_remote_line :: "int \<Rightarrow> int \<Rightarrow> 'w app \<Rightarrow> 'w app option" where
  "render_remote_line scr scc a = do {
     let r_row = editor_get_remote_cursor_row (a_ed a);
     let r_col = editor_get_remote_cursor_col (a_ed a);
     let ed = l_editor (a_sc a);
     let y = r_y ed + (r_row - scr) * FONT_H;
     a \<leftarrow> fill (r_x ed) y (r_w ed) FONT_H COLOR_BG a;
     line \<leftarrow> editor_get_line (a_ed a) r_row;
     line \<leftarrow> line;
     s \<leftarrow> cstring line;
     a \<leftarrow> (if scc < int (length s)
           then (if scc < 0 then None else write_text (r_x ed) y (drop (nat scc) s) COLOR_TEXT a)
           else Some a);
     draw_remote_cursor r_col r_row a
   }"

definition render_word :: "int \<Rightarrow> int \<Rightarrow> 'w app \<Rightarrow> 'w app option" where
  "render_word col row a = do {
     let prev_col = sc_prev_col (a_sc a);
     let prev_row = sc_prev_row (a_sc a);
     a \<leftarrow> on_hc (highlight_cache_rebuild_from (a_ed a) prev_row) a;
     line \<leftarrow> editor_get_line (a_ed a) prev_row;
     len \<leftarrow> editor_get_line_len (a_ed a) prev_row;
     let wy = model_to_py a prev_row;
     a \<leftarrow> fill (model_to_px a col) wy ((prev_col - col + 1) * FONT_W) FONT_H COLOR_BG a;
     (colors, a) \<leftarrow> get_colors prev_row a;
     a \<leftarrow> (case colors of None \<Rightarrow> Some a
           | Some colors \<Rightarrow> each (colored_char (model_to_px a) wy line colors) [col..min prev_col (len - 1)] a);
     draw_cursor col row a
   }"

definition in_view :: "'w app \<Rightarrow> int \<Rightarrow> int \<Rightarrow> int \<Rightarrow> int \<Rightarrow> bool" where
  "in_view a col row scr scc \<longleftrightarrow> scr \<le> row \<and> row < scr + sc_vis_rows (a_sc a)
     \<and> scc \<le> col \<and> col < scc + sc_vis_cols (a_sc a)"

definition render_char :: "int \<Rightarrow> int \<Rightarrow> int \<Rightarrow> int \<Rightarrow> 'w app \<Rightarrow> 'w app option" where
  "render_char col row scr scc a = do {
     let prev_col = sc_prev_col (a_sc a);
     let prev_row = sc_prev_row (a_sc a);
     let curr_vis = in_view a col row scr scc;
     a \<leftarrow> (if in_view a prev_col prev_row scr scc then do {
             a \<leftarrow> on_hc (highlight_cache_rebuild_from (a_ed a) prev_row) a;
             let cx = model_to_px a prev_col;
             let cy = model_to_py a prev_row;
             a \<leftarrow> fill cx cy FONT_W FONT_H COLOR_BG a;
             len \<leftarrow> editor_get_line_len (a_ed a) prev_row;
             if prev_col < len then do {
               (colors, a) \<leftarrow> get_colors prev_row a;
               case colors of None \<Rightarrow> Some a
               | Some colors \<Rightarrow> do {
                   line \<leftarrow> editor_get_line (a_ed a) prev_row;
                   colored_char (\<lambda>_. cx) cy line colors prev_col a
                 }
             } else Some a
           } else Some a);
     if curr_vis then draw_cursor col row a else Some a
   }"

definition render_editor_ui :: "render_mode \<Rightarrow> int \<Rightarrow> int \<Rightarrow> int \<Rightarrow> int \<Rightarrow> 'w app \<Rightarrow> 'w app option" where
  "render_editor_ui mode col row scr scc a = (case mode of
     RENDER_FULL \<Rightarrow> render_full col row scr scc a
   | RENDER_LINE \<Rightarrow> render_line col row scr scc a
   | RENDER_REMOTE_LINE \<Rightarrow> render_remote_line scr scc a
   | RENDER_WORD \<Rightarrow> render_word col row a
   | RENDER_CHAR \<Rightarrow> render_char col row scr scc a
   | RENDER_STATUS \<Rightarrow> render_status_bar a
   | _ \<Rightarrow> Some a)"

definition flip_region :: "int \<Rightarrow> int \<Rightarrow> int \<Rightarrow> int \<Rightarrow> 'w app \<Rightarrow> 'w app option" where
  "flip_region x y w h = on_vd (vg_flip_region (word_of_int x) (word_of_int y) (word_of_int w) (word_of_int h))"

definition flip_status_bar :: "'w app \<Rightarrow> 'w app option" where
  "flip_status_bar a = (let sb = l_status_bar (a_sc a) in flip_region (r_x sb) (r_y sb) (r_w sb) (r_h sb) a)"

definition flip_editor_ui :: "render_mode \<Rightarrow> int \<Rightarrow> int \<Rightarrow> int \<Rightarrow> int \<Rightarrow> 'w app \<Rightarrow> 'w app option" where
  "flip_editor_ui mode col row scr scc a =
     (let ed = l_editor (a_sc a);
          prev_col = sc_prev_col (a_sc a);
          prev_row = sc_prev_row (a_sc a)
      in case mode of
        RENDER_STATUS \<Rightarrow> flip_status_bar a
      | RENDER_LINE \<Rightarrow> flip_region (r_x ed) (EDITOR_Y + (row - scr) * FONT_H) (r_w ed) FONT_H a
      | RENDER_REMOTE_LINE \<Rightarrow>
          flip_region (r_x ed) (EDITOR_Y + (editor_get_remote_cursor_row (a_ed a) - scr) * FONT_H) (r_w ed) FONT_H a
      | RENDER_CHAR \<Rightarrow> do {
          let curr_vis = in_view a col row scr scc;
          a \<leftarrow> (if in_view a prev_col prev_row scr scc
                then flip_region (model_to_px a prev_col) (model_to_py a prev_row) FONT_W FONT_H a else Some a);
          if curr_vis then flip_region (model_to_px a col) (model_to_py a row) FONT_W FONT_H a else Some a
        }
      | RENDER_WORD \<Rightarrow> flip_region (model_to_px a col) (model_to_py a prev_row) ((prev_col - col + 1) * FONT_W) FONT_H a
      | _ \<Rightarrow> Some a)"

definition flip_cursor_region :: "int \<Rightarrow> int \<Rightarrow> 'w app \<Rightarrow> 'w app option" where
  "flip_cursor_region x y a =
     (let h_res = vg_get_h_res (a_vd a); v_res = vg_get_v_res (a_vd a);
          w = mouse_cursor_width (a_mc a); h = mouse_cursor_height (a_mc a);
          x = (if x < 0 then 0 else x);
          y = (if y < 0 then 0 else y);
          w = (if h_res < x + w then h_res - x else w);
          h = (if v_res < y + h then v_res - y else h)
      in if 0 < w \<and> 0 < h then flip_region x y w h a else Some a)"

text \<open>\<open>transparent\<close> is what \<open>xpm_transparency_color\<close> returns.\<close>

definition view_render :: "u32 \<Rightarrow> 'w app \<Rightarrow> 'w app option" where
  "view_render transparent a = do {
     let mode = get_render (a_rs a);
     let a = a\<lparr>a_rs := clear_render (a_rs a)\<rparr>;
     let mx = ih_get_mouse_x (a_ms a);
     let my = ih_get_mouse_y (a_ms a);
     let old_mx = mouse_cursor_prev_x (a_mc a);
     let old_my = mouse_cursor_prev_y (a_mc a);
     let col = editor_get_cursor_col (a_ed a);
     let row = editor_get_cursor_row (a_ed a);
     let scr = editor_get_scroll_row (a_ed a);
     let scc = editor_get_scroll_col (a_ed a);
     a \<leftarrow> on_vd (mouse_cursor_hide (a_mc a)) a;
     a \<leftarrow> render_editor_ui mode col row scr scc a;
     (mc, vd) \<leftarrow> mouse_cursor_show transparent mx my (a_mc a) (a_vd a);
     let a = a\<lparr>a_mc := mc, a_vd := vd\<rparr>;
     a \<leftarrow> (if mode = RENDER_FULL then on_vd vg_flip_buffer a
           else do {
             a \<leftarrow> (if 0 \<le> old_mx then flip_cursor_region old_mx old_my a else Some a);
             a \<leftarrow> flip_cursor_region mx my a;
             flip_editor_ui mode col row scr scc a
           });
     Some (if mode \<noteq> RENDER_MOUSE \<and> mode \<noteq> RENDER_STATUS
           then a\<lparr>a_sc := (a_sc a)\<lparr>sc_prev_col := col, sc_prev_row := row\<rparr>\<rparr> else a)
   }"

section \<open>From the pixel to the text\<close>

lemma sdiv_div: "0 \<le> k \<Longrightarrow> 0 < n \<Longrightarrow> k sdiv n = k div n" for k n :: int
  by (cases "k = 0") (simp_all add: signed_divide_int_def)

lemma sdiv_pos: "0 < k sdiv n \<Longrightarrow> 0 < n \<Longrightarrow> 0 < k" for k n :: int
proof (rule ccontr)
  assume q: "0 < k sdiv n" and n: "0 < n" and k: "\<not> 0 < k"
  show False
  proof (cases "k = 0")
    case True
    with q show False by (simp add: signed_divide_int_def)
  next
    case False
    with k n have "k sdiv n = - ((- k) div n)" by (simp add: signed_divide_int_def)
    moreover have "0 \<le> (- k) div n" using k n by (intro pos_imp_zdiv_nonneg_iff [THEN iffD2]) simp_all
    ultimately show False using q by simp
  qed
qed

lemma sdiv_le: "0 < k sdiv n \<Longrightarrow> 0 < n \<Longrightarrow> k sdiv n * n \<le> k" for k n :: int
  using sdiv_pos [of k n] by (simp add: sdiv_div) (metis minus_mod_eq_div_mult pos_mod_sign diff_le_eq le_add_same_cancel1)

lemma cell_in: "vis * n \<le> w \<Longrightarrow> k < vis \<Longrightarrow> i < n \<Longrightarrow> 0 < n \<Longrightarrow> k * n + i < w" for vis n w k i :: int
proof -
  assume "vis * n \<le> w" "k < vis" "i < n" "0 < n"
  then have "(k + 1) * n \<le> vis * n" by (intro mult_right_mono) simp_all
  with \<open>vis * n \<le> w\<close> \<open>i < n\<close> show ?thesis by (simp add: algebra_simps)
qed

lemma div_below: "k < m * n \<Longrightarrow> 0 < n \<Longrightarrow> k div n < m" for k m n :: int
proof -
  assume "k < m * n" "0 < n"
  moreover from this have "k div n * n \<le> k" by (simp add: minus_mod_eq_div_mult [symmetric])
  ultimately have "k div n * n < m * n" by linarith
  with \<open>0 < n\<close> show "k div n < m" by (simp only: mult_less_cancel_right)
qed

lemma layout_simps:
  fixes a :: "'w app"
  defines "l \<equiv> scene_update_layout a"
  shows "a_ed l = a_ed a" "a_ft l = a_ft a" "a_vd l = a_vd a"
    "r_y (l_editor (a_sc l)) = EDITOR_Y" "r_h (l_editor (a_sc l)) = v_res (a_vd a) - EDITOR_Y - FONT_H"
    "r_x (l_scrollbar (a_sc l)) = r_x (l_editor (a_sc l)) + r_w (l_editor (a_sc l))"
    "r_y (l_status_bar (a_sc l)) = v_res (a_vd a) - FONT_H"
    "sc_vis_cols (a_sc l) = r_w (l_editor (a_sc l)) sdiv FONT_W"
    "sc_vis_rows (a_sc l) = r_h (l_editor (a_sc l)) sdiv FONT_H"
  by (simp_all add: l_def scene_update_layout_def Let_def vg_get_h_res_def vg_get_v_res_def)

lemma cell_index: "0 \<le> i \<Longrightarrow> i < n \<Longrightarrow> 0 < n \<Longrightarrow> 0 \<le> k \<Longrightarrow> (k * n + i) sdiv n = k" for i k n :: int
  by (simp add: sdiv_div)

text \<open>C30: After the layout has been computed, for whatever screen, line numbers and file tree, a click on any pixel of
  the cell in which a character is drawn is mapped back to that character's row and column, also when the
  text is scrolled.\<close>

theorem click_finds_cell:
  assumes "editor_get_line_len (a_ed a) row = Some len" and "0 \<le> row" and "row < row_count (a_ed a)"
    and "0 \<le> col" and "col \<le> len"
    and "scroll_row (a_ed a) \<le> row" and "row < scroll_row (a_ed a) + sc_vis_rows (a_sc (scene_update_layout a))"
    and "scroll_col (a_ed a) \<le> col" and "col < scroll_col (a_ed a) + sc_vis_cols (a_sc (scene_update_layout a))"
    and "0 \<le> i" and "i < FONT_W" and "0 \<le> j" and "j < FONT_H"
  shows "scene_px_to_text (model_to_px (scene_update_layout a) col + i) (model_to_py (scene_update_layout a) row + j)
      (scene_update_layout a) = Some (Some (row, col))"
proof -
  let ?l = "scene_update_layout a" and ?e = "a_ed a"
  let ?ed = "l_editor (a_sc ?l)"
  have px: "model_to_px ?l col = r_x ?ed + (col - scroll_col ?e) * 8"
    by (simp add: model_to_px_def layout_simps editor_get_scroll_col_def FONT_W_def)
  have py: "model_to_py ?l row = EDITOR_Y + (row - scroll_row ?e) * 16"
    by (simp add: model_to_py_def layout_simps editor_get_scroll_row_def FONT_H_def)
  have vc: "sc_vis_cols (a_sc ?l) = r_w ?ed sdiv 8" by (simp only: layout_simps FONT_W_def)
  have vr: "sc_vis_rows (a_sc ?l) = r_h ?ed sdiv 16" by (simp only: layout_simps FONT_H_def)
  have "0 < sc_vis_cols (a_sc ?l)" "0 < sc_vis_rows (a_sc ?l)" using assms(6-9) by linarith+
  then have w: "sc_vis_cols (a_sc ?l) * 8 \<le> r_w ?ed" and h: "sc_vis_rows (a_sc ?l) * 16 \<le> r_h ?ed"
    unfolding vc vr by (auto intro: sdiv_le dest: sdiv_pos)
  have i: "i < 8" "j < 16" using assms(11,13) by (simp_all add: FONT_W_def FONT_H_def)
  have c: "(col - scroll_col ?e) * 8 + i < r_w ?ed" by (rule cell_in [OF w _ i(1)]) (use assms(9) in simp_all)
  have r: "(row - scroll_row ?e) * 16 + j < r_h ?ed" by (rule cell_in [OF h _ i(2)]) (use assms(7) in simp_all)
  have cx: "(model_to_px ?l col + i - r_x ?ed) sdiv FONT_W = col - scroll_col ?e"
  proof -
    have "model_to_px ?l col + i - r_x ?ed = (col - scroll_col ?e) * 8 + i" by (simp add: px)
    then show ?thesis unfolding FONT_W_def by (simp only:) (rule cell_index; use i assms(8,10) in simp)
  qed
  have cy: "(model_to_py ?l row + j - EDITOR_Y) sdiv FONT_H = row - scroll_row ?e"
  proof -
    have "model_to_py ?l row + j - EDITOR_Y = (row - scroll_row ?e) * 16 + j" by (simp add: py)
    then show ?thesis unfolding FONT_H_def by (simp only:) (rule cell_index; use i assms(6,12) in simp)
  qed
  have inside: "\<not> (model_to_px ?l col + i < r_x ?ed \<or> r_x (l_scrollbar (a_sc ?l)) \<le> model_to_px ?l col + i)"
    "\<not> (model_to_py ?l row + j < r_y ?ed \<or> r_y (l_status_bar (a_sc ?l)) \<le> model_to_py ?l row + j)"
    using c r assms(6,8,10,12) by (auto simp: px py layout_simps)
  show ?thesis unfolding scene_px_to_text_def Let_def if_not_P [OF inside(1)] if_not_P [OF inside(2)] cx cy
    using assms(1-5) by (simp add: layout_simps editor_get_scroll_col_def editor_get_scroll_row_def editor_get_row_count_def)
qed

definition demo :: "unit app" where
  "demo = \<lparr>a_ed = two_rows, a_cb = command_bar0, a_ft = filetree0, a_hc = highlight_cache0, a_sc = scene0,
     a_rs = RENDER_NONE, a_vd = video0\<lparr>h_res := 1152, v_res := 864\<rparr>, a_mc = mouse_cursor0, a_ms = mouse_state0,
     a_cl = clock0, a_tm = timer0, a_start = 0, quit_flag = False, remote = False, file_num_lines = 0,
     lines_contador = 0, a_w = ()\<rparr>"

lemma demo_layout: "l_editor (a_sc (scene_update_layout demo)) = \<lparr>r_x = 200, r_y = 10, r_w = 944, r_h = 838\<rparr>"
  "sc_vis_rows (a_sc (scene_update_layout demo)) = 52" "sc_vis_cols (a_sc (scene_update_layout demo)) = 118"
  by (simp_all add: scene_update_layout_def demo_def two_rows_def filetree0_def filetree_is_visible_def video0_def
      vg_get_h_res_def vg_get_v_res_def FILETREE_W_PX_def FILETREE_COLS_def FONT_W_def FONT_H_def EDITOR_Y_def
      GUTTER_DIGITS_MIN_def GUTTER_PAD_def SCROLLBAR_W_def count_digits.simps editor_get_row_count_def Let_def
      sdiv_div)

lemma click_finds_cell_witness:
  "scene_px_to_text 239 25 (scene_update_layout demo) = Some (Some (0, 4))"
proof -
  have l: "editor_get_line_len (a_ed demo) 0 = Some 4"
    by (simp add: demo_def editor_get_line_len_def two_rows_def line_at_def aread_def in_range_def)
  have s: "scroll_row (a_ed demo) = 0" "scroll_col (a_ed demo) = 0" "row_count (a_ed demo) = 2"
    by (simp_all add: demo_def two_rows_def editor0_def)
  have "model_to_px (scene_update_layout demo) 4 + 7 = 239" "model_to_py (scene_update_layout demo) 0 + 15 = 25"
    using s by (simp_all add: model_to_px_def model_to_py_def demo_layout layout_simps FONT_W_def FONT_H_def
        EDITOR_Y_def editor_get_scroll_col_def editor_get_scroll_row_def)
  then show ?thesis
    using click_finds_cell [OF l, where col = 4 and i = 7 and j = 15] s by (simp add: demo_layout FONT_W_def FONT_H_def)
qed

section \<open>The screen and the back buffer\<close>

lemma displayed_cong:
  assumes "mode32 v" and "\<And>x y. 0 \<le> x \<Longrightarrow> x < h_res v \<Longrightarrow> 0 \<le> y \<Longrightarrow> y < v_res v \<Longrightarrow> f x y = g x y"
  shows "displayed v f = displayed v g"
proof -
  have "0 < h_res v" using assms(1) by (simp add: mode32_def)
  then have "pixels (h_res v) (v_res v) f = pixels (h_res v) (v_res v) g"
    by (intro pixels_cong) (rule assms(2))
  then show ?thesis by (simp add: displayed_def)
qed

text \<open>The part of the screen under a sprite at \<open>(x, y)\<close>.\<close>

definition sprite_patch :: "mouse_cursor \<Rightarrow> int \<Rightarrow> int \<Rightarrow> picture \<Rightarrow> picture \<Rightarrow> picture" where
  "sprite_patch mc x y f g = patch x y (mouse_cursor_width mc) (mouse_cursor_height mc) f g"

lemma spot_in_sprite:
  assumes "k < cells_of mc"
  shows "x \<le> fst (spot mc x y k)" "fst (spot mc x y k) < x + mouse_cursor_width mc"
    "y \<le> snd (spot mc x y k)" "snd (spot mc x y k) < y + mouse_cursor_height mc"
proof -
  let ?w = "mouse_cursor_width mc" and ?h = "mouse_cursor_height mc"
  have nn: "0 \<le> ?w" "0 \<le> ?h" by (simp_all add: mouse_cursor_width_def mouse_cursor_height_def)
  have k: "int k < ?w * ?h" using assms nn by (simp add: cells_of_def nat_less_iff)
  then have w: "0 < ?w" using nn by (cases "?w = 0") auto
  show "x \<le> fst (spot mc x y k)" "fst (spot mc x y k) < x + ?w" using w by (simp_all add: spot_def)
  show "y \<le> snd (spot mc x y k)" using w by (simp add: spot_def pos_imp_zdiv_nonneg_iff)
  have "int k div ?w * ?w \<le> int k" using w by (simp add: div_mult_mod_eq [symmetric] minus_mod_eq_div_mult [symmetric])
  with k have "int k div ?w * ?w < ?h * ?w" by (simp add: mult.commute)
  then have "int k div ?w < ?h" using w by (simp only: mult_less_cancel_right)
  then show "snd (spot mc x y k) < y + ?h" by (simp add: spot_def)
qed

lemma flip_region_flips:
  assumes "drawn (a_vd a) f" and "displayed (a_vd a) g" and "0 \<le> x" and "0 \<le> y" and "0 \<le> w" and "0 \<le> h"
    and "x + w \<le> h_res (a_vd a)" and "y + h \<le> v_res (a_vd a)"
  obtains m where "flip_region x y w h a = Some (a\<lparr>a_vd := (a_vd a)\<lparr>video_mem := m\<rparr>\<rparr>)"
    and "displayed ((a_vd a)\<lparr>video_mem := m\<rparr>) (patch x y w h f g)"
proof -
  let ?v = "a_vd a"
  have res: "h_res ?v < 2 ^ 16" "v_res ?v < 2 ^ 16" using drawn_mode [OF assms(1)] by (simp_all add: mode32_def)
  have u: "uint (word_of_int x :: u16) = x" "uint (word_of_int y :: u16) = y"
    "uint (word_of_int w :: u16) = w" "uint (word_of_int h :: u16) = h"
    by (rule u16_small; use res assms(3-8) in linarith)+
  have "uint (word_of_int x :: u16) + uint (word_of_int w :: u16) \<le> h_res ?v"
    "uint (word_of_int y :: u16) + uint (word_of_int h :: u16) \<le> v_res ?v" using u assms(7,8) by simp_all
  from flip_rows_copies [OF this assms(1,2), of "word_of_int y" "unat (word_of_int h :: u16)"]
  obtain mem where "vg_flip_region (word_of_int x) (word_of_int y) (word_of_int w) (word_of_int h) ?v = Some (?v\<lparr>video_mem := mem\<rparr>)"
      "displayed (?v\<lparr>video_mem := mem\<rparr>) (patch x y w h f g)"
    using u by (auto simp: vg_flip_region_def)
  then show thesis using that by (simp add: flip_region_def on_vd_def)
qed

lemma flip_cursor_region_flips:
  assumes "drawn (a_vd a) f" and "displayed (a_vd a) g" and "0 \<le> x" and "0 \<le> y"
  obtains m where "flip_cursor_region x y a = Some (a\<lparr>a_vd := (a_vd a)\<lparr>video_mem := m\<rparr>\<rparr>)"
    and "displayed ((a_vd a)\<lparr>video_mem := m\<rparr>) (sprite_patch (a_mc a) x y f g)"
proof -
  let ?v = "a_vd a" and ?w = "mouse_cursor_width (a_mc a)" and ?h = "mouse_cursor_height (a_mc a)"
  have m: "mode32 ?v" by (rule drawn_mode [OF assms(1)])
  define w where "w = (if h_res ?v < x + ?w then h_res ?v - x else ?w)"
  define h where "h = (if v_res ?v < y + ?h then v_res ?v - y else ?h)"
  have same: "displayed (?v\<lparr>video_mem := mem\<rparr>) (patch x y w h f g) = displayed (?v\<lparr>video_mem := mem\<rparr>) (sprite_patch (a_mc a) x y f g)" for mem
    by (rule displayed_cong) (use m in \<open>auto simp: mode32_def patch_def sprite_patch_def w_def h_def\<close>)
  have e: "flip_cursor_region x y a = (if 0 < w \<and> 0 < h then flip_region x y w h a else Some a)"
    using assms(3,4) by (simp add: flip_cursor_region_def Let_def w_def h_def vg_get_h_res_def vg_get_v_res_def)
  show thesis
  proof (cases "0 < w \<and> 0 < h")
    case True
    have le: "x + w \<le> h_res ?v" "y + h \<le> v_res ?v" by (auto simp: w_def h_def)
    obtain mem where f: "flip_region x y w h a = Some (a\<lparr>a_vd := ?v\<lparr>video_mem := mem\<rparr>\<rparr>)"
      and d: "displayed (?v\<lparr>video_mem := mem\<rparr>) (patch x y w h f g)"
      using flip_region_flips [OF assms(1,2), of x y w h] assms(3,4) True le by auto
    have "flip_cursor_region x y a = Some (a\<lparr>a_vd := ?v\<lparr>video_mem := mem\<rparr>\<rparr>)" using e True f by simp
    then show thesis using that d same by simp
  next
    case False
    have "displayed ?v (sprite_patch (a_mc a) x y f g) = displayed ?v g"
      by (rule displayed_cong [OF m]) (use False in \<open>auto simp: patch_def sprite_patch_def w_def h_def split: if_splits\<close>)
    then show thesis using that [of "video_mem ?v"] e False assms(2) by simp
  qed
qed

text \<open>
  The screen shows the back buffer, in which the pointer, if it is shown, is drawn over the picture \<open>f\<close>.
\<close>

definition in_sync :: "'w app \<Rightarrow> picture \<Rightarrow> bool" where
  "in_sync a f \<longleftrightarrow> (\<exists>g. drawn (a_vd a) g \<and> displayed (a_vd a) g \<and> cursor_ready (a_mc a)
     \<and> (if prev_x (a_mc a) < 0 then g = f else pointer_over (a_mc a) (a_vd a) f g \<and> 0 \<le> prev_y (a_mc a)))"

lemma pointer_over_elsewhere:
  assumes "pointer_over mc v f g" and "\<not> (prev_x mc \<le> a \<and> a < prev_x mc + mouse_cursor_width mc
    \<and> prev_y mc \<le> b \<and> b < prev_y mc + mouse_cursor_height mc)"
  shows "g a b = f a b"
proof -
  have "(a, b) \<noteq> spot mc (prev_x mc) (prev_y mc) k" if "k < cells_of mc" for k
  proof
    assume "(a, b) = spot mc (prev_x mc) (prev_y mc) k"
    then have "a = fst (spot mc (prev_x mc) (prev_y mc) k)" "b = snd (spot mc (prev_x mc) (prev_y mc) k)"
      by (metis fst_conv, metis snd_conv)
    then show False using spot_in_sprite [OF that, where x = "prev_x mc" and y = "prev_y mc"] assms(2) by simp
  qed
  then show ?thesis using assms(1) by (simp add: pointer_over_def)
qed

lemma hide_draws:
  assumes "drawn v g" and "if prev_x mc < 0 then g = f else pointer_over mc v f g"
  shows "mouse_cursor_hide mc v = Some (draw f v)"
proof (cases "prev_x mc < 0")
  case True
  then show ?thesis using drawn_eq [OF assms(1)] assms(2) by (simp add: mouse_cursor_hide_def)
next
  case False
  then show ?thesis using assms by (intro hide_hides) simp_all
qed

text \<open>Copying the region of the old sprite, if there is one, and that of the new one makes the screen equal
  to the back buffer, if outside those regions both show the same.\<close>

lemma pointer_regions_flipped:
  assumes "drawn (a_vd a) h" and "displayed (a_vd a) g" and "0 \<le> ox \<Longrightarrow> 0 \<le> oy" and "0 \<le> x" and "0 \<le> y"
    and "\<And>b c. \<not> (x \<le> b \<and> b < x + mouse_cursor_width (a_mc a) \<and> y \<le> c \<and> c < y + mouse_cursor_height (a_mc a)) \<Longrightarrow>
      0 \<le> ox \<longrightarrow> \<not> (ox \<le> b \<and> b < ox + mouse_cursor_width (a_mc a) \<and> oy \<le> c \<and> c < oy + mouse_cursor_height (a_mc a)) \<Longrightarrow> g b c = h b c"
  obtains a1 m where "(if 0 \<le> ox then flip_cursor_region ox oy a else Some a) = Some a1"
    and "flip_cursor_region x y a1 = Some (a\<lparr>a_vd := (a_vd a)\<lparr>video_mem := m\<rparr>\<rparr>)"
    and "displayed ((a_vd a)\<lparr>video_mem := m\<rparr>) h"
proof -
  obtain m1 s1 where f1: "(if 0 \<le> ox then flip_cursor_region ox oy a else Some a) = Some (a\<lparr>a_vd := (a_vd a)\<lparr>video_mem := m1\<rparr>\<rparr>)"
    and s1: "displayed ((a_vd a)\<lparr>video_mem := m1\<rparr>) s1" "s1 = (if 0 \<le> ox then sprite_patch (a_mc a) ox oy h g else g)"
  proof (cases "0 \<le> ox")
    case True
    then show thesis using flip_cursor_region_flips [OF assms(1,2) True assms(3) [OF True]] that by metis
  next
    case False
    then show thesis using that [of "video_mem (a_vd a)" g] assms(2) by simp
  qed
  let ?a = "a\<lparr>a_vd := (a_vd a)\<lparr>video_mem := m1\<rparr>\<rparr>"
  have d: "drawn (a_vd ?a) h" using assms(1) by (simp add: drawn_def mode32_def)
  obtain m2 where f2: "flip_cursor_region x y ?a = Some (?a\<lparr>a_vd := (a_vd ?a)\<lparr>video_mem := m2\<rparr>\<rparr>)"
    and s2: "displayed ((a_vd ?a)\<lparr>video_mem := m2\<rparr>) (sprite_patch (a_mc ?a) x y h s1)"
    using flip_cursor_region_flips [OF d _ assms(4,5), of s1] s1(1) by auto
  have "sprite_patch (a_mc a) x y h s1 b c = h b c" for b c
    using assms(6) [of b c] by (auto simp: s1(2) sprite_patch_def patch_def)
  then have "sprite_patch (a_mc a) x y h s1 = h" by (intro ext)
  then show ?thesis using that [OF f1, of m2] f2 s2 by simp
qed

text \<open>The frame for a pointer movement, step by step.\<close>

lemma view_render_pointer:
  assumes "a_rs a = RENDER_NONE \<or> a_rs a = RENDER_MOUSE" and "mouse_cursor_hide (a_mc a) (a_vd a) = Some v1"
    and "mouse_cursor_show transparent (mouse_x (a_ms a)) (mouse_y (a_ms a)) (a_mc a) v1 = Some (mc', v2)"
    and "(if 0 \<le> prev_x (a_mc a) then flip_cursor_region (prev_x (a_mc a)) (prev_y (a_mc a)) (a\<lparr>a_rs := RENDER_NONE, a_mc := mc', a_vd := v2\<rparr>)
      else Some (a\<lparr>a_rs := RENDER_NONE, a_mc := mc', a_vd := v2\<rparr>)) = Some a2"
    and "flip_cursor_region (mouse_x (a_ms a)) (mouse_y (a_ms a)) a2 = Some a3" and "a_sc a3 = a_sc a"
  shows "view_render transparent a = Some (a3\<lparr>a_sc := if a_rs a \<noteq> RENDER_MOUSE
      then (a_sc a)\<lparr>sc_prev_col := cursor_col (a_ed a), sc_prev_row := cursor_row (a_ed a)\<rparr> else a_sc a\<rparr>)"
proof -
  have "render_editor_ui (a_rs a) c r s t b = Some b" "flip_editor_ui (a_rs a) c r s t b = Some b"
    "a_rs a \<noteq> RENDER_FULL" "a_rs a \<noteq> RENDER_STATUS" for c r s t and b :: "'a app"
    using assms(1) by (auto simp: render_editor_ui_def flip_editor_ui_def)
  then show ?thesis using assms(2,3,5,6)
    by (simp add: assms(4) view_render_def get_render_def clear_render_def ih_get_mouse_x_def ih_get_mouse_y_def
        mouse_cursor_prev_x_def mouse_cursor_prev_y_def on_vd_def Let_def editor_get_cursor_col_def editor_get_cursor_row_def
        split del: if_split cong: if_cong) simp
qed

text \<open>Redrawing only the pointer keeps the screen equal to the back buffer: after a frame for a pointer movement,
  from and to anywhere on the screen, the old sprite is gone from both, the new one is in both, over the
  same picture, although only the two regions of the sprites are copied; the text, its layout and all
  other state stay as they are, and no request for a redraw is left.\<close>

theorem pointer_frame:
  assumes "in_sync a f" and "a_rs a = RENDER_NONE \<or> a_rs a = RENDER_MOUSE"
    and "0 \<le> mouse_x (a_ms a)" and "0 \<le> mouse_y (a_ms a)"
  shows "\<exists>a'. view_render transparent a = Some a' \<and> in_sync a' f
    \<and> prev_x (a_mc a') = mouse_x (a_ms a) \<and> prev_y (a_mc a') = mouse_y (a_ms a)
    \<and> (\<exists>sc. a' = a\<lparr>a_rs := RENDER_NONE, a_vd := a_vd a', a_mc := a_mc a', a_sc := sc\<rparr>
         \<and> sc = (a_sc a)\<lparr>sc_prev_col := sc_prev_col sc, sc_prev_row := sc_prev_row sc\<rparr>)"
proof -
  let ?v = "a_vd a" and ?mc = "a_mc a" and ?x = "mouse_x (a_ms a)" and ?y = "mouse_y (a_ms a)"
  let ?ox = "prev_x ?mc" and ?oy = "prev_y ?mc"
  obtain g where g: "drawn ?v g" "displayed ?v g" "cursor_ready ?mc"
    and over: "if ?ox < 0 then g = f else pointer_over ?mc ?v f g" and oy: "0 \<le> ?ox \<Longrightarrow> 0 \<le> ?oy"
    using assms(1) unfolding in_sync_def by (auto split: if_splits)
  have m: "mode32 ?v" by (rule drawn_mode [OF g(1)])
  have hide: "mouse_cursor_hide ?mc ?v = Some (draw f ?v)" by (rule hide_draws [OF g(1) over])
  have df: "drawn (draw f ?v) f" using m by simp
  obtain h mc' where sh: "mouse_cursor_show transparent ?x ?y ?mc (draw f ?v) = Some (mc', draw h ?v)"
    and ov: "pointer_over mc' (draw h ?v) f h"
    and mc': "mc' = ?mc\<lparr>bg_buf := bg_buf mc', prev_x := ?x, prev_y := ?y\<rparr>" and ready: "cursor_ready mc'"
    using show_shows [OF df g(3)] by (metis draw_simps(8))
  have xy: "prev_x mc' = ?x" "prev_y mc' = ?y" by (subst mc', simp)+
  have size: "mouse_cursor_width mc' = mouse_cursor_width ?mc" "mouse_cursor_height mc' = mouse_cursor_height ?mc"
    by (subst mc', simp add: mouse_cursor_width_def mouse_cursor_height_def)+
  define a1 where "a1 = a\<lparr>a_rs := RENDER_NONE, a_mc := mc', a_vd := draw h ?v\<rparr>"
  have v1: "a_vd a1 = draw h ?v" "a_mc a1 = mc'" by (simp_all add: a1_def)
  have d1: "drawn (a_vd a1) h" "displayed (a_vd a1) g" using m g(2) by (simp_all add: v1 displayed_def)
  have new: "h b c = f b c" if "\<not> (?x \<le> b \<and> b < ?x + mouse_cursor_width mc' \<and> ?y \<le> c \<and> c < ?y + mouse_cursor_height mc')" for b c
    using that by (intro pointer_over_elsewhere [OF ov]) (simp add: xy)
  have old: "g b c = f b c" if "0 \<le> ?ox \<longrightarrow> \<not> (?ox \<le> b \<and> b < ?ox + mouse_cursor_width mc' \<and> ?oy \<le> c \<and> c < ?oy + mouse_cursor_height mc')" for b c
    using that over size pointer_over_elsewhere [of ?mc ?v f g b c] by (auto split: if_splits)
  obtain a2 m2 where f1: "(if 0 \<le> ?ox then flip_cursor_region ?ox ?oy a1 else Some a1) = Some a2"
    and f2: "flip_cursor_region ?x ?y a2 = Some (a1\<lparr>a_vd := (a_vd a1)\<lparr>video_mem := m2\<rparr>\<rparr>)"
    and shown: "displayed ((a_vd a1)\<lparr>video_mem := m2\<rparr>) h"
    by (rule pointer_regions_flipped [where ox = ?ox, OF d1 oy assms(3,4)], assumption) (simp_all add: v1 new old)
  define a3 where "a3 = a1\<lparr>a_vd := (a_vd a1)\<lparr>video_mem := m2\<rparr>\<rparr>"
  have a3: "a_vd a3 = (draw h ?v)\<lparr>video_mem := m2\<rparr>" "a_mc a3 = mc'" by (simp_all add: a3_def v1 a1_def)
  have d3: "drawn (a_vd a3) h" using m by (simp add: a3 drawn_def mode32_def draw_def)
  have shown_h: "displayed (a_vd a3) h" using shown by (simp add: a3 v1)
  let ?sc = "if a_rs a \<noteq> RENDER_MOUSE then (a_sc a)\<lparr>sc_prev_col := cursor_col (a_ed a), sc_prev_row := cursor_row (a_ed a)\<rparr> else a_sc a"
  define sc where "sc = ?sc"
  let ?a' = "a3\<lparr>a_sc := sc\<rparr>"
  have r: "view_render transparent a = Some ?a'" unfolding sc_def
    by (rule view_render_pointer [OF assms(2) hide sh f1 [unfolded a1_def] f2 [folded a3_def]]) (simp add: a3_def a1_def)
  have "in_sync ?a' f" unfolding in_sync_def
    using d3 shown_h ready ov xy assms(3,4) by (intro exI [of _ h]) (simp add: a3 pointer_over_def below_def on_screen_spot_def visible_px_def vg_get_h_res_def vg_get_v_res_def)
  moreover have "?a' = a\<lparr>a_rs := RENDER_NONE, a_vd := a_vd ?a', a_mc := a_mc ?a', a_sc := sc\<rparr>"
    by (simp add: a3_def a1_def)
  moreover have "sc = (a_sc a)\<lparr>sc_prev_col := sc_prev_col sc, sc_prev_row := sc_prev_row sc\<rparr>"
    by (simp add: sc_def)
  ultimately show ?thesis using r xy a3
    by (intro exI [of _ ?a'] conjI exI [of _ sc]) simp_all
qed

definition demo_frame :: "unit app" where
  "demo_frame = demo\<lparr>a_vd := small_screen\<lparr>video_mem := bytes (pixels 3 2 (plain 5))\<rparr>, a_mc := arrow,
     a_ms := mouse_state0\<lparr>mouse_x := 2, mouse_y := 1\<rparr>, a_rs := RENDER_MOUSE\<rparr>"

lemma demo_frame_in_sync: "in_sync demo_frame (plain 5)"
  unfolding in_sync_def
  by (rule exI [of _ "plain 5"])
    (use arrow_ready in \<open>simp add: demo_frame_def small_screen_def drawn_def mode32_def displayed_def arrow_def
       mouse_cursor_init_def mouse_cursor0_def\<close>)

lemma pointer_frame_witness:
  "\<exists>a'. view_render 0xFF000001 demo_frame = Some a' \<and> in_sync a' (plain 5) \<and> prev_x (a_mc a') = 2"
  using pointer_frame [OF demo_frame_in_sync, where transparent = "0xFF000001"] by (auto simp: demo_frame_def)

section \<open>The scroll bar\<close>

lemma handle_in_track:
  assumes "0 < n_rows" and "0 \<le> vis" and "0 \<le> scr" and "scr \<le> max 0 (n_rows - vis)" and "0 \<le> r_h sb"
  shows "0 \<le> handle_height n_rows vis (r_h sb)" and "r_y sb \<le> handle_top n_rows vis scr sb"
    and "handle_top n_rows vis scr sb + handle_height n_rows vis (r_h sb) \<le> r_y sb + r_h sb"
proof -
  let ?h = "handle_height n_rows vis (r_h sb)"
  have h: "0 \<le> ?h" "?h \<le> r_h sb" using assms(5) by (auto simp: handle_height_def SCROLLBAR_HANDLE_MIN_def Let_def)
  then show "0 \<le> ?h" by simp
  define m where "m = (if vis < n_rows then n_rows - vis else 1)"
  have m: "0 < m" "scr \<le> m" using assms(4) by (auto simp: m_def split: if_splits)
  have t: "handle_top n_rows vis scr sb = r_y sb + scr * (r_h sb - ?h) div m"
    using h assms(3) m by (simp add: handle_top_def Let_def m_def [symmetric] sdiv_div)
  have "0 \<le> scr * (r_h sb - ?h) div m" using h assms(3) m by (simp add: pos_imp_zdiv_nonneg_iff)
  then show "r_y sb \<le> handle_top n_rows vis scr sb" by (simp add: t)
  have "scr * (r_h sb - ?h) \<le> m * (r_h sb - ?h)" using h m by (intro mult_right_mono) simp_all
  then have "scr * (r_h sb - ?h) div m \<le> m * (r_h sb - ?h) div m" using m by (intro zdiv_mono1) simp_all
  then show "handle_top n_rows vis scr sb + ?h \<le> r_y sb + r_h sb" using m by (simp add: t)
qed

text \<open>A click on the scroll bar of height \<open>h\<close>, \<open>d\<close> pixels below its top, scrolls the text to the row at the same
  proportion, \<open>d * (rows - visible) div h\<close>: never above the first row, never past the last screenful; if all
  rows are visible, to the first row. The handle drawn for it lies within the bar, the text, its cursor and
  the rest of the state do not change, and the screen is redrawn if it has scrolled.\<close>

theorem scrollbar_click_scrolls:
  assumes "l_scrollbar (a_sc a) = sb" and "r_x sb \<le> px" and "px < r_x sb + r_w sb" and "0 \<le> d" and "d < r_h sb"
    and "0 < row_count (a_ed a)" and "0 \<le> sc_vis_rows (a_sc a)" and "0 \<le> scroll_col (a_ed a)"
  shows "\<exists>a' row. scene_click_scrollbar px (r_y sb + d) a = (True, a')
    \<and> a' = a\<lparr>a_ed := (a_ed a)\<lparr>scroll_row := row, scroll_dirty := False\<rparr>, a_rs := a_rs a'\<rparr>
    \<and> (row \<noteq> scroll_row (a_ed a) \<longrightarrow> a_rs a' = RENDER_FULL)
    \<and> row = d * max 0 (row_count (a_ed a) - sc_vis_rows (a_sc a)) div r_h sb
    \<and> 0 \<le> row \<and> row \<le> max 0 (row_count (a_ed a) - sc_vis_rows (a_sc a))
    \<and> r_y sb \<le> handle_top (row_count (a_ed a)) (sc_vis_rows (a_sc a)) row sb
    \<and> handle_top (row_count (a_ed a)) (sc_vis_rows (a_sc a)) row sb
        + handle_height (row_count (a_ed a)) (sc_vis_rows (a_sc a)) (r_h sb) \<le> r_y sb + r_h sb"
proof -
  let ?e = "a_ed a" and ?vis = "sc_vis_rows (a_sc a)"
  define mx where "mx = max 0 (row_count ?e - ?vis)"
  define row where "row = d * mx div r_h sb"
  have h: "0 < r_h sb" using assms(4,5) by simp
  have mx: "0 \<le> mx" "mx \<le> row_count ?e" using assms(6,7) by (auto simp: mx_def)
  have row0: "0 \<le> row" using h assms(4) mx by (simp add: row_def pos_imp_zdiv_nonneg_iff)
  have lt: "0 < mx \<Longrightarrow> d * mx < mx * r_h sb" using assms(5) by (simp add: mult.commute [of mx])
  have row_lt: "row < mx \<or> mx = 0 \<and> row = 0"
  proof (cases "mx = 0")
    case False
    then have "0 < mx" using mx by simp
    with lt [OF this] h show ?thesis unfolding row_def by (intro disjI1 div_below)
  qed (simp add: row_def)
  then have row_le: "row \<le> mx" "row \<le> row_count ?e - 1" using mx assms(6) by auto
  have target: "(if 0 < mx then (d * mx) sdiv r_h sb else 0) = row"
    using h assms(4) mx by (auto simp: row_def sdiv_div)
  have max_eq: "(if ?vis < row_count ?e then row_count ?e - ?vis else 0) = mx" by (simp add: mx_def)
  define e1 where "e1 = editor_scroll_by (row - scroll_row ?e) 0 ?e"
  have e1: "e1 = (if row = scroll_row ?e then ?e else ?e\<lparr>scroll_row := row, scroll_dirty := True\<rparr>)"
    using row0 row_le(2) assms(8) by (simp add: e1_def editor_scroll_by_def Let_def)
  then have e2: "e1\<lparr>scroll_dirty := False\<rparr> = ?e\<lparr>scroll_row := row, scroll_dirty := False\<rparr>" by simp
  define a' where "a' = (let b = a\<lparr>a_ed := ?e\<lparr>scroll_row := row, scroll_dirty := False\<rparr>\<rparr> in if scroll_dirty e1 then render RENDER_FULL b else b)"
  have "scene_click_scrollbar px (r_y sb + d) a = (True, a')"
    using assms(1-5) unfolding scene_click_scrollbar_def Let_def assms(1) editor_get_row_count_def editor_get_scroll_row_def max_eq
      add_diff_cancel_left' target e1_def [symmetric]
    by (simp add: target e1_def [symmetric] editor_consume_scroll_dirty_def e2 a'_def Let_def split del: if_split)
  moreover have "a' = a\<lparr>a_ed := ?e\<lparr>scroll_row := row, scroll_dirty := False\<rparr>, a_rs := a_rs a'\<rparr>"
    by (simp add: a'_def render_def Let_def)
  moreover have "a_rs a' = RENDER_FULL" if "row \<noteq> scroll_row ?e"
    using that by (cases "a_rs a") (simp_all add: a'_def e1 render_def set_render_def Let_def less_render_mode_def)
  ultimately show ?thesis
    using handle_in_track [OF assms(6,7) row0 _ less_imp_le [OF h]] row_le(1) row0
    unfolding mx_def row_def by blast
qed

definition demo_bar :: "unit app" where
  "demo_bar = demo\<lparr>a_sc := scene0\<lparr>l_scrollbar := \<lparr>r_x = 100, r_y = 10, r_w = 8, r_h = 40\<rparr>, sc_vis_rows := 1\<rparr>\<rparr>"

lemma scrollbar_click_scrolls_witness:
  "\<exists>a' row. scene_click_scrollbar 103 49 demo_bar = (True, a') \<and> row = 39 * 1 div 40
    \<and> a' = demo_bar\<lparr>a_ed := (a_ed demo_bar)\<lparr>scroll_row := row, scroll_dirty := False\<rparr>, a_rs := a_rs a'\<rparr>"
proof -
  have "row_count (a_ed demo_bar) = 2" "scroll_col (a_ed demo_bar) = 0" "sc_vis_rows (a_sc demo_bar) = 1"
    "l_scrollbar (a_sc demo_bar) = \<lparr>r_x = 100, r_y = 10, r_w = 8, r_h = 40\<rparr>"
    by (simp_all add: demo_bar_def demo_def two_rows_def editor0_def)
  then show ?thesis using scrollbar_click_scrolls [where a = demo_bar and px = 103 and d = 39] by auto
qed

end
