(* ===== verification/Commands.thy ===== *)
theory Commands
  imports Scene Serial
begin

text \<open>
  \<open>controller/commands/commands.c\<close> and \<open>filetree_commands.c\<close>: what the events do to the editor, the
  command line, the file tree and, in remote mode, what is sent to the peer; and what the packets of the
  peer do. The parameters are in a record: the kernel calls, and the files. Opening a file for writing
  may fail, what is printed into it then becomes its contents; opening one for reading may fail, else it
  has contents.
\<close>

record 'w env =
  e_io :: "'w io"
  e_dirs :: dirs
  fopen_w :: "string \<Rightarrow> (unit, 'w) call"
  fputs :: "string \<Rightarrow> string \<Rightarrow> 'w \<Rightarrow> 'w"
  fopen_r :: "string \<Rightarrow> (string, 'w) call"

section \<open>Shared steps\<close>

text \<open>\<open>consume_scroll () || consume_sel () || is_active ()\<close> calls each function only if the ones before it
  returned \<open>false\<close>.\<close>

definition set_render_ex :: "render_mode \<Rightarrow> 'w app \<Rightarrow> 'w app" where
  "set_render_ex mode a =
     (let (scrolled, e) = editor_consume_scroll_dirty (a_ed a);
          (sel_changed, e) = (if scrolled then (True, e) else editor_consume_sel_dirty e);
          needs_full = (sel_changed \<or> editor_sel_is_active e)
      in render (if needs_full then RENDER_FULL else mode) (a\<lparr>a_ed := e\<rparr>))"

definition get_quit :: "'w app \<Rightarrow> bool" where
  "get_quit a = quit_flag a"

definition run_ed :: "(editor \<Rightarrow> (EditorResult \<times> editor) option) \<Rightarrow> 'w app \<Rightarrow> (EditorResult \<times> 'w app) option" where
  "run_ed f a = do { (r, e) \<leftarrow> f (a_ed a); Some (r, a\<lparr>a_ed := e\<rparr>) }"

definition set_status :: "string \<Rightarrow> 'w app \<Rightarrow> 'w app option" where
  "set_status msg = on_cb (command_bar_set_status msg)"

definition out_of_memory :: "'w app \<Rightarrow> 'w app option" where
  "out_of_memory a = do { a \<leftarrow> set_status ''Out of memory'' a; Some (render RENDER_STATUS a) }"

text \<open>A call of \<open>build_packet_serial\<close>; the bytes of a text.\<close>

definition send :: "'w env \<Rightarrow> SerialCommand \<Rightarrow> u8 cells \<Rightarrow> int \<Rightarrow> int \<Rightarrow> 'w app \<Rightarrow> 'w app option" where
  "send env cmd payload len n a = do {
     w \<leftarrow> build_packet_serial (e_io env) cmd payload len (word_of_int n) (a_w a);
     Some (a\<lparr>a_w := w\<rparr>)
   }"

definition text_bytes :: "char cells \<Rightarrow> u8 cells" where
  "text_bytes = map (map_option of_char)"

text \<open>A line of the editor as a payload: the pointer must not be \<open>NULL\<close> unless nothing is read.\<close>

definition send_line :: "'w env \<Rightarrow> SerialCommand \<Rightarrow> int \<Rightarrow> int \<Rightarrow> 'w app \<Rightarrow> 'w app option" where
  "send_line env cmd r n a = do {
     line \<leftarrow> editor_get_line (a_ed a) r;
     len \<leftarrow> editor_get_line_len (a_ed a) r;
     send env cmd (case line of None \<Rightarrow> [] | Some b \<Rightarrow> text_bytes b) len n a
   }"

text \<open>The low 16 bits of a number, high byte first.\<close>

definition be16 :: "int \<Rightarrow> u8 list" where
  "be16 k = [word_of_int (drop_bit 8 k), word_of_int k]"

definition send_cursor_at :: "'w env \<Rightarrow> int \<Rightarrow> int \<Rightarrow> 'w app \<Rightarrow> 'w app option" where
  "send_cursor_at env r c = send env CMD_MOVE_CURSOR (map Some (be16 r @ be16 c)) 4 0"

definition send_cursor :: "'w env \<Rightarrow> 'w app \<Rightarrow> 'w app option" where
  "send_cursor env a = send_cursor_at env (editor_get_cursor_row (a_ed a)) (editor_get_cursor_col (a_ed a)) a"

text \<open>\<open>if (remote) ...\<close>\<close>

definition to_peer :: "('w app \<Rightarrow> 'w app option) \<Rightarrow> 'w app \<Rightarrow> 'w app option" where
  "to_peer f a = (if remote a then f a else Some a)"

section \<open>Files\<close>

definition FILE_READ_BUF :: nat where "FILE_READ_BUF = 4096"

text \<open>The rows printed with \<open>"%s\n"\<close>.\<close>

fun file_text :: "editor \<Rightarrow> int list \<Rightarrow> string option" where
  "file_text e [] = Some ''''"
| "file_text e (r # rs) = do {
     line \<leftarrow> editor_get_line e r;
     line \<leftarrow> line;
     s \<leftarrow> cstring line;
     rest \<leftarrow> file_text e rs;
     Some (s @ [NL] @ rest)
   }"

definition execute_save :: "'w env \<Rightarrow> string \<Rightarrow> 'w app \<Rightarrow> 'w app option" where
  "execute_save env name a =
     (if name = '''' then Some a
      else case fopen_w env name (a_w a) of
        (None, w) \<Rightarrow> Some (a\<lparr>a_w := w\<rparr>)
      | (Some _, w) \<Rightarrow> do {
          txt \<leftarrow> file_text (a_ed a) [0..editor_get_row_count (a_ed a) - 1];
          let a = a\<lparr>a_w := fputs env name txt w\<rparr>;
          a \<leftarrow> on_cb (command_bar_set_filename name) a;
          scene_set_language (syntax_detect_language (Some name)) a
        })"

text \<open>\<open>fgets (line, n + 1, f)\<close>: what it reads, and the rest of the file.\<close>

fun fgets :: "nat \<Rightarrow> string \<Rightarrow> string \<times> string" where
  "fgets 0 s = ([], s)"
| "fgets n [] = ([], [])"
| "fgets (Suc n) (c # s) = (if c = NL then ([c], s) else (case fgets n s of (l, r) \<Rightarrow> (c # l, r)))"

lemma fgets_shorter: "length (snd (fgets n s)) \<le> length s"
  by (induction n s rule: fgets.induct) (auto split: prod.splits)

text \<open>The loop over the lines of the file; \<open>strlen\<close> stops at a \<open>NUL\<close>.\<close>

function load_file :: "string \<Rightarrow> editor \<Rightarrow> editor option" where
  "load_file [] e = Some e"
| "load_file (c # s) e = (case fgets (FILE_READ_BUF - 1) (c # s) of (chunk, rest) \<Rightarrow>
     let line = takeWhile (\<lambda>c. c \<noteq> NUL) chunk;
         line = (if line \<noteq> [] \<and> last line = NL then butlast line else line)
     in do {
       (res, e) \<leftarrow> editor_load_line (map Some line @ [Some NUL]) (int (length line)) e;
       if res \<noteq> EDITOR_OK then Some e else load_file rest e
     })"
  by pat_completeness auto
termination
proof (relation "measure (\<lambda>(s, e). length s)")
  fix c s e chunk rest line l res e'
  assume "(chunk, rest) = fgets (FILE_READ_BUF - 1) (c # s)"
  moreover have "fgets (FILE_READ_BUF - 1) (c # s) = (if c = NL then ([c], s) else (case fgets 4094 s of (l, r) \<Rightarrow> (c # l, r)))"
  proof -
    have "FILE_READ_BUF - 1 = Suc 4094" by (simp add: FILE_READ_BUF_def)
    then show ?thesis by (simp only: fgets.simps)
  qed
  ultimately have "length rest \<le> length s" using fgets_shorter [of 4094 s] by (auto split: if_splits prod.splits)
  then show "((rest, e'), (c # s, e)) \<in> measure (\<lambda>(s, e). length s)" for e' e :: editor by simp
qed auto

definition execute_open :: "'w env \<Rightarrow> string \<Rightarrow> 'w app \<Rightarrow> 'w app option" where
  "execute_open env name a =
     (if name = '''' then Some a
      else case fopen_r env name (a_w a) of
        (None, w) \<Rightarrow> Some (a\<lparr>a_w := w\<rparr>)
      | (Some txt, w) \<Rightarrow> do {
          (_, e) \<leftarrow> editor_init (a_ed a);
          e \<leftarrow> load_file txt e;
          e \<leftarrow> editor_load_finalize e;
          a \<leftarrow> on_cb (command_bar_set_filename name) (a\<lparr>a_ed := e, a_w := w\<rparr>);
          scene_set_language (syntax_detect_language (Some name)) a
        })"

definition commands_open_file :: "'w env \<Rightarrow> string \<Rightarrow> 'w app \<Rightarrow> 'w app option" where
  "commands_open_file = execute_open"

section \<open>The command line\<close>

definition execute_sync :: "'w env \<Rightarrow> 'w app \<Rightarrow> 'w app option" where
  "execute_sync env a = do {
     fn \<leftarrow> command_bar_get_filename (a_cb a);
     let total_lines = editor_get_row_count (a_ed a);
     a \<leftarrow> send env CMD_FILE_START (text_bytes (map Some fn)) (int (length fn)) total_lines a;
     a \<leftarrow> each (\<lambda>i. send_line env CMD_FILE_LINE i 0) [0..total_lines - 1] a;
     send_cursor env a
   }"

definition cmd_sync :: "'w env \<Rightarrow> string \<Rightarrow> 'w app \<Rightarrow> 'w app option" where
  "cmd_sync env args a = do {
     a \<leftarrow> execute_sync env (a\<lparr>remote := True\<rparr>);
     set_status ''Ficheiro Partilhado!'' a
   }"

definition cmd_save :: "'w env \<Rightarrow> string \<Rightarrow> 'w app \<Rightarrow> 'w app option" where
  "cmd_save env args a = do {
     name \<leftarrow> (if args \<noteq> '''' then Some args else command_bar_get_filename (a_cb a));
     execute_save env name a
   }"

definition cmd_open :: "'w env \<Rightarrow> string \<Rightarrow> 'w app \<Rightarrow> 'w app option" where
  "cmd_open env args = execute_open env args"

definition cmd_quit :: "'w env \<Rightarrow> string \<Rightarrow> 'w app \<Rightarrow> 'w app option" where
  "cmd_quit env args a = Some (a\<lparr>quit_flag := True\<rparr>)"

definition command_table :: "(string \<times> ('w env \<Rightarrow> string \<Rightarrow> 'w app \<Rightarrow> 'w app option)) list" where
  "command_table = [(''save'', cmd_save), (''w'', cmd_save), (''open'', cmd_open), (''q'', cmd_quit), (''sync'', cmd_sync)]"

text \<open>The name of the command ends at the first space, the arguments follow it.\<close>

definition split_command :: "string \<Rightarrow> string \<times> string" where
  "split_command raw =
     (let name = takeWhile (\<lambda>c. c \<noteq> SPACE) (take (CMD_BUF_SIZE - 1) raw)
      in (name, case drop (length name) raw of [] \<Rightarrow> '''' | c # args \<Rightarrow> if c = SPACE then args else ''''))"

definition execute_command :: "'w env \<Rightarrow> string \<Rightarrow> 'w app \<Rightarrow> 'w app option" where
  "execute_command env raw a =
     (let (name, args) = split_command raw
      in case map_of command_table name of None \<Rightarrow> Some a | Some handler \<Rightarrow> handler env args a)"

definition dispatch_command_mode :: "'w env \<Rightarrow> KeyEvent \<Rightarrow> 'w app \<Rightarrow> 'w app option" where
  "dispatch_command_mode env ev a =
     (if ev_escape ev then Some (render RENDER_FULL (a\<lparr>a_cb := command_bar_cancel (a_cb a)\<rparr>))
      else if ev_enter ev then do {
        (typed_line, b) \<leftarrow> command_bar_commit (a_cb a);
        a \<leftarrow> execute_command env typed_line (a\<lparr>a_cb := b\<rparr>);
        Some (render RENDER_FULL a)
      }
      else if ev_backspace ev \<and> \<not> ev_ctrl ev then do {
        a \<leftarrow> on_cb command_bar_delete a;
        Some (render RENDER_STATUS a)
      }
      else if ev_c ev \<noteq> NUL then do {
        a \<leftarrow> on_cb (command_bar_insert (ev_c ev)) a;
        Some (render RENDER_STATUS a)
      }
      else Some a)"

section \<open>The file tree\<close>

definition on_ft :: "(filetree \<Rightarrow> filetree) \<Rightarrow> 'w app \<Rightarrow> 'w app" where
  "on_ft f a = a\<lparr>a_ft := f (a_ft a)\<rparr>"

definition show_filetree_error :: "'w app \<Rightarrow> 'w app option" where
  "show_filetree_error a = (case filetree_get_error (a_ft a) of None \<Rightarrow> Some a | Some err \<Rightarrow> set_status err a)"

definition open_filetree_file :: "'w env \<Rightarrow> 'w app \<Rightarrow> 'w app option" where
  "open_filetree_file env a = do {
     (r, ft) \<leftarrow> filetree_enter_selected (e_dirs env) (a_ft a);
     let a = a\<lparr>a_ft := ft\<rparr>;
     a \<leftarrow> (case r of
            FILETREE_FILE \<Rightarrow> do {
              let a = a\<lparr>a_start := session_time_reset (a_tm a)\<rparr>;
              path \<leftarrow> filetree_get_selected_path PATH_MAX (a_ft a);
              a \<leftarrow> commands_open_file env path a;
              Some (on_ft (filetree_set_focused False) a)
            }
          | FILETREE_ERR \<Rightarrow> show_filetree_error a
          | FILETREE_OK \<Rightarrow> Some a);
     Some (render RENDER_FULL a)
   }"

definition dispatch_filetree_mode :: "'w env \<Rightarrow> KeyEvent \<Rightarrow> 'w app \<Rightarrow> 'w app option" where
  "dispatch_filetree_mode env ev a =
     (if ev_escape ev then Some (render RENDER_FULL (on_ft (filetree_set_focused False) a))
      else if ev_dir ev = DIR_UP then Some (render RENDER_FULL (on_ft (filetree_move_up (scene_get_vis_rows a)) a))
      else if ev_dir ev = DIR_DOWN then Some (render RENDER_FULL (on_ft (filetree_move_down (scene_get_vis_rows a)) a))
      else if ev_backspace ev \<or> ev_dir ev = DIR_LEFT then do {
        (r, ft) \<leftarrow> filetree_go_parent (e_dirs env) (a_ft a);
        let a = a\<lparr>a_ft := ft\<rparr>;
        a \<leftarrow> (if r = FILETREE_ERR then show_filetree_error a else Some a);
        Some (render RENDER_FULL a)
      }
      else if ev_enter ev then open_filetree_file env a
      else Some a)"

definition filetree_commands_try :: "'w env \<Rightarrow> KeyEvent \<Rightarrow> 'w app \<Rightarrow> (bool \<times> 'w app) option" where
  "filetree_commands_try env ev a =
     (if ev_ctrl ev \<and> ev_c ev = CHR ''b'' then
        let now_visible = (\<not> filetree_is_visible (a_ft a))
        in Some (True, render RENDER_FULL (on_ft (filetree_set_focused now_visible \<circ> filetree_set_visible now_visible) a))
      else if filetree_is_focused (a_ft a) then do { a \<leftarrow> dispatch_filetree_mode env ev a; Some (True, a) }
      else Some (False, a))"

definition filetree_commands_mouse :: "'w env \<Rightarrow> MouseEvent \<Rightarrow> 'w app \<Rightarrow> (bool \<times> 'w app) option" where
  "filetree_commands_mouse env me a =
     (let a = on_ft (filetree_set_focused False) a;
          hit = scene_px_to_filetree (click_x me) (click_y me) a
      in case hit of
           Some idx \<Rightarrow>
             if me_scroll me \<noteq> 0 then
               Some (True, render RENDER_FULL (on_ft (filetree_set_focused True)
                             (on_ft (filetree_scroll_by (me_scroll me) (scene_get_vis_rows a)) a)))
             else
               let a = on_ft (filetree_set_focused True) a in
               if idx = -1 then Some (True, render RENDER_FULL a)
               else
                 let same = (idx = filetree_get_cursor (a_ft a));
                     a = on_ft (filetree_set_cursor idx (scene_get_vis_rows a)) a
                 in do {
                   a \<leftarrow> (if same then open_filetree_file env a else Some a);
                   Some (True, render RENDER_FULL a)
                 }
         | None \<Rightarrow> Some (False, render RENDER_FULL a))"

section \<open>Keys\<close>

definition sync_block :: "'w env \<Rightarrow> int \<Rightarrow> int \<Rightarrow> int \<Rightarrow> 'w app \<Rightarrow> 'w app option" where
  "sync_block env start_row deleted_count inserted_count a =
     (if \<not> remote a then Some a
      else do {
        a \<leftarrow> (if deleted_count = 1 \<and> inserted_count = 1 then send_line env CMD_UPDATE_LINE start_row start_row a
             else do {
               a \<leftarrow> send env CMD_REPLACE_BLOCK (map Some (be16 start_row @ be16 deleted_count @ be16 inserted_count)) 6 0 a;
               each (\<lambda>r. send_line env CMD_UPDATE_LINE r r) [start_row..start_row + inserted_count - 1] a
             });
        send_cursor env a
      })"

text \<open>What follows an edit of a block of rows: a failed allocation, or the block for the peer.\<close>

definition edited_block :: "'w env \<Rightarrow> EditorResult \<Rightarrow> int \<Rightarrow> int \<Rightarrow> int \<Rightarrow> render_mode \<Rightarrow> 'w app \<Rightarrow> 'w app option" where
  "edited_block env r start_row deleted inserted mode a =
     (if r = EDITOR_ERR_ALLOC_FAILED then out_of_memory a
      else do {
        a \<leftarrow> to_peer (sync_block env start_row deleted inserted) a;
        Some (set_render_ex mode a)
      })"

definition delete_selected :: "'w env \<Rightarrow> 'w app \<Rightarrow> 'w app option" where
  "delete_selected env a =
     (let (sr, sc, er, ec) = editor_sel_get_range (a_ed a); deleted_count = er - sr + 1
      in do {
        (r, a) \<leftarrow> run_ed editor_delete_selection a;
        edited_block env r sr deleted_count 1 RENDER_FULL a
      })"

definition backspace_key :: "'w env \<Rightarrow> KeyEvent \<Rightarrow> 'w app \<Rightarrow> 'w app option" where
  "backspace_key env ev a =
     (if editor_sel_is_active (a_ed a) then delete_selected env a
      else if ev_ctrl ev then
        (if editor_get_cursor_col (a_ed a) = 0 then
           let sr = editor_get_cursor_row (a_ed a) - 1
           in do { (r, a) \<leftarrow> run_ed editor_delete_char a; edited_block env r sr 2 1 RENDER_FULL a }
         else
           let sr = editor_get_cursor_row (a_ed a)
           in do { (r, a) \<leftarrow> run_ed editor_delete_word a; edited_block env r sr 1 1 RENDER_LINE a })
      else
        let mid_line = (0 < editor_get_cursor_col (a_ed a))
        in do {
          (r, a) \<leftarrow> run_ed editor_delete_char a;
          if r = EDITOR_ERR_ALLOC_FAILED then out_of_memory a
          else if r = EDITOR_OK then do {
            a \<leftarrow> to_peer (send env CMD_DELETE_CHAR [] 0 0) a;
            Some (set_render_ex (if mid_line then RENDER_LINE else RENDER_FULL) a)
          }
          else Some a
        })"

definition move_cursor :: "Direction \<Rightarrow> bool \<Rightarrow> editor \<Rightarrow> editor option" where
  "move_cursor dir ctrl = (case dir of
     DIR_LEFT \<Rightarrow> if ctrl then editor_move_word_left else editor_move_left
   | DIR_RIGHT \<Rightarrow> if ctrl then editor_move_word_right else editor_move_right
   | DIR_UP \<Rightarrow> editor_move_up
   | DIR_DOWN \<Rightarrow> editor_move_down
   | DIR_HOME \<Rightarrow> Some \<circ> editor_move_home
   | DIR_END \<Rightarrow> editor_move_end
   | DIR_NONE \<Rightarrow> Some)"

definition direction_key :: "'w env \<Rightarrow> KeyEvent \<Rightarrow> 'w app \<Rightarrow> 'w app option" where
  "direction_key env ev a =
     (let a = (if ev_shift ev
               then (if \<not> editor_sel_is_active (a_ed a) then a\<lparr>a_ed := editor_sel_set_anchor (a_ed a)\<rparr> else a)
               else a\<lparr>a_ed := editor_sel_clear (a_ed a)\<rparr>)
      in do {
        a \<leftarrow> on_ed (move_cursor (ev_dir ev) (ev_ctrl ev)) a;
        a \<leftarrow> to_peer (send_cursor env) a;
        Some (set_render_ex RENDER_CHAR a)
      })"

definition cut_key :: "'w env \<Rightarrow> 'w app \<Rightarrow> 'w app option" where
  "cut_key env a = do {
     a \<leftarrow> on_ed editor_copy_selection a;
     if editor_sel_is_active (a_ed a) then delete_selected env a else Some a
   }"

definition paste_key :: "'w env \<Rightarrow> 'w app \<Rightarrow> 'w app option" where
  "paste_key env a = do {
     let start_r = editor_get_cursor_row (a_ed a);
     (start_r, deleted_count, a) \<leftarrow>
       (if editor_sel_is_active (a_ed a) then
          let (sr, sc, er, ec) = editor_sel_get_range (a_ed a)
          in do { (_, a) \<leftarrow> run_ed editor_delete_selection a; Some (sr, er - sr + 1, a) }
        else Some (start_r, 1, a));
     let old_rows = editor_get_row_count (a_ed a);
     (r, a) \<leftarrow> run_ed editor_paste a;
     let inserted_count = editor_get_row_count (a_ed a) - old_rows + 1;
     case r of
       EDITOR_OK \<Rightarrow> do {
         a \<leftarrow> to_peer (sync_block env start_r deleted_count inserted_count) a;
         Some (set_render_ex RENDER_FULL a)
       }
     | EDITOR_ERR_NO_CLIPBOARD \<Rightarrow> do { a \<leftarrow> set_status ''Nothing to paste'' a; Some (render RENDER_STATUS a) }
     | EDITOR_ERR_ALLOC_FAILED \<Rightarrow> out_of_memory a
   }"

definition save_key :: "'w env \<Rightarrow> 'w app \<Rightarrow> 'w app option" where
  "save_key env a = do {
     fn \<leftarrow> command_bar_get_filename (a_cb a);
     a \<leftarrow> (if fn = ''untitled'' then on_cb (command_bar_start_prefill (Some ''save '')) a
          else execute_save env fn a);
     Some (render RENDER_FULL a)
   }"

text \<open>A character, or the line break of Enter, in place of the selection.\<close>

definition replace_selected :: "'w env \<Rightarrow> char \<Rightarrow> int \<Rightarrow> 'w app \<Rightarrow> 'w app option" where
  "replace_selected env c inserted a =
     (let (sr, sc, er, ec) = editor_sel_get_range (a_ed a); deleted_count = er - sr + 1
      in do {
        (_, a) \<leftarrow> run_ed editor_delete_selection a;
        (r, a) \<leftarrow> run_ed (editor_insert_char c) a;
        if r = EDITOR_OK then do {
          a \<leftarrow> to_peer (sync_block env sr deleted_count inserted) a;
          Some (render RENDER_FULL a)
        }
        else Some a
      })"

text \<open>A character at the cursor; \<open>redraw\<close> asks for the redraw that follows.\<close>

definition insert_key :: "'w env \<Rightarrow> char \<Rightarrow> ('w app \<Rightarrow> 'w app) \<Rightarrow> 'w app \<Rightarrow> 'w app option" where
  "insert_key env c redraw a = do {
     (r, a) \<leftarrow> run_ed (editor_insert_char c) a;
     if r = EDITOR_ERR_ALLOC_FAILED then out_of_memory a
     else if r = EDITOR_OK then do {
       a \<leftarrow> to_peer (send env CMD_INSERT_CHAR [Some (of_char c)] 1 0) a;
       Some (redraw a)
     }
     else Some a
   }"

definition enter_key :: "'w env \<Rightarrow> 'w app \<Rightarrow> 'w app option" where
  "enter_key env a =
     (if editor_sel_is_active (a_ed a) then replace_selected env NL 2 a
      else insert_key env NL (render RENDER_FULL) a)"

definition char_key :: "'w env \<Rightarrow> char \<Rightarrow> 'w app \<Rightarrow> 'w app option" where
  "char_key env c a =
     (if editor_sel_is_active (a_ed a) then replace_selected env c 1 a
      else insert_key env c (set_render_ex RENDER_LINE) a)"

definition commands_dispatch :: "'w env \<Rightarrow> KeyEvent \<Rightarrow> 'w app \<Rightarrow> 'w app option" where
  "commands_dispatch env ev a = do {
     (taken, a) \<leftarrow> filetree_commands_try env ev a;
     if taken then Some a
     else if command_bar_get_mode (a_cb a) = MODE_COMMAND then dispatch_command_mode env ev a
     else if ev_escape ev \<or> (ev_ctrl ev \<and> ev_c ev = CHR ''q'') then Some (a\<lparr>quit_flag := True\<rparr>)
     else if ev_backspace ev then backspace_key env ev a
     else if ev_dir ev \<noteq> DIR_NONE then direction_key env ev a
     else if ev_ctrl ev \<and> ev_c ev = CHR ''c'' then on_ed editor_copy_selection a
     else if ev_ctrl ev \<and> ev_c ev = CHR ''x'' then cut_key env a
     else if ev_ctrl ev \<and> ev_c ev = CHR ''v'' then paste_key env a
     else if ev_ctrl ev \<and> ev_c ev = CHR ''s'' then save_key env a
     else if ev_ctrl ev \<and> ev_c ev = CHR ''o'' then do {
       a \<leftarrow> on_cb (command_bar_start_prefill (Some ''open '')) a;
       Some (render RENDER_FULL a)
     }
     else if ev_ctrl ev then Some a
     else if ev_c ev = CHR '':'' then do { a \<leftarrow> on_cb command_bar_start a; Some (render RENDER_FULL a) }
     else if ev_enter ev then enter_key env a
     else if ev_c ev \<noteq> NUL then char_key env (ev_c ev) a
     else Some a
   }"

section \<open>The mouse\<close>

definition SCROLL_SPEED_MULTIPLIER :: int where "SCROLL_SPEED_MULTIPLIER = 3"

text \<open>A click puts the cursor at the character and starts a selection there, a drag moves the cursor.\<close>

definition click_text :: "'w env \<Rightarrow> MouseEvent \<Rightarrow> 'w app \<Rightarrow> 'w app option" where
  "click_text env me a = do {
     hit \<leftarrow> scene_px_to_text (click_x me) (click_y me) a;
     case hit of
       None \<Rightarrow> Some a
     | Some (row, col) \<Rightarrow>
         if left_clicked me then do {
           a \<leftarrow> on_ed (editor_set_cursor row col) (a\<lparr>a_ed := editor_sel_clear (a_ed a)\<rparr>);
           a \<leftarrow> to_peer (send_cursor_at env row col) a;
           let a = set_render_ex RENDER_CHAR a;
           Some (if \<not> editor_sel_is_active (a_ed a) then a\<lparr>a_ed := editor_sel_set_anchor (a_ed a)\<rparr> else a)
         }
         else if left_holding me then on_ed (editor_set_cursor row col) a
         else Some a
   }"

definition commands_dispatch_mouse :: "'w env \<Rightarrow> MouseEvent \<Rightarrow> 'w app \<Rightarrow> 'w app option" where
  "commands_dispatch_mouse env me a =
     (let a = (if \<not> left_holding me then a\<lparr>a_ed := editor_sel_clear (a_ed a)\<rparr> else a)
      in if \<not> left_clicked me \<and> me_scroll me = 0 \<and> \<not> left_holding me then Some a
      else
        let (taken, a) = scene_click_scrollbar (click_x me) (click_y me) a
        in if taken then Some a
        else do {
          (taken, a) \<leftarrow> filetree_commands_mouse env me a;
          if taken then Some a
          else if me_scroll me \<noteq> 0 then
            Some (render RENDER_FULL (a\<lparr>a_ed := editor_scroll_by (me_scroll me * SCROLL_SPEED_MULTIPLIER) 0 (a_ed a)\<rparr>))
          else click_text env me a
        })"

section \<open>Packets of the peer\<close>

text \<open>Two bytes of the payload, high byte first; the bytes as characters.\<close>

definition payload16 :: "SerialEvent \<Rightarrow> int \<Rightarrow> int option" where
  "payload16 se i = do {
     msb \<leftarrow> aread (se_payload se) i;
     lsb \<leftarrow> aread (se_payload se) (i + 1);
     Some (push_bit 8 (uint msb) OR uint lsb)
   }"

definition bytes_text :: "u8 cells \<Rightarrow> char cells" where
  "bytes_text = map (map_option (\<lambda>b. char_of (unat b)))"

definition remote_insert :: "SerialEvent \<Rightarrow> 'w app \<Rightarrow> 'w app option" where
  "remote_insert se a = do {
     b \<leftarrow> aread (se_payload se) 0;
     (r, a) \<leftarrow> run_ed (editor_remote_insert_char (char_of (unat b))) a;
     a \<leftarrow> (if r = EDITOR_ERR_ALLOC_FAILED then out_of_memory a else Some a);
     Some (set_render_ex RENDER_REMOTE_LINE a)
   }"

definition remote_delete :: "'w app \<Rightarrow> 'w app option" where
  "remote_delete a =
     (let mid_line = (0 < editor_get_remote_cursor_col (a_ed a))
      in do {
        (r, a) \<leftarrow> run_ed editor_remote_delete_char a;
        if r = EDITOR_ERR_ALLOC_FAILED then out_of_memory a
        else Some (set_render_ex (if mid_line then RENDER_REMOTE_LINE else RENDER_FULL) a)
      })"

definition remote_move :: "SerialEvent \<Rightarrow> 'w app \<Rightarrow> 'w app option" where
  "remote_move se a = do {
     row \<leftarrow> payload16 se 0;
     col \<leftarrow> payload16 se 2;
     let row_changed = (editor_get_remote_cursor_row (a_ed a) \<noteq> row);
     let a = a\<lparr>a_ed := editor_set_remote_cursor row col (a_ed a)\<rparr>;
     Some (set_render_ex (if row_changed then RENDER_FULL else RENDER_REMOTE_LINE) a)
   }"

definition remote_block :: "SerialEvent \<Rightarrow> 'w app \<Rightarrow> 'w app option" where
  "remote_block se a = do {
     start_row \<leftarrow> payload16 se 0;
     deleted \<leftarrow> payload16 se 2;
     inserted \<leftarrow> payload16 se 4;
     (_, a) \<leftarrow> run_ed (editor_remote_replace_block start_row deleted inserted) a;
     Some a
   }"

definition remote_line :: "SerialEvent \<Rightarrow> 'w app \<Rightarrow> 'w app option" where
  "remote_line se a = do {
     row_index \<leftarrow> payload16 se 0;
     let text_len = uint (se_len se) - 2;
     (_, a) \<leftarrow> run_ed (editor_remote_update_line row_index (bytes_text (drop 2 (se_payload se))) text_len) a;
     Some (set_render_ex RENDER_FULL a)
   }"

definition file_start :: "SerialEvent \<Rightarrow> 'w app \<Rightarrow> 'w app option" where
  "file_start se a = do {
     (_, e) \<leftarrow> editor_init (a_ed a);
     n \<leftarrow> payload16 se 0;
     let a = a\<lparr>a_ed := e, file_num_lines := word_of_int n, lines_contador := 0\<rparr>;
     let name_len = uint (se_len se) - 2;
     file_name \<leftarrow> blit (replicate 256 None) 0 (bytes_text (se_payload se)) 2 name_len;
     file_name \<leftarrow> awrite file_name name_len NUL;
     name \<leftarrow> cstring file_name;
     a \<leftarrow> on_cb (command_bar_set_filename name) a;
     a \<leftarrow> set_status ''A Receber Ficheiro...'' a;
     Some (set_render_ex RENDER_FULL (a\<lparr>remote := True\<rparr>))
   }"

definition file_line :: "SerialEvent \<Rightarrow> 'w app \<Rightarrow> 'w app option" where
  "file_line se a =
     (if file_num_lines a = 0 then Some a
      else
        let a = a\<lparr>lines_contador := lines_contador a + 1\<rparr>
        in do {
          (_, a) \<leftarrow> run_ed (editor_load_line (bytes_text (se_payload se)) (uint (se_len se))) a;
          if file_num_lines a \<le> lines_contador a then do {
            a \<leftarrow> set_status '''' (set_render_ex RENDER_FULL a);
            a \<leftarrow> on_ed editor_load_finalize a;
            Some (a\<lparr>file_num_lines := 0\<rparr>)
          }
          else Some a
        })"

definition commands_dispatch_serial :: "SerialEvent \<Rightarrow> 'w app \<Rightarrow> 'w app option" where
  "commands_dispatch_serial se a =
     (if se_len se = 0 \<and> se_cmd se \<noteq> cmd_code CMD_DELETE_CHAR \<and> se_cmd se \<noteq> cmd_code CMD_FILE_LINE then Some a
      else if se_cmd se = cmd_code CMD_INSERT_CHAR then remote_insert se a
      else if se_cmd se = cmd_code CMD_DELETE_CHAR then remote_delete a
      else if se_cmd se = cmd_code CMD_MOVE_CURSOR then remote_move se a
      else if se_cmd se = cmd_code CMD_REPLACE_BLOCK then remote_block se a
      else if se_cmd se = cmd_code CMD_UPDATE_LINE then remote_line se a
      else if se_cmd se = cmd_code CMD_FILE_START then file_start se a
      else if se_cmd se = cmd_code CMD_FILE_LINE then file_line se a
      else Some a)"

end
