(* ===== verification/Interrupts.thy ===== *)
theory Interrupts
  imports Commands Keyboard Mouse Clock
begin

text \<open>
  \<open>controller/ih/ih.c\<close>, \<open>input_dispatch\<close> of \<open>controller/input/events.c\<close> and the main loop of
  \<open>proj.c\<close>: the devices are subscribed, their interrupts are turned into events, the events are
  dispatched and the screen is redrawn, until a command asks to quit. The state is that of the editor and
  of the drivers.
\<close>

record 'w system =
  s_app :: "'w app"
  s_events :: event_queue
  s_sp :: serial_port
  s_ss :: serial_state
  s_kd :: keyboard_driver
  s_kb :: KeyboardState
  s_md :: mouse_driver
  s_ps :: packet_scancode
  irq_timer :: u8
  irq_keyboard :: u8
  irq_mouse :: u8
  irq_serial :: u8

text \<open>A call of the kernel whose result is ignored.\<close>

definition ignoring :: "'w io \<Rightarrow> ('w system \<Rightarrow> (unit, 'w) call) \<Rightarrow> 'w system \<Rightarrow> 'w system" where
  "ignoring io f s = s\<lparr>s_app := (s_app s)\<lparr>a_w := snd (f s (a_w (s_app s)))\<rparr>\<rparr>"

text \<open>A call whose result is looked at.\<close>

definition calling :: "('w system \<Rightarrow> (unit, 'w) call) \<Rightarrow> 'w system \<Rightarrow> bool \<times> 'w system" where
  "calling f s = (case f s (a_w (s_app s)) of (r, w) \<Rightarrow> (r \<noteq> None, s\<lparr>s_app := (s_app s)\<lparr>a_w := w\<rparr>\<rparr>))"

definition failing :: "'w io \<Rightarrow> ErrorType \<Rightarrow> string \<Rightarrow> 'w system \<Rightarrow> 'w system" where
  "failing io e msg = ignoring io (\<lambda>_. fail io e msg)"

section \<open>Subscribing the devices\<close>

text \<open>\<open>BIT (n)\<close> as a byte: the shift is defined below the width of an \<open>int\<close>.\<close>

definition BIT :: "u8 \<Rightarrow> u8 option" where
  "BIT n = (if n < 31 then Some (ucast (push_bit (unat n) (1 :: u32))) else None)"

definition subscribe_timer :: "'w io \<Rightarrow> 'w system \<Rightarrow> u8 \<times> bool \<times> 'w system" where
  "subscribe_timer io s =
     (case timer_subscribe_int io (a_tm (s_app s)) (a_w (s_app s)) of
        ((bit_no, ok, tm), w) \<Rightarrow> (bit_no, ok, s\<lparr>s_app := (s_app s)\<lparr>a_tm := tm, a_w := w\<rparr>\<rparr>))"

definition subscribe_keyboard :: "'w io \<Rightarrow> 'w system \<Rightarrow> u8 \<times> bool \<times> 'w system" where
  "subscribe_keyboard io s =
     (case keyboard_subscribe_int io (s_kd s) (a_w (s_app s)) of
        ((bit_no, ok, d), w) \<Rightarrow> (bit_no, ok, s\<lparr>s_kd := d, s_app := (s_app s)\<lparr>a_w := w\<rparr>\<rparr>))"

definition subscribe_mouse :: "'w io \<Rightarrow> 'w system \<Rightarrow> u8 \<times> bool \<times> 'w system" where
  "subscribe_mouse io s =
     (case mouse_subscribe_int io (s_md s) (a_w (s_app s)) of
        ((bit_no, ok, d), w) \<Rightarrow> (bit_no, ok, s\<lparr>s_md := d, s_app := (s_app s)\<lparr>a_w := w\<rparr>\<rparr>))"

definition enable_wheel :: "'w io \<Rightarrow> 'w system \<Rightarrow> bool \<times> 'w system" where
  "enable_wheel io s =
     (case mouse_enable_wheel_mode io (s_md s) (a_w (s_app s)) of
        ((ok, d), w) \<Rightarrow> (ok, s\<lparr>s_md := d, s_app := (s_app s)\<lparr>a_w := w\<rparr>\<rparr>))"

definition subscribe_serial :: "'w io \<Rightarrow> 'w system \<Rightarrow> u8 \<times> bool \<times> 'w system" where
  "subscribe_serial io s =
     (case serial_subscribe_int io (s_sp s) (a_w (s_app s)) of
        ((bit_no, ok, sp), w) \<Rightarrow> (bit_no, ok, s\<lparr>s_sp := sp, s_app := (s_app s)\<lparr>a_w := w\<rparr>\<rparr>))"

definition stop_timer :: "'w io \<Rightarrow> 'w system \<Rightarrow> (unit, 'w) call" where
  "stop_timer io s = timer_unsubscribe_int io (a_tm (s_app s))"

definition stop_keyboard :: "'w io \<Rightarrow> 'w system \<Rightarrow> (unit, 'w) call" where
  "stop_keyboard io s = keyboard_unsubscribe_int io (s_kd s)"

definition stop_mouse :: "'w io \<Rightarrow> 'w system \<Rightarrow> (unit, 'w) call" where
  "stop_mouse io s = mouse_unsubscribe_int io (s_md s)"

definition stop_serial :: "'w io \<Rightarrow> 'w system \<Rightarrow> (unit, 'w) call" where
  "stop_serial io s = serial_unsubscribe_int io (s_sp s)"

text \<open>The result says whether the function returned 0.\<close>

definition subscribe_interrupts :: "'w io \<Rightarrow> 'w system \<Rightarrow> (bool \<times> 'w system) option" where
  "subscribe_interrupts io s = (
     let (bit_no, ok, s) = subscribe_timer io s in
     if \<not> ok then Some (False, failing io ERR_TIMER ''subscribe_interrupts: unable to subscribe timer interrupt'' s)
     else do {
     m \<leftarrow> BIT bit_no; let s = s\<lparr>irq_timer := m\<rparr>;
     let (bit_no, ok, s) = subscribe_keyboard io s;
     if \<not> ok then Some (False, failing io ERR_KEYBOARD ''subscribe_interrupts: unable to subscribe keyboard interrupt''
       (ignoring io (stop_timer io) s))
     else do {
     m \<leftarrow> BIT bit_no; let s = s\<lparr>irq_keyboard := m\<rparr>;
     let (bit_no, ok, s) = subscribe_mouse io s;
     if \<not> ok then Some (False, failing io ERR_MOUSE ''subscribe_interrupts: unable to subscribe mouse interrupt''
       (ignoring io (stop_keyboard io) (ignoring io (stop_timer io) s)))
     else do {
     let (ok, s) = enable_wheel io s;
     if \<not> ok then Some (False, failing io ERR_MOUSE ''subscribe_interrupts: unable to enable wheel mode''
       (ignoring io (stop_mouse io) (ignoring io (stop_keyboard io) (ignoring io (stop_timer io) s))))
     else do {
     let (ok, s) = calling (\<lambda>_. my_mouse_enable_data_reporting io) s;
     if \<not> ok then Some (False, failing io ERR_MOUSE ''subscribe_interrupts: unable to enable data reporting''
       (ignoring io (stop_mouse io) (ignoring io (stop_keyboard io) (ignoring io (stop_timer io) s))))
     else do {
     m \<leftarrow> BIT bit_no; let s = s\<lparr>irq_mouse := m\<rparr>;
     let (bit_no, ok, s) = subscribe_serial io s;
     if \<not> ok then Some (False, failing io ERR_SERIAL ''subscribe_interrupts: unable to subscribe serial interrupt''
       (ignoring io (\<lambda>_. my_mouse_disable_data_reporting io)
         (ignoring io (stop_mouse io) (ignoring io (stop_keyboard io) (ignoring io (stop_timer io) s)))))
     else do {
     m \<leftarrow> BIT bit_no;
     Some (True, s\<lparr>irq_serial := m\<rparr>)
     }}}}}})"

text \<open>One step of \<open>unsubscribe_interrupts\<close>: \<open>errors\<close> becomes 1 when the call fails.\<close>

definition try_stop :: "'w io \<Rightarrow> ('w system \<Rightarrow> (unit, 'w) call) \<Rightarrow> ErrorType \<Rightarrow> string \<Rightarrow> bool \<times> 'w system \<Rightarrow> bool \<times> 'w system" where
  "try_stop io f e msg = (\<lambda>(errors, s). case calling f s of
     (True, s) \<Rightarrow> (errors, s)
   | (False, s) \<Rightarrow> (True, failing io e (''unsubscribe_interrupts: unable to '' @ msg) s))"

text \<open>The result says whether there were errors.\<close>

definition unsubscribe_interrupts :: "'w io \<Rightarrow> 'w system \<Rightarrow> bool \<times> 'w system" where
  "unsubscribe_interrupts io s =
     try_stop io (stop_serial io) ERR_SERIAL ''unsubscribe serial interrupt''
    (try_stop io (\<lambda>_. my_mouse_disable_data_reporting io) ERR_MOUSE ''disable mouse data reporting''
    (try_stop io (stop_timer io) ERR_TIMER ''unsubscribe timer interrupt''
    (try_stop io (stop_keyboard io) ERR_KEYBOARD ''unsubscribe keyboard interrupt''
    (try_stop io (stop_mouse io) ERR_MOUSE ''unsubscribe mouse interrupt'' (False, s)))))"

section \<open>The interrupt handlers\<close>

definition timer_handler :: "'w io \<Rightarrow> 'w system \<Rightarrow> 'w system option" where
  "timer_handler io s = do {
     let a = (s_app s)\<lparr>a_tm := timer_int_handler (a_tm (s_app s))\<rparr>;
     (expired, b) \<leftarrow> command_bar_tick (a_cb a);
     let a = a\<lparr>a_cb := b\<rparr>;
     let a = (if expired then render RENDER_STATUS a else a);
     a \<leftarrow> (if uint (get_int_counter (a_tm a)) mod TIMER_HZ = 0 then do {
            (cl, w) \<leftarrow> time_update io (a_cl a) (a_w a);
            Some (render RENDER_STATUS (a\<lparr>a_cl := cl, a_w := w\<rparr>))
          } else Some a);
     Some (s\<lparr>s_app := a\<rparr>)
   }"

definition keyboard_handler :: "'w io \<Rightarrow> 'w system \<Rightarrow> 'w system option" where
  "keyboard_handler io s =
     (let (d, w) = keyboard_ih io (s_kd s) (a_w (s_app s));
          s = s\<lparr>s_kd := d, s_app := (s_app s)\<lparr>a_w := w\<rparr>\<rparr>
      in case build_scancode io (s_kd s) (s_ps s) (a_w (s_app s)) of
           (None, w) \<Rightarrow> Some (failing io ERR_KEYBOARD ''keyboard_handler: unable to build packet'' (s\<lparr>s_app := (s_app s)\<lparr>a_w := w\<rparr>\<rparr>))
         | (Some ps, w) \<Rightarrow>
             let s = s\<lparr>s_ps := ps, s_app := (s_app s)\<lparr>a_w := w\<rparr>\<rparr>
             in if two_byte ps then Some s
                else do {
                  (kb, q) \<leftarrow> keyboard_process ps (s_kb s) (s_events s);
                  Some (s\<lparr>s_kb := kb, s_events := q\<rparr>)
                })"

definition mouse_handler :: "'w io \<Rightarrow> 'w system \<Rightarrow> 'w system option" where
  "mouse_handler io s = do {
     (d, w) \<leftarrow> mouse_ih io (s_md s) (a_w (s_app s));
     let s = s\<lparr>s_md := d, s_app := (s_app s)\<lparr>a_w := w\<rparr>\<rparr>;
     if is_packet_ready (s_md s) then do {
       (built, w) \<leftarrow> build_packet io (s_md s) (a_w (s_app s));
       let s = s\<lparr>s_app := (s_app s)\<lparr>a_w := w\<rparr>\<rparr>;
       case built of
         None \<Rightarrow> Some (failing io ERR_MOUSE ''mouse_handler: unable to build packet'' s)
       | Some (pp, d) \<Rightarrow> do {
           let a = s_app s;
           (m, r, q) \<leftarrow> mouse_process pp (vg_get_h_res (a_vd a)) (vg_get_v_res (a_vd a)) (a_ms a) (a_rs a) (s_events s);
           Some (s\<lparr>s_md := d, s_events := q, s_app := a\<lparr>a_ms := m, a_rs := r\<rparr>\<rparr>)
         }
     } else Some s
   }"

definition serial_handler :: "'w io \<Rightarrow> 'w system \<Rightarrow> 'w system option" where
  "serial_handler io s = do {
     (sp, (ss, q), w) \<leftarrow> serial_process io (s_sp s) (s_ss s, s_events s) (a_w (s_app s));
     Some (s\<lparr>s_sp := sp, s_ss := ss, s_events := q, s_app := (s_app s)\<lparr>a_w := w\<rparr>\<rparr>)
   }"

definition interrupts_handler :: "'w io \<Rightarrow> u32 \<Rightarrow> 'w system \<Rightarrow> 'w system option" where
  "interrupts_handler io irq_mask s = do {
     s \<leftarrow> (if irq_mask AND ucast (irq_timer s) \<noteq> 0 then timer_handler io s else Some s);
     s \<leftarrow> (if irq_mask AND ucast (irq_keyboard s) \<noteq> 0 then keyboard_handler io s else Some s);
     s \<leftarrow> (if irq_mask AND ucast (irq_serial s) \<noteq> 0 then serial_handler io s else Some s);
     (if irq_mask AND ucast (irq_mouse s) \<noteq> 0 then mouse_handler io s else Some s)
   }"

section \<open>Dispatching the events\<close>

definition dispatch_event :: "'w env \<Rightarrow> InputEvent \<Rightarrow> 'w app \<Rightarrow> 'w app option" where
  "dispatch_event env ev = (case ev of
     INPUT_EVENT_KEY k \<Rightarrow> commands_dispatch env k
   | INPUT_EVENT_MOUSE m \<Rightarrow> commands_dispatch_mouse env m
   | INPUT_EVENT_SERIAL e \<Rightarrow> commands_dispatch_serial e)"

definition input_dispatch :: "'w env \<Rightarrow> 'w system \<Rightarrow> 'w system option" where
  "input_dispatch env s = do {
     (q, a) \<leftarrow> drain input_event_pop (dispatch_event env) (s_events s) (s_app s);
     Some (s\<lparr>s_events := q, s_app := a\<rparr>)
   }"

section \<open>The main loop\<close>

text \<open>
  The message of \<open>driver_receive\<close>, when it succeeds: whether it is a notification, whether it comes from
  the hardware, and the interrupts. The platform: the kernel calls and files, the BIOS, the pointer's
  sprite and its transparent colour, entering the working directory, and the messages.
\<close>

record message =
  msg_notify :: bool
  msg_hardware :: bool
  msg_interrupts :: u32

record 'w platform =
  p_env :: "'w env"
  p_bios :: "'w bios"
  p_cursor :: "xpm_image option"
  p_transparent :: u32
  enter_work_dir :: "'w \<Rightarrow> 'w"
  driver_receive :: "(message, 'w) call"

text \<open>One round of the loop. A failed \<open>driver_receive\<close> goes straight to the next one.\<close>

definition main_round :: "'w platform \<Rightarrow> 'w system \<Rightarrow> 'w system option" where
  "main_round p s = (case driver_receive p (a_w (s_app s)) of
     (None, w) \<Rightarrow> Some (s\<lparr>s_app := (s_app s)\<lparr>a_w := w\<rparr>\<rparr>)
   | (Some msg, w) \<Rightarrow> do {
       let s = s\<lparr>s_app := (s_app s)\<lparr>a_w := w\<rparr>\<rparr>;
       s \<leftarrow> (if msg_notify msg \<and> msg_hardware msg
            then interrupts_handler (e_io (p_env p)) (msg_interrupts msg) s else Some s);
       s \<leftarrow> input_dispatch (p_env p) s;
       if get_render (a_rs (s_app s)) \<noteq> RENDER_NONE then do {
         a \<leftarrow> view_render (p_transparent p) (s_app s);
         Some (s\<lparr>s_app := a\<rparr>)
       } else Some s
     })"

partial_function (option) main_loop :: "'w platform \<Rightarrow> 'w system \<Rightarrow> 'w system option" where
  "main_loop p s =
     (if get_quit (s_app s) then Some s
      else do { s \<leftarrow> main_round p s; main_loop p s })"

text \<open>\<open>fail (e, msg)\<close> as a result: the function returns 1.\<close>

definition give_up :: "'w io \<Rightarrow> ErrorType \<Rightarrow> string \<Rightarrow> 'w system \<Rightarrow> (bool \<times> 'w system) option" where
  "give_up io e msg s = Some (False, failing io e (''proj_main_loop: '' @ msg) s)"

definition on_app :: "('w app \<Rightarrow> 'w app option) \<Rightarrow> 'w system \<Rightarrow> 'w system option" where
  "on_app f s = do { a \<leftarrow> f (s_app s); Some (s\<lparr>s_app := a\<rparr>) }"

text \<open>The setup of the screen and of the scene; the first component is \<open>False\<close> when the function returned.\<close>

definition start_screen :: "'w platform \<Rightarrow> 'w system \<Rightarrow> (bool \<times> 'w system) option" where
  "start_screen p s = (let io = e_io (p_env p) in do {
     (ok, e) \<leftarrow> editor_init (a_ed (s_app s));
     let s = s\<lparr>s_app := (s_app s)\<lparr>a_ed := e\<rparr>\<rparr>;
     if \<not> ok then give_up io ERR ''editor_init failed'' s else do {
     ((ok, v), w) \<leftarrow> video_init io (p_bios p) VBE_864p_DC (a_vd (s_app s)) (a_w (s_app s));
     let s = s\<lparr>s_app := (s_app s)\<lparr>a_vd := v, a_w := w\<rparr>\<rparr>;
     if \<not> ok then give_up io ERR_VIDEO ''video_init failed'' s else do {
     let (ok, a) = scene_init (p_cursor p) (s_app s);
     let s = s\<lparr>s_app := a\<rparr>;
     if \<not> ok then
       let (v, w) = video_cleanup io (p_bios p) (a_vd (s_app s)) (a_w (s_app s))
       in give_up io ERR ''scene_init failed'' (s\<lparr>s_app := (s_app s)\<lparr>a_vd := v, a_w := w\<rparr>\<rparr>)
     else Some (True, s)
     }}})"

text \<open>The setup of the devices.\<close>

definition start_devices :: "'w platform \<Rightarrow> 'w system \<Rightarrow> (bool \<times> 'w system) option" where
  "start_devices p s = (let io = e_io (p_env p);
       (ok, sp, w) = serial_init io (s_sp s) (a_w (s_app s));
       s = s\<lparr>s_sp := sp, s_app := (s_app s)\<lparr>a_w := w\<rparr>\<rparr>
     in if \<not> ok then give_up io ERR_SERIAL ''unable to initialize serial port'' s else do {
     (ok, s) \<leftarrow> subscribe_interrupts io s;
     if \<not> ok then give_up io ERR ''unable to subscribe interrupts'' s else
     let (ok, s) = calling (\<lambda>_. timer_set_frequency io 0 60) s
     in if \<not> ok then give_up io ERR_TIMER ''unable to set timer frequency'' (snd (unsubscribe_interrupts io s))
     else Some (True, s)
     })"

text \<open>\<open>arg\<close> is \<open>argv[1]\<close>, if there is one.\<close>

definition proj_main_loop :: "'w platform \<Rightarrow> string option \<Rightarrow> 'w system \<Rightarrow> (bool \<times> 'w system) option" where
  "proj_main_loop p arg s = (let io = e_io (p_env p); name = (case arg of None \<Rightarrow> ''untitled'' | Some n \<Rightarrow> n) in do {
     let s = s\<lparr>s_app := (s_app s)\<lparr>a_w := enter_work_dir p (a_w (s_app s))\<rparr>\<rparr>;
     b \<leftarrow> command_bar_init (Some name) (a_cb (s_app s));
     ft \<leftarrow> filetree_init (e_dirs (p_env p)) (a_ft (s_app s));
     let s = s\<lparr>s_app := (s_app s)\<lparr>a_cb := b, a_ft := ft\<rparr>\<rparr>;
     (ok, s) \<leftarrow> start_screen p s;
     if \<not> ok then Some (False, s) else do {
     let lang = syntax_detect_language (Some name);
     s \<leftarrow> on_app (scene_set_language (if lang = SYNTAX_LANG_NONE then SYNTAX_LANG_C else lang)) s;
     (ok, s) \<leftarrow> start_devices p s;
     if \<not> ok then Some (False, s) else do {
     s \<leftarrow> main_loop p s;
     s \<leftarrow> on_app scene_cleanup s;
     let (v, w) = video_cleanup io (p_bios p) (a_vd (s_app s)) (a_w (s_app s));
     let s = s\<lparr>s_app := (s_app s)\<lparr>a_vd := v, a_w := w\<rparr>\<rparr>;
     let (errors, s) = unsubscribe_interrupts io s;
     if errors then give_up io ERR ''unable to unsubscribe interrupts'' s
     else Some (True, s)
     }}})"

end
