(* ===== verification/EditorSafe.thy ===== *)
theory EditorSafe
  imports EditorProps
begin

text \<open>
  The editor as the command dispatcher relies on it: \<open>ed_ok e\<close> says that the cursor and, while a
  selection is active, its anchor are positions of the text, that the clipboard is a string, and that
  memory is not exhausted. The operations of \<open>editor.c\<close> that the commands call all return, and keep it.
  \<open>yields x P\<close> says that a computation has no undefined behaviour and that its result satisfies \<open>P\<close>;
  its rules compute the condition for a whole handler from those of the operations it calls.
\<close>

definition yields :: "'a option \<Rightarrow> ('a \<Rightarrow> bool) \<Rightarrow> bool" where
  "yields x P \<longleftrightarrow> (\<exists>y. x = Some y \<and> P y)"

lemma yields_simps [simp]:
  "yields (Some y) P = P y" "yields None P = False"
  "yields (x \<bind> f) P = yields x (\<lambda>y. yields (f y) P)"
  by (auto simp: yields_def bind_eq_Some_conv)

lemma yields_if [simp]: "yields (if b then x else y) P \<longleftrightarrow> (if b then yields x P else yields y P)"
  by simp

lemma yields_mono: "yields x P \<Longrightarrow> (\<And>y. P y \<Longrightarrow> Q y) \<Longrightarrow> yields x Q"
  by (auto simp: yields_def)

lemma yields_then: "yields x P \<Longrightarrow> (\<And>y. P y \<Longrightarrow> yields (f y) Q) \<Longrightarrow> yields (x \<bind> f) Q"
  by (auto simp: yields_def)

lemma yieldsI: "x = Some y \<Longrightarrow> P y \<Longrightarrow> yields x P"
  by (simp add: yields_def)

lemma yieldsD: "yields x P \<Longrightarrow> \<exists>y. x = Some y \<and> P y"
  by (simp add: yields_def)

section \<open>What the operations leave alone\<close>

text \<open>Everything that is neither the buffer nor the cursor and the scroll position.\<close>

definition frame :: "editor \<Rightarrow> editor \<Rightarrow> bool" where
  "frame e e' \<longleftrightarrow> sel_active e' = sel_active e \<and> sel_anchor_row e' = sel_anchor_row e \<and> sel_anchor_col e' = sel_anchor_col e
     \<and> clipboard e' = clipboard e \<and> remote_cursor_row e' = remote_cursor_row e \<and> remote_cursor_col e' = remote_cursor_col e"

lemma frame_refl [simp]: "frame e e"
  by (simp add: frame_def)

lemma frame_trans: "frame e e1 \<Longrightarrow> frame e1 e2 \<Longrightarrow> frame e e2"
  by (simp add: frame_def)

lemma frame_upd [simp]:
  "frame e (e'\<lparr>lines := l\<rparr>) = frame e e'" "frame e (e'\<lparr>row_cap := n\<rparr>) = frame e e'" "frame e (e'\<lparr>row_count := n\<rparr>) = frame e e'"
  "frame e (e'\<lparr>heap := h\<rparr>) = frame e e'" "frame e (e'\<lparr>cursor_row := n\<rparr>) = frame e e'" "frame e (e'\<lparr>cursor_col := n\<rparr>) = frame e e'"
  "frame e (clamp_scroll e') = frame e e'"
  "frame (e\<lparr>cursor_col := n\<rparr>) e' = frame e e'" "frame (e\<lparr>heap := h\<rparr>) e' = frame e e'" "frame (e\<lparr>row_count := n\<rparr>) e' = frame e e'"
  by (simp_all add: frame_def clamp_scroll_def Let_def)

lemma frame_set_line: "set_line i x e = Some e' \<Longrightarrow> frame e e'"
  by (auto simp: set_line_def bind_eq_Some_conv)

lemma frame_move_lines: "move_lines d s n e = Some e' \<Longrightarrow> frame e e'"
  by (auto simp: move_lines_def bind_eq_Some_conv)

lemma frame_on_line: "on_line i f e = Some (ok, e') \<Longrightarrow> frame e e'"
  by (auto simp: on_line_def bind_eq_Some_conv dest: frame_set_line)

lemma frame_upd_line: "upd_line i f e = Some e' \<Longrightarrow> frame e e'"
  by (auto simp: upd_line_def bind_eq_Some_conv dest: frame_set_line)

lemma frame_lines_ensure_cap: "lines_ensure_cap n e = Some (ok, e') \<Longrightarrow> frame e e'"
  by (auto simp: lines_ensure_cap_def bind_eq_Some_conv Let_def split: if_splits option.splits prod.splits)

lemmas frame_steps = frame_set_line frame_move_lines frame_on_line frame_upd_line frame_lines_ensure_cap

lemma frame_open_row: "open_row r e = Some (ok, e') \<Longrightarrow> frame e e'"
  by (auto simp: open_row_def bind_eq_Some_conv split: if_splits dest!: frame_steps intro: frame_trans)

lemma frame_split_line: "split_line r c e = Some (ok, e') \<Longrightarrow> frame e e'"
  by (auto simp: split_line_def bind_eq_Some_conv Let_def split: if_splits dest!: frame_steps frame_open_row intro: frame_trans)

lemma frame_merge_up: "merge_up r e = Some (ok, e') \<Longrightarrow> frame e e'"
  by (auto simp: merge_up_def bind_eq_Some_conv split: if_splits dest!: frame_steps intro: frame_trans)

lemma frame_insert_char: "editor_insert_char c e = Some (r, e') \<Longrightarrow> frame e e'"
  by (auto simp: editor_insert_char_def bind_eq_Some_conv split: if_splits dest!: frame_on_line frame_split_line)

lemma frame_delete_char: "editor_delete_char e = Some (r, e') \<Longrightarrow> frame e e'"
  by (auto simp: editor_delete_char_def bind_eq_Some_conv Let_def split: if_splits dest!: frame_upd_line frame_merge_up)

lemma frame_delete_word: "editor_delete_word e = Some (r, e') \<Longrightarrow> frame e e'"
  by (auto simp: editor_delete_word_def bind_eq_Some_conv Let_def split: if_splits dest!: frame_upd_line)

lemma frame_paste_loop: "paste_loop p r c e = Some (ok, r', c', e') \<Longrightarrow> frame e e'"
proof (induction p r c e rule: paste_loop.induct)
  case (3 c p dest_row dest_col e)
  consider "c = NUL" | "c = NL" | "c \<noteq> NUL" "c \<noteq> NL" by blast
  then show ?case
  proof cases
    case 1
    with 3 show ?thesis by simp
  next
    case 2
    then obtain ok1 e1 where e1: "open_row dest_row e = Some (ok1, e1)"
      using "3.prems" by (auto simp: bind_eq_Some_conv)
    show ?thesis
    proof (cases ok1)
      case False
      with 2 "3.prems" e1 show ?thesis by (auto dest: frame_open_row)
    next
      case True
      then obtain ok2 e2 where e2: "on_line (dest_row + 1) (\<lambda>ln. line_ensure_cap ln 0) e1 = Some (ok2, e2)"
        using 2 "3.prems" e1 by (auto simp: bind_eq_Some_conv)
      have f: "frame e e2" by (rule frame_trans [OF frame_open_row [OF e1] frame_on_line [OF e2]])
      show ?thesis
      proof (cases ok2)
        case False
        with 2 "3.prems" e1 e2 True f show ?thesis by simp
      next
        case ok2: True
        with 2 "3.prems" e1 e2 True have p: "paste_loop p (dest_row + 1) 0 (e2\<lparr>row_count := row_count e2 + 1\<rparr>) = Some (ok, r', c', e')"
          by simp
        have "frame (e2\<lparr>row_count := row_count e2 + 1\<rparr>) e'"
          by (rule "3.IH" (1) [OF _ 2 e1 refl _ e2 refl _ p]) (use 2 True ok2 in simp_all)
        then show ?thesis using f by (auto intro: frame_trans)
      qed
    qed
  next
    case other: 3
    then obtain seg rest ok1 e1 where sc: "scan_segment (Some c # p) = Some (seg, rest)"
      and e1: "on_line dest_row (line_put0 (dest_col + int (length seg) + 1) dest_col (Some (map Some seg)) 0 (int (length seg))) e
         = Some (ok1, e1)"
      using "3.prems" by (auto simp: bind_eq_Some_conv simp del: scan_segment.simps split: option.splits)
    have f: "frame e e1" by (rule frame_on_line [OF e1])
    show ?thesis
    proof (cases ok1)
      case False
      with other "3.prems" sc e1 f show ?thesis by (simp del: scan_segment.simps)
    next
      case True
      with other "3.prems" sc e1 have p: "paste_loop rest dest_row (dest_col + int (length seg)) e1 = Some (ok, r', c', e')"
        by (simp del: scan_segment.simps)
      have "frame e1 e'" by (rule "3.IH" (2) [OF other sc refl e1 refl _ p]) (use True in simp)
      then show ?thesis using f by (auto intro: frame_trans)
    qed
  qed
qed simp_all

lemma frame_paste:
  assumes "editor_paste e = Some (r, e')"
  shows "frame e e'"
proof (cases "clipboard e")
  case None
  with assms show ?thesis by (simp add: editor_paste_def)
next
  case (Some clip)
  obtain okm h where m: "malloc_ok (heap e) = (okm, h)" by (cases "malloc_ok (heap e)") auto
  obtain ln where ln: "line_at e (cursor_row e) = Some ln" using assms Some by (auto simp: editor_paste_def bind_eq_Some_conv)
  show ?thesis
  proof (cases okm)
    case False
    with assms Some m ln show ?thesis by (auto simp: editor_paste_def Let_def)
  next
    case True
    with assms Some m ln obtain tail e1 ok dr dc e2 where e1: "upd_line (cursor_row e) (line_truncate (cursor_col e)) (e\<lparr>heap := h\<rparr>) = Some e1"
      and e2: "paste_loop clip (cursor_row e1) (cursor_col e1) e1 = Some (ok, dr, dc, e2)"
      and e3: "(if \<not> ok then Some (EDITOR_ERR_ALLOC_FAILED, e2) else do {
         (ok, e) \<leftarrow> on_line dr (line_put (dc + (ln_len ln - cursor_col e) + 1) dc (Some tail) 0 (ln_len ln - cursor_col e)) e2;
         Some (alloc_result ok, if ok then clamp_scroll (e\<lparr>cursor_row := dr, cursor_col := dc\<rparr>) else e)
       }) = Some (r, e')"
      by (simp add: editor_paste_def Let_def bind_eq_Some_conv [of "upd_line _ _ _"] bind_eq_Some_conv [of "ln_buf ln"]
          bind_eq_Some_conv [of "blit _ _ _ _ _"] bind_eq_Some_conv [of "paste_loop _ _ _ _"] split_paired_Ex) blast
    have "frame e e2" using frame_upd_line [OF e1] frame_paste_loop [OF e2] by (auto intro: frame_trans)
    with e3 show ?thesis by (auto simp: bind_eq_Some_conv split: if_splits dest!: frame_on_line intro: frame_trans)
  qed
qed

section \<open>The invariant\<close>

definition clip_ok :: "editor \<Rightarrow> bool" where
  "clip_ok e \<longleftrightarrow> (\<forall>clip. clipboard e = Some clip \<longrightarrow> (\<exists>s J. clip = map Some s @ Some NUL # J \<and> NUL \<notin> set s))"

definition ed_ok :: "editor \<Rightarrow> bool" where
  "ed_ok e \<longleftrightarrow> (\<exists>b a. gap e b a) \<and> (sel_active e \<longrightarrow> (\<exists>b a. anchored e b a)) \<and> clip_ok e \<and> heap e = []"

text \<open>What most edits do when no selection is active: they succeed.\<close>

definition edited :: "EditorResult \<times> editor \<Rightarrow> bool" where
  "edited re \<longleftrightarrow> fst re = EDITOR_OK \<and> ed_ok (snd re) \<and> \<not> sel_active (snd re)"

lemma ed_ok_idle: "gap e b a \<Longrightarrow> \<not> sel_active e \<Longrightarrow> clip_ok e \<Longrightarrow> heap e = [] \<Longrightarrow> ed_ok e"
  by (auto simp: ed_ok_def)

lemma ed_okE:
  assumes "ed_ok e"
  obtains b a where "gap e b a" and "clip_ok e" and "heap e = []"
  using assms by (auto simp: ed_ok_def)

lemma edited_gap:
  assumes "f e = Some (alloc_result ok, e')" and "ok \<longrightarrow> gap e' b a" and "heap e = [] \<longrightarrow> ok \<and> heap e' = []"
    and "frame e e'" and "ed_ok e" and "\<not> sel_active e"
  shows "yields (f e) edited"
proof -
  have "ok" "heap e' = []" using assms(3,5) by (auto simp: ed_ok_def)
  moreover have "clip_ok e'" "\<not> sel_active e'" using assms(4-6) by (auto simp: ed_ok_def frame_def clip_ok_def)
  ultimately have "ed_ok e'" using assms(2) by (intro ed_ok_idle) auto
  with \<open>ok\<close> \<open>\<not> sel_active e'\<close> assms(1) show ?thesis by (simp add: edited_def alloc_result_def)
qed

lemma edited_insert_char:
  assumes "ed_ok e" and "\<not> sel_active e" and "c \<noteq> NUL"
  shows "yields (editor_insert_char c e) edited"
proof -
  obtain b a where g: "gap e b a" using assms(1) by (rule ed_okE)
  obtain ok e' where i: "editor_insert_char c e = Some (alloc_result ok, e')" "ok \<longrightarrow> gap e' (b @ [c]) a"
    "heap e = [] \<longrightarrow> ok \<and> heap e' = []" by (rule gap_insert [OF g assms(3)])
  show ?thesis by (rule edited_gap [where f = "editor_insert_char c", OF i frame_insert_char [OF i(1)] assms(1,2)])
qed

lemma edited_delete_char:
  assumes "ed_ok e" and "\<not> sel_active e"
  shows "yields (editor_delete_char e) edited"
proof -
  obtain b a where g: "gap e b a" using assms(1) by (rule ed_okE)
  obtain ok e' where i: "editor_delete_char e = Some (alloc_result ok, e')" "ok \<longrightarrow> gap e' (butlast b) a"
    "heap e = [] \<longrightarrow> ok \<and> heap e' = []" by (rule gap_delete [OF g]) blast
  show ?thesis by (rule edited_gap [where f = "editor_delete_char", OF i frame_delete_char [OF i(1)] assms])
qed

lemma edited_delete_word:
  assumes "ed_ok e" and "\<not> sel_active e"
  shows "yields (editor_delete_word e) edited"
proof -
  obtain b a where g: "gap e b a" using assms(1) by (rule ed_okE)
  obtain e' where i: "editor_delete_word e = Some (EDITOR_OK, e')" "gap e' (cut_word b) a" "heap e' = heap e"
    by (rule gap_delete_word [OF g])
  have "editor_delete_word e = Some (alloc_result True, e')" using i(1) by (simp add: alloc_result_def)
  then show ?thesis
    by (rule edited_gap [where f = editor_delete_word, OF _ _ _ frame_delete_word [OF i(1)] assms]) (use i in simp_all)
qed

lemma edited_delete_selection:
  assumes "ed_ok e"
  shows "yields (editor_delete_selection e) edited"
proof (cases "sel_active e")
  case False
  with assms show ?thesis by (simp add: editor_delete_selection_def edited_def)
next
  case True
  obtain b1 a1 b2 a2 where g: "gap e b1 a1" "anchored e b2 a2" using assms True by (auto simp: ed_ok_def)
  obtain m b a where r: "sel_range e b m a" using sel_rangeI [OF g] by blast
  obtain ok e' where d: "editor_delete_selection e = Some (alloc_result ok, e')"
    "ok \<longrightarrow> gap e' b a \<and> \<not> sel_active e'" "clipboard e' = clipboard e" "heap e = [] \<longrightarrow> ok \<and> heap e' = []"
    by (rule delete_range [OF r True])
  with assms show ?thesis by (auto simp: edited_def ed_ok_def clip_ok_def alloc_result_def)
qed

lemma ed_ok_copy_selection:
  assumes "ed_ok e"
  shows "yields (editor_copy_selection e) (\<lambda>e'. ed_ok e' \<and> sel_active e' = sel_active e)"
proof (cases "sel_active e")
  case False
  with assms show ?thesis by (simp add: editor_copy_selection_def)
next
  case True
  obtain b1 a1 b2 a2 where g: "gap e b1 a1" "anchored e b2 a2" using assms True by (auto simp: ed_ok_def)
  obtain m b a where r: "sel_range e b m a" using sel_rangeI [OF g] by blast
  obtain ok h where c: "editor_copy_selection e = Some (e\<lparr>clipboard := (if ok then Some (map Some m @ [Some NUL]) else None), heap := h\<rparr>)"
    "heap e = [] \<longrightarrow> ok \<and> h = []" by (rule copy_range [OF r True])
  obtain t where "doc e t" "clean t" using g(1) by (auto simp: gap_def)
  then have "NUL \<notin> set (flat t)" "b @ m @ a = flat t" using no_NUL_flat sel_range_text [OF r] by auto
  then have "NUL \<notin> set m" by (metis Un_iff set_append)
  with c assms show ?thesis by (auto simp: ed_ok_def clip_ok_def gap_def anchored_def)
qed

lemma ed_ok_paste:
  assumes "ed_ok e" and "\<not> sel_active e"
  shows "yields (editor_paste e) (\<lambda>(r, e'). r \<noteq> EDITOR_ERR_ALLOC_FAILED \<and> ed_ok e' \<and> \<not> sel_active e')"
proof (cases "clipboard e")
  case None
  with assms show ?thesis by (simp add: editor_paste_def)
next
  case (Some clip)
  obtain b a where g: "gap e b a" using assms(1) by (rule ed_okE)
  obtain s J where c: "clipboard e = Some (map Some s @ Some NUL # J)" "NUL \<notin> set s"
    using assms(1) Some by (auto simp: ed_ok_def clip_ok_def)
  obtain ok e' where p: "editor_paste e = Some (alloc_result ok, e')" "ok \<longrightarrow> gap e' (b @ s) a" "heap e = [] \<longrightarrow> ok \<and> heap e' = []"
    by (rule gap_paste [OF g c])
  have "yields (editor_paste e) edited" by (rule edited_gap [where f = "editor_paste", OF p frame_paste [OF p(1)] assms])
  then show ?thesis by (rule yields_mono) (auto simp: edited_def)
qed

section \<open>Moving and selecting\<close>

lemma ed_ok_cursor_only:
  assumes "cursor_only e e'" and "gap e' b a" and "ed_ok e"
  shows "ed_ok e' \<and> sel_active e' = sel_active e"
proof -
  have "anchored e' x y = anchored e x y" for x y
    using assms(1) cursor_only_doc [OF assms(1)] by (simp add: anchored_def cursor_only_def)
  with assms show ?thesis by (auto simp: ed_ok_def clip_ok_def cursor_only_def)
qed

lemma ed_ok_slide: "slide f e b a \<Longrightarrow> ed_ok e \<Longrightarrow> yields (f e) (\<lambda>e'. ed_ok e' \<and> sel_active e' = sel_active e)"
  using ed_ok_cursor_only unfolding slide_def by (auto simp: yields_def)

lemma gap_focus:
  assumes "doc e t" and "clean t" and "nat (cursor_row e) < length t" and "0 \<le> cursor_row e"
    and "0 \<le> cursor_col e" and "cursor_col e \<le> int (length (t ! nat (cursor_row e)))"
  shows "\<exists>b a. gap e b a"
proof -
  define i where "i = nat (cursor_row e)"
  define k where "k = nat (cursor_col e)"
  have t: "t = take i t @ (take k (t ! i) @ drop k (t ! i)) # drop (Suc i) t"
    using assms(3) id_take_nth_drop [of i t] by (simp add: i_def)
  have "at_pos t (cursor_row e) (cursor_col e) (above (take i t) (take k (t ! i))) (below (drop k (t ! i)) (drop (Suc i) t))"
    unfolding at_pos_def
    by (rule exI [of _ "take i t"], rule exI [of _ "take k (t ! i)"], rule exI [of _ "drop k (t ! i)"], rule exI [of _ "drop (Suc i) t"])
      (use t assms(3-6) in \<open>auto simp: i_def k_def\<close>)
  then show ?thesis using assms(1,2) by (auto simp: gap_def)
qed

lemma gapD:
  assumes "gap e b a" and "doc e t"
  shows "clean t \<and> 0 \<le> cursor_row e \<and> nat (cursor_row e) < length t \<and> 0 \<le> cursor_col e
    \<and> cursor_col e \<le> int (length (t ! nat (cursor_row e)))"
proof -
  obtain A x y B where g: "doc e (A @ (x @ y) # B)" "clean (A @ (x @ y) # B)"
    "cursor_row e = int (length A)" "cursor_col e = int (length x)" by (rule gapE [OF assms(1)])
  have "t = A @ (x @ y) # B" by (rule doc_unique [OF assms(2) g(1)])
  then show ?thesis using g by simp
qed

lemma ed_ok_set_cursor:
  assumes "ed_ok e"
  shows "yields (editor_set_cursor row col e) (\<lambda>e'. ed_ok e' \<and> sel_active e' = sel_active e)"
proof -
  obtain b a where g: "gap e b a" using assms by (rule ed_okE)
  then obtain t where t: "doc e t" "clean t" by (auto simp: gap_def)
  obtain e' where e': "editor_set_cursor row col e = Some e'" "if row = remote_cursor_row e then e' = e
     else cursor_only e e' \<and> cursor_row e' = max 0 (min row (int (length t) - 1))
       \<and> cursor_col e' = max 0 (min col (int (length (t ! nat (cursor_row e')))))"
    using set_cursor_doc [OF t(1), of row col] by auto
  show ?thesis
  proof (cases "row = remote_cursor_row e")
    case True
    with e' assms show ?thesis by simp
  next
    case False
    with e'(2) have c: "cursor_only e e'" "cursor_row e' = max 0 (min row (int (length t) - 1))"
      "cursor_col e' = max 0 (min col (int (length (t ! nat (cursor_row e')))))" by simp_all
    have "doc e' t" using cursor_only_doc [OF c(1)] t(1) by simp
    moreover have "0 < length t" using doc_nonempty [OF t(1)] by simp
    moreover from this have "0 \<le> cursor_row e'" "nat (cursor_row e') < length t" unfolding c(2) by linarith+
    moreover have "0 \<le> cursor_col e'" "cursor_col e' \<le> int (length (t ! nat (cursor_row e')))" by (simp_all add: c(3))
    ultimately have "\<exists>b a. gap e' b a" using t(2) by (intro gap_focus)
    with ed_ok_cursor_only [OF c(1) _ assms] e'(1) show ?thesis by auto
  qed
qed

lemma ed_ok_up_down:
  assumes "ed_ok e"
  shows "yields (editor_move_up e) (\<lambda>e'. ed_ok e' \<and> sel_active e' = sel_active e)"
    and "yields (editor_move_down e) (\<lambda>e'. ed_ok e' \<and> sel_active e' = sel_active e)"
proof -
  obtain b a where g: "gap e b a" using assms by (rule ed_okE)
  then obtain t where t: "doc e t" "clean t" by (auto simp: gap_def)
  note p = gapD [OF g t(1)]
  obtain u where u: "editor_move_up e = Some u" "cursor_only e u" "let r = cursor_row e in
      if r = 0 \<or> r - 1 = remote_cursor_row e then cursor_row u = r \<and> cursor_col u = cursor_col e
      else cursor_row u = r - 1 \<and> cursor_col u = min (cursor_col e) (int (length (t ! nat (r - 1))))"
    using up_down_moves [OF g t(1)] by blast
  obtain d where d: "editor_move_down e = Some d" "cursor_only e d" "let r = cursor_row e in
      if r = int (length t) - 1 \<or> r + 1 = remote_cursor_row e then cursor_row d = r \<and> cursor_col d = cursor_col e
      else cursor_row d = r + 1 \<and> cursor_col d = min (cursor_col e) (int (length (t ! nat (r + 1))))"
    using up_down_moves [OF g t(1)] by blast
  have "\<exists>b a. gap u b a" using t p u(3) cursor_only_doc [OF u(2)]
    by (intro gap_focus [of u t]) (auto simp: Let_def split: if_splits)
  with ed_ok_cursor_only [OF u(2) _ assms] u(1)
  show "yields (editor_move_up e) (\<lambda>e'. ed_ok e' \<and> sel_active e' = sel_active e)" by auto
  have "\<exists>b a. gap d b a" using t p d(3) cursor_only_doc [OF d(2)]
    by (intro gap_focus [of d t]) (auto simp: Let_def split: if_splits)
  with ed_ok_cursor_only [OF d(2) _ assms] d(1)
  show "yields (editor_move_down e) (\<lambda>e'. ed_ok e' \<and> sel_active e' = sel_active e)" by auto
qed

lemma ed_ok_left_right:
  assumes "ed_ok e"
  shows "yields (editor_move_left e) (\<lambda>e'. ed_ok e' \<and> sel_active e' = sel_active e)"
    and "yields (editor_move_right e) (\<lambda>e'. ed_ok e' \<and> sel_active e' = sel_active e)"
    and "yields (editor_move_word_left e) (\<lambda>e'. ed_ok e' \<and> sel_active e' = sel_active e)"
    and "yields (editor_move_word_right e) (\<lambda>e'. ed_ok e' \<and> sel_active e' = sel_active e)"
    and "yields (editor_move_end e) (\<lambda>e'. ed_ok e' \<and> sel_active e' = sel_active e)"
    and "ed_ok (editor_move_home e) \<and> sel_active (editor_move_home e) = sel_active e"
proof -
  obtain b a where g: "gap e b a" using assms by (rule ed_okE)
  have "\<exists>b a. slide editor_move_left e b a"
    using move_left_back [of e "butlast b" "last b" a] move_left_start [of e a] g by (cases "b = []") auto
  then show "yields (editor_move_left e) (\<lambda>e'. ed_ok e' \<and> sel_active e' = sel_active e)" using ed_ok_slide [OF _ assms] by blast
  have "\<exists>b a. slide editor_move_right e b a"
    using move_right_on [of e b "hd a" "tl a"] move_right_end [of e b] g by (cases "a = []") auto
  then show "yields (editor_move_right e) (\<lambda>e'. ed_ok e' \<and> sel_active e' = sel_active e)" using ed_ok_slide [OF _ assms] by blast
  show "yields (editor_move_word_left e) (\<lambda>e'. ed_ok e' \<and> sel_active e' = sel_active e)"
    using move_word_left_slide [OF g] ed_ok_slide [OF _ assms] by blast
  show "yields (editor_move_word_right e) (\<lambda>e'. ed_ok e' \<and> sel_active e' = sel_active e)"
    using move_word_right_slide [OF g] ed_ok_slide [OF _ assms] by blast
  show "yields (editor_move_end e) (\<lambda>e'. ed_ok e' \<and> sel_active e' = sel_active e)"
    using move_end_slide [OF g] ed_ok_slide [OF _ assms] by blast
  have "cursor_only e (editor_move_home e)" unfolding editor_move_home_def by simp
  then show "ed_ok (editor_move_home e) \<and> sel_active (editor_move_home e) = sel_active e"
    using move_home_slide [OF g] ed_ok_cursor_only [OF _ _ assms] by blast
qed

lemma ed_ok_select [simp]:
  "ed_ok e \<Longrightarrow> ed_ok (editor_sel_set_anchor e)" "ed_ok e \<Longrightarrow> ed_ok (editor_sel_clear e)"
  "\<not> sel_active (editor_sel_clear e)"
proof -
  assume "ed_ok e"
  then obtain b a where g: "gap e b a" "clip_ok e" "heap e = []" by (rule ed_okE)
  have "anchored (editor_sel_set_anchor e) b a \<and> gap (editor_sel_set_anchor e) b a" by (rule anchor_here [OF g(1)])
  then show "ed_ok (editor_sel_set_anchor e)"
    using g by (auto simp: ed_ok_def clip_ok_def editor_sel_set_anchor_def)
  show "ed_ok (editor_sel_clear e)" using g by (auto simp: ed_ok_def clip_ok_def editor_sel_clear_def gap_def)
qed (simp add: editor_sel_clear_def)

lemma doc_scroll [simp]:
  "doc (e\<lparr>scroll_dirty := x\<rparr>) t = doc e t" "doc (e\<lparr>scroll_row := r\<rparr>) t = doc e t" "doc (e\<lparr>scroll_col := r\<rparr>) t = doc e t"
  by (rule doc_cong; simp)+

lemma ed_ok_view [simp]:
  "ed_ok (e\<lparr>scroll_dirty := x\<rparr>) = ed_ok e" "ed_ok (e\<lparr>sel_dirty := x\<rparr>) = ed_ok e" "ed_ok (e\<lparr>scroll_row := r\<rparr>) = ed_ok e"
  "ed_ok (e\<lparr>scroll_col := r\<rparr>) = ed_ok e"
  by (simp_all add: ed_ok_def clip_ok_def gap_def anchored_def)

lemma ed_ok_scroll_by [simp]: "ed_ok (editor_scroll_by dr dc e) = ed_ok e"
  by (simp add: editor_scroll_by_def Let_def)

end
