(* ===== verification/Files.thy ===== *)
theory Files
  imports Commands EditorSafe
begin

text \<open>
  Opening and saving files. \<open>file_lines s\<close> is what the loop over \<open>fgets\<close> makes of the contents \<open>s\<close> of
  a file: lines end at a line break or after 4095 characters, and are cut at a terminator.
\<close>

definition line_of :: "string \<Rightarrow> string" where
  "line_of chunk = (let line = takeWhile (\<lambda>c. c \<noteq> NUL) chunk
     in if line \<noteq> [] \<and> last line = NL then butlast line else line)"

lemma fgets_progress: "fgets (FILE_READ_BUF - 1) (c # s) = (if c = NL then ([c], s) else (case fgets 4094 s of (l, r) \<Rightarrow> (c # l, r)))"
proof -
  have "FILE_READ_BUF - 1 = Suc 4094" by (simp add: FILE_READ_BUF_def)
  then show ?thesis by (simp only: fgets.simps)
qed

lemma fgets_rest: "(chunk, rest) = fgets (FILE_READ_BUF - 1) (c # s) \<Longrightarrow> length rest \<le> length s"
  using fgets_shorter [of 4094 s] unfolding fgets_progress by (auto split: if_splits prod.splits)

function file_lines :: "string \<Rightarrow> string list" where
  "file_lines [] = []"
| "file_lines (c # s) = (case fgets (FILE_READ_BUF - 1) (c # s) of (chunk, rest) \<Rightarrow> line_of chunk # file_lines rest)"
  by pat_completeness auto
termination
  by (relation "measure length") (auto simp: less_Suc_eq_le simp del: One_nat_def dest: fgets_rest)

declare file_lines.simps [simp del] load_file.simps [simp del]

lemma load_file_Cons:
  assumes "fgets (FILE_READ_BUF - 1) (c # s) = (chunk, rest)"
  shows "load_file (c # s) e = do {
     (res, e) \<leftarrow> editor_load_line (map Some (line_of chunk) @ [Some NUL]) (int (length (line_of chunk))) e;
     if res \<noteq> EDITOR_OK then Some e else load_file rest e
   }"
  unfolding load_file.simps assms line_of_def Let_def by simp

lemma file_lines_Cons:
  "fgets (FILE_READ_BUF - 1) (c # s) = (chunk, rest) \<Longrightarrow> file_lines (c # s) = line_of chunk # file_lines rest"
  by (simp only: file_lines.simps prod.case)

lemma load_file_loading:
  assumes "loading e t" and "heap e = []"
  shows "\<exists>e'. load_file s e = Some e' \<and> loading e' (t @ file_lines s) \<and> buf_only e e' \<and> heap e' = []"
  using assms
proof (induction s arbitrary: e t rule: file_lines.induct)
  case 1
  then show ?case by (simp add: load_file.simps file_lines.simps)
next
  case (2 c s)
  obtain chunk rest where ch: "fgets (FILE_READ_BUF - 1) (c # s) = (chunk, rest)" by (cases "fgets (FILE_READ_BUF - 1) (c # s)")
  obtain ok e1 where e1: "editor_load_line (map Some (line_of chunk) @ Some NUL # []) (int (length (line_of chunk))) e = Some (alloc_result ok, e1)"
    "ok \<longrightarrow> loading e1 (t @ [line_of chunk])" "buf_only e e1" "heap e = [] \<longrightarrow> ok \<and> heap e1 = []"
    by (rule load_line_loading [OF "2.prems"(1)])
  then have l: "loading e1 (t @ [line_of chunk])" "heap e1 = []" "ok" using "2.prems"(2) by auto
  obtain e' where "load_file rest e1 = Some e'" "loading e' (t @ line_of chunk # file_lines rest)" "buf_only e1 e'" "heap e' = []"
    using "2.IH" [OF ch [symmetric] l(1,2)] by auto
  then show ?case using e1(1,3) l(3) buf_only_trans [OF e1(3)]
    by (simp add: load_file_Cons [OF ch] file_lines_Cons [OF ch] alloc_result_def)
qed

text \<open>The lines are clean.\<close>

lemma fgets_chunk: "fgets n s = (l, r) \<Longrightarrow> s = l @ r \<and> NL \<notin> set (butlast l) \<and> length l \<le> n"
  by (induction n s arbitrary: l r rule: fgets.induct) (auto split: if_splits prod.splits)

lemma line_of_clean:
  assumes "fgets n s = (chunk, r)"
  shows "NL \<notin> set (line_of chunk) \<and> NUL \<notin> set (line_of chunk)"
proof -
  let ?l = "takeWhile (\<lambda>c. c \<noteq> NUL) chunk"
  have nl: "NL \<notin> set (butlast chunk)" using fgets_chunk [OF assms] by simp
  have nul: "NUL \<notin> set ?l" by (auto dest: set_takeWhileD)
  have "NL \<notin> set (butlast ?l)"
  proof (cases "?l = chunk")
    case False
    then obtain m where "chunk = ?l @ m" "m \<noteq> []" by (metis append_Nil2 takeWhile_dropWhile_id)
    then have "butlast chunk = ?l @ butlast m" by (metis butlast_append)
    then show ?thesis using nl by (metis Un_iff in_set_butlastD set_append)
  next
    case True
    then show ?thesis using nl by metis
  qed
  then have "NL \<notin> set (line_of chunk)"
    by (cases ?l rule: rev_cases) (auto simp: line_of_def Let_def)
  moreover have "NUL \<notin> set (line_of chunk)" using nul unfolding line_of_def Let_def by (auto dest: in_set_butlastD)
  ultimately show ?thesis by simp
qed

lemma clean_file_lines: "clean (file_lines s)"
proof (induction s rule: file_lines.induct)
  case (2 c s)
  obtain chunk rest where ch: "fgets (FILE_READ_BUF - 1) (c # s) = (chunk, rest)" by (cases "fgets (FILE_READ_BUF - 1) (c # s)")
  show ?case using "2.IH" [OF ch [symmetric]] line_of_clean [OF ch] by (simp add: file_lines_Cons [OF ch])
qed (simp add: file_lines.simps)

text \<open>A text printed line by line is read back, unless a row is too long.\<close>

lemma fgets_row: "NL \<notin> set s \<Longrightarrow> length s < n \<Longrightarrow> fgets n (s @ NL # r) = (s @ [NL], r)"
proof (induction s arbitrary: n)
  case Nil
  then show ?case by (cases n) simp_all
next
  case (Cons c s)
  then obtain m where "n = Suc m" by (cases n) auto
  moreover have "c \<noteq> NL" using Cons.prems(1) by auto
  ultimately show ?case using Cons by simp
qed

lemma file_lines_row:
  assumes "NL \<notin> set s" and "NUL \<notin> set s" and "length s < FILE_READ_BUF - 1"
  shows "file_lines (s @ NL # r) = s # file_lines r"
proof -
  obtain d u where du: "s @ NL # r = d # u" by (cases "s @ NL # r") auto
  have "takeWhile (\<lambda>c. c \<noteq> NUL) (s @ [NL]) = s @ [NL]" using assms(2) by (subst takeWhile_append2) auto
  then have "line_of (s @ [NL]) = s" by (simp add: line_of_def)
  then show ?thesis using fgets_row [OF assms(1,3), of r] unfolding du by (simp add: file_lines.simps)
qed

lemma file_lines_text:
  assumes "clean t" and "\<forall>s \<in> set t. length s < FILE_READ_BUF - 1"
  shows "file_lines (concat (map (\<lambda>s. s @ [NL]) t)) = t"
  using assms by (induction t) (simp_all add: file_lines_row file_lines.simps)

section \<open>Saving\<close>

lemma editor_line:
  assumes "doc e (A @ s # B)"
  obtains b where "editor_get_line e (int (length A)) = Some (Some (map Some s @ Some NUL # b))"
    and "editor_get_line_len e (int (length A)) = Some (int (length s))"
proof -
  obtain ln where ln: "line_at e (int (length A)) = Some ln" "line_rep ln s" by (rule doc_line_at [OF assms refl])
  moreover have "row_count e = int (length (A @ s # B))" by (rule doc_row_count [OF assms])
  ultimately show ?thesis using that by (auto simp: editor_get_line_def editor_get_line_len_def line_rep_def)
qed

lemma cstring_line: "NUL \<notin> set s \<Longrightarrow> cstring (map Some s @ Some NUL # b) = Some s"
  by (induction s) auto

lemma file_text_rows:
  assumes "doc e (A @ B)" and "clean B"
  shows "file_text e [int (length A)..int (length (A @ B)) - 1] = Some (concat (map (\<lambda>s. s @ [NL]) B))"
  using assms
proof (induction B arbitrary: A)
  case (Cons s B)
  have r: "[int (length A)..int (length (A @ s # B)) - 1] = int (length A) # [int (length (A @ [s]))..int (length ((A @ [s]) @ B)) - 1]"
    by (subst upto_rec1) (simp_all add: add.commute)
  obtain b where "editor_get_line e (int (length A)) = Some (Some (map Some s @ Some NUL # b))"
    by (rule editor_line [OF Cons.prems(1)])
  then show ?case using Cons.IH [of "A @ [s]"] Cons.prems cstring_line [of s b] unfolding r by simp
qed simp

section \<open>Opening\<close>

text \<open>The rows of the text after a file is opened; an empty file has one empty row.\<close>

definition opened_rows :: "string \<Rightarrow> string list" where
  "opened_rows s = (if s = '''' then [[]] else file_lines s)"

lemma file_lines_Nil_iff [simp]: "file_lines s = [] \<longleftrightarrow> s = []"
  by (cases s) (auto simp: file_lines.simps split: prod.splits)

lemma clean_opened_rows: "clean (opened_rows s)"
  by (simp add: opened_rows_def clean_file_lines)

lemma open_file_doc:
  assumes "init_ready e" and "heap e = []"
  shows "\<exists>r e1 e2 e3. editor_init e = Some (r, e1) \<and> load_file s e1 = Some e2 \<and> editor_load_finalize e2 = Some e3
    \<and> doc e3 (opened_rows s) \<and> cursor_row e3 = 0 \<and> cursor_col e3 = 0 \<and> \<not> sel_active e3 \<and> clipboard e3 = None \<and> heap e3 = []"
proof -
  obtain ok e1 where e1: "editor_init e = Some (ok, e1)"
    "ok \<longrightarrow> doc e1 [[]] \<and> cursor_row e1 = 0 \<and> cursor_col e1 = 0 \<and> scroll_row e1 = 0 \<and> scroll_col e1 = 0
      \<and> \<not> sel_active e1 \<and> clipboard e1 = None" "heap e = [] \<longrightarrow> ok \<and> heap e1 = []"
    by (rule editor_init_doc [OF assms(1)])
  then have d: "doc e1 [[]]" "heap e1 = []" using assms(2) by auto
  show ?thesis
  proof (cases "s = []")
    case True
    have "row_count e1 = 1" using doc_row_count [OF d(1)] by simp
    then have "editor_load_finalize e1 = Some e1" by (simp add: editor_load_finalize_def)
    with True e1 assms(2) d show ?thesis by (auto simp: opened_rows_def load_file.simps intro: exI [of _ True])
  next
    case False
    obtain e2 where e2: "load_file s e1 = Some e2" "loading e2 (file_lines s)" "buf_only e1 e2" "heap e2 = []"
      using load_file_loading [OF loading_start [OF d(1)] d(2), of s] by auto
    have ne: "file_lines s \<noteq> []" using False by simp
    obtain e3 where e3: "editor_load_finalize e2 = Some e3" "doc e3 (file_lines s)" "buf_only e2 e3" "heap e3 = heap e2"
      by (rule load_finalize_doc [OF e2(2) ne])
    show ?thesis
      using e1 assms(2) e2(1,4) e3(1,2,4) False buf_onlyD [OF buf_only_trans [OF e2(3) e3(3)]] by (auto simp: opened_rows_def)
  qed
qed

lemma open_file_ok:
  assumes "ed_ok e"
  shows "yields (do { (_, e) \<leftarrow> editor_init e; e \<leftarrow> load_file s e; editor_load_finalize e })
    (\<lambda>e. ed_ok e \<and> \<not> sel_active e \<and> clipboard e = None \<and> doc e (opened_rows s) \<and> cursor_row e = 0 \<and> cursor_col e = 0)"
proof -
  obtain b a where "gap e b a" "heap e = []" using assms by (rule ed_okE)
  then have i: "init_ready e" "heap e = []" by (auto simp: init_ready_def gap_def)
  obtain r e1 e2 e3 where o: "editor_init e = Some (r, e1)" "load_file s e1 = Some e2" "editor_load_finalize e2 = Some e3"
    "doc e3 (opened_rows s)" "cursor_row e3 = 0" "cursor_col e3 = 0" "\<not> sel_active e3" "clipboard e3 = None" "heap e3 = []"
    using open_file_doc [OF i, of s] by blast
  have "\<exists>b a. gap e3 b a"
    by (rule gap_focus [OF o(4) clean_opened_rows]) (use o doc_nonempty [OF o(4)] in \<open>auto simp: opened_rows_def\<close>)
  then have "ed_ok e3" using o by (auto simp: ed_ok_def clip_ok_def)
  with o show ?thesis by simp
qed

end
