(* ===== verification/CommandsSafe.thy ===== *)
theory CommandsSafe
  imports Files
begin

text \<open>
  The command dispatcher has no undefined behaviour: whatever key is pressed and wherever the mouse is
  clicked, the handlers of \<open>commands.c\<close> and \<open>filetree_commands.c\<close> return and keep the invariant
  \<open>app_ok\<close> of the editor, the command line, the file tree and the highlight cache. The kernel and the
  files may behave as they like, except that strings have no \<open>NUL\<close> in them; memory is not exhausted.
\<close>

section \<open>The invariant\<close>

definition dirs_ok :: "dirs \<Rightarrow> bool" where
  "dirs_ok d \<longleftrightarrow> NUL \<notin> set (error_text d) \<and> (\<forall>p ns. list_dir d p = Some ns \<longrightarrow> (\<forall>n \<in> set ns. NUL \<notin> set n))"

definition names_ok :: "filetree \<Rightarrow> bool" where
  "names_ok ft \<longleftrightarrow> NUL \<notin> set (ft_cwd ft) \<and> NUL \<notin> set (error_msg ft) \<and> (\<forall>x \<in> set (ft_entries ft). NUL \<notin> set (fe_name x))"

definition app_ok :: "'w app \<Rightarrow> bool" where
  "app_ok a \<longleftrightarrow> ed_ok (a_ed a) \<and> bar_inv (a_cb a) \<and> ft_inv (a_ft a) \<and> names_ok (a_ft a) \<and> cache_ok (a_hc a) \<and> 0 < sc_vis_rows (a_sc a)"

lemma app_okD: "app_ok a \<Longrightarrow> ed_ok (a_ed a)" "app_ok a \<Longrightarrow> bar_inv (a_cb a)" "app_ok a \<Longrightarrow> ft_inv (a_ft a)"
  "app_ok a \<Longrightarrow> names_ok (a_ft a)" "app_ok a \<Longrightarrow> cache_ok (a_hc a)" "app_ok a \<Longrightarrow> 0 < scene_get_vis_rows a"
  by (simp_all add: app_ok_def scene_get_vis_rows_def)

lemma app_ok_upd [simp]:
  "app_ok (a\<lparr>a_rs := r\<rparr>) = app_ok a" "app_ok (a\<lparr>a_w := w\<rparr>) = app_ok a" "app_ok (a\<lparr>quit_flag := b\<rparr>) = app_ok a"
  "app_ok (a\<lparr>remote := b\<rparr>) = app_ok a" "app_ok (a\<lparr>a_start := n\<rparr>) = app_ok a" "app_ok (render m a) = app_ok a"
  "app_ok a \<Longrightarrow> app_ok (a\<lparr>a_ed := e\<rparr>) = ed_ok e" "app_ok a \<Longrightarrow> app_ok (a\<lparr>a_cb := b'\<rparr>) = bar_inv b'"
  "app_ok a \<Longrightarrow> app_ok (a\<lparr>a_ft := ft\<rparr>) = (ft_inv ft \<and> names_ok ft)" "app_ok a \<Longrightarrow> app_ok (a\<lparr>a_hc := hc\<rparr>) = cache_ok hc"
  by (auto simp: app_ok_def render_def)

section \<open>The command line\<close>

lemma bar_set_status: "bar_inv b \<Longrightarrow> NUL \<notin> set msg \<Longrightarrow> yields (command_bar_set_status msg b) bar_inv"
  using bar_inv_set_status by (fastforce simp: yields_def)

lemma bar_set_filename: "bar_inv b \<Longrightarrow> NUL \<notin> set name \<Longrightarrow> yields (command_bar_set_filename name b) bar_inv"
  using bar_inv_set_filename by (fastforce simp: yields_def)

lemma bar_get_filename: "bar_inv b \<Longrightarrow> yields (command_bar_get_filename b) (\<lambda>s. NUL \<notin> set s)"
  by (auto simp: bar_inv_def command_bar_get_filename_def holds_def dest: cstring_no_NUL)

lemma bar_typed: "bar_inv b \<Longrightarrow> \<exists>s. typed b s \<and> length s \<le> CMD_BUF_SIZE - 1 \<and> length (input b) = CMD_BUF_SIZE"
  unfolding bar_inv_def typed_def by fastforce

lemma bar_start: "bar_inv b \<Longrightarrow> yields (command_bar_start b) bar_inv"
  using typed_start [of b] bar_typed [of b] bar_inv_typed_change by (fastforce simp: yields_def)

lemma bar_start_prefill:
  "bar_inv b \<Longrightarrow> NUL \<notin> set t \<Longrightarrow> length t < CMD_BUF_SIZE \<Longrightarrow> yields (command_bar_start_prefill (Some t) b) bar_inv"
  using typed_start_prefill [of b t] bar_typed [of b] bar_inv_typed_change by (fastforce simp: yields_def)

lemma bar_insert:
  assumes "bar_inv b" and "c \<noteq> NUL"
  shows "yields (command_bar_insert c b) bar_inv"
proof -
  obtain s where s: "typed b s" "length s \<le> CMD_BUF_SIZE - 1" using bar_typed [OF assms(1)] by blast
  show ?thesis
  proof (cases "length s = CMD_BUF_SIZE - 1")
    case True
    with typed_insert_full [OF s(1)] assms show ?thesis by simp
  next
    case False
    with s typed_insert [OF s(1) assms(2)] assms(1) bar_inv_typed_change show ?thesis by (fastforce simp: yields_def)
  qed
qed

lemma bar_delete: "bar_inv b \<Longrightarrow> yields (command_bar_delete b) bar_inv"
  using typed_delete bar_typed bar_inv_typed_change unfolding yields_def by metis

lemma bar_mode [simp]: "bar_inv (b\<lparr>cb_mode := m\<rparr>) = bar_inv b"
  by (simp add: bar_inv_def)

lemma bar_commit: "bar_inv b \<Longrightarrow> yields (command_bar_commit b) (\<lambda>(s, b'). bar_inv b' \<and> NUL \<notin> set s)"
  using bar_typed [of b] by (auto simp: command_bar_commit_def typed_input typed_def)

lemma bar_cancel: "bar_inv b \<Longrightarrow> bar_inv (command_bar_cancel b)"
  by (simp add: command_bar_cancel_def)

section \<open>Sending\<close>

lemma copy_bytes_total: "i = int (length p) \<Longrightarrow> n \<le> length bs \<Longrightarrow> copy_bytes (map Some p @ map Some bs @ r) i n = Some (take n bs)"
proof (induction n arbitrary: i p bs)
  case (Suc n)
  then obtain b bs' where bs: "bs = b # bs'" by (cases bs) auto
  have a: "aread (map Some p @ Some b # map Some bs' @ r) i = Some b" using Suc.prems(1) by (simp add: mem_simps)
  have "copy_bytes (map Some (p @ [b]) @ map Some bs' @ r) (i + 1) n = Some (take n bs')"
    by (rule Suc.IH) (use Suc.prems bs in simp_all)
  with a bs show ?case by simp
qed simp

text \<open>The payload has the bytes the packet needs.\<close>

definition payload_ok :: "SerialCommand \<Rightarrow> u8 cells \<Rightarrow> int \<Rightarrow> bool" where
  "payload_ok cmd p n \<longleftrightarrow> 0 \<le> n \<and> (\<exists>bs r. p = map Some bs @ r \<and>
     (case cmd of CMD_INSERT_CHAR \<Rightarrow> 1 | CMD_DELETE_CHAR \<Rightarrow> 0 | CMD_MOVE_CURSOR \<Rightarrow> 4 | CMD_REPLACE_BLOCK \<Rightarrow> 6 | _ \<Rightarrow> n) \<le> int (length bs))"

lemma send_ok:
  assumes "payload_ok cmd p n"
  shows "\<exists>w. send env cmd p n k a = Some (a\<lparr>a_w := w\<rparr>)"
proof -
  obtain bs r where b: "p = map Some bs @ r" "0 \<le> n"
    "(case cmd of CMD_INSERT_CHAR \<Rightarrow> 1 | CMD_DELETE_CHAR \<Rightarrow> 0 | CMD_MOVE_CURSOR \<Rightarrow> 4 | CMD_REPLACE_BLOCK \<Rightarrow> 6 | _ \<Rightarrow> n) \<le> int (length bs)"
    using assms by (auto simp: payload_ok_def)
  have cb: "copy_bytes p 0 m = Some (take m bs)" if "m \<le> length bs" for m
    using copy_bytes_total [of 0 "[]" m bs r] that by (simp add: b(1))
  have ar: "Suc 0 \<le> length bs \<Longrightarrow> aread p 0 = Some (hd bs)" using b(1) by (cases bs) (auto simp: aread_def in_range_def)
  have "\<exists>body. packet_body cmd p n (word_of_int k) = Some body"
    using b(2,3) cb ar by (cases cmd) (auto simp: packet_body_def Let_def)
  then show ?thesis by (auto simp: send_def build_packet_serial_def)
qed

lemma send_line_ok:
  assumes "ed_ok (a_ed a)" and "cmd = CMD_UPDATE_LINE \<or> cmd = CMD_FILE_LINE"
  shows "\<exists>w. send_line env cmd r n a = Some (a\<lparr>a_w := w\<rparr>)"
proof -
  obtain b c where "gap (a_ed a) b c" using assms(1) by (rule ed_okE)
  then obtain t where t: "doc (a_ed a) t" by (auto simp: gap_def)
  have rc: "row_count (a_ed a) = int (length t)" by (rule doc_row_count [OF t])
  have "\<exists>s z. editor_get_line (a_ed a) r = Some (Some (map Some s @ z)) \<and> editor_get_line_len (a_ed a) r = Some (int (length s))"
  proof (cases "r < 0 \<or> int (length t) \<le> r")
    case True
    with rc show ?thesis by (auto simp: editor_get_line_def editor_get_line_len_def intro!: exI [of _ "[]"])
  next
    case False
    then have "t = take (nat r) t @ t ! nat r # drop (Suc (nat r)) t" by (intro id_take_nth_drop) linarith
    with t have "doc (a_ed a) (take (nat r) t @ t ! nat r # drop (Suc (nat r)) t)" by metis
    from editor_line [OF this] show ?thesis using False by (metis (no_types, opaque_lifting) diff_ge_0_iff_ge
        int_nat_eq length_take linorder_not_less min.absorb4 nat_less_iff)
  qed
  then obtain s z where s: "editor_get_line (a_ed a) r = Some (Some (map Some s @ z))" "editor_get_line_len (a_ed a) r = Some (int (length s))"
    by blast
  have "text_bytes (map Some s @ z) = map Some (map of_char s) @ text_bytes z" by (simp add: text_bytes_def)
  then have "payload_ok cmd (text_bytes (map Some s @ z)) (int (length s))"
    using assms(2) unfolding payload_ok_def by (auto intro!: exI [of _ "map of_char s"])
  from send_ok [OF this] show ?thesis using s by (simp add: send_line_def)
qed

lemma send_list_ok: "cmd = CMD_MOVE_CURSOR \<and> length bs = 4 \<or> cmd = CMD_REPLACE_BLOCK \<and> length bs = 6 \<Longrightarrow> 0 \<le> n
    \<Longrightarrow> \<exists>w. send env cmd (map Some bs) n k a = Some (a\<lparr>a_w := w\<rparr>)"
  by (rule send_ok) (auto simp: payload_ok_def intro!: exI [of _ bs])

text \<open>What the senders have in common: only the machine changes.\<close>

definition sends :: "('w app \<Rightarrow> 'w app option) \<Rightarrow> 'w app \<Rightarrow> bool" where
  "sends f a \<longleftrightarrow> (\<exists>w. f a = Some (a\<lparr>a_w := w\<rparr>))"

lemma sends_yields: "sends f a \<Longrightarrow> app_ok a \<Longrightarrow> yields (f a) (\<lambda>a'. app_ok a' \<and> a_ed a' = a_ed a \<and> remote a' = remote a)"
  by (auto simp: sends_def)

lemma sends_to_peer [intro]: "sends f a \<Longrightarrow> sends (to_peer f) a"
  by (auto simp: to_peer_def sends_def intro: exI [of _ "a_w a"])

lemma sends_ok: "app_ok a \<Longrightarrow> sends f a \<Longrightarrow> (\<And>a'. app_ok a' \<Longrightarrow> P a') \<Longrightarrow> yields (f a) P"
  by (auto simp: sends_def)

lemma sends_each: "(\<And>x w. x \<in> set xs \<Longrightarrow> sends (f x) (a\<lparr>a_w := w\<rparr>)) \<Longrightarrow> sends (each f xs) a"
proof (induction xs arbitrary: a)
  case Nil
  have "a\<lparr>a_w := a_w a\<rparr> = a" by simp
  then show ?case by (metis each.simps(1) sends_def)
next
  case (Cons x xs)
  have "sends (f x) (a\<lparr>a_w := a_w a\<rparr>)" by (rule Cons.prems) simp
  then obtain w where w: "f x a = Some (a\<lparr>a_w := w\<rparr>)" by (auto simp: sends_def)
  have "sends (each f xs) (a\<lparr>a_w := w\<rparr>)"
  proof (rule Cons.IH)
    fix y w' assume "y \<in> set xs"
    then have "sends (f y) (a\<lparr>a_w := w'\<rparr>)" by (intro Cons.prems) simp
    then show "sends (f y) (a\<lparr>a_w := w, a_w := w'\<rparr>)" by simp
  qed
  with w show ?case by (auto simp: sends_def)
qed

lemma sends_cursor: "sends (send_cursor env) a" "sends (send_cursor_at env r c) a"
  unfolding sends_def send_cursor_def send_cursor_at_def by (rule send_list_ok; simp add: be16_def)+

lemma sends_line: "ed_ok (a_ed a) \<Longrightarrow> cmd = CMD_UPDATE_LINE \<or> cmd = CMD_FILE_LINE \<Longrightarrow> sends (send_line env cmd r n) a"
  unfolding sends_def by (rule send_line_ok)

lemma sends_block:
  assumes "ed_ok (a_ed a)"
  shows "sends (sync_block env r d i) a"
proof -
  have "sends (\<lambda>a. if d = 1 \<and> i = 1 then send_line env CMD_UPDATE_LINE r r a
             else do {
               a \<leftarrow> send env CMD_REPLACE_BLOCK (map Some (be16 r @ be16 d @ be16 i)) 6 0 a;
               each (\<lambda>r. send_line env CMD_UPDATE_LINE r r) [r..r + i - 1] a
             }) a"
  proof (cases "d = 1 \<and> i = 1")
    case True
    then show ?thesis using send_line_ok [OF assms, of CMD_UPDATE_LINE] by (auto simp: sends_def)
  next
    case False
    obtain w where w: "send env CMD_REPLACE_BLOCK (map Some (be16 r @ be16 d @ be16 i)) 6 0 a = Some (a\<lparr>a_w := w\<rparr>)"
      using send_list_ok [of CMD_REPLACE_BLOCK "be16 r @ be16 d @ be16 i" 6 env 0 a] by (auto simp: be16_def)
    have "sends (each (\<lambda>r. send_line env CMD_UPDATE_LINE r r) [r..r + i - 1]) (a\<lparr>a_w := w\<rparr>)"
      by (rule sends_each) (rule sends_line; use assms in simp)
    with w False show ?thesis by (auto simp: sends_def)
  qed
  then obtain w where w: "(if d = 1 \<and> i = 1 then send_line env CMD_UPDATE_LINE r r a
             else do {
               a \<leftarrow> send env CMD_REPLACE_BLOCK (map Some (be16 r @ be16 d @ be16 i)) 6 0 a;
               each (\<lambda>r. send_line env CMD_UPDATE_LINE r r) [r..r + i - 1] a
             }) = Some (a\<lparr>a_w := w\<rparr>)" unfolding sends_def by blast
  obtain w' where w': "send_cursor env (a\<lparr>a_w := w\<rparr>) = Some (a\<lparr>a_w := w'\<rparr>)"
    using sends_cursor(1) [of env "a\<lparr>a_w := w\<rparr>"] by (auto simp: sends_def)
  have "a\<lparr>a_w := a_w a\<rparr> = a" by simp
  then show ?thesis unfolding sends_def sync_block_def w by (metis (no_types) w' Option.bind.bind_lunit)
qed

section \<open>Keys in the text\<close>

lemma ed_ok_set_render_ex [simp]: "app_ok a \<Longrightarrow> app_ok (set_render_ex m a)"
  by (auto simp: set_render_ex_def editor_consume_scroll_dirty_def editor_consume_sel_dirty_def Let_def split: if_splits)
    (simp_all add: app_ok_def)

lemma ok_set_status: "app_ok a \<Longrightarrow> NUL \<notin> set msg \<Longrightarrow> yields (set_status msg a) (\<lambda>a'. app_ok a' \<and> a_ed a' = a_ed a)"
  using bar_set_status [OF app_okD(2), of a msg] by (auto simp: set_status_def on_cb_def yields_def)

lemma ok_out_of_memory: "app_ok a \<Longrightarrow> yields (out_of_memory a) app_ok"
  unfolding out_of_memory_def by (simp add: yields_mono [OF ok_set_status])

lemma ok_run_ed: "app_ok a \<Longrightarrow> yields (f (a_ed a)) P \<Longrightarrow> yields (run_ed f a) (\<lambda>(r, a'). \<exists>e. P (r, e) \<and> a' = a\<lparr>a_ed := e\<rparr>)"
  by (auto simp: run_ed_def yields_def)

lemma ok_on_ed: "app_ok a \<Longrightarrow> yields (f (a_ed a)) (\<lambda>e. ed_ok e \<and> P e) \<Longrightarrow> yields (on_ed f a) app_ok"
  by (auto simp: on_ed_def yields_def)

lemma ok_on_cb: "app_ok a \<Longrightarrow> yields (f (a_cb a)) bar_inv \<Longrightarrow> yields (on_cb f a) app_ok"
  by (auto simp: on_cb_def yields_def)

lemma ok_edited_block: "app_ok a \<Longrightarrow> yields (edited_block env r row d i m a) app_ok"
  using ok_out_of_memory [of a]
  by (auto simp: edited_block_def intro!: sends_ok sends_to_peer sends_block app_okD)

text \<open>Running an edit and then anything that copes with a good editor.\<close>

lemma ok_edit_then:
  assumes "app_ok a" and "yields (f (a_ed a)) edited"
    and "\<And>e. ed_ok e \<Longrightarrow> \<not> sel_active e \<Longrightarrow> yields (g (EDITOR_OK, a\<lparr>a_ed := e\<rparr>)) app_ok"
  shows "yields (run_ed f a \<bind> g) app_ok"
proof -
  obtain e where e: "f (a_ed a) = Some (EDITOR_OK, e)" "ed_ok e" "\<not> sel_active e"
    using assms(2) by (auto simp: yields_def edited_def)
  then have "run_ed f a = Some (EDITOR_OK, a\<lparr>a_ed := e\<rparr>)" by (simp add: run_ed_def)
  with assms(3) [OF e(2,3)] show ?thesis by simp
qed

lemma ok_delete_selected: "app_ok a \<Longrightarrow> yields (delete_selected env a) app_ok"
  unfolding delete_selected_def Let_def
  by (cases "editor_sel_get_range (a_ed a)")
    (auto simp del: yields_simps(3) intro!: ok_edit_then edited_delete_selection ok_edited_block dest: app_okD)

lemma sends_delete: "sends (send env CMD_DELETE_CHAR [] 0 0) a"
  unfolding sends_def by (rule send_ok) (simp add: payload_ok_def)

lemma sends_insert: "sends (send env CMD_INSERT_CHAR [Some b] 1 0) a"
  unfolding sends_def by (rule send_ok) (auto simp: payload_ok_def intro: exI [of _ "[b]"])

lemma ok_backspace:
  assumes "app_ok a"
  shows "yields (backspace_key env ev a) app_ok"
proof (cases "sel_active (a_ed a)")
  case True
  then show ?thesis using ok_delete_selected [OF assms] by (simp add: backspace_key_def editor_sel_is_active_def)
next
  case False
  note e = edited_delete_char [OF app_okD(1) [OF assms] False] edited_delete_word [OF app_okD(1) [OF assms] False]
  have "yields (run_ed editor_delete_char a \<bind> (\<lambda>(r, a).
      if r = EDITOR_ERR_ALLOC_FAILED then out_of_memory a
      else if r = EDITOR_OK then do { a \<leftarrow> to_peer (send env CMD_DELETE_CHAR [] 0 0) a; Some (set_render_ex m a) }
      else Some a)) app_ok" for m
    by (rule ok_edit_then [where f = editor_delete_char, OF assms e(1)]) (auto simp: assms intro!: sends_ok sends_to_peer sends_delete)
  moreover have "yields (run_ed f a \<bind> (\<lambda>(r, a). edited_block env r row d i m a)) app_ok"
    if "f = editor_delete_char \<or> f = editor_delete_word" for f row d i m
    by (rule ok_edit_then [OF assms]) (use that e in \<open>auto simp: assms intro!: ok_edited_block\<close>)
  ultimately show ?thesis using False unfolding backspace_key_def editor_sel_is_active_def Let_def
    by (simp del: yields_simps(3))
qed

lemma ok_move: "ed_ok e \<Longrightarrow> yields (move_cursor d c e) (\<lambda>e'. ed_ok e' \<and> sel_active e' = sel_active e)"
  using ed_ok_left_right [of e] ed_ok_up_down [of e] by (cases d) (simp_all add: move_cursor_def)

lemma ok_direction: "app_ok a \<Longrightarrow> yields (direction_key env ev a) app_ok"
proof -
  assume a: "app_ok a"
  define a1 where "a1 = (if ev_shift ev
               then (if \<not> editor_sel_is_active (a_ed a) then a\<lparr>a_ed := editor_sel_set_anchor (a_ed a)\<rparr> else a)
               else a\<lparr>a_ed := editor_sel_clear (a_ed a)\<rparr>)"
  have a1: "app_ok a1" using a app_okD(1) [OF a] by (auto simp: a1_def)
  have "yields (on_ed (move_cursor (ev_dir ev) (ev_ctrl ev)) a1) app_ok"
    by (rule ok_on_ed [OF a1 ok_move]) (rule app_okD(1) [OF a1])
  then have "yields (do { a \<leftarrow> on_ed (move_cursor (ev_dir ev) (ev_ctrl ev)) a1;
        a \<leftarrow> to_peer (send_cursor env) a; Some (set_render_ex RENDER_CHAR a) }) app_ok"
    by (simp, elim yields_mono) (auto intro!: sends_ok sends_to_peer sends_cursor)
  then show ?thesis by (simp add: direction_key_def a1_def Let_def del: yields_simps(3))
qed

lemma ok_copy: "app_ok a \<Longrightarrow> yields (on_ed editor_copy_selection a) app_ok"
  by (rule ok_on_ed [where P = "\<lambda>e. sel_active e = sel_active (a_ed a)"]) (auto intro: ed_ok_copy_selection app_okD)

lemma ok_cut: "app_ok a \<Longrightarrow> yields (cut_key env a) app_ok"
  unfolding cut_key_def by (auto elim!: yields_mono [OF ok_copy] intro: ok_delete_selected)

lemma ok_paste:
  assumes "app_ok a"
  shows "yields (paste_key env a) app_ok"
proof -
  have paste: "yields (do {
       (r, a) \<leftarrow> run_ed editor_paste a;
       let inserted_count = editor_get_row_count (a_ed a) - old_rows + 1;
       case r of
         EDITOR_OK \<Rightarrow> do {
           a \<leftarrow> to_peer (sync_block env start_r deleted inserted_count) a;
           Some (set_render_ex RENDER_FULL a)
         }
       | EDITOR_ERR_NO_CLIPBOARD \<Rightarrow> do { a \<leftarrow> set_status ''Nothing to paste'' a; Some (render RENDER_STATUS a) }
       | EDITOR_ERR_ALLOC_FAILED \<Rightarrow> out_of_memory a
     }) app_ok" if a: "app_ok a" "\<not> sel_active (a_ed a)" for a :: "'a app" and start_r deleted old_rows
  proof -
    obtain r e where e: "editor_paste (a_ed a) = Some (r, e)" "ed_ok e" "r \<noteq> EDITOR_ERR_ALLOC_FAILED"
      using ed_ok_paste [OF app_okD(1) [OF a(1)] a(2)] by (auto simp: yields_def)
    then have r: "run_ed editor_paste a = Some (r, a\<lparr>a_ed := e\<rparr>)" by (simp add: run_ed_def)
    have a': "app_ok (a\<lparr>a_ed := e\<rparr>)" using a e by simp
    have "yields (set_status ''Nothing to paste'' (a\<lparr>a_ed := e\<rparr>)) (\<lambda>y. app_ok (render RENDER_STATUS y))"
      by (rule yields_mono [OF ok_set_status [OF a']]) simp_all
    then show ?thesis using r a' e(2,3)
      by (cases r) (auto simp: Let_def intro!: sends_ok sends_to_peer sends_block)
  qed
  show ?thesis
  proof (cases "sel_active (a_ed a)")
    case False
    with paste [OF assms] show ?thesis by (simp add: paste_key_def editor_sel_is_active_def del: yields_simps(3))
  next
    case True
    obtain sr sc er ec where rng: "editor_sel_get_range (a_ed a) = (sr, sc, er, ec)" by (cases "editor_sel_get_range (a_ed a)")
    obtain e where e: "editor_delete_selection (a_ed a) = Some (EDITOR_OK, e)" "ed_ok e" "\<not> sel_active e"
      using edited_delete_selection [OF app_okD(1) [OF assms]] by (auto simp: yields_def edited_def)
    then have "run_ed editor_delete_selection a = Some (EDITOR_OK, a\<lparr>a_ed := e\<rparr>)" by (simp add: run_ed_def)
    with paste [of "a\<lparr>a_ed := e\<rparr>"] assms e True rng show ?thesis
      by (simp add: paste_key_def editor_sel_is_active_def del: yields_simps(3))
  qed
qed

lemma ok_insert_key:
  assumes "app_ok a" and "\<not> sel_active (a_ed a)" and "c \<noteq> NUL" and "\<And>a. app_ok a \<Longrightarrow> app_ok (redraw a)"
  shows "yields (insert_key env c redraw a) app_ok"
  unfolding insert_key_def
  by (rule ok_edit_then [OF assms(1)])
    (use assms in \<open>auto intro!: edited_insert_char app_okD sends_ok sends_to_peer sends_insert\<close>)

lemma ok_replace_selected:
  assumes "app_ok a" and "c \<noteq> NUL"
  shows "yields (replace_selected env c n a) app_ok"
proof -
  obtain sr sc er ec where rng: "editor_sel_get_range (a_ed a) = (sr, sc, er, ec)" by (cases "editor_sel_get_range (a_ed a)")
  obtain e where e: "editor_delete_selection (a_ed a) = Some (EDITOR_OK, e)" "ed_ok e" "\<not> sel_active e"
    using edited_delete_selection [OF app_okD(1) [OF assms(1)]] by (auto simp: yields_def edited_def)
  then have d: "run_ed editor_delete_selection a = Some (EDITOR_OK, a\<lparr>a_ed := e\<rparr>)" by (simp add: run_ed_def)
  have "yields (do {
        (r, a) \<leftarrow> run_ed (editor_insert_char c) (a\<lparr>a_ed := e\<rparr>);
        if r = EDITOR_OK then do {
          a \<leftarrow> to_peer (sync_block env sr (er - sr + 1) n) a;
          Some (render RENDER_FULL a)
        }
        else Some a
      }) app_ok"
    by (rule ok_edit_then) (use assms e in \<open>auto intro!: edited_insert_char sends_ok sends_to_peer sends_block\<close>)
  then show ?thesis using rng d by (simp add: replace_selected_def Let_def del: yields_simps(3))
qed

lemma ok_enter_char: "app_ok a \<Longrightarrow> yields (enter_key env a) app_ok" "app_ok a \<Longrightarrow> c \<noteq> NUL \<Longrightarrow> yields (char_key env c a) app_ok"
  by (auto simp: enter_key_def char_key_def editor_sel_is_active_def intro!: ok_insert_key ok_replace_selected)

section \<open>Files and commands\<close>

definition env_ok :: "'w env \<Rightarrow> bool" where
  "env_ok env \<longleftrightarrow> dirs_ok (e_dirs env)"

lemma ok_set_language: "app_ok a \<Longrightarrow> yields (scene_set_language lang a) app_ok"
proof -
  assume a: "app_ok a"
  obtain b c where "gap (a_ed a) b c" using app_okD(1) [OF a] by (rule ed_okE)
  then obtain t where t: "doc (a_ed a) t" by (auto simp: gap_def)
  obtain l opn cols n where "cache l opn cols n (a_hc a)" using app_okD(5) [OF a] by (auto simp: cache_ok_def)
  then obtain hc opn' cols' where "highlight_cache_set_language (a_ed a) lang (a_hc a) = Some hc" "cache lang opn' cols' 0 hc"
    using set_language_coherent [OF t, of l opn cols n "a_hc a" lang] by metis
  with a show ?thesis by (auto simp: scene_set_language_def on_hc_def cache_ok_def)
qed

lemma ok_renamed:
  assumes "app_ok a" and "NUL \<notin> set name"
  shows "yields (on_cb (command_bar_set_filename name) a \<bind> scene_set_language lang) app_ok"
  by (simp, rule yields_mono [OF ok_on_cb [where f = "command_bar_set_filename name", OF assms(1) bar_set_filename [OF app_okD(2) [OF assms(1)] assms(2)]] ok_set_language])

lemma ok_save: "app_ok a \<Longrightarrow> NUL \<notin> set name \<Longrightarrow> yields (execute_save env name a) app_ok"
proof -
  assume a: "app_ok a" "NUL \<notin> set name"
  obtain b c where "gap (a_ed a) b c" using app_okD(1) [OF a(1)] by (rule ed_okE)
  then obtain t where t: "doc (a_ed a) t" "clean t" by (auto simp: gap_def)
  have printed: "file_text (a_ed a) [0..editor_get_row_count (a_ed a) - 1] = Some (concat (map (\<lambda>s. s @ [NL]) t))"
    using file_text_rows [of "a_ed a" "[]" t] t doc_row_count [OF t(1)] by (simp add: editor_get_row_count_def)
  show ?thesis
  proof (cases "name = '''' \<or> (\<exists>w. fopen_w env name (a_w a) = (None, w))")
    case True
    with a show ?thesis by (auto simp: execute_save_def)
  next
    case False
    then obtain w where w: "fopen_w env name (a_w a) = (Some (), w)" "name \<noteq> ''''"
      by (cases "fopen_w env name (a_w a)") auto
    have "yields (on_cb (command_bar_set_filename name) (a\<lparr>a_w := x\<rparr>) \<bind> scene_set_language lang) app_ok" for x lang
      by (rule ok_renamed) (use a in simp_all)
    then show ?thesis using w printed by (simp add: execute_save_def Let_def)
  qed
qed

lemma ok_open: "app_ok a \<Longrightarrow> NUL \<notin> set name \<Longrightarrow> yields (execute_open env name a) app_ok"
proof -
  assume a: "app_ok a" "NUL \<notin> set name"
  show ?thesis
  proof (cases "name = '''' \<or> (\<exists>w. fopen_r env name (a_w a) = (None, w))")
    case True
    with a show ?thesis by (auto simp: execute_open_def)
  next
    case False
    then obtain s w where w: "fopen_r env name (a_w a) = (Some s, w)" "name \<noteq> ''''"
      by (cases "fopen_r env name (a_w a)") auto
    obtain r e1 e2 e where e: "editor_init (a_ed a) = Some (r, e1)" "load_file s e1 = Some e2" "editor_load_finalize e2 = Some e" "ed_ok e"
      using open_file_ok [OF app_okD(1) [OF a(1)], of s] by (auto simp: yields_def bind_eq_Some_conv)
    have "yields (on_cb (command_bar_set_filename name) (a\<lparr>a_ed := e, a_w := w\<rparr>) \<bind> scene_set_language lang) app_ok" for lang
      by (rule ok_renamed) (use a e in simp_all)
    then show ?thesis using w e by (simp add: execute_open_def Let_def)
  qed
qed

lemma sends_sync:
  assumes "app_ok a"
  shows "sends (execute_sync env) a"
proof -
  obtain fn where fn: "command_bar_get_filename (a_cb a) = Some fn"
    using bar_get_filename [OF app_okD(2) [OF assms]] by (auto simp: yields_def)
  have p: "payload_ok CMD_FILE_START (text_bytes (map Some fn)) (int (length fn))"
    by (auto simp: payload_ok_def text_bytes_def o_def intro!: exI [of _ "map of_char fn"])
  obtain w1 where w1: "send env CMD_FILE_START (text_bytes (map Some fn)) (int (length fn)) (editor_get_row_count (a_ed a)) a = Some (a\<lparr>a_w := w1\<rparr>)"
    using send_ok [OF p, of env "editor_get_row_count (a_ed a)" a] by blast
  have "sends (each (\<lambda>i. send_line env CMD_FILE_LINE i 0) [0..editor_get_row_count (a_ed a) - 1]) (a\<lparr>a_w := w1\<rparr>)"
    by (rule sends_each, rule sends_line) (use app_okD(1) [OF assms] in simp_all)
  then obtain w2 where w2: "each (\<lambda>i. send_line env CMD_FILE_LINE i 0) [0..editor_get_row_count (a_ed a) - 1] (a\<lparr>a_w := w1\<rparr>) = Some (a\<lparr>a_w := w2\<rparr>)"
    by (auto simp: sends_def)
  have "sends (send_cursor env) (a\<lparr>a_w := w2\<rparr>)" by (rule sends_cursor)
  then show ?thesis using fn w1 w2 by (auto simp: sends_def execute_sync_def Let_def)
qed

lemma ok_command:
  assumes "app_ok a" and "NUL \<notin> set raw"
  shows "yields (execute_command env raw a) app_ok"
proof -
  obtain name args where sp: "split_command raw = (name, args)" by (cases "split_command raw")
  have args: "NUL \<notin> set args"
    using sp assms(2) set_drop_subset [of "length name" raw] by (auto simp: split_command_def Let_def split: list.splits if_splits)
  obtain fn where fn: "command_bar_get_filename (a_cb a) = Some fn" "NUL \<notin> set fn"
    using bar_get_filename [OF app_okD(2) [OF assms(1)]] by (auto simp: yields_def)
  have save: "yields (cmd_save env args a) app_ok"
    using ok_save [OF assms(1)] args fn by (auto simp: cmd_save_def)
  have sync: "yields (cmd_sync env args a) app_ok"
  proof -
    have a: "app_ok (a\<lparr>remote := True\<rparr>)" using assms(1) by simp
    obtain w where "execute_sync env (a\<lparr>remote := True\<rparr>) = Some (a\<lparr>remote := True, a_w := w\<rparr>)"
      using sends_sync [OF a] by (auto simp: sends_def)
    moreover have "yields (set_status ''Ficheiro Partilhado!'' (a\<lparr>remote := True, a_w := w\<rparr>)) app_ok"
      by (rule yields_mono [OF ok_set_status]) (use a in simp_all)
    ultimately show ?thesis by (simp add: cmd_sync_def)
  qed
  show ?thesis
    using save sync ok_open [OF assms(1) args, of env] assms(1)
    by (auto simp: execute_command_def sp command_table_def cmd_open_def cmd_quit_def)
qed

lemma ok_command_mode: "app_ok a \<Longrightarrow> yields (dispatch_command_mode env ev a) app_ok"
proof -
  assume a: "app_ok a"
  note b = app_okD(2) [OF a]
  obtain s b' where c: "command_bar_commit (a_cb a) = Some (s, b')" "bar_inv b'" "NUL \<notin> set s"
    using bar_commit [OF b] by (auto simp: yields_def)
  have "yields (execute_command env s (a\<lparr>a_cb := b'\<rparr>)) app_ok" by (rule ok_command) (use a c in simp_all)
  then show ?thesis using a c bar_cancel [OF b] ok_on_cb [where f = command_bar_delete, OF a bar_delete [OF b]]
      ok_on_cb [where f = "command_bar_insert (ev_c ev)", OF a bar_insert [OF b]]
    by (simp add: dispatch_command_mode_def)
qed

section \<open>The file tree\<close>

lemma names_ok_view [simp]:
  "names_ok (ft\<lparr>ft_cursor := i\<rparr>) = names_ok ft" "names_ok (ft\<lparr>ft_scroll := i\<rparr>) = names_ok ft" "names_ok (ft\<lparr>entry_count := i\<rparr>) = names_ok ft"
  "names_ok (ft\<lparr>ft_focused := x\<rparr>) = names_ok ft" "names_ok (ft\<lparr>ft_visible := x\<rparr>) = names_ok ft"
  by (simp_all add: names_ok_def)

lemma names_ok_moves [simp]:
  "names_ok (filetree_move_up v ft) = names_ok ft" "names_ok (filetree_move_down v ft) = names_ok ft"
  "names_ok (filetree_set_cursor i v ft) = names_ok ft" "names_ok (filetree_scroll_by k v ft) = names_ok ft"
  "names_ok (filetree_set_focused x ft) = names_ok ft" "names_ok (filetree_set_visible x ft) = names_ok ft"
  by (simp_all add: filetree_move_up_def filetree_move_down_def filetree_set_cursor_def filetree_scroll_by_def Let_def
      filetree_set_focused_def filetree_set_visible_def)

lemma ft_inv_flags [simp]: "ft_inv (filetree_set_focused x ft) = ft_inv ft" "ft_inv (filetree_set_visible x ft) = ft_inv ft"
  by (simp_all add: ft_inv_def filetree_set_focused_def filetree_set_visible_def)

lemma set_cut: "c \<in> set (cut n s) \<Longrightarrow> c \<in> set s"
  by (auto simp: cut_def dest: in_set_takeD)

lemma names_ok_entry:
  "names_ok ft \<Longrightarrow> NUL \<notin> set (fe_name x) \<Longrightarrow> names_ok (ft\<lparr>ft_entries := (ft_entries ft)[i := x], entry_count := k\<rparr>)"
  using set_update_subset_insert [of "ft_entries ft" i x] by (auto simp: names_ok_def)

lemma read_entries_names:
  "read_entries d ns ft = Some ft' \<Longrightarrow> \<forall>n \<in> set ns. NUL \<notin> set n \<Longrightarrow> names_ok ft \<Longrightarrow> names_ok ft'"
proof (induction ns arbitrary: ft)
  case (Cons n ns)
  let ?e = "\<lparr>fe_name = cut FILETREE_NAME_LEN n, fe_is_dir = is_directory d (cut (CWD_MAX + FILETREE_NAME_LEN + 1) (ft_cwd ft @ ''/'' @ n))\<rparr>"
  let ?ft = "ft\<lparr>ft_entries := (ft_entries ft)[nat (entry_count ft) := ?e], entry_count := entry_count ft + 1\<rparr>"
  have "names_ok ?ft" by (rule names_ok_entry) (use Cons.prems(2,3) in \<open>auto dest: set_cut\<close>)
  with Cons show ?case by (auto simp: Let_def split: if_splits)
qed simp

lemma refresh_names:
  assumes "filetree_refresh d ft = Some (r, ft')" and "names_ok ft" and "dirs_ok d"
  shows "names_ok ft'"
proof (cases "list_dir d (ft_cwd ft)")
  case None
  with assms show ?thesis by (auto simp: filetree_refresh_def Let_def names_ok_def dirs_ok_def dest!: set_cut)
next
  case (Some ns)
  with assms obtain f where f: "read_entries d ns (ft\<lparr>entry_count := 0, error_msg := ''''\<rparr>) = Some f"
    and ft': "ft' = (let n = nat (entry_count f);
            ft = f\<lparr>ft_entries := qsort compare_entries (take n (ft_entries f)) @ drop n (ft_entries f)\<rparr>
       in if entry_count ft \<le> ft_cursor ft then ft\<lparr>ft_cursor := (if 0 < entry_count ft then entry_count ft - 1 else 0)\<rparr> else ft)"
    by (auto simp: filetree_refresh_def Let_def bind_eq_Some_conv)
  have "\<forall>n \<in> set ns. NUL \<notin> set n" using assms(3) Some by (auto simp: dirs_ok_def)
  from read_entries_names [OF f this] assms(2) have f_ok: "names_ok f" by (simp add: names_ok_def)
  have "set (qsort compare_entries (take n xs)) \<subseteq> set xs" for n and xs :: "FileEntry list"
    by (metis mset_qsort set_mset_mset set_take_subset)
  with f_ok show ?thesis unfolding ft' by (fastforce simp: names_ok_def Let_def dest: in_set_dropD)
qed

lemma refresh_ok:
  assumes "ft_inv ft" and "names_ok ft" and "dirs_ok d" and "NUL \<notin> set dir"
  shows "yields (filetree_refresh d (ft\<lparr>ft_cwd := dir, ft_cursor := 0, ft_scroll := 0\<rparr>)) (\<lambda>(r, ft'). ft_inv ft' \<and> names_ok ft')"
proof -
  let ?ft = "ft\<lparr>ft_cwd := dir, ft_cursor := 0, ft_scroll := 0\<rparr>"
  have p: "length (ft_entries ?ft) = FILETREE_MAX_ENTRIES" "ft_cursor ?ft = 0" "ft_scroll ?ft = 0"
    using assms(1) by (simp_all add: ft_inv_def)
  obtain r ft' where "filetree_refresh d ?ft = Some (r, ft')" "ft_inv ft'"
    using refresh_spec [OF p, of d] by metis
  moreover have "names_ok ?ft" using assms(2,4) by (simp add: names_ok_def)
  ultimately show ?thesis using refresh_names [of d ?ft r ft'] assms(3) by simp
qed

lemma before_last_slash_prefix: "before_last_slash s = Some p \<Longrightarrow> set p \<subseteq> set s"
  by (induction s arbitrary: p) (auto split: option.splits if_splits)

lemma go_parent_ok:
  assumes "ft_inv ft" and "names_ok ft" and "dirs_ok d"
  shows "yields (filetree_go_parent d ft) (\<lambda>(r, ft'). ft_inv ft' \<and> names_ok ft')"
proof -
  define dir where "dir = (case before_last_slash (ft_cwd ft) of Some p \<Rightarrow> if p \<noteq> [] then p else ''/'' | None \<Rightarrow> ''/'')"
  have "NUL \<notin> set dir"
  proof (cases "before_last_slash (ft_cwd ft)")
    case (Some p)
    then show ?thesis using before_last_slash_prefix [OF Some] assms(2) by (auto simp: dir_def names_ok_def)
  qed (simp add: dir_def)
  from refresh_ok [OF assms this] assms show ?thesis by (simp add: filetree_go_parent_def dir_def)
qed

lemma entry_ok:
  assumes "ft_inv ft" and "names_ok ft" and "entry_count ft \<noteq> 0"
  obtains e where "entry_at ft (ft_cursor ft) = Some e" and "NUL \<notin> set (fe_name e)"
  using assms by (auto simp: ft_inv_def names_ok_def entry_at_def in_range_def)

lemma enter_ok:
  assumes "ft_inv ft" and "names_ok ft" and "dirs_ok d"
  shows "yields (filetree_enter_selected d ft) (\<lambda>(r, ft'). ft_inv ft' \<and> names_ok ft')"
proof (cases "entry_count ft = 0")
  case True
  with assms show ?thesis by (simp add: filetree_enter_selected_def)
next
  case False
  obtain e where e: "entry_at ft (ft_cursor ft) = Some e" "NUL \<notin> set (fe_name e)" by (rule entry_ok [OF assms(1,2) False])
  define dir where "dir = (if ft_cwd ft = ''/'' then cut CWD_MAX (''/'' @ fe_name e) else strncat_cwd (strncat_cwd (ft_cwd ft) ''/'') (fe_name e))"
  have "NUL \<notin> set dir" using e(2) assms(2) by (auto simp: dir_def names_ok_def strncat_cwd_def dest!: set_cut in_set_takeD)
  note r = refresh_ok [OF assms this]
  have "ft_inv (ft\<lparr>error_msg := m\<rparr>) = ft_inv ft" for m by (simp add: ft_inv_def)
  moreover have "names_ok (ft\<lparr>error_msg := ''Path too long''\<rparr>)" using assms(2) by (simp add: names_ok_def)
  ultimately show ?thesis using e False assms go_parent_ok [OF assms] r
    by (simp add: filetree_enter_selected_def Let_def dir_def [symmetric])
qed

section \<open>The handlers of the file tree\<close>

lemma ok_on_ft [simp]: "app_ok a \<Longrightarrow> app_ok (on_ft f a) \<longleftrightarrow> ft_inv (f (a_ft a)) \<and> names_ok (f (a_ft a))"
  by (simp add: on_ft_def)

lemma ok_ft_moves:
  assumes "app_ok a"
  shows "app_ok (on_ft (filetree_move_up (scene_get_vis_rows a)) a)" "app_ok (on_ft (filetree_move_down (scene_get_vis_rows a)) a)"
    "app_ok (on_ft (filetree_set_cursor i (scene_get_vis_rows a)) a)" "app_ok (on_ft (filetree_scroll_by k (scene_get_vis_rows a)) a)"
    "app_ok (on_ft (filetree_set_focused x) a)" "app_ok (on_ft (filetree_set_focused x \<circ> filetree_set_visible y) a)"
  using assms app_okD [OF assms] ft_inv_moves [OF app_okD(3,6) [OF assms]] by simp_all

lemma ok_show_error: "app_ok a \<Longrightarrow> yields (show_filetree_error a) app_ok"
  using app_okD(4) [of a] ok_set_status [of a "error_msg (a_ft a)"]
  by (auto simp: show_filetree_error_def filetree_get_error_def names_ok_def intro: yields_mono)

lemma ok_open_filetree_file:
  assumes "app_ok a" and "env_ok env"
  shows "yields (open_filetree_file env a) app_ok"
proof -
  obtain r ft where ft: "filetree_enter_selected (e_dirs env) (a_ft a) = Some (r, ft)" "ft_inv ft" "names_ok ft"
    using enter_ok [of "a_ft a" "e_dirs env"] app_okD(3,4) [OF assms(1)] assms(2) by (auto simp: yields_def env_ok_def)
  have a: "app_ok (a\<lparr>a_ft := ft\<rparr>)" using assms(1) ft by simp
  show ?thesis
  proof (cases r)
    case FILETREE_OK
    with ft a show ?thesis by (simp add: open_filetree_file_def Let_def)
  next
    case FILETREE_ERR
    with ft a ok_show_error [OF a] show ?thesis by (simp add: open_filetree_file_def Let_def)
  next
    case FILETREE_FILE
    have "\<exists>p. filetree_get_selected_path PATH_MAX ft = Some p \<and> NUL \<notin> set p"
    proof (cases "entry_count ft = 0")
      case False
      then obtain e where e: "entry_at ft (ft_cursor ft) = Some e" "NUL \<notin> set (fe_name e)" by (rule entry_ok [OF ft(2,3)])
      with False ft(3) show ?thesis by (auto simp: filetree_get_selected_path_def names_ok_def dest!: set_cut)
    qed (simp add: filetree_get_selected_path_def)
    then obtain p where p: "filetree_get_selected_path PATH_MAX ft = Some p" "NUL \<notin> set p" by blast
    have "yields (commands_open_file env p (a\<lparr>a_ft := ft, a_start := session_time_reset (a_tm a)\<rparr>)) app_ok"
      unfolding commands_open_file_def by (rule ok_open) (use a p in simp_all)
    then show ?thesis using FILETREE_FILE ft p
      by (simp add: open_filetree_file_def Let_def) (erule yields_mono, simp add: ok_ft_moves del: ok_on_ft)
  qed
qed

lemma ok_filetree_mode:
  assumes "app_ok a" and "env_ok env"
  shows "yields (dispatch_filetree_mode env ev a) app_ok"
proof -
  obtain r ft where ft: "filetree_go_parent (e_dirs env) (a_ft a) = Some (r, ft)" "ft_inv ft" "names_ok ft"
    using go_parent_ok [of "a_ft a" "e_dirs env"] app_okD(3,4) [OF assms(1)] assms(2) by (auto simp: yields_def env_ok_def)
  have a: "app_ok (a\<lparr>a_ft := ft\<rparr>)" using assms(1) ft by simp
  show ?thesis using ft(1) ok_show_error [OF a] a ok_ft_moves [OF assms(1)] ok_open_filetree_file [OF assms] assms(1)
    by (simp add: dispatch_filetree_mode_def Let_def del: ok_on_ft)
qed

lemma ok_filetree_try:
  assumes "app_ok a" and "env_ok env"
  shows "yields (filetree_commands_try env ev a) (\<lambda>(taken, a'). app_ok a')"
  using ok_filetree_mode [OF assms, of ev] ok_ft_moves [OF assms(1)] assms(1)
  by (simp add: filetree_commands_try_def Let_def del: ok_on_ft)

lemma ok_filetree_mouse:
  assumes "app_ok a" and "env_ok env"
  shows "yields (filetree_commands_mouse env me a) (\<lambda>(taken, a'). app_ok a')"
proof -
  define a1 where "a1 = on_ft (filetree_set_focused False) a"
  have a1: "app_ok a1" unfolding a1_def by (rule ok_ft_moves [OF assms(1)])
  define a2 where "a2 = on_ft (filetree_set_focused True) a1"
  have a2: "app_ok a2" unfolding a2_def by (rule ok_ft_moves [OF a1])
  define a3 where "a3 = (\<lambda>i. on_ft (filetree_set_cursor i (scene_get_vis_rows a2)) a2)"
  have a3: "app_ok (a3 i)" for i unfolding a3_def by (rule ok_ft_moves [OF a2])
  have sc: "app_ok (on_ft (filetree_set_focused True) (on_ft (filetree_scroll_by k (scene_get_vis_rows a1)) a1))" for k
    by (rule ok_ft_moves [OF ok_ft_moves(4) [OF a1]])
  show ?thesis
    using a1 a2 a3 sc ok_open_filetree_file [OF a3 assms(2)]
    unfolding filetree_commands_mouse_def Let_def a1_def [symmetric] a2_def [symmetric] a3_def [symmetric, THEN fun_cong]
    by (simp add: a3_def [symmetric, THEN fun_cong] del: ok_on_ft split: option.split)
qed

section \<open>The dispatchers\<close>

lemma ok_save_key: "app_ok a \<Longrightarrow> yields (save_key env a) app_ok"
proof -
  assume a: "app_ok a"
  obtain fn where fn: "command_bar_get_filename (a_cb a) = Some fn" "NUL \<notin> set fn"
    using bar_get_filename [OF app_okD(2) [OF a]] by (auto simp: yields_def)
  have "yields (on_cb (command_bar_start_prefill (Some ''save '')) a) app_ok"
    by (rule ok_on_cb [OF a bar_start_prefill]) (use app_okD(2) [OF a] in \<open>simp_all add: CMD_BUF_SIZE_def\<close>)
  then show ?thesis using fn ok_save [OF a fn(2), of env] by (simp add: save_key_def)
qed

lemma ok_dispatch:
  assumes "app_ok a" and "env_ok env"
  shows "yields (commands_dispatch env ev a) app_ok"
proof -
  obtain taken a1 where a1: "filetree_commands_try env ev a = Some (taken, a1)" "app_ok a1"
    using ok_filetree_try [OF assms, of ev] by (auto simp: yields_def)
  have "yields (on_cb (command_bar_start_prefill (Some ''open '')) a1) app_ok"
    by (rule ok_on_cb [OF a1(2) bar_start_prefill]) (use app_okD(2) [OF a1(2)] in \<open>simp_all add: CMD_BUF_SIZE_def\<close>)
  moreover have "yields (on_cb command_bar_start a1) app_ok"
    by (rule ok_on_cb [OF a1(2) bar_start]) (rule app_okD(2) [OF a1(2)])
  ultimately show ?thesis
    using a1 ok_command_mode [OF a1(2), of env ev] ok_backspace [OF a1(2), of env ev] ok_direction [OF a1(2), of env ev]
      ok_copy [OF a1(2)] ok_cut [OF a1(2), of env] ok_paste [OF a1(2), of env] ok_save_key [OF a1(2), of env]
      ok_enter_char(1) [OF a1(2), of env] ok_enter_char(2) [OF a1(2), of "ev_c ev" env]
    by (simp add: commands_dispatch_def)
qed

lemma px_to_text_total:
  assumes "ed_ok (a_ed a)"
  shows "scene_px_to_text x y a \<noteq> None"
proof -
  obtain b c where g: "gap (a_ed a) b c" using assms by (rule ed_okE)
  then obtain t where t: "doc (a_ed a) t" by (auto simp: gap_def)
  have len: "editor_get_line_len (a_ed a) r \<noteq> None" for r
    using send_line_ok [OF assms, of CMD_UPDATE_LINE "undefined" r 0] by (auto simp: send_line_def bind_eq_Some_conv)
  have "(do { n \<leftarrow> editor_get_line_len (a_ed a) r; Some (f n) }) \<noteq> None" for r and f :: "int \<Rightarrow> (int \<times> int) option"
    using len [of r] by (cases "editor_get_line_len (a_ed a) r") simp_all
  then show ?thesis unfolding scene_px_to_text_def Let_def by simp
qed

lemma ok_click_text: "app_ok a \<Longrightarrow> yields (click_text env me a) app_ok"
proof -
  assume a: "app_ok a"
  obtain hit where hit: "scene_px_to_text (click_x me) (click_y me) a = Some hit"
    using px_to_text_total [OF app_okD(1) [OF a]] by blast
  show ?thesis
  proof (cases hit)
    case None
    with hit a show ?thesis by (simp add: click_text_def)
  next
    case (Some rc)
    obtain row col where rc: "rc = (row, col)" by (cases rc)
    have drag: "yields (on_ed (editor_set_cursor row col) a) app_ok"
      by (rule ok_on_ed [OF a ed_ok_set_cursor]) (rule app_okD(1) [OF a])
    let ?a = "a\<lparr>a_ed := editor_sel_clear (a_ed a)\<rparr>"
    have c: "app_ok ?a" using a app_okD(1) [OF a] by simp
    have "yields (on_ed (editor_set_cursor row col) ?a) app_ok"
      by (rule ok_on_ed [OF c ed_ok_set_cursor]) (rule app_okD(1) [OF c])
    moreover have "app_ok b \<Longrightarrow> app_ok (set_render_ex RENDER_CHAR b)
        \<and> app_ok ((set_render_ex RENDER_CHAR b)\<lparr>a_ed := editor_sel_set_anchor (a_ed (set_render_ex RENDER_CHAR b))\<rparr>)" for b :: "'a app"
      using app_okD(1) [of "set_render_ex RENDER_CHAR b"] by simp
    ultimately have "yields (do {
           a \<leftarrow> on_ed (editor_set_cursor row col) ?a;
           a \<leftarrow> to_peer (send_cursor_at env row col) a;
           let a = set_render_ex RENDER_CHAR a;
           Some (if \<not> editor_sel_is_active (a_ed a) then a\<lparr>a_ed := editor_sel_set_anchor (a_ed a)\<rparr> else a)
         }) app_ok"
      by (simp add: Let_def, elim yields_mono) (auto intro!: sends_ok sends_to_peer sends_cursor)
    then show ?thesis using hit Some rc drag a by (simp add: click_text_def del: yields_simps(3))
  qed
qed

lemma ok_scrollbar: "app_ok a \<Longrightarrow> app_ok (snd (scene_click_scrollbar x y a))"
  using app_okD(1) [of a] by (auto simp: scene_click_scrollbar_def Let_def editor_consume_scroll_dirty_def split: prod.split)

lemma ok_dispatch_mouse:
  assumes "app_ok a" and "env_ok env"
  shows "yields (commands_dispatch_mouse env me a) app_ok"
proof -
  define a1 where "a1 = (if \<not> left_holding me then a\<lparr>a_ed := editor_sel_clear (a_ed a)\<rparr> else a)"
  have a1: "app_ok a1" using assms(1) app_okD(1) [OF assms(1)] by (simp add: a1_def)
  obtain taken a2 where a2: "scene_click_scrollbar (click_x me) (click_y me) a1 = (taken, a2)" "app_ok a2"
    using ok_scrollbar [OF a1, of "click_x me" "click_y me"] by (cases "scene_click_scrollbar (click_x me) (click_y me) a1") auto
  obtain taken' a3 where a3: "filetree_commands_mouse env me a2 = Some (taken', a3)" "app_ok a3"
    using ok_filetree_mouse [OF a2(2) assms(2), of me] by (auto simp: yields_def)
  show ?thesis using a1 a2 a3 ok_click_text [OF a3(2), of env me] app_okD(1) [OF a3(2)]
    unfolding commands_dispatch_mouse_def Let_def a1_def [symmetric] by simp
qed

end
