(* ===== verification/Untouched.thy ===== *)
theory Untouched
  imports CommandsSafe Interrupts
begin

text \<open>
  What the commands leave alone. A condition on the state of the program that does not depend on the parts
  the commands change is kept by every command; the parts that only some commands change are added step by
  step. Its instances are the decision to quit and everything on the screen.
\<close>

text \<open>If the computation returns, the condition \<open>K\<close> holds of the result.\<close>

definition stays :: "('w app \<Rightarrow> bool) \<Rightarrow> 'w app option \<Rightarrow> bool" where
  "stays K x \<longleftrightarrow> (\<forall>a'. x = Some a' \<longrightarrow> K a')"

lemma stays_Some [simp]: "stays K (Some b) \<longleftrightarrow> K b"
  by (simp add: stays_def)

lemma stays_None [simp]: "stays K None"
  by (simp add: stays_def)

section \<open>The commands of the keyboard and the mouse\<close>

locale command_frame =
  fixes K :: "'w app \<Rightarrow> bool"
  assumes K_ed: "K (a\<lparr>a_ed := e\<rparr>) \<longleftrightarrow> K a" and K_cb: "K (a\<lparr>a_cb := b\<rparr>) \<longleftrightarrow> K a" and K_ft: "K (a\<lparr>a_ft := ft\<rparr>) \<longleftrightarrow> K a"
    and K_hc: "K (a\<lparr>a_hc := h\<rparr>) \<longleftrightarrow> K a" and K_rs: "K (a\<lparr>a_rs := r\<rparr>) \<longleftrightarrow> K a" and K_w: "K (a\<lparr>a_w := w\<rparr>) \<longleftrightarrow> K a"
    and K_start: "K (a\<lparr>a_start := t\<rparr>) \<longleftrightarrow> K a" and K_remote: "K (a\<lparr>remote := p\<rparr>) \<longleftrightarrow> K a"
begin

lemma upd [simp]:
  "K (a\<lparr>a_ed := e\<rparr>) \<longleftrightarrow> K a" "K (a\<lparr>a_cb := b\<rparr>) \<longleftrightarrow> K a" "K (a\<lparr>a_w := w\<rparr>) \<longleftrightarrow> K a" "K (a\<lparr>a_ft := ft\<rparr>) \<longleftrightarrow> K a"
  "K (a\<lparr>a_start := t\<rparr>) \<longleftrightarrow> K a" "K (a\<lparr>remote := r\<rparr>) \<longleftrightarrow> K a" "K (a\<lparr>a_hc := h\<rparr>) \<longleftrightarrow> K a"
  "K (render m a) \<longleftrightarrow> K a" "K (set_render_ex m a) \<longleftrightarrow> K a" "K (on_ft f a) \<longleftrightarrow> K a"
  by (simp_all add: K_ed K_cb K_ft K_hc K_rs K_w K_start K_remote render_def on_ft_def)
    (cases "scroll_dirty (a_ed a)"; simp add: render_def set_render_ex_def editor_consume_scroll_dirty_def
      editor_consume_sel_dirty_def Let_def K_ed K_rs)

lemma stays_bind: "stays K x \<Longrightarrow> (\<And>b. K b \<Longrightarrow> stays K (f b)) \<Longrightarrow> stays K (x \<bind> f)"
  by (cases x) simp_all

lemma stays_value: "(\<And>y. stays K (f y)) \<Longrightarrow> stays K ((x :: 'b option) \<bind> f)"
  by (cases x) simp_all

lemma stays_run_ed: "K b \<Longrightarrow> (\<And>r c. K c \<Longrightarrow> stays K (f (r, c))) \<Longrightarrow> stays K (run_ed g b \<bind> f)"
  by (cases "g (a_ed b)") (auto simp: run_ed_def)

lemma stays_on:
  "K b \<Longrightarrow> stays K (on_ed g b)" "K b \<Longrightarrow> stays K (on_cb h b)"
  "K b \<Longrightarrow> stays K (set_status m b)" "K b \<Longrightarrow> stays K (scene_set_language l b)"
  by (auto simp: stays_def on_ed_def on_cb_def set_status_def scene_set_language_def on_hc_def bind_eq_Some_conv)

lemma stays_send: "K b \<Longrightarrow> stays K (send env cmd p n k b)"
  by (auto simp: stays_def send_def bind_eq_Some_conv)

lemma stays_send_line: "K b \<Longrightarrow> stays K (send_line env cmd r k b)"
  by (auto simp: send_line_def intro!: stays_value stays_send)

lemma stays_cursor: "K b \<Longrightarrow> stays K (send_cursor env b)" "K b \<Longrightarrow> stays K (send_cursor_at env r c b)"
  by (auto simp: send_cursor_def send_cursor_at_def intro!: stays_send)

lemma stays_each: "(\<And>x b. K b \<Longrightarrow> stays K (f x b)) \<Longrightarrow> K b \<Longrightarrow> stays K (each f xs b)"
  by (induction xs arbitrary: b) (auto intro!: stays_bind)

lemma stays_block: "K b \<Longrightarrow> stays K (sync_block env r d i b)"
  by (auto simp: sync_block_def intro!: stays_bind stays_send stays_send_line stays_cursor stays_each)

lemma stays_to_peer: "K b \<Longrightarrow> (K b \<Longrightarrow> stays K (f b)) \<Longrightarrow> stays K (to_peer f b)"
  by (simp add: to_peer_def)

lemmas stays_steps = stays_run_ed stays_bind stays_on stays_send stays_send_line stays_cursor stays_block stays_to_peer

lemma stays_out_of_memory: "K b \<Longrightarrow> stays K (out_of_memory b)"
  by (auto simp: out_of_memory_def intro!: stays_steps)

lemma stays_save: "K a \<Longrightarrow> stays K (execute_save env name a)"
  by (cases "fopen_w env name (a_w a)")
    (auto simp: execute_save_def Let_def split: option.splits intro!: stays_value [where x = "file_text _ _"] stays_steps)

lemma stays_open: "K a \<Longrightarrow> stays K (execute_open env name a)"
  by (cases "fopen_r env name (a_w a)")
    (auto simp: execute_open_def Let_def split: option.splits intro!: stays_value [where x = "editor_init _"]
      stays_value [where x = "load_file _ _"] stays_value [where x = "editor_load_finalize _"] stays_steps)

lemma stays_sync: "K a \<Longrightarrow> stays K (execute_sync env a)"
  by (auto simp: execute_sync_def Let_def intro!: stays_value [where x = "command_bar_get_filename _"] stays_steps stays_each)

lemma stays_error: "K a \<Longrightarrow> stays K (show_filetree_error a)"
  by (auto simp: show_filetree_error_def split: option.splits intro!: stays_steps)

lemma stays_open_file: "K a \<Longrightarrow> stays K (open_filetree_file env a)"
  by (auto simp: Let_def open_filetree_file_def commands_open_file_def split: FiletreeResult.splits
      intro!: stays_value [where x = "filetree_enter_selected _ _"] stays_value [where x = "filetree_get_selected_path _ _"]
        stays_bind [where f = "\<lambda>a. Some (render _ a)"] stays_bind [where f = "\<lambda>a. Some (on_ft _ a)"] stays_open stays_error)

lemma stays_filetree: "K a \<Longrightarrow> stays K (dispatch_filetree_mode env ev a)"
  by (auto simp: Let_def dispatch_filetree_mode_def intro!: stays_open_file
        stays_value [where x = "filetree_go_parent _ _"] stays_bind [where f = "\<lambda>a. Some (render _ a)"] stays_error)

lemma stays_edited: "K a \<Longrightarrow> stays K (edited_block env r s d i m a)"
  by (auto simp: edited_block_def intro!: stays_out_of_memory stays_steps)

lemma stays_delete_selected: "K a \<Longrightarrow> stays K (delete_selected env a)"
  by (auto simp: delete_selected_def split: prod.splits intro!: stays_steps stays_edited)

lemma stays_backspace: "K a \<Longrightarrow> stays K (backspace_key env ev a)"
  by (auto simp: backspace_key_def Let_def intro!: stays_delete_selected stays_edited stays_out_of_memory stays_steps)

lemma stays_direction: "K a \<Longrightarrow> stays K (direction_key env ev a)"
  by (auto simp: direction_key_def Let_def intro!: stays_steps)

lemma stays_cut: "K a \<Longrightarrow> stays K (cut_key env a)"
  by (auto simp: cut_key_def intro!: stays_delete_selected stays_steps)

lemma stays_paste: "K a \<Longrightarrow> stays K (paste_key env a)"
proof -
  assume a: "K a"
  have rest: "stays K (run_ed editor_paste b \<bind> (\<lambda>(r, a). case r of
       EDITOR_OK \<Rightarrow> do {
         a \<leftarrow> to_peer (sync_block env s d (editor_get_row_count (a_ed a) - k + 1)) a;
         Some (set_render_ex RENDER_FULL a)
       }
     | EDITOR_ERR_NO_CLIPBOARD \<Rightarrow> do { a \<leftarrow> set_status ''Nothing to paste'' a; Some (render RENDER_STATUS a) }
     | EDITOR_ERR_ALLOC_FAILED \<Rightarrow> out_of_memory a))" if "K b" for b s d k
    by (rule stays_run_ed [OF that]) (auto split: EditorResult.splits intro!: stays_out_of_memory stays_steps)
  show ?thesis
    using a rest by (auto simp: paste_key_def Let_def split: prod.splits intro!: stays_run_ed)
qed

lemma stays_save_key: "K a \<Longrightarrow> stays K (save_key env a)"
  by (auto simp: save_key_def intro!: stays_value [where x = "command_bar_get_filename _"] stays_save stays_steps)

lemma stays_insert: "K a \<Longrightarrow> (\<And>b. K b \<Longrightarrow> K (f b)) \<Longrightarrow> stays K (insert_key env c f a)"
  by (auto simp: insert_key_def intro!: stays_out_of_memory stays_steps)

lemma stays_replace: "K a \<Longrightarrow> stays K (replace_selected env c i a)"
  by (auto simp: replace_selected_def split: prod.splits intro!: stays_steps)

lemma stays_chars: "K a \<Longrightarrow> stays K (enter_key env a)" "K a \<Longrightarrow> stays K (char_key env c a)"
  by (simp_all add: enter_key_def char_key_def stays_replace stays_insert)

lemma stays_command:
  assumes "K a" "fst (split_command raw) \<noteq> ''q''"
  shows "stays K (execute_command env raw a)"
  using assms
  by (cases "split_command raw")
    (auto simp: execute_command_def command_table_def cmd_save_def cmd_open_def cmd_sync_def
      intro!: stays_save stays_open stays_value [where x = "command_bar_get_filename _"] stays_sync stays_steps)

lemma stays_scrollbar: "K a \<Longrightarrow> K (snd (scene_click_scrollbar x y a))"
  by (simp add: scene_click_scrollbar_def Let_def split_beta)

lemma stays_tree_click: "K a \<Longrightarrow> stays K (filetree_commands_mouse env me a \<bind> (\<lambda>(t, a). if t then Some a else f a))"
  if "\<And>b. K b \<Longrightarrow> stays K (f b)"
  by (auto simp: filetree_commands_mouse_def Let_def that bind_assoc split: option.split intro!: stays_bind stays_open_file)

lemma stays_click: "K a \<Longrightarrow> stays K (click_text env me a)"
  by (auto simp: click_text_def Let_def split: option.splits intro!: stays_value [where x = "scene_px_to_text _ _ _"] stays_steps)

lemma stays_mouse: "K a \<Longrightarrow> stays K (commands_dispatch_mouse env me a)"
  by (auto simp: commands_dispatch_mouse_def Let_def split_beta stays_scrollbar
      intro!: stays_tree_click [simplified split_beta] stays_click)

end

section \<open>Every event\<close>

text \<open>If the decision to quit and the number of the peer's lines do not matter either, every event keeps the condition.\<close>

locale program_frame = command_frame K for K :: "'w app \<Rightarrow> bool" +
  assumes K_quit: "K (a\<lparr>quit_flag := q\<rparr>) \<longleftrightarrow> K a" and K_lines: "K (a\<lparr>file_num_lines := n\<rparr>) \<longleftrightarrow> K a"
    and K_line: "K (a\<lparr>lines_contador := n\<rparr>) \<longleftrightarrow> K a"
begin

lemma stays_any_command: "K a \<Longrightarrow> stays K (execute_command env raw a)"
proof (cases "fst (split_command raw) = ''q''")
  case True
  then show "K a \<Longrightarrow> stays K (execute_command env raw a)"
    by (cases "split_command raw") (simp add: execute_command_def command_table_def cmd_quit_def K_quit)
qed (rule stays_command)

lemma stays_key: "K a \<Longrightarrow> stays K (commands_dispatch env ev a)"
proof -
  assume a: "K a"
  have line: "stays K (dispatch_command_mode env ev b)" if "K b" for b
    using that by (auto simp: dispatch_command_mode_def Let_def
        intro!: stays_value [where x = "command_bar_commit _"] stays_any_command stays_steps)
  show ?thesis using a
    by (auto simp: commands_dispatch_def filetree_commands_try_def Let_def K_quit
        intro!: stays_bind stays_filetree line stays_backspace stays_direction stays_cut stays_paste stays_save_key stays_chars stays_steps)
qed

lemma stays_remote: "K a \<Longrightarrow> stays K (remote_insert se a)" "K a \<Longrightarrow> stays K (remote_delete a)" "K a \<Longrightarrow> stays K (remote_move se a)"
  "K a \<Longrightarrow> stays K (remote_block se a)" "K a \<Longrightarrow> stays K (remote_line se a)"
  by (auto simp: remote_insert_def remote_delete_def remote_move_def remote_block_def remote_line_def Let_def
      intro!: stays_value [where x = "aread _ _"] stays_value [where x = "payload16 _ _"] stays_out_of_memory stays_steps)

lemma stays_file: "K a \<Longrightarrow> stays K (file_start se a)" "K a \<Longrightarrow> stays K (file_line se a)"
proof -
  assume a: "K a"
  have "stays K (do { b \<leftarrow> on_cb f c; b \<leftarrow> set_status m b; Some (set_render_ex RENDER_FULL (b\<lparr>remote := True\<rparr>)) })" if "K c" for c f m
    using that by (intro stays_bind stays_on) simp_all
  then show "stays K (file_start se a)" using a K_lines K_line unfolding file_start_def Let_def split_beta
    by (intro stays_value [where x = "editor_init _"] stays_value [where x = "payload16 _ _"] stays_value [where x = "blit _ _ _ _ _"]
        stays_value [where x = "awrite _ _ _"] stays_value [where x = "cstring _"]) simp
  have "stays K (do { b \<leftarrow> set_status m c; b \<leftarrow> on_ed f b; Some (b\<lparr>file_num_lines := 0\<rparr>) })" if "K c" for c f m
    using that by (intro stays_bind stays_on) (simp_all add: K_lines)
  then show "stays K (file_line se a)" using a K_line by (auto simp: file_line_def Let_def intro!: stays_run_ed)
qed

lemma stays_peer: "K a \<Longrightarrow> stays K (commands_dispatch_serial ev a)"
  by (simp add: commands_dispatch_serial_def stays_remote stays_file)

lemma stays_event: "K a \<Longrightarrow> stays K (dispatch_event env ev a)"
  by (cases ev) (simp_all add: dispatch_event_def stays_key stays_mouse stays_peer)

end

text \<open>The screen, the pointer and the layout.\<close>

definition same_screen :: "'w app \<Rightarrow> 'w app \<Rightarrow> bool" where
  "same_screen b a \<longleftrightarrow> a_vd a = a_vd b \<and> a_mc a = a_mc b \<and> a_ms a = a_ms b \<and> a_sc a = a_sc b"

interpretation on_screen: program_frame "same_screen b :: 'w app \<Rightarrow> bool" for b
  by unfold_locales (simp_all add: same_screen_def)

lemma event_same_screen: "dispatch_event env ev a = Some a' \<Longrightarrow> same_screen a a'"
  using on_screen.stays_event [of a a env ev] by (simp add: stays_def same_screen_def)

end
