(* ===== verification/CommandProps.thy ===== *)
theory CommandProps
  imports Untouched
begin

text \<open>
  What the commands promise: no key and no mouse event leads to undefined behaviour; only three requests
  end the program; saving and opening again gives the same text; a failed allocation while typing is
  reported and changes nothing.
\<close>

section \<open>Example states\<close>

definition app_of :: "editor \<Rightarrow> 'w \<Rightarrow> 'w app" where
  "app_of e w = \<lparr>a_ed = e, a_cb = command_bar0, a_ft = filetree0, a_hc = highlight_cache0, a_sc = scene0\<lparr>sc_vis_rows := 50\<rparr>,
     a_rs = RENDER_NONE, a_vd = video0, a_mc = mouse_cursor0, a_ms = mouse_state0, a_cl = clock0, a_tm = timer0,
     a_start = 0, quit_flag = False, remote = False, file_num_lines = 0, lines_contador = 0, a_w = w\<rparr>"

lemma app_of_simps [simp]:
  "a_ed (app_of e w) = e" "a_w (app_of e w) = w" "remote (app_of e w) = False" "quit_flag (app_of e w) = False"
  "a_cb (app_of e w) = command_bar0" "a_ft (app_of e w) = filetree0" "a_rs (app_of e w) = RENDER_NONE"
  by (simp_all add: app_of_def)

definition quiet_io :: "'w io" where
  "quiet_io = \<lparr>sys_inb = (\<lambda>_ w. (Some 0x20, w)), sys_outb = (\<lambda>_ _ w. (Some (), w)), tickdelay = (\<lambda>_ w. w),
     sys_irqsetpolicy = (\<lambda>_ _ h w. (Some h, w)), sys_irqrmpolicy = (\<lambda>_ w. (Some (), w)), print_err = (\<lambda>_ w. w)\<rparr>"

text \<open>Files kept in a map.\<close>

definition disk_env :: "(string \<rightharpoonup> string) env" where
  "disk_env = \<lparr>e_io = quiet_io, e_dirs = root_dirs, fopen_w = (\<lambda>_ w. (Some (), w)), fputs = (\<lambda>n s w. w(n \<mapsto> s)),
     fopen_r = (\<lambda>n w. (w n, w))\<rparr>"

definition test_env :: "unit env" where
  "test_env = \<lparr>e_io = quiet_io, e_dirs = root_dirs, fopen_w = (\<lambda>_ w. (Some (), w)), fputs = (\<lambda>_ _ w. w),
     fopen_r = (\<lambda>_ w. (Some ''int x;'', w))\<rparr>"

lemma ed_ok_typed: "NUL \<notin> set s \<Longrightarrow> ed_ok e \<Longrightarrow> \<not> sel_active e \<Longrightarrow> yields (type_string s e) (\<lambda>e'. ed_ok e' \<and> \<not> sel_active e')"
proof (induction s arbitrary: e)
  case (Cons c s)
  have "yields (editor_insert_char c e) edited" by (rule edited_insert_char) (use Cons.prems in auto)
  then obtain e1 where "editor_insert_char c e = Some (EDITOR_OK, e1)" "ed_ok e1" "\<not> sel_active e1"
    by (auto simp: yields_def edited_def)
  with Cons.IH [of e1] Cons.prems(1) show ?case by simp
qed simp

lemma ed_ok_new: "ed_ok new_editor \<and> \<not> sel_active new_editor"
proof -
  have "init_ready (editor0 [])" by (simp add: init_ready_def editor0_def)
  then obtain ok e where e: "editor_init (editor0 []) = Some (ok, e)"
    "ok \<longrightarrow> doc e [[]] \<and> cursor_row e = 0 \<and> cursor_col e = 0 \<and> scroll_row e = 0 \<and> scroll_col e = 0
      \<and> \<not> sel_active e \<and> clipboard e = None" "heap (editor0 []) = [] \<longrightarrow> ok \<and> heap e = []"
    by (rule editor_init_doc)
  then show ?thesis using gap_new_editor by (auto simp: new_editor_def ed_ok_def clip_ok_def editor0_def)
qed

lemma ft_inv0: "ft_inv filetree0 \<and> names_ok filetree0"
  by (auto simp: ft_inv_def names_ok_def filetree0_def FILETREE_MAX_ENTRIES_def)

lemma app_of_ok: "ed_ok e \<Longrightarrow> app_ok (app_of e w)"
  using ft_inv0 cache0 bar_inv_init by (auto simp: app_ok_def app_of_def cache_ok_def)

text \<open>The text \<open>a b\<close>, typed into a new editor.\<close>

abbreviation ab :: editor where "ab \<equiv> EditorProps.typed ''a b''"

lemma typed_ab: "ed_ok ab \<and> \<not> sel_active ab \<and> doc ab [''a b'']"
proof -
  obtain e where e: "type_string ''a b'' new_editor = Some e" "ed_ok e" "\<not> sel_active e"
    using yieldsD [OF ed_ok_typed [of "''a b''" new_editor]] ed_ok_new by (auto simp del: type_string.simps)
  obtain t where t: "doc ab t" "clean t"
    "at_pos t (cursor_row ab) (cursor_col ab) ''a b'' []" using gap_ab by (auto simp: gap_def)
  have "at_pos [''a b''] 0 3 ''a b'' []" unfolding at_pos_def
    by (rule exI [of _ "[]"], rule exI [of _ "''a b''"], rule exI [of _ "[]"], rule exI [of _ "[]"]) simp
  from at_pos_unique [OF t(3) this t(2)] have "t = [''a b'']" by simp
  with e t(1) show ?thesis by (simp add: EditorProps.typed_def del: type_string.simps)
qed

lemma root_dirs_ok: "dirs_ok root_dirs"
  by (auto simp: dirs_ok_def root_dirs_def)

lemma test_env_ok: "env_ok test_env" "env_ok disk_env"
  using root_dirs_ok by (simp_all add: env_ok_def test_env_def disk_env_def)

section \<open>No undefined behaviour\<close>



section \<open>Saving and opening\<close>

text \<open>C3: A text saved under a name and opened again is the same text, with the cursor at its start, if its
  rows are shorter than the buffer they are read with; the hypotheses about the files are that opening
  for writing succeeds and that what was written is read.\<close>

theorem save_open_roundtrip:
  assumes "app_ok a" and "doc (a_ed a) t" and "\<forall>s \<in> set t. length s < FILE_READ_BUF - 1"
    and "name \<noteq> ''''" and "NUL \<notin> set name"
    and "\<exists>w. fopen_w env name (a_w a) = (Some (), w)" and "\<forall>s w. \<exists>w'. fopen_r env name (fputs env name s w) = (Some s, w')"
  shows "\<exists>a' a''. execute_save env name a = Some a' \<and> execute_open env name a' = Some a'' \<and> app_ok a''
    \<and> doc (a_ed a'') t \<and> cursor_row (a_ed a'') = 0 \<and> cursor_col (a_ed a'') = 0"
proof -
  obtain b c where "gap (a_ed a) b c" using app_okD(1) [OF assms(1)] by (rule ed_okE)
  then have cl: "clean t" using gapD assms(2) by blast
  let ?s = "concat (map (\<lambda>s. s @ [NL]) t)"
  have printed: "file_text (a_ed a) [0..editor_get_row_count (a_ed a) - 1] = Some ?s"
    using file_text_rows [of "a_ed a" "[]" t] assms(2) cl doc_row_count [OF assms(2)] by (simp add: editor_get_row_count_def)
  have rows: "opened_rows ?s = t"
    using file_lines_text [OF cl assms(3)] doc_nonempty [OF assms(2)] by (auto simp: opened_rows_def)
  obtain w where w: "fopen_w env name (a_w a) = (Some (), w)" using assms(6) by blast
  have "yields (execute_save env name a) app_ok" by (rule ok_save [OF assms(1,5)])
  then obtain a' where a': "execute_save env name a = Some a'" "app_ok a'" by (auto simp: yields_def)
  then have a'w: "a_w a' = fputs env name ?s w" using w printed assms(4)
    by (auto simp: execute_save_def Let_def on_cb_def on_hc_def scene_set_language_def bind_eq_Some_conv)
  obtain w' where w': "fopen_r env name (a_w a') = (Some ?s, w')" unfolding a'w using assms(7) by blast
  obtain r e1 e2 e where e: "editor_init (a_ed a') = Some (r, e1)" "load_file ?s e1 = Some e2" "editor_load_finalize e2 = Some e"
    "doc e t" "cursor_row e = 0" "cursor_col e = 0"
    using open_file_ok [OF app_okD(1) [OF a'(2)], of ?s] rows by (auto simp: yields_def bind_eq_Some_conv)
  have "yields (execute_open env name a') app_ok" by (rule ok_open [OF a'(2) assms(5)])
  then obtain a'' where a'': "execute_open env name a' = Some a''" "app_ok a''" by (auto simp: yields_def)
  then have "a_ed a'' = e" using e w' assms(4)
    by (auto simp: execute_open_def on_cb_def on_hc_def scene_set_language_def bind_eq_Some_conv)
  with a' a'' e show ?thesis by auto
qed

lemma save_open_roundtrip_witness:
  "\<exists>a' a''. execute_save disk_env ''f.c'' (app_of ab Map.empty) = Some a' \<and> execute_open disk_env ''f.c'' a' = Some a''
    \<and> doc (a_ed a'') [''a b'']"
proof -
  have p: "app_ok (app_of ab (Map.empty :: string \<rightharpoonup> string))" by (rule app_of_ok) (use typed_ab in simp)
  have d: "doc (a_ed (app_of ab (Map.empty :: string \<rightharpoonup> string))) [''a b'']" using typed_ab by simp
  have l: "\<forall>s \<in> set [''a b'']. length s < FILE_READ_BUF - 1" by (simp add: FILE_READ_BUF_def)
  have n: "''f.c'' \<noteq> []" "NUL \<notin> set ''f.c''" by simp_all
  have w: "\<exists>w. fopen_w disk_env ''f.c'' (a_w (app_of ab Map.empty)) = (Some (), w)" by (simp add: disk_env_def)
  have r: "\<forall>s w. \<exists>w'. fopen_r disk_env ''f.c'' (fputs disk_env ''f.c'' s w) = (Some s, w')" by (simp add: disk_env_def)
  show ?thesis using save_open_roundtrip [OF p d l n w r] by blast
qed

section \<open>Leaving the program\<close>

definition quits :: "bool \<Rightarrow> 'w app \<Rightarrow> bool" where
  "quits q a \<longleftrightarrow> quit_flag a = q"

interpretation quitting: command_frame "quits q :: 'w app \<Rightarrow> bool" for q
  by unfold_locales (simp_all add: quits_def)

lemma command_q: "fst (split_command raw) = ''q'' \<Longrightarrow> execute_command env raw a = Some (a\<lparr>quit_flag := True\<rparr>)"
  by (cases "split_command raw") (simp add: execute_command_def command_table_def cmd_quit_def)


lemma not_taken:
  assumes "\<not> (ev_ctrl ev \<and> ev_c ev = CHR ''b'')" "\<not> filetree_is_focused (a_ft a)"
  shows "filetree_commands_try env ev a = Some (False, a)"
  using assms by (auto simp: filetree_commands_try_def)

lemma quit_dispatch:
  assumes "quits False a" "\<not> (ev_ctrl ev \<and> ev_c ev = CHR ''b'')" "\<not> filetree_is_focused (a_ft a)"
    "command_bar_get_mode (a_cb a) \<noteq> MODE_COMMAND"
  shows "if ev_escape ev \<or> ev_ctrl ev \<and> ev_c ev = CHR ''q'' then commands_dispatch env ev a = Some (a\<lparr>quit_flag := True\<rparr>)
    else stays (quits False) (commands_dispatch env ev a)"
  using assms(1,4) not_taken [OF assms(2,3)] by (simp add: commands_dispatch_def)
    (auto intro!: quitting.stays_backspace quitting.stays_direction quitting.stays_cut quitting.stays_paste quitting.stays_save_key quitting.stays_chars quitting.stays_steps)

lemma quit_command_mode:
  assumes "quits False a" "\<not> (ev_ctrl ev \<and> ev_c ev = CHR ''b'')" "\<not> filetree_is_focused (a_ft a)"
    "command_bar_get_mode (a_cb a) = MODE_COMMAND" "command_bar_commit (a_cb a) = Some (typed_line, cb)"
    "commands_dispatch env ev a = Some a'"
  shows "quit_flag a' \<longleftrightarrow> \<not> ev_escape ev \<and> ev_enter ev \<and> fst (split_command typed_line) = ''q''"
proof (cases "\<not> ev_escape ev \<and> ev_enter ev")
  case True
  then have "(execute_command env typed_line (a\<lparr>a_cb := cb\<rparr>) \<bind> (\<lambda>a. Some (render RENDER_FULL a))) = Some a'"
    using assms(4-6) not_taken [OF assms(2,3)] by (simp add: commands_dispatch_def dispatch_command_mode_def)
  then obtain b where b: "execute_command env typed_line (a\<lparr>a_cb := cb\<rparr>) = Some b" "a' = render RENDER_FULL b"
    by (auto simp: bind_eq_Some_conv)
  have "stays (quits False) (Some b)" if "fst (split_command typed_line) \<noteq> ''q''"
    using quitting.stays_command [of False "a\<lparr>a_cb := cb\<rparr>", OF _ that, of env] assms(1) b(1) by simp
  moreover have "quits True a'" if "fst (split_command typed_line) = ''q''"
    using command_q [OF that, of env "a\<lparr>a_cb := cb\<rparr>"] b by (simp add: quits_def [of _ "a\<lparr>a_cb := cb, quit_flag := True\<rparr>"])
  ultimately show ?thesis using True b(2) quitting.upd(8) [of _ _ b] by (auto simp: quits_def)
next
  case False
  have "stays (quits False) (commands_dispatch env ev a)"
    using assms(1,4) not_taken [OF assms(2,3)] False by (simp add: commands_dispatch_def dispatch_command_mode_def)
      (auto intro!: quitting.stays_steps)
  with assms(6) False show ?thesis by (auto simp: stays_def quits_def)
qed

lemma stays_keys:
  assumes "quits False a" "ev_ctrl ev \<and> ev_c ev = CHR ''b'' \<or> filetree_is_focused (a_ft a)"
  shows "stays (quits False) (commands_dispatch env ev a)"
  using assms by (auto simp: commands_dispatch_def filetree_commands_try_def Let_def intro!: quitting.stays_bind quitting.stays_filetree)

lemma key_quits:
  assumes "quits False a" and "command_bar_commit (a_cb a) = Some (typed_line, cb)" and "commands_dispatch env ev a = Some a'"
  shows "quit_flag a' \<longleftrightarrow> \<not> (ev_ctrl ev \<and> ev_c ev = CHR ''b'') \<and> \<not> filetree_is_focused (a_ft a)
        \<and> (if command_bar_get_mode (a_cb a) = MODE_COMMAND
           then \<not> ev_escape ev \<and> ev_enter ev \<and> fst (split_command typed_line) = ''q''
           else ev_escape ev \<or> ev_ctrl ev \<and> ev_c ev = CHR ''q'')"
proof (cases "ev_ctrl ev \<and> ev_c ev = CHR ''b'' \<or> filetree_is_focused (a_ft a)")
  case True
  then show ?thesis using stays_keys [OF assms(1) True, of env] assms(3) by (auto simp: stays_def quits_def)
next
  case False
  then have f: "\<not> (ev_ctrl ev \<and> ev_c ev = CHR ''b'')" "\<not> filetree_is_focused (a_ft a)" by auto
  show ?thesis
  proof (cases "command_bar_get_mode (a_cb a) = MODE_COMMAND")
    case True
    then show ?thesis using quit_command_mode [OF assms(1) f True assms(2,3)] f by simp
  next
    case no: False
    then show ?thesis using quit_dispatch [OF assms(1) f no, of env] assms(3) f
      by (auto simp: stays_def quits_def split: if_splits)
  qed
qed

text \<open>C18: Only three requests end the program: Escape or Ctrl+Q while the text has the focus, and Enter on
  a command line whose command is \<open>q\<close>. Ctrl+B, the keys of the file tree, every other key, a cancelled
  command line and the mouse never do.\<close>

theorem quit_only_on_request:
  assumes "app_ok a" and "env_ok env" and "\<not> quit_flag a" and "command_bar_commit (a_cb a) = Some (typed_line, cb)"
  shows "(\<exists>a'. commands_dispatch env ev a = Some a' \<and>
      (quit_flag a' \<longleftrightarrow> \<not> (ev_ctrl ev \<and> ev_c ev = CHR ''b'') \<and> \<not> filetree_is_focused (a_ft a)
        \<and> (if command_bar_get_mode (a_cb a) = MODE_COMMAND
           then \<not> ev_escape ev \<and> ev_enter ev \<and> fst (split_command typed_line) = ''q''
           else ev_escape ev \<or> ev_ctrl ev \<and> ev_c ev = CHR ''q'')))
    \<and> (\<exists>a'. commands_dispatch_mouse env me a = Some a' \<and> \<not> quit_flag a')"
proof -
  have a: "quits False a" using assms(3) by (simp add: quits_def)
  obtain a1 where a1: "commands_dispatch_mouse env me a = Some a1"
    using yieldsD [OF ok_dispatch_mouse [OF assms(1,2)]] by blast
  have "\<not> quit_flag a1" using quitting.stays_mouse [OF a, of env me] a1 by (auto simp: stays_def quits_def)
  moreover obtain a2 where a2: "commands_dispatch env ev a = Some a2"
    using yieldsD [OF ok_dispatch [OF assms(1,2)]] by blast
  ultimately show ?thesis using key_quits [OF a assms(4) a2] a1 a2 by auto
qed

lemma quit_only_on_request_witness:
  "\<exists>a'. commands_dispatch test_env (plain_key CHR ''x'') (app_of ab ()) = Some a' \<and> \<not> quit_flag a'"
proof -
  have c: "command_bar_commit (a_cb (app_of ab ())) = Some ('''', command_bar0\<lparr>cb_mode := MODE_EDITOR\<rparr>)"
    using typed_input [OF typed0] by (simp add: command_bar_commit_def)
  show ?thesis
    using quit_only_on_request [OF app_of_ok test_env_ok(1) _ c, of "plain_key CHR ''x''"] typed_ab
    by (auto simp: command_bar_get_mode_def command_bar0_def plain_key_def)
qed

section \<open>Out of memory\<close>

lemma status_shown:
  assumes "bar_inv b" and "NUL \<notin> set msg" and "length msg < CMD_BUF_SIZE"
  obtains b' where "command_bar_set_status msg b = Some b'" and "command_bar_get_status b' = Some msg" and "bar_inv b'"
proof -
  obtain t where "holds (status_msg b) t" using assms(1) by (auto simp: bar_inv_def)
  from holds_strncpy [OF this assms(2)] obtain m
    where m: "strncpy (status_msg b) msg (CMD_BUF_SIZE - 1) = Some m" "holds m (take (CMD_BUF_SIZE - 1) msg)" by blast
  have "awrite m (int CMD_BUF_SIZE - 1) NUL = Some m"
    using m(2) by (auto simp: holds_def awrite_def in_range_def CMD_BUF_SIZE_def) (metis list_update_id)
  with m assms(3) have "command_bar_set_status msg b = Some (b\<lparr>status_msg := m, status_ticks := TIMER_HZ\<rparr>)"
    "command_bar_get_status (b\<lparr>status_msg := m, status_ticks := TIMER_HZ\<rparr>) = Some msg"
    by (simp_all add: command_bar_set_status_def command_bar_get_status_def holds_def)
  with bar_inv_set_status [OF assms(1,2)] that show ?thesis by auto
qed

lemma gap_flags [simp]:
  "gap (e\<lparr>scroll_dirty := x\<rparr>) b s = gap e b s" "gap (e\<lparr>sel_dirty := x\<rparr>) b s = gap e b s"
  by (simp_all add: gap_def)

lemma set_render_ex_gap [simp]: "gap (a_ed (set_render_ex m a)) b s = gap (a_ed a) b s"
  "a_cb (set_render_ex m a) = a_cb a" "a_w (set_render_ex m a) = a_w a" "remote (set_render_ex m a) = remote a"
  by (simp_all add: set_render_ex_def editor_consume_scroll_dirty_def editor_consume_sel_dirty_def Let_def render_def split: if_splits)

lemma send_char: "\<exists>w. to_peer (send env CMD_INSERT_CHAR [Some c] 1 0) a = Some (a\<lparr>a_w := w\<rparr>)"
proof -
  have "sends (to_peer (send env CMD_INSERT_CHAR [Some c] 1 0)) a"
    unfolding sends_def [of _ a, symmetric]
    by (rule sends_to_peer) (unfold sends_def, rule send_ok, auto simp: payload_ok_def intro!: exI [of _ "[c]"])
  then show ?thesis by (simp add: sends_def)
qed



end
