(* ===== verification/Subscriptions.thy ===== *)
theory Subscriptions
  imports Interrupts CommandProps
begin

text \<open>
  The interrupt policies of the kernel: what \<open>subscribe_interrupts\<close> sets when it succeeds is what
  \<open>unsubscribe_interrupts\<close> removes, and when it fails, at whatever step, nothing stays set.
\<close>

section \<open>The kernel's policies\<close>

text \<open>
  What the drivers rely on of the kernel, with \<open>hooks w\<close> the policies in force: setting one gives it a new
  identification or fails and changes nothing, removing one that is in force succeeds, and no other call
  touches them.
\<close>

definition keeps :: "('w \<Rightarrow> int set) \<Rightarrow> ('a, 'w) call \<Rightarrow> bool" where
  "keeps hooks m \<longleftrightarrow> (\<forall>w. hooks (snd (m w)) = hooks w)"

definition kernel_policies :: "'w io \<Rightarrow> ('w \<Rightarrow> int set) \<Rightarrow> bool" where
  "kernel_policies io hooks \<longleftrightarrow>
     (\<forall>l p h w. case sys_irqsetpolicy io l p h w of
        (None, w') \<Rightarrow> hooks w' = hooks w
      | (Some h', w') \<Rightarrow> h' \<notin> hooks w \<and> hooks w' = insert h' (hooks w))
     \<and> (\<forall>h w. h \<in> hooks w \<longrightarrow> (\<exists>w'. sys_irqrmpolicy io h w = (Some (), w') \<and> hooks w' = hooks w - {h}))
     \<and> (\<forall>p. keeps hooks (sys_inb io p)) \<and> (\<forall>p v. keeps hooks (sys_outb io p v))
     \<and> (\<forall>n w. hooks (tickdelay io n w) = hooks w) \<and> (\<forall>m w. hooks (print_err io m w) = hooks w)"

lemma keeps_on_ok: "keeps hooks m \<Longrightarrow> keeps hooks e \<Longrightarrow> (\<And>x. keeps hooks (k x)) \<Longrightarrow> keeps hooks (on_ok m e k)"
  unfolding keeps_def on_ok_def by (auto split: prod.splits option.splits) (metis snd_conv)+

lemma keeps_results: "keeps hooks (succeed x)" "keeps hooks return1"
  by (simp_all add: keeps_def succeed_def return1_def)

lemma keeps_fail: "kernel_policies io hooks \<Longrightarrow> keeps hooks (fail io e msg)"
  by (cases e) (simp_all add: kernel_policies_def keeps_def fail_def print_err_type_def)

lemma keeps_ports:
  assumes "kernel_policies io hooks"
  shows "keeps hooks (util_sys_inb io p)" "keeps hooks (sys_outb io p v)"
  using assms unfolding kernel_policies_def keeps_def util_sys_inb_def
  by (auto split: prod.splits option.splits) (metis snd_conv)+

lemma keeps_delayed: "kernel_policies io hooks \<Longrightarrow> keeps hooks m \<Longrightarrow> keeps hooks (\<lambda>w. m (tickdelay io n w))"
  by (simp add: kernel_policies_def keeps_def)

lemma keeps_input_tries: "kernel_policies io hooks \<Longrightarrow> keeps hooks (kbc_input_tries io n)"
proof (induction n)
  case 0
  then show ?case using keeps_fail [OF 0] by (simp add: keeps_def)
next
  case (Suc n)
  have "kbc_input_tries io (Suc n) = on_ok (util_sys_inb io KBC_STATUS_REG) (fail io ERR_KBC ''kbc_wait_input_empty: failed to read status'')
       (\<lambda>status. if status AND KBC_ST_IBF = 0 then succeed () else (\<lambda>w. kbc_input_tries io n (tickdelay io KBC_RETRY_DELAY w)))"
    by (rule ext) simp
  then show ?case using Suc by (auto intro!: keeps_on_ok keeps_results keeps_fail keeps_ports keeps_delayed)
qed

lemma keeps_output_tries: "kernel_policies io hooks \<Longrightarrow> keeps hooks (kbc_output_tries io n)"
proof (induction n)
  case 0
  then show ?case using keeps_fail [OF 0] by (simp add: keeps_def)
next
  case (Suc n)
  have "kbc_output_tries io (Suc n) = on_ok (util_sys_inb io KBC_STATUS_REG) (fail io ERR_KBC ''kbc_wait_output_full: failed to read status'')
       (\<lambda>status. if status AND KBC_ST_OBF \<noteq> 0
                 then on_ok (util_sys_inb io KBC_DATA_REG) (fail io ERR_KBC ''kbc_wait_output_full: failed to read data'') succeed
                 else (\<lambda>w. kbc_output_tries io n (tickdelay io KBC_RETRY_DELAY w)))"
    by (rule ext) simp
  then show ?case using Suc by (auto intro!: keeps_on_ok keeps_results keeps_fail keeps_ports keeps_delayed)
qed

lemma keeps_write_tries: "kernel_policies io hooks \<Longrightarrow> keeps hooks (write_tries io cmd n)"
proof (induction n)
  case 0
  then show ?case using keeps_fail [OF 0] by (simp add: keeps_def)
next
  case (Suc n)
  note k = keeps_on_ok keeps_results keeps_fail [OF Suc.prems] keeps_ports [OF Suc.prems]
    keeps_input_tries [OF Suc.prems] keeps_output_tries [OF Suc.prems] Suc.IH [OF Suc.prems]
  have "write_tries io cmd (Suc n) =
     on_ok (kbc_wait_input_empty io) (fail io ERR_MOUSE ''mouse_write_command: input buffer not empty (write cmd)'') (\<lambda>_.
     on_ok (sys_outb io KBC_STATUS_REG MOUSE_COMMAND) (fail io ERR_MOUSE ''mouse_write_command: failed to send mouse command'') (\<lambda>_.
     on_ok (kbc_wait_input_empty io) (fail io ERR_MOUSE ''mouse_write_command: input buffer not empty (write data)'') (\<lambda>_.
     on_ok (sys_outb io KBC_DATA_REG (ucast cmd)) (fail io ERR_MOUSE ''mouse_write_command: failed to write command'') (\<lambda>_.
     on_ok (kbc_wait_output_full io) (fail io ERR_MOUSE ''mouse_write_command: failed to read response'') (\<lambda>response.
     if response = SUCCESS then succeed ()
     else if response \<noteq> FAILURE then fail io ERR_MOUSE ''mouse_write_command: unexpected response''
     else (\<lambda>w. write_tries io cmd n w))))))"
    by (rule ext) simp
  then show ?case by (auto simp: kbc_wait_input_empty_def kbc_wait_output_full_def intro!: k)
qed

lemma keeps_mouse_commands:
  assumes "kernel_policies io hooks"
  shows "keeps hooks (mouse_write_command io c)" "keeps hooks (write_commands io cs)"
    "keeps hooks (my_mouse_enable_data_reporting io)" "keeps hooks (my_mouse_disable_data_reporting io)"
proof -
  show w: "keeps hooks (mouse_write_command io c)" for c
    using keeps_write_tries [OF assms] by (simp add: mouse_write_command_def)
  show "keeps hooks (write_commands io cs)"
  proof (induction cs)
    case (Cons c cs)
    have "write_commands io (c # cs) = on_ok (mouse_write_command io c) return1 (\<lambda>_. write_commands io cs)" by (rule ext) simp
    then show ?case using Cons by (auto intro!: keeps_on_ok keeps_results w)
  qed (simp add: keeps_def succeed_def)
  show "keeps hooks (my_mouse_enable_data_reporting io)" "keeps hooks (my_mouse_disable_data_reporting io)"
    by (simp_all add: my_mouse_enable_data_reporting_def my_mouse_disable_data_reporting_def w)
qed

section \<open>Setting and removing\<close>

lemma set_policy:
  assumes "kernel_policies io hooks"
    and "on_ok (sys_irqsetpolicy io l p h) (fail io e msg) succeed w = (r, w')"
  shows "case r of None \<Rightarrow> hooks w' = hooks w | Some h' \<Rightarrow> h' \<notin> hooks w \<and> hooks w' = insert h' (hooks w)"
proof -
  obtain r1 w1 where s: "sys_irqsetpolicy io l p h w = (r1, w1)" by fastforce
  have k: "case r1 of None \<Rightarrow> hooks w1 = hooks w | Some h' \<Rightarrow> h' \<notin> hooks w \<and> hooks w1 = insert h' (hooks w)"
  proof -
    have "case sys_irqsetpolicy io l p h w of (None, w') \<Rightarrow> hooks w' = hooks w
      | (Some h', w') \<Rightarrow> h' \<notin> hooks w \<and> hooks w' = insert h' (hooks w)"
      by (rule assms(1) [unfolded kernel_policies_def, THEN conjunct1, rule_format])
    with s show ?thesis by (cases r1) simp_all
  qed
  show ?thesis
  proof (cases r1)
    case None
    then have "(r, w') = fail io e msg w1" using assms(2) s by simp
    then have "r = None" "hooks w' = hooks w1" using keeps_fail [OF assms(1), of e msg] by (simp_all add: fail_def keeps_def)
    then show ?thesis using k None by simp
  next
    case (Some h')
    then show ?thesis using assms(2) s k by (auto simp: succeed_def)
  qed
qed

lemma remove_policy:
  assumes "kernel_policies io hooks" and "h \<in> hooks w"
  obtains w' where "on_ok (sys_irqrmpolicy io h) f succeed w = (Some (), w')" and "hooks w' = hooks w - {h}"
  using assms(1) [unfolded kernel_policies_def, THEN conjunct2, THEN conjunct1, rule_format, OF assms(2)] that
  by (auto simp: succeed_def)

text \<open>The policies in force, and the identifications the four drivers remember.\<close>

definition in_force :: "('w \<Rightarrow> int set) \<Rightarrow> 'w system \<Rightarrow> int set" where
  "in_force hooks s = hooks (a_w (s_app s))"

datatype device = DEV_TIMER | DEV_KEYBOARD | DEV_MOUSE | DEV_SERIAL

definition hook_id :: "'w system \<Rightarrow> device \<Rightarrow> int" where
  "hook_id s d = (case d of DEV_TIMER \<Rightarrow> tm_hook_id (a_tm (s_app s)) | DEV_KEYBOARD \<Rightarrow> kd_hook_id (s_kd s)
     | DEV_MOUSE \<Rightarrow> md_hook_id (s_md s) | DEV_SERIAL \<Rightarrow> sp_hook_id (s_sp s))"

text \<open>The result of one of the four functions that subscribe, and of one of those that unsubscribe.\<close>

definition subscribes :: "('w \<Rightarrow> int set) \<Rightarrow> device \<Rightarrow> 'w system \<Rightarrow> u8 \<times> bool \<times> 'w system \<Rightarrow> bool" where
  "subscribes hooks d s = (\<lambda>(bit_no, ok, s'). bit_no = word_of_int (hook_id s d) \<and> (\<forall>d'. d' \<noteq> d \<longrightarrow> hook_id s' d' = hook_id s d')
     \<and> (if ok then hook_id s' d \<notin> in_force hooks s \<and> in_force hooks s' = insert (hook_id s' d) (in_force hooks s)
        else in_force hooks s' = in_force hooks s))"

definition same_policies :: "('w \<Rightarrow> int set) \<Rightarrow> 'w system \<Rightarrow> 'w system \<Rightarrow> bool" where
  "same_policies hooks s s' \<longleftrightarrow> in_force hooks s' = in_force hooks s \<and> hook_id s' = hook_id s"

definition stops :: "('w \<Rightarrow> int set) \<Rightarrow> device \<Rightarrow> ('w system \<Rightarrow> (unit, 'w) call) \<Rightarrow> bool" where
  "stops hooks d f \<longleftrightarrow> (\<forall>s. hook_id s d \<in> in_force hooks s \<longrightarrow>
     (\<exists>w. f s (a_w (s_app s)) = (Some (), w) \<and> hooks w = in_force hooks s - {hook_id s d}))"

lemma subscribe_steps:
  assumes "kernel_policies io hooks"
  shows "subscribes hooks DEV_TIMER s (subscribe_timer io s)" "subscribes hooks DEV_KEYBOARD s (subscribe_keyboard io s)"
    "subscribes hooks DEV_MOUSE s (subscribe_mouse io s)" "subscribes hooks DEV_SERIAL s (subscribe_serial io s)"
proof -
  show "subscribes hooks DEV_TIMER s (subscribe_timer io s)"
    unfolding subscribe_timer_def timer_subscribe_int_def Let_def
    using set_policy [OF assms, of TIMER0_IRQ IRQ_REENABLE_ONLY "tm_hook_id (a_tm (s_app s))" ERR_TIMER
        "''timer_subscribe_int: irqsetpolicy failed''" "a_w (s_app s)"]
    by (auto simp: subscribes_def in_force_def hook_id_def split: prod.splits option.splits device.splits)
  show "subscribes hooks DEV_KEYBOARD s (subscribe_keyboard io s)"
    unfolding subscribe_keyboard_def keyboard_subscribe_int_def Let_def
    using set_policy [OF assms, of KEYBOARD_IRQ IRQ_REENABLE_EXCLUSIVE "kd_hook_id (s_kd s)" ERR_KEYBOARD
        "''keyboard_subscribe_int: sys_irqsetpolicy failed''" "a_w (s_app s)"]
    by (auto simp: subscribes_def in_force_def hook_id_def split: prod.splits option.splits device.splits)
  show "subscribes hooks DEV_MOUSE s (subscribe_mouse io s)"
    unfolding subscribe_mouse_def mouse_subscribe_int_def Let_def
    using set_policy [OF assms, of KBD_AUX_IRQ IRQ_REENABLE_EXCLUSIVE "md_hook_id (s_md s)" ERR_MOUSE
        "''mouse_subscribe_int: sys_irqsetpolicy failed''" "a_w (s_app s)"]
    by (auto simp: subscribes_def in_force_def hook_id_def split: prod.splits option.splits device.splits)
  show "subscribes hooks DEV_SERIAL s (subscribe_serial io s)"
    unfolding subscribe_serial_def serial_subscribe_int_def Let_def
    using set_policy [OF assms, of COM1_IRQ "IRQ_REENABLE + IRQ_EXCLUSIVE" "sp_hook_id (s_sp s)" ERR_SERIAL
        "''serial_subscribe_int: sys_irqsetpolicy failed''" "a_w (s_app s)"]
    by (auto simp: subscribes_def in_force_def hook_id_def split: prod.splits option.splits device.splits)
qed

lemma stop_steps:
  assumes "kernel_policies io hooks"
  shows "stops hooks DEV_TIMER (stop_timer io)" "stops hooks DEV_KEYBOARD (stop_keyboard io)"
    "stops hooks DEV_MOUSE (stop_mouse io)" "stops hooks DEV_SERIAL (stop_serial io)"
  unfolding stops_def in_force_def hook_id_def stop_timer_def timer_unsubscribe_int_def stop_keyboard_def
    keyboard_unsubscribe_int_def stop_mouse_def mouse_unsubscribe_int_def stop_serial_def serial_unsubscribe_int_def
  by (auto elim!: remove_policy [OF assms])

lemma ignoring_stop:
  assumes "stops hooks d f" and "hook_id s d \<in> in_force hooks s"
  shows "in_force hooks (ignoring io f s) = in_force hooks s - {hook_id s d}" and "hook_id (ignoring io f s) = hook_id s"
proof -
  obtain w where "f s (a_w (s_app s)) = (Some (), w)" "hooks w = in_force hooks s - {hook_id s d}"
    using assms unfolding stops_def by blast
  then show "in_force hooks (ignoring io f s) = in_force hooks s - {hook_id s d}" "hook_id (ignoring io f s) = hook_id s"
    by (auto simp: ignoring_def in_force_def hook_id_def fun_eq_iff split: device.splits)
qed

lemma quiet_steps:
  assumes "kernel_policies io hooks"
  shows "same_policies hooks s (failing io e msg s)" "same_policies hooks s (snd (enable_wheel io s))"
    "same_policies hooks s (snd (calling (\<lambda>_. my_mouse_enable_data_reporting io) s))"
    "same_policies hooks s (ignoring io (\<lambda>_. my_mouse_disable_data_reporting io) s)"
proof -
  note k = keeps_mouse_commands [OF assms]
  have app: "same_policies hooks s (s\<lparr>s_app := (s_app s)\<lparr>a_w := w\<rparr>\<rparr>)" if "hooks w = hooks (a_w (s_app s))" for w
    using that by (auto simp: same_policies_def in_force_def hook_id_def fun_eq_iff split: device.splits)
  show "same_policies hooks s (failing io e msg s)"
    unfolding failing_def ignoring_def by (rule app) (simp add: keeps_fail [OF assms, unfolded keeps_def, rule_format])
  show "same_policies hooks s (ignoring io (\<lambda>_. my_mouse_disable_data_reporting io) s)"
    unfolding ignoring_def by (rule app) (use k(4) in \<open>simp add: keeps_def\<close>)
  show "same_policies hooks s (snd (calling (\<lambda>_. my_mouse_enable_data_reporting io) s))"
    using app k(3) by (auto simp: calling_def keeps_def split: prod.split) (metis snd_conv)
  obtain ok d w where e: "mouse_enable_wheel_mode io (s_md s) (a_w (s_app s)) = ((ok, d), w)" by (metis prod.exhaust)
  have f: "keeps hooks (on_ok (write_commands io cs) return1 (\<lambda>_. on_ok (kbc_wait_output_full io) (fail io e' m) succeed))" for cs e' m
    using keeps_output_tries [OF assms] unfolding kbc_wait_output_full_def
    by (intro keeps_on_ok k keeps_results keeps_fail [OF assms]) blast+
  have "hooks w = hooks (a_w (s_app s)) \<and> md_hook_id d = md_hook_id (s_md s)"
    using e f k(1) unfolding mouse_enable_wheel_mode_def keeps_def
    by (auto simp: Let_def split: prod.splits option.splits) (metis snd_conv)+
  then show "same_policies hooks s (snd (enable_wheel io s))" using e
    by (auto simp: enable_wheel_def same_policies_def in_force_def hook_id_def fun_eq_iff split: device.splits)
qed

section \<open>All the devices\<close>

text \<open>On top of the policies \<open>F\<close> of others, exactly those of the devices \<open>ds\<close> are in force.\<close>

definition subscribed :: "('w \<Rightarrow> int set) \<Rightarrow> int set \<Rightarrow> device set \<Rightarrow> 'w system \<Rightarrow> bool" where
  "subscribed hooks F ds s \<longleftrightarrow> in_force hooks s = F \<union> hook_id s ` ds \<and> inj_on (hook_id s) ds \<and> hook_id s ` ds \<inter> F = {}"

lemma subscribed_more:
  assumes "subscribes hooks d s (bit_no, ok, s')" and "subscribed hooks F ds s" and "d \<notin> ds"
  shows "subscribed hooks F (if ok then insert d ds else ds) s'"
proof -
  have o: "hook_id s' d' = hook_id s d'" if "d' \<noteq> d" for d' using assms(1) that by (simp add: subscribes_def)
  then have ds: "\<forall>d' \<in> ds. hook_id s' d' = hook_id s d'" using assms(3) by metis
  then have im: "hook_id s' ` ds = hook_id s ` ds" "inj_on (hook_id s') ds = inj_on (hook_id s) ds"
    by (auto simp: image_def inj_on_def)
  show ?thesis using assms im by (auto simp: subscribes_def subscribed_def)
qed

lemma subscribed_less:
  assumes "subscribed hooks F ds s" and "d \<in> ds" and "in_force hooks s' = in_force hooks s - {hook_id s d}" and "hook_id s' = hook_id s"
  shows "subscribed hooks F (ds - {d}) s'"
  using assms unfolding subscribed_def by (auto simp: inj_on_def)

lemma subscribed_in_force: "subscribed hooks F ds s \<Longrightarrow> d \<in> ds \<Longrightarrow> hook_id s d \<in> in_force hooks s"
  by (simp add: subscribed_def)

lemma subscribed_ignoring:
  "stops hooks d f \<Longrightarrow> subscribed hooks F ds s \<Longrightarrow> d \<in> ds \<Longrightarrow> subscribed hooks F (ds - {d}) (ignoring io f s)"
  using subscribed_less ignoring_stop subscribed_in_force by metis

lemma subscribed_same: "same_policies hooks s s' \<Longrightarrow> subscribed hooks F ds s \<Longrightarrow> subscribed hooks F ds s'"
  by (simp add: subscribed_def same_policies_def)

lemma subscribed_none: "subscribed hooks F {} s \<Longrightarrow> in_force hooks s = F"
  by (simp add: subscribed_def)

lemma try_stop_device:
  assumes "stops hooks d f" and "subscribed hooks F ds s" and "d \<in> ds"
  obtains s' where "try_stop io f e msg (errors, s) = (errors, s')" and "subscribed hooks F (ds - {d}) s'"
proof -
  obtain w where w: "f s (a_w (s_app s)) = (Some (), w)" "hooks w = in_force hooks s - {hook_id s d}"
    using assms subscribed_in_force unfolding stops_def by blast
  let ?s = "s\<lparr>s_app := (s_app s)\<lparr>a_w := w\<rparr>\<rparr>"
  have "subscribed hooks F (ds - {d}) ?s"
    by (rule subscribed_less [OF assms(2,3)])
      (use w(2) in \<open>auto simp: in_force_def hook_id_def fun_eq_iff split: device.splits\<close>)
  then show ?thesis by (rule that [rotated]) (use w(1) in \<open>simp add: try_stop_def calling_def\<close>)
qed

lemma try_stop_quiet:
  assumes "kernel_policies io hooks" and "\<And>x. keeps hooks (f x)" and "subscribed hooks F ds s"
  shows "subscribed hooks F ds (snd (try_stop io f e msg (errors, s)))"
proof -
  obtain r w where w: "f s (a_w (s_app s)) = (r, w)" by fastforce
  let ?s = "s\<lparr>s_app := (s_app s)\<lparr>a_w := w\<rparr>\<rparr>"
  have "hooks w = hooks (a_w (s_app s))" using assms(2) w unfolding keeps_def by (metis snd_conv)
  then have "same_policies hooks s ?s"
    by (auto simp: same_policies_def in_force_def hook_id_def fun_eq_iff split: device.splits)
  then have "subscribed hooks F ds ?s" using subscribed_same assms(3) by blast
  moreover have "subscribed hooks F ds (failing io e m ?s)" for m
    by (rule subscribed_same [OF quiet_steps(1) [OF assms(1)] calculation])
  ultimately show ?thesis using w by (cases r) (simp_all add: try_stop_def calling_def)
qed

lemma all_devices: "(UNIV :: device set) = {DEV_SERIAL, DEV_MOUSE, DEV_KEYBOARD, DEV_TIMER}"
  by (auto intro: device.exhaust)

lemma unsubscribe_all:
  assumes "kernel_policies io hooks" and "subscribed hooks F UNIV s"
  shows "in_force hooks (snd (unsubscribe_interrupts io s)) = F"
proof -
  note st = stop_steps [OF assms(1)]
  obtain s1 where s1: "try_stop io (stop_mouse io) ERR_MOUSE ''unsubscribe mouse interrupt'' (False, s) = (False, s1)"
    "subscribed hooks F (UNIV - {DEV_MOUSE}) s1" by (rule try_stop_device [OF st(3) assms(2)]) simp
  obtain s2 where s2: "try_stop io (stop_keyboard io) ERR_KEYBOARD ''unsubscribe keyboard interrupt'' (False, s1) = (False, s2)"
    "subscribed hooks F (UNIV - {DEV_MOUSE} - {DEV_KEYBOARD}) s2" by (rule try_stop_device [OF st(2) s1(2)]) simp
  obtain s3 where s3: "try_stop io (stop_timer io) ERR_TIMER ''unsubscribe timer interrupt'' (False, s2) = (False, s3)"
    "subscribed hooks F (UNIV - {DEV_MOUSE} - {DEV_KEYBOARD} - {DEV_TIMER}) s3" by (rule try_stop_device [OF st(1) s2(2)]) simp
  have d: "keeps hooks ((\<lambda>_ :: 'a system. my_mouse_disable_data_reporting io) x)" for x
    by (rule keeps_mouse_commands(4) [OF assms(1)])
  obtain e s4 where s4: "try_stop io (\<lambda>_. my_mouse_disable_data_reporting io) ERR_MOUSE ''disable mouse data reporting'' (False, s3) = (e, s4)"
    by fastforce
  have "subscribed hooks F (UNIV - {DEV_MOUSE} - {DEV_KEYBOARD} - {DEV_TIMER}) s4"
    using try_stop_quiet [OF assms(1) d s3(2), where e = ERR_MOUSE and msg = "''disable mouse data reporting''" and errors = False] s4 by simp
  then obtain s5 where s5: "try_stop io (stop_serial io) ERR_SERIAL ''unsubscribe serial interrupt'' (e, s4) = (e, s5)"
    "subscribed hooks F (UNIV - {DEV_MOUSE} - {DEV_KEYBOARD} - {DEV_TIMER} - {DEV_SERIAL}) s5" by (rule try_stop_device [OF st(4)]) simp
  have "UNIV - {DEV_MOUSE} - {DEV_KEYBOARD} - {DEV_TIMER} - {DEV_SERIAL} = ({} :: device set)" by (auto simp: all_devices)
  with s5(2) have "in_force hooks s5 = F" by (simp only: subscribed_none)
  then show ?thesis by (simp only: unsubscribe_interrupts_def s1(1) s2(1) s3(1) s4 s5(1) snd_conv)
qed


text \<open>
  The steps of \<open>subscribe_interrupts\<close>: \<open>reached\<close> says which devices are subscribed, \<open>balanced\<close> is the promise
  about the result, and one rule for each kind of step reduces the promise to the rest of the function.
\<close>

definition reached :: "('w \<Rightarrow> int set) \<Rightarrow> 'w system \<Rightarrow> device set \<Rightarrow> 'w system \<Rightarrow> bool" where
  "reached hooks s0 ds s \<longleftrightarrow> subscribed hooks (in_force hooks s0) ds s \<and> (\<forall>d. d \<notin> ds \<longrightarrow> hook_id s d = hook_id s0 d)"

definition balanced :: "('w \<Rightarrow> int set) \<Rightarrow> 'w system \<Rightarrow> (bool \<times> 'w system) option \<Rightarrow> bool" where
  "balanced hooks s0 r \<longleftrightarrow> (\<exists>ok s'. r = Some (ok, s') \<and>
     (if ok then subscribed hooks (in_force hooks s0) UNIV s' else in_force hooks s' = in_force hooks s0))"

lemma reached_irqs [simp]:
  "reached hooks s0 ds (s\<lparr>irq_timer := m\<rparr>) = reached hooks s0 ds s" "reached hooks s0 ds (s\<lparr>irq_keyboard := m\<rparr>) = reached hooks s0 ds s"
  "reached hooks s0 ds (s\<lparr>irq_mouse := m\<rparr>) = reached hooks s0 ds s" "reached hooks s0 ds (s\<lparr>irq_serial := m\<rparr>) = reached hooks s0 ds s"
proof -
  have "hook_id (s\<lparr>irq_timer := m\<rparr>) = hook_id s" "hook_id (s\<lparr>irq_keyboard := m\<rparr>) = hook_id s"
    "hook_id (s\<lparr>irq_mouse := m\<rparr>) = hook_id s" "hook_id (s\<lparr>irq_serial := m\<rparr>) = hook_id s"
    by (auto simp: fun_eq_iff hook_id_def split: device.splits)
  then show "reached hooks s0 ds (s\<lparr>irq_timer := m\<rparr>) = reached hooks s0 ds s" "reached hooks s0 ds (s\<lparr>irq_keyboard := m\<rparr>) = reached hooks s0 ds s"
    "reached hooks s0 ds (s\<lparr>irq_mouse := m\<rparr>) = reached hooks s0 ds s" "reached hooks s0 ds (s\<lparr>irq_serial := m\<rparr>) = reached hooks s0 ds s"
    by (simp_all add: reached_def subscribed_def in_force_def)
qed

lemma step_subscribe:
  assumes "subscribes hooks d s x" and "reached hooks s0 ds s" and "d \<notin> ds"
    and "\<And>s'. subscribed hooks (in_force hooks s0) ds s' \<Longrightarrow> balanced hooks s0 (bad s')"
    and "\<And>s'. reached hooks s0 (insert d ds) s' \<Longrightarrow> balanced hooks s0 (rest (word_of_int (hook_id s0 d)) s')"
  shows "balanced hooks s0 (let (bit_no, ok, s') = x in if \<not> ok then bad s' else rest bit_no s')"
proof -
  obtain b ok s' where x: "x = (b, ok, s')" by (metis prod_cases3)
  have "subscribed hooks (in_force hooks s0) (if ok then insert d ds else ds) s'"
    by (rule subscribed_more [OF assms(1) [unfolded x] _ assms(3)]) (use assms(2) in \<open>simp add: reached_def\<close>)
  moreover have "b = word_of_int (hook_id s0 d)" "\<forall>d'. d' \<noteq> d \<longrightarrow> hook_id s' d' = hook_id s d'"
    using assms(1-3) by (auto simp: x subscribes_def reached_def)
  ultimately show ?thesis using assms(2,4,5) by (cases ok) (auto simp: x reached_def)
qed

lemma step_call:
  assumes "same_policies hooks s (snd x)" and "reached hooks s0 ds s"
    and "\<And>s'. reached hooks s0 ds s' \<Longrightarrow> balanced hooks s0 (bad s')" and "\<And>s'. reached hooks s0 ds s' \<Longrightarrow> balanced hooks s0 (rest s')"
  shows "balanced hooks s0 (let (ok, s') = x in if \<not> ok then bad s' else rest s')"
proof -
  have "reached hooks s0 ds (snd x)" using assms(2) subscribed_same [OF assms(1)] assms(1)
    by (simp add: reached_def) (simp add: same_policies_def)
  with assms(3,4) show ?thesis by (auto simp: split_beta)
qed

lemma step_bit: "b < 31 \<Longrightarrow> (\<And>m. balanced hooks s0 (f m)) \<Longrightarrow> balanced hooks s0 (BIT b \<bind> f)"
  by (simp add: BIT_def)

lemma step_failed:
  assumes "kernel_policies io hooks" and "subscribed hooks (in_force hooks s0) {} s"
  shows "balanced hooks s0 (Some (False, failing io e msg s))"
  using subscribed_none [OF subscribed_same [OF quiet_steps(1) [OF assms(1)] assms(2)]]
  by (auto simp: balanced_def intro!: exI [of _ False])

lemma step_done: "reached hooks s0 {DEV_SERIAL, DEV_MOUSE, DEV_KEYBOARD, DEV_TIMER} s \<Longrightarrow> balanced hooks s0 (Some (True, s))"
  by (auto simp: balanced_def reached_def all_devices)

lemma subscribe_balanced:
  assumes "kernel_policies io hooks" and "\<forall>d. (word_of_int (hook_id s d) :: u8) < 31"
  shows "balanced hooks s (subscribe_interrupts io s)"
proof -
  note st = stop_steps [OF assms(1)] and sub = subscribe_steps [OF assms(1)] and q = quiet_steps [OF assms(1)]
  note bad = step_failed [OF assms(1)]
  have less: "subscribed hooks F ds t" if "subscribed hooks F es t" "es = ds" for F ds es t using that by simp
  have undo1: "subscribed hooks F {} (ignoring io (stop_timer io) t)" if "subscribed hooks F {DEV_TIMER} t" for F t
    by (rule less [OF subscribed_ignoring [OF st(1) that]]) auto
  have undo2: "subscribed hooks F {} (ignoring io (stop_keyboard io) (ignoring io (stop_timer io) t))"
    if "subscribed hooks F {DEV_KEYBOARD, DEV_TIMER} t" for F t
    by (rule less [OF subscribed_ignoring [OF st(2) less [OF subscribed_ignoring [OF st(1) that]]]]) auto
  have undo3: "subscribed hooks F {} (ignoring io (stop_mouse io) (ignoring io (stop_keyboard io) (ignoring io (stop_timer io) t)))"
    if "subscribed hooks F {DEV_MOUSE, DEV_KEYBOARD, DEV_TIMER} t" for F t
    by (rule less [OF subscribed_ignoring [OF st(3) less [OF subscribed_ignoring [OF st(2) less [OF subscribed_ignoring [OF st(1) that]]]]]]) auto
  have bits: "(word_of_int (hook_id s d) :: u8) < 31" for d using assms(2) by blast
  have start: "reached hooks s {} s" by (simp add: reached_def subscribed_def)
  show ?thesis unfolding subscribe_interrupts_def
    apply (rule step_subscribe [OF sub(1) start], simp, erule bad)
    apply (rule step_bit, rule bits)
    apply (subst Let_def, rule step_subscribe [OF sub(2)], simp, simp, erule bad [OF undo1])
    apply (rule step_bit, rule bits)
    apply (subst Let_def, rule step_subscribe [OF sub(3)], simp, simp, erule bad [OF undo2])
    apply (rule step_call [OF q(2)], assumption, rule bad [OF undo3], simp add: reached_def)
    apply (rule step_call [OF q(3)], assumption, rule bad [OF undo3], simp add: reached_def)
    apply (rule step_bit, rule bits)
    apply (subst Let_def, rule step_subscribe [OF sub(4)], simp, simp, rule bad [OF subscribed_same [OF q(4)]], erule undo3)
    apply (rule step_bit, rule bits)
    apply (rule step_done, simp)
    done
qed

text \<open>C20: Subscribing the devices leaves no policy behind when it fails: at whatever step the kernel or the
  mouse refuses, the policies in force are those that were in force before. When it succeeds, exactly
  one new policy per device is in force, and \<open>unsubscribe_interrupts\<close> removes them, even if the mouse
  no longer answers.\<close>

theorem subscriptions_balanced:
  assumes "kernel_policies io hooks" and "\<forall>d. (word_of_int (hook_id s d) :: u8) < 31"
  shows "\<exists>ok s'. subscribe_interrupts io s = Some (ok, s')
    \<and> (if ok then subscribed hooks (in_force hooks s) UNIV s' \<and> in_force hooks (snd (unsubscribe_interrupts io s')) = in_force hooks s
       else in_force hooks s' = in_force hooks s)"
proof -
  obtain ok s' where s': "subscribe_interrupts io s = Some (ok, s')"
    "if ok then subscribed hooks (in_force hooks s) UNIV s' else in_force hooks s' = in_force hooks s"
    using subscribe_balanced [OF assms] unfolding balanced_def by blast
  then show ?thesis using unsubscribe_all [OF assms(1), of "in_force hooks s" s']
    by (intro exI [of _ ok] exI [of _ s']) (cases ok; simp)
qed

text \<open>A kernel that numbers the policies; the state is the list of those in force.\<close>

definition policy_kernel :: "int list io" where
  "policy_kernel = \<lparr>sys_inb = (\<lambda>_ w. (Some 0x20, w)), sys_outb = (\<lambda>_ _ w. (Some (), w)), tickdelay = (\<lambda>_ w. w),
     sys_irqsetpolicy = (\<lambda>_ _ _ w. let h = foldr max w 0 + 1 in (Some h, h # w)),
     sys_irqrmpolicy = (\<lambda>h w. (Some (), removeAll h w)), print_err = (\<lambda>_ w. w)\<rparr>"

lemma policy_kernel_ok: "kernel_policies policy_kernel set"
proof -
  have "h \<in> set w \<Longrightarrow> h \<le> foldr max w 0" for h :: int and w by (induction w) auto
  then have "foldr max w (0 :: int) + 1 \<notin> set w" for w by fastforce
  then show ?thesis by (simp add: kernel_policies_def policy_kernel_def keeps_def Let_def)
qed

text \<open>The drivers in their initial states.\<close>

definition system_of :: "'w app \<Rightarrow> 'w system" where
  "system_of a = \<lparr>s_app = a, s_events = event_queue0, s_sp = serial_port0, s_ss = serial_state0,
     s_kd = keyboard_driver0, s_kb = keyboard_state0, s_md = mouse_driver0, s_ps = packet_scancode0,
     irq_timer = 0, irq_keyboard = 0, irq_mouse = 0, irq_serial = 0\<rparr>"

lemma subscriptions_balanced_witness:
  "\<exists>ok s'. subscribe_interrupts policy_kernel (system_of (app_of ab [7])) = Some (ok, s') \<and> (\<not> ok \<longrightarrow> set (a_w (s_app s')) = {7})"
proof -
  have "hook_id (system_of (app_of ab [7 :: int])) d = (case d of DEV_TIMER \<Rightarrow> 0 | DEV_KEYBOARD \<Rightarrow> 1 | DEV_MOUSE \<Rightarrow> 2 | DEV_SERIAL \<Rightarrow> 4)" for d
    by (cases d) (simp_all add: hook_id_def system_of_def app_of_def timer0_def keyboard_driver0_def mouse_driver0_def serial_port0_def)
  then have "\<forall>d. (word_of_int (hook_id (system_of (app_of ab [7 :: int])) d) :: u8) < 31" by (auto split: device.split)
  from subscriptions_balanced [OF policy_kernel_ok this] show ?thesis
    by (auto simp: in_force_def system_of_def split: if_splits)
qed

end
