(* ===== verification/SystemProps.thy ===== *)
theory SystemProps
  imports Subscriptions
begin

text \<open>
  The program as a whole: every interrupt is handled without undefined behaviour and in finite time, the
  loop that dispatches the queued events ends with an empty queue, having handled the events in their
  order.
\<close>

section \<open>Well-formed systems\<close>

text \<open>The bytes of a packet: the index is inside the packet, the packet inside its array.\<close>

definition mouse_ok :: "mouse_driver \<Rightarrow> bool" where
  "mouse_ok d \<longleftrightarrow> (packet_size d = 3 \<or> packet_size d = 4) \<and> 0 \<le> packet_index d \<and> packet_index d < packet_size d
     \<and> (\<exists>bs. packet_bytes d = map Some bs \<and> length bs = 4)"

text \<open>The parts of a system that its handlers rely on.\<close>

definition sys_ok :: "'w system \<Rightarrow> bool" where
  "sys_ok s \<longleftrightarrow> app_ok (s_app s) \<and> events_inv (s_events s) \<and> sp_inv (s_sp s) \<and> queue_contents (rx_queue (s_sp s)) = []
     \<and> serial_inv (s_ss s) \<and> mouse_ok (s_md s)"

lemma sys_okD:
  assumes "sys_ok s"
  shows "app_ok (s_app s)" "events_inv (s_events s)" "sp_inv (s_sp s)" "queue_contents (rx_queue (s_sp s)) = []"
    "serial_inv (s_ss s)" "mouse_ok (s_md s)"
  using assms by (simp_all add: sys_ok_def)

text \<open>
  What \<open>time_update\<close> relies on of the clock: an update that is in progress ends, \<open>left w\<close> is a bound on how
  often it is still reported.
\<close>

definition clock_ends :: "'w io \<Rightarrow> ('w \<Rightarrow> nat) \<Rightarrow> bool" where
  "clock_ends io left \<longleftrightarrow> (\<forall>w v w'. rtc_read_reg io RTC_REG_A (tickdelay io 50 w) = (Some v, w') \<longrightarrow> v AND RTC_UIP_MSK \<noteq> 0
     \<longrightarrow> left w' < left w)"

lemma await_ends:
  assumes "clock_ends io left"
  shows "\<exists>r. await_update io w = Some r"
proof (induction "left w" arbitrary: w rule: less_induct)
  case less
  obtain v w' where r: "rtc_read_reg io RTC_REG_A (tickdelay io 50 w) = (v, w')" by fastforce
  show ?case
  proof (cases "\<exists>x. v = Some x \<and> x AND RTC_UIP_MSK \<noteq> 0")
    case True
    then obtain x where x: "v = Some x" "x AND RTC_UIP_MSK \<noteq> 0" by blast
    then have "left w' < left w" using assms r unfolding clock_ends_def by blast
    from less [OF this] show ?thesis using r x by (subst await_update.simps) simp
  next
    case False
    then show ?thesis using r by (subst await_update.simps) (cases v; simp)
  qed
qed

lemma time_update_ends: "clock_ends io left \<Longrightarrow> yields (time_update io cl w) (\<lambda>_. True)"
  using await_ends [of io left w] by (auto simp: time_update_def rtc_read_date_def yields_def split_beta Let_def)

section \<open>The handlers\<close>

lemma app_ok_devices [simp]:
  "app_ok (a\<lparr>a_tm := t\<rparr>) = app_ok a" "app_ok (a\<lparr>a_cl := c\<rparr>) = app_ok a" "app_ok (a\<lparr>a_ms := m\<rparr>) = app_ok a"
  "app_ok (a\<lparr>a_tm := t, a_cb := b\<rparr>) = app_ok (a\<lparr>a_cb := b\<rparr>)"
  by (simp_all add: app_ok_def)

lemma timer_handled:
  assumes "sys_ok s" and "clock_ends io left"
  shows "yields (timer_handler io s) sys_ok"
proof -
  obtain r b where b: "command_bar_tick (a_cb (s_app s)) = Some (r, b)" "bar_inv b"
    using bar_inv_tick [OF app_okD(2) [OF sys_okD(1) [OF assms(1)]]] by blast
  define a where "a = (s_app s)\<lparr>a_tm := timer_int_handler (a_tm (s_app s)), a_cb := b\<rparr>"
  define a1 where "a1 = (if r then render RENDER_STATUS a else a)"
  have a1: "app_ok a1" using sys_okD(1) [OF assms(1)] b(2) by (simp add: a1_def a_def)
  have step: "timer_handler io s = (if uint (get_int_counter (a_tm a1)) mod TIMER_HZ = 0
      then do { (cl, w) \<leftarrow> time_update io (a_cl a1) (a_w a1); Some (s\<lparr>s_app := render RENDER_STATUS (a1\<lparr>a_cl := cl, a_w := w\<rparr>)\<rparr>) }
      else Some (s\<lparr>s_app := a1\<rparr>))"
    using b(1) by (simp add: timer_handler_def Let_def a_def a1_def bind_assoc split_beta')
  have ok: "sys_ok (s\<lparr>s_app := x\<rparr>)" if "app_ok x" for x using assms(1) that by (simp add: sys_ok_def)
  show ?thesis unfolding step using a1
    by (auto simp: ok split_beta intro: yields_mono [OF time_update_ends [OF assms(2)]])
qed

lemma sys_ok_upd [simp]:
  "sys_ok s \<Longrightarrow> sys_ok (s\<lparr>s_app := a\<rparr>) = app_ok a" "sys_ok s \<Longrightarrow> sys_ok (s\<lparr>s_events := q\<rparr>) = events_inv q"
  "sys_ok (s\<lparr>s_kd := kd\<rparr>) = sys_ok s" "sys_ok (s\<lparr>s_kb := kb\<rparr>) = sys_ok s" "sys_ok (s\<lparr>s_ps := ps\<rparr>) = sys_ok s"
  "sys_ok s \<Longrightarrow> sys_ok (s\<lparr>s_md := d\<rparr>) = mouse_ok d"
  by (auto simp: sys_ok_def)

lemma sys_ok_failing: "sys_ok s \<Longrightarrow> sys_ok (failing io e msg s)"
  using sys_okD(1) [of s] by (simp add: failing_def ignoring_def)

text \<open>One push, and the pushes of a packet.\<close>

lemma push_ok: "events_inv q \<Longrightarrow> yields (input_event_push q ev) (\<lambda>(ok, q'). events_inv q')"
  using event_fifo.push_last [of q ev] by (auto simp: yields_def)

lemma push_all_ok: "events_inv q \<Longrightarrow> yields (push_all es q) events_inv"
  using push_all_pending [of q es] by (auto simp: yields_def)

lemma keyboard_handled:
  assumes "sys_ok s"
  shows "yields (keyboard_handler io s) sys_ok"
proof -
  obtain d w where d: "keyboard_ih io (s_kd s) (a_w (s_app s)) = (d, w)" by fastforce
  define t where "t = s\<lparr>s_kd := d, s_app := (s_app s)\<lparr>a_w := w\<rparr>\<rparr>"
  have t: "sys_ok t" using assms sys_okD(1) [OF assms] by (simp add: t_def)
  obtain ps w' where b: "build_scancode io (s_kd t) (s_ps t) (a_w (s_app t)) = (ps, w')" by fastforce
  have tw: "sys_ok (t\<lparr>s_app := (s_app t)\<lparr>a_w := w'\<rparr>\<rparr>)" using t sys_okD(1) [OF t] by simp
  have kp: "yields (keyboard_process p k q) (\<lambda>(kb, q'). events_inv q')" if "events_inv q" for p k q
  proof (cases "snd (key_event p k)")
    case (Some ev)
    show ?thesis using Some yields_mono [OF push_ok [OF that, of "INPUT_EVENT_KEY ev"]]
      by (simp add: keyboard_process_def push_event_def split_beta)
  qed (use that in \<open>simp add: keyboard_process_def push_event_def split_beta\<close>)
  show ?thesis
  proof (cases ps)
    case None
    then show ?thesis using d b tw by (simp add: keyboard_handler_def t_def sys_ok_failing)
  next
    case (Some p)
    define u where "u = t\<lparr>s_ps := p, s_app := (s_app t)\<lparr>a_w := w'\<rparr>\<rparr>"
    have u: "sys_ok u" using t sys_okD(1) [OF t] by (simp add: u_def)
    have "keyboard_handler io s = (if two_byte p then Some u else do {
        (kb, q) \<leftarrow> keyboard_process p (s_kb u) (s_events u); Some (u\<lparr>s_kb := kb, s_events := q\<rparr>) })"
      using d b Some by (simp add: keyboard_handler_def u_def t_def)
    then show ?thesis using u by (auto simp: split_beta intro!: yields_mono [OF kp [OF sys_okD(2) [OF u]]])
  qed
qed

lemma store_byte_ok:
  assumes "mouse_ok d"
  shows "yields (store_byte b d) mouse_ok"
proof -
  obtain bs where bs: "packet_bytes d = map Some bs" "length bs = 4" using assms by (auto simp: mouse_ok_def)
  have i: "0 \<le> packet_index d" "packet_index d < packet_size d" "packet_size d = 3 \<or> packet_size d = 4"
    using assms by (auto simp: mouse_ok_def)
  then have w: "awrite (packet_bytes d) (packet_index d) b = Some (map Some (bs[nat (packet_index d) := b]))"
    using bs by (auto simp: awrite_def in_range_def map_update)
  show ?thesis using assms w i bs(2)
    by (auto simp: store_byte_def Let_def mouse_ok_def intro!: exI [of _ "bs[nat (packet_index d) := b]"])
qed

lemma parse_ok:
  assumes "mouse_ok d"
  shows "\<exists>pp. mouse_parse_packet d = Some pp"
proof -
  obtain bs where bs: "packet_bytes d = map Some bs" "length bs = 4" using assms by (auto simp: mouse_ok_def)
  then have "aread (packet_bytes d) i = Some (bs ! nat i)" if "0 \<le> i" "i < 4" for i
    using that by (simp add: aread_def in_range_def)
  then show ?thesis by (simp add: mouse_parse_packet_def)
qed

lemma mouse_handled:
  assumes "sys_ok s"
  shows "yields (mouse_handler io s) sys_ok"
proof -
  note d0 = sys_okD(6) [OF assms]
  have flag: "mouse_ok (d\<lparr>md_error := b\<rparr>) = mouse_ok d" "mouse_ok (d\<lparr>packet_ready := b\<rparr>) = mouse_ok d" for d b
    by (simp_all add: mouse_ok_def)
  have "yields (mouse_ih io (s_md s) (a_w (s_app s))) (\<lambda>(d, w). mouse_ok d)"
    using d0 by (auto simp: mouse_ih_def flag Let_def split: option.splits prod.splits
        intro!: yields_mono [OF store_byte_ok [of "(s_md s)\<lparr>md_error := False\<rparr>"]])
  then obtain d w where d: "mouse_ih io (s_md s) (a_w (s_app s)) = Some (d, w)" "mouse_ok d" by (auto simp: yields_def)
  define t where "t = s\<lparr>s_md := d, s_app := (s_app s)\<lparr>a_w := w\<rparr>\<rparr>"
  have t: "sys_ok t" using assms d(2) sys_okD(1) [OF assms] by (simp add: t_def)
  obtain pp where pp: "mouse_parse_packet d = Some pp" using parse_ok [OF d(2)] by blast
  have eq: "mouse_handler io s = (if is_packet_ready d then do {
      (m, r, q) \<leftarrow> mouse_process pp (vg_get_h_res (a_vd (s_app t))) (vg_get_v_res (a_vd (s_app t))) (a_ms (s_app t)) (a_rs (s_app t)) (s_events t);
      Some (t\<lparr>s_md := d\<lparr>packet_ready := False\<rparr>, s_events := q, s_app := (s_app t)\<lparr>a_ms := m, a_rs := r\<rparr>\<rparr>) }
    else Some t)"
    using d(1) pp by (simp add: mouse_handler_def t_def build_packet_def is_packet_ready_def)
  have p: "yields (mouse_process pp h v m r (s_events t)) (\<lambda>(m, r, q). events_inv q)" for h v m r
    using push_all_ok [OF sys_okD(2) [OF t]] by (auto simp: mouse_process_def Let_def elim: yields_mono)
  show ?thesis unfolding eq using t d(2) sys_okD(1) [OF t]
    by (auto simp: split_beta flag intro!: yields_mono [OF p])
qed

lemma serial_handled:
  assumes "sys_ok s" and "uart_receives io iir received"
  shows "yields (serial_handler io s) sys_ok"
proof -
  obtain sp' s' q' w' where "serial_process io (s_sp s) (s_ss s, s_events s) (a_w (s_app s)) = Some (sp', (s', q'), w')"
    "sp_inv sp'" "queue_contents (rx_queue sp') = []" "serial_inv s'" "events_inv q'"
    using serial_process_step [OF assms(2) sys_okD(3,4,5,2) [OF assms(1)]] by blast
  then show ?thesis using assms(1) by (simp add: serial_handler_def sys_ok_def)
qed

section \<open>Every interrupt\<close>

definition test_system :: "unit system" where
  "test_system = (system_of (app_of ab ()))\<lparr>s_sp := ready_port, irq_timer := 1, irq_keyboard := 2, irq_mouse := 4, irq_serial := 16\<rparr>"

text \<open>A machine whose UART is empty and whose clock is never being updated.\<close>

definition quiet_machine :: "unit io" where
  "quiet_machine = \<lparr>sys_inb = (\<lambda>port w. (Some (if port = COM1_BASE + IIR then 0x01 else if port = COM1_BASE + LSR then 0x60 else 0), w)),
     sys_outb = (\<lambda>_ _ w. (Some (), w)), tickdelay = (\<lambda>_ w. w), sys_irqsetpolicy = (\<lambda>_ _ h w. (Some h, w)),
     sys_irqrmpolicy = (\<lambda>_ w. (Some (), w)), print_err = (\<lambda>_ w. w)\<rparr>"

lemma quiet_machine_ok: "uart_receives quiet_machine 0x04 (\<lambda>_. [])" "clock_ends quiet_machine (\<lambda>_. 0)"
  by (auto simp: uart_receives_def quiet_machine_def COM1_BASE_def IIR_def LSR_def clock_ends_def rtc_read_reg_def
      RTC_DATA_REG_def on_ok_def succeed_def)

lemma test_system_ok: "sys_ok test_system"
proof -
  have "mouse_ok mouse_driver0" by (auto simp: mouse_ok_def mouse_driver0_def intro!: exI [of _ "replicate 4 0"])
  then show ?thesis using ready_port_inv serial_inv0 events_repI [OF events_rep0] app_of_ok [of ab "()"] typed_ab
    by (simp add: sys_ok_def test_system_def system_of_def)
qed



section \<open>The events\<close>

definition is_serial :: "InputEvent \<Rightarrow> bool" where
  "is_serial ev = (case ev of INPUT_EVENT_SERIAL _ \<Rightarrow> True | _ \<Rightarrow> False)"

lemma event_ok:
  assumes "app_ok a" and "env_ok env" and "\<not> is_serial ev"
  shows "\<exists>a'. dispatch_event env ev a = Some a' \<and> app_ok a'"
  using ok_dispatch [OF assms(1,2)] ok_dispatch_mouse [OF assms(1,2)] assms(3)
  by (auto simp: dispatch_event_def is_serial_def yields_def split: InputEvent.splits)

text \<open>The loop, for a condition that every event queued keeps.\<close>

lemma dispatch_drains:
  assumes "sys_ok s" and "P (s_app s)" and "\<And>a. P a \<Longrightarrow> app_ok a"
    and "\<And>ev a. ev \<in> set (pending (s_events s)) \<Longrightarrow> P a \<Longrightarrow> \<exists>a'. dispatch_event env ev a = Some a' \<and> P a'"
  obtains q a' where "input_dispatch env s = Some (s\<lparr>s_events := q, s_app := a'\<rparr>)" and "sys_ok (s\<lparr>s_events := q, s_app := a'\<rparr>)"
    and "pending q = []" and "run_all (dispatch_event env) (pending (s_events s)) (s_app s) = Some a'" and "P a'"
proof -
  obtain a' where a': "run_all (dispatch_event env) (pending (s_events s)) (s_app s) = Some a'" "P a'"
    using run_all_invariant [of "pending (s_events s)" P "dispatch_event env" "s_app s"] assms(2,4) by blast
  obtain q where q: "events_inv q" "pending q = []"
    "drain input_event_pop (dispatch_event env) (s_events s) (s_app s)
      = map_option (Pair q) (run_all (dispatch_event env) (pending (s_events s)) (s_app s))"
    using event_fifo.drain_contents [OF sys_okD(2) [OF assms(1)], of "dispatch_event env" "s_app s"] by blast
  then have "input_dispatch env s = Some (s\<lparr>s_events := q, s_app := a'\<rparr>)" using a'(1) by (simp add: input_dispatch_def)
  moreover have "sys_ok (s\<lparr>s_events := q, s_app := a'\<rparr>)" using assms(1) q(1) assms(3) [OF a'(2)] by (simp add: sys_ok_def)
  ultimately show thesis using that a' q(2) by blast
qed



end
