(* ===== verification/Peers.thy ===== *)
theory Peers
  imports CommandProps
begin

text \<open>
  Two machines on one text: what the commands of one editor send over the serial line, and what the
  packets do when the other machine receives them. The line is that of the UART model; the receiving side
  is the state machine of \<open>serial.c\<close> and \<open>commands_dispatch_serial\<close>.
\<close>

section \<open>The line\<close>

text \<open>
  What the sender relies on of a UART whose transmitter is ready: reading the line status disturbs
  nothing, a byte written to the transmitter register is the next one on the line.
\<close>

definition uart_sends :: "'w io \<Rightarrow> ('w \<Rightarrow> u8 list) \<Rightarrow> bool" where
  "uart_sends io sent \<longleftrightarrow> (\<forall>w.
     (\<exists>l w'. sys_inb io (COM1_BASE + LSR) w = (Some l, w') \<and> (ucast l :: u8) AND LSR_TX_READY \<noteq> 0 \<and> sent w' = sent w)
     \<and> (\<forall>v. \<exists>w'. sys_outb io (COM1_BASE + THR) v w = (Some (), w') \<and> sent w' = sent w @ [ucast v]))"

lemma write_char_sends:
  assumes "uart_sends io sent"
  shows "sent (snd (serial_write_char io b w)) = sent w @ [b]"
proof -
  obtain l w1 where l: "sys_inb io (COM1_BASE + LSR) w = (Some l, w1)" "(ucast l :: u8) AND LSR_TX_READY \<noteq> 0" "sent w1 = sent w"
    using assms unfolding uart_sends_def by blast
  obtain w2 where "sys_outb io (COM1_BASE + THR) (ucast b) w1 = (Some (), w2)" "sent w2 = sent w1 @ [ucast (ucast b :: u32)]"
    using assms unfolding uart_sends_def by blast
  moreover have "100 = Suc 99" by simp
  ultimately show ?thesis using l unfolding serial_write_char_def
    by (simp only: tx_tries.simps) (simp add: util_sys_inb_def succeed_def)
qed

lemma send_bytes_sends: "uart_sends io sent \<Longrightarrow> sent (send_bytes io bs w) = sent w @ bs"
  by (induction bs arbitrary: w) (simp_all add: write_char_sends)

text \<open>A step that only puts the packets \<open>ps\<close> on the line.\<close>

definition transmits :: "('w \<Rightarrow> u8 list) \<Rightarrow> ('w app \<Rightarrow> 'w app option) \<Rightarrow> 'w app \<Rightarrow> (u8 \<times> u8 list) list \<Rightarrow> bool" where
  "transmits sent f a ps \<longleftrightarrow> (\<exists>w. f a = Some (a\<lparr>a_w := w\<rparr>) \<and> sent w = sent (a_w a) @ concat (map frame_bytes ps))"

lemma transmits_send:
  assumes "uart_sends (e_io env) sent" and "enough_bytes cmd bs"
  shows "transmits sent (send env cmd (map Some bs @ rest) (int (length bs)) k) a [(cmd_code cmd, sent_payload cmd bs (word_of_int k))]"
proof -
  obtain body where body: "packet_body cmd (map Some bs @ rest) (int (length bs)) (word_of_int k) = Some body"
    "PKT_START_BYTE # body = frame_bytes (cmd_code cmd, sent_payload cmd bs (word_of_int k))"
    using packet_body_frame [OF assms(2), of rest "word_of_int k"] by auto
  then have "send env cmd (map Some bs @ rest) (int (length bs)) k a = Some (a\<lparr>a_w := send_packet (e_io env) body (a_w a)\<rparr>)"
    by (simp add: send_def build_packet_serial_def)
  moreover have "sent (send_packet (e_io env) body (a_w a)) = sent (a_w a) @ (PKT_START_BYTE # body)"
    by (simp only: send_packet_def send_bytes_sends [OF assms(1)])
  ultimately show ?thesis using body(2) by (auto simp: transmits_def)
qed

lemma transmits_bind:
  assumes "transmits sent f a ps" and "\<And>w. transmits sent g (a\<lparr>a_w := w\<rparr>) qs"
  shows "transmits sent (\<lambda>a. f a \<bind> g) a (ps @ qs)"
proof -
  obtain w where w: "f a = Some (a\<lparr>a_w := w\<rparr>)" "sent w = sent (a_w a) @ concat (map frame_bytes ps)"
    using assms(1) by (auto simp: transmits_def)
  obtain w' where "g (a\<lparr>a_w := w\<rparr>) = Some (a\<lparr>a_w := w'\<rparr>)" "sent w' = sent w @ concat (map frame_bytes qs)"
    using assms(2) [of w] by (auto simp: transmits_def)
  with w show ?thesis by (auto simp: transmits_def)
qed

section \<open>Receiving\<close>

text \<open>The bytes go through the state machine, the events to the editor.\<close>

definition deliver :: "u8 list \<Rightarrow> serial_state \<times> 'w app \<Rightarrow> (serial_state \<times> 'w app) option" where
  "deliver line = (\<lambda>(s, p). do {
     (s, es) \<leftarrow> feed serial_byte line s;
     p \<leftarrow> run_all commands_dispatch_serial es p;
     Some (s, p)
   })"

lemma frames_received:
  assumes "waiting s" and "\<forall>p \<in> set ps. length (snd p) < 256"
  shows "\<exists>s'. feed serial_byte (concat (map frame_bytes ps)) s = Some (s', map frame_event ps) \<and> waiting s'"
  using serial_frames.stream [OF assms(1), of "map (Pair []) ps"] assms(2) by (auto simp: comp_def)

lemma deliver_frames:
  assumes "waiting s" and "\<forall>q \<in> set ps. length (snd q) < 256" and "run_all commands_dispatch_serial (map frame_event ps) p = Some p'"
  shows "\<exists>s'. deliver (concat (map frame_bytes ps)) (s, p) = Some (s', p') \<and> waiting s'"
  using frames_received [OF assms(1,2)] assms(3) by (auto simp: deliver_def)

lemma deliver_append:
  "deliver xs (s, p) = Some (s', p') \<Longrightarrow> deliver ys (s', p') = Some (s'', p'') \<Longrightarrow> deliver (xs @ ys) (s, p) = Some (s'', p'')"
  by (auto simp: deliver_def feed_append run_all_append bind_eq_Some_conv)

section \<open>Typing\<close>

text \<open>The keys of plain typing: characters, Enter and Backspace; a colon would open the command line.\<close>

definition typing_key :: "KeyEvent \<Rightarrow> bool" where
  "typing_key ev \<longleftrightarrow> \<not> ev_escape ev \<and> \<not> ev_ctrl ev \<and> ev_dir ev = DIR_NONE
     \<and> (ev_backspace ev \<or> ev_c ev \<noteq> CHR '':'' \<and> (ev_enter ev \<or> ev_c ev \<noteq> NUL))"

text \<open>The reference: what such a key does to the text before the cursor.\<close>

definition key_edit :: "string \<Rightarrow> KeyEvent \<Rightarrow> string" where
  "key_edit b ev = (if ev_backspace ev then butlast b else b @ [if ev_enter ev then NL else ev_c ev])"

definition key_packet :: "KeyEvent \<Rightarrow> u8 \<times> u8 list" where
  "key_packet ev = (if ev_backspace ev then (cmd_code CMD_DELETE_CHAR, [])
     else (cmd_code CMD_INSERT_CHAR, [of_char (if ev_enter ev then NL else ev_c ev)]))"

text \<open>An editor that shares its text and is being typed in, and a peer whose remote cursor is where its cursor is.\<close>

definition sharing :: "'w app \<Rightarrow> bool" where
  "sharing a \<longleftrightarrow> remote a \<and> \<not> filetree_is_focused (a_ft a) \<and> command_bar_get_mode (a_cb a) \<noteq> MODE_COMMAND
     \<and> \<not> sel_active (a_ed a) \<and> heap (a_ed a) = []"

definition in_step :: "string \<Rightarrow> string \<Rightarrow> 'w app \<Rightarrow> 'v app \<Rightarrow> bool" where
  "in_step b s a p \<longleftrightarrow> sharing a \<and> gap (a_ed a) b s \<and> remote_gap (a_ed p) b s \<and> heap (a_ed p) = []"

lemma set_render_ex_ed [simp]:
  "remote_gap (a_ed (set_render_ex m a)) b s = remote_gap (a_ed a) b s" "heap (a_ed (set_render_ex m a)) = heap (a_ed a)"
  "doc (a_ed (set_render_ex m a)) t = doc (a_ed a) t"
  "sel_active (a_ed (set_render_ex m a)) = sel_active (a_ed a)" "a_ft (set_render_ex m a) = a_ft a"
  by (simp_all add: set_render_ex_def editor_consume_scroll_dirty_def editor_consume_sel_dirty_def Let_def render_def remote_gap_def split: if_splits)

lemma sharing_redraw [simp]: "sharing (set_render_ex m a) = sharing a" "sharing (render m a) = sharing a" "sharing (a\<lparr>a_rs := r\<rparr>) = sharing a"
  by (simp_all add: sharing_def render_def)


lemma commands_typing:
  assumes "sharing a" and "typing_key ev"
  shows "commands_dispatch env ev a = (if ev_backspace ev then backspace_key env ev a
     else if ev_enter ev then enter_key env a else char_key env (ev_c ev) a)"
  using assms by (auto simp: sharing_def typing_key_def commands_dispatch_def filetree_commands_try_def)

lemma key_sent:
  assumes "sharing a" and "gap (a_ed a) b s" and "uart_sends (e_io env) sent" and "typing_key ev" and "ev_enter ev \<or> ev_c ev \<noteq> NUL \<or> ev_backspace ev"
  shows "\<exists>a'. commands_dispatch env ev a = Some a' \<and> sharing a' \<and> gap (a_ed a') (key_edit b ev) s
    \<and> sent (a_w a') = sent (a_w a) @ frame_bytes (key_packet ev)"
proof -
  have sel: "\<not> editor_sel_is_active (a_ed a)" "remote a" using assms(1) by (simp_all add: sharing_def editor_sel_is_active_def)
  have edited: "sharing (a\<lparr>a_ed := e\<rparr>)" if "frame (a_ed a) e" "heap e = []" for e
    using assms(1) that by (simp add: sharing_def frame_def)
  have sent: "\<exists>w. to_peer (send env cmd (map Some bs @ []) (int (length bs)) 0) (a\<lparr>a_ed := e\<rparr>) = Some (a\<lparr>a_ed := e, a_w := w\<rparr>)
      \<and> sent w = sent (a_w a) @ frame_bytes (cmd_code cmd, sent_payload cmd bs 0)" if "enough_bytes cmd bs" for cmd bs e
    using transmits_send [OF assms(3) that, of "[]" 0 "a\<lparr>a_ed := e\<rparr>"] sel(2) by (auto simp: transmits_def to_peer_def)
  show ?thesis
  proof (cases "ev_backspace ev")
    case True
    obtain ok e where e: "editor_delete_char (a_ed a) = Some (alloc_result ok, e)" "ok \<longrightarrow> gap e (butlast b) s"
      "heap (a_ed a) = [] \<longrightarrow> ok \<and> heap e = []" by (rule gap_delete [OF assms(2)]) blast
    then have ok: "ok" "heap e = []" using assms(1) by (auto simp: sharing_def)
    obtain w where w: "to_peer (send env CMD_DELETE_CHAR [] 0 0) (a\<lparr>a_ed := e\<rparr>) = Some (a\<lparr>a_ed := e, a_w := w\<rparr>)"
      "sent w = sent (a_w a) @ frame_bytes (key_packet ev)"
      using sent [of CMD_DELETE_CHAR "[]" e] True by (auto simp: enough_bytes_def key_packet_def sent_payload_def)
    have "\<not> ev_ctrl ev" using assms(4) by (simp add: typing_key_def)
    then show ?thesis using True e ok w sel(1) edited [OF frame_delete_char [OF e(1)]]
      by (simp add: commands_typing [OF assms(1,4)] backspace_key_def run_ed_def alloc_result_def key_edit_def Let_def)
        (simp add: sharing_def)
  next
    case False
    define c where "c = (if ev_enter ev then NL else ev_c ev)"
    have c: "c \<noteq> NUL" using assms(5) False by (auto simp: c_def)
    obtain ok e where e: "editor_insert_char c (a_ed a) = Some (alloc_result ok, e)" "ok \<longrightarrow> gap e (b @ [c]) s"
      "heap (a_ed a) = [] \<longrightarrow> ok \<and> heap e = []" by (rule gap_insert [OF assms(2) c]) blast
    then have ok: "ok" "heap e = []" using assms(1) by (auto simp: sharing_def)
    obtain w where w: "to_peer (send env CMD_INSERT_CHAR [Some (of_char c)] 1 0) (a\<lparr>a_ed := e\<rparr>) = Some (a\<lparr>a_ed := e, a_w := w\<rparr>)"
      "sent w = sent (a_w a) @ frame_bytes (key_packet ev)"
      using sent [of CMD_INSERT_CHAR "[of_char c]" e] False by (auto simp: enough_bytes_def key_packet_def sent_payload_def c_def)
    have "\<exists>redraw. commands_dispatch env ev a = insert_key env c redraw a \<and> (redraw = render RENDER_FULL \<or> redraw = set_render_ex RENDER_LINE)"
      using sel(1) False by (auto simp: commands_typing [OF assms(1,4)] enter_key_def char_key_def c_def)
    then obtain redraw where r: "commands_dispatch env ev a = insert_key env c redraw a"
      "redraw = render RENDER_FULL \<or> redraw = set_render_ex RENDER_LINE" by blast
    have "commands_dispatch env ev a = Some (redraw (a\<lparr>a_ed := e, a_w := w\<rparr>))"
      using r(1) e(1) ok w(1) by (simp add: insert_key_def run_ed_def alloc_result_def)
    moreover have "sharing (a\<lparr>a_ed := e, a_w := w\<rparr>)" using edited [OF frame_insert_char [OF e(1)] ok(2)] by (simp add: sharing_def)
    moreover have "gap (a_ed (redraw x)) b s = gap (a_ed x) b s" "a_w (redraw x) = a_w x" "sharing (redraw x) = sharing x" for x b s
      using r(2) by (auto simp: render_def [of _ x])
    ultimately show ?thesis using e(2) ok w(2) False by (simp add: key_edit_def c_def)
  qed
qed

lemma byte_char: "char_of (unat (of_char c :: u8)) = c"
  by (cases c) (simp add: char_of_def of_char_def bit_unsigned_iff bit_horner_sum_bit_iff)

lemma key_received:
  assumes "remote_gap (a_ed p) b s" and "heap (a_ed p) = []" and "ev_enter ev \<or> ev_c ev \<noteq> NUL \<or> ev_backspace ev"
  shows "\<exists>p'. commands_dispatch_serial (frame_event (key_packet ev)) p = Some p' \<and> remote_gap (a_ed p') (key_edit b ev) s
    \<and> heap (a_ed p') = []"
proof (cases "ev_backspace ev")
  case True
  obtain ok e where e: "editor_remote_delete_char (a_ed p) = Some (alloc_result ok, e)" "ok \<longrightarrow> remote_gap e (butlast b) s"
    "heap (a_ed p) = [] \<longrightarrow> ok \<and> heap e = []" by (rule remote_gap_delete [OF assms(1)]) blast
  with True assms(2) show ?thesis
    by (simp add: key_packet_def frame_event_def commands_dispatch_serial_def remote_delete_def run_ed_def alloc_result_def key_edit_def Let_def)
next
  case False
  define c where "c = (if ev_enter ev then NL else ev_c ev)"
  have c: "c \<noteq> NUL" using assms(3) False by (auto simp: c_def)
  obtain ok e where e: "editor_remote_insert_char c (a_ed p) = Some (alloc_result ok, e)" "ok \<longrightarrow> remote_gap e (b @ [c]) s"
    "heap (a_ed p) = [] \<longrightarrow> ok \<and> heap e = []" by (rule remote_gap_insert [OF assms(1) c]) blast
  define se where "se = frame_event (key_packet ev)"
  have se: "aread (se_payload se) 0 = Some (of_char c)" "se_cmd se = cmd_code CMD_INSERT_CHAR" "se_len se = 1"
    using False by (simp_all add: se_def frame_event_def key_packet_def c_def aread_def in_range_def)
  have "commands_dispatch_serial se p = Some (set_render_ex RENDER_REMOTE_LINE (p\<lparr>a_ed := e\<rparr>))"
    using se e(1,3) assms(2) by (simp add: commands_dispatch_serial_def remote_insert_def run_ed_def alloc_result_def byte_char)
  then show ?thesis using False e assms(2) by (simp add: key_edit_def c_def se_def)
qed

text \<open>C16: Typing is shared: while two machines show the same text, with the remote cursor of the second where the
  cursor of the first is, any sequence of characters, line breaks and backspaces typed into the first puts
  bytes on the line that, received by the second in any portions, make the same changes there: both show
  the text the keys make, row by row, and the remote cursor is again where the cursor is.\<close>

theorem typing_reaches_peer:
  assumes "in_step b s a p" and "waiting ss" and "uart_sends (e_io env) sent" and "\<forall>ev \<in> set ks. typing_key ev"
  shows "\<exists>a' line ss' p'. run_all (commands_dispatch env) ks a = Some a' \<and> sent (a_w a') = sent (a_w a) @ line
    \<and> deliver line (ss, p) = Some (ss', p') \<and> waiting ss' \<and> in_step (foldl key_edit b ks) s a' p'
    \<and> (\<exists>t. doc (a_ed a') t \<and> doc (a_ed p') t \<and> cursor_row (a_ed a') = remote_cursor_row (a_ed p')
         \<and> cursor_col (a_ed a') = remote_cursor_col (a_ed p'))"
  using assms
proof (induction ks arbitrary: b a p ss)
  case Nil
  then show ?case using mirrored [of "a_ed a" b s "a_ed p"]
    by (auto simp: deliver_def in_step_def)
next
  case (Cons ev ks)
  have k: "typing_key ev" "ev_enter ev \<or> ev_c ev \<noteq> NUL \<or> ev_backspace ev" using Cons.prems(4) by (auto simp: typing_key_def)
  obtain a1 where a1: "commands_dispatch env ev a = Some a1" "sharing a1" "gap (a_ed a1) (key_edit b ev) s"
    "sent (a_w a1) = sent (a_w a) @ frame_bytes (key_packet ev)"
    using key_sent [OF _ _ Cons.prems(3) k, of a b s] Cons.prems(1) by (auto simp: in_step_def)
  obtain p1 where p1: "commands_dispatch_serial (frame_event (key_packet ev)) p = Some p1" "remote_gap (a_ed p1) (key_edit b ev) s" "heap (a_ed p1) = []"
    using key_received [OF _ _ k(2), of p b s] Cons.prems(1) by (auto simp: in_step_def)
  have "length (snd (key_packet ev)) < 256" by (simp add: key_packet_def)
  then obtain s1 where s1: "deliver (frame_bytes (key_packet ev)) (ss, p) = Some (s1, p1)" "waiting s1"
    using deliver_frames [OF Cons.prems(2), of "[key_packet ev]" p p1] p1(1) by auto
  have st: "in_step (key_edit b ev) s a1 p1" using a1 p1 by (simp add: in_step_def)
  have ks: "\<forall>ev \<in> set ks. typing_key ev" using Cons.prems(4) by simp
  obtain a' line ss' p' t
    where r: "run_all (commands_dispatch env) ks a1 = Some a'" "sent (a_w a') = sent (a_w a1) @ line" "deliver line (s1, p1) = Some (ss', p')"
      "waiting ss'" "in_step (foldl key_edit (key_edit b ev) ks) s a' p'"
      "doc (a_ed a') t" "doc (a_ed p') t" "cursor_row (a_ed a') = remote_cursor_row (a_ed p')" "cursor_col (a_ed a') = remote_cursor_col (a_ed p')"
    using Cons.IH [OF st s1(2) Cons.prems(3) ks] by (elim exE conjE) (rule that; assumption)
  have "run_all (commands_dispatch env) (ev # ks) a = Some a'" using a1(1) r(1) by simp
  moreover have "sent (a_w a') = sent (a_w a) @ (frame_bytes (key_packet ev) @ line)" using a1(4) r(2) by simp
  moreover have "in_step (foldl key_edit b (ev # ks)) s a' p'" using r(5) by simp
  ultimately show ?case using r(4,6-) deliver_append [OF s1(1) r(3)] by blast
qed

text \<open>A line that keeps what is written to it, and two editors with the text \<open>a b\<close>.\<close>

definition line_env :: "u8 list env" where
  "line_env = \<lparr>e_io = \<lparr>sys_inb = (\<lambda>_ w. (Some 0x60, w)), sys_outb = (\<lambda>_ v w. (Some (), w @ [ucast v])), tickdelay = (\<lambda>_ w. w),
       sys_irqsetpolicy = (\<lambda>_ _ h w. (Some h, w)), sys_irqrmpolicy = (\<lambda>_ w. (Some (), w)), print_err = (\<lambda>_ w. w)\<rparr>,
     e_dirs = root_dirs, fopen_w = (\<lambda>_ w. (Some (), w)), fputs = (\<lambda>_ _ w. w), fopen_r = (\<lambda>_ w. (None, w))\<rparr>"

lemma line_env_sends: "uart_sends (e_io line_env) (\<lambda>w. w)"
  by (simp add: uart_sends_def line_env_def LSR_TX_READY_def)

definition sender :: "u8 list app" where
  "sender = (app_of ab [])\<lparr>remote := True\<rparr>"

definition receiver :: "unit app" where
  "receiver = app_of EditorProps.peer ()"

lemma sender_in_step: "in_step ''a b'' [] sender receiver"
proof -
  have "sharing sender" using typed_ab gap_ab
    by (simp add: sharing_def sender_def filetree_is_focused_def filetree0_def command_bar_get_mode_def command_bar0_def)
  then show ?thesis using gap_ab peer_ab by (simp add: in_step_def sender_def receiver_def)
qed

lemma typing_reaches_peer_witness:
  "\<exists>a' ss' p'. run_all (commands_dispatch line_env) [plain_key CHR ''x''] sender = Some a'
    \<and> deliver (a_w a') (serial_state0, receiver) = Some (ss', p') \<and> in_step ''a bx'' [] a' p'"
proof -
  have k: "\<forall>ev \<in> set [plain_key CHR ''x'']. typing_key ev" by (simp add: typing_key_def plain_key_def)
  have w: "a_w sender = []" by (simp add: sender_def)
  have e: "foldl key_edit ''a b'' [plain_key CHR ''x''] = ''a bx''" by (simp add: key_edit_def plain_key_def)
  show ?thesis using typing_reaches_peer [OF sender_in_step waiting0 line_env_sends k] unfolding w e append_Nil by blast
qed

section \<open>Blocks of rows\<close>

lemma payload16_be16:
  assumes "0 \<le> k" and "k < 65536" and "se_payload se = map Some (xs @ be16 k @ ys) @ rest" and "i = int (length xs)"
  shows "payload16 se i = Some k"
proof -
  have "aread (se_payload se) i = Some (word_of_int (drop_bit 8 k))"
    using assms(3,4) aread_split [of i "map Some xs" "Some (word_of_int (drop_bit 8 k))"] by (simp add: be16_def)
  moreover have "aread (se_payload se) (i + 1) = Some (word_of_int k)"
    using assms(3,4) aread_split [of "i + 1" "map Some (xs @ [word_of_int (drop_bit 8 k)])" "Some (word_of_int k)"] by (simp add: be16_def)
  moreover have "push_bit 8 (uint (word_of_int (drop_bit 8 k) :: u8)) OR uint (word_of_int k :: u8) = k"
  proof -
    have h: "uint (word_of_int (drop_bit 8 k) :: u8) = drop_bit 8 k"
      using assms(1,2) by (simp add: uint_word_of_int drop_bit_eq_div)
    have l: "uint (word_of_int k :: u8) = take_bit 8 k" by (simp add: unsigned_of_int)
    show ?thesis unfolding h l by (rule bit_eqI) (auto simp: bit_simps)
  qed
  ultimately show ?thesis by (simp add: payload16_def)
qed


text \<open>The packet of one row, and those of the rows from row \<open>r\<close> on.\<close>

definition row_packet :: "int \<Rightarrow> string \<Rightarrow> u8 \<times> u8 list" where
  "row_packet r s = (cmd_code CMD_UPDATE_LINE, be16 r @ map of_char s)"

fun row_packets :: "int \<Rightarrow> string list \<Rightarrow> (u8 \<times> u8 list) list" where
  "row_packets r [] = []"
| "row_packets r (s # N) = row_packet r s # row_packets (r + 1) N"

lemma row_number: "[util_get_MSB (word_of_int r), util_get_LSB (word_of_int r)] = be16 r"
proof -
  have m: "(0xFF :: u16) = mask 8" by (simp add: mask_eq_exp_minus_1)
  have "util_get_MSB (word_of_int r) = word_of_int (drop_bit 8 r)" unfolding util_get_MSB_def
    by (rule bit_word_eqI) (auto simp: bit_simps)
  moreover have "util_get_LSB (word_of_int r) = word_of_int r" unfolding util_get_LSB_def m
    by (rule bit_word_eqI) (auto simp: bit_simps)
  ultimately show ?thesis by (simp add: be16_def)
qed

lemma transmits_row:
  assumes "uart_sends (e_io env) sent" and "doc (a_ed a) (A @ s # B)" and "length s \<le> 250" and "r = int (length A)"
  shows "transmits sent (send_line env CMD_UPDATE_LINE r r) a [row_packet r s]"
proof -
  obtain b where l: "editor_get_line (a_ed a) r = Some (Some (map Some s @ Some NUL # b))" "editor_get_line_len (a_ed a) r = Some (int (length s))"
    using editor_line [OF assms(2)] assms(4) by blast
  have t: "text_bytes (map Some s @ Some NUL # b) = map Some (map of_char s) @ text_bytes (Some NUL # b)" by (simp add: text_bytes_def)
  have p: "sent_payload CMD_UPDATE_LINE (map of_char s) (word_of_int r) = snd (row_packet r s)"
    using assms(3) row_number [of r] by (simp add: sent_payload_def row_packet_def)
  have "transmits sent (send env CMD_UPDATE_LINE (map Some (map of_char s) @ text_bytes (Some NUL # b)) (int (length (map of_char s :: u8 list))) r) a
      [(cmd_code CMD_UPDATE_LINE, sent_payload CMD_UPDATE_LINE (map of_char s) (word_of_int r))]"
    by (rule transmits_send [OF assms(1)]) (simp add: enough_bytes_def)
  then show ?thesis unfolding p using l t by (simp add: transmits_def send_line_def row_packet_def)
qed

lemma transmits_rows:
  assumes "uart_sends (e_io env) sent" and "doc (a_ed a) (A @ N @ B)" and "\<forall>s \<in> set N. length s \<le> 250"
  shows "transmits sent (each (\<lambda>r. send_line env CMD_UPDATE_LINE r r) [int (length A)..int (length A) + int (length N) - 1]) a
    (row_packets (int (length A)) N)"
  using assms(2,3)
proof (induction N arbitrary: a A)
  case Nil
  show ?case unfolding transmits_def by (rule exI [of _ "a_w a"]) simp
next
  case (Cons s N)
  let ?f = "\<lambda>r. send_line env CMD_UPDATE_LINE r r"
  have up: "[int (length A)..int (length A) + int (length (s # N)) - 1] = int (length A) # [int (length (A @ [s]))..int (length (A @ [s])) + int (length N) - 1]"
    by (subst upto_rec1) (simp_all add: algebra_simps)
  have "transmits sent (?f (int (length A))) a [row_packet (int (length A)) s]"
    by (rule transmits_row [OF assms(1) _ _ refl]) (use Cons.prems in auto)
  moreover have "transmits sent (each ?f [int (length (A @ [s]))..int (length (A @ [s])) + int (length N) - 1]) (a\<lparr>a_w := w\<rparr>)
      (row_packets (int (length (A @ [s]))) N)" for w
    by (rule Cons.IH) (use Cons.prems in auto)
  ultimately have "transmits sent (\<lambda>a. ?f (int (length A)) a \<bind> each ?f [int (length (A @ [s]))..int (length (A @ [s])) + int (length N) - 1]) a
      ([row_packet (int (length A)) s] @ row_packets (int (length (A @ [s]))) N)"
    by (rule transmits_bind)
  moreover have "each ?f (i # is) = (\<lambda>a. ?f i a \<bind> each ?f is)" for i "is" by (rule ext) simp
  moreover have "int (length (A @ [s])) = int (length A) + 1" by simp
  ultimately show ?case unfolding up by (simp only: row_packets.simps append_Cons append_Nil)
qed

lemma doc_flags [simp]:
  "awaiting (a_ed (set_render_ex m a)) A n B = awaiting (a_ed a) A n B" "cursor_row (a_ed (set_render_ex m a)) = cursor_row (a_ed a)"
  "remote_cursor_row (a_ed (set_render_ex m a)) = remote_cursor_row (a_ed a)"
  "remote_cursor_col (a_ed (set_render_ex m a)) = remote_cursor_col (a_ed a)"
  by (simp_all add: set_render_ex_def editor_consume_scroll_dirty_def editor_consume_sel_dirty_def Let_def render_def awaiting_def rows_def
      split: if_splits)

text \<open>What a row packet does: the update of the row.\<close>

lemma row_received:
  assumes "editor_remote_update_line r (map Some s @ map (map_option (\<lambda>b. char_of (unat b))) (replicate (254 - length s) None)) (int (length s)) (a_ed p)
      = Some (res, e)"
    and "0 \<le> r" and "r < 65536" and "length s \<le> 250"
  shows "commands_dispatch_serial (frame_event (row_packet r s)) p = Some (set_render_ex RENDER_FULL (p\<lparr>a_ed := e\<rparr>))"
proof -
  define se where "se = frame_event (row_packet r s)"
  have n: "length (be16 r @ map of_char s :: u8 list) = length s + 2" by (simp add: be16_def)
  have pl: "se_payload se = map Some (be16 r @ map of_char s) @ replicate (254 - length s) None"
    using n unfolding se_def row_packet_def frame_event_def by simp
  have len: "uint (se_len se) = int (length s) + 2"
    using uint_len [of "be16 r @ map of_char s"] assms(4) n by (simp add: se_def row_packet_def frame_event_def)
  then have "se_len se \<noteq> 0" by auto
  moreover have "payload16 se 0 = Some r" using payload16_be16 [OF assms(2,3), of se "[]" "map of_char s"] pl by simp
  moreover have "bytes_text (drop 2 (se_payload se)) = map Some s @ map (map_option (\<lambda>b. char_of (unat b))) (replicate (254 - length s) None)"
    unfolding pl bytes_text_def by (simp add: be16_def byte_char)
  moreover have "se_cmd se = cmd_code CMD_UPDATE_LINE" by (simp add: se_def row_packet_def frame_event_def)
  ultimately show ?thesis using assms(1) len
    by (simp add: commands_dispatch_serial_def remote_line_def run_ed_def se_def [symmetric])
qed

lemma rows_received:
  assumes "awaiting (a_ed p) A (length N) B" and "A @ N @ B \<noteq> []" and "heap (a_ed p) = []" and "\<forall>s \<in> set N. length s \<le> 250"
    and "length A + length N \<le> 65536"
  shows "\<exists>p'. run_all commands_dispatch_serial (map frame_event (row_packets (int (length A)) N)) p = Some p'
    \<and> doc (a_ed p') (A @ N @ B) \<and> heap (a_ed p') = []"
  using assms
proof (induction N arbitrary: A p)
  case Nil
  then show ?case using awaiting_done by auto
next
  case (Cons s N)
  have w: "awaiting (a_ed p) A (Suc (length N)) B" using Cons.prems(1) by simp
  obtain ok e where e: "editor_remote_update_line (int (length A)) (map Some s @ map (map_option (\<lambda>b. char_of (unat b))) (replicate (254 - length s) None))
      (int (length s)) (a_ed p) = Some (alloc_result ok, e)" "ok \<longrightarrow> awaiting e (A @ [s]) (length N) B" "heap (a_ed p) = [] \<longrightarrow> ok \<and> heap e = []"
    by (rule update_line_awaiting [OF w])
  let ?p = "set_render_ex RENDER_FULL (p\<lparr>a_ed := e\<rparr>)"
  have p: "commands_dispatch_serial (frame_event (row_packet (int (length A)) s)) p = Some ?p"
    by (rule row_received [OF e(1)]) (use Cons.prems in auto)
  have "\<exists>p'. run_all commands_dispatch_serial (map frame_event (row_packets (int (length (A @ [s]))) N)) ?p = Some p'
      \<and> doc (a_ed p') ((A @ [s]) @ N @ B) \<and> heap (a_ed p') = []"
    by (rule Cons.IH) (use e Cons.prems in auto)
  then show ?case using p by (simp add: add.commute)
qed


lemma be16_payload:
  assumes "\<forall>k \<in> set ks. 0 \<le> k \<and> k < 65536" and "se_payload se = map Some (concat (map be16 ks)) @ rest" and "i < length ks"
  shows "payload16 se (int (2 * i)) = Some (ks ! i)"
proof (rule payload16_be16)
  have len: "length (concat (map be16 js)) = 2 * length js" for js by (induction js) (simp_all add: be16_def)
  have "concat (map be16 ks) = concat (map be16 (take i ks)) @ be16 (ks ! i) @ concat (map be16 (drop (Suc i) ks))"
    using id_take_nth_drop [OF assms(3)] by (metis concat_append concat.simps(2) list.simps(9) map_append)
  with assms(2) show "se_payload se = map Some (concat (map be16 (take i ks)) @ be16 (ks ! i) @ concat (map be16 (drop (Suc i) ks))) @ rest"
    by simp
  show "int (2 * i) = int (length (concat (map be16 (take i ks))))" unfolding len using assms(3) by simp
qed (use assms(1,3) nth_mem in blast)+

text \<open>What the packet with a cursor does: it places the peer's cursor, unless it is on the row of the own one.\<close>

lemma cursor_received:
  assumes "\<forall>k \<in> set [r, c]. 0 \<le> k \<and> k < 65536"
  shows "\<exists>m. commands_dispatch_serial (frame_event (cmd_code CMD_MOVE_CURSOR, be16 r @ be16 c)) p
    = Some (set_render_ex m (p\<lparr>a_ed := editor_set_remote_cursor r c (a_ed p)\<rparr>))"
proof -
  define se where "se = frame_event (cmd_code CMD_MOVE_CURSOR, be16 r @ be16 c)"
  have pl: "se_payload se = map Some (concat (map be16 [r, c])) @ replicate 252 None" by (simp add: se_def frame_event_def be16_def)
  have "payload16 se 0 = Some r" "payload16 se 2 = Some c"
    using be16_payload [OF assms pl, of 0] be16_payload [OF assms pl, of 1] by simp_all
  moreover have "se_cmd se = cmd_code CMD_MOVE_CURSOR" "se_len se = 4" by (simp_all add: se_def frame_event_def be16_def)
  ultimately show ?thesis unfolding se_def [symmetric] by (simp add: commands_dispatch_serial_def remote_move_def Let_def) blast
qed


text \<open>The packet that opens a block, and the packets \<open>sync_block\<close> puts on the line: \<open>N\<close> in the place of \<open>d\<close>
  rows from row \<open>r\<close> on.\<close>

definition block_packet :: "int \<Rightarrow> int \<Rightarrow> int \<Rightarrow> u8 \<times> u8 list" where
  "block_packet r d n = (cmd_code CMD_REPLACE_BLOCK, be16 r @ be16 d @ be16 n)"

definition block_packets :: "int \<Rightarrow> nat \<Rightarrow> string list \<Rightarrow> (u8 \<times> u8 list) list" where
  "block_packets r d N = (if d = 1 \<and> length N = 1 then [] else [block_packet r (int d) (int (length N))]) @ row_packets r N"

definition cursor_packet :: "editor \<Rightarrow> u8 \<times> u8 list" where
  "cursor_packet e = (cmd_code CMD_MOVE_CURSOR, be16 (cursor_row e) @ be16 (cursor_col e))"

lemma transmits_fixed:
  assumes "uart_sends (e_io env) sent" and "length bs = (if cmd = CMD_MOVE_CURSOR then 4 else 6)" and "cmd \<in> {CMD_MOVE_CURSOR, CMD_REPLACE_BLOCK}"
  shows "transmits sent (send env cmd (map Some bs) (int (length bs)) 0) a [(cmd_code cmd, bs)]"
  using transmits_send [OF assms(1), of cmd bs "[]" 0 a] assms(2,3) by (auto simp: enough_bytes_def sent_payload_def)

lemma transmits_cursor: "uart_sends (e_io env) sent \<Longrightarrow> transmits sent (send_cursor env) a [cursor_packet (a_ed a)]"
  using transmits_fixed [of env sent "be16 (cursor_row (a_ed a)) @ be16 (cursor_col (a_ed a))" CMD_MOVE_CURSOR a]
  by (simp add: transmits_def send_cursor_def send_cursor_at_def be16_def cursor_packet_def editor_get_cursor_row_def editor_get_cursor_col_def)

lemma transmits_block:
  assumes "uart_sends (e_io env) sent" and "doc (a_ed a) (A @ N @ B)" and "\<forall>s \<in> set N. length s \<le> 250" and "remote a"
  shows "transmits sent (sync_block env (int (length A)) (int d) (int (length N))) a
    (block_packets (int (length A)) d N @ [cursor_packet (a_ed a)])"
proof -
  have cur: "transmits sent (send_cursor env) (a\<lparr>a_w := w\<rparr>) [cursor_packet (a_ed a)]" for w
    using transmits_cursor [OF assms(1), of "a\<lparr>a_w := w\<rparr>"] by simp
  show ?thesis
  proof (cases "d = 1 \<and> length N = 1")
    case True
    obtain s where s: "N = [s]" using True by (auto simp: length_Suc_conv)
    have "transmits sent (\<lambda>a. send_line env CMD_UPDATE_LINE (int (length A)) (int (length A)) a \<bind> send_cursor env) a
        ([row_packet (int (length A)) s] @ [cursor_packet (a_ed a)])"
      by (rule transmits_bind [OF transmits_row [OF assms(1) _ _ refl] cur]) (use assms s in auto)
    then show ?thesis using True s assms(4) by (simp add: transmits_def sync_block_def block_packets_def)
  next
    case False
    let ?r = "int (length A)" and ?n = "int (length N)"
    let ?send = "send env CMD_REPLACE_BLOCK (map Some (be16 ?r @ be16 (int d) @ be16 ?n)) 6 0"
      and ?rows = "each (\<lambda>r. send_line env CMD_UPDATE_LINE r r) [?r..?r + ?n - 1]"
    have "transmits sent ?send a [block_packet ?r (int d) ?n]"
      using transmits_fixed [OF assms(1), of "be16 ?r @ be16 (int d) @ be16 ?n" CMD_REPLACE_BLOCK a] by (simp add: be16_def block_packet_def)
    moreover have "transmits sent (\<lambda>a. ?rows a \<bind> send_cursor env) (a\<lparr>a_w := w\<rparr>) (row_packets ?r N @ [cursor_packet (a_ed a)])" for w
      by (rule transmits_bind [OF transmits_rows [OF assms(1)]]) (use assms(2,3) cur in auto)
    ultimately have "transmits sent (\<lambda>a. ?send a \<bind> (\<lambda>a. ?rows a \<bind> send_cursor env)) a
        ([block_packet ?r (int d) ?n] @ row_packets ?r N @ [cursor_packet (a_ed a)])" by (rule transmits_bind)
    moreover have "\<not> (int d = 1 \<and> ?n = 1)" using False by auto
    then have "sync_block env ?r (int d) ?n a = ?send a \<bind> (\<lambda>a. ?rows a \<bind> send_cursor env)"
      using assms(4) unfolding sync_block_def by (simp only: if_False not_True_eq_False bind_assoc)
    moreover have "block_packets ?r d N = [block_packet ?r (int d) ?n] @ row_packets ?r N"
      by (simp only: block_packets_def if_not_P [OF False])
    ultimately show ?thesis by (simp add: transmits_def)
  qed
qed


lemma update_line_doc:
  assumes "doc e (A @ d # B)" and "heap e = []"
  shows "\<exists>e'. editor_remote_update_line (int (length A)) (map Some s @ Q) (int (length s)) e = Some (EDITOR_OK, e')
    \<and> doc e' (A @ s # B) \<and> heap e' = []"
proof -
  have op: "line_op (line_put0 (int (length s)) 0 (Some (map Some s @ Q)) 0 (int (length s))) d s"
    using line_put0_op [of 0 d "map Some s @ Q" "[]" s Q "int (length s)" 0 "int (length s)"] by simp
  obtain ok e1 where e1: "on_line (int (length A)) (line_put0 (int (length s)) 0 (Some (map Some s @ Q)) 0 (int (length s))) e = Some (ok, e1)"
    "ok \<longrightarrow> doc e1 (A @ s # B)" "heap e = [] \<longrightarrow> ok \<and> heap e1 = []"
    by (rule editsD [OF edits_line [OF op refl] assms(1)]) blast
  have "row_count e = int (length (A @ d # B))" using assms(1) by (auto simp: doc_def list_all2_lengthD)
  with e1 assms(2) show ?thesis by (auto simp: editor_remote_update_line_def alloc_result_def)
qed

lemma block_opened:
  assumes "editor_remote_replace_block r d n (a_ed p) = Some (res, e)" and "\<forall>k \<in> set [r, d, n]. 0 \<le> k \<and> k < 65536"
  shows "commands_dispatch_serial (frame_event (block_packet r d n)) p = Some (p\<lparr>a_ed := e\<rparr>)"
proof -
  define se where "se = frame_event (block_packet r d n)"
  have pl: "se_payload se = map Some (concat (map be16 [r, d, n])) @ replicate 250 None"
    by (simp add: se_def frame_event_def be16_def block_packet_def)
  have "payload16 se 0 = Some r" "payload16 se 2 = Some d" "payload16 se 4 = Some n"
    using be16_payload [OF assms(2) pl, of 0] be16_payload [OF assms(2) pl, of 1] be16_payload [OF assms(2) pl, of 2] by simp_all
  moreover have "se_cmd se = cmd_code CMD_REPLACE_BLOCK" "se_len se = 6" by (simp_all add: se_def frame_event_def be16_def block_packet_def)
  ultimately show ?thesis using assms(1) unfolding se_def [symmetric]
    by (simp add: commands_dispatch_serial_def remote_block_def run_ed_def)
qed

lemma block_received:
  assumes "doc (a_ed p) (A @ D @ B)" and "A @ N @ B \<noteq> []" and "heap (a_ed p) = []" and "\<forall>s \<in> set N. length s \<le> 250"
    and "length A + length N < 65536" and "length D < 65536"
  shows "\<exists>p'. run_all commands_dispatch_serial (map frame_event (block_packets (int (length A)) (length D) N)) p = Some p'
    \<and> doc (a_ed p') (A @ N @ B) \<and> heap (a_ed p') = []"
proof (cases "length D = 1 \<and> length N = 1")
  case True
  then obtain d s where ds: "D = [d]" "N = [s]" by (auto simp: length_Suc_conv)
  let ?Q = "map (map_option (\<lambda>b. char_of (unat b))) (replicate (254 - length s) (None :: u8 option))"
  obtain e where e: "editor_remote_update_line (int (length A)) (map Some s @ ?Q) (int (length s)) (a_ed p) = Some (EDITOR_OK, e)"
    "doc e (A @ s # B)" "heap e = []"
    using update_line_doc [of "a_ed p" A d B s ?Q] assms(1,3) ds by auto
  have "commands_dispatch_serial (frame_event (row_packet (int (length A)) s)) p = Some (set_render_ex RENDER_FULL (p\<lparr>a_ed := e\<rparr>))"
    by (rule row_received [OF e(1)]) (use assms ds in auto)
  with e ds show ?thesis by (simp add: block_packets_def)
next
  case False
  have n: "length N \<noteq> 0 \<or> A @ B \<noteq> []" using assms(2) by auto
  obtain ok e where e: "editor_remote_replace_block (int (length A)) (int (length D)) (int (length N)) (a_ed p) = Some (alloc_result ok, e)"
    "ok \<longrightarrow> awaiting e A (length N) B" "heap (a_ed p) = [] \<longrightarrow> ok \<and> heap e = []"
    by (rule replace_block_awaiting [OF assms(1) n])
  have "commands_dispatch_serial (frame_event (block_packet (int (length A)) (int (length D)) (int (length N)))) p = Some (p\<lparr>a_ed := e\<rparr>)"
    by (rule block_opened [OF e(1)]) (use assms(5,6) in auto)
  moreover have "\<exists>p'. run_all commands_dispatch_serial (map frame_event (row_packets (int (length A)) N)) (p\<lparr>a_ed := e\<rparr>) = Some p'
      \<and> doc (a_ed p') (A @ N @ B) \<and> heap (a_ed p') = []"
    by (rule rows_received) (use e assms in auto)
  ultimately show ?thesis unfolding block_packets_def if_not_P [OF False] by simp
qed

lemma short_packets:
  assumes "\<forall>s \<in> set N. length s \<le> 250"
  shows "q \<in> set (block_packets r d N) \<Longrightarrow> length (snd q) < 256"
proof -
  have "q \<in> set (row_packets i N) \<Longrightarrow> length (snd q) < 256" for i
    using assms by (induction N arbitrary: i) (auto simp: row_packet_def be16_def)
  then show "q \<in> set (block_packets r d N) \<Longrightarrow> length (snd q) < 256"
    by (auto simp: block_packets_def block_packet_def be16_def split: if_splits)
qed

text \<open>C17: A block edit is shared: after the first machine replaced a block of rows (a deleted selection, a paste, a
  toggled comment, a joined row), what \<open>sync_block\<close> puts on the line, received by a peer that still shows the old
  rows, gives it the same text, for any numbers of old and new rows of up to 250 characters; and the peer
  shows the remote cursor where the cursor is, unless that is the row of its own cursor.\<close>

theorem block_reaches_peer:
  assumes "remote a" and "doc (a_ed a) (A @ N @ B)" and "\<forall>s \<in> set N. length s \<le> 250"
    and "doc (a_ed p) (A @ D @ B)" and "heap (a_ed p) = []" and "length A + length N < 65536" and "length D < 65536"
    and "\<forall>k \<in> {cursor_row (a_ed a), cursor_col (a_ed a)}. 0 \<le> k \<and> k < 65536"
    and "waiting ss" and "uart_sends (e_io env) sent"
  shows "\<exists>w line ss' p'. sync_block env (int (length A)) (int (length D)) (int (length N)) a = Some (a\<lparr>a_w := w\<rparr>)
    \<and> sent w = sent (a_w a) @ line \<and> deliver line (ss, p) = Some (ss', p') \<and> waiting ss' \<and> doc (a_ed p') (A @ N @ B)
    \<and> (cursor_row (a_ed p') = cursor_row (a_ed a)
       \<or> remote_cursor_row (a_ed p') = cursor_row (a_ed a) \<and> remote_cursor_col (a_ed p') = cursor_col (a_ed a))"
proof -
  let ?ps = "block_packets (int (length A)) (length D) N" and ?c = "cursor_packet (a_ed a)"
  obtain w where w: "sync_block env (int (length A)) (int (length D)) (int (length N)) a = Some (a\<lparr>a_w := w\<rparr>)"
    "sent w = sent (a_w a) @ concat (map frame_bytes (?ps @ [?c]))"
    using transmits_block [OF assms(10,2,3,1)] unfolding transmits_def by blast
  have "A @ N @ B \<noteq> []" using assms(2) by (auto simp: doc_def)
  then obtain p1 where p1: "run_all commands_dispatch_serial (map frame_event ?ps) p = Some p1" "doc (a_ed p1) (A @ N @ B)"
    using block_received [OF assms(4) _ assms(5,3,6,7)] by blast
  obtain m where "commands_dispatch_serial (frame_event ?c) p1
      = Some (set_render_ex m (p1\<lparr>a_ed := editor_set_remote_cursor (cursor_row (a_ed a)) (cursor_col (a_ed a)) (a_ed p1)\<rparr>))" (is "_ = Some ?p2")
    using cursor_received assms(8) unfolding cursor_packet_def by (metis empty_set insert_iff list.simps(15))
  then have r: "run_all commands_dispatch_serial (map frame_event (?ps @ [?c])) p = Some ?p2"
    using p1(1) by (simp add: run_all_append)
  have "doc (editor_set_remote_cursor i j e) t = doc e t" for i j e t by (simp add: editor_set_remote_cursor_def doc_def rows_def)
  then have "doc (a_ed ?p2) (A @ N @ B)" using p1(2) by simp
  moreover have "length (snd q) < 256" if "q \<in> set (?ps @ [?c])" for q
    using that short_packets [OF assms(3), of q "int (length A)" "length D"] by (auto simp: cursor_packet_def be16_def)
  then obtain ss' where "deliver (concat (map frame_bytes (?ps @ [?c]))) (ss, p) = Some (ss', ?p2)" "waiting ss'"
    using deliver_frames [OF assms(9) _ r] by blast
  moreover have "cursor_row (a_ed ?p2) = cursor_row (a_ed a) \<or> remote_cursor_row (a_ed ?p2) = cursor_row (a_ed a)
      \<and> remote_cursor_col (a_ed ?p2) = cursor_col (a_ed a)"
    by (simp add: editor_set_remote_cursor_def)
  ultimately show ?thesis using w by blast
qed


lemma typed_two_rows:
  "doc (EditorProps.typed [CHR ''x'', NL, CHR ''y'']) [''x'', ''y''] \<and> cursor_row (EditorProps.typed [CHR ''x'', NL, CHR ''y'']) = 1
    \<and> cursor_col (EditorProps.typed [CHR ''x'', NL, CHR ''y'']) = 1"
proof -
  let ?e = "EditorProps.typed [CHR ''x'', NL, CHR ''y'']"
  have "gap ?e [CHR ''x'', NL, CHR ''y''] []" using gap_typed [of "[CHR ''x'', NL, CHR ''y'']"] by simp
  then obtain t where t: "doc ?e t" "clean t" "at_pos t (cursor_row ?e) (cursor_col ?e) [CHR ''x'', NL, CHR ''y''] []"
    unfolding gap_def by blast
  have "at_pos [''x'', ''y''] 1 1 [CHR ''x'', NL, CHR ''y''] []" unfolding at_pos_def
    by (rule exI [of _ "[''x'']"], rule exI [of _ "''y''"], rule exI [of _ "[]"], rule exI [of _ "[]"]) (simp add: above_def)
  from at_pos_unique [OF t(3) this t(2)] show ?thesis using t(1) by simp
qed

lemma block_reaches_peer_witness:
  "\<exists>w ss' p'. sync_block line_env 0 1 2 ((app_of (EditorProps.typed [CHR ''x'', NL, CHR ''y'']) [])\<lparr>remote := True\<rparr>)
      = Some ((app_of (EditorProps.typed [CHR ''x'', NL, CHR ''y'']) w)\<lparr>remote := True\<rparr>)
    \<and> deliver w (serial_state0, app_of new_editor ()) = Some (ss', p') \<and> waiting ss' \<and> doc (a_ed p') [''x'', ''y'']"
proof -
  let ?a = "(app_of (EditorProps.typed [CHR ''x'', NL, CHR ''y'']) ([] :: u8 list))\<lparr>remote := True\<rparr>"
  have h: "doc (a_ed ?a) ([] @ [''x'', ''y''] @ [])" "doc (a_ed (app_of new_editor ())) ([] @ [[]] @ [])" "heap (a_ed (app_of new_editor ())) = []"
    "\<forall>k \<in> {cursor_row (a_ed ?a), cursor_col (a_ed ?a)}. 0 \<le> k \<and> k < 65536" "remote ?a"
    using typed_two_rows gap_new_editor by simp_all
  have "?a\<lparr>a_w := w\<rparr> = (app_of (EditorProps.typed [CHR ''x'', NL, CHR ''y'']) w)\<lparr>remote := True\<rparr>" for w by (simp add: app_of_def)
  then show ?thesis
    using block_reaches_peer [OF h(5,1) _ h(2,3) _ _ h(4) waiting0 line_env_sends] by simp blast
qed


section \<open>Shared files\<close>

text \<open>
  A row of a shared file is not terminated: \<open>editor_load_line\<close> copies a terminator behind the text, but the
  packet carries none, so the byte behind the row is an indeterminate one of the event, and reading the row as a C
  string (as \<open>execute_save\<close> does) runs into it.
\<close>

lemma shared_row_unterminated:
  assumes "line_rep0 ln []" and "NUL \<notin> set s" and "length s < 256"
  shows "\<exists>ln' h b. line_put (int (length s)) 0 (Some (bytes_text (se_payload (frame_event (cmd_code CMD_FILE_LINE, map of_char s)))))
      0 (int (length s)) ln [] = Some (True, ln', h)
    \<and> ln_len ln' = int (length s) \<and> ln_buf ln' = Some b \<and> cstring b = None"
proof -
  obtain ln1 h where e: "line_ensure_cap ln (int (length s)) [] = Some (True, ln1, h)" "line_rep ln1 []" "int (length s) < ln_cap ln1"
    by (rule ensure_cap_rep0 [OF assms(1), of "int (length s)" "[]"]) auto
  then obtain J where J: "ln_buf ln1 = Some (Some NUL # J)" "length s \<le> length J" by (auto simp: line_rep_def)
  have n: "256 - length s = Suc (255 - length s)" using assms(3) by simp
  have p: "bytes_text (se_payload (frame_event (cmd_code CMD_FILE_LINE, map of_char s))) = [] @ (map Some s @ [None]) @ replicate (255 - length s) None"
    unfolding frame_event_def n by (simp add: bytes_text_def byte_char del: replicate_Suc) (simp add: n)
  have b: "Some NUL # J = [] @ take (Suc (length s)) (Some NUL # J) @ drop (length s) J" by simp
  have "blit (Some NUL # J) 0 ([] @ (map Some s @ [None]) @ replicate (255 - length s) None) 0 (int (length s) + 1)
      = Some ([] @ (map Some s @ [None]) @ drop (length s) J)"
    by (subst b, rule blit_split) (use J(2) in simp_all)
  then show ?thesis using e(1) J(1) p assms(2) by (simp add: line_put_def cstring_indeterminate)
qed

end
