(* ===== verification/Frames.thy ===== *)
theory Frames
  imports CommandsSafe
begin

text \<open>
  Drawing a frame: when \<open>view_render\<close> has no undefined behaviour, and what is then on the screen. The row of
  a text is drawn with the colours the cache keeps for it, so these have to reach to the end of the row;
  regions are copied to the screen without a check, so they have to lie on it.
\<close>

section \<open>Colours that fit\<close>

definition covers :: "string \<Rightarrow> u32 cells \<Rightarrow> bool" where
  "covers s a \<longleftrightarrow> length s \<le> length a \<and> (\<forall>i < length s. a ! i \<noteq> None)"

definition fits :: "string list \<Rightarrow> canvas list \<Rightarrow> bool" where
  "fits t cols \<longleftrightarrow> (\<forall>r < length t. \<forall>a. row_buf cols r = Some a \<longrightarrow> covers (t ! r) a)"

definition colours_fit :: "string list \<Rightarrow> highlight_cache \<Rightarrow> bool" where
  "colours_fit t hc \<longleftrightarrow> (\<exists>lang opn cols n. cache lang opn cols n hc \<and> fits t cols)"

lemma colours_fitI: "cache lang opn cols n hc \<Longrightarrow> fits t cols \<Longrightarrow> colours_fit t hc"
  by (auto simp: colours_fit_def)

lemma colours_fitE:
  assumes "colours_fit t hc"
  obtains lang opn cols n where "cache lang opn cols n hc" and "fits t cols"
  using assms by (auto simp: colours_fit_def)

lemma colours_fit_ok: "colours_fit t hc \<Longrightarrow> cache_ok hc"
  by (auto simp: colours_fit_def cache_ok_def)

lemma shown_covers: "shown lang k s a \<Longrightarrow> covers s a"
proof -
  assume s: "shown lang k s a"
  have "a ! i \<noteq> None" if "i < length s" for i
  proof -
    have "a ! i = take (length s) a ! i" using that by simp
    also have "\<dots> = map Some (fst (highlight_ref lang k s)) ! i" using s by (simp add: shown_def)
    also have "\<dots> \<noteq> None" using that highlight_ref_length [of lang k s] by simp
    finally show ?thesis .
  qed
  with s show ?thesis by (simp add: covers_def shown_def)
qed

lemma covers_Nil [simp]: "covers [] a"
  by (simp add: covers_def)

lemma fits_grow [simp]: "fits t (cols @ replicate k None) = fits t cols"
  by (simp add: fits_def)

lemma fits_free: "fits (t[r := []]) cols \<Longrightarrow> fits t (cols[r := None])"
  by (auto simp: fits_def row_buf_free nth_list_update split: if_splits)

lemma fits_weaken: "fits t cols \<Longrightarrow> fits (t[r := []]) cols"
  unfolding fits_def by (metis covers_Nil length_list_update nth_list_update_eq nth_list_update_neq)

lemma get_line_fits:
  assumes "doc e t" and "colours_fit t hc" and "r < length t"
  shows "yields (highlight_cache_get_line e (int r) hc) (\<lambda>(c, hc'). colours_fit t hc' \<and> (\<forall>a. c = Some a \<longrightarrow> covers (t ! r) a))"
proof -
  obtain lang opn cols n where h: "cache lang opn cols n hc" "fits t cols" by (rule colours_fitE [OF assms(2)])
  obtain c hc' cols' where g: "highlight_cache_get_line e (int r) hc = Some (c, hc')" "cache lang opn cols' n hc'"
    "row_buf cols' = (row_buf cols)(r := c)" "\<forall>a. row_buf cols r = Some a \<longrightarrow> c = Some a"
    "row_buf cols r = None \<and> t ! r \<noteq> [] \<longrightarrow> (\<exists>a. c = Some a \<and> shown lang (r < length opn \<and> opn ! r) (t ! r) a)"
    "row_buf cols r = None \<and> t ! r = [] \<longrightarrow> c = None"
    by (rule get_line_rows [OF assms(1) h(1) assms(3)])
  have c: "covers (t ! r) a" if "c = Some a" for a
    using that g(4-6) h(2) assms(3) by (cases "row_buf cols r"; cases "t ! r = []") (auto simp: fits_def dest: shown_covers)
  have "fits t cols'" using h(2) c unfolding fits_def g(3) by auto
  then show ?thesis using g(1,2) c by (simp add: colours_fitI)
qed

lemma free_row_fits:
  assumes "colours_fit (t[r := []]) hc"
  shows "yields (highlight_cache_free_row (int r) hc) (colours_fit t)"
proof -
  obtain lang opn cols n where h: "cache lang opn cols n hc" "fits (t[r := []]) cols" by (rule colours_fitE [OF assms])
  obtain hc' where "highlight_cache_free_row (int r) hc = Some hc'" "cache lang opn (cols[r := None]) n hc'"
    by (rule cache_free_row [OF h(1)])
  then show ?thesis using fits_free [OF h(2)] by (simp add: colours_fitI)
qed

lemma rebuild_loop_fits:
  assumes "doc e t" and "cache lang opn cols n hc" and "fits t cols"
  shows "yields (rebuild_loop e (int (length t)) (int r) k hc) (colours_fit t)"
  using assms(2,3)
proof (induction "length t - r" arbitrary: r opn cols hc k rule: less_induct)
  case less
  show ?case
  proof (cases "r < length t")
    case False
    then show ?thesis using colours_fitI [OF less.prems] by (subst rebuild_loop.simps) simp
  next
    case True
    obtain len has_dst hc1 hc2 cols2 where h: "editor_get_line_len e (int r) = Some len"
      "ensure_row_cap (int r) len hc = Some (has_dst, hc1)"
      "color_row e (int r) k has_dst hc1 = Some (line_out lang k (t ! r), hc2)" "cache lang opn cols2 n hc2"
      "\<And>i. i \<noteq> r \<Longrightarrow> row_buf cols2 i = row_buf cols i" "\<And>a. row_buf cols2 r = Some a \<Longrightarrow> shown lang k (t ! r) a"
      using recolor_row [OF assms(1) less.prems(1) True, of k] by metis
    have f2: "fits t cols2" unfolding fits_def
    proof (intro allI impI)
      fix i a assume "i < length t" "row_buf cols2 i = Some a"
      then show "covers (t ! i) a" using h(5) [of i] h(6) [of a] less.prems(2) shown_covers by (cases "i = r") (auto simp: fits_def)
    qed
    have sr: "int r + 1 = int (Suc r)" by simp
    have cap: "hc_open_cap hc2 = int (length opn)" using h(4) by (simp add: cache_def)
    have rest: "yields (rebuild_loop e (int (length t)) (int (Suc r)) k' hc') (colours_fit t)"
      if "cache lang opn' cols' n hc'" "fits t cols'" for opn' cols' hc' k'
      by (rule less.hyps [OF _ that]) (use True in simp)
    show ?thesis
    proof (cases "Suc r < length opn")
      case False
      then show ?thesis using h(1-3) True rest [OF h(4) f2] cap by (subst rebuild_loop.simps) (simp add: sr)
    next
      case True
      obtain hc3 where h3: "highlight_cache_free_row (int (Suc r)) hc2 = Some hc3" "cache lang opn (cols2[Suc r := None]) n hc3"
        by (rule cache_free_row [OF h(4)])
      obtain hc4 where h4: "set_open (int (Suc r)) (line_out lang k (t ! r)) hc3 = Some hc4"
        "cache lang (opn[Suc r := line_out lang k (t ! r)]) (cols2[Suc r := None]) n hc4" by (rule cache_set_open [OF h3(2) True])
      have f4: "fits t (cols2[Suc r := None])" by (rule fits_free [OF fits_weaken [OF f2]])
      show ?thesis using h(1-3) \<open>r < length t\<close> rest [OF h4(2) f4] cap True h3(1) h4(1) cache_open_at(2) [OF h(4) True] aread_map [OF True]
          colours_fitI [OF h(4) f2]
        by (subst rebuild_loop.simps) (simp add: sr)
    qed
  qed
qed

lemma rebuild_from_fits:
  assumes "doc e t" and "colours_fit t hc"
  shows "yields (highlight_cache_rebuild_from e row hc) (colours_fit t)"
proof (cases "0 \<le> row \<and> row < int (length t)")
  case False
  then show ?thesis using assms(2) doc_row_count [OF assms(1)]
    by (auto simp: highlight_cache_rebuild_from_def editor_get_row_count_def)
next
  case True
  obtain lang opn cols n where h: "cache lang opn cols n hc" "fits t cols" by (rule colours_fitE [OF assms(2)])
  obtain hc1 k where h1: "block_comment_open_grow (int (length t) + 1) hc = Some (True, hc1)"
    "cache lang (opn @ replicate k False) cols n hc1" "int (length t) + 1 \<le> int (length opn + k)" by (rule open_grow [OF h(1)])
  obtain r where r: "row = int r" "r < length (opn @ replicate k False)" using True h1(3) by (cases row) auto
  show ?thesis
    using True h1(1) doc_row_count [OF assms(1)] cache_open_at(2) [OF h1(2) r(2)] aread_map [OF r(2)]
      rebuild_loop_fits [OF assms(1) h1(2) h(2), of r]
    unfolding highlight_cache_rebuild_from_def by (simp add: editor_get_row_count_def Let_def r(1) del: map_append)
qed


section \<open>Painting\<close>

text \<open>Whatever is drawn into the back buffer leaves a picture there.\<close>

definition paints :: "(video \<Rightarrow> video option) \<Rightarrow> bool" where
  "paints f \<longleftrightarrow> (\<forall>v p. drawn v p \<longrightarrow> (\<exists>q. f v = Some (draw q v)))"

lemma paintsI: "(\<And>v p. drawn v p \<Longrightarrow> \<exists>q. f v = Some (draw q v)) \<Longrightarrow> paints f"
  by (auto simp: paints_def)

lemma paintsD: "paints f \<Longrightarrow> drawn v p \<Longrightarrow> \<exists>q. f v = Some (draw q v)"
  by (auto simp: paints_def)

lemma paints_Some: "paints Some"
  by (rule paintsI) (metis drawn_eq)

lemma paints_bind:
  assumes "paints f" and "paints g"
  shows "paints (\<lambda>v. f v \<bind> g)"
proof (rule paintsI)
  fix v p assume d: "drawn v p"
  obtain q where q: "f v = Some (draw q v)" using paintsD [OF assms(1) d] by blast
  then have "drawn (draw q v) q" using drawn_mode [OF d] by simp
  from paintsD [OF assms(2) this] obtain r where "g (draw q v) = Some (draw r v)" by auto
  with q show "\<exists>r. f v \<bind> g = Some (draw r v)" by (intro exI [of _ r]) simp
qed

lemma paints_if: "paints f \<Longrightarrow> paints g \<Longrightarrow> paints (\<lambda>v. if b then f v else g v)"
  by (cases b) simp_all

lemma paints_rect: "paints (bb_draw_rect x y w h c)"
proof -
  have "paints (rect_from i x y w n c)" for i n
  proof (induction n arbitrary: i)
    case 0
    show ?case using paints_Some by simp
  next
    case (Suc n)
    have "paints (bb_draw_hline x (y + of_nat i) w c)" by (rule paintsI) (use bb_draw_hline_draws in blast)
    from paints_bind [OF this Suc.IH] show ?case by simp
  qed
  then show ?thesis by (simp add: bb_draw_rect_def [abs_def])
qed

lemma paints_put32: "drawn v p \<Longrightarrow> 0 \<le> i \<Longrightarrow> i < h_res v * v_res v \<Longrightarrow> \<exists>q. put32 i c v = Some (draw q v)"
proof -
  assume d: "drawn v p" and i: "0 \<le> i" "i < h_res v * v_res v"
  have w: "0 < h_res v" using drawn_mode [OF d] by (simp add: mode32_def)
  have "i div h_res v < v_res v" using i(2) by (intro div_below) (simp_all add: w mult.commute)
  then show ?thesis using put_pixel [OF d, of "i mod h_res v" "i div h_res v" c] w i(1)
    by (auto simp: pos_imp_zdiv_nonneg_iff)
qed

lemma paints_words: "drawn v p \<Longrightarrow> 0 \<le> i \<Longrightarrow> i + int n \<le> h_res v * v_res v \<Longrightarrow> \<exists>q. put_words i n c v = Some (draw q v)"
proof (induction n arbitrary: i v p)
  case 0
  then show ?case using drawn_eq by auto
next
  case (Suc n)
  obtain q where q: "put32 i c v = Some (draw q v)" using paints_put32 [OF Suc.prems(1,2), of c] Suc.prems(3) by auto
  have "drawn (draw q v) q" using drawn_mode [OF Suc.prems(1)] by simp
  from Suc.IH [OF this, of "i + 1"] Suc.prems(2,3) q show ?case by auto
qed

lemma paints_clear: "c \<noteq> 0 \<Longrightarrow> paints (bb_clear c)"
proof (rule paintsI)
  fix v p assume c: "c \<noteq> 0" and d: "drawn v p"
  have "0 \<le> h_res v * v_res v" "h_res v * v_res v < 2 ^ 32" using drawn_mode [OF d] by (auto simp: mode32_def)
  then show "\<exists>q. bb_clear c v = Some (draw q v)"
    using paints_words [OF d, of 0 "nat (h_res v * v_res v)" c] c by (simp add: bb_clear_def)
qed

lemma paints_char: "paints (draw_char x y ch color)"
proof -
  have cols: "\<exists>q. draw_cols n col (uint k * h_res v) x bits color v = Some (draw q v)"
    if "drawn v p" "uint k < v_res v" "col + n \<le> 8" for n col and k :: u16 and bits v p
    using draw_cols_draws [OF that(1) _ that(2,3), of x bits color] by auto
  have "paints (draw_rows n row x y glyph color)" for n row glyph
  proof (induction n arbitrary: row)
    case 0
    show ?case using paints_Some by simp
  next
    case (Suc n)
    show ?case
    proof (rule paintsI)
      fix v p assume d: "drawn v p"
      have m: "h_res v * v_res v < 2 ^ 32" "0 < h_res v" "0 < v_res v" using drawn_mode [OF d] by (auto simp: mode32_def)
      let ?k = "word_of_int (y + int row) :: u16"
      show "\<exists>q. draw_rows (Suc n) row x y glyph color v = Some (draw q v)"
      proof (cases "y + int row < 0 \<or> v_res v \<le> uint ?k")
        case True
        then show ?thesis using paintsD [OF Suc.IH d] drawn_eq [OF d] by (auto simp: Let_def bb_row_ptr_def)
      next
        case False
        then have k: "uint ?k < v_res v" by simp
        then have "uint ?k * h_res v < v_res v * h_res v" using m(2) by (rule mult_strict_right_mono)
        then have lt: "uint ?k * h_res v < 2 ^ 32" using m(1) unfolding mult.commute [of "v_res v"] by (rule less_trans)
        have r: "(uint ?k * h_res v) mod 2 ^ 32 = uint ?k * h_res v" by (rule mod_pos_pos_trivial [OF _ lt]) (use m(2) in simp)
        obtain q where q: "draw_cols (nat FONT_W) 0 (uint ?k * h_res v) x (glyph ! row) color v = Some (draw q v)"
          using cols [OF d k, of 0 "nat FONT_W" "glyph ! row"] by (auto simp: FONT_W_def)
        have "drawn (draw q v) q" using drawn_mode [OF d] by simp
        from paintsD [OF Suc.IH this] show ?thesis using False q r by (auto simp: Let_def bb_row_ptr_def)
      qed
    qed
  qed
  then show ?thesis unfolding draw_char_def using paints_if [OF paints_Some, of "draw_rows (nat FONT_H) 0 x y (font_8x16 ! of_char ch) color"]
    by simp
qed

lemma paints_string: "paints (draw_string x y s color)"
proof -
  have "paints (draw_from start_x x y s color)" for start_x x y
  proof (induction s arbitrary: x y)
    case Nil
    show ?case using paints_Some by simp
  next
    case (Cons c s)
    have e: "draw_from start_x x y (c # s) color = (if c = NL then draw_from start_x start_x (y + FONT_H) s color
        else (\<lambda>v. draw_char x y c color v \<bind> draw_from start_x (x + FONT_W) y s color))" by (rule ext) simp
    show ?case unfolding e using Cons.IH paints_bind [OF paints_char Cons.IH] by simp
  qed
  then show ?thesis by (simp add: draw_string_def [abs_def])
qed


section \<open>Redrawing\<close>

text \<open>State \<open>b\<close> of the program is \<open>a\<close> with another picture in the back buffer and other colours kept.\<close>

definition redrawn :: "string list \<Rightarrow> 'w app \<Rightarrow> 'w app \<Rightarrow> bool" where
  "redrawn t a b \<longleftrightarrow> mode32 (a_vd a) \<and> (\<exists>hc p. b = a\<lparr>a_hc := hc, a_vd := draw p (a_vd a)\<rparr> \<and> colours_fit t hc)"

lemma redrawnI: "mode32 (a_vd a) \<Longrightarrow> colours_fit t hc \<Longrightarrow> redrawn t a (a\<lparr>a_hc := hc, a_vd := draw p (a_vd a)\<rparr>)"
  by (auto simp: redrawn_def)

lemma redrawnE:
  assumes "redrawn t a b"
  obtains hc p where "b = a\<lparr>a_hc := hc, a_vd := draw p (a_vd a)\<rparr>" and "colours_fit t hc" and "mode32 (a_vd a)"
  using assms by (auto simp: redrawn_def)

lemma redrawnD:
  assumes "redrawn t a b"
  shows "a_ed b = a_ed a" "a_sc b = a_sc a" "a_cb b = a_cb a" "a_ft b = a_ft a" "a_mc b = a_mc a" "a_ms b = a_ms a"
    "a_cl b = a_cl a" "a_tm b = a_tm a" "a_start b = a_start a" "colours_fit t (a_hc b)"
  by (rule redrawnE [OF assms], simp)+

lemma redrawn_drawn: "redrawn t a b \<Longrightarrow> \<exists>p. drawn (a_vd b) p"
  by (erule redrawnE) (metis app.select_convs(7) app.surjective app.update_convs(7) drawn_draw)

lemma redrawn_start:
  assumes "drawn (a_vd a) p" and "colours_fit t (a_hc a)"
  shows "redrawn t a a"
proof -
  have "a = a\<lparr>a_hc := a_hc a, a_vd := draw p (a_vd a)\<rparr>" by (simp add: drawn_eq [OF assms(1), symmetric])
  with redrawnI [OF drawn_mode [OF assms(1)] assms(2), of p] show ?thesis by simp
qed

lemma redrawn_vd:
  assumes "paints f" and "redrawn t a b"
  shows "yields (on_vd f b) (redrawn t a)"
proof -
  obtain hc p where b: "b = a\<lparr>a_hc := hc, a_vd := draw p (a_vd a)\<rparr>" "colours_fit t hc" "mode32 (a_vd a)"
    by (rule redrawnE [OF assms(2)])
  then have "drawn (a_vd b) p" by simp
  from paintsD [OF assms(1) this] obtain q where "f (a_vd b) = Some (draw q (a_vd a))" using b(1) by auto
  then show ?thesis using b redrawnI [OF b(3,2), of q] by (simp add: on_vd_def)
qed

lemma redrawn_cache:
  assumes "redrawn t a b" and "colours_fit t hc"
  shows "redrawn t a (b\<lparr>a_hc := hc\<rparr>)"
proof -
  obtain h p where b: "b = a\<lparr>a_hc := h, a_vd := draw p (a_vd a)\<rparr>" "mode32 (a_vd a)" by (rule redrawnE [OF assms(1)])
  then have "b\<lparr>a_hc := hc\<rparr> = a\<lparr>a_hc := hc, a_vd := draw p (a_vd a)\<rparr>" by simp
  then show ?thesis using redrawnI [OF b(2) assms(2)] by simp
qed

lemma redrawn_hc: "redrawn t a b \<Longrightarrow> yields (f (a_hc b)) (colours_fit t) \<Longrightarrow> yields (on_hc f b) (redrawn t a)"
  by (auto simp: on_hc_def yields_def redrawn_cache)

lemma yields_each:
  assumes "P a" and "\<And>x b. x \<in> set xs \<Longrightarrow> P b \<Longrightarrow> yields (f x b) P"
  shows "yields (each f xs a) P"
  using assms
proof (induction xs arbitrary: a)
  case (Cons x xs)
  have "yields (f x a) P" using Cons.prems by simp
  moreover have "yields (each f xs b) P" if "P b" for b by (rule Cons.IH [OF that]) (use Cons.prems(2) in simp)
  ultimately show ?case by (auto simp: yields_def)
qed simp

lemma redrawn_fill: "redrawn t a b \<Longrightarrow> yields (fill x y w h c b) (redrawn t a)"
  unfolding fill_def by (rule redrawn_vd [OF paints_rect])

lemma redrawn_fill_rect: "redrawn t a b \<Longrightarrow> yields (fill_rect r c b) (redrawn t a)"
  unfolding fill_rect_def by (rule redrawn_fill)

lemma redrawn_text: "redrawn t a b \<Longrightarrow> yields (write_text x y s c b) (redrawn t a)"
  unfolding write_text_def by (rule redrawn_vd [OF paints_string])

lemma redrawn_cursors: "redrawn t a b \<Longrightarrow> yields (draw_cursor c r b) (redrawn t a)" "redrawn t a b \<Longrightarrow> yields (draw_remote_cursor c r b) (redrawn t a)"
  by (simp_all add: draw_cursor_def draw_remote_cursor_def redrawn_fill)

lemma redrawn_colors:
  assumes "redrawn t a b" and "doc (a_ed a) t" and "r < length t"
  shows "yields (get_colors (int r) b) (\<lambda>(c, b'). redrawn t a b' \<and> (\<forall>x. c = Some x \<longrightarrow> covers (t ! r) x))"
  using get_line_fits [OF assms(2) redrawnD(10) [OF assms(1)] assms(3)] redrawn_cache [OF assms(1)]
  by (auto simp: get_colors_def yields_def redrawnD(1) [OF assms(1)])

text \<open>The characters of a row that the colours reach to.\<close>

lemma redrawn_char:
  assumes "redrawn t a b" and "covers s x" and "0 \<le> c" and "c < int (length s)"
  shows "yields (colored_char px y (Some (map Some s @ J)) x c b) (redrawn t a)"
proof -
  have "nat c < length s" "nat c < length x" using assms(2-4) by (auto simp: covers_def)
  moreover from this obtain color where "x ! nat c = Some color" using assms(2) by (auto simp: covers_def)
  ultimately have "char_at (Some (map Some s @ J)) c = Some (s ! nat c)" "aread x c = Some color"
    using assms(3) by (simp_all add: char_at_def aread_def in_range_def nth_append)
  then show ?thesis using redrawn_vd [OF paints_char assms(1), of "px c" y "s ! nat c" color] by (simp add: colored_char_def)
qed

lemma redrawn_chars:
  assumes "redrawn t a b" and "covers s x" and "\<forall>c \<in> set cs. 0 \<le> c \<and> c < int (length s)"
  shows "yields (each (colored_char px y (Some (map Some s @ J)) x) cs b) (redrawn t a)"
  by (rule yields_each [where P = "redrawn t a", OF assms(1)]) (use redrawn_char assms(2,3) in blast)

text \<open>A row: what is left to do once its colours have been fetched.\<close>

lemma row_steps:
  assumes "redrawn t a b" and "doc (a_ed a) t" and "r < length t"
    and "yields (get_colors (int r) b) (\<lambda>(c, d). redrawn t a d \<and> R c d)"
    and "int (length (t ! r)) \<le> scc \<Longrightarrow> P b" and "\<And>d. redrawn t a d \<Longrightarrow> R None d \<Longrightarrow> scc < int (length (t ! r)) \<Longrightarrow> P d"
    and "\<And>d x J. redrawn t a d \<Longrightarrow> R (Some x) d \<Longrightarrow> scc < int (length (t ! r)) \<Longrightarrow>
      yields (each (colored_char (\<lambda>k. r_x (l_editor (a_sc a)) + (k - scc) * FONT_W) y (Some (map Some (t ! r) @ J)) x) [scc..int (length (t ! r)) - 1] d) P"
  shows "yields (text_row y scc (int r) b) P"
proof -
  obtain J where J: "editor_get_line (a_ed a) (int r) = Some (Some (map Some (t ! r) @ Some NUL # J))"
    "editor_get_line_len (a_ed a) (int r) = Some (int (length (t ! r)))" by (rule doc_line [OF assms(2,3)])
  show ?thesis
  proof (cases "int (length (t ! r)) \<le> scc")
    case True
    then show ?thesis using J(2) redrawnD(1) [OF assms(1)] assms(5) by (simp add: text_row_def)
  next
    case False
    have "yields (get_colors (int r) b \<bind> (\<lambda>(c, d). case c of None \<Rightarrow> Some d | Some colors \<Rightarrow> do {
        line \<leftarrow> editor_get_line (a_ed d) (int r);
        draw_line_colored (r_x (l_editor (a_sc d))) y line scc colors (int (length (t ! r))) d })) P"
    proof (rule yields_then [OF assms(4)], clarify)
      fix c d assume d: "redrawn t a d" "R c d"
      then show "yields (case c of None \<Rightarrow> Some d | Some colors \<Rightarrow> do {
          line \<leftarrow> editor_get_line (a_ed d) (int r);
          draw_line_colored (r_x (l_editor (a_sc d))) y line scc colors (int (length (t ! r))) d }) P"
        using assms(6,7) False J(1) redrawnD(1,2) [OF d(1)] by (cases c) (simp_all add: draw_line_colored_def)
    qed
    then show ?thesis using False J(2) redrawnD(1) [OF assms(1)] by (simp add: text_row_def del: yields_simps(3))
  qed
qed

lemma redrawn_row:
  assumes "redrawn t a b" and "doc (a_ed a) t" and "r < length t" and "0 \<le> scc"
  shows "yields (text_row y scc (int r) b) (redrawn t a)"
  by (rule row_steps [OF assms(1-3) redrawn_colors [OF assms(1-3)]]) (use assms(1,4) in \<open>auto intro!: redrawn_chars\<close>)


section \<open>The parts of the screen\<close>

lemma redrawn_status:
  assumes "redrawn t a b" and "bar_inv (a_cb a)"
  shows "yields (render_status_bar b) (redrawn t a)"
proof -
  obtain s f m where h: "cstring (input (a_cb a)) = Some s" "cstring (filename (a_cb a)) = Some f" "cstring (status_msg (a_cb a)) = Some m"
    using assms(2) typed_input by (auto simp: bar_inv_def holds_def)
  have left: "yields (status_left b') (redrawn t a)" if "redrawn t a b'" for b'
  proof -
    have "yields (do { a \<leftarrow> write_text 4 y s1 c1 b'; a \<leftarrow> write_text x y s2 c2 a; fill z y FONT_W FONT_H c3 a }) (redrawn t a)" for y x z s1 c1 s2 c2 c3
      by (intro yields_then [OF redrawn_text [OF that]] yields_then [OF redrawn_text] redrawn_fill)
    then show ?thesis using h redrawnD(3) [OF that] redrawn_text [OF that]
      by (simp add: status_left_def Let_def command_bar_get_input_def command_bar_get_status_def command_bar_get_filename_def del: yields_simps(3))
  qed
  show ?thesis unfolding render_status_bar_def Let_def
    by (intro yields_then [OF redrawn_fill_rect [OF assms(1)]] yields_then [OF left] yields_then [OF redrawn_text] redrawn_text)
qed

lemma redrawn_filetree:
  assumes "redrawn t a b" and "ft_inv (a_ft a)"
  shows "yields (draw_filetree n b) (redrawn t a)"
proof -
  have row: "yields (filetree_row i b') (redrawn t a)"
    if "redrawn t a b'" "i \<in> set [filetree_get_scroll (a_ft a)..min (filetree_get_scroll (a_ft a) + n) (filetree_get_count (a_ft a)) - 1]" for i b'
  proof -
    have i: "0 \<le> i" "i < entry_count (a_ft a)" "entry_count (a_ft a) \<le> int (length (ft_entries (a_ft a)))"
      using that(2) assms(2) by (auto simp: filetree_get_scroll_def filetree_get_count_def ft_inv_def)
    then obtain e where e: "filetree_get_entry i (a_ft a) = Some (Some e)"
      by (auto simp: filetree_get_entry_def entry_at_def in_range_def)
    have "yields (do { a \<leftarrow> (if c then fill x y w h k b' else Some b'); write_text 4 y s k' a }) (redrawn t a)" for c x y w h k s k'
      by (intro yields_then [where P = "redrawn t a"] redrawn_text) (use redrawn_fill [OF that(1)] that(1) in simp)
    then show ?thesis using e redrawnD(4) [OF that(1)] by (simp add: filetree_row_def Let_def del: yields_simps(3))
  qed
  have "yields (each filetree_row [filetree_get_scroll (a_ft a)..min (filetree_get_scroll (a_ft a) + n) (filetree_get_count (a_ft a)) - 1] b') (redrawn t a)"
    if "redrawn t a b'" for b'
    by (rule yields_each [where P = "redrawn t a", OF that]) (rule row)
  then have "yields (each filetree_row [filetree_get_scroll (a_ft b')..min (filetree_get_scroll (a_ft b') + n) (filetree_get_count (a_ft b')) - 1] b') (redrawn t a)"
    if "redrawn t a b'" for b' using that redrawnD(4) [OF that] by simp
  then show ?thesis unfolding draw_filetree_def Let_def
    by (intro yields_then [OF redrawn_fill_rect [OF assms(1)]], intro yields_then [OF redrawn_fill])
qed

lemma redrawn_gutter:
  assumes "redrawn t a b" and "0 \<le> r_w (l_gutter (a_sc a)) sdiv FONT_W - GUTTER_PAD" and "r_w (l_gutter (a_sc a)) sdiv FONT_W - GUTTER_PAD < 9"
  shows "yields (draw_gutter s e b) (redrawn t a)"
proof -
  have row: "yields (gutter_row d r b') (redrawn t a)" if "redrawn t a b'" for d r b'
    using redrawn_text [OF that] by (simp add: gutter_row_def Let_def)
  have "yields (each (gutter_row d) rs b') (redrawn t a)" if "redrawn t a b'" for d rs b'
    by (rule yields_each [where P = "redrawn t a", OF that]) (rule row)
  then show ?thesis unfolding draw_gutter_def Let_def redrawnD(2) [OF assms(1)]
    by (intro yields_then [OF redrawn_fill_rect [OF assms(1)]]) (use assms(2,3) in simp)
qed

lemma line_len_defined:
  assumes "doc e t"
  shows "\<exists>n. editor_get_line_len e r = Some n"
proof (cases "0 \<le> r \<and> r < int (length t)")
  case True
  then have n: "nat r < length t" "int (nat r) = r" by auto
  obtain J where "editor_get_line_len e (int (nat r)) = Some (int (length (t ! nat r)))" by (rule doc_line [OF assms n(1)])
  then show ?thesis using True by simp
next
  case False
  then show ?thesis using doc_row_count [OF assms] by (auto simp: editor_get_line_len_def)
qed

lemma redrawn_selection:
  assumes "redrawn t a b" and "doc (a_ed a) t"
  shows "yields (draw_selection_bg e b) (redrawn t a)"
proof -
  have len: "\<exists>n. editor_get_line_len (a_ed a) r = Some n" for r by (rule line_len_defined [OF assms(2)])
  have row: "yields (selection_row rng r b') (redrawn t a)" if b: "redrawn t a b'" for rng r b'
  proof -
    obtain n where n: "editor_get_line_len (a_ed a) r = Some n" using len by blast
    obtain sr sc er ec where "rng = (sr, sc, er, ec)" by (cases rng)
    then show ?thesis using b redrawn_fill [OF b] n redrawnD(1) [OF b]
      by (simp add: selection_row_def Let_def split del: if_split) (simp split: if_splits)
  qed
  have "yields (each (selection_row rng) rs b) (redrawn t a)" for rng rs
    by (rule yields_each [where P = "redrawn t a", OF assms(1)]) (rule row)
  then show ?thesis by (simp add: draw_selection_bg_def Let_def split: prod.splits)
qed

lemma redrawn_lines:
  assumes "redrawn t a b" and "doc (a_ed a) t" and "0 \<le> scr" and "0 \<le> scc" and "e \<le> int (length t)"
  shows "yields (draw_text_lines scr e scc b) (redrawn t a)"
  unfolding draw_text_lines_def
proof (rule yields_each [where P = "redrawn t a", OF assms(1)])
  fix r b' assume r: "r \<in> set [scr..e - 1]" and b': "redrawn t a b'"
  then have n: "nat r < length t" "int (nat r) = r" using assms(3,5) by auto
  show "yields (text_row (EDITOR_Y + (r - scr) * FONT_H) scc r b') (redrawn t a)"
    using redrawn_row [OF b' assms(2) n(1) assms(4)] n(2) by simp
qed

lemma redrawn_scrollbar:
  assumes "redrawn t a b"
  shows "yields (draw_scrollbar b) (redrawn t a)"
  unfolding draw_scrollbar_def Let_def
  by (rule yields_then [OF redrawn_fill_rect [OF assms]]) (simp add: redrawn_fill)


section \<open>The layout\<close>

text \<open>The screen has room for file tree, gutter and a row of text; the line numbers fit their array.\<close>

definition roomy :: "video \<Rightarrow> bool" where
  "roomy v \<longleftrightarrow> 256 \<le> h_res v \<and> 42 \<le> v_res v"

definition numbered :: "editor \<Rightarrow> bool" where
  "numbered e \<longleftrightarrow> count_digits (editor_get_row_count e) 1 < 9"

text \<open>The layout is that of the screen: rows and columns that are in view lie on it.\<close>

definition laid_out :: "'w app \<Rightarrow> bool" where
  "laid_out a \<longleftrightarrow> (let ed = l_editor (a_sc a); v = a_vd a in
     0 \<le> r_x ed \<and> 0 \<le> r_w ed \<and> r_x ed + r_w ed \<le> h_res v \<and> r_y ed = EDITOR_Y
     \<and> sc_vis_cols (a_sc a) * FONT_W \<le> r_w ed \<and> EDITOR_Y + sc_vis_rows (a_sc a) * FONT_H \<le> v_res v \<and> 0 < sc_vis_rows (a_sc a)
     \<and> l_status_bar (a_sc a) = \<lparr>r_x = 0, r_y = v_res v - FONT_H, r_w = h_res v, r_h = FONT_H\<rparr> \<and> FONT_H \<le> v_res v)"

lemma count_digits_ge: "d \<le> count_digits n d"
proof (induction n d rule: count_digits.induct)
  case (1 n d)
  then show ?case by (subst count_digits.simps) auto
qed

lemma gutter_digits:
  fixes a :: "'w app"
  defines "l \<equiv> scene_update_layout a"
  assumes "numbered (a_ed a)"
  shows "0 \<le> r_w (l_gutter (a_sc l)) sdiv FONT_W - GUTTER_PAD" "r_w (l_gutter (a_sc l)) sdiv FONT_W - GUTTER_PAD < 9"
    "0 \<le> r_x (l_editor (a_sc l))" "r_x (l_editor (a_sc l)) \<le> 240"
proof -
  define d where "d = max 3 (count_digits (editor_get_row_count (a_ed a)) 1)"
  have d: "3 \<le> d" "d < 9" using assms(2) by (simp_all add: d_def numbered_def)
  have m: "(if count_digits (editor_get_row_count (a_ed a)) 1 < GUTTER_DIGITS_MIN then GUTTER_DIGITS_MIN
      else count_digits (editor_get_row_count (a_ed a)) 1) = d" by (simp add: d_def GUTTER_DIGITS_MIN_def)
  have g: "r_w (l_gutter (a_sc l)) = 8 * (d + 2)" "r_x (l_editor (a_sc l)) = (if filetree_is_visible (a_ft a) then 160 else 0) + 8 * (d + 2)"
    unfolding l_def scene_update_layout_def Let_def m by (simp_all add: FONT_W_def GUTTER_PAD_def FILETREE_W_PX_def FILETREE_COLS_def)
  have "8 * (d + 2) sdiv 8 = d + 2" using d sdiv_div [of "8 * (d + 2)" 8] by simp
  with g d show "0 \<le> r_w (l_gutter (a_sc l)) sdiv FONT_W - GUTTER_PAD" "r_w (l_gutter (a_sc l)) sdiv FONT_W - GUTTER_PAD < 9"
    "0 \<le> r_x (l_editor (a_sc l))" "r_x (l_editor (a_sc l)) \<le> 240"
    by (simp_all add: FONT_W_def GUTTER_PAD_def)
qed

lemma layout_laid_out:
  assumes "roomy (a_vd a)" and "numbered (a_ed a)"
  shows "laid_out (scene_update_layout a)"
proof -
  let ?l = "scene_update_layout a"
  have b: "l_status_bar (a_sc ?l) = \<lparr>r_x = 0, r_y = v_res (a_vd a) - FONT_H, r_w = h_res (a_vd a), r_h = FONT_H\<rparr>"
    "r_w (l_editor (a_sc ?l)) = h_res (a_vd a) - 8 - r_x (l_editor (a_sc ?l))"
    by (simp_all add: scene_update_layout_def Let_def vg_get_h_res_def vg_get_v_res_def SCROLLBAR_W_def)
  have w: "0 \<le> r_w (l_editor (a_sc ?l))" using gutter_digits(4) [OF assms(2)] b(2) assms(1) by (simp add: roomy_def)
  have v: "0 \<le> v_res (a_vd a) - EDITOR_Y - FONT_H" "16 \<le> v_res (a_vd a) - EDITOR_Y - FONT_H"
    using assms(1) by (simp_all add: roomy_def EDITOR_Y_def FONT_H_def)
  have "FONT_H \<le> v_res (a_vd a)" using assms(1) by (simp add: roomy_def FONT_H_def)
  moreover have "0 < (v_res (a_vd a) - EDITOR_Y - FONT_H) div 16" using v by (simp add: pos_imp_zdiv_pos_iff)
  moreover have "(v_res (a_vd a) - EDITOR_Y - FONT_H) div 16 * 16 \<le> v_res (a_vd a) - EDITOR_Y - FONT_H"
    "r_w (l_editor (a_sc ?l)) div 8 * 8 \<le> r_w (l_editor (a_sc ?l))"
    by (simp_all add: minus_mod_eq_div_mult [symmetric])
  ultimately show ?thesis using gutter_digits(3) [OF assms(2)] b w v layout_simps [of a]
    unfolding laid_out_def Let_def by (simp add: sdiv_div FONT_W_def FONT_H_def)
qed

section \<open>The modes of a frame\<close>

lemma full_steps:
  assumes "doc (a_ed a) t" and "highlight_cache_sync (int (length t)) row (a_hc a) = Some hc"
  shows "render_full col row scr scc a = do {
      a \<leftarrow> on_vd (bb_clear COLOR_BG) (set_viewport (scene_update_layout (a\<lparr>a_hc := hc\<rparr>)));
      let end_r = scr + sc_vis_rows (a_sc a);
      let end_r = (if editor_get_row_count (a_ed a) < end_r then editor_get_row_count (a_ed a) else end_r);
      a \<leftarrow> (if filetree_is_visible (a_ft a) then draw_filetree (sc_vis_rows (a_sc a)) a else Some a);
      a \<leftarrow> draw_gutter scr end_r a;
      a \<leftarrow> (if editor_sel_is_active (a_ed a) then draw_selection_bg end_r a else Some a);
      a \<leftarrow> draw_text_lines scr end_r scc a;
      a \<leftarrow> draw_cursor col row a;
      a \<leftarrow> draw_remote_cursor (editor_get_remote_cursor_col (a_ed a)) (editor_get_remote_cursor_row (a_ed a)) a;
      a \<leftarrow> draw_scrollbar a;
      render_status_bar a }"
  using assms doc_row_count [OF assms(1)] by (simp add: render_full_def on_hc_def editor_get_row_count_def Let_def)

lemma full_drawn:
  assumes "drawn (a_vd a) p" and "doc (a_ed a) t" and "bar_inv (a_cb a)" and "ft_inv (a_ft a)" and "0 \<le> scr" and "0 \<le> scc"
    and "highlight_cache_sync (int (length t)) row (a_hc a) = Some hc" and "colours_fit t hc" and "numbered (a_ed a)"
  shows "yields (render_full col row scr scc a) (redrawn t (set_viewport (scene_update_layout (a\<lparr>a_hc := hc\<rparr>))))"
proof -
  define l where "l = scene_update_layout (a\<lparr>a_hc := hc\<rparr>)"
  define a1 where "a1 = set_viewport l"
  have l: "a_ed l = a_ed a" "a_ft l = a_ft a" "a_vd l = a_vd a" "a_cb l = a_cb a" "a_hc l = hc"
    by (simp_all add: l_def scene_update_layout_def Let_def)
  have a1: "a_ft a1 = a_ft a" "a_vd a1 = a_vd a" "a_cb a1 = a_cb a" "a_hc a1 = hc" "a_sc a1 = a_sc l" "doc (a_ed a1) t"
    using l assms(2) by (simp_all add: a1_def set_viewport_def editor_set_viewport_def doc_def rows_def)
  have r1: "redrawn t a1 a1" using redrawn_start [of a1 p t] a1 assms(1,8) by simp
  have g: "0 \<le> r_w (l_gutter (a_sc a1)) sdiv FONT_W - GUTTER_PAD" "r_w (l_gutter (a_sc a1)) sdiv FONT_W - GUTTER_PAD < 9"
    using gutter_digits(1,2) [of "a\<lparr>a_hc := hc\<rparr>"] assms(9) unfolding a1(5) l_def by simp_all
  have tree: "yields (if filetree_is_visible (a_ft b) then draw_filetree k b else Some b) (redrawn t a1)" if "redrawn t a1 b" for b k
    using redrawn_filetree [OF that] a1(1) assms(4) that by simp
  have sel: "yields (if editor_sel_is_active (a_ed b) then draw_selection_bg e b else Some b) (redrawn t a1)" if "redrawn t a1 b" for b e
    using redrawn_selection [OF that a1(6)] that by simp
  have lines: "yields (draw_text_lines scr e scc b) (redrawn t a1)" if "redrawn t a1 b" "e \<le> int (length t)" for b e
    by (rule redrawn_lines [OF that(1) a1(6) assms(5,6) that(2)])
  have st: "yields (render_status_bar b) (redrawn t a1)" if "redrawn t a1 b" for b
    using redrawn_status [OF that] a1(3) assms(3) by simp
  have rc: "editor_get_row_count (a_ed b) = int (length t)" if "redrawn t a1 b" for b
    using doc_row_count [OF a1(6)] redrawnD(1) [OF that] by (simp add: editor_get_row_count_def)
  have cl: "yields (on_vd (bb_clear COLOR_BG) a1) (redrawn t a1)"
    by (rule redrawn_vd [OF paints_clear r1]) (simp add: COLOR_BG_def)
  show ?thesis unfolding full_steps [OF assms(2,7)] l_def [symmetric] a1_def [symmetric] Let_def
    by (intro yields_then [OF cl] yields_then [OF tree] yields_then [OF redrawn_gutter [OF _ g]] yields_then [OF sel] yields_then [OF lines]
        yields_then [OF redrawn_cursors(1)] yields_then [OF redrawn_cursors(2)] yields_then [OF redrawn_scrollbar] st) (simp_all add: rc)
qed

lemma line_drawn:
  assumes "drawn (a_vd a) p" and "doc (a_ed a) t" and "colours_fit (t[nat row := []]) (a_hc a)" and "0 \<le> row" and "row < int (length t)"
    and "0 \<le> scc"
  shows "yields (render_line col row scr scc a) (redrawn t a)"
proof -
  obtain hc where hc: "highlight_cache_free_row row (a_hc a) = Some hc" "colours_fit t hc"
    using free_row_fits [OF assms(3)] assms(4) by (auto simp: yields_def)
  have "a\<lparr>a_hc := hc\<rparr> = a\<lparr>a_hc := hc, a_vd := draw p (a_vd a)\<rparr>" by (simp add: drawn_eq [OF assms(1), symmetric])
  with redrawnI [OF drawn_mode [OF assms(1)] hc(2), of p] have r: "redrawn t a (a\<lparr>a_hc := hc\<rparr>)" by simp
  have rb: "yields (on_hc (highlight_cache_rebuild_from (a_ed b) row) b) (redrawn t a)" if "redrawn t a b" for b
    by (rule redrawn_hc [OF that rebuild_from_fits]) (use redrawnD [OF that] assms(2) in simp_all)
  have row: "yields (text_row y scc row b) (redrawn t a)" if "redrawn t a b" for y b
    using redrawn_row [OF that assms(2), of "nat row" scc y] assms(4-6) by simp
  have "yields (render_line col row scr scc a) (redrawn t a) = yields (do {
      a \<leftarrow> on_hc (highlight_cache_rebuild_from (a_ed (a\<lparr>a_hc := hc\<rparr>)) row) (a\<lparr>a_hc := hc\<rparr>);
      a \<leftarrow> fill (r_x (l_editor (a_sc a))) (r_y (l_editor (a_sc a)) + (row - scr) * FONT_H) (r_w (l_editor (a_sc a))) FONT_H COLOR_BG a;
      a \<leftarrow> text_row (r_y (l_editor (a_sc a)) + (row - scr) * FONT_H) scc row a;
      draw_cursor col row a }) (redrawn t a)"
    using hc(1) by (simp add: render_line_def on_hc_def Let_def fill_def on_vd_def)
  also have "\<dots>" by (intro yields_then [OF rb [OF r]] yields_then [OF redrawn_fill] yields_then [OF row] redrawn_cursors)
  finally show ?thesis .
qed


lemma remote_line_drawn:
  assumes "redrawn t a a" and "doc (a_ed a) t" and "0 \<le> scc"
  shows "yields (render_remote_line scr scc a) (redrawn t a)"
proof -
  let ?r = "editor_get_remote_cursor_row (a_ed a)"
  have cs: "\<exists>u. cstring (map Some s @ Some NUL # J) = Some u" for s J by (induction s) auto
  have line: "\<exists>b u. editor_get_line (a_ed a) ?r = Some (Some b) \<and> cstring b = Some u"
  proof (cases "0 \<le> ?r \<and> ?r < int (length t)")
    case True
    then have n: "nat ?r < length t" by auto
    obtain J where "editor_get_line (a_ed a) (int (nat ?r)) = Some (Some (map Some (t ! nat ?r) @ Some NUL # J))"
      by (rule doc_line [OF assms(2) n])
    with True cs show ?thesis by simp
  next
    case False
    then show ?thesis using doc_row_count [OF assms(2)] by (auto simp: editor_get_line_def)
  qed
  then obtain b u where bu: "editor_get_line (a_ed a) ?r = Some (Some b)" "cstring b = Some u" by blast
  have "yields (do {
      line \<leftarrow> editor_get_line (a_ed c) ?r;
      line \<leftarrow> line;
      s \<leftarrow> cstring line;
      c \<leftarrow> (if scc < int (length s) then (if scc < 0 then None else write_text x y (drop (nat scc) s) COLOR_TEXT c) else Some c);
      draw_remote_cursor k ?r c }) (redrawn t a)" if "redrawn t a c" for c x y k
  proof -
    have "yields (do {
        c \<leftarrow> (if scc < int (length u) then (if scc < 0 then None else write_text x y (drop (nat scc) u) COLOR_TEXT c) else Some c);
        draw_remote_cursor k ?r c }) (redrawn t a)"
      by (rule yields_then [where P = "redrawn t a"]) (use redrawn_text [OF that] that assms(3) redrawn_cursors(2) in auto)
    then show ?thesis using bu redrawnD(1) [OF that] by (simp del: yields_simps(3))
  qed
  then show ?thesis unfolding render_remote_line_def Let_def by (intro yields_then [OF redrawn_fill [OF assms(1)]])
qed

lemma char_drawn:
  assumes "redrawn t a a" and "doc (a_ed a) t" and "0 \<le> scc"
  shows "yields (render_char col row scr scc a) (redrawn t a)"
proof -
  let ?c = "sc_prev_col (a_sc a)" and ?r = "sc_prev_row (a_sc a)"
  have rb: "yields (on_hc (highlight_cache_rebuild_from (a_ed a) ?r) a) (redrawn t a)"
    by (rule redrawn_hc [OF assms(1) rebuild_from_fits]) (use redrawnD [OF assms(1)] assms(2) in simp_all)
  have cell: "yields (do {
      len \<leftarrow> editor_get_line_len (a_ed b) ?r;
      if ?c < len then do {
        (colors, b) \<leftarrow> get_colors ?r b;
        case colors of None \<Rightarrow> Some b
        | Some colors \<Rightarrow> do { line \<leftarrow> editor_get_line (a_ed b) ?r; colored_char (\<lambda>_. x) y line colors ?c b }
      } else Some b }) (redrawn t a)" if b: "redrawn t a b" and c: "0 \<le> ?c" for b x y
  proof (cases "0 \<le> ?r \<and> ?r < int (length t)")
    case False
    then show ?thesis using doc_row_count [OF assms(2)] c b redrawnD(1) [OF b] by (auto simp: editor_get_line_len_def)
  next
    case True
    then have n: "nat ?r < length t" "int (nat ?r) = ?r" by auto
    obtain J where J: "editor_get_line (a_ed a) (int (nat ?r)) = Some (Some (map Some (t ! nat ?r) @ Some NUL # J))"
      "editor_get_line_len (a_ed a) (int (nat ?r)) = Some (int (length (t ! nat ?r)))" by (rule doc_line [OF assms(2) n(1)])
    have "yields (case k of None \<Rightarrow> Some d
        | Some colors \<Rightarrow> do { line \<leftarrow> editor_get_line (a_ed d) ?r; colored_char (\<lambda>_. x) y line colors ?c d }) (redrawn t a)"
      if "redrawn t a d \<and> (\<forall>x. k = Some x \<longrightarrow> covers (t ! nat ?r) x)" and "?c < int (length (t ! nat ?r))" for k d
      using that redrawnD(1) [of t a d] J(1) c True redrawn_char [of t a d "t ! nat ?r" _ ?c "\<lambda>_. x" y "Some NUL # J"]
      by (cases k) auto
    then have "?c < int (length (t ! nat ?r)) \<Longrightarrow> yields (get_colors (int (nat ?r)) b \<bind> (\<lambda>(k, d). case k of None \<Rightarrow> Some d
        | Some colors \<Rightarrow> do { line \<leftarrow> editor_get_line (a_ed d) ?r; colored_char (\<lambda>_. x) y line colors ?c d })) (redrawn t a)"
      by (intro yields_then [OF redrawn_colors [OF b assms(2) n(1)]]) auto
    then show ?thesis using J(2) True b redrawnD(1) [OF b] by (simp del: yields_simps(3))
  qed
  have fin: "yields (if k then draw_cursor col row b else Some b) (redrawn t a)" if "redrawn t a b" for b k
    using redrawn_cursors(1) [OF that] that by simp
  have "yields (if in_view a ?c ?r scr scc then do {
      a \<leftarrow> on_hc (highlight_cache_rebuild_from (a_ed a) ?r) a;
      let cx = model_to_px a ?c;
      let cy = model_to_py a ?r;
      a \<leftarrow> fill cx cy FONT_W FONT_H COLOR_BG a;
      len \<leftarrow> editor_get_line_len (a_ed a) ?r;
      if ?c < len then do {
        (colors, a) \<leftarrow> get_colors ?r a;
        case colors of None \<Rightarrow> Some a
        | Some colors \<Rightarrow> do { line \<leftarrow> editor_get_line (a_ed a) ?r; colored_char (\<lambda>_. cx) cy line colors ?c a }
      } else Some a } else Some a) (redrawn t a)"
  proof (cases "in_view a ?c ?r scr scc")
    case True
    then have "0 \<le> ?c" using assms(3) by (simp add: in_view_def)
    show ?thesis unfolding if_P [OF True] Let_def
      by (intro yields_then [OF rb] yields_then [OF redrawn_fill] cell) (use \<open>0 \<le> ?c\<close> in simp_all)
  qed (use assms(1) in simp)
  from yields_then [OF this fin] show ?thesis by (simp add: render_char_def Let_def del: yields_simps(3))
qed


section \<open>Copying to the screen\<close>

definition box :: "int \<Rightarrow> int \<Rightarrow> int \<Rightarrow> int \<Rightarrow> (int \<times> int) set" where
  "box x y w h = {x..<x + w} \<times> {y..<y + h}"

abbreviation sprite_box :: "mouse_cursor \<Rightarrow> int \<Rightarrow> int \<Rightarrow> (int \<times> int) set" where
  "sprite_box mc x y \<equiv> box x y (mouse_cursor_width mc) (mouse_cursor_height mc)"

text \<open>State \<open>b\<close> is \<open>a\<close> after the picture \<open>h\<close> has been copied to the screen, at least on the pixels \<open>U\<close>; elsewhere
  the screen may still show \<open>s\<close>.\<close>

definition copied :: "picture \<Rightarrow> picture \<Rightarrow> (int \<times> int) set \<Rightarrow> 'w app \<Rightarrow> 'w app \<Rightarrow> bool" where
  "copied h s U a b \<longleftrightarrow> (\<exists>m g. b = a\<lparr>a_vd := (a_vd a)\<lparr>video_mem := m\<rparr>\<rparr> \<and> displayed (a_vd b) g
     \<and> (\<forall>x y. g x y = h x y \<or> g x y = s x y \<and> (x, y) \<notin> U))"

lemma copied_start: "displayed (a_vd a) s \<Longrightarrow> copied h s {} a a"
  unfolding copied_def by (intro exI [of _ "video_mem (a_vd a)"] exI [of _ s]) simp

lemma copiedE:
  assumes "copied h s U a b"
  obtains m g where "b = a\<lparr>a_vd := (a_vd a)\<lparr>video_mem := m\<rparr>\<rparr>" and "displayed (a_vd b) g"
    and "\<And>x y. g x y = h x y \<or> g x y = s x y \<and> (x, y) \<notin> U"
  using assms unfolding copied_def by blast

lemma copiedD:
  assumes "copied h s U a b"
  shows "a_ed b = a_ed a" "a_sc b = a_sc a" "a_mc b = a_mc a" "h_res (a_vd b) = h_res (a_vd a)" "v_res (a_vd b) = v_res (a_vd a)"
    "drawn (a_vd a) f \<Longrightarrow> drawn (a_vd b) f" "\<exists>g. displayed (a_vd b) g"
  using assms by (auto simp: copied_def drawn_def mode32_def)

lemma copied_patch:
  assumes "copied h s U a b"
    and "\<And>g. displayed (a_vd b) g \<Longrightarrow> \<exists>m. f b = Some (b\<lparr>a_vd := (a_vd b)\<lparr>video_mem := m\<rparr>\<rparr>) \<and> displayed ((a_vd b)\<lparr>video_mem := m\<rparr>) (patch x y w z h g)"
  shows "yields (f b) (copied h s (U \<union> box x y w z) a)"
proof -
  obtain m0 g where b: "b = a\<lparr>a_vd := (a_vd a)\<lparr>video_mem := m0\<rparr>\<rparr>" "displayed (a_vd b) g"
    "\<And>x y. g x y = h x y \<or> g x y = s x y \<and> (x, y) \<notin> U" using copiedE [OF assms(1)] by metis
  obtain m where m: "f b = Some (b\<lparr>a_vd := (a_vd b)\<lparr>video_mem := m\<rparr>\<rparr>)" "displayed ((a_vd b)\<lparr>video_mem := m\<rparr>) (patch x y w z h g)"
    using assms(2) [OF b(2)] by blast
  have "patch x y w z h g u v = h u v \<or> patch x y w z h g u v = s u v \<and> (u, v) \<notin> U \<union> box x y w z" for u v
    using b(3) [of u v] by (auto simp: patch_def box_def)
  then have "copied h s (U \<union> box x y w z) a (b\<lparr>a_vd := (a_vd b)\<lparr>video_mem := m\<rparr>\<rparr>)"
    using m(2) b(1) unfolding copied_def by (intro exI [of _ m] exI [of _ "patch x y w z h g"]) simp
  then show ?thesis using m(1) by simp
qed

lemma copied_region:
  assumes "drawn (a_vd a) f" and "copied f s U a b" and "0 \<le> x" and "0 \<le> y" and "0 \<le> w" and "0 \<le> h"
    and "x + w \<le> h_res (a_vd a)" and "y + h \<le> v_res (a_vd a)"
  shows "yields (flip_region x y w h b) (copied f s (U \<union> box x y w h) a)"
proof (rule copied_patch [OF assms(2)])
  fix g assume g: "displayed (a_vd b) g"
  obtain m where "flip_region x y w h b = Some (b\<lparr>a_vd := (a_vd b)\<lparr>video_mem := m\<rparr>\<rparr>)"
    "displayed ((a_vd b)\<lparr>video_mem := m\<rparr>) (patch x y w h f g)"
    by (rule flip_region_flips [OF copiedD(6) [OF assms(2,1)] g assms(3-6)]) (use assms(7,8) copiedD(4,5) [OF assms(2)] in simp_all)
  then show "\<exists>m. flip_region x y w h b = Some (b\<lparr>a_vd := (a_vd b)\<lparr>video_mem := m\<rparr>\<rparr>)
      \<and> displayed ((a_vd b)\<lparr>video_mem := m\<rparr>) (patch x y w h f g)" by blast
qed

lemma copied_pointer:
  assumes "drawn (a_vd a) f" and "copied f s U a b" and "0 \<le> x" and "0 \<le> y"
  shows "yields (flip_cursor_region x y b) (copied f s (U \<union> sprite_box (a_mc a) x y) a)"
proof (rule copied_patch [OF assms(2)])
  fix g assume g: "displayed (a_vd b) g"
  obtain m where "flip_cursor_region x y b = Some (b\<lparr>a_vd := (a_vd b)\<lparr>video_mem := m\<rparr>\<rparr>)"
    "displayed ((a_vd b)\<lparr>video_mem := m\<rparr>) (sprite_patch (a_mc b) x y f g)"
    by (rule flip_cursor_region_flips [OF copiedD(6) [OF assms(2,1)] g assms(3,4)])
  then show "\<exists>m. flip_cursor_region x y b = Some (b\<lparr>a_vd := (a_vd b)\<lparr>video_mem := m\<rparr>\<rparr>)
      \<and> displayed ((a_vd b)\<lparr>video_mem := m\<rparr>) (patch x y (mouse_cursor_width (a_mc a)) (mouse_cursor_height (a_mc a)) f g)"
    using copiedD(3) [OF assms(2)] by (auto simp: sprite_patch_def)
qed

text \<open>Cells and rows in view lie on the screen.\<close>

definition row_in_view :: "'w app \<Rightarrow> int \<Rightarrow> bool" where
  "row_in_view a r \<longleftrightarrow> editor_get_scroll_row (a_ed a) \<le> r \<and> r < editor_get_scroll_row (a_ed a) + sc_vis_rows (a_sc a)"

lemma cells_below: "0 \<le> k \<Longrightarrow> k < n \<Longrightarrow> 0 < c \<Longrightarrow> n * c \<le> w \<Longrightarrow> 0 \<le> k * c \<and> k * c + c \<le> w" for k n c w :: int
proof -
  assume h: "0 \<le> k" "k < n" "0 < c" "n * c \<le> w"
  then have "(k + 1) * c \<le> n * c" by (intro mult_right_mono) simp_all
  with h show ?thesis by (simp add: algebra_simps)
qed

definition row_box :: "'w app \<Rightarrow> int \<Rightarrow> (int \<times> int) set" where
  "row_box a r = box (r_x (l_editor (a_sc a))) (EDITOR_Y + (r - scroll_row (a_ed a)) * FONT_H) (r_w (l_editor (a_sc a))) FONT_H"

definition cell_box :: "'w app \<Rightarrow> int \<Rightarrow> int \<Rightarrow> (int \<times> int) set" where
  "cell_box a col row = (if in_view a col row (scroll_row (a_ed a)) (scroll_col (a_ed a))
     then box (model_to_px a col) (model_to_py a row) FONT_W FONT_H else {})"

lemma copied_row:
  assumes "drawn (a_vd a) f" and "copied f s U a b" and "laid_out a" and "row_in_view a r"
  shows "yields (flip_region (r_x (l_editor (a_sc a))) (EDITOR_Y + (r - scroll_row (a_ed a)) * FONT_H) (r_w (l_editor (a_sc a))) FONT_H b)
    (copied f s (U \<union> row_box a r) a)"
  unfolding row_box_def
  using assms(3,4) cells_below [of "r - scroll_row (a_ed a)" "sc_vis_rows (a_sc a)" 16 "v_res (a_vd a) - 10"]
  by (intro copied_region [OF assms(1,2)]) (auto simp: laid_out_def Let_def row_in_view_def EDITOR_Y_def FONT_H_def editor_get_scroll_row_def)

lemma copied_cell:
  assumes "drawn (a_vd a) f" and "copied f s U a b" and "laid_out a"
  shows "yields (if in_view a col row (scroll_row (a_ed a)) (scroll_col (a_ed a))
      then flip_region (model_to_px b col) (model_to_py b row) FONT_W FONT_H b else Some b) (copied f s (U \<union> cell_box a col row) a)"
proof (cases "in_view a col row (scroll_row (a_ed a)) (scroll_col (a_ed a))")
  case True
  have e: "model_to_px b col = model_to_px a col" "model_to_py b row = model_to_py a row"
    using copiedD(1,2) [OF assms(2)] by (simp_all add: model_to_px_def model_to_py_def)
  show ?thesis unfolding cell_box_def if_P [OF True] e
    using assms(3) True cells_below [of "row - scroll_row (a_ed a)" "sc_vis_rows (a_sc a)" 16 "v_res (a_vd a) - 10"]
      cells_below [of "col - scroll_col (a_ed a)" "sc_vis_cols (a_sc a)" 8 "r_w (l_editor (a_sc a))"]
    by (intro copied_region [OF assms(1,2)]) (auto simp: laid_out_def Let_def in_view_def EDITOR_Y_def FONT_H_def FONT_W_def
        model_to_px_def model_to_py_def editor_get_scroll_row_def editor_get_scroll_col_def)
qed (use assms(2) in \<open>simp add: cell_box_def\<close>)


section \<open>A frame\<close>

text \<open>The back buffer holds a picture, with or without the pointer drawn over it, and so does the screen.\<close>

definition screen_ok :: "'w app \<Rightarrow> bool" where
  "screen_ok a \<longleftrightarrow> (\<exists>f g h. drawn (a_vd a) g \<and> displayed (a_vd a) h \<and> cursor_ready (a_mc a)
     \<and> (if prev_x (a_mc a) < 0 then g = f else pointer_over (a_mc a) (a_vd a) f g \<and> 0 \<le> prev_y (a_mc a)))"

lemma in_sync_screen_ok: "in_sync a f \<Longrightarrow> screen_ok a"
  unfolding in_sync_def screen_ok_def by blast

text \<open>What a frame of a mode relies on, for the text \<open>t\<close>. \<open>RENDER_WORD\<close> is never requested.\<close>

fun drawable :: "render_mode \<Rightarrow> string list \<Rightarrow> 'w app \<Rightarrow> bool" where
  "drawable RENDER_FULL t a \<longleftrightarrow> roomy (a_vd a) \<and> numbered (a_ed a)
     \<and> yields (highlight_cache_sync (int (length t)) (cursor_row (a_ed a)) (a_hc a)) (colours_fit t)"
| "drawable RENDER_LINE t a \<longleftrightarrow> laid_out a \<and> row_in_view a (cursor_row (a_ed a))
     \<and> 0 \<le> cursor_row (a_ed a) \<and> cursor_row (a_ed a) < int (length t) \<and> colours_fit (t[nat (cursor_row (a_ed a)) := []]) (a_hc a)"
| "drawable RENDER_REMOTE_LINE t a \<longleftrightarrow> laid_out a \<and> row_in_view a (remote_cursor_row (a_ed a)) \<and> colours_fit t (a_hc a)"
| "drawable RENDER_WORD t a \<longleftrightarrow> False"
| "drawable _ t a \<longleftrightarrow> laid_out a \<and> colours_fit t (a_hc a)"

text \<open>The state in which the user interface is drawn: for a full frame with a new layout and the cache adapted.\<close>

definition prepared :: "render_mode \<Rightarrow> string list \<Rightarrow> 'w app \<Rightarrow> 'w app" where
  "prepared m t a = (if m = RENDER_FULL
     then set_viewport (scene_update_layout (a\<lparr>a_hc := the (highlight_cache_sync (int (length t)) (cursor_row (a_ed a)) (a_hc a))\<rparr>)) else a)"

lemma ui_drawn:
  assumes "drawable m t a" and "drawn (a_vd a) p" and "doc (a_ed a) t" and "bar_inv (a_cb a)" and "ft_inv (a_ft a)"
    and "0 \<le> scroll_row (a_ed a)" and "0 \<le> scroll_col (a_ed a)"
  shows "yields (render_editor_ui m (cursor_col (a_ed a)) (cursor_row (a_ed a)) (scroll_row (a_ed a)) (scroll_col (a_ed a)) a)
    (redrawn t (prepared m t a))"
proof (cases m)
  case RENDER_FULL
  then show ?thesis using full_drawn [OF assms(2-7)] assms(1)
    by (auto simp: render_editor_ui_def prepared_def yields_def [of "highlight_cache_sync _ _ _"])
next
  case RENDER_LINE
  then show ?thesis using line_drawn [OF assms(2,3)] assms(1,7) by (simp add: render_editor_ui_def prepared_def)
next
  case RENDER_REMOTE_LINE
  then show ?thesis using remote_line_drawn [OF redrawn_start [OF assms(2)] assms(3,7)] assms(1)
    by (simp add: render_editor_ui_def prepared_def)
next
  case RENDER_CHAR
  then show ?thesis using char_drawn [OF redrawn_start [OF assms(2)] assms(3,7)] assms(1)
    by (simp add: render_editor_ui_def prepared_def)
next
  case RENDER_STATUS
  then show ?thesis using redrawn_status [OF redrawn_start [OF assms(2)] assms(4)] assms(1)
    by (simp add: render_editor_ui_def prepared_def)
qed (use redrawn_start [OF assms(2)] assms(1) in \<open>simp_all add: render_editor_ui_def prepared_def\<close>)

text \<open>What is copied to the screen after a frame of a mode that redraws only a part lies on the screen.\<close>

definition placed :: "render_mode \<Rightarrow> 'w app \<Rightarrow> bool" where
  "placed m a \<longleftrightarrow> laid_out a \<and> m \<noteq> RENDER_WORD \<and> (m = RENDER_LINE \<longrightarrow> row_in_view a (cursor_row (a_ed a)))
     \<and> (m = RENDER_REMOTE_LINE \<longrightarrow> row_in_view a (remote_cursor_row (a_ed a)))"

text \<open>The part of the screen that a frame redraws.\<close>

definition region :: "render_mode \<Rightarrow> 'w app \<Rightarrow> (int \<times> int) set" where
  "region m a = (case m of RENDER_FULL \<Rightarrow> UNIV
     | RENDER_LINE \<Rightarrow> row_box a (cursor_row (a_ed a))
     | RENDER_REMOTE_LINE \<Rightarrow> row_box a (remote_cursor_row (a_ed a))
     | RENDER_CHAR \<Rightarrow> cell_box a (sc_prev_col (a_sc a)) (sc_prev_row (a_sc a)) \<union> cell_box a (cursor_col (a_ed a)) (cursor_row (a_ed a))
     | RENDER_STATUS \<Rightarrow> box 0 (v_res (a_vd a) - FONT_H) (h_res (a_vd a)) FONT_H
     | _ \<Rightarrow> {})"

lemma drawable_placed: "drawable m t a \<Longrightarrow> m \<noteq> RENDER_FULL \<Longrightarrow> placed m a \<and> (\<exists>u. colours_fit u (a_hc a))"
  by (cases m) (auto simp: placed_def)

lemma placed_cong: "a_ed b = a_ed a \<Longrightarrow> a_sc b = a_sc a \<Longrightarrow> h_res (a_vd b) = h_res (a_vd a) \<Longrightarrow> v_res (a_vd b) = v_res (a_vd a)
    \<Longrightarrow> placed m b = placed m a"
  by (simp add: placed_def laid_out_def row_in_view_def Let_def)

lemma region_cong: "a_ed b = a_ed a \<Longrightarrow> a_sc b = a_sc a \<Longrightarrow> h_res (a_vd b) = h_res (a_vd a) \<Longrightarrow> v_res (a_vd b) = v_res (a_vd a)
    \<Longrightarrow> region m b = region m a"
  by (cases m) (simp_all add: region_def row_box_def cell_box_def in_view_def model_to_px_def model_to_py_def)

lemma ui_flipped:
  assumes "placed m a" and "m \<noteq> RENDER_FULL" and "drawn (a_vd a) p" and "copied p s U a b"
  shows "yields (flip_editor_ui m (cursor_col (a_ed a)) (cursor_row (a_ed a)) (scroll_row (a_ed a)) (scroll_col (a_ed a)) b)
    (copied p s (U \<union> region m a) a)"
proof (cases m)
  case RENDER_LINE
  then show ?thesis using copied_row [OF assms(3,4)] assms(1) copiedD(2) [OF assms(4)]
    by (simp add: flip_editor_ui_def Let_def placed_def region_def)
next
  case RENDER_REMOTE_LINE
  then show ?thesis using copied_row [OF assms(3,4)] assms(1) copiedD(1,2) [OF assms(4)]
    by (simp add: flip_editor_ui_def Let_def editor_get_remote_cursor_row_def placed_def region_def)
next
  case RENDER_CHAR
  let ?s = "scroll_row (a_ed a)" and ?c = "scroll_col (a_ed a)"
  have v: "in_view b k r = in_view a k r" for k r
    using copiedD(2) [OF assms(4)] by (intro ext) (simp add: in_view_def)
  have l: "laid_out a" using assms(1) by (simp add: placed_def)
  have "yields (do { c \<leftarrow> (if in_view a k r ?s ?c then flip_region (model_to_px b k) (model_to_py b r) FONT_W FONT_H b else Some b);
      if in_view a col row ?s ?c then flip_region (model_to_px c col) (model_to_py c row) FONT_W FONT_H c else Some c })
      (copied p s (U \<union> cell_box a k r \<union> cell_box a col row) a)" for k r col row
    by (rule yields_then [OF copied_cell [OF assms(3,4) l] copied_cell [OF assms(3) _ l]])
  then show ?thesis using RENDER_CHAR v copiedD(2) [OF assms(4)]
    by (simp add: flip_editor_ui_def Let_def region_def Un_assoc del: yields_simps(3) split del: if_split)
next
  case RENDER_STATUS
  have "flip_status_bar b = flip_region 0 (v_res (a_vd a) - FONT_H) (h_res (a_vd a)) FONT_H b" "FONT_H \<le> v_res (a_vd a)"
    using assms(1) copiedD(2) [OF assms(4)] by (simp_all add: flip_status_bar_def placed_def laid_out_def Let_def)
  then show ?thesis using RENDER_STATUS copied_region [OF assms(3,4), of 0 "v_res (a_vd a) - FONT_H" "h_res (a_vd a)" FONT_H] drawn_mode [OF assms(3)]
    by (simp add: flip_editor_ui_def Let_def region_def mode32_def FONT_H_def)
qed (use assms in \<open>simp_all add: flip_editor_ui_def placed_def region_def\<close>)

text \<open>The copying at the end of a frame.\<close>

lemma frame_copied:
  assumes "drawn (a_vd a) p" and "displayed (a_vd a) s" and "m \<noteq> RENDER_FULL \<Longrightarrow> placed m a"
    and "0 \<le> ox \<Longrightarrow> 0 \<le> oy" and "0 \<le> x" and "0 \<le> y"
  shows "yields (if m = RENDER_FULL then on_vd vg_flip_buffer a
      else do {
        a1 \<leftarrow> (if 0 \<le> ox then flip_cursor_region ox oy a else Some a);
        a2 \<leftarrow> flip_cursor_region x y a1;
        flip_editor_ui m (cursor_col (a_ed a)) (cursor_row (a_ed a)) (scroll_row (a_ed a)) (scroll_col (a_ed a)) a2
      }) (copied p s ((if 0 \<le> ox then sprite_box (a_mc a) ox oy else {}) \<union> sprite_box (a_mc a) x y \<union> region m a) a)"
proof (cases "m = RENDER_FULL")
  case True
  have "length (video_mem (a_vd a)) = nat (frame_size (a_vd a))"
    using assms(1,2) by (simp add: displayed_def drawn_def mode32_def nat_mult_distrib)
  then obtain mem where f: "vg_flip_buffer (a_vd a) = Some ((a_vd a)\<lparr>video_mem := mem\<rparr>)" "displayed ((a_vd a)\<lparr>video_mem := mem\<rparr>) p"
    using whole_screen_flipped [OF assms(1)] by blast
  then have "copied p s UNIV a (a\<lparr>a_vd := (a_vd a)\<lparr>video_mem := mem\<rparr>\<rparr>)"
    unfolding copied_def by (intro exI [of _ mem] exI [of _ p]) simp
  then show ?thesis using True f(1) by (simp add: on_vd_def region_def)
next
  case False
  let ?U = "if 0 \<le> ox then sprite_box (a_mc a) ox oy else {}"
  have old: "yields (if 0 \<le> ox then flip_cursor_region ox oy a else Some a) (copied p s ?U a)"
    using copied_pointer [OF assms(1) copied_start [OF assms(2)], of ox oy] copied_start [OF assms(2)] assms(4) by simp
  have "yields (do {
      a1 \<leftarrow> (if 0 \<le> ox then flip_cursor_region ox oy a else Some a);
      a2 \<leftarrow> flip_cursor_region x y a1;
      flip_editor_ui m (cursor_col (a_ed a)) (cursor_row (a_ed a)) (scroll_row (a_ed a)) (scroll_col (a_ed a)) a2 })
      (copied p s (?U \<union> sprite_box (a_mc a) x y \<union> region m a) a)"
    by (intro yields_then [OF old] yields_then [OF copied_pointer [OF assms(1) _ assms(5,6)]] ui_flipped [OF assms(3) [OF False] False assms(1)])
  then show ?thesis using False by (simp del: yields_simps(3))
qed

text \<open>What the state in which a frame is drawn has in common with the one before it.\<close>

lemma prepared_same:
  assumes "drawable m t a" and "doc (a_ed a) t"
  defines "b \<equiv> prepared m t a"
  shows "a_vd b = a_vd a" "a_cb b = a_cb a" "a_ft b = a_ft a" "a_mc b = a_mc a" "a_ms b = a_ms a" "a_rs b = a_rs a" "a_w b = a_w a"
    "doc (a_ed b) t" "cursor_col (a_ed b) = cursor_col (a_ed a)" "cursor_row (a_ed b) = cursor_row (a_ed a)"
    "scroll_row (a_ed b) = scroll_row (a_ed a)" "scroll_col (a_ed b) = scroll_col (a_ed a)" "laid_out b"
    "m \<noteq> RENDER_FULL \<Longrightarrow> placed m b" "m \<noteq> RENDER_FULL \<Longrightarrow> b = a"
proof -
  show "laid_out b"
  proof (cases "m = RENDER_FULL")
    case True
    let ?l = "scene_update_layout (a\<lparr>a_hc := the (highlight_cache_sync (int (length t)) (cursor_row (a_ed a)) (a_hc a))\<rparr>)"
    have "laid_out ?l" using assms(1) True by (intro layout_laid_out) simp_all
    moreover have "a_sc b = a_sc ?l" "a_vd b = a_vd ?l" using True by (simp_all add: b_def prepared_def set_viewport_def)
    ultimately show ?thesis by (simp add: laid_out_def)
  next
    case False
    then show ?thesis using drawable_placed [OF assms(1)] by (simp add: b_def prepared_def placed_def)
  qed
  show "m \<noteq> RENDER_FULL \<Longrightarrow> placed m b" using drawable_placed [OF assms(1)] by (simp add: b_def prepared_def)
  have d: "doc (editor_set_viewport k n (a_ed a)) t" for k n using assms(2) by (simp add: editor_set_viewport_def doc_def rows_def)
  show "a_vd b = a_vd a" "a_cb b = a_cb a" "a_ft b = a_ft a" "a_mc b = a_mc a" "a_ms b = a_ms a" "a_rs b = a_rs a" "a_w b = a_w a"
    "doc (a_ed b) t" "cursor_col (a_ed b) = cursor_col (a_ed a)" "cursor_row (a_ed b) = cursor_row (a_ed a)"
    "scroll_row (a_ed b) = scroll_row (a_ed a)" "scroll_col (a_ed b) = scroll_col (a_ed a)" "m \<noteq> RENDER_FULL \<Longrightarrow> b = a"
    using assms(2) d by (simp_all add: b_def prepared_def set_viewport_def scene_update_layout_def Let_def editor_set_viewport_def)
qed

lemma drawable_draw: "drawable m t a \<Longrightarrow> drawable m t (a\<lparr>a_rs := k, a_vd := draw f (a_vd a)\<rparr>)"
  by (cases m) (simp_all add: roomy_def laid_out_def row_in_view_def Let_def)

text \<open>The part of the screen that is copied: where the pointer was and is, and what has been drawn.\<close>

definition swept :: "render_mode \<Rightarrow> 'w app \<Rightarrow> 'w app \<Rightarrow> (int \<times> int) set" where
  "swept m a b = (if 0 \<le> prev_x (a_mc a) then sprite_box (a_mc a) (prev_x (a_mc a)) (prev_y (a_mc a)) else {})
     \<union> sprite_box (a_mc a) (mouse_x (a_ms a)) (mouse_y (a_ms a)) \<union> region m b"

text \<open>The whole of \<open>view_render\<close>, once the user interface has been drawn, as the picture \<open>p\<close>.\<close>

lemma frame_after:
  fixes a :: "'w app"
  assumes a1_def: "a1 = a\<lparr>a_rs := RENDER_NONE, a_vd := draw f (a_vd a)\<rparr>" and m_def: "m = a_rs a"
    and "drawn (a_vd a) g" and "displayed (a_vd a) s" and "cursor_ready (a_mc a)"
    and "if prev_x (a_mc a) < 0 then g = f else pointer_over (a_mc a) (a_vd a) f g \<and> 0 \<le> prev_y (a_mc a)"
    and "doc (a_ed a) t" and "drawable m t a1" and "0 \<le> mouse_x (a_ms a)" and "0 \<le> mouse_y (a_ms a)"
    and "render_editor_ui m (cursor_col (a_ed a)) (cursor_row (a_ed a)) (scroll_row (a_ed a)) (scroll_col (a_ed a)) a1 = Some b"
    and "redrawn t (prepared m t a1) b" and "drawn (a_vd b) p"
  obtains a' h where "view_render transparent a = Some a'" and "drawn (a_vd a') h" and "m = RENDER_FULL \<longrightarrow> displayed (a_vd a') h"
    and "\<exists>k. displayed (a_vd a') k \<and> (\<forall>x y. k x y = h x y \<or> k x y = s x y \<and> (x, y) \<notin> swept m a (prepared m t a1))"
    and "cursor_ready (a_mc a')" and "pointer_over (a_mc a') (a_vd a') p h"
    and "prev_x (a_mc a') = mouse_x (a_ms a)" and "prev_y (a_mc a') = mouse_y (a_ms a)"
    and "mouse_cursor_width (a_mc a') = mouse_cursor_width (a_mc a)" and "mouse_cursor_height (a_mc a') = mouse_cursor_height (a_mc a)"
    and "laid_out a'" and "a_ed a' = a_ed (prepared m t a1)" and "colours_fit t (a_hc a')" and "a_rs a' = RENDER_NONE"
    and "a_cb a' = a_cb a" and "a_ft a' = a_ft a" and "a_ms a' = a_ms a" and "a_w a' = a_w a"
    and "l_editor (a_sc a') = l_editor (a_sc (prepared m t a1))" and "sc_vis_rows (a_sc a') = sc_vis_rows (a_sc (prepared m t a1))"
    and "sc_vis_cols (a_sc a') = sc_vis_cols (a_sc (prepared m t a1))"
    and "h_res (a_vd a') = h_res (a_vd a)" and "v_res (a_vd a') = v_res (a_vd a)"
proof -
  let ?ox = "prev_x (a_mc a)" and ?oy = "prev_y (a_mc a)" and ?x = "mouse_x (a_ms a)" and ?y = "mouse_y (a_ms a)"
  have over: "if ?ox < 0 then g = f else pointer_over (a_mc a) (a_vd a) f g" and oy: "0 \<le> ?ox \<Longrightarrow> 0 \<le> ?oy"
    using assms(6) by (auto split: if_splits)
  have hide: "on_vd (mouse_cursor_hide (a_mc a)) (a\<lparr>a_rs := RENDER_NONE\<rparr>) = Some a1"
    using hide_draws [OF assms(3) over] by (simp add: on_vd_def a1_def)
  have e1: "a_ed a1 = a_ed a" "a_cb a1 = a_cb a" "a_ft a1 = a_ft a" "a_mc a1 = a_mc a" "a_ms a1 = a_ms a"
    "a_rs a1 = RENDER_NONE" "a_w a1 = a_w a" "displayed (a_vd a1) s"
    using assms(4) by (simp_all add: a1_def displayed_def)
  define a2 where "a2 = prepared m t a1"
  note same = prepared_same [OF assms(8), unfolded e1, OF assms(7), folded a2_def, unfolded e1]
  obtain hc r where bp: "b = a2\<lparr>a_hc := hc, a_vd := draw r (a_vd a2)\<rparr>" "colours_fit t hc" "mode32 (a_vd a2)"
    using redrawnE [OF assms(12)] unfolding a2_def by metis
  have db: "a_mc b = a_mc a" "displayed (a_vd b) s" using bp same e1(8) by (simp_all add: displayed_def)
  obtain h mc where sh: "mouse_cursor_show transparent ?x ?y (a_mc b) (a_vd b) = Some (mc, draw h (a_vd b))"
    and ov: "pointer_over mc (draw h (a_vd b)) p h" and mc: "mc = (a_mc b)\<lparr>bg_buf := bg_buf mc, prev_x := ?x, prev_y := ?y\<rparr>" and ready: "cursor_ready mc"
    by (rule show_shows [OF assms(13,5) [folded db(1)]])
  have xy: "prev_x mc = ?x" "prev_y mc = ?y" "mouse_cursor_width mc = mouse_cursor_width (a_mc a)" "mouse_cursor_height mc = mouse_cursor_height (a_mc a)"
    by (subst mc, simp add: db(1) mouse_cursor_width_def mouse_cursor_height_def)+
  define c where "c = b\<lparr>a_mc := mc, a_vd := draw h (a_vd b)\<rparr>"
  have dc: "drawn (a_vd c) h" "displayed (a_vd c) s" using drawn_mode [OF assms(13)] db(2) by (simp_all add: c_def displayed_def)
  have ec: "a_ed c = a_ed a2" "a_sc c = a_sc a2" "h_res (a_vd c) = h_res (a_vd a2)" "v_res (a_vd c) = v_res (a_vd a2)"
    by (simp_all add: c_def bp(1))
  have "a_mc c = mc" "region m c = region m a2" using region_cong [OF ec] by (simp_all add: c_def)
  then have ec5: "(if 0 \<le> ?ox then sprite_box (a_mc c) ?ox ?oy else {}) \<union> sprite_box (a_mc c) ?x ?y \<union> region m c = swept m a a2"
    by (simp add: swept_def xy)
  have pl: "m \<noteq> RENDER_FULL \<Longrightarrow> placed m c" using same(14) placed_cong [OF ec] by simp
  have "yields (if m = RENDER_FULL then on_vd vg_flip_buffer c else do {
        c1 \<leftarrow> (if 0 \<le> ?ox then flip_cursor_region ?ox ?oy c else Some c);
        c2 \<leftarrow> flip_cursor_region ?x ?y c1;
        flip_editor_ui m (cursor_col (a_ed c)) (cursor_row (a_ed c)) (scroll_row (a_ed c)) (scroll_col (a_ed c)) c2 }) (copied h s (swept m a a2) c)"
    unfolding ec5 [symmetric] by (rule frame_copied [OF dc _ _ assms(9,10)]) (use pl oy in blast)+
  then obtain e where e: "(if m = RENDER_FULL then on_vd vg_flip_buffer c else do {
        c1 \<leftarrow> (if 0 \<le> ?ox then flip_cursor_region ?ox ?oy c else Some c);
        c2 \<leftarrow> flip_cursor_region ?x ?y c1;
        flip_editor_ui m (cursor_col (a_ed c)) (cursor_row (a_ed c)) (scroll_row (a_ed c)) (scroll_col (a_ed c)) c2 }) = Some e"
    "copied h s (swept m a a2) c e"
    unfolding yields_def by (elim exE conjE)
  obtain mem k where em: "e = c\<lparr>a_vd := (a_vd c)\<lparr>video_mem := mem\<rparr>\<rparr>" and k: "displayed (a_vd e) k"
    "\<And>x y. k x y = h x y \<or> k x y = s x y \<and> (x, y) \<notin> swept m a a2" using copiedE [OF e(2)] by metis
  define a' where "a' = (if m \<noteq> RENDER_MOUSE \<and> m \<noteq> RENDER_STATUS
      then e\<lparr>a_sc := (a_sc e)\<lparr>sc_prev_col := cursor_col (a_ed a), sc_prev_row := cursor_row (a_ed a)\<rparr>\<rparr> else e)"
  have r: "view_render transparent a = Some a'"
    using hide assms(11) sh e(1) same(9-12) unfolding m_def
    by (simp add: view_render_def get_render_def clear_render_def Let_def ih_get_mouse_x_def ih_get_mouse_y_def mouse_cursor_prev_x_def
        mouse_cursor_prev_y_def editor_get_cursor_col_def editor_get_cursor_row_def editor_get_scroll_row_def editor_get_scroll_col_def
        c_def [symmetric] ec(1) a'_def [unfolded m_def] split del: if_split cong: if_cong)
  have ee: "a_ed e = a_ed a2" "a_sc e = a_sc a2" "a_mc e = mc" "a_hc e = hc" "a_cb e = a_cb a" "a_ft e = a_ft a" "a_ms e = a_ms a"
    "a_rs e = RENDER_NONE" "a_w e = a_w a" "h_res (a_vd e) = h_res (a_vd a2)" "v_res (a_vd e) = v_res (a_vd a2)"
    using em same by (simp_all add: c_def bp(1))
  have sc: "a_vd a' = a_vd e" "a_mc a' = mc" "laid_out a'" "a_ed a' = a_ed a2" "a_hc a' = hc" "a_rs a' = RENDER_NONE"
    "a_cb a' = a_cb a" "a_ft a' = a_ft a" "a_ms a' = a_ms a" "a_w a' = a_w a" "l_editor (a_sc a') = l_editor (a_sc a2)"
    "sc_vis_rows (a_sc a') = sc_vis_rows (a_sc a2)" "sc_vis_cols (a_sc a') = sc_vis_cols (a_sc a2)"
    using same(13) ee by (simp_all add: a'_def laid_out_def Let_def)
  have ov': "pointer_over mc (a_vd e) p h"
    using ov by (simp add: em c_def pointer_over_def below_def on_screen_spot_def visible_px_def vg_get_h_res_def vg_get_v_res_def)
  have de: "drawn (a_vd e) h" "\<exists>k. displayed (a_vd e) k \<and> (\<forall>x y. k x y = h x y \<or> k x y = s x y \<and> (x, y) \<notin> swept m a a2)"
    using copiedD(6) [OF e(2)] dc(1) k by (simp, blast)
  have full: "displayed (a_vd e) h" if "m = RENDER_FULL"
  proof -
    have "swept m a a2 = UNIV" using that by (simp add: swept_def region_def)
    then have "k = h" using k(2) by (intro ext) simp
    with k(1) show ?thesis by simp
  qed
  have res: "h_res (a_vd a') = h_res (a_vd a)" "v_res (a_vd a') = v_res (a_vd a)" using sc(1) ee(10,11) same(1) by (simp_all add: a1_def)
  show thesis
    by (rule that [OF r]) (use res de full ready ov' xy sc bp(2) in \<open>simp_all add: a2_def\<close>)
qed

lemma doc_viewport [simp]: "doc (editor_set_viewport k n e) t = doc e t"
  by (simp add: editor_set_viewport_def doc_def rows_def)

lemma frame_made:
  assumes "screen_ok a" and "doc (a_ed a) t" and "drawable (a_rs a) t a" and "bar_inv (a_cb a)" and "ft_inv (a_ft a)"
    and "0 \<le> scroll_row (a_ed a)" and "0 \<le> scroll_col (a_ed a)" and "0 \<le> mouse_x (a_ms a)" and "0 \<le> mouse_y (a_ms a)"
  obtains a' where "view_render transparent a = Some a'" and "screen_ok a'" and "laid_out a'" and "colours_fit t (a_hc a')"
    and "a_rs a' = RENDER_NONE" and "a_cb a' = a_cb a" and "a_ft a' = a_ft a" and "a_ms a' = a_ms a" and "a_w a' = a_w a"
    and "a_rs a = RENDER_FULL \<longrightarrow> (\<exists>f. in_sync a' f)" and "a_rs a \<noteq> RENDER_FULL \<longrightarrow> a_ed a' = a_ed a"
    and "\<exists>k n. a_ed a' = a_ed a \<or> a_ed a' = editor_set_viewport k n (a_ed a)"
proof -
  obtain f g s where d: "drawn (a_vd a) g" "displayed (a_vd a) s" "cursor_ready (a_mc a)"
    and ov: "if prev_x (a_mc a) < 0 then g = f else pointer_over (a_mc a) (a_vd a) f g \<and> 0 \<le> prev_y (a_mc a)"
    using assms(1) unfolding screen_ok_def by blast
  define a1 where "a1 = a\<lparr>a_rs := RENDER_NONE, a_vd := draw f (a_vd a)\<rparr>"
  have e1: "a_ed a1 = a_ed a" "a_cb a1 = a_cb a" "a_ft a1 = a_ft a" "drawn (a_vd a1) f" using drawn_mode [OF d(1)] by (simp_all add: a1_def)
  have dr: "drawable (a_rs a) t a1" using drawable_draw [OF assms(3)] by (simp add: a1_def)
  obtain b where b: "render_editor_ui (a_rs a) (cursor_col (a_ed a)) (cursor_row (a_ed a)) (scroll_row (a_ed a)) (scroll_col (a_ed a)) a1 = Some b"
    "redrawn t (prepared (a_rs a) t a1) b"
    using ui_drawn [OF dr e1(4), unfolded e1, OF assms(2,4-7)] by (auto simp: yields_def)
  obtain p where p: "drawn (a_vd b) p" using redrawn_drawn [OF b(2)] by blast
  obtain a' h where a': "view_render transparent a = Some a'" "drawn (a_vd a') h" "a_rs a = RENDER_FULL \<longrightarrow> displayed (a_vd a') h"
    "\<exists>k. displayed (a_vd a') k \<and> (\<forall>x y. k x y = h x y \<or> k x y = s x y \<and> (x, y) \<notin> swept (a_rs a) a (prepared (a_rs a) t a1))"
    "cursor_ready (a_mc a')" "pointer_over (a_mc a') (a_vd a') p h"
    "prev_x (a_mc a') = mouse_x (a_ms a)" "prev_y (a_mc a') = mouse_y (a_ms a)"
    "laid_out a'" "a_ed a' = a_ed (prepared (a_rs a) t a1)" "colours_fit t (a_hc a')" "a_rs a' = RENDER_NONE"
    "a_cb a' = a_cb a" "a_ft a' = a_ft a" "a_ms a' = a_ms a" "a_w a' = a_w a"
    by (rule frame_after [OF a1_def refl d ov assms(2) dr assms(8,9) b p])
  have "screen_ok a'" unfolding screen_ok_def using a'(2,4-8) assms(8,9) by (auto intro: exI [of _ h])
  moreover have "in_sync a' p" if "a_rs a = RENDER_FULL" unfolding in_sync_def
    using a'(2,3,5-8) that assms(8,9) by (intro exI [of _ h]) simp
  moreover have "\<exists>k n. a_ed (prepared (a_rs a) t a1) = a_ed a \<or> a_ed (prepared (a_rs a) t a1) = editor_set_viewport k n (a_ed a)"
    using e1(1) by (auto simp: prepared_def set_viewport_def scene_update_layout_def Let_def)
  ultimately show thesis using a' prepared_same(15) [OF dr, unfolded e1(1), OF assms(2)] e1(1)
    by (intro that [of a']) auto
qed


definition demo_full :: "unit app" where
  "demo_full = demo\<lparr>a_vd := \<lparr>video_mem = bytes (pixels 1152 864 (plain 7)), h_res = 1152, v_res = 864, bytes_per_pixel = 4,
     frame_size = 3981312, back_buffer = Some (map Some (bytes (pixels 1152 864 (plain 5)))), vd_heap = []\<rparr>,
     a_mc := arrow, a_ms := mouse_state0\<lparr>mouse_x := 2, mouse_y := 1\<rparr>, a_rs := RENDER_FULL\<rparr>"


section \<open>What a frame may not find\<close>

text \<open>\<open>set_render_ex\<close> turns \<open>RENDER_LINE\<close> into \<open>RENDER_FULL\<close> when the text has scrolled, and a full frame does not
  colour the row anew: if a cached row has become longer, its colours are read past their end.\<close>

lemma each_None: "x \<in> set xs \<Longrightarrow> (\<And>b. f x b = None) \<Longrightarrow> each f xs a = None"
proof (induction xs arbitrary: a)
  case (Cons y xs)
  then show ?case by (cases "f y a") auto
qed simp

lemma stale_colours_overread:
  assumes "doc (a_ed a) t" and "cache lang opn cols n (a_hc a)" and "r < length t"
    and "row_buf cols r = Some x" and "length x < length (t ! r)" and "0 \<le> scc" and "scc \<le> int (length x)"
  shows "text_row y scc (int r) a = None"
proof -
  obtain J where J: "editor_get_line (a_ed a) (int r) = Some (Some (map Some (t ! r) @ Some NUL # J))"
    "editor_get_line_len (a_ed a) (int r) = Some (int (length (t ! r)))" by (rule doc_line [OF assms(1,3)])
  obtain hc where hc: "highlight_cache_get_line (a_ed a) (int r) (a_hc a) = Some (Some x, hc)"
    by (rule get_line_rows [OF assms(1-3)]) (use assms(4) in auto)
  have "colored_char px y line x (int (length x)) b = None" for px line b
    by (simp add: colored_char_def aread_def in_range_def)
  then have "draw_line_colored k y line scc x (int (length (t ! r))) b = None" for k line b
    unfolding draw_line_colored_def using assms(5,7) by (intro each_None [of "int (length x)"]) auto
  then show ?thesis using J hc assms(5,7) by (simp add: text_row_def get_colors_def)
qed

text \<open>\<open>flip_editor_ui\<close> copies the peer's row without the test of \<open>RENDER_CHAR\<close> whether it is in view: from a row below
  the screen, or above it, since the coordinate then wraps around, the copy begins past the end of the
  back buffer and of the screen.\<close>

lemma remote_line_out_of_view:
  assumes "drawn (a_vd a) f" and "laid_out a" and "0 < r_w (l_editor (a_sc a))" and "h_res (a_vd a) \<le> 16000"
    and "v_res (a_vd a) \<le> (EDITOR_Y + (remote_cursor_row (a_ed a) - scr) * FONT_H) mod 2 ^ 16"
  shows "flip_editor_ui RENDER_REMOTE_LINE col row scr scc a = None"
proof -
  let ?v = "a_vd a" and ?x = "r_x (l_editor (a_sc a))" and ?w = "r_w (l_editor (a_sc a))"
  let ?y = "word_of_int (EDITOR_Y + (remote_cursor_row (a_ed a) - scr) * FONT_H) :: u16"
  have l: "0 \<le> ?x" "?x + ?w \<le> h_res ?v" using assms(2) by (simp_all add: laid_out_def Let_def)
  have m: "bytes_per_pixel ?v = 4" "0 < h_res ?v" "h_res ?v < 2 ^ 16" "0 < v_res ?v"
    using drawn_mode [OF assms(1)] by (simp_all add: mode32_def)
  have u: "uint (word_of_int ?x :: u16) = ?x" "uint (word_of_int ?w :: u16) = ?w" "uint (word_of_int FONT_H :: u16) = 16"
    using u16_small l assms(3) m by (simp_all add: FONT_H_def)
  have "uint ?y = (EDITOR_Y + (remote_cursor_row (a_ed a) - scr) * FONT_H) mod 2 ^ 16" by (simp only: uint_word_of_int) simp
  then have y: "v_res ?v \<le> uint ?y" "uint ?y < 2 ^ 16" using assms(5) by (simp_all only:) simp
  have "uint ?y * h_res ?v \<le> 65535 * 16000" using y(2) assms(4) m by (intro mult_mono) simp_all
  then have lt: "(uint ?y * h_res ?v + ?x) * 4 < 2 ^ 32" using l assms(3) m by simp
  have "v_res ?v * h_res ?v \<le> uint ?y * h_res ?v" using y(1) m by (intro mult_right_mono) simp_all
  then have le: "h_res ?v * v_res ?v \<le> uint ?y * h_res ?v" by (simp add: mult.commute)
  define k P where "k = uint ?y * h_res ?v" and "P = h_res ?v * v_res ?v"
  have Pk: "P \<le> k" unfolding P_def k_def by (rule le)
  have "0 < P" using m by (simp add: P_def)
  have "(?w * 4) mod 2 ^ 32 = ?w * 4" using l assms(3) m by (intro mod_pos_pos_trivial) simp_all
  moreover have "(k + ?x) * 4 mod 2 ^ 32 = (k + ?x) * 4" using lt l m Pk \<open>0 < P\<close> unfolding k_def [symmetric] by (intro mod_pos_pos_trivial) simp_all
  moreover have "\<not> in_range (map Some (bytes (pixels (h_res ?v) (v_res ?v) f))) ((k + ?x) * 4) (?w * 4)"
    using l assms(3) m \<open>0 < P\<close> Pk by (simp add: in_range_def P_def [symmetric])
  ultimately have "to_screen (((uint ?y * h_res ?v + ?x) * 4) mod 2 ^ 32) ((?w * 4) mod 2 ^ 32) ?v = None"
    using assms(1) by (simp only: to_screen_def blit_def drawn_def k_def [symmetric]) simp
  moreover have "uint ?y < uint ?y + uint (word_of_int FONT_H :: u16)" unfolding u by simp
  ultimately have "vg_flip_region (word_of_int ?x) ?y (word_of_int ?w) (word_of_int FONT_H) ?v = None"
    unfolding vg_flip_region_def by (subst flip_rows.simps) (simp add: u m Let_def)
  then show ?thesis by (simp add: flip_editor_ui_def Let_def flip_region_def on_vd_def editor_get_remote_cursor_row_def)
qed

end
