(* ===== verification/Display.thy ===== *)
theory Display
  imports Frames
begin

text \<open>
  What a full frame shows: each character of the text that is in view, in its cell, in the colour that the
  reference highlighter gives it. The pixels of one cell are followed through the drawing operations of
  \<open>render_full\<close>, one of which draws the character while the others leave the cell as it is.
\<close>

section \<open>Pixels that are left alone\<close>

definition leaves :: "(int \<times> int) set \<Rightarrow> (video \<Rightarrow> video option) \<Rightarrow> bool" where
  "leaves S f \<longleftrightarrow> (\<forall>v p. drawn v p \<longrightarrow> (\<exists>q. f v = Some (draw q v) \<and> (\<forall>x y. (x, y) \<in> S \<longrightarrow> q x y = p x y)))"

lemma leavesI: "(\<And>v p. drawn v p \<Longrightarrow> \<exists>q. f v = Some (draw q v) \<and> (\<forall>x y. (x, y) \<in> S \<longrightarrow> q x y = p x y)) \<Longrightarrow> leaves S f"
  by (auto simp: leaves_def)

lemma leavesE:
  assumes "leaves S f" and "drawn v p"
  obtains q where "f v = Some (draw q v)" and "(\<forall>x y. (x, y) \<in> S \<longrightarrow> q x y = p x y)"
  using assms unfolding leaves_def by blast

lemma leaves_Some: "leaves S Some"
  by (rule leavesI) (use drawn_eq in blast)

lemma leaves_bind:
  assumes "leaves S f" and "leaves S g"
  shows "leaves S (\<lambda>v. f v \<bind> g)"
proof (rule leavesI)
  fix v p assume d: "drawn v p"
  obtain q where q: "f v = Some (draw q v)" "(\<forall>x y. (x, y) \<in> S \<longrightarrow> q x y = p x y)" by (rule leavesE [OF assms(1) d])
  have "drawn (draw q v) q" using drawn_mode [OF d] by simp
  then obtain r where "g (draw q v) = Some (draw r (draw q v))" "(\<forall>x y. (x, y) \<in> S \<longrightarrow> r x y = q x y)" by (rule leavesE [OF assms(2)])
  with q show "\<exists>r. f v \<bind> g = Some (draw r v) \<and> (\<forall>x y. (x, y) \<in> S \<longrightarrow> r x y = p x y)" by (intro exI [of _ r]) auto
qed

text \<open>A rectangle is drawn line by line, also where its lines wrap around.\<close>

lemma leaves_rect:
  assumes "\<And>a b i. (a, b) \<in> S \<Longrightarrow> uint x \<le> a \<Longrightarrow> a < uint x + uint w \<Longrightarrow> i < unat h \<Longrightarrow> b \<noteq> uint (y + of_nat i)"
  shows "leaves S (bb_draw_rect x y w h c)"
proof -
  have "leaves S (rect_from i x y w n c)" if "i + n \<le> unat h" for i n
    using that
  proof (induction n arbitrary: i)
    case 0
    show ?case using leaves_Some by simp
  next
    case (Suc n)
    define k where "k = uint (y + of_nat i)"
    have same: "patch (uint x) k (uint w) 1 (plain c) p a b = p a b" if "(a, b) \<in> S" for a b p
      using assms [OF that, of i] Suc.prems unfolding k_def [symmetric] by (auto simp: patch_def)
    have "leaves S (bb_draw_hline x (y + of_nat i) w c)"
      by (rule leavesI, rule exI, rule conjI, erule bb_draw_hline_draws) (unfold k_def [symmetric], intro allI impI same)
    from leaves_bind [OF this Suc.IH] Suc.prems show ?case by simp
  qed
  from this [of 0 "unat h"] show ?thesis by (simp add: bb_draw_rect_def [abs_def])
qed

lemma leaves_string:
  assumes "y + 16 * (1 + int (count_list s NL)) \<le> 2 ^ 16" and "\<And>a b. (a, b) \<in> S \<Longrightarrow> \<not> text_ink x x y s a b"
  shows "leaves S (draw_string x y s color)"
  by (rule leavesI, rule exI, rule conjI, erule draw_string_draws [OF _ assms(1)]) (use assms(2) in \<open>auto simp: inked_def\<close>)

lemma leaves_char:
  assumes "y + 16 \<le> 2 ^ 16" and "\<And>a b. (a, b) \<in> S \<Longrightarrow> \<not> glyph_pixel ch (a - x) (b - y)"
  shows "leaves S (draw_char x y ch color)"
  by (rule leavesI, rule exI, rule conjI, erule draw_char_draws [OF _ assms(1)]) (use assms(2) in \<open>auto simp: inked_def\<close>)

text \<open>The ink of a string lies right of where it starts, above its last line and left of its end.\<close>

lemma text_ink_bounds:
  "text_ink x0 x y s a b \<Longrightarrow> min x0 x \<le> a \<and> a < max x0 x + 8 * int (length s) \<and> y \<le> b"
  by (induction s arbitrary: x y) (fastforce simp: glyph_pixel_def split: if_splits)+

text \<open>The whole picture is filled.\<close>

lemma put_words_fills:
  "drawn v p \<Longrightarrow> 0 \<le> i \<Longrightarrow> i + int n \<le> h_res v * v_res v \<Longrightarrow>
   \<exists>q. put_words i n c v = Some (draw q v) \<and> (\<forall>x y. 0 \<le> x \<and> x < h_res v \<and> 0 \<le> y \<longrightarrow>
     q x y = (if i \<le> y * h_res v + x \<and> y * h_res v + x < i + int n then c else p x y))"
proof (induction n arbitrary: i v p)
  case 0
  then show ?case using drawn_eq [OF "0.prems"(1)] by (intro exI [of _ p]) auto
next
  case (Suc n)
  have w: "0 < h_res v" using drawn_mode [OF Suc.prems(1)] by (simp add: mode32_def)
  let ?f = "patch (i mod h_res v) (i div h_res v) 1 1 (plain c) p"
  have "i div h_res v < v_res v" using Suc.prems(3) by (intro div_below) (simp_all add: w mult.commute)
  then have q: "put32 i c v = Some (draw ?f v)" using put_pixel [OF Suc.prems(1), of "i mod h_res v" "i div h_res v" c] w Suc.prems(2)
    by (simp add: pos_imp_zdiv_nonneg_iff)
  have d: "drawn (draw ?f v) ?f" using drawn_mode [OF Suc.prems(1)] by simp
  obtain r where r: "put_words (i + 1) n c (draw ?f v) = Some (draw r v)"
    "\<forall>x y. 0 \<le> x \<and> x < h_res v \<and> 0 \<le> y \<longrightarrow> r x y = (if i + 1 \<le> y * h_res v + x \<and> y * h_res v + x < i + 1 + int n then c else ?f x y)"
    using Suc.IH [OF d, of "i + 1"] Suc.prems(2,3) by auto
  have at: "(x = i mod h_res v \<and> y = i div h_res v) \<longleftrightarrow> y * h_res v + x = i" if "0 \<le> x" "x < h_res v" for x y
    using that w by auto
  have "?f x y = (if y * h_res v + x = i then c else p x y)" if "0 \<le> x" "x < h_res v" for x y
    using at [OF that, of y] by (auto simp: patch_def)
  then show ?case using q r by (intro exI [of _ r]) auto
qed

lemma clear_fills:
  assumes "drawn v p" and "c \<noteq> 0"
  obtains q where "bb_clear c v = Some (draw q v)"
    and "\<And>x y. 0 \<le> x \<Longrightarrow> x < h_res v \<Longrightarrow> 0 \<le> y \<Longrightarrow> y < v_res v \<Longrightarrow> q x y = c"
proof -
  have m: "0 < h_res v" "0 \<le> h_res v * v_res v" "h_res v * v_res v < 2 ^ 32" using drawn_mode [OF assms(1)] by (auto simp: mode32_def)
  obtain q where q: "put_words 0 (nat (h_res v * v_res v)) c v = Some (draw q v)"
    "\<forall>x y. 0 \<le> x \<and> x < h_res v \<and> 0 \<le> y \<longrightarrow> q x y = (if 0 \<le> y * h_res v + x \<and> y * h_res v + x < h_res v * v_res v then c else p x y)"
    using put_words_fills [OF assms(1), of 0 "nat (h_res v * v_res v)" c] m by auto
  have "y * h_res v + x < h_res v * v_res v" if "x < h_res v" "0 \<le> y" "y < v_res v" "0 \<le> x" for x y
    using row_part(2) [of x 1 "h_res v" y "v_res v"] that by simp
  with q(2) m(1) that show thesis using q(1) assms(2) m by (auto simp: bb_clear_def)
qed

section \<open>Following a cell\<close>

text \<open>State \<open>b\<close> is \<open>a\<close> redrawn, with the picture \<open>g\<close> on the pixels \<open>S\<close> and colours kept for which \<open>Q\<close> holds.\<close>

definition kept :: "(int \<times> int) set \<Rightarrow> picture \<Rightarrow> (highlight_cache \<Rightarrow> bool) \<Rightarrow> string list \<Rightarrow> 'w app \<Rightarrow> 'w app \<Rightarrow> bool" where
  "kept S g Q t a b \<longleftrightarrow> redrawn t a b \<and> Q (a_hc b)
     \<and> (\<exists>p. drawn (a_vd b) p \<and> (\<forall>x y. (x, y) \<in> S \<longrightarrow> p x y = g x y))"

lemma keptI: "redrawn t a b \<Longrightarrow> Q (a_hc b) \<Longrightarrow> drawn (a_vd b) p \<Longrightarrow> (\<And>x y. (x, y) \<in> S \<Longrightarrow> p x y = g x y) \<Longrightarrow> kept S g Q t a b"
  by (auto simp: kept_def)

lemma keptE:
  assumes "kept S g Q t a b"
  obtains p where "redrawn t a b" and "Q (a_hc b)" and "drawn (a_vd b) p" and "\<And>x y. (x, y) \<in> S \<Longrightarrow> p x y = g x y"
  using assms unfolding kept_def by blast

lemma kept_redrawn: "kept S g Q t a b \<Longrightarrow> redrawn t a b"
  by (simp add: kept_def)

lemmas keptD = redrawnD [OF kept_redrawn]

lemma highlighted_fit: "highlighted lang t hc \<Longrightarrow> colours_fit t hc"
proof -
  assume "highlighted lang t hc"
  then obtain opn cols n where "cache lang opn cols n hc" "coherent lang t opn cols" by (auto simp: highlighted_def)
  then show ?thesis by (intro colours_fitI) (use shown_covers in \<open>auto simp: fits_def coherent_def\<close>)
qed

text \<open>A drawing operation that changes the picture on \<open>S\<close> from \<open>g\<close> to \<open>h\<close>.\<close>

lemma kept_drawn:
  assumes "kept S g Q t a b" and "\<And>p. drawn (a_vd b) p \<Longrightarrow> \<exists>q. f (a_vd b) = Some (draw q (a_vd b))
      \<and> (\<forall>x y. (x, y) \<in> S \<longrightarrow> p x y = g x y \<longrightarrow> q x y = h x y)"
  shows "yields (on_vd f b) (kept S h Q t a)"
proof -
  obtain p where k: "redrawn t a b" "Q (a_hc b)" "drawn (a_vd b) p" "\<And>x y. (x, y) \<in> S \<Longrightarrow> p x y = g x y"
    using keptE [OF assms(1)] by metis
  obtain q where q: "f (a_vd b) = Some (draw q (a_vd b))" "\<And>x y. (x, y) \<in> S \<Longrightarrow> q x y = h x y"
    using assms(2) [OF k(3)] k(4) by blast
  obtain hc r where b: "b = a\<lparr>a_hc := hc, a_vd := draw r (a_vd a)\<rparr>" "colours_fit t hc" "mode32 (a_vd a)" by (rule redrawnE [OF k(1)])
  have "b\<lparr>a_vd := draw q (a_vd b)\<rparr> = a\<lparr>a_hc := hc, a_vd := draw q (a_vd a)\<rparr>" using b(1) by simp
  then have "redrawn t a (b\<lparr>a_vd := draw q (a_vd b)\<rparr>)" using redrawnI [OF b(3,2), of q] by simp
  then have "kept S h Q t a (b\<lparr>a_vd := draw q (a_vd b)\<rparr>)"
    by (rule keptI [where p = q]) (use k(2) q(2) drawn_mode [OF k(3)] in simp_all)
  then show ?thesis using q(1) by (simp add: on_vd_def)
qed

lemma kept_vd: "leaves S f \<Longrightarrow> kept S g Q t a b \<Longrightarrow> yields (on_vd f b) (kept S g Q t a)"
  by (rule kept_drawn, assumption) (erule leavesE, assumption, fastforce)

lemma kept_clear:
  assumes "redrawn t a b" and "Q (a_hc b)" and "c \<noteq> 0"
    and "\<And>x y. (x, y) \<in> S \<Longrightarrow> 0 \<le> x \<and> x < h_res (a_vd a) \<and> 0 \<le> y \<and> y < v_res (a_vd a)"
  shows "yields (on_vd (bb_clear c) b) (kept S (plain c) Q t a)"
proof -
  obtain p where p: "drawn (a_vd b) p" using redrawn_drawn [OF assms(1)] by blast
  have k: "kept S p Q t a b" by (rule keptI [where Q = Q, OF assms(1,2) p]) simp
  have res: "h_res (a_vd b) = h_res (a_vd a)" "v_res (a_vd b) = v_res (a_vd a)" by (rule redrawnE [OF assms(1)], simp)+
  show ?thesis
  proof (rule kept_drawn [OF k])
    fix r assume d: "drawn (a_vd b) r"
    obtain q where "bb_clear c (a_vd b) = Some (draw q (a_vd b))"
      "\<forall>x y. 0 \<le> x \<longrightarrow> x < h_res (a_vd b) \<longrightarrow> 0 \<le> y \<longrightarrow> y < v_res (a_vd b) \<longrightarrow> q x y = c"
      by (rule clear_fills [OF d assms(3)]) blast
    then show "\<exists>q. bb_clear c (a_vd b) = Some (draw q (a_vd b)) \<and> (\<forall>x y. (x, y) \<in> S \<longrightarrow> r x y = p x y \<longrightarrow> q x y = c)"
      using assms(4) res by (intro exI [of _ q]) simp
  qed
qed

text \<open>The colours for a row.\<close>

lemma kept_colors:
  assumes "kept S g (highlighted lang t) t a b" and "doc (a_ed a) t" and "r < length t"
  shows "yields (get_colors (int r) b) (\<lambda>(c, b'). kept S g (highlighted lang t) t a b' \<and> (t ! r \<noteq> [] \<longrightarrow> c \<noteq> None)
    \<and> (\<forall>x. c = Some x \<longrightarrow> shown lang (before lang t r) (t ! r) x))"
proof -
  obtain p where k: "redrawn t a b" "highlighted lang t (a_hc b)" "drawn (a_vd b) p" "\<And>x y. (x, y) \<in> S \<Longrightarrow> p x y = g x y"
    using keptE [OF assms(1)] by metis
  obtain opn cols n where h: "cache lang opn cols n (a_hc b)" "coherent lang t opn cols" using k(2) by (auto simp: highlighted_def)
  obtain c hc cols' where c: "highlight_cache_get_line (a_ed a) (int r) (a_hc b) = Some (c, hc)" "cache lang opn cols' n hc"
    "coherent lang t opn cols'" "t ! r \<noteq> [] \<Longrightarrow> c \<noteq> None" "\<And>x. c = Some x \<Longrightarrow> shown lang (before lang t r) (t ! r) x"
    using get_line_coherent [OF assms(2) h assms(3)] by metis
  have hl: "highlighted lang t hc" using c(2,3) by (auto simp: highlighted_def)
  have "kept S g (highlighted lang t) t a (b\<lparr>a_hc := hc\<rparr>)"
    by (rule keptI [OF redrawn_cache [OF k(1) highlighted_fit [OF hl]], where p = p]) (use k(3,4) hl in simp_all)
  then show ?thesis using c(1,4,5) keptD(1) [OF assms(1)] by (simp add: get_colors_def)
qed

section \<open>The parts beside a cell\<close>

lemma kept_fill_x:
  assumes "kept S g Q t a b" and "0 \<le> x" and "0 \<le> w" and "x + w < 2 ^ 16" and "\<And>p q. (p, q) \<in> S \<Longrightarrow> p < x \<or> x + w \<le> p"
  shows "yields (fill x y w h c b) (kept S g Q t a)"
  unfolding fill_def
proof (rule kept_vd [OF leaves_rect assms(1)])
  fix p q i assume "(p, q) \<in> S" "uint (word_of_int x :: u16) \<le> p" "p < uint (word_of_int x :: u16) + uint (word_of_int w :: u16)"
  moreover have "uint (word_of_int x :: u16) = x" "uint (word_of_int w :: u16) = w" by (rule u16_small; use assms(2-4) in linarith)+
  ultimately show "q \<noteq> uint (word_of_int y + of_nat i :: u16)" using assms(5) by fastforce
qed

lemma kept_text:
  assumes "kept S g Q t a b" and "y + 16 * (1 + int (count_list s NL)) \<le> 2 ^ 16"
    and "\<And>p q. (p, q) \<in> S \<Longrightarrow> p < x \<or> x + 8 * int (length s) \<le> p \<or> q < y"
  shows "yields (write_text x y s c b) (kept S g Q t a)"
  unfolding write_text_def
  by (rule kept_vd [OF leaves_string [OF assms(2)] assms(1)]) (use assms(3) text_ink_bounds in fastforce)

lemma kept_filetree:
  assumes "kept S g Q t a b" and "ft_inv (a_ft a)" and "\<And>p q. (p, q) \<in> S \<Longrightarrow> 160 \<le> p"
    and "r_x (l_filetree (a_sc a)) = 0" and "r_w (l_filetree (a_sc a)) = 160" and "EDITOR_Y + n * FONT_H \<le> 2 ^ 15"
  shows "yields (draw_filetree n b) (kept S g Q t a)"
proof -
  let ?f = "a_ft a"
  have S: "p < x \<or> x + w \<le> p" if "(p, q) \<in> S" "x + w \<le> 160" for x w p q using assms(3) [OF that(1)] that(2) by simp
  have row: "yields (filetree_row i c) (kept S g Q t a)"
    if k: "kept S g Q t a c" and i: "i \<in> set [filetree_get_scroll ?f..min (filetree_get_scroll ?f + n) (filetree_get_count ?f) - 1]" for i c
  proof -
    have j: "0 \<le> i" "i < entry_count ?f" "entry_count ?f \<le> int (length (ft_entries ?f))"
      using i assms(2) by (auto simp: filetree_get_scroll_def filetree_get_count_def ft_inv_def)
    then obtain e where e: "filetree_get_entry i ?f = Some (Some e)"
      by (auto simp: filetree_get_entry_def entry_at_def in_range_def)
    let ?y = "EDITOR_Y + (i - filetree_get_scroll ?f) * FONT_H" and ?s = "cut (nat FILETREE_COLS) (fe_name e)"
    have y: "?y \<le> 2 ^ 15" using i assms(6) by (simp add: FONT_H_def)
    have s: "length ?s \<le> 19" "count_list ?s NL \<le> 19"
      using count_le_length [of ?s NL] by (auto simp: cut_def FILETREE_COLS_def)
    have name: "yields (write_text 4 ?y ?s col d) (kept S g Q t a)" if "kept S g Q t a d" for d col
      by (rule kept_text [OF that]) (use y s S [of _ _ 4 "8 * int (length ?s)"] in auto)
    have bar: "yields (if cnd then fill 0 z 159 FONT_H col c else Some c) (kept S g Q t a)" for cnd z col
      using kept_fill_x [OF k, of 0 159] S [of _ _ 0 159] k by auto
    have "yields (do { d \<leftarrow> (if cnd then fill 0 z 159 FONT_H col c else Some c); write_text 4 ?y ?s col' d }) (kept S g Q t a)" for cnd z col col'
      by (rule yields_then [OF bar name])
    then show ?thesis using e keptD(2,4) [OF k] assms(5) by (simp add: filetree_row_def Let_def del: yields_simps(3) split del: if_split cong: if_cong)
  qed
  have rows: "yields (each filetree_row [filetree_get_scroll (a_ft c)..min (filetree_get_scroll (a_ft c) + n) (filetree_get_count (a_ft c)) - 1] c) (kept S g Q t a)"
    if "kept S g Q t a c" for c
    unfolding keptD(4) [OF that]
    by (rule yields_each [where P = "kept S g Q t a", OF that]) (rule row)
  have r: "r_x (l_filetree (a_sc b)) = 0" "r_w (l_filetree (a_sc b)) = 160" using assms(4,5) keptD(2) [OF assms(1)] by simp_all
  have "yields (fill_rect (l_filetree (a_sc b)) col b) (kept S g Q t a)" for col
    unfolding fill_rect_def r by (rule kept_fill_x [OF assms(1)]) (use S [of _ _ 0 160] in auto)
  moreover have "yields (fill (160 - 1) 0 1 h col c) (kept S g Q t a)" if "kept S g Q t a c" for c h col
    by (rule kept_fill_x [OF that]) (use S [of _ _ 159 1] in auto)
  ultimately show ?thesis unfolding draw_filetree_def Let_def r by (intro yields_then [where P = "kept S g Q t a"] rows)
qed

lemma kept_gutter:
  assumes "kept S g Q t a b" and "\<And>p q. (p, q) \<in> S \<Longrightarrow> r_x (l_editor (a_sc a)) \<le> p" and "r_y (l_editor (a_sc a)) = EDITOR_Y"
    and "0 \<le> r_x (l_gutter (a_sc a))" and "0 \<le> r_w (l_gutter (a_sc a))" and "r_x (l_gutter (a_sc a)) + r_w (l_gutter (a_sc a)) = r_x (l_editor (a_sc a))"
    and "r_x (l_editor (a_sc a)) < 2 ^ 15" and "scroll_row (a_ed a) = scr" and "EDITOR_Y + (e - scr) * FONT_H \<le> 2 ^ 15"
    and "0 \<le> r_w (l_gutter (a_sc a)) sdiv FONT_W - GUTTER_PAD" and "r_w (l_gutter (a_sc a)) sdiv FONT_W - GUTTER_PAD < 9"
  shows "yields (draw_gutter scr e b) (kept S g Q t a)"
proof -
  let ?gu = "l_gutter (a_sc a)"
  have row: "yields (gutter_row d r c) (kept S g Q t a)" if k: "kept S g Q t a c" and r: "r \<in> set [scr..e - 1]" for d r c
  proof -
    define p where "p = skip_zeros (digit_string (nat d) (r + 1))"
    have nl: "NL \<notin> set (digit_string m i)" for m i
    proof (induction m arbitrary: i)
      case (Suc m)
      have "char_of (48 + nat (i mod 10)) \<noteq> NL"
      proof
        assume "char_of (48 + nat (i mod 10)) = NL"
        then have "of_char (char_of (48 + nat (i mod 10)) :: char) = (of_char NL :: nat)" by simp
        moreover have "nat (i mod 10) < 10" by (simp add: nat_less_iff)
        ultimately show False by simp
      qed
      then show ?case using Suc by simp
    qed simp
    have "set (skip_zeros s) \<subseteq> set s" for s by (induction s rule: skip_zeros.induct) auto
    then have "NL \<notin> set p" using nl by (auto simp: p_def)
    then have c: "count_list p NL = 0" by (simp add: count_list_0_iff)
    have "yields (write_text (r_x ?gu + r_w ?gu - GUTTER_PAD - int (length p) * FONT_W) (EDITOR_Y + (r - scr) * FONT_H) p COLOR_GUTTER_FG c) (kept S g Q t a)"
    proof (rule kept_text [OF k])
      show "EDITOR_Y + (r - scr) * FONT_H + 16 * (1 + int (count_list p NL)) \<le> 2 ^ 16" using r assms(9) c by (simp add: FONT_H_def)
    next
      fix u w assume "(u, w) \<in> S"
      then show "u < r_x ?gu + r_w ?gu - GUTTER_PAD - int (length p) * FONT_W \<or>
          r_x ?gu + r_w ?gu - GUTTER_PAD - int (length p) * FONT_W + 8 * int (length p) \<le> u \<or> w < EDITOR_Y + (r - scr) * FONT_H"
        using assms(2,6) by (fastforce simp: GUTTER_PAD_def FONT_W_def)
    qed
    then show ?thesis using keptD(1,2) [OF k] assms(3,8) by (simp add: gutter_row_def Let_def p_def editor_get_scroll_row_def)
  qed
  have rows: "yields (each (gutter_row d) [scr..e - 1] c) (kept S g Q t a)" if "kept S g Q t a c" for d c
    by (rule yields_each [where P = "kept S g Q t a", OF that]) (rule row)
  have "yields (fill_rect ?gu col b) (kept S g Q t a)" for col
    unfolding fill_rect_def by (rule kept_fill_x [OF assms(1,4,5)]) (use assms(2,6,7) in \<open>auto dest: assms(2)\<close>)
  then show ?thesis using assms(10,11) keptD(2) [OF assms(1)]
    unfolding draw_gutter_def Let_def by (intro yields_then [where P = "kept S g Q t a"]) (simp_all add: rows)
qed

section \<open>The parts over and below a cell\<close>

definition cell :: "int \<Rightarrow> int \<Rightarrow> (int \<times> int) set" where
  "cell x y = {x..<x + 8} \<times> {y..<y + 16}"

text \<open>Another cell of the same grid; one left of or above the screen wraps around to a place outside it.\<close>

lemma kept_block:
  assumes "kept (cell x y) g Q t a b" and "x + 8 \<le> 2 ^ 15" and "y + 16 \<le> 2 ^ 15"
    and "- (2 ^ 15) \<le> x + 8 * i" and "x + 8 * i < 2 ^ 15" and "- (2 ^ 15) \<le> y + 16 * j" and "y + 16 * j < 2 ^ 15" and "i \<noteq> 0 \<or> j \<noteq> 0"
  shows "yields (fill (x + 8 * i) (y + 16 * j) FONT_W FONT_H c b) (kept (cell x y) g Q t a)"
  unfolding fill_def
proof (rule kept_vd [OF leaves_rect assms(1)])
  fix p q k
  assume pq: "(p, q) \<in> cell x y" and p: "uint (word_of_int (x + 8 * i) :: u16) \<le> p"
    "p < uint (word_of_int (x + 8 * i) :: u16) + uint (word_of_int FONT_W :: u16)" and k: "k < unat (word_of_int FONT_H :: u16)"
  have w: "uint (word_of_int (x + 8 * i) :: u16) = (if 0 \<le> x + 8 * i then x + 8 * i else x + 8 * i + 2 ^ 16)"
  proof (cases "0 \<le> x + 8 * i")
    case True
    then show ?thesis using u16_small [of "x + 8 * i"] assms(5) by simp
  next
    case False
    have "(x + 8 * i) mod 2 ^ 16 = (x + 8 * i + 2 ^ 16) mod 2 ^ 16" by (rule mod_add_self2 [symmetric])
    also have "\<dots> = x + 8 * i + 2 ^ 16" by (rule mod_pos_pos_trivial) (use False assms(4) in simp_all)
    finally have "uint (word_of_int (x + 8 * i) :: u16) = x + 8 * i + 2 ^ 16" by (simp only: uint_word_of_int) simp
    with False show ?thesis by (simp only: if_False)
  qed
  have "uint (word_of_int FONT_W :: u16) = 8" by (simp add: FONT_W_def)
  then have i: "i = 0" using pq p assms(2,4) unfolding w by (auto simp: cell_def split: if_splits)
  show "q \<noteq> uint (word_of_int (y + 16 * j) + of_nat k :: u16)"
  proof
    assume q: "q = uint (word_of_int (y + 16 * j) + of_nat k :: u16)"
    have k16: "k < 16" using k by (simp add: FONT_H_def)
    have "word_of_int (y + 16 * j) + of_nat k = (word_of_int (y + 16 * j + int k) :: u16)" by simp
    then have m: "q = (y + 16 * j + int k) mod 2 ^ 16" unfolding q by (simp only: uint_word_of_int) simp
    show False
    proof (cases "0 \<le> y + 16 * j + int k")
      case True
      then have "q = y + 16 * j + int k" unfolding m using assms(7) k16 by (intro mod_pos_pos_trivial) simp_all
      then have "j = 0" using pq k16 by (auto simp: cell_def)
      with i assms(8) show False by simp
    next
      case False
      have "q = (y + 16 * j + int k + 2 ^ 16) mod 2 ^ 16" unfolding m by (rule mod_add_self2 [symmetric])
      also have "\<dots> = y + 16 * j + int k + 2 ^ 16" by (rule mod_pos_pos_trivial) (use False assms(6) in simp_all)
      finally show False using pq assms(3,6) by (auto simp: cell_def)
    qed
  qed
qed

lemma kept_fill_y:
  assumes "kept S g Q t a b" and "0 \<le> y" and "0 \<le> h" and "y + h < 2 ^ 16" and "\<And>p q. (p, q) \<in> S \<Longrightarrow> q < y"
  shows "yields (fill x y w h c b) (kept S g Q t a)"
  unfolding fill_def
proof (rule kept_vd [OF leaves_rect assms(1)])
  fix p q i assume pq: "(p, q) \<in> S" and i: "i < unat (word_of_int h :: u16)"
  have h: "uint (word_of_int h :: u16) = h" by (rule u16_small) (use assms(2-4) in simp_all)
  then have "int (unat (word_of_int h :: u16)) = h" by (simp only: uint_nat [symmetric])
  with i have ih: "int i < h" by linarith
  have "word_of_int y + of_nat i = (word_of_int (y + int i) :: u16)" by simp
  also have "uint \<dots> = y + int i" by (rule u16_small) (use assms(2,4) ih in simp_all)
  finally have "uint (word_of_int y + of_nat i :: u16) = y + int i" .
  with assms(5) [OF pq] show "q \<noteq> uint (word_of_int y + of_nat i :: u16)" by linarith
qed

lemma kept_scrollbar:
  assumes "kept S g Q t a b" and "0 \<le> r_x (l_scrollbar (a_sc a))" and "r_w (l_scrollbar (a_sc a)) = 8"
    and "r_x (l_scrollbar (a_sc a)) < 2 ^ 15" and "\<And>p q. (p, q) \<in> S \<Longrightarrow> p < r_x (l_scrollbar (a_sc a))"
  shows "yields (draw_scrollbar b) (kept S g Q t a)"
proof -
  have r: "r_w (l_scrollbar (a_sc b)) = 8" "r_x (l_scrollbar (a_sc b)) = r_x (l_scrollbar (a_sc a))" using keptD(2) [OF assms(1)] assms(3) by simp_all
  have track: "yields (fill_rect (l_scrollbar (a_sc b)) col b) (kept S g Q t a)" for col
    unfolding fill_rect_def r by (rule kept_fill_x [OF assms(1)]) (use assms(2-5) in auto)
  have "yields (fill (r_x (l_scrollbar (a_sc a)) + 2) y (8 - 4) h col c) (kept S g Q t a)" if "kept S g Q t a c" for c y h col
    by (rule kept_fill_x [OF that]) (use assms(2-4) in \<open>auto dest: assms(5)\<close>)
  then show ?thesis unfolding draw_scrollbar_def Let_def r
    by (intro yields_then [where P = "kept S g Q t a", OF track]) simp
qed

lemma cstring_below: "cstring a = Some s \<Longrightarrow> length s < length a"
  using cstring_prefix by fastforce

lemma kept_status:
  assumes "kept S g Q t a b" and "bar_inv (a_cb a)" and "l_status_bar (a_sc a) = \<lparr>r_x = 0, r_y = y, r_w = w, r_h = FONT_H\<rparr>"
    and "0 \<le> y" and "y < 2 ^ 15" and "length (time_get_string (a_cl a)) < 16" and "\<And>p q. (p, q) \<in> S \<Longrightarrow> q < y"
  shows "yields (render_status_bar b) (kept S g Q t a)"
proof -
  let ?P = "kept S g Q t a"
  have wt: "yields (write_text x y s col c) (?P)" if "?P c" "length s < CMD_BUF_SIZE" for x s col c
  proof (rule kept_text [OF that(1)])
    show "y + 16 * (1 + int (count_list s NL)) \<le> 2 ^ 16"
      using count_le_length [of s NL] that(2) assms(5) by (simp add: CMD_BUF_SIZE_def)
  qed (simp add: assms(7))
  have fl: "yields (fill x y k FONT_H col c) ?P" if "?P c" for x k col c
    by (rule kept_fill_y [OF that assms(4)]) (use assms(5,7) in \<open>simp_all add: FONT_H_def\<close>)
  obtain s f m where h: "cstring (input (a_cb a)) = Some s" "cstring (filename (a_cb a)) = Some f" "cstring (status_msg (a_cb a)) = Some m"
    and l: "length s < CMD_BUF_SIZE" "length f < CMD_BUF_SIZE" "length m < CMD_BUF_SIZE"
    using assms(2) typed_input cstring_below unfolding bar_inv_def holds_def typed_def by (smt (verit) typed_def)
  have left: "yields (status_left c) ?P" if "?P c" for c
  proof -
    have "yields (do { d \<leftarrow> write_text 4 y '':'' c1 c; d \<leftarrow> write_text x y s c2 d; fill z y FONT_W FONT_H c3 d }) ?P" for x z c1 c2 c3
      by (intro yields_then [OF wt [OF that]] yields_then [OF wt] fl) (use l(1) in \<open>simp_all add: CMD_BUF_SIZE_def\<close>)
    then show ?thesis using h l keptD(2,3) [OF that] wt [OF that] assms(3)
      by (simp add: status_left_def Let_def command_bar_get_input_def command_bar_get_status_def command_bar_get_filename_def del: yields_simps(3))
  qed
  have "l_status_bar (a_sc b) = \<lparr>r_x = 0, r_y = y, r_w = w, r_h = FONT_H\<rparr>" using assms(3) keptD(2) [OF assms(1)] by simp
  then have bar: "yields (fill_rect (l_status_bar (a_sc b)) col b) ?P" "r_y (l_status_bar (a_sc b)) = y" for col
    using fl [OF assms(1)] by (simp_all add: fill_rect_def)
  have tl: "length (time_get_string (a_cl c)) < CMD_BUF_SIZE" "length (session_time_format (a_tm c) (a_start c) 16) < CMD_BUF_SIZE" if "?P c" for c
    using keptD(7) [OF that] assms(6) by (simp_all add: CMD_BUF_SIZE_def session_time_format_def Let_def)
  show ?thesis unfolding render_status_bar_def Let_def bar(2)
    by (intro yields_then [OF bar(1)] yields_then [OF left] yields_then [OF wt] wt tl)
qed

section \<open>The character in its cell\<close>

definition char_picture :: "char \<Rightarrow> u32 \<Rightarrow> int \<Rightarrow> int \<Rightarrow> picture" where
  "char_picture ch color x y = (\<lambda>p q. if glyph_pixel ch (p - x) (q - y) then color else COLOR_BG)"

definition colour_at :: "SyntaxLanguage \<Rightarrow> string list \<Rightarrow> nat \<Rightarrow> nat \<Rightarrow> u32" where
  "colour_at lang t r c = fst (highlight_ref lang (before lang t r) (t ! r)) ! c"

lemma shown_colour:
  assumes "shown lang k s x" and "c < length s"
  shows "aread x (int c) = Some (fst (highlight_ref lang k s) ! c)"
proof -
  have "x ! c = take (length s) x ! c" using assms(2) by simp
  also have "\<dots> = Some (fst (highlight_ref lang k s) ! c)" using assms highlight_ref_length [of lang k s] by (simp add: shown_def)
  finally show ?thesis using assms by (simp add: aread_def in_range_def shown_def)
qed

lemma colored_char_draws:
  assumes "shown lang k s x" and "c < length s"
  shows "colored_char px y (Some (map Some s @ J)) x (int c) b = on_vd (draw_char (px (int c)) y (s ! c) (fst (highlight_ref lang k s) ! c)) b"
  using shown_colour [OF assms] assms(2) by (simp add: colored_char_def char_at_def aread_def in_range_def nth_append)

text \<open>Characters of a row drawn elsewhere, and the one drawn in the cell.\<close>

lemma kept_chars:
  assumes "kept S g (highlighted lang t) t a b" and "shown lang k s x" and "\<forall>c \<in> set cs. 0 \<le> c \<and> c < int (length s)" and "y + 16 \<le> 2 ^ 16"
    and "\<And>p q c. (p, q) \<in> S \<Longrightarrow> c \<in> set cs \<Longrightarrow> p < px c \<or> px c + 8 \<le> p \<or> q < y \<or> y + 16 \<le> q"
  shows "yields (each (colored_char px y (Some (map Some s @ J)) x) cs b) (kept S g (highlighted lang t) t a)"
proof (rule yields_each [where P = "kept S g (highlighted lang t) t a", OF assms(1)])
  fix c d assume c: "c \<in> set cs" and d: "kept S g (highlighted lang t) t a d"
  then obtain m where m: "c = int m" "m < length s" using assms(3) by (metis nonneg_int_cases of_nat_less_iff)
  show "yields (colored_char px y (Some (map Some s @ J)) x c d) (kept S g (highlighted lang t) t a)"
    unfolding m(1) colored_char_draws [OF assms(2) m(2)]
    by (rule kept_vd [OF leaves_char [OF assms(4)] d]) (use assms(5) [OF _ c] m(1) in \<open>fastforce simp: glyph_pixel_def\<close>)
qed

lemma kept_ink:
  assumes "kept (cell x y) (plain COLOR_BG) (highlighted lang t) t a b" and "shown lang k s z" and "c < length s" and "px (int c) = x" and "y + 16 \<le> 2 ^ 16"
  shows "yields (colored_char px y (Some (map Some s @ J)) z (int c) b)
    (kept (cell x y) (char_picture (s ! c) (fst (highlight_ref lang k s) ! c) x y) (highlighted lang t) t a)"
  unfolding colored_char_draws [OF assms(2,3)] assms(4)
proof (rule kept_drawn [OF assms(1)])
  fix p assume d: "drawn (a_vd b) p"
  let ?col = "fst (highlight_ref lang k s) ! c"
  show "\<exists>q. draw_char x y (s ! c) ?col (a_vd b) = Some (draw q (a_vd b)) \<and> (\<forall>u w. (u, w) \<in> cell x y \<longrightarrow> p u w = COLOR_BG \<longrightarrow>
      q u w = char_picture (s ! c) ?col x y u w)"
    unfolding draw_char_draws [OF d assms(5)] by (intro exI conjI, rule refl) (simp add: inked_def char_picture_def)
qed

lemma each_append: "each f (xs @ ys) a = each f xs a \<bind> each f ys"
proof (induction xs arbitrary: a)
  case (Cons x xs)
  then show ?case by (cases "f x a") simp_all
qed simp

lemma each_around:
  fixes i j k :: int
  assumes "i \<le> k" and "k < j"
  shows "each f [i..j - 1] a = (each f [i..k - 1] a \<bind> f k) \<bind> each f [k + 1..j - 1]"
proof -
  have "[i..j - 1] = [i..k - 1] @ k # [k + 1..j - 1]" by (rule upto_split3) (use assms in simp_all)
  then show ?thesis by (cases "each f [i..k - 1] a") (simp_all add: each_append)
qed

text \<open>A row, drawn in the colours of the reference highlighter.\<close>

lemma text_row_steps:
  assumes "kept S g (highlighted lang t) t a b" and "doc (a_ed a) t" and "r < length t" and "0 \<le> scc"
    and "\<And>c J x. kept S g (highlighted lang t) t a c \<Longrightarrow> shown lang (before lang t r) (t ! r) x \<Longrightarrow> scc < int (length (t ! r)) \<Longrightarrow>
      yields (each (colored_char (\<lambda>k. r_x (l_editor (a_sc a)) + (k - scc) * FONT_W) y (Some (map Some (t ! r) @ J)) x) [scc..int (length (t ! r)) - 1] c) P"
    and "int (length (t ! r)) \<le> scc \<Longrightarrow> P b"
  shows "yields (text_row y scc (int r) b) P"
proof (rule row_steps [OF kept_redrawn [OF assms(1)] assms(2,3)])
  show "yields (get_colors (int r) b) (\<lambda>(c, d). redrawn t a d \<and> kept S g (highlighted lang t) t a d \<and> (t ! r \<noteq> [] \<longrightarrow> c \<noteq> None)
      \<and> (\<forall>x. c = Some x \<longrightarrow> shown lang (before lang t r) (t ! r) x))"
    using kept_colors [OF assms(1-3)] by (rule yields_mono) (auto dest: kept_redrawn)
qed (use assms(4-6) in auto)

lemma kept_other_row:
  assumes "kept S g (highlighted lang t) t a b" and "doc (a_ed a) t" and "r < length t" and "0 \<le> scc" and "y + 16 \<le> 2 ^ 16"
    and "\<And>p q. (p, q) \<in> S \<Longrightarrow> q < y \<or> y + 16 \<le> q"
  shows "yields (text_row y scc (int r) b) (kept S g (highlighted lang t) t a)"
  by (rule text_row_steps [OF assms(1-4)]) (use assms(4-6) in \<open>auto intro!: kept_chars simp: assms(1)\<close>)

lemma kept_the_row:
  fixes x y
  assumes "kept (cell x y) (plain COLOR_BG) (highlighted lang t) t a b" and "doc (a_ed a) t" and "r < length t" and "0 \<le> scc" and "y + 16 \<le> 2 ^ 16"
    and "scc \<le> int c" and "c < length (t ! r)" and "x = r_x (l_editor (a_sc a)) + (int c - scc) * FONT_W"
  shows "yields (text_row y scc (int r) b) (kept (cell x y) (char_picture (t ! r ! c) (colour_at lang t r c) x y) (highlighted lang t) t a)"
proof (rule text_row_steps [OF assms(1-4)])
  fix d J z assume d: "kept (cell x y) (plain COLOR_BG) (highlighted lang t) t a d" and z: "shown lang (before lang t r) (t ! r) z"
  let ?px = "\<lambda>k. r_x (l_editor (a_sc a)) + (k - scc) * FONT_W"
  let ?f = "colored_char ?px y (Some (map Some (t ! r) @ J)) z"
  have off: "p < ?px k \<or> ?px k + 8 \<le> p \<or> q < y \<or> y + 16 \<le> q" if "(p, q) \<in> cell x y" "k \<noteq> int c" for p q k
  proof -
    have "k < int c \<or> int c < k" using that(2) by auto
    then show ?thesis using that(1) by (auto simp: cell_def assms(8) FONT_W_def)
  qed
  have before: "yields (each ?f [scc..int c - 1] d) (kept (cell x y) (plain COLOR_BG) (highlighted lang t) t a)"
    by (rule kept_chars [OF d z _ assms(5)]) (use assms(4,7) off in auto)
  have ink: "yields (?f (int c) e) (kept (cell x y) (char_picture (t ! r ! c) (colour_at lang t r c) x y) (highlighted lang t) t a)"
    if "kept (cell x y) (plain COLOR_BG) (highlighted lang t) t a e" for e
    unfolding colour_at_def by (rule kept_ink [OF that z assms(7) _ assms(5)]) (simp add: assms(8))
  have after: "yields (each ?f [int c + 1..int (length (t ! r)) - 1] e) (kept (cell x y) g (highlighted lang t) t a)" if "kept (cell x y) g (highlighted lang t) t a e" for e g
    by (rule kept_chars [OF that z _ assms(5)]) (use assms(4) off in auto)
  have split: "each ?f [scc..int (length (t ! r)) - 1] d = (each ?f [scc..int c - 1] d \<bind> ?f (int c)) \<bind> each ?f [int c + 1..int (length (t ! r)) - 1]"
    using assms(6,7) by (intro each_around) simp_all
  show "yields (each ?f [scc..int (length (t ! r)) - 1] d) (kept (cell x y) (char_picture (t ! r ! c) (colour_at lang t r c) x y) (highlighted lang t) t a)"
    unfolding split by (intro yields_then [OF yields_then [OF before ink] after])
qed (use assms(6,7) in simp)

lemma kept_lines:
  fixes x y
  assumes "kept (cell x y) (plain COLOR_BG) (highlighted lang t) t a b" and "doc (a_ed a) t" and "0 \<le> scr" and "0 \<le> scc" and "e \<le> int (length t)"
    and "scr \<le> int r" and "int r < e" and "scc \<le> int c" and "c < length (t ! r)"
    and "x = r_x (l_editor (a_sc a)) + (int c - scc) * FONT_W" and "y = EDITOR_Y + (int r - scr) * FONT_H"
    and "EDITOR_Y + (e - scr) * FONT_H < 2 ^ 16"
  shows "yields (draw_text_lines scr e scc b) (kept (cell x y) (char_picture (t ! r ! c) (colour_at lang t r c) x y) (highlighted lang t) t a)"
proof -
  let ?g = "char_picture (t ! r ! c) (colour_at lang t r c) x y"
  let ?f = "\<lambda>k. text_row (EDITOR_Y + (k - scr) * FONT_H) scc k"
  have r: "r < length t" using assms(5,7) by simp
  have other: "yields (?f k d) (kept (cell x y) g (highlighted lang t) t a)"
    if d: "kept (cell x y) g (highlighted lang t) t a d" and k: "scr \<le> k" "k < e" "k \<noteq> int r" for k d g
  proof -
    have n: "nat k < length t" "int (nat k) = k" using k assms(3,5) by auto
    have "yields (text_row (EDITOR_Y + (k - scr) * FONT_H) scc (int (nat k)) d) (kept (cell x y) g (highlighted lang t) t a)"
    proof (rule kept_other_row [OF d assms(2) n(1) assms(4)])
      show "EDITOR_Y + (k - scr) * FONT_H + 16 \<le> 2 ^ 16" using k(2) assms(12) by (simp add: FONT_H_def)
      fix p q assume "(p, q) \<in> cell x y"
      moreover have "k < int r \<or> int r < k" using k(3) by auto
      ultimately show "q < EDITOR_Y + (k - scr) * FONT_H \<or> EDITOR_Y + (k - scr) * FONT_H + 16 \<le> q"
        by (auto simp: cell_def assms(11) FONT_H_def)
    qed
    then show ?thesis using n(2) by simp
  qed
  have others: "yields (each ?f ks d) (kept (cell x y) g (highlighted lang t) t a)"
    if "kept (cell x y) g (highlighted lang t) t a d" "\<forall>k \<in> set ks. scr \<le> k \<and> k < e \<and> k \<noteq> int r" for ks d g
    by (rule yields_each [where P = "kept (cell x y) g (highlighted lang t) t a", OF that(1)]) (use other that(2) in blast)
  have row: "yields (?f (int r) d) (kept (cell x y) ?g (highlighted lang t) t a)" if "kept (cell x y) (plain COLOR_BG) (highlighted lang t) t a d" for d
    using kept_the_row [OF that assms(2) r assms(4) _ assms(8,9,10)] assms(7,11,12) by (simp add: FONT_H_def)
  have split: "draw_text_lines scr e scc b = (each ?f [scr..int r - 1] b \<bind> ?f (int r)) \<bind> each ?f [int r + 1..e - 1]"
    unfolding draw_text_lines_def by (rule each_around [OF assms(6,7)])
  show ?thesis unfolding split
    by (intro yields_then [OF yields_then [OF others [OF assms(1)] row]] others) (use assms(6,7) in auto)
qed

section \<open>A full frame\<close>

text \<open>A block cursor does not cover the cell: it is another one, not so far away that its 16 bit coordinates alias.\<close>

definition apart :: "editor \<Rightarrow> int \<Rightarrow> int \<Rightarrow> int \<Rightarrow> int \<Rightarrow> bool" where
  "apart e col row c r \<longleftrightarrow> (col \<noteq> c \<or> row \<noteq> r) \<and> \<bar>col - scroll_col e\<bar> \<le> 4000 \<and> \<bar>row - scroll_row e\<bar> \<le> 2000"

lemma kept_cursor:
  assumes "kept (cell x y) g (highlighted lang t) t a b" and "laid_out a" and "h_res (a_vd a) \<le> 2 ^ 15" and "v_res (a_vd a) \<le> 2 ^ 15" and "r_x (l_editor (a_sc a)) \<le> 240"
    and "in_view a c r (scroll_row (a_ed a)) (scroll_col (a_ed a))" and "apart (a_ed a) col row c r"
    and "x = r_x (l_editor (a_sc a)) + (c - scroll_col (a_ed a)) * FONT_W" and "y = EDITOR_Y + (r - scroll_row (a_ed a)) * FONT_H"
  shows "yields (fill (model_to_px b col) (model_to_py b row) FONT_W FONT_H k b) (kept (cell x y) g (highlighted lang t) t a)"
proof -
  have l: "0 \<le> r_x (l_editor (a_sc a))" "r_x (l_editor (a_sc a)) + r_w (l_editor (a_sc a)) \<le> h_res (a_vd a)"
    "sc_vis_cols (a_sc a) * 8 \<le> r_w (l_editor (a_sc a))" "10 + sc_vis_rows (a_sc a) * 16 \<le> v_res (a_vd a)" "r_y (l_editor (a_sc a)) = 10"
    using assms(2) by (simp_all add: laid_out_def Let_def EDITOR_Y_def FONT_W_def FONT_H_def)
  have v: "0 \<le> c - scroll_col (a_ed a)" "c - scroll_col (a_ed a) < sc_vis_cols (a_sc a)"
    "0 \<le> r - scroll_row (a_ed a)" "r - scroll_row (a_ed a) < sc_vis_rows (a_sc a)" using assms(6) by (simp_all add: in_view_def)
  have xy: "x + 8 \<le> h_res (a_vd a)" "y + 16 \<le> v_res (a_vd a)"
    using cells_below [OF v(1,2), of 8 "r_w (l_editor (a_sc a))"] cells_below [OF v(3,4), of 16 "v_res (a_vd a) - 10"] l
    by (simp_all add: assms(8,9) EDITOR_Y_def FONT_W_def FONT_H_def)
  have e: "model_to_px b col = x + 8 * (col - c)" "model_to_py b row = y + 16 * (row - r)"
    using keptD(1,2) [OF assms(1)] l(5)
    by (simp_all add: model_to_px_def model_to_py_def assms(8,9) EDITOR_Y_def FONT_W_def FONT_H_def editor_get_scroll_col_def editor_get_scroll_row_def)
  show ?thesis unfolding e
    by (rule kept_block [OF assms(1)]) (use xy assms(3-5,7) l in \<open>auto simp: apart_def assms(8,9) EDITOR_Y_def FONT_W_def FONT_H_def\<close>)
qed

lemma layout_parts:
  fixes a :: "'w app"
  defines "l \<equiv> scene_update_layout a"
  assumes "numbered (a_ed a)"
  shows "r_x (l_gutter (a_sc l)) + r_w (l_gutter (a_sc l)) = r_x (l_editor (a_sc l))" "0 \<le> r_x (l_gutter (a_sc l))" "0 \<le> r_w (l_gutter (a_sc l))"
    "r_x (l_filetree (a_sc l)) = 0" "filetree_is_visible (a_ft a) \<Longrightarrow> r_w (l_filetree (a_sc l)) = 160 \<and> 160 \<le> r_x (l_editor (a_sc l))"
    "r_x (l_scrollbar (a_sc l)) = h_res (a_vd a) - 8" "r_w (l_scrollbar (a_sc l)) = 8"
    "sc_vis_rows (a_sc l) = (v_res (a_vd a) - 26) sdiv 16"
proof -
  have d: "1 \<le> count_digits (editor_get_row_count (a_ed a)) 1" by (rule count_digits_ge)
  then show "0 \<le> r_x (l_gutter (a_sc l))" "0 \<le> r_w (l_gutter (a_sc l))"
    "filetree_is_visible (a_ft a) \<Longrightarrow> r_w (l_filetree (a_sc l)) = 160 \<and> 160 \<le> r_x (l_editor (a_sc l))"
    by (simp_all add: l_def scene_update_layout_def Let_def FILETREE_W_PX_def FILETREE_COLS_def FONT_W_def GUTTER_PAD_def GUTTER_DIGITS_MIN_def)
  show "r_x (l_gutter (a_sc l)) + r_w (l_gutter (a_sc l)) = r_x (l_editor (a_sc l))" "r_x (l_filetree (a_sc l)) = 0"
    "r_x (l_scrollbar (a_sc l)) = h_res (a_vd a) - 8" "r_w (l_scrollbar (a_sc l)) = 8" "sc_vis_rows (a_sc l) = (v_res (a_vd a) - 26) sdiv 16"
    by (simp_all add: l_def scene_update_layout_def Let_def vg_get_h_res_def vg_get_v_res_def SCROLLBAR_W_def EDITOR_Y_def FONT_H_def)
qed

text \<open>The screen is one of a VBE mode, and the clock's string fits its array.\<close>

definition screen_size :: "'w app \<Rightarrow> bool" where
  "screen_size a \<longleftrightarrow> roomy (a_vd a) \<and> h_res (a_vd a) \<le> 2 ^ 15 \<and> v_res (a_vd a) \<le> 2 ^ 15 \<and> length (time_get_string (a_cl a)) < 16"

text \<open>A character of the text that is in view and neither selected nor under a block cursor.\<close>

definition plain_cell :: "string list \<Rightarrow> nat \<Rightarrow> nat \<Rightarrow> 'w app \<Rightarrow> bool" where
  "plain_cell t r c a \<longleftrightarrow> r < length t \<and> c < length (t ! r) \<and> in_view a (int c) (int r) (scroll_row (a_ed a)) (scroll_col (a_ed a))
     \<and> \<not> editor_sel_is_active (a_ed a)
     \<and> (filetree_is_focused (a_ft a) \<or> apart (a_ed a) (cursor_col (a_ed a)) (cursor_row (a_ed a)) (int c) (int r))
     \<and> (remote_cursor_row (a_ed a) < 0 \<or> remote_cursor_col (a_ed a) < 0
          \<or> apart (a_ed a) (remote_cursor_col (a_ed a)) (remote_cursor_row (a_ed a)) (int c) (int r))"

lemma full_kept:
  fixes r c :: nat
  assumes "drawn (a_vd a) p" and "doc (a_ed a) t" and "bar_inv (a_cb a)" and "ft_inv (a_ft a)" and "numbered (a_ed a)"
    and "screen_size a" and "0 \<le> scroll_row (a_ed a)" and "0 \<le> scroll_col (a_ed a)"
    and "highlight_cache_sync (int (length t)) (cursor_row (a_ed a)) (a_hc a) = Some hc" and "highlighted lang t hc"
  defines "l \<equiv> set_viewport (scene_update_layout (a\<lparr>a_hc := hc\<rparr>))"
  assumes "plain_cell t r c l"
  shows "yields (render_full (cursor_col (a_ed a)) (cursor_row (a_ed a)) (scroll_row (a_ed a)) (scroll_col (a_ed a)) a)
    (kept (cell (model_to_px l (int c)) (model_to_py l (int r)))
       (char_picture (t ! r ! c) (colour_at lang t r c) (model_to_px l (int c)) (model_to_py l (int r))) (highlighted lang t) t l)"
proof -
  define x where "x = model_to_px l (int c)"
  define y where "y = model_to_py l (int r)"
  let ?e = "a_ed a" and ?sc = "a_sc l" and ?v = "a_vd a" and ?b = "a\<lparr>a_hc := hc\<rparr>"
  have l: "a_ft l = a_ft a" "a_vd l = a_vd a" "a_cb l = a_cb a" "a_hc l = hc" "a_cl l = a_cl a" "doc (a_ed l) t" "a_sc l = a_sc (scene_update_layout ?b)"
    "scroll_row (a_ed l) = scroll_row ?e" "scroll_col (a_ed l) = scroll_col ?e" "cursor_row (a_ed l) = cursor_row ?e" "cursor_col (a_ed l) = cursor_col ?e"
    "remote_cursor_row (a_ed l) = remote_cursor_row ?e" "remote_cursor_col (a_ed l) = remote_cursor_col ?e" "editor_sel_is_active (a_ed l) = editor_sel_is_active ?e"
    using assms(2) by (simp_all add: l_def set_viewport_def scene_update_layout_def Let_def editor_set_viewport_def doc_def rows_def editor_sel_is_active_def)
  have size: "roomy ?v" "h_res ?v \<le> 2 ^ 15" "v_res ?v \<le> 2 ^ 15" "256 \<le> h_res ?v" "42 \<le> v_res ?v" using assms(6) by (simp_all add: screen_size_def roomy_def)
  have out: "laid_out l" using layout_laid_out [of ?b] size(1) assms(5) layout_simps(3) [of ?b] l(2,7) by (simp add: laid_out_def Let_def)
  note parts = layout_parts [of ?b, simplified, folded l(7), OF assms(5)]
  note digits = gutter_digits [of ?b, simplified, folded l(7), OF assms(5)]
  note lay = layout_simps(4-7) [of ?b, simplified, folded l(7)]
  have cellv: "r < length t" "c < length (t ! r)" "in_view l (int c) (int r) (scroll_row ?e) (scroll_col ?e)" "\<not> editor_sel_is_active ?e"
    "filetree_is_focused (a_ft a) \<or> apart (a_ed l) (cursor_col ?e) (cursor_row ?e) (int c) (int r)"
    "remote_cursor_row ?e < 0 \<or> remote_cursor_col ?e < 0 \<or> apart (a_ed l) (remote_cursor_col ?e) (remote_cursor_row ?e) (int c) (int r)"
    using assms(12) l by (simp_all add: plain_cell_def)
  have v: "0 \<le> int c - scroll_col ?e" "int c - scroll_col ?e < sc_vis_cols ?sc" "0 \<le> int r - scroll_row ?e" "int r - scroll_row ?e < sc_vis_rows ?sc"
    using cellv(3) by (simp_all add: in_view_def)
  have o: "sc_vis_cols ?sc * 8 \<le> r_w (l_editor ?sc)" "0 < sc_vis_rows ?sc" "l_status_bar ?sc = \<lparr>r_x = 0, r_y = v_res ?v - 16, r_w = h_res ?v, r_h = FONT_H\<rparr>"
    using out l(2) by (simp_all add: laid_out_def Let_def FONT_W_def FONT_H_def)
  have vis: "sc_vis_rows ?sc * 16 \<le> v_res ?v - 26" using parts(8) size(5) sdiv_le [of "v_res ?v - 26" 16] o(2) by simp
  have xy: "x = r_x (l_editor ?sc) + (int c - scroll_col ?e) * FONT_W" "y = EDITOR_Y + (int r - scroll_row ?e) * FONT_H"
    using l(8,9) lay(1) by (simp_all add: x_def y_def model_to_px_def model_to_py_def editor_get_scroll_row_def editor_get_scroll_col_def)
  have xin: "r_x (l_editor ?sc) \<le> x" "x + 8 \<le> r_x (l_scrollbar ?sc)"
    using cells_below [OF v(1,2), of 8 "r_w (l_editor ?sc)"] o(1) lay(3) by (simp_all add: xy FONT_W_def)
  have yin: "EDITOR_Y \<le> y" "y + 16 \<le> v_res ?v - 16"
    using cells_below [OF v(3,4), of 16 "v_res ?v - 26"] vis by (simp_all add: xy EDITOR_Y_def FONT_H_def)
  let ?S = "cell x y" and ?g = "char_picture (t ! r ! c) (colour_at lang t r c) x y"
  let ?P = "kept ?S (plain COLOR_BG) (highlighted lang t) t l" and ?Q = "kept ?S ?g (highlighted lang t) t l"
  have clear: "yields (on_vd (bb_clear COLOR_BG) l) ?P"
  proof (rule kept_clear)
    show "redrawn t l l" using redrawn_start [of l p t] l(2,4) assms(1) highlighted_fit [OF assms(10)] by simp
  qed (use assms(10) l(2,4) xin yin parts(6) digits(3) in \<open>auto simp: cell_def COLOR_BG_def EDITOR_Y_def\<close>)
  have tree: "yields (if filetree_is_visible (a_ft b) then draw_filetree (sc_vis_rows (a_sc b)) b else Some b) ?P" if k: "?P b" for b
  proof (cases "filetree_is_visible (a_ft a)")
    case True
    have "yields (draw_filetree (sc_vis_rows ?sc) b) ?P"
      by (rule kept_filetree [OF k]) (use True l(1) assms(4) parts(4,5) xin vis size(3) in \<open>auto simp: cell_def EDITOR_Y_def FONT_H_def\<close>)
    then show ?thesis using True keptD(2,4) [OF k] l(1) by simp
  qed (use k keptD(4) [OF k] l(1) in simp)
  have end_r: "EDITOR_Y + (e - scroll_row ?e) * FONT_H \<le> 2 ^ 15" if "e \<le> scroll_row ?e + sc_vis_rows ?sc" for e
    using that vis size(3) by (simp add: EDITOR_Y_def FONT_H_def)
  have gutter: "yields (draw_gutter (scroll_row ?e) e b) ?P" if k: "?P b" "e \<le> scroll_row ?e + sc_vis_rows ?sc" for b e
    by (rule kept_gutter [OF k(1)]) (use parts digits lay l(8) xin end_r [OF k(2)] in \<open>auto simp: cell_def\<close>)
  have sel: "yields (if editor_sel_is_active (a_ed b) then draw_selection_bg e b else Some b) ?P" if k: "?P b" for b e
    using k keptD(1) [OF k] l(14) cellv(4) by simp
  have lines: "yields (draw_text_lines (scroll_row ?e) e (scroll_col ?e) b) ?Q"
    if k: "?P b" "e \<le> int (length t)" "e \<le> scroll_row ?e + sc_vis_rows ?sc" "int r < e" for b e
    by (rule kept_lines [OF k(1) l(6) assms(7,8) k(2)]) (use v k(4) cellv(2) xy end_r [OF k(3)] in simp_all)
  have cursor: "yields (fill (model_to_px b col) (model_to_py b row) FONT_W FONT_H k b) ?Q"
    if "?Q b" "apart (a_ed l) col row (int c) (int r)" for b col row k
    by (rule kept_cursor [OF that(1) out _ _ _ _ that(2)]) (use size l(2,8,9) digits(4) cellv(3) xy in simp_all)
  have cur: "yields (draw_cursor (cursor_col ?e) (cursor_row ?e) b) ?Q" if k: "?Q b" for b
    using cursor [OF k] k cellv(5) keptD(4) [OF k] l(1) by (auto simp: draw_cursor_def)
  have rem: "yields (draw_remote_cursor (editor_get_remote_cursor_col (a_ed b)) (editor_get_remote_cursor_row (a_ed b)) b) ?Q" if k: "?Q b" for b
    using cursor [OF k] k cellv(6) keptD(1) [OF k] l(12,13)
    by (auto simp: draw_remote_cursor_def editor_get_remote_cursor_col_def editor_get_remote_cursor_row_def)
  have bar: "yields (draw_scrollbar b) ?Q" if k: "?Q b" for b
    by (rule kept_scrollbar [OF k]) (use parts(6,7) size xin in \<open>auto simp: cell_def\<close>)
  have status: "yields (render_status_bar b) ?Q" if k: "?Q b" for b
    by (rule kept_status [OF k _ o(3)]) (use l(3,5) assms(3,6) size yin in \<open>auto simp: cell_def screen_size_def\<close>)
  have rc: "editor_get_row_count (a_ed b) = int (length t)" "sc_vis_rows (a_sc b) = sc_vis_rows ?sc" if "?P b" for b
    using doc_row_count [OF l(6)] keptD(1,2) [OF that] by (simp_all add: editor_get_row_count_def)
  show ?thesis unfolding full_steps [OF assms(2,9)] l_def [symmetric] Let_def x_def [symmetric] y_def [symmetric]
    by (intro yields_then [OF clear] yields_then [OF tree] yields_then [OF gutter] yields_then [OF sel] yields_then [OF lines]
        yields_then [OF cur] yields_then [OF rem] yields_then [OF bar] status) (use rc cellv(1) v in simp_all)
qed

text \<open>The back buffer determines the picture.\<close>

lemma bytes_inject: "length ps = length qs \<Longrightarrow> bytes ps = bytes qs \<Longrightarrow> ps = qs"
proof (induction ps qs rule: list_induct2)
  case (Cons p ps q qs)
  then have "le32 p = le32 q \<and> bytes ps = bytes qs" by (simp add: bytes_def)
  with Cons.IH show ?case by (metis of_le32_le32)
qed simp

lemma drawn_unique:
  assumes "drawn v p" and "drawn v q" and "0 \<le> x" and "x < h_res v" and "0 \<le> y" and "y < v_res v"
  shows "p x y = q x y"
proof -
  let ?k = "nat (y * h_res v + x)"
  have "bytes (pixels (h_res v) (v_res v) p) = bytes (pixels (h_res v) (v_res v) q)"
    using assms(1,2) by (simp add: drawn_def)
  then have "pixels (h_res v) (v_res v) p = pixels (h_res v) (v_res v) q" by (intro bytes_inject) (simp_all add: pixels_def)
  moreover have "?k < nat (h_res v * v_res v)" using row_part(2) [of x 1 "h_res v" y "v_res v"] assms(3-6) by (simp add: nat_less_eq_zless)
  moreover have "int ?k mod h_res v = x" "int ?k div h_res v = y" using assms(3-6) by simp_all
  moreover have "pixels (h_res v) (v_res v) f ! ?k = f (int ?k mod h_res v) (int ?k div h_res v)" if "?k < nat (h_res v * v_res v)" for f
    using that by (simp only: pixels_def nth_map_upt) simp
  ultimately show ?thesis by metis
qed

lemma cell_on_screen:
  assumes "laid_out a" and "in_view a c r (scroll_row (a_ed a)) (scroll_col (a_ed a))" and "0 \<le> i" and "i < 8" and "0 \<le> j" and "j < 16"
  shows "0 \<le> model_to_px a c + i" "model_to_px a c + i < h_res (a_vd a)" "0 \<le> model_to_py a r + j" "model_to_py a r + j < v_res (a_vd a)"
  using assms cells_below [of "c - scroll_col (a_ed a)" "sc_vis_cols (a_sc a)" 8 "r_w (l_editor (a_sc a))"]
    cells_below [of "r - scroll_row (a_ed a)" "sc_vis_rows (a_sc a)" 16 "v_res (a_vd a) - 10"]
  by (auto simp: laid_out_def Let_def in_view_def EDITOR_Y_def FONT_H_def FONT_W_def model_to_px_def model_to_py_def
      editor_get_scroll_row_def editor_get_scroll_col_def)

definition under_pointer :: "'w app \<Rightarrow> int \<Rightarrow> int \<Rightarrow> bool" where
  "under_pointer a x y \<longleftrightarrow> mouse_x (a_ms a) \<le> x \<and> x < mouse_x (a_ms a) + mouse_cursor_width (a_mc a)
     \<and> mouse_y (a_ms a) \<le> y \<and> y < mouse_y (a_ms a) + mouse_cursor_height (a_mc a)"

text \<open>The layout and the viewport that a full frame computes.\<close>

definition new_layout :: "'w app \<Rightarrow> 'w app" where
  "new_layout a = set_viewport (scene_update_layout a)"


definition demo_screen :: "unit app" where
  "demo_screen = demo_full\<lparr>a_hc := cache_of [False, True]\<rparr>"


end
