(* ===== verification/Redraw.thy ===== *)
theory Redraw
  imports Display
begin

text \<open>
  Frames that redraw a part of the screen: what is drawn lies in the region that is copied afterwards, so that
  the screen and the back buffer stay equal, although nothing else is copied.
\<close>

section \<open>Drawing inside a region\<close>

text \<open>State \<open>b\<close> is \<open>a\<close> redrawn, with the picture \<open>g\<close> on the pixels \<open>S\<close>, whatever colours are kept.\<close>

abbreviation still :: "(int \<times> int) set \<Rightarrow> picture \<Rightarrow> string list \<Rightarrow> 'w app \<Rightarrow> 'w app \<Rightarrow> bool" where
  "still S g \<equiv> kept S g (\<lambda>_. True)"

lemma still_start: "redrawn t a a \<Longrightarrow> drawn (a_vd a) g \<Longrightarrow> still S g t a a"
  by (rule keptI) simp_all

lemma still_hc:
  assumes "still S g t a b" and "yields (f (a_hc b)) (colours_fit t)"
  shows "yields (on_hc f b) (still S g t a)"
proof -
  obtain hc where hc: "f (a_hc b) = Some hc" "colours_fit t hc" using assms(2) by (auto simp: yields_def)
  obtain p where k: "redrawn t a b" "drawn (a_vd b) p" "\<And>x y. (x, y) \<in> S \<Longrightarrow> p x y = g x y" using keptE [OF assms(1)] by metis
  have "still S g t a (b\<lparr>a_hc := hc\<rparr>)" by (rule keptI [OF redrawn_cache [OF k(1) hc(2)], where p = p]) (use k in simp_all)
  then show ?thesis using hc(1) by (simp add: on_hc_def)
qed

lemma still_colors:
  assumes "still S g t a b" and "doc (a_ed a) t" and "r < length t"
  shows "yields (get_colors (int r) b) (\<lambda>(c, d). still S g t a d \<and> (\<forall>x. c = Some x \<longrightarrow> covers (t ! r) x))"
proof -
  obtain c hc where c: "highlight_cache_get_line (a_ed a) (int r) (a_hc b) = Some (c, hc)" "colours_fit t hc" "\<forall>x. c = Some x \<longrightarrow> covers (t ! r) x"
    using get_line_fits [OF assms(2) keptD(10) [OF assms(1)] assms(3)] by (auto simp: yields_def)
  have "yields (on_hc (\<lambda>_. Some hc) b) (still S g t a)" by (rule still_hc [OF assms(1)]) (simp add: c(2))
  then show ?thesis using c(1,3) keptD(1) [OF assms(1)] by (simp add: get_colors_def on_hc_def)
qed

lemma still_fill:
  assumes "still S g t a b" and "0 \<le> x" and "0 \<le> w" and "x + w < 2 ^ 16" and "0 \<le> y" and "0 \<le> h" and "y + h < 2 ^ 16"
    and "S \<inter> box x y w h = {}"
  shows "yields (fill x y w h c b) (still S g t a)"
  unfolding fill_def
proof (rule kept_vd [OF leaves_rect assms(1)])
  fix p q i assume pq: "(p, q) \<in> S" and p: "uint (word_of_int x :: u16) \<le> p" "p < uint (word_of_int x :: u16) + uint (word_of_int w :: u16)"
    and i: "i < unat (word_of_int h :: u16)"
  have u: "uint (word_of_int x :: u16) = x" "uint (word_of_int w :: u16) = w" "uint (word_of_int h :: u16) = h"
    by (rule u16_small; use assms(2-7) in linarith)+
  then have "int (unat (word_of_int h :: u16)) = h" by (simp only: uint_nat [symmetric])
  with i have ih: "int i < h" by linarith
  have "word_of_int y + of_nat i = (word_of_int (y + int i) :: u16)" by simp
  also have "uint \<dots> = y + int i" by (rule u16_small) (use assms(5,7) ih in simp_all)
  finally have "uint (word_of_int y + of_nat i :: u16) = y + int i" .
  moreover have "(p, q) \<notin> box x y w h" using pq assms(8) by auto
  ultimately show "q \<noteq> uint (word_of_int y + of_nat i :: u16)" using p ih u by (auto simp: box_def)
qed

lemma still_char:
  assumes "still S g t a b" and "covers s z" and "0 \<le> c" and "c < int (length s)" and "y + 16 \<le> 2 ^ 16" and "S \<inter> box (px c) y 8 16 = {}"
  shows "yields (colored_char px y (Some (map Some s @ J)) z c b) (still S g t a)"
proof -
  have n: "nat c < length s" "nat c < length z" using assms(2-4) by (auto simp: covers_def)
  from this obtain color where "z ! nat c = Some color" using assms(2) by (auto simp: covers_def)
  with n have e: "char_at (Some (map Some s @ J)) c = Some (s ! nat c)" "aread z c = Some color"
    using assms(3) by (simp_all add: char_at_def aread_def in_range_def nth_append)
  have "\<not> glyph_pixel (s ! nat c) (p - px c) (q - y)" if "(p, q) \<in> S" for p q
    using that assms(6) by (auto simp: glyph_pixel_def box_def)
  from kept_vd [OF leaves_char [OF assms(5) this] assms(1)] show ?thesis using e by (simp add: colored_char_def)
qed

text \<open>A text without line breaks stays in its row of cells.\<close>

lemma still_text:
  assumes "still S g t a b" and "NL \<notin> set s" and "y + 16 \<le> 2 ^ 16" and "S \<inter> box x y (8 * int (length s)) 16 = {}"
  shows "yields (write_text x y s c b) (still S g t a)"
  unfolding write_text_def
proof (rule kept_vd [OF leaves_string assms(1)])
  show "y + 16 * (1 + int (count_list s NL)) \<le> 2 ^ 16" using assms(2,3) by (simp add: count_list_0_iff)
  show "\<not> text_ink x x y s p q" if "(p, q) \<in> S" for p q
    using that assms(4) unfolding text_ink_line [OF assms(2)] by (auto simp: box_def glyph_pixel_def)
qed

section \<open>Rows and cells in view\<close>

lemma row_place:
  assumes "laid_out a" and "row_in_view a r"
  shows "0 \<le> EDITOR_Y + (r - scroll_row (a_ed a)) * FONT_H" "EDITOR_Y + (r - scroll_row (a_ed a)) * FONT_H + 16 \<le> v_res (a_vd a)"
  using assms cells_below [of "r - scroll_row (a_ed a)" "sc_vis_rows (a_sc a)" 16 "v_res (a_vd a) - 10"]
  by (auto simp: laid_out_def Let_def row_in_view_def EDITOR_Y_def FONT_H_def editor_get_scroll_row_def)

lemma cell_place:
  assumes "laid_out a" and "in_view a col row (scroll_row (a_ed a)) (scroll_col (a_ed a))"
  shows "row_in_view a row" "r_x (l_editor (a_sc a)) \<le> model_to_px a col" "model_to_px a col + 8 \<le> r_x (l_editor (a_sc a)) + r_w (l_editor (a_sc a))"
    "model_to_py a row = EDITOR_Y + (row - scroll_row (a_ed a)) * FONT_H"
  using assms cells_below [of "col - scroll_col (a_ed a)" "sc_vis_cols (a_sc a)" 8 "r_w (l_editor (a_sc a))"]
  by (auto simp: laid_out_def Let_def in_view_def row_in_view_def FONT_W_def model_to_px_def model_to_py_def editor_get_scroll_row_def
      editor_get_scroll_col_def)

lemma cell_box_row: "laid_out a \<Longrightarrow> cell_box a col row \<subseteq> row_box a row"
  using cell_place [of a col row] by (auto simp: cell_box_def row_box_def box_def FONT_W_def)

lemma still_row_fill:
  assumes "still S g t a b" and "laid_out a" and "row_in_view a r" and "S \<inter> row_box a r = {}"
  shows "yields (fill (r_x (l_editor (a_sc b))) (r_y (l_editor (a_sc b)) + (r - scroll_row (a_ed a)) * FONT_H) (r_w (l_editor (a_sc b))) FONT_H c b) (still S g t a)"
proof -
  have m: "h_res (a_vd a) < 2 ^ 16" "v_res (a_vd a) < 2 ^ 16" by (rule redrawnE [OF kept_redrawn [OF assms(1)]], simp add: mode32_def)+
  have l: "0 \<le> r_x (l_editor (a_sc a))" "0 \<le> r_w (l_editor (a_sc a))" "r_x (l_editor (a_sc a)) + r_w (l_editor (a_sc a)) \<le> h_res (a_vd a)"
    "r_y (l_editor (a_sc a)) = EDITOR_Y" using assms(2) by (simp_all add: laid_out_def Let_def)
  show ?thesis unfolding keptD(2) [OF assms(1)] l(4)
    by (rule still_fill [OF assms(1)]) (use l m row_place [OF assms(2,3)] assms(4) in \<open>auto simp: row_box_def FONT_H_def\<close>)
qed

lemma still_cell_fill:
  assumes "still S g t a b" and "laid_out a" and "in_view a col row (scroll_row (a_ed a)) (scroll_col (a_ed a))" and "S \<inter> cell_box a col row = {}"
  shows "yields (fill (model_to_px b col) (model_to_py b row) FONT_W FONT_H c b) (still S g t a)"
proof -
  have m: "h_res (a_vd a) < 2 ^ 16" "v_res (a_vd a) < 2 ^ 16" by (rule redrawnE [OF kept_redrawn [OF assms(1)]], simp add: mode32_def)+
  have l: "0 \<le> r_x (l_editor (a_sc a))" "r_x (l_editor (a_sc a)) + r_w (l_editor (a_sc a)) \<le> h_res (a_vd a)"
    using assms(2) by (simp_all add: laid_out_def Let_def)
  note p = cell_place [OF assms(2,3)]
  have e: "model_to_px b col = model_to_px a col" "model_to_py b row = model_to_py a row"
    using keptD(1,2) [OF assms(1)] by (simp_all add: model_to_px_def model_to_py_def)
  show ?thesis unfolding e
    by (rule still_fill [OF assms(1)])
      (use l m p(2,3) row_place [OF assms(2) p(1)] assms(3,4) in \<open>auto simp: p(4) cell_box_def FONT_W_def FONT_H_def\<close>)
qed

text \<open>A row that ends before the right edge of the editor.\<close>

definition row_fits :: "string \<Rightarrow> 'w app \<Rightarrow> bool" where
  "row_fits s a \<longleftrightarrow> int (length s) \<le> scroll_col (a_ed a) + sc_vis_cols (a_sc a)"

lemma still_row:
  assumes "still S g t a b" and "doc (a_ed a) t" and "r < length t" and "0 \<le> scroll_col (a_ed a)" and "laid_out a" and "row_in_view a (int r)"
    and "row_fits (t ! r) a" and "S \<inter> row_box a (int r) = {}"
  shows "yields (text_row (r_y (l_editor (a_sc b)) + (int r - scroll_row (a_ed a)) * FONT_H) (scroll_col (a_ed a)) (int r) b) (still S g t a)"
proof -
  let ?ed = "l_editor (a_sc a)" and ?scc = "scroll_col (a_ed a)"
  let ?y = "EDITOR_Y + (int r - scroll_row (a_ed a)) * FONT_H"
  have m: "v_res (a_vd a) < 2 ^ 16" by (rule redrawnE [OF kept_redrawn [OF assms(1)]], simp add: mode32_def)
  have y: "r_y (l_editor (a_sc b)) = EDITOR_Y" using keptD(2) [OF assms(1)] assms(5) by (simp add: laid_out_def Let_def)
  have inside: "box (r_x ?ed + (k - ?scc) * FONT_W) ?y 8 16 \<subseteq> row_box a (int r)" if "?scc \<le> k" "k < int (length (t ! r))" for k
    using cells_below [of "k - ?scc" "sc_vis_cols (a_sc a)" 8 "r_w ?ed"] that assms(5,7)
    by (auto simp: row_box_def box_def laid_out_def Let_def row_fits_def FONT_W_def FONT_H_def)
  show ?thesis unfolding y
  proof (rule row_steps [OF kept_redrawn [OF assms(1)] assms(2,3)])
    show "yields (get_colors (int r) b) (\<lambda>(c, d). redrawn t a d \<and> still S g t a d \<and> (\<forall>x. c = Some x \<longrightarrow> covers (t ! r) x))"
      using still_colors [OF assms(1-3)] by (rule yields_mono) (auto dest: kept_redrawn)
  next
    fix d x J assume d: "still S g t a d \<and> (\<forall>z. Some x = Some z \<longrightarrow> covers (t ! r) z)"
    show "yields (each (colored_char (\<lambda>k. r_x ?ed + (k - ?scc) * FONT_W) ?y (Some (map Some (t ! r) @ J)) x) [?scc..int (length (t ! r)) - 1] d)
        (still S g t a)"
    proof (rule yields_each)
      show "still S g t a d" using d ..
      fix c e assume c: "c \<in> set [?scc..int (length (t ! r)) - 1]" and e: "still S g t a e"
      show "yields (colored_char (\<lambda>k. r_x ?ed + (k - ?scc) * FONT_W) ?y (Some (map Some (t ! r) @ J)) x c e) (still S g t a)"
        by (rule still_char [OF e]) (use c d inside [of c] assms(4,8) row_place(2) [OF assms(5,6)] m in \<open>auto simp: disjoint_iff\<close>)
    qed
  qed (use assms(1) in auto)
qed

section \<open>The modes that redraw a part\<close>

text \<open>What is drawn lies in the region: the row redrawn is not too long, the cursor is in it, and so on.\<close>

fun within :: "render_mode \<Rightarrow> string list \<Rightarrow> 'w app \<Rightarrow> bool" where
  "within RENDER_LINE t a \<longleftrightarrow> row_fits (t ! nat (cursor_row (a_ed a))) a
     \<and> (filetree_is_focused (a_ft a) \<or> in_view a (cursor_col (a_ed a)) (cursor_row (a_ed a)) (scroll_row (a_ed a)) (scroll_col (a_ed a)))"
| "within RENDER_REMOTE_LINE t a \<longleftrightarrow> (let r = remote_cursor_row (a_ed a) in
     0 \<le> r \<and> r < int (length t) \<and> row_fits (t ! nat r) a \<and> NL \<notin> set (t ! nat r)
     \<and> (remote_cursor_col (a_ed a) < 0 \<or> in_view a (remote_cursor_col (a_ed a)) r (scroll_row (a_ed a)) (scroll_col (a_ed a))))"
| "within RENDER_STATUS t a \<longleftrightarrow> length (time_get_string (a_cl a)) < 16 \<and> v_res (a_vd a) \<le> 2 ^ 15"
| "within _ t a \<longleftrightarrow> True"

lemma still_cursor:
  assumes "still S g t a b" and "laid_out a" and "S \<inter> cell_box a col row = {}"
    and "filetree_is_focused (a_ft a) \<or> in_view a col row (scroll_row (a_ed a)) (scroll_col (a_ed a))"
  shows "yields (draw_cursor col row b) (still S g t a)"
  using assms still_cell_fill [OF assms(1,2) _ assms(3)] keptD(4) [OF assms(1)] by (auto simp: draw_cursor_def)

lemma line_still:
  assumes "drawn (a_vd a) g" and "doc (a_ed a) t" and "drawable RENDER_LINE t a" and "within RENDER_LINE t a" and "0 \<le> scroll_col (a_ed a)"
    and "S \<inter> row_box a (cursor_row (a_ed a)) = {}"
  shows "yields (render_line (cursor_col (a_ed a)) (cursor_row (a_ed a)) (scroll_row (a_ed a)) (scroll_col (a_ed a)) a) (still S g t a)"
proof -
  let ?row = "cursor_row (a_ed a)" and ?col = "cursor_col (a_ed a)" and ?scr = "scroll_row (a_ed a)" and ?scc = "scroll_col (a_ed a)"
  have d: "laid_out a" "row_in_view a ?row" "nat ?row < length t" "int (nat ?row) = ?row" "colours_fit (t[nat ?row := []]) (a_hc a)"
    using assms(3) by auto
  obtain hc where hc: "highlight_cache_free_row ?row (a_hc a) = Some hc" "colours_fit t hc"
    using free_row_fits [OF d(5)] d(4) by (auto simp: yields_def)
  have "a\<lparr>a_hc := hc\<rparr> = a\<lparr>a_hc := hc, a_vd := draw g (a_vd a)\<rparr>" by (simp add: drawn_eq [OF assms(1), symmetric])
  with redrawnI [OF drawn_mode [OF assms(1)] hc(2), of g] have r: "still S g t a (a\<lparr>a_hc := hc\<rparr>)"
    by (intro keptI [where p = g]) (use assms(1) in simp_all)
  have rb: "yields (on_hc (highlight_cache_rebuild_from (a_ed b) ?row) b) (still S g t a)" if "still S g t a b" for b
    by (rule still_hc [OF that rebuild_from_fits]) (use keptD [OF that] assms(2) in simp_all)
  have row: "yields (text_row (r_y (l_editor (a_sc b)) + (?row - ?scr) * FONT_H) ?scc ?row b) (still S g t a)" if "still S g t a b" for b
    using still_row [OF that assms(2) d(3) assms(5) d(1)] d(2,4) assms(4,6) by simp
  have sy: "text_row (r_y (l_editor (a_sc b)) + (?row - ?scr) * FONT_H) ?scc ?row c = text_row (r_y (l_editor (a_sc c)) + (?row - ?scr) * FONT_H) ?scc ?row c"
    if "still S g t a b" "still S g t a c" for b c using keptD(2) [OF that(1)] keptD(2) [OF that(2)] by simp
  have cur: "yields (draw_cursor ?col ?row b) (still S g t a)" if "still S g t a b" for b
    by (rule still_cursor [OF that d(1)]) (use assms(4,6) cell_box_row [OF d(1)] in auto)
  have "yields (render_line ?col ?row ?scr ?scc a) (still S g t a) = yields (do {
      a \<leftarrow> on_hc (highlight_cache_rebuild_from (a_ed (a\<lparr>a_hc := hc\<rparr>)) ?row) (a\<lparr>a_hc := hc\<rparr>);
      b \<leftarrow> fill (r_x (l_editor (a_sc a))) (r_y (l_editor (a_sc a)) + (?row - ?scr) * FONT_H) (r_w (l_editor (a_sc a))) FONT_H COLOR_BG a;
      b \<leftarrow> text_row (r_y (l_editor (a_sc a)) + (?row - ?scr) * FONT_H) ?scc ?row b;
      draw_cursor ?col ?row b }) (still S g t a)"
    using hc(1) by (simp add: render_line_def on_hc_def Let_def)
  also have "\<dots>"
  proof (rule yields_then [OF rb [OF r]])
    fix b assume b: "still S g t a b"
    show "yields (do {
      c \<leftarrow> fill (r_x (l_editor (a_sc b))) (r_y (l_editor (a_sc b)) + (?row - ?scr) * FONT_H) (r_w (l_editor (a_sc b))) FONT_H COLOR_BG b;
      c \<leftarrow> text_row (r_y (l_editor (a_sc b)) + (?row - ?scr) * FONT_H) ?scc ?row c;
      draw_cursor ?col ?row c }) (still S g t a)"
      by (intro yields_then [OF still_row_fill [OF b d(1,2) assms(6)]] yields_then [where P = "still S g t a"] cur) (simp_all add: sy [OF b] row)
  qed
  finally show ?thesis .
qed

lemma cstring_row: "\<exists>u. cstring (map Some s @ Some NUL # J) = Some u \<and> set u \<subseteq> set s \<and> length u \<le> length s"
proof (induction s)
  case (Cons c s)
  then show ?case by (cases "c = NUL") auto
qed simp

lemma remote_line_still:
  assumes "still S g t a a" and "doc (a_ed a) t" and "drawable RENDER_REMOTE_LINE t a" and "within RENDER_REMOTE_LINE t a"
    and "0 \<le> scroll_col (a_ed a)" and "S \<inter> row_box a (remote_cursor_row (a_ed a)) = {}"
  shows "yields (render_remote_line (scroll_row (a_ed a)) (scroll_col (a_ed a)) a) (still S g t a)"
proof -
  let ?r = "remote_cursor_row (a_ed a)" and ?k = "remote_cursor_col (a_ed a)" and ?scc = "scroll_col (a_ed a)" and ?ed = "l_editor (a_sc a)"
  let ?s = "t ! nat ?r" and ?y = "EDITOR_Y + (?r - scroll_row (a_ed a)) * FONT_H"
  have d: "laid_out a" "row_in_view a ?r" "r_y ?ed = EDITOR_Y" using assms(3) by (auto simp: laid_out_def Let_def)
  have w: "nat ?r < length t" "int (nat ?r) = ?r" "row_fits ?s a" "NL \<notin> set ?s"
    "?k < 0 \<or> in_view a ?k ?r (scroll_row (a_ed a)) ?scc" using assms(4) by (auto simp: Let_def)
  obtain J where J: "editor_get_line (a_ed a) (int (nat ?r)) = Some (Some (map Some ?s @ Some NUL # J))" by (rule doc_line [OF assms(2) w(1)])
  obtain u where u: "cstring (map Some ?s @ Some NUL # J) = Some u" "set u \<subseteq> set ?s" "length u \<le> length ?s" using cstring_row by blast
  have "int (length (drop (nat ?scc) u)) \<le> sc_vis_cols (a_sc a)" if "?scc < int (length u)"
    using that u(3) w(3) assms(5) by (simp add: row_fits_def)
  then have bx: "box (r_x ?ed) ?y (8 * int (length (drop (nat ?scc) u))) 16 \<subseteq> row_box a ?r" if "?scc < int (length u)"
    using that d(1) by (fastforce simp: row_box_def box_def laid_out_def Let_def FONT_W_def FONT_H_def)
  have m: "v_res (a_vd a) < 2 ^ 16" by (rule redrawnE [OF kept_redrawn [OF assms(1)]], simp add: mode32_def)
  have line: "yields (if ?scc < int (length u) then (if ?scc < 0 then None else write_text (r_x ?ed) ?y (drop (nat ?scc) u) COLOR_TEXT b) else Some b) (still S g t a)"
    if b: "still S g t a b" for b
  proof (cases "?scc < int (length u)")
    case True
    have "yields (write_text (r_x ?ed) ?y (drop (nat ?scc) u) COLOR_TEXT b) (still S g t a)"
      by (rule still_text [OF b]) (use u(2) w(4) row_place(2) [OF d(1,2)] m bx [OF True] assms(6) in \<open>auto dest: in_set_dropD\<close>)
    then show ?thesis using True assms(5) by simp
  qed (use b in simp)
  have cur: "yields (draw_remote_cursor ?k ?r b) (still S g t a)" if "still S g t a b" for b
    using still_cell_fill [OF that d(1), of ?k ?r] that w(5) assms(6) cell_box_row [OF d(1), of ?k ?r] by (auto simp: draw_remote_cursor_def)
  have rest: "yields (do {
      line \<leftarrow> editor_get_line (a_ed b) ?r;
      line \<leftarrow> line;
      s \<leftarrow> cstring line;
      c \<leftarrow> (if ?scc < int (length s) then (if ?scc < 0 then None else write_text (r_x ?ed) ?y (drop (nat ?scc) s) COLOR_TEXT b) else Some b);
      draw_remote_cursor ?k ?r c }) (still S g t a)" if b: "still S g t a b" for b
    using yields_then [OF line [OF b] cur] J u(1) w(2) keptD(1) [OF b] by (simp del: yields_simps(3))
  show ?thesis unfolding render_remote_line_def Let_def editor_get_remote_cursor_row_def editor_get_remote_cursor_col_def d(3)
    by (rule yields_then [OF still_row_fill [OF assms(1) d(1,2) assms(6), unfolded d(3)] rest])
qed

text \<open>The cell of the previous cursor, then that of the cursor.\<close>

lemma prev_cell_still:
  assumes "still S g t a b" and "doc (a_ed a) t" and "0 \<le> c" and "y + 16 \<le> 2 ^ 16" and "S \<inter> box x y 8 16 = {}"
  shows "yields (do {
      len \<leftarrow> editor_get_line_len (a_ed b) r;
      if c < len then do {
        (colors, b) \<leftarrow> get_colors r b;
        case colors of None \<Rightarrow> Some b
        | Some colors \<Rightarrow> do { line \<leftarrow> editor_get_line (a_ed b) r; colored_char (\<lambda>_. x) y line colors c b }
      } else Some b }) (still S g t a)"
proof (cases "0 \<le> r \<and> r < int (length t)")
  case False
  then show ?thesis using doc_row_count [OF assms(2)] assms(1,3) keptD(1) [OF assms(1)] by (auto simp: editor_get_line_len_def)
next
  case True
  then have n: "nat r < length t" "int (nat r) = r" by auto
  obtain J where J: "editor_get_line (a_ed a) (int (nat r)) = Some (Some (map Some (t ! nat r) @ Some NUL # J))"
    "editor_get_line_len (a_ed a) (int (nat r)) = Some (int (length (t ! nat r)))" by (rule doc_line [OF assms(2) n(1)])
  have "yields (case k of None \<Rightarrow> Some d
      | Some colors \<Rightarrow> do { line \<leftarrow> editor_get_line (a_ed d) r; colored_char (\<lambda>_. x) y line colors c d }) (still S g t a)"
    if "still S g t a d \<and> (\<forall>x. k = Some x \<longrightarrow> covers (t ! nat r) x)" and "c < int (length (t ! nat r))" for k d
    using that keptD(1) [of S g "\<lambda>_. True" t a d] J(1) assms(3-5) n(2) still_char [of S g t a d "t ! nat r" _ c y "\<lambda>_. x" "Some NUL # J"]
    by (cases k) auto
  then have "c < int (length (t ! nat r)) \<Longrightarrow> yields (get_colors (int (nat r)) b \<bind> (\<lambda>(k, d). case k of None \<Rightarrow> Some d
      | Some colors \<Rightarrow> do { line \<leftarrow> editor_get_line (a_ed d) r; colored_char (\<lambda>_. x) y line colors c d })) (still S g t a)"
    by (intro yields_then [OF still_colors [OF assms(1,2) n(1)]]) auto
  then show ?thesis using J(2) n(2) assms(1) keptD(1) [OF assms(1)] by (simp del: yields_simps(3))
qed

lemma char_still:
  assumes "still S g t a a" and "doc (a_ed a) t" and "laid_out a" and "0 \<le> scroll_col (a_ed a)"
    and "S \<inter> cell_box a (sc_prev_col (a_sc a)) (sc_prev_row (a_sc a)) = {}" and "S \<inter> cell_box a (cursor_col (a_ed a)) (cursor_row (a_ed a)) = {}"
  shows "yields (render_char (cursor_col (a_ed a)) (cursor_row (a_ed a)) (scroll_row (a_ed a)) (scroll_col (a_ed a)) a) (still S g t a)"
proof -
  let ?c = "sc_prev_col (a_sc a)" and ?r = "sc_prev_row (a_sc a)" and ?scr = "scroll_row (a_ed a)" and ?scc = "scroll_col (a_ed a)"
  let ?col = "cursor_col (a_ed a)" and ?row = "cursor_row (a_ed a)"
  have m: "v_res (a_vd a) < 2 ^ 16" by (rule redrawnE [OF kept_redrawn [OF assms(1)]], simp add: mode32_def)
  have rb: "yields (on_hc (highlight_cache_rebuild_from (a_ed a) ?r) a) (still S g t a)"
    by (rule still_hc [OF assms(1) rebuild_from_fits]) (use keptD [OF assms(1)] assms(2) in simp_all)
  have prev: "yields (do {
      c \<leftarrow> fill (model_to_px b ?c) (model_to_py b ?r) FONT_W FONT_H COLOR_BG b;
      len \<leftarrow> editor_get_line_len (a_ed c) ?r;
      if ?c < len then do {
        (colors, d) \<leftarrow> get_colors ?r c;
        case colors of None \<Rightarrow> Some d
        | Some colors \<Rightarrow> do { line \<leftarrow> editor_get_line (a_ed d) ?r; colored_char (\<lambda>_. model_to_px b ?c) (model_to_py b ?r) line colors ?c d }
      } else Some c }) (still S g t a)" if v: "in_view a ?c ?r ?scr ?scc" and b: "still S g t a b" for b
  proof (intro yields_then [OF still_cell_fill [OF b assms(3) v assms(5)]] prev_cell_still assms(2))
    note p = cell_place [OF assms(3) v]
    have e: "model_to_px b ?c = model_to_px a ?c" "model_to_py b ?r = model_to_py a ?r"
      using keptD(1,2) [OF b] by (simp_all add: model_to_px_def model_to_py_def)
    show "0 \<le> ?c" using v assms(4) by (simp add: in_view_def)
    show "model_to_py b ?r + 16 \<le> 2 ^ 16" using row_place(2) [OF assms(3) p(1)] m p(4) e(2) by simp
    show "S \<inter> box (model_to_px b ?c) (model_to_py b ?r) 8 16 = {}" using assms(5) v unfolding e by (simp add: cell_box_def FONT_W_def FONT_H_def)
  qed
  have first: "yields (if in_view a ?c ?r ?scr ?scc then do {
      a \<leftarrow> on_hc (highlight_cache_rebuild_from (a_ed a) ?r) a;
      let cx = model_to_px a ?c;
      let cy = model_to_py a ?r;
      a \<leftarrow> fill cx cy FONT_W FONT_H COLOR_BG a;
      len \<leftarrow> editor_get_line_len (a_ed a) ?r;
      if ?c < len then do {
        (colors, a) \<leftarrow> get_colors ?r a;
        case colors of None \<Rightarrow> Some a
        | Some colors \<Rightarrow> do { line \<leftarrow> editor_get_line (a_ed a) ?r; colored_char (\<lambda>_. cx) cy line colors ?c a }
      } else Some a } else Some a) (still S g t a)"
    using yields_then [OF rb prev] assms(1) by (simp add: Let_def del: yields_simps(3))
  have fin: "yields (if in_view a ?col ?row ?scr ?scc then draw_cursor ?col ?row b else Some b) (still S g t a)" if "still S g t a b" for b
    using still_cursor [OF that assms(3,6)] that by simp
  from yields_then [OF first fin] show ?thesis by (simp add: render_char_def Let_def del: yields_simps(3))
qed

definition on_screen :: "'w app \<Rightarrow> (int \<times> int) set" where
  "on_screen a = box 0 0 (h_res (a_vd a)) (v_res (a_vd a))"

lemma ui_still:
  assumes "m \<noteq> RENDER_FULL" and "drawable m t a" and "within m t a" and "drawn (a_vd a) g" and "doc (a_ed a) t" and "bar_inv (a_cb a)"
    and "0 \<le> scroll_col (a_ed a)" and "S \<subseteq> on_screen a - region m a"
  shows "yields (render_editor_ui m (cursor_col (a_ed a)) (cursor_row (a_ed a)) (scroll_row (a_ed a)) (scroll_col (a_ed a)) a) (still S g t a)"
proof (cases m)
  case RENDER_LINE
  then show ?thesis using line_still [OF assms(4,5) _ _ assms(7)] assms(2,3,8) by (auto simp: render_editor_ui_def region_def)
next
  case RENDER_REMOTE_LINE
  have "still S g t a a" by (rule still_start [OF redrawn_start [OF assms(4)] assms(4)]) (use RENDER_REMOTE_LINE assms(2) in simp)
  with RENDER_REMOTE_LINE show ?thesis using remote_line_still [OF _ assms(5) _ _ assms(7)] assms(2,3,8)
    by (auto simp: render_editor_ui_def region_def)
next
  case RENDER_CHAR
  have "still S g t a a" by (rule still_start [OF redrawn_start [OF assms(4)] assms(4)]) (use RENDER_CHAR assms(2) in simp)
  with RENDER_CHAR show ?thesis using char_still [OF _ assms(5) _ assms(7)] assms(2,8) by (auto simp: render_editor_ui_def region_def)
next
  case RENDER_STATUS
  have k: "still S g t a a" by (rule still_start [OF redrawn_start [OF assms(4)] assms(4)]) (use RENDER_STATUS assms(2) in simp)
  have l: "l_status_bar (a_sc a) = \<lparr>r_x = 0, r_y = v_res (a_vd a) - 16, r_w = h_res (a_vd a), r_h = FONT_H\<rparr>" "16 \<le> v_res (a_vd a)"
    using RENDER_STATUS assms(2) by (simp_all add: laid_out_def Let_def FONT_H_def)
  have "yields (render_status_bar a) (still S g t a)"
    by (rule kept_status [OF k assms(6) l(1)]) (use RENDER_STATUS assms(3,8) l(2) in \<open>auto simp: region_def on_screen_def box_def FONT_H_def\<close>)
  with RENDER_STATUS show ?thesis by (simp add: render_editor_ui_def)
next
  case RENDER_NONE
  then show ?thesis using still_start [OF redrawn_start [OF assms(4)] assms(4)] assms(2) by (simp add: render_editor_ui_def)
next
  case RENDER_MOUSE
  then show ?thesis using still_start [OF redrawn_start [OF assms(4)] assms(4)] assms(2) by (simp add: render_editor_ui_def)
qed (use assms(1,2) in simp_all)

section \<open>The screen stays equal to the back buffer\<close>

lemma within_draw: "within m t a \<Longrightarrow> within m t (a\<lparr>a_rs := k, a_vd := draw f (a_vd a)\<rparr>)"
  by (cases m) (simp_all add: row_fits_def in_view_def)

lemma part_synced:
  assumes "in_sync a f" and "doc (a_ed a) t" and "a_rs a \<noteq> RENDER_FULL" and "drawable (a_rs a) t a" and "within (a_rs a) t a" and "bar_inv (a_cb a)"
    and "ft_inv (a_ft a)" and "0 \<le> scroll_row (a_ed a)" and "0 \<le> scroll_col (a_ed a)" and "0 \<le> mouse_x (a_ms a)" and "0 \<le> mouse_y (a_ms a)"
  obtains a' p where "view_render transparent a = Some a'" and "in_sync a' p"
    and "\<And>x y. (x, y) \<in> on_screen a - region (a_rs a) a \<Longrightarrow> p x y = f x y"
proof -
  obtain g where d: "drawn (a_vd a) g" "displayed (a_vd a) g" "cursor_ready (a_mc a)"
    and ov: "if prev_x (a_mc a) < 0 then g = f else pointer_over (a_mc a) (a_vd a) f g \<and> 0 \<le> prev_y (a_mc a)"
    using assms(1) unfolding in_sync_def by blast
  define a1 where "a1 = a\<lparr>a_rs := RENDER_NONE, a_vd := draw f (a_vd a)\<rparr>"
  let ?m = "a_rs a" and ?S = "on_screen a - region (a_rs a) a"
  have e1: "a_ed a1 = a_ed a" "a_cb a1 = a_cb a" "a_sc a1 = a_sc a" "h_res (a_vd a1) = h_res (a_vd a)" "v_res (a_vd a1) = v_res (a_vd a)"
    "drawn (a_vd a1) f" using drawn_mode [OF d(1)] by (simp_all add: a1_def)
  have dr: "drawable ?m t a1" "within ?m t a1" using drawable_draw [OF assms(4)] within_draw [OF assms(5)] by (simp_all add: a1_def)
  have pr: "prepared ?m t a1 = a1" using prepared_same(15) [OF dr(1), unfolded e1, OF assms(2,3)] .
  have rg: "region ?m a1 = region ?m a" "on_screen a1 = on_screen a" using region_cong [OF e1(1,3-5)] e1(4,5) by (simp_all add: on_screen_def)
  obtain b where b: "render_editor_ui ?m (cursor_col (a_ed a)) (cursor_row (a_ed a)) (scroll_row (a_ed a)) (scroll_col (a_ed a)) a1 = Some b" "still ?S f t a1 b"
    using ui_still [OF assms(3) dr e1(6), unfolded e1 rg, OF assms(2,6,9) order_refl] by (auto simp: yields_def)
  obtain p where p: "redrawn t a1 b" "drawn (a_vd b) p" "\<And>x y. (x, y) \<in> ?S \<Longrightarrow> p x y = f x y" using keptE [OF b(2)] by metis
  obtain a' h where a': "view_render transparent a = Some a'" "drawn (a_vd a') h"
    "\<exists>k. displayed (a_vd a') k \<and> (\<forall>x y. k x y = h x y \<or> k x y = g x y \<and> (x, y) \<notin> swept ?m a a1)"
    "cursor_ready (a_mc a')" "pointer_over (a_mc a') (a_vd a') p h" "prev_x (a_mc a') = mouse_x (a_ms a)" "prev_y (a_mc a') = mouse_y (a_ms a)"
    "mouse_cursor_width (a_mc a') = mouse_cursor_width (a_mc a)" "mouse_cursor_height (a_mc a') = mouse_cursor_height (a_mc a)"
    and res: "h_res (a_vd a') = h_res (a_vd a)" "v_res (a_vd a') = v_res (a_vd a)"
    by (rule frame_after [OF a1_def refl d ov assms(2) dr(1) assms(10,11) b(1) _ p(2)]) (use p(1) pr in simp_all)
  obtain k where k: "displayed (a_vd a') k" "\<And>x y. k x y = h x y \<or> k x y = g x y \<and> (x, y) \<notin> swept ?m a a1" using a'(3) by blast
  have same: "k x y = h x y" if xy: "0 \<le> x" "x < h_res (a_vd a')" "0 \<le> y" "y < v_res (a_vd a')" for x y
  proof (cases "(x, y) \<in> swept ?m a a1")
    case True
    then show ?thesis using k(2) [of x y] by blast
  next
    case False
    have "g x y = f x y" using False ov pointer_over_elsewhere [of "a_mc a" "a_vd a" f g x y] by (auto simp: swept_def box_def split: if_splits)
    moreover have "(x, y) \<in> ?S" using False xy res rg(1) by (auto simp: swept_def on_screen_def box_def)
    moreover have "h x y = p x y" by (rule pointer_over_elsewhere [OF a'(5)]) (use False a'(6-9) in \<open>auto simp: swept_def box_def\<close>)
    ultimately show ?thesis using k(2) [of x y] p(3) by auto
  qed
  have "displayed (a_vd a') h" using displayed_cong [OF drawn_mode [OF a'(2)] same] k(1) by simp
  then have "in_sync a' p" unfolding in_sync_def using a'(2,4-7) assms(10,11) by (intro exI [of _ h]) simp
  from that [OF a'(1) this p(3)] show thesis .
qed

lemma frame_synced_at:
  assumes "in_sync a f" and "doc (a_ed a) t" and "drawable (a_rs a) t a" and "within (a_rs a) t a" and "bar_inv (a_cb a)" and "ft_inv (a_ft a)"
    and "0 \<le> scroll_row (a_ed a)" and "0 \<le> scroll_col (a_ed a)" and "0 \<le> mouse_x (a_ms a)" and "0 \<le> mouse_y (a_ms a)"
  shows "\<exists>a' f'. view_render transparent a = Some a' \<and> in_sync a' f'
    \<and> (\<forall>x y. (x, y) \<in> on_screen a - region (a_rs a) a \<longrightarrow> f' x y = f x y)"
proof (cases "a_rs a = RENDER_FULL")
  case True
  obtain a' where "view_render transparent a = Some a'" "a_rs a = RENDER_FULL \<longrightarrow> (\<exists>f. in_sync a' f)"
    by (rule frame_made [OF in_sync_screen_ok [OF assms(1)] assms(2,3,5-10)])
  with True show ?thesis by (auto simp: region_def)
next
  case False
  obtain a' p where "view_render transparent a = Some a'" "in_sync a' p" "\<And>x y. (x, y) \<in> on_screen a - region (a_rs a) a \<Longrightarrow> p x y = f x y"
    by (rule part_synced [OF assms(1,2) False assms(3-10)]) blast
  then show ?thesis by (intro exI [of _ a'] exI [of _ p]) simp
qed


definition demo_line :: "unit app" where
  "demo_line = demo_full\<lparr>a_vd := (a_vd demo_full)\<lparr>video_mem := bytes (pixels 1152 864 (plain 5))\<rparr>, a_sc := a_sc (scene_update_layout demo),
     a_hc := cache_of [False, True], a_rs := RENDER_LINE\<rparr>"


section \<open>A row that is too long\<close>

text \<open>\<open>draw_line_colored\<close> does not stop at the right edge of the editor: a character further right is drawn over the
  scroll bar, which a full frame draws afterwards, but \<open>render_line\<close> does not, and outside the row that
  \<open>flip_editor_ui\<close> copies.\<close>

lemma long_row_over_edge:
  assumes "kept {(x, y + j)} g (highlighted lang t) t a b" and "doc (a_ed a) t" and "r < length t" and "0 \<le> scc" and "y + 16 \<le> 2 ^ 16"
    and "scc \<le> int c" and "c < length (t ! r)" and "glyph_pixel (t ! r ! c) i j"
    and "x = r_x (l_editor (a_sc a)) + (int c - scc) * FONT_W + i" and "r_w (l_editor (a_sc a)) \<le> (int c - scc) * FONT_W"
  shows "(x, y + j) \<notin> row_box a r'" and
    "yields (text_row y scc (int r) b) (kept {(x, y + j)} (plain (colour_at lang t r c)) (highlighted lang t) t a)"
proof -
  let ?S = "{(x, y + j)}" and ?Q = "highlighted lang t" and ?col = "plain (colour_at lang t r c)"
  have i: "0 \<le> i" "i < 8" "0 \<le> j" "j < 16" using assms(8) by (simp_all add: glyph_pixel_def)
  show "(x, y + j) \<notin> row_box a r'" using i assms(9,10) by (simp add: row_box_def box_def)
  show "yields (text_row y scc (int r) b) (kept ?S ?col ?Q t a)"
  proof (rule text_row_steps [OF assms(1-4)])
    fix d J z assume d: "kept ?S g ?Q t a d" and z: "shown lang (before lang t r) (t ! r) z"
    let ?px = "\<lambda>k. r_x (l_editor (a_sc a)) + (k - scc) * FONT_W"
    let ?f = "colored_char ?px y (Some (map Some (t ! r) @ J)) z"
    have off: "p < ?px k \<or> ?px k + 8 \<le> p \<or> q < y \<or> y + 16 \<le> q" if "(p, q) \<in> ?S" "k \<noteq> int c" for p q k
    proof -
      have "k < int c \<or> int c < k" using that(2) by auto
      then show ?thesis using that(1) i by (auto simp: assms(9) FONT_W_def)
    qed
    have before: "yields (each ?f [scc..int c - 1] d) (kept ?S g ?Q t a)"
      by (rule kept_chars [OF d z _ assms(5)]) (use assms(4,7) off in auto)
    have ink: "yields (?f (int c) e) (kept ?S ?col ?Q t a)" if "kept ?S g ?Q t a e" for e
      unfolding colored_char_draws [OF z assms(7)] colour_at_def
      by (rule kept_drawn [OF that], rule exI, rule conjI, erule draw_char_draws [OF _ assms(5)])
        (use assms(8,9) in \<open>simp add: inked_def\<close>)
    have after: "yields (each ?f [int c + 1..int (length (t ! r)) - 1] e) (kept ?S ?col ?Q t a)" if "kept ?S ?col ?Q t a e" for e
      by (rule kept_chars [OF that z _ assms(5)]) (use assms(4) off in auto)
    have split: "each ?f [scc..int (length (t ! r)) - 1] d = (each ?f [scc..int c - 1] d \<bind> ?f (int c)) \<bind> each ?f [int c + 1..int (length (t ! r)) - 1]"
      using assms(6,7) by (intro each_around) simp_all
    show "yields (each ?f [scc..int (length (t ! r)) - 1] d) (kept ?S ?col ?Q t a)"
      unfolding split by (intro yields_then [OF yields_then [OF before ink] after])
  qed (use assms(6,7) in simp)
qed

end
