(* ===== verification/Rounds.thy ===== *)
theory Rounds
  imports SystemProps Redraw Untouched
begin

text \<open>
  The rounds of the main loop as a transition system: the states that interrupts, the dispatching of events
  and the drawing of frames lead to. All reachable states are well formed, by induction over the steps,
  and a round can only go wrong in two kinds of states. If every frame draws inside its region, the screen
  shows the back buffer in all reachable states.
\<close>

section \<open>The screen of a running program\<close>

definition screen_inv :: "'w app \<Rightarrow> bool" where
  "screen_inv a \<longleftrightarrow> screen_ok a \<and> 0 \<le> mouse_x (a_ms a) \<and> 0 \<le> mouse_y (a_ms a)"

definition system_inv :: "'w system \<Rightarrow> bool" where
  "system_inv s \<longleftrightarrow> sys_ok s \<and> screen_inv (s_app s)"

lemma system_invI: "sys_ok s \<Longrightarrow> screen_inv (s_app s) \<Longrightarrow> system_inv s"
  by (simp add: system_inv_def)

lemma screen_ok_cong: "a_vd b = a_vd a \<Longrightarrow> a_mc b = a_mc a \<Longrightarrow> screen_ok b = screen_ok a"
  unfolding screen_ok_def by (simp only:)

lemma screen_inv_cong: "a_vd b = a_vd a \<Longrightarrow> a_mc b = a_mc a \<Longrightarrow> a_ms b = a_ms a \<Longrightarrow> screen_inv b = screen_inv a"
  using screen_ok_cong [of b a] by (simp add: screen_inv_def)

lemma screen_inv_upd [simp]:
  "screen_inv (a\<lparr>a_tm := t\<rparr>) = screen_inv a" "screen_inv (a\<lparr>a_cb := b\<rparr>) = screen_inv a" "screen_inv (a\<lparr>a_cl := c\<rparr>) = screen_inv a"
  "screen_inv (a\<lparr>a_w := w\<rparr>) = screen_inv a" "screen_inv (a\<lparr>a_rs := r\<rparr>) = screen_inv a" "screen_inv (render m a) = screen_inv a"
  by (rule screen_inv_cong; simp add: render_def)+

lemma screen_inv_size: "screen_inv a \<Longrightarrow> 0 < h_res (a_vd a) \<and> 0 < v_res (a_vd a)"
  using drawn_mode unfolding screen_inv_def screen_ok_def mode32_def by blast

text \<open>What a frame relies on: the text is one, and the frame requested is drawable.\<close>

definition fit :: "'w app \<Rightarrow> bool" where
  "fit a \<longleftrightarrow> 0 \<le> scroll_row (a_ed a) \<and> 0 \<le> scroll_col (a_ed a) \<and> (\<exists>t. doc (a_ed a) t \<and> drawable (a_rs a) t a)"

lemma ed_ok_viewport: "ed_ok (editor_set_viewport k n e) = ed_ok e"
  by (simp add: ed_ok_def gap_def anchored_def clip_ok_def editor_set_viewport_def doc_def rows_def)

lemma frame_inv:
  assumes "system_inv s" and "fit (s_app s)"
  obtains a' where "view_render transparent (s_app s) = Some a'" and "system_inv (s\<lparr>s_app := a'\<rparr>)"
proof -
  let ?a = "s_app s"
  have ok: "sys_ok s" "app_ok ?a" "screen_inv ?a" using assms(1) sys_okD(1) by (auto simp: system_inv_def)
  obtain t where t: "doc (a_ed ?a) t" "drawable (a_rs ?a) t ?a" "0 \<le> scroll_row (a_ed ?a)" "0 \<le> scroll_col (a_ed ?a)"
    using assms(2) by (auto simp: fit_def)
  have m: "screen_ok ?a" "0 \<le> mouse_x (a_ms ?a)" "0 \<le> mouse_y (a_ms ?a)" using ok(3) by (simp_all add: screen_inv_def)
  obtain a' where a': "view_render transparent ?a = Some a'" "screen_ok a'" "laid_out a'" "colours_fit t (a_hc a')"
    "a_cb a' = a_cb ?a" "a_ft a' = a_ft ?a" "a_ms a' = a_ms ?a" "\<exists>k n. a_ed a' = a_ed ?a \<or> a_ed a' = editor_set_viewport k n (a_ed ?a)"
    by (rule frame_made [OF m(1) t(1,2) app_okD(2,3) [OF ok(2)] t(3,4) m(2,3)])
  have "app_ok a'" using a'(3-8) ok(2) colours_fit_ok [of t "a_hc a'"] by (auto simp: app_ok_def laid_out_def Let_def ed_ok_viewport)
  then have "system_inv (s\<lparr>s_app := a'\<rparr>)" using ok(1) a'(2,7) m by (simp add: system_inv_def screen_inv_def)
  then show thesis using that a'(1) by blast
qed

section \<open>Interrupts and events leave the screen alone\<close>

text \<open>An interrupt moves the pointer, within the screen, and changes nothing else of it.\<close>

lemma screen_inv_pointer: "screen_inv (a\<lparr>a_ms := m\<rparr>) \<longleftrightarrow> screen_ok a \<and> 0 \<le> mouse_x m \<and> 0 \<le> mouse_y m"
  by (simp add: screen_inv_def screen_ok_cong [of "a\<lparr>a_ms := m\<rparr>" a])

lemma screen_inv_failing [simp]: "screen_inv (s_app (failing io e m s)) = screen_inv (s_app s)"
  by (simp add: failing_def ignoring_def)

lemma move_pointer_nonneg: "0 < h \<Longrightarrow> 0 < v \<Longrightarrow> 0 \<le> mouse_x (move_pointer pp h v m) \<and> 0 \<le> mouse_y (move_pointer pp h v m)"
  by (simp add: move_pointer_def Let_def)

lemma screen_timer: "screen_inv (s_app s) \<Longrightarrow> timer_handler io s = Some s' \<Longrightarrow> screen_inv (s_app s')"
  by (auto simp: timer_handler_def Let_def bind_eq_Some_conv split: if_splits prod.splits)

lemma screen_keyboard: "screen_inv (s_app s) \<Longrightarrow> keyboard_handler io s = Some s' \<Longrightarrow> screen_inv (s_app s')"
  by (auto simp: keyboard_handler_def Let_def bind_eq_Some_conv split: if_splits prod.splits option.splits)

lemma screen_serial: "screen_inv (s_app s) \<Longrightarrow> serial_handler io s = Some s' \<Longrightarrow> screen_inv (s_app s')"
  by (auto simp: serial_handler_def bind_eq_Some_conv split: prod.splits)

lemma mouse_process_pointer:
  "mouse_process pp h v m r q = Some (m', r', q') \<Longrightarrow> m' = (move_pointer pp h v m)\<lparr>prev_lb := mp_lb pp\<rparr>"
  by (auto simp: mouse_process_def Let_def bind_eq_Some_conv)

lemma screen_moved:
  assumes "screen_inv a" and "mouse_process pp (vg_get_h_res (a_vd a)) (vg_get_v_res (a_vd a)) m r q = Some (m', r', q')"
  shows "screen_inv (a\<lparr>a_w := w, a_ms := m'\<rparr>)"
proof -
  have b: "screen_inv (a\<lparr>a_w := w\<rparr>)" using assms(1) by simp
  then show ?thesis
    using mouse_process_pointer [OF assms(2)] screen_inv_size [OF assms(1)]
      move_pointer_nonneg [of "h_res (a_vd a)" "v_res (a_vd a)" pp m]
    unfolding screen_inv_pointer by (simp add: screen_inv_def vg_get_h_res_def vg_get_v_res_def)
qed

lemma screen_mouse: "screen_inv (s_app s) \<Longrightarrow> mouse_handler io s = Some s' \<Longrightarrow> screen_inv (s_app s')"
  by (auto simp: mouse_handler_def Let_def bind_eq_Some_conv split: if_splits prod.splits option.splits) (rule screen_moved, assumption+)

lemma both_inv: "yields x sys_ok \<Longrightarrow> (\<And>s. x = Some s \<Longrightarrow> screen_inv (s_app s)) \<Longrightarrow> yields x system_inv"
  by (auto simp: yields_def system_inv_def)

lemma handlers_inv:
  assumes "system_inv s" and "uart_receives io iir received" and "clock_ends io left"
  shows "yields (timer_handler io s) system_inv" "yields (keyboard_handler io s) system_inv"
    "yields (serial_handler io s) system_inv" "yields (mouse_handler io s) system_inv"
proof -
  have s: "sys_ok s" "screen_inv (s_app s)" using assms(1) by (simp_all add: system_inv_def)
  show "yields (timer_handler io s) system_inv" by (rule both_inv [OF timer_handled [OF s(1) assms(3)] screen_timer [OF s(2)]])
  show "yields (keyboard_handler io s) system_inv" by (rule both_inv [OF keyboard_handled [OF s(1)] screen_keyboard [OF s(2)]])
  show "yields (serial_handler io s) system_inv" by (rule both_inv [OF serial_handled [OF s(1) assms(2)] screen_serial [OF s(2)]])
  show "yields (mouse_handler io s) system_inv" by (rule both_inv [OF mouse_handled [OF s(1)] screen_mouse [OF s(2)]])
qed

lemma interrupts_inv:
  assumes "system_inv s" and "uart_receives io iir received" and "clock_ends io left"
  shows "yields (interrupts_handler io irq_mask s) system_inv"
proof -
  note h = handlers_inv [OF _ assms(2,3)]
  have t: "yields (if b then timer_handler io s else Some s) system_inv" for b using h(1) [OF assms(1)] assms(1) by simp
  have k: "yields (if b then keyboard_handler io s else Some s) system_inv" if "system_inv s" for b and s :: "'a system" using h(2) [OF that] that by simp
  have r: "yields (if b then serial_handler io s else Some s) system_inv" if "system_inv s" for b and s :: "'a system" using h(3) [OF that] that by simp
  have m: "yields (if b then mouse_handler io s else Some s) system_inv" if "system_inv s" for b and s :: "'a system" using h(4) [OF that] that by simp
  show ?thesis unfolding interrupts_handler_def
    by (rule yields_then [OF t], erule yields_then [OF k], erule yields_then [OF r], erule m)
qed

text \<open>Dispatching events keeps every condition on the screen.\<close>

lemma dispatch_keeps:
  assumes "sys_ok s" and "V (s_app s)" and "\<And>a b. same_screen a b \<Longrightarrow> V a \<Longrightarrow> V b" and "env_ok env"
    and "\<forall>ev \<in> set (pending (s_events s)). \<not> is_serial ev"
  shows "yields (input_dispatch env s) (\<lambda>s'. sys_ok s' \<and> V (s_app s'))"
proof -
  let ?P = "\<lambda>a. app_ok a \<and> V a"
  have s: "sys_ok s" "?P (s_app s)" using assms(1,2) sys_okD(1) by auto
  obtain q a' where "input_dispatch env s = Some (s\<lparr>s_events := q, s_app := a'\<rparr>)" "sys_ok (s\<lparr>s_events := q, s_app := a'\<rparr>)" "?P a'"
  proof (rule dispatch_drains [where P = ?P, OF s])
    fix ev a assume ev: "ev \<in> set (pending (s_events s))" and a: "?P a"
    obtain a' where "dispatch_event env ev a = Some a'" "app_ok a'" using event_ok [of a env ev] a assms(4,5) ev by blast
    then show "\<exists>a'. dispatch_event env ev a = Some a' \<and> ?P a'" using assms(3) [OF event_same_screen] a by blast
  qed blast+
  then show ?thesis by simp
qed

lemma dispatch_inv:
  assumes "system_inv s" and "env_ok env" and "\<forall>ev \<in> set (pending (s_events s)). \<not> is_serial ev"
  shows "yields (input_dispatch env s) system_inv"
proof -
  have "yields (input_dispatch env s) (\<lambda>s'. sys_ok s' \<and> screen_inv (s_app s'))"
    by (rule dispatch_keeps [OF _ _ _ assms(2,3)]) (use assms(1) screen_inv_cong in \<open>auto simp: system_inv_def same_screen_def\<close>)
  then show ?thesis by (rule yields_mono) (simp add: system_inv_def)
qed

section \<open>Reachable states\<close>

text \<open>The steps of the program on platform \<open>p\<close> from \<open>s0\<close>: a message of the kernel, the interrupts it reports,
  the dispatching of events none of which comes from a peer, and a frame that is drawable and of the kind \<open>F\<close>.\<close>

inductive reach :: "('w app \<Rightarrow> bool) \<Rightarrow> 'w platform \<Rightarrow> 'w system \<Rightarrow> 'w system \<Rightarrow> bool" for F p s0 where
  here: "reach F p s0 s0"
| message: "reach F p s0 s \<Longrightarrow> driver_receive p (a_w (s_app s)) = (r, w) \<Longrightarrow> reach F p s0 (s\<lparr>s_app := (s_app s)\<lparr>a_w := w\<rparr>\<rparr>)"
| interrupts: "reach F p s0 s \<Longrightarrow> interrupts_handler (e_io (p_env p)) irq_mask s = Some s' \<Longrightarrow> reach F p s0 s'"
| events: "reach F p s0 s \<Longrightarrow> \<forall>ev \<in> set (pending (s_events s)). \<not> is_serial ev \<Longrightarrow> input_dispatch (p_env p) s = Some s' \<Longrightarrow> reach F p s0 s'"
| frame: "reach F p s0 s \<Longrightarrow> fit (s_app s) \<Longrightarrow> F (s_app s) \<Longrightarrow> view_render (p_transparent p) (s_app s) = Some a \<Longrightarrow> reach F p s0 (s\<lparr>s_app := a\<rparr>)"

text \<open>What the program relies on of its platform: the UART delivers what it has received, an update of the clock ends,
  and files and directories are as their calls promise.\<close>

definition platform_ok :: "'w platform \<Rightarrow> bool" where
  "platform_ok p \<longleftrightarrow> env_ok (p_env p) \<and> (\<exists>iir received. uart_receives (e_io (p_env p)) iir received)
     \<and> (\<exists>left. clock_ends (e_io (p_env p)) left)"

lemma platform_inv:
  assumes "platform_ok p" and "system_inv s"
  shows "yields (interrupts_handler (e_io (p_env p)) irq_mask s) system_inv"
    and "\<forall>ev \<in> set (pending (s_events s)). \<not> is_serial ev \<Longrightarrow> yields (input_dispatch (p_env p) s) system_inv"
  using assms interrupts_inv [OF assms(2)] dispatch_inv [OF assms(2)] by (auto simp: platform_ok_def)

lemma reach_inv:
  assumes "reach F p s0 s" and "system_inv s0" and "platform_ok p"
  shows "system_inv s"
  using assms(1)
proof induction
  case (message s r w)
  then show ?case using sys_okD(1) [of s] by (simp add: system_inv_def)
next
  case (interrupts s irq_mask s')
  then show ?case using platform_inv(1) [OF assms(3), of s irq_mask] by (simp add: yields_def)
next
  case (events s s')
  then show ?case using platform_inv(2) [OF assms(3), of s] by (simp add: yields_def)
next
  case (frame s a)
  then show ?case using frame_inv [of s "p_transparent p"] by (metis option.inject)
qed (rule assms(2))

section \<open>A round of the main loop\<close>

text \<open>The two ways a round can go wrong: an event of a peer is about to be dispatched, or a frame is requested
  that is not drawable (or not of the kind \<open>F\<close>).\<close>

definition hazard :: "('w app \<Rightarrow> bool) \<Rightarrow> 'w system \<Rightarrow> bool" where
  "hazard F s \<longleftrightarrow> (\<exists>ev \<in> set (pending (s_events s)). is_serial ev)
     \<or> get_render (a_rs (s_app s)) \<noteq> RENDER_NONE \<and> \<not> (fit (s_app s) \<and> F (s_app s))"

lemma round_reaches:
  assumes "reach F p s0 s" and "system_inv s0" and "platform_ok p"
  shows "\<exists>s1. reach F p s0 s1 \<and> system_inv s1 \<and> (main_round p s = Some s1 \<or> hazard F s1)"
proof -
  have end_state: ?thesis if "reach F p s0 s1" "main_round p s = Some s1 \<or> hazard F s1" for s1
    using that reach_inv [OF that(1) assms(2,3)] by blast
  obtain r w where m: "driver_receive p (a_w (s_app s)) = (r, w)" by fastforce
  define s1 where "s1 = s\<lparr>s_app := (s_app s)\<lparr>a_w := w\<rparr>\<rparr>"
  have r1: "reach F p s0 s1" using reach.message [OF assms(1) m] by (simp add: s1_def)
  show ?thesis
  proof (cases r)
    case None
    then show ?thesis using m by (intro end_state [OF r1]) (simp add: main_round_def s1_def)
  next
    case (Some msg)
    obtain s2 where s2: "(if msg_notify msg \<and> msg_hardware msg then interrupts_handler (e_io (p_env p)) (msg_interrupts msg) s1 else Some s1) = Some s2"
      and r2: "reach F p s0 s2"
    proof (cases "msg_notify msg \<and> msg_hardware msg")
      case True
      then show thesis using that platform_inv(1) [OF assms(3) reach_inv [OF r1 assms(2,3)], of "msg_interrupts msg"] reach.interrupts [OF r1, of "msg_interrupts msg"]
        by (auto simp: yields_def)
    next
      case False
      then show thesis using that [of s1] r1 by auto
    qed
    show ?thesis
    proof (cases "\<exists>ev \<in> set (pending (s_events s2)). is_serial ev")
      case True
      then show ?thesis by (intro end_state [OF r2]) (simp add: hazard_def)
    next
      case False
      then have n: "\<forall>ev \<in> set (pending (s_events s2)). \<not> is_serial ev" by auto
      obtain s3 where s3: "input_dispatch (p_env p) s2 = Some s3" and r3: "reach F p s0 s3"
        using platform_inv(2) [OF assms(3) reach_inv [OF r2 assms(2,3)] n] reach.events [OF r2 n] by (auto simp: yields_def)
      have round: "main_round p s = (if get_render (a_rs (s_app s3)) \<noteq> RENDER_NONE
          then do { a \<leftarrow> view_render (p_transparent p) (s_app s3); Some (s3\<lparr>s_app := a\<rparr>) } else Some s3)"
        using m Some s2 [unfolded s1_def] s3 by (simp add: main_round_def Let_def split del: if_split cong: if_cong)
      show ?thesis
      proof (cases "get_render (a_rs (s_app s3)) \<noteq> RENDER_NONE \<and> fit (s_app s3) \<and> F (s_app s3)")
        case True
        then obtain a where a: "view_render (p_transparent p) (s_app s3) = Some a"
          using frame_inv [OF reach_inv [OF r3 assms(2,3)]] by metis
        then show ?thesis using True by (intro end_state [OF reach.frame [OF r3 _ _ a]]) (simp_all add: round)
      next
        case False
        then show ?thesis by (intro end_state [OF r3]) (auto simp: round hazard_def)
      qed
    qed
  qed
qed


section \<open>What the user sees\<close>

text \<open>Interrupts touch neither the two memories nor the pointer's sprite.\<close>

definition same_picture :: "'w app \<Rightarrow> 'w app \<Rightarrow> bool" where
  "same_picture a b \<longleftrightarrow> a_vd b = a_vd a \<and> a_mc b = a_mc a"

lemma same_pictureI: "a_vd b = a_vd a \<Longrightarrow> a_mc b = a_mc a \<Longrightarrow> same_picture a b"
  by (simp add: same_picture_def)

lemma same_picture_refl [simp]: "same_picture a a"
  by (simp add: same_picture_def)

lemma same_picture_trans: "same_picture a b \<Longrightarrow> same_picture b c \<Longrightarrow> same_picture a c"
  by (simp add: same_picture_def)

lemma same_picture_upd [simp]:
  "same_picture c (a\<lparr>a_tm := t\<rparr>) = same_picture c a" "same_picture c (a\<lparr>a_cb := b\<rparr>) = same_picture c a" "same_picture c (a\<lparr>a_cl := k\<rparr>) = same_picture c a"
  "same_picture c (a\<lparr>a_w := w\<rparr>) = same_picture c a" "same_picture c (a\<lparr>a_rs := r\<rparr>) = same_picture c a" "same_picture c (a\<lparr>a_ms := m\<rparr>) = same_picture c a"
  "same_picture c (render d a) = same_picture c a"
  by (simp_all add: same_picture_def render_def)

lemma same_picture_failing [simp]: "same_picture c (s_app (failing io e m s)) = same_picture c (s_app s)"
  by (simp add: failing_def ignoring_def)

lemma picture_timer: "timer_handler io s = Some s' \<Longrightarrow> same_picture (s_app s) (s_app s')"
  by (auto simp: timer_handler_def Let_def bind_eq_Some_conv split: if_splits prod.splits)

lemma picture_keyboard: "keyboard_handler io s = Some s' \<Longrightarrow> same_picture (s_app s) (s_app s')"
  by (auto simp: keyboard_handler_def Let_def bind_eq_Some_conv split: if_splits prod.splits option.splits)

lemma picture_serial: "serial_handler io s = Some s' \<Longrightarrow> same_picture (s_app s) (s_app s')"
  by (auto simp: serial_handler_def bind_eq_Some_conv split: prod.splits)

lemma picture_mouse: "mouse_handler io s = Some s' \<Longrightarrow> same_picture (s_app s) (s_app s')"
  by (auto simp: mouse_handler_def Let_def bind_eq_Some_conv split: if_splits prod.splits option.splits)

lemma picture_interrupts: "interrupts_handler io irq_mask s = Some s' \<Longrightarrow> same_picture (s_app s) (s_app s')"
  by (auto simp: interrupts_handler_def bind_eq_Some_conv split: if_splits
      dest!: picture_timer picture_keyboard picture_serial picture_mouse intro: same_picture_trans)

text \<open>The screen shows the back buffer.\<close>

definition synced :: "'w app \<Rightarrow> bool" where
  "synced a \<longleftrightarrow> (\<exists>f. in_sync a f)"

lemma in_sync_picture: "same_picture a b \<Longrightarrow> in_sync a f \<Longrightarrow> in_sync b f"
  unfolding in_sync_def same_picture_def by (simp only:)

lemma synced_picture: "same_picture a b \<Longrightarrow> synced a \<Longrightarrow> synced b"
  unfolding synced_def using in_sync_picture by blast

text \<open>A frame that draws only what it copies.\<close>

definition neat :: "'w app \<Rightarrow> bool" where
  "neat a \<longleftrightarrow> (\<exists>t. doc (a_ed a) t \<and> drawable (a_rs a) t a \<and> within (a_rs a) t a)"

lemma frame_synced:
  assumes "system_inv s" and "fit (s_app s)" and "neat (s_app s)" and "synced (s_app s)" and "view_render transparent (s_app s) = Some a"
  shows "synced a"
proof -
  let ?a = "s_app s"
  have ok: "app_ok ?a" "0 \<le> mouse_x (a_ms ?a)" "0 \<le> mouse_y (a_ms ?a)" using assms(1) sys_okD(1) by (auto simp: system_inv_def screen_inv_def)
  obtain t f where "doc (a_ed ?a) t" "drawable (a_rs ?a) t ?a" "within (a_rs ?a) t ?a" "in_sync ?a f"
    using assms(3,4) by (auto simp: neat_def synced_def)
  then obtain a' f' where "view_render transparent ?a = Some a'" "in_sync a' f'"
    using frame_synced_at [of ?a f t transparent] app_okD(2,3) [OF ok(1)] assms(2) ok(2,3) by (auto simp: fit_def)
  with assms(5) show ?thesis by (auto simp: synced_def)
qed

lemma reach_synced:
  assumes "reach neat p s0 s" and "system_inv s0" and "platform_ok p" and "synced (s_app s0)"
  shows "synced (s_app s)"
  using assms(1)
proof induction
  case (message s r w)
  then show ?case using synced_picture [of "s_app s" "(s_app s)\<lparr>a_w := w\<rparr>"] by simp
next
  case (interrupts s irq_mask s')
  then show ?case using picture_interrupts synced_picture by blast
next
  case (events s s')
  have "system_inv s" by (rule reach_inv [OF events(1) assms(2,3)])
  moreover have "synced b" if "same_screen a b" "synced a" for a b :: "'a app"
    using synced_picture [of a b] that by (simp add: same_screen_def same_picture_def)
  ultimately have "yields (input_dispatch (p_env p) s) (\<lambda>s'. sys_ok s' \<and> synced (s_app s'))"
    using assms(3) events(2,4) by (intro dispatch_keeps) (auto simp: system_inv_def platform_ok_def)
  with events(3) show ?case by (simp add: yields_def)
next
  case (frame s a)
  then show ?case using frame_synced [OF reach_inv [OF frame(1) assms(2,3)]] by simp
qed (rule assms(4))


section \<open>Witnesses\<close>

definition test_platform :: "unit platform" where
  "test_platform = \<lparr>p_env = test_env\<lparr>e_io := quiet_machine\<rparr>,
     p_bios = \<lparr>sys_int86 = (\<lambda>_ w. (Some (), w)), vg_exit = (\<lambda>w. (Some (), w)), vbe_get_mode_info = (\<lambda>_ w. (None, w)),
       add_mem = (\<lambda>_ _ w. (Some (), w)), vm_map_phys = (\<lambda>_ _ w. (None, w))\<rparr>,
     p_cursor = None, p_transparent = 0xFF000001, enter_work_dir = (\<lambda>w. w),
     driver_receive = (\<lambda>w. (Some \<lparr>msg_notify = True, msg_hardware = True, msg_interrupts = 0x07\<rparr>, w))\<rparr>"

definition screen_system :: "unit system" where
  "screen_system = test_system\<lparr>s_app := (s_app test_system)\<lparr>a_vd := small_screen\<lparr>video_mem := bytes (pixels 3 2 (plain 5))\<rparr>, a_mc := arrow\<rparr>\<rparr>"

lemma screen_system_ready: "platform_ok test_platform" "in_sync (s_app screen_system) (plain 5)" "system_inv screen_system"
proof -
  show "platform_ok test_platform"
    using quiet_machine_ok test_env_ok(1) by (auto simp: platform_ok_def test_platform_def env_ok_def)
  show sync: "in_sync (s_app screen_system) (plain 5)"
    by (rule in_sync_picture [OF _ demo_frame_in_sync]) (simp add: same_picture_def demo_frame_def screen_system_def)
  have "mouse_x (a_ms (s_app screen_system)) = 0" "mouse_y (a_ms (s_app screen_system)) = 0"
    by (simp_all add: screen_system_def test_system_def system_of_def app_of_def mouse_state0_def)
  moreover have "sys_ok screen_system" using test_system_ok by (simp add: screen_system_def sys_ok_def app_ok_def)
  ultimately show "system_inv screen_system" using in_sync_screen_ok [OF sync] by (simp add: system_inv_def screen_inv_def)
qed



end
